(* ===== verification/Prelude.thy ===== *)
theory Prelude imports Main "HOL-Library.AList" "HOL-Library.List_Lexorder" "HOL-Library.Char_ord" "HOL-Library.Word" "HOL-Library.Multiset"
begin

text \<open>
  Shared vocabulary of the development: the JavaScript values that cross the
  program's JSON boundaries, property access, the insertion-ordered \<open>Map\<close> and
  \<open>Set\<close> of the language, string primitives, and the lemma collections the
  component theories draw on.

  A JavaScript number is modelled by its integer value (\<open>Num\<close>) or by \<open>NonFinite\<close>
  for \<open>NaN\<close> and the infinities; fractional numbers are outside the model. A
  string is a \<open>char list\<close> (code units up to \<open>0xff\<close>). \<open>Undef\<close> is \<open>undefined\<close>,
  which is also what reading an absent property yields.
\<close>

named_theorems wf_intros "preservation facts of the well-formedness invariants"
named_theorems conn_simps "rewrite rules for the message fields a component leaves alone"

subsection \<open>JavaScript values\<close>

datatype js =
    Undef
  | Null
  | Bool bool
  | Num int
  | NonFinite
  | Str string
  | Arr "js list"
  | Obj "(string \<times> js) list"

text \<open>\<open>o["k"]\<close> on a value that is not \<open>null\<close> or \<open>undefined\<close>.\<close>

fun jfield :: "js \<Rightarrow> string \<Rightarrow> js" where
  "jfield (Obj kvs) k = (case map_of kvs k of Some v \<Rightarrow> v | None \<Rightarrow> Undef)"
| "jfield _ k = Undef"

text \<open>\<open>"k" in o\<close>\<close>

fun jhas :: "js \<Rightarrow> string \<Rightarrow> bool" where
  "jhas (Obj kvs) k = (map_of kvs k \<noteq> None)"
| "jhas _ k = False"

text \<open>\<open>v && typeof v === "object"\<close>: arrays are objects, \<open>null\<close> is falsy.\<close>

fun is_object :: "js \<Rightarrow> bool" where
  "is_object (Obj _) = True"
| "is_object (Arr _) = True"
| "is_object _ = False"

fun is_string :: "js \<Rightarrow> bool" where
  "is_string (Str _) = True"
| "is_string _ = False"

fun is_array :: "js \<Rightarrow> bool" where
  "is_array (Arr _) = True"
| "is_array _ = False"

text \<open>\<open>typeof v === "string" ? v : undefined\<close>, and the same for numbers.\<close>

fun as_str :: "js \<Rightarrow> string option" where
  "as_str (Str s) = Some s"
| "as_str _ = None"

fun as_num :: "js \<Rightarrow> int option" where
  "as_num (Num n) = Some n"
| "as_num _ = None"

fun as_bool :: "js \<Rightarrow> bool option" where
  "as_bool (Bool b) = Some b"
| "as_bool _ = None"

lemma as_str_Some [simp]: "as_str v = Some s \<longleftrightarrow> v = Str s"
  by (cases v) auto

lemma as_num_Some [simp]: "as_num v = Some n \<longleftrightarrow> v = Num n"
  by (cases v) auto

lemma is_string_iff: "is_string v \<longleftrightarrow> (\<exists>s. v = Str s)"
  by (cases v) auto

lemma jfield_Str_object: "jfield v k = Str s \<Longrightarrow> is_object v"
  by (cases v) auto

text \<open>
  A value that survives JSON: no \<open>undefined\<close>, no non-finite number, and object
  keys that occur once (as in every JavaScript object).
\<close>

fun json_value :: "js \<Rightarrow> bool" where
  "json_value Undef = False"
| "json_value NonFinite = False"
| "json_value Null = True"
| "json_value (Bool _) = True"
| "json_value (Num _) = True"
| "json_value (Str _) = True"
| "json_value (Arr xs) = (\<forall>x \<in> set xs. json_value x)"
| "json_value (Obj kvs) = (distinct (map fst kvs) \<and> (\<forall>kv \<in> set kvs. json_value (snd kv)))"

subsection \<open>Insertion-ordered maps and sets\<close>

text \<open>
  A JavaScript \<open>Map\<close> iterates in insertion order, and \<open>set\<close> on a present key
  keeps the key's place: this is \<open>AList.update\<close>. \<open>delete\<close> is \<open>AList.delete\<close>.
  A \<open>Set\<close> is a list without repetitions.
\<close>

type_synonym ('k, 'v) omap = "('k \<times> 'v) list"

abbreviation omap_put :: "('k, 'v) omap \<Rightarrow> 'k \<Rightarrow> 'v \<Rightarrow> ('k, 'v) omap" where
  "omap_put m k v \<equiv> AList.update k v m"

abbreviation omap_del :: "('k, 'v) omap \<Rightarrow> 'k \<Rightarrow> ('k, 'v) omap" where
  "omap_del m k \<equiv> AList.delete k m"

abbreviation omap_has :: "('k, 'v) omap \<Rightarrow> 'k \<Rightarrow> bool" where
  "omap_has m k \<equiv> map_of m k \<noteq> None"

abbreviation omap_keys :: "('k, 'v) omap \<Rightarrow> 'k list" where
  "omap_keys m \<equiv> map fst m"

abbreviation omap_wf :: "('k, 'v) omap \<Rightarrow> bool" where
  "omap_wf m \<equiv> distinct (map fst m)"

declare map_of_eq_Some_iff [simp del] Some_eq_map_of_iff [simp del]

definition oset_add :: "'a list \<Rightarrow> 'a \<Rightarrow> 'a list" where
  "oset_add xs x = (if x \<in> set xs then xs else xs @ [x])"

lemma set_oset_add [simp]: "set (oset_add xs x) = insert x (set xs)"
  by (auto simp: oset_add_def)

lemma distinct_oset_add [simp, intro]: "distinct xs \<Longrightarrow> distinct (oset_add xs x)"
  by (auto simp: oset_add_def)

lemma map_of_put [simp]: "map_of (omap_put m k v) = (map_of m)(k \<mapsto> v)"
  by (simp add: AList.update_conv')

lemma map_of_del [simp]: "map_of (omap_del m k) = (map_of m)(k := None)"
  by (simp add: AList.delete_conv')

lemma omap_wf_put [simp, intro]: "omap_wf m \<Longrightarrow> omap_wf (omap_put m k v)"
  by (rule AList.distinct_update)

lemma omap_wf_del [simp, intro]: "omap_wf m \<Longrightarrow> omap_wf (omap_del m k)"
  by (rule AList.distinct_delete)

lemma keys_put [simp]: "fst ` set (omap_put m k v) = insert k (fst ` set m)"
  by (simp add: AList.dom_update)

lemma keys_del [simp]: "fst ` set (omap_del m k) = fst ` set m - {k}"
  by (auto simp: AList.delete_eq)

lemma omap_has_iff: "omap_has m k \<longleftrightarrow> k \<in> fst ` set m"
  by (auto simp: map_of_eq_None_iff)

lemma omap_hasI: "map_of m k = Some v \<Longrightarrow> k \<in> fst ` set m"
  by (metis domI dom_map_of_conv_image_fst)

lemma omap_put_new: "k \<notin> fst ` set m \<Longrightarrow> omap_put m k v = m @ [(k, v)]"
  by (induction m) auto

lemma set_omap_put: "omap_wf m \<Longrightarrow> set (omap_put m k v) = insert (k, v) {kv \<in> set m. fst kv \<noteq> k}"
  by (induction m) (force split: if_splits)+

lemma set_omap_del: "set (omap_del m k) = {kv \<in> set m. fst kv \<noteq> k}"
  by (auto simp: AList.delete_eq)

lemma map_apfst_Some [simp]:
  "map_option (apfst f) x = Some (v, r) \<longleftrightarrow> (\<exists>w. x = Some (w, r) \<and> v = f w)"
  by (cases x) auto

subsection \<open>Strings\<close>

definition starts_with :: "string \<Rightarrow> string \<Rightarrow> bool" where
  "starts_with s p \<longleftrightarrow> take (length p) s = p"

definition ends_with :: "string \<Rightarrow> string \<Rightarrow> bool" where
  "ends_with s p \<longleftrightarrow> length p \<le> length s \<and> drop (length s - length p) s = p"

text \<open>\<open>s.indexOf(c)\<close> for a one-character needle; \<open>None\<close> is \<open>-1\<close>.\<close>

fun index_of :: "string \<Rightarrow> char \<Rightarrow> nat option" where
  "index_of [] c = None"
| "index_of (x # xs) c = (if x = c then Some 0 else map_option Suc (index_of xs c))"

lemma index_of_None: "index_of s c = None \<longleftrightarrow> c \<notin> set s"
  by (induction s) auto

lemma index_of_Some:
  "index_of s c = Some i \<longleftrightarrow> i < length s \<and> s ! i = c \<and> c \<notin> set (take i s)"
proof (induction s arbitrary: i)
  case Nil
  then show ?case by simp
next
  case (Cons x xs)
  then show ?case by (cases i) auto
qed

lemma index_of_append: "c \<notin> set p \<Longrightarrow> index_of (p @ c # q) c = Some (length p)"
  by (induction p) auto

lemma starts_with_append [simp]: "starts_with (p @ s) p"
  by (simp add: starts_with_def)

lemma ends_with_append [simp]: "ends_with (s @ p) p"
  by (simp add: ends_with_def)

lemma ends_with_iff: "ends_with s p \<longleftrightarrow> (\<exists>r. s = r @ p)"
  unfolding ends_with_def
  by (metis append_take_drop_id append_eq_conv_conj diff_diff_cancel drop_append
      length_append length_drop le_add2 add_diff_cancel_right' append_Nil drop_all order_refl
      diff_self_eq_0 drop0)

text \<open>Decimal text of a natural number, as template literals print it.\<close>

fun nat_text :: "nat \<Rightarrow> string" where
  "nat_text n = (if n < 10 then [char_of (48 + n)] else nat_text (n div 10) @ [char_of (48 + n mod 10)])"

declare nat_text.simps [simp del]

definition int_text :: "int \<Rightarrow> string" where
  "int_text i = (if i < 0 then CHR ''-'' # nat_text (nat (- i)) else nat_text (nat i))"

definition is_digit :: "char \<Rightarrow> bool" where
  "is_digit c \<longleftrightarrow> 48 \<le> (of_char c :: nat) \<and> (of_char c :: nat) \<le> 57"

definition digit_val :: "char \<Rightarrow> nat" where
  "digit_val c = of_char c - 48"

definition text_nat :: "string \<Rightarrow> nat" where
  "text_nat s = foldl (\<lambda>a c. 10 * a + digit_val c) 0 s"

lemma is_digit_char_of [simp]: "(d::nat) < 10 \<Longrightarrow> is_digit (char_of (48 + d))"
  by (simp add: is_digit_def)

lemma digit_val_char_of [simp]: "(d::nat) < 10 \<Longrightarrow> digit_val (char_of (48 + d)) = d"
  by (simp add: digit_val_def)

lemma nat_text_nonempty [simp]: "nat_text n \<noteq> []"
  by (subst nat_text.simps) simp

lemma nat_text_digits: "c \<in> set (nat_text n) \<Longrightarrow> is_digit c"
proof (induction n rule: nat_text.induct)
  case (1 n)
  show ?case
  proof (cases "n < 10")
    case True
    with "1.prems" show ?thesis by (subst (asm) nat_text.simps) simp
  next
    case False
    with "1" show ?thesis by (subst (asm) (2) nat_text.simps) auto
  qed
qed

lemma text_nat_snoc: "text_nat (s @ [c]) = 10 * text_nat s + digit_val c"
  by (simp add: text_nat_def)

lemma text_nat_text [simp]: "text_nat (nat_text n) = n"
proof (induction n rule: nat_text.induct)
  case (1 n)
  show ?case
  proof (cases "n < 10")
    case True
    then show ?thesis by (subst nat_text.simps) (simp add: text_nat_def)
  next
    case False
    with "1" show ?thesis by (subst nat_text.simps) (simp add: text_nat_snoc)
  qed
qed

lemma nat_text_inj: "nat_text m = nat_text n \<longleftrightarrow> m = n"
  by (metis text_nat_text)

lemma nat_text_hd_zero: "nat_text n = CHR ''0'' # s \<Longrightarrow> n = 0 \<and> s = []"
proof (induction n arbitrary: s rule: nat_text.induct)
  case (1 n)
  show ?case
  proof (cases "n < 10")
    case True
    with "1.prems" have "char_of (48 + n) = CHR ''0''" and s: "s = []"
      by (subst (asm) nat_text.simps, simp)+
    then have "(of_char (char_of (48 + n) :: char) :: nat) = of_char (CHR ''0'')" by simp
    with True s show ?thesis by simp
  next
    case False
    then have "nat_text n = nat_text (n div 10) @ [char_of (48 + n mod 10)]"
      by (subst nat_text.simps) simp
    with "1.prems" obtain t where "nat_text (n div 10) = CHR ''0'' # t"
      by (cases "nat_text (n div 10)") auto
    with "1.IH" False have "n div 10 = 0" by blast
    with False show ?thesis by simp
  qed
qed

subsection \<open>Stable sorting by a comparator\<close>

text \<open>
  \<open>Array.prototype.sort\<close> is stable; for a consistent comparator its result is the
  only stable rearrangement, which insertion sort computes.
\<close>

fun insert_by :: "('a \<Rightarrow> 'a \<Rightarrow> int) \<Rightarrow> 'a \<Rightarrow> 'a list \<Rightarrow> 'a list" where
  "insert_by cmp x [] = [x]"
| "insert_by cmp x (y # ys) = (if cmp x y \<le> 0 then x # y # ys else y # insert_by cmp x ys)"

fun sort_by :: "('a \<Rightarrow> 'a \<Rightarrow> int) \<Rightarrow> 'a list \<Rightarrow> 'a list" where
  "sort_by cmp [] = []"
| "sort_by cmp (x # xs) = insert_by cmp x (sort_by cmp xs)"

definition consistent_cmp :: "('a \<Rightarrow> 'a \<Rightarrow> int) \<Rightarrow> bool" where
  "consistent_cmp cmp \<longleftrightarrow> (\<forall>x y. cmp x y \<le> 0 \<or> cmp y x \<le> 0)
     \<and> (\<forall>x y z. cmp x y \<le> 0 \<longrightarrow> cmp y z \<le> 0 \<longrightarrow> cmp x z \<le> 0)"

lemma set_insert_by [simp]: "set (insert_by cmp x xs) = insert x (set xs)"
  by (induction xs) auto

lemma set_sort_by [simp]: "set (sort_by cmp xs) = set xs"
  by (induction xs) auto

lemma length_insert_by [simp]: "length (insert_by cmp x xs) = Suc (length xs)"
  by (induction xs) auto

lemma length_sort_by [simp]: "length (sort_by cmp xs) = length xs"
  by (induction xs) auto

lemma distinct_insert_by [simp]: "distinct (insert_by cmp x xs) \<longleftrightarrow> x \<notin> set xs \<and> distinct xs"
  by (induction xs) auto

lemma distinct_sort_by [simp]: "distinct (sort_by cmp xs) = distinct xs"
  by (induction xs) auto

lemma sorted_insert_by:
  assumes "consistent_cmp cmp" and "sorted_wrt (\<lambda>a b. cmp a b \<le> 0) xs"
  shows "sorted_wrt (\<lambda>a b. cmp a b \<le> 0) (insert_by cmp x xs)"
  using assms(2)
proof (induction xs)
  case Nil
  then show ?case by simp
next
  case (Cons y ys)
  show ?case
  proof (cases "cmp x y \<le> 0")
    case True
    with Cons.prems assms(1) show ?thesis by (auto simp: consistent_cmp_def)
  next
    case False
    with assms(1) have "cmp y x \<le> 0" by (auto simp: consistent_cmp_def)
    with False Cons show ?thesis by auto
  qed
qed

lemma sorted_sort_by:
  "consistent_cmp cmp \<Longrightarrow> sorted_wrt (\<lambda>a b. cmp a b \<le> 0) (sort_by cmp xs)"
  by (induction xs) (auto intro: sorted_insert_by)

end
