(* ===== verification/Json.thy ===== *)
theory Json imports Prelude
begin

text \<open>
  \<open>JSON.stringify\<close> and \<open>JSON.parse\<close> as the program uses them: compact output,
  object members in insertion order, \<open>undefined\<close> members dropped, \<open>undefined\<close>
  array elements and non-finite numbers printed as \<open>null\<close>. Numbers are integers:
  a text with a fraction or an exponent is outside the model and is not parsed;
  a \<open>\u\<close> escape above \<open>0xff\<close> is outside the modelled characters likewise.

  The parser spends one unit of fuel per call; \<open>json_parse_fuel\<close> shows that twice the
  text's length is always enough, so \<open>json_parse\<close> never runs out.
  \<open>json_round_trip\<close> and \<open>stringify_no_newline\<close> are what the line-oriented
  protocols rest on.
\<close>

subsection \<open>Printing\<close>

definition hex_char :: "nat \<Rightarrow> char" where
  "hex_char n = (if n < 10 then char_of (48 + n) else char_of (87 + n))"

definition hex_val :: "char \<Rightarrow> nat option" where
  "hex_val c = (let n = of_char c in
     if 48 \<le> n \<and> n \<le> 57 then Some (n - 48)
     else if 97 \<le> n \<and> n \<le> 102 then Some (n - 87)
     else if 65 \<le> n \<and> n \<le> 70 then Some (n - 55)
     else None)"

definition esc_char :: "char \<Rightarrow> string" where
  "esc_char c = (let n = of_char c :: nat in
     if n = 34 then [CHR 0x5C, CHR 0x22]
     else if n = 92 then [CHR 0x5C, CHR 0x5C]
     else if n = 8 then [CHR 0x5C, CHR ''b'']
     else if n = 12 then [CHR 0x5C, CHR ''f'']
     else if n = 10 then [CHR 0x5C, CHR ''n'']
     else if n = 13 then [CHR 0x5C, CHR ''r'']
     else if n = 9 then [CHR 0x5C, CHR ''t'']
     else if n < 32 then [CHR 0x5C, CHR ''u'', CHR ''0'', CHR ''0'', hex_char (n div 16), hex_char (n mod 16)]
     else [c])"

definition quote :: "string \<Rightarrow> string" where
  "quote s = CHR 0x22 # concat (map esc_char s) @ [CHR 0x22]"

fun stringify :: "js \<Rightarrow> string"
and str_elems :: "bool \<Rightarrow> js list \<Rightarrow> string"
and str_members :: "bool \<Rightarrow> (string \<times> js) list \<Rightarrow> string" where
  "stringify Undef = ''null''"
| "stringify Null = ''null''"
| "stringify NonFinite = ''null''"
| "stringify (Bool b) = (if b then ''true'' else ''false'')"
| "stringify (Num i) = int_text i"
| "stringify (Str s) = quote s"
| "stringify (Arr xs) = ''['' @ str_elems True xs @ '']''"
| "stringify (Obj kvs) = ''{'' @ str_members True kvs @ ''}''"
| "str_elems _ [] = ''''"
| "str_elems first (x # xs) = (if first then '''' else '','') @ stringify x @ str_elems False xs"
| "str_members _ [] = ''''"
| "str_members first ((k, v) # kvs) =
     (if v = Undef then str_members first kvs
      else (if first then '''' else '','') @ quote k @ '':'' @ stringify v @ str_members False kvs)"

subsection \<open>Parsing\<close>

definition is_ws :: "char \<Rightarrow> bool" where
  "is_ws c \<longleftrightarrow> of_char c \<in> {32, 9, 10, 13 :: nat}"

definition skip_ws :: "string \<Rightarrow> string" where
  "skip_ws s = dropWhile is_ws s"

definition hex4 :: "char \<Rightarrow> char \<Rightarrow> char \<Rightarrow> char \<Rightarrow> nat option" where
  "hex4 a b c d = (case (hex_val a, hex_val b, hex_val c, hex_val d) of
     (Some w, Some x, Some y, Some z) \<Rightarrow> Some (((w * 16 + x) * 16 + y) * 16 + z)
   | _ \<Rightarrow> None)"

definition unescape :: "char \<Rightarrow> char option" where
  "unescape e = (let n = of_char e :: nat in
     if n = 34 \<or> n = 92 \<or> n = 47 then Some e
     else if e = CHR ''b'' then Some (CHR 0x08)
     else if e = CHR ''f'' then Some (CHR 0x0C)
     else if e = CHR ''n'' then Some (CHR 0x0A)
     else if e = CHR ''r'' then Some (CHR 0x0D)
     else if e = CHR ''t'' then Some (CHR 0x09)
     else None)"

text \<open>The text after an opening quote: the string and what follows its closing quote.\<close>

fun p_str :: "string \<Rightarrow> (string \<times> string) option" where
  "p_str [] = None"
| "p_str (c # r) =
     (if of_char c = (34::nat) then Some ([], r)
      else if of_char c = (92::nat) then
        (case r of
           [] \<Rightarrow> None
         | e # r' \<Rightarrow>
             (if e = CHR ''u'' then
                (case r' of
                   h1 # h2 # h3 # h4 # r'' \<Rightarrow>
                     (case hex4 h1 h2 h3 h4 of
                        Some n \<Rightarrow> (if n < 256 then map_option (apfst (Cons (char_of n))) (p_str r'') else None)
                      | None \<Rightarrow> None)
                 | _ \<Rightarrow> None)
              else (case unescape e of
                      Some x \<Rightarrow> map_option (apfst (Cons x)) (p_str r')
                    | None \<Rightarrow> None)))
      else if of_char c < (32::nat) then None
      else map_option (apfst (Cons c)) (p_str r))"

definition p_nat :: "string \<Rightarrow> (nat \<times> string) option" where
  "p_nat s = (let ds = takeWhile is_digit s; r = dropWhile is_digit s in
     if ds = [] \<or> (hd ds = CHR ''0'' \<and> tl ds \<noteq> []) \<or> (r \<noteq> [] \<and> hd r \<in> {CHR ''.'', CHR ''e'', CHR ''E''})
     then None else Some (text_nat ds, r))"

definition p_num :: "string \<Rightarrow> (js \<times> string) option" where
  "p_num s = (if s \<noteq> [] \<and> hd s = CHR ''-''
     then map_option (apfst (\<lambda>n. Num (- int n))) (p_nat (tl s))
     else map_option (apfst (\<lambda>n. Num (int n))) (p_nat s))"

definition p_word :: "string \<Rightarrow> (js \<times> string) option" where
  "p_word s =
     (if starts_with s ''null'' then Some (Null, drop 4 s)
      else if starts_with s ''true'' then Some (Bool True, drop 4 s)
      else if starts_with s ''false'' then Some (Bool False, drop 5 s)
      else p_num s)"

text \<open>Object members in source order; a repeated key keeps its place and takes the last value.\<close>

definition obj_of :: "(string \<times> js) list \<Rightarrow> js" where
  "obj_of kvs = Obj (foldl (\<lambda>m kv. omap_put m (fst kv) (snd kv)) [] kvs)"

fun p_value :: "nat \<Rightarrow> string \<Rightarrow> (js \<times> string) option"
and p_elems :: "nat \<Rightarrow> string \<Rightarrow> (js list \<times> string) option"
and p_members :: "nat \<Rightarrow> string \<Rightarrow> ((string \<times> js) list \<times> string) option" where
  "p_value 0 s = None"
| "p_value (Suc n) s =
     (case skip_ws s of
        [] \<Rightarrow> None
      | c # r \<Rightarrow>
          (if of_char c = (34::nat) then map_option (apfst Str) (p_str r)
           else if c = CHR ''['' then
             (case skip_ws r of
                [] \<Rightarrow> None
              | d # r' \<Rightarrow> (if d = CHR '']'' then Some (Arr [], r') else map_option (apfst Arr) (p_elems n r)))
           else if c = CHR ''{'' then
             (case skip_ws r of
                [] \<Rightarrow> None
              | d # r' \<Rightarrow> (if d = CHR ''}'' then Some (Obj [], r') else map_option (apfst obj_of) (p_members n r)))
           else p_word (c # r)))"
| "p_elems 0 s = None"
| "p_elems (Suc n) s =
     (case p_value n s of
        None \<Rightarrow> None
      | Some (v, r) \<Rightarrow>
          (case skip_ws r of
             [] \<Rightarrow> None
           | d # r' \<Rightarrow>
               (if d = CHR '','' then map_option (apfst (Cons v)) (p_elems n r')
                else if d = CHR '']'' then Some ([v], r')
                else None)))"
| "p_members 0 s = None"
| "p_members (Suc n) s =
     (case skip_ws s of
        [] \<Rightarrow> None
      | q # r0 \<Rightarrow>
          (if of_char q \<noteq> (34::nat) then None
           else case p_str r0 of
             None \<Rightarrow> None
           | Some (k, r1) \<Rightarrow>
               (case skip_ws r1 of
                  [] \<Rightarrow> None
                | c # r2 \<Rightarrow>
                    (if c \<noteq> CHR '':'' then None
                     else case p_value n r2 of
                       None \<Rightarrow> None
                     | Some (v, r) \<Rightarrow>
                         (case skip_ws r of
                            [] \<Rightarrow> None
                          | d # r' \<Rightarrow>
                              (if d = CHR '','' then map_option (apfst (Cons (k, v))) (p_members n r')
                               else if d = CHR ''}'' then Some ([(k, v)], r')
                               else None))))))"

definition json_parse :: "string \<Rightarrow> js option" where
  "json_parse s = (case p_value (2 * length s + 1) s of
     None \<Rightarrow> None
   | Some (v, r) \<Rightarrow> (if skip_ws r = [] then Some v else None))"

subsection \<open>Strings read back\<close>

lemma hex_val_hex_char [simp]: "n < 16 \<Longrightarrow> hex_val (hex_char n) = Some n"
  by (auto simp: hex_val_def hex_char_def Let_def)

lemma hex_zero [simp]: "hex_val CHR ''0'' = Some 0"
  by (simp add: hex_val_def)

lemma unescape_simps [simp]:
  "unescape CHR 0x22 = Some CHR 0x22" "unescape CHR 0x5C = Some CHR 0x5C"
  "unescape CHR ''b'' = Some CHR 0x08" "unescape CHR ''f'' = Some CHR 0x0C"
  "unescape CHR ''n'' = Some CHR 0x0A" "unescape CHR ''r'' = Some CHR 0x0D"
  "unescape CHR ''t'' = Some CHR 0x09"
  by (simp_all add: unescape_def)

lemma of_char_lits:
  "of_char c = (34::nat) \<longleftrightarrow> c = CHR 0x22" "of_char c = (92::nat) \<longleftrightarrow> c = CHR 0x5C"
  "of_char c = (8::nat) \<longleftrightarrow> c = CHR 0x08" "of_char c = (12::nat) \<longleftrightarrow> c = CHR 0x0C"
  "of_char c = (10::nat) \<longleftrightarrow> c = CHR 0x0A" "of_char c = (13::nat) \<longleftrightarrow> c = CHR 0x0D"
  "of_char c = (9::nat) \<longleftrightarrow> c = CHR 0x09"
  by (simp_all add: of_char_eq_iff [symmetric, where 'a = nat] del: of_char_eq_iff)

lemma p_str_plain:
  "of_char c \<noteq> (34::nat) \<Longrightarrow> of_char c \<noteq> (92::nat) \<Longrightarrow> \<not> of_char c < (32::nat) \<Longrightarrow>
   p_str (c # r) = map_option (apfst (Cons c)) (p_str r)"
  by simp

lemma p_str_escape:
  "e \<noteq> CHR ''u'' \<Longrightarrow> unescape e = Some x \<Longrightarrow>
   p_str (CHR 0x5C # e # r) = map_option (apfst (Cons x)) (p_str r)"
  by simp

lemma p_str_hex:
  "n < 256 \<Longrightarrow> hex4 a b c d = Some n \<Longrightarrow>
   p_str (CHR 0x5C # CHR ''u'' # a # b # c # d # r) = map_option (apfst (Cons (char_of n))) (p_str r)"
  by simp

declare p_str.simps(2) [simp del]

lemma p_str_close [simp]: "p_str (CHR 0x22 # r) = Some ([], r)"
  by (simp add: p_str.simps)

lemma p_str_esc_char: "p_str (esc_char c @ r) = map_option (apfst (Cons c)) (p_str r)"
proof -
  let ?n = "of_char c :: nat"
  show ?thesis
  proof (cases "?n \<in> {34, 92, 8, 12, 10, 13, 9}")
    case True
    then show ?thesis
      by (elim insertE) (simp_all add: of_char_lits esc_char_def p_str_escape)
  next
    case False
    show ?thesis
    proof (cases "?n < 32")
      case True
      have "hex4 CHR ''0'' CHR ''0'' (hex_char (?n div 16)) (hex_char (?n mod 16)) = Some ?n"
        using True by (simp add: hex4_def)
      from p_str_hex [OF _ this, of r] True False show ?thesis
        by (simp add: esc_char_def Let_def)
    next
      case big: False
      with False show ?thesis by (simp add: esc_char_def p_str_plain Let_def)
    qed
  qed
qed

lemma p_str_quote_body: "p_str (concat (map esc_char s) @ CHR 0x22 # r) = Some (s, r)"
  by (induction s) (simp_all add: p_str_esc_char)

lemma p_str_quote: "quote s = CHR 0x22 # q \<Longrightarrow> p_str (q @ r) = Some (s, r)"
  using p_str_quote_body [of s r] by (auto simp: quote_def)

subsection \<open>Numbers read back\<close>

definition delimits :: "string \<Rightarrow> bool" where
  "delimits r \<longleftrightarrow> r = [] \<or> hd r \<in> {CHR '','', CHR '']'', CHR ''}''}"

lemma delimits_simps [simp]:
  "delimits []" "delimits (CHR '','' # r)" "delimits (CHR '']'' # r)" "delimits (CHR ''}'' # r)"
  by (simp_all add: delimits_def)

lemma delimits_not_digit: "delimits r \<Longrightarrow> r = [] \<or> \<not> is_digit (hd r) \<and> hd r \<notin> {CHR ''.'', CHR ''e'', CHR ''E''}"
  by (auto simp: delimits_def is_digit_def)

lemma p_nat_text:
  assumes "delimits r"
  shows "p_nat (nat_text n @ r) = Some (n, r)"
proof -
  from delimits_not_digit [OF assms] have r: "takeWhile is_digit r = []" "dropWhile is_digit r = r"
    by (cases r; auto)+
  have all: "\<forall>c \<in> set (nat_text n). is_digit c" using nat_text_digits by blast
  then have "takeWhile is_digit (nat_text n @ r) = nat_text n" "dropWhile is_digit (nat_text n @ r) = r"
    using r by simp_all
  moreover have "\<not> (hd (nat_text n) = CHR ''0'' \<and> tl (nat_text n) \<noteq> [])"
    using nat_text_hd_zero [of n] by (metis list.collapse nat_text_nonempty)
  ultimately show ?thesis
    using delimits_not_digit [OF assms] by (auto simp: p_nat_def Let_def)
qed

lemma nat_text_hd_digit: "is_digit (hd (nat_text n))"
  by (meson hd_in_set nat_text_digits nat_text_nonempty)

lemma p_num_text:
  assumes "delimits r"
  shows "p_num (int_text i @ r) = Some (Num i, r)"
proof (cases "i < 0")
  case True
  then show ?thesis using p_nat_text [OF assms] by (simp add: p_num_def int_text_def)
next
  case False
  have "hd (nat_text (nat i) @ r) \<noteq> CHR ''-''"
    using nat_text_hd_digit [of "nat i"] by (auto simp: is_digit_def hd_append)
  with False show ?thesis using p_nat_text [OF assms] by (simp add: p_num_def int_text_def)
qed

text \<open>The first character of a printed number is a digit or a minus sign.\<close>

lemma int_text_hd:
  "\<exists>c t. int_text i = c # t \<and> (c = CHR ''-'' \<or> is_digit c)"
proof (cases "i < 0")
  case True
  then show ?thesis by (simp add: int_text_def)
next
  case False
  then show ?thesis
    using nat_text_hd_digit [of "nat i"] by (cases "nat_text (nat i)") (auto simp: int_text_def)
qed

lemma p_word_num:
  assumes "delimits r"
  shows "p_word (int_text i @ r) = Some (Num i, r)"
proof -
  from int_text_hd obtain c t where c: "int_text i = c # t" "c = CHR ''-'' \<or> is_digit c" by blast
  then have "c \<noteq> CHR ''n''" "c \<noteq> CHR ''t''" "c \<noteq> CHR ''f''" by (auto simp: is_digit_def)
  with c p_num_text [OF assms, of i] show ?thesis
    by (simp add: p_word_def starts_with_def)
qed

subsection \<open>The round trip\<close>

lemma skip_ws_simps [simp]: "skip_ws [] = []" "skip_ws (c # s) = (if is_ws c then skip_ws s else c # s)"
  by (simp_all add: skip_ws_def)

lemma is_ws_simps [simp]:
  "\<not> is_ws CHR 0x22" "\<not> is_ws CHR ''['' " "\<not> is_ws CHR '']''" "\<not> is_ws CHR ''{''" "\<not> is_ws CHR ''}''"
  "\<not> is_ws CHR '',''" "\<not> is_ws CHR '':''" "\<not> is_ws CHR ''n''" "\<not> is_ws CHR ''t''" "\<not> is_ws CHR ''f''"
  "\<not> is_ws CHR ''-''"
  by (simp_all add: is_ws_def)

lemma is_digit_not_ws: "is_digit c \<Longrightarrow> \<not> is_ws c"
  by (auto simp: is_ws_def is_digit_def)

lemma stringify_hd:
  "\<exists>c t. stringify v = c # t \<and> \<not> is_ws c \<and> c \<noteq> CHR '']'' \<and> c \<noteq> CHR ''}''"
proof (cases v)
  case (Num i)
  then show ?thesis using int_text_hd [of i] by (auto simp: is_digit_def is_ws_def)
qed (auto simp: quote_def)

lemma obj_of_distinct:
  assumes "omap_wf kvs"
  shows "obj_of kvs = Obj kvs"
proof -
  have "omap_wf (m @ kvs) \<Longrightarrow> foldl (\<lambda>m kv. omap_put m (fst kv) (snd kv)) m kvs = m @ kvs" for m
  proof (induction kvs arbitrary: m)
    case Nil
    then show ?case by simp
  next
    case (Cons kv kvs)
    then have "omap_put m (fst kv) (snd kv) = m @ [kv]" by (simp add: omap_put_new)
    with Cons show ?case by simp
  qed
  from this [of "[]"] assms show ?thesis by (simp add: obj_of_def)
qed

lemma p_elems_first:
  "str_elems False xs @ CHR '']'' # r = d # t \<Longrightarrow> xs \<noteq> [] \<Longrightarrow>
   d = CHR '','' \<and> t = str_elems True xs @ CHR '']'' # r"
  by (cases xs) auto

lemma p_value_digit:
  assumes "delimits r"
  shows "p_value (Suc n) (int_text i @ r) = Some (Num i, r)"
proof -
  from int_text_hd obtain c t where c: "int_text i = c # t" "c = CHR ''-'' \<or> is_digit c" by blast
  then have "\<not> is_ws c" "of_char c \<noteq> (34::nat)" "c \<noteq> CHR ''[''" "c \<noteq> CHR ''{''"
    using is_digit_not_ws by (auto simp: is_digit_def)
  with c p_word_num [OF assms, of i] show ?thesis by simp
qed

lemma quote_Cons: "quote s = CHR 0x22 # (concat (map esc_char s) @ [CHR 0x22])"
  by (simp add: quote_def)

lemma p_value_stringify:
  "json_value v \<Longrightarrow> delimits r \<Longrightarrow> 2 * length (stringify v) < n \<Longrightarrow>
     p_value n (stringify v @ r) = Some (v, r)"
  "\<forall>x \<in> set xs. json_value x \<Longrightarrow> xs \<noteq> [] \<Longrightarrow> 2 * length (str_elems True xs) + 1 < m \<Longrightarrow>
     p_elems m (str_elems True xs @ CHR '']'' # r) = Some (xs, r)"
  "\<forall>kv \<in> set kvs. json_value (snd kv) \<Longrightarrow> kvs \<noteq> [] \<Longrightarrow> 2 * length (str_members True kvs) + 1 < k \<Longrightarrow>
     p_members k (str_members True kvs @ CHR ''}'' # r) = Some (kvs, r)"
proof (induction v and "b :: bool" xs and "b' :: bool" kvs arbitrary: n r and m r and k r
    rule: stringify_str_elems_str_members.induct)
  case (2 n r)
  then show ?case by (cases n) (auto simp: p_word_def starts_with_def)
next
  case (4 b n r)
  then show ?case by (cases n) (auto simp: p_word_def starts_with_def split: if_splits)
next
  case (5 i n r)
  then show ?case using p_value_digit by (cases n) (simp_all del: p_value.simps)
next
  case (6 s n r)
  then show ?case by (cases n) (auto simp: quote_Cons p_str_quote_body)
next
  case (7 xs n r)
  then obtain n' where n: "n = Suc n'" by (cases n) auto
  show ?case
  proof (cases xs)
    case Nil
    with n show ?thesis by simp
  next
    case (Cons x ys)
    from stringify_hd [of x] obtain c t where
      c: "stringify x = c # t" "\<not> is_ws c" "c \<noteq> CHR '']''" by blast
    have "p_elems n' (str_elems True xs @ CHR '']'' # r) = Some (xs, r)"
      using "7" n Cons by simp
    with n Cons c show ?thesis by simp
  qed
next
  case (8 kvs n r)
  then obtain n' where n: "n = Suc n'" by (cases n) auto
  have kvs: "omap_wf kvs" using "8.prems" by simp
  show ?case
  proof (cases kvs)
    case Nil
    with n show ?thesis by simp
  next
    case (Cons kv kvs')
    obtain key v where kv: "kv = (key, v)" by (cases kv)
    with Cons "8.prems" have v: "v \<noteq> Undef" by auto
    have "p_members n' (str_members True kvs @ CHR ''}'' # r) = Some (kvs, r)"
      using "8" n Cons by simp
    then show ?thesis
      using n Cons kv v obj_of_distinct [OF kvs] by (simp add: quote_Cons)
  qed
next
  case (10 first x xs m r)
  then obtain m' where m: "m = Suc m'" by (cases m) auto
  have x: "p_value m' (stringify x @ r') = Some (x, r')" if "delimits r'" for r'
    using "10.IH"(1) "10.prems" that m by simp
  show ?case
  proof (cases xs)
    case Nil
    with m x [of "CHR '']'' # r"] show ?thesis by simp
  next
    case (Cons y ys)
    have "p_elems m' (str_elems True xs @ CHR '']'' # r) = Some (xs, r)"
      using "10" m Cons by simp
    with m x Cons show ?thesis by simp
  qed
next
  case (12 first key v kvs k r)
  then obtain k' where k: "k = Suc k'" by (cases k) auto
  have nu: "v \<noteq> Undef" using "12.prems" by auto
  have v: "p_value k' (stringify v @ r') = Some (v, r')" if "delimits r'" for r'
    using "12.IH"(2) [OF nu] "12.prems" that k nu by simp
  show ?case
  proof (cases kvs)
    case Nil
    with k nu v [of "CHR ''}'' # r"] show ?thesis by (simp add: quote_Cons p_str_quote_body)
  next
    case (Cons kv kvs')
    with "12.prems" have nu': "snd kv \<noteq> Undef" by auto
    have "p_members k' (str_members True kvs @ CHR ''}'' # r) = Some (kvs, r)"
      using "12.IH"(3) [OF nu] "12.prems" k Cons nu nu' by (cases kv) simp
    with k v Cons nu nu' show ?thesis by (cases kv) (simp add: quote_Cons p_str_quote_body)
  qed
qed simp_all

lemma json_round_trip: "json_value v \<Longrightarrow> json_parse (stringify v) = Some v"
  using p_value_stringify(1) [of v "[]" "2 * length (stringify v) + 1"]
  by (simp add: json_parse_def)

subsection \<open>Printed values hold no line break\<close>

lemma nat_text_no_newline: "CHR 0x0A \<notin> set (nat_text n)"
  by (auto simp: is_digit_def dest: nat_text_digits)

lemma hex_char_no_newline: "n < 16 \<Longrightarrow> hex_char n \<noteq> CHR 0x0A"
proof
  assume n: "n < 16" and "hex_char n = CHR 0x0A"
  then have "hex_val CHR 0x0A = Some n" using hex_val_hex_char by metis
  then show False by (simp add: hex_val_def)
qed

lemma esc_char_no_newline: "CHR 0x0A \<notin> set (esc_char c)"
proof (cases "of_char c < (32::nat)")
  case True
  then have "hex_char (of_char c div 16) \<noteq> CHR 0x0A" "hex_char (of_char c mod 16) \<noteq> CHR 0x0A"
    by (auto intro!: hex_char_no_newline)
  then show ?thesis by (auto simp: esc_char_def Let_def)
next
  case False
  then show ?thesis by (auto simp: esc_char_def Let_def)
qed

lemma quote_no_newline: "CHR 0x0A \<notin> set (quote s)"
  using esc_char_no_newline by (auto simp: quote_def)

lemma stringify_no_newline:
  "CHR 0x0A \<notin> set (stringify v)"
  "CHR 0x0A \<notin> set (str_elems b xs)"
  "CHR 0x0A \<notin> set (str_members b' kvs)"
  by (induction v and b xs and b' kvs rule: stringify_str_elems_str_members.induct)
    (auto simp: int_text_def nat_text_no_newline quote_no_newline)

lemma stringify_nonempty [simp]: "stringify v \<noteq> []"
  using stringify_hd [of v] by auto

subsection \<open>Fuel never decides a parse\<close>

lemma skip_ws_length: "length (skip_ws s) \<le> length s"
  by (simp add: skip_ws_def length_dropWhile_le)

lemma skip_ws_Cons: "skip_ws s = c # r \<Longrightarrow> length r < length s"
  using skip_ws_length [of s] by simp

lemma p_str_shorter: "p_str s = Some (x, r) \<Longrightarrow> length r < length s"
proof (induction s arbitrary: x r rule: measure_induct_rule [where f = length])
  case (less s)
  have IH: "length q < length t" if "p_str t = Some (y, q)" "length t < length s" for t y q
    using less.IH that by blast
  show ?case
  proof (cases s)
    case Nil
    with less.prems show ?thesis by simp
  next
    case (Cons c r0)
    with less.prems show ?thesis
      by (auto simp: p_str.simps(2) split: if_splits list.splits option.splits dest!: IH)
  qed
qed

lemma p_num_shorter: "p_num s = Some (v, r) \<Longrightarrow> length r < length s"
proof -
  have nat: "length r < length s" if n: "p_nat s = Some (n, r)" for s n r
  proof -
    from n have "takeWhile is_digit s \<noteq> []" and r: "r = dropWhile is_digit s"
      by (auto simp: p_nat_def Let_def split: if_splits)
    then have "length (takeWhile is_digit s) + length r = length s"
      by (metis length_append takeWhile_dropWhile_id)
    with \<open>takeWhile is_digit s \<noteq> []\<close> show ?thesis by (cases "takeWhile is_digit s") auto
  qed
  assume "p_num s = Some (v, r)"
  then show ?thesis
    by (cases s) (auto simp: p_num_def split: if_splits dest!: nat)
qed

lemma p_word_shorter: "p_word s = Some (v, r) \<Longrightarrow> length r < length s"
  by (cases s) (auto simp: p_word_def starts_with_def split: if_splits dest: p_num_shorter)

lemma p_value_shorter:
  "(p_value n s = Some (v, r) \<longrightarrow> length r < length s)
   \<and> (p_elems n s = Some (vs, r) \<longrightarrow> length r < length s)
   \<and> (p_members n s = Some (kvs, r) \<longrightarrow> length r < length s)"
proof (induction n arbitrary: s v r vs kvs)
  case 0
  then show ?case by simp
next
  case (Suc n)
  have V: "length q < length t" if "p_value n t = Some (w, q)" for t w q using Suc that by blast
  have E: "length q < length t" if "p_elems n t = Some (w, q)" for t w q using Suc that by blast
  have M: "length q < length t" if "p_members n t = Some (w, q)" for t w q using Suc that by blast
  have 1: "length r < length s" if p: "p_value (Suc n) s = Some (v, r)"
  proof -
    from p obtain c r0 where c: "skip_ws s = c # r0" by (auto split: list.splits)
    have "length r < Suc (length r0)"
      using p c
      by (auto split: list.splits if_splits dest!: p_str_shorter p_word_shorter dest: skip_ws_Cons)
        (fastforce dest: E M)+
    with skip_ws_Cons [OF c] show ?thesis by simp
  qed
  have 2: "length r < length s" if p: "p_elems (Suc n) s = Some (vs, r)"
  proof -
    from p obtain w q where w: "p_value n s = Some (w, q)" by (auto split: option.splits)
    from p w obtain d q' where d: "skip_ws q = d # q'" by (auto split: list.splits)
    from p w d have "r = q' \<or> (\<exists>ws. p_elems n q' = Some (ws, r))"
      by (auto split: if_splits)
    with V [OF w] skip_ws_Cons [OF d] E show ?thesis by (auto dest!: E)
  qed
  have 3: "length r < length s" if p: "p_members (Suc n) s = Some (kvs, r)"
  proof -
    from p obtain q r0 where c: "skip_ws s = q # r0" "of_char q = (34::nat)"
      by (auto split: list.splits if_splits)
    with p obtain key r1 where k: "p_str r0 = Some (key, r1)"
      by (auto split: option.splits)
    with p c obtain r2 where r2: "skip_ws r1 = CHR '':'' # r2"
      by (auto split: if_splits list.splits)
    with p c k obtain w r3 where w: "p_value n r2 = Some (w, r3)"
      by (auto split: option.splits)
    with p c k r2 obtain d q' where d: "skip_ws r3 = d # q'"
      by (auto split: list.splits)
    from p c k r2 w d have "r = q' \<or> (\<exists>ws. p_members n q' = Some (ws, r))"
      by (auto split: if_splits)
    with skip_ws_Cons [OF c(1)] p_str_shorter [OF k] skip_ws_Cons [OF r2] V [OF w] skip_ws_Cons [OF d]
    show ?thesis by (auto dest!: M)
  qed
  from 1 2 3 show ?case by blast
qed

lemma p_value_length: "p_value n s = Some (v, r) \<Longrightarrow> length r < length s"
  using p_value_shorter by blast

lemma p_value_fuel:
  "(2 * length s < n \<longrightarrow> 2 * length s < n' \<longrightarrow> p_value n s = p_value n' s)
   \<and> (2 * length s + 1 < n \<longrightarrow> 2 * length s + 1 < n' \<longrightarrow> p_elems n s = p_elems n' s)
   \<and> (2 * length s + 1 < n \<longrightarrow> 2 * length s + 1 < n' \<longrightarrow> p_members n s = p_members n' s)"
proof (induction n arbitrary: s n')
  case 0
  then show ?case by simp
next
  case (Suc n)
  show ?case
  proof (cases n')
    case 0
    then show ?thesis by simp
  next
    case n': (Suc m)
    have V: "p_value n t = p_value m t" if "2 * length t < n" "2 * length t < m" for t
      using Suc that by blast
    have E: "p_elems n t = p_elems m t" if "2 * length t + 1 < n" "2 * length t + 1 < m" for t
      using Suc that by blast
    have M: "p_members n t = p_members m t" if "2 * length t + 1 < n" "2 * length t + 1 < m" for t
      using Suc that by blast
    have 1: "p_value (Suc n) s = p_value (Suc m) s" if "2 * length s < Suc n" "2 * length s < Suc m"
    proof (cases "skip_ws s")
      case (Cons c r0)
      with skip_ws_Cons [OF Cons] that have "p_elems n r0 = p_elems m r0" "p_members n r0 = p_members m r0"
        by (auto intro!: E M)
      with Cons show ?thesis by (simp split: list.splits)
    qed simp
    have 2: "p_elems (Suc n) s = p_elems (Suc m) s"
      if "2 * length s + 1 < Suc n" "2 * length s + 1 < Suc m"
    proof -
      have same: "p_elems n q' = p_elems m q'"
        if "p_value m s = Some (w, q)" "skip_ws q = d # q'" for w q d q'
        using that \<open>2 * length s + 1 < Suc n\<close> \<open>2 * length s + 1 < Suc m\<close>
          p_value_length [of m s w q] skip_ws_Cons [of q d q'] by (intro E) auto
      have "p_value n s = p_value m s" using that by (intro V) auto
      with same show ?thesis by (auto split: option.splits list.splits)
    qed
    have 3: "p_members (Suc n) s = p_members (Suc m) s"
      if lens: "2 * length s + 1 < Suc n" "2 * length s + 1 < Suc m"
    proof -
      have v: "p_value n r2 = p_value m r2"
        if "skip_ws s = q # r0" "p_str r0 = Some (key, r1)" "skip_ws r1 = c # r2" for q r0 key r1 c r2
      proof -
        from that have "length r2 < length s"
          using p_str_shorter skip_ws_Cons by (meson less_trans)
        with lens show ?thesis by (intro V) auto
      qed
      have same: "p_members n q' = p_members m q'"
        if "skip_ws s = q # r0" "p_str r0 = Some (key, r1)" "skip_ws r1 = c # r2"
          "p_value m r2 = Some (w, r3)" "skip_ws r3 = d # q'" for q r0 key r1 c r2 w r3 d q'
      proof -
        from that have "length q' < length s"
          using p_value_length [of m r2 w r3] p_str_shorter skip_ws_Cons
          by (meson less_trans)
        with lens show ?thesis by (intro M) auto
      qed
      from v same show ?thesis by (auto split: option.splits list.splits)
    qed
    from 1 2 3 n' show ?thesis by blast
  qed
qed

lemma json_parse_fuel:
  "2 * length s < n \<Longrightarrow> json_parse s =
     (case p_value n s of None \<Rightarrow> None | Some (v, r) \<Rightarrow> (if skip_ws r = [] then Some v else None))"
  using p_value_fuel [of s n "2 * length s + 1"] by (simp add: json_parse_def)

subsection \<open>Parsed values are JSON values\<close>

lemma obj_of_json:
  assumes "\<forall>kv \<in> set kvs. json_value (snd kv)"
  shows "json_value (obj_of kvs)"
proof -
  have "json_value (Obj m) \<Longrightarrow> json_value (Obj (foldl (\<lambda>m kv. omap_put m (fst kv) (snd kv)) m kvs))" for m
    using assms
  proof (induction kvs arbitrary: m)
    case Nil
    then show ?case by simp
  next
    case (Cons kv kvs)
    then have "json_value (Obj (omap_put m (fst kv) (snd kv)))"
      by (auto simp: set_omap_put)
    with Cons.IH [of "omap_put m (fst kv) (snd kv)"] Cons.prems show ?case
      by (simp del: json_value.simps)
  qed
  from this [of "[]"] show ?thesis by (simp add: obj_of_def)
qed

lemma p_word_json: "p_word s = Some (v, r) \<Longrightarrow> json_value v"
  by (auto simp: p_word_def p_num_def split: if_splits)

lemma p_value_json:
  "(p_value n s = Some (v, r) \<longrightarrow> json_value v)
   \<and> (p_elems n s = Some (vs, r) \<longrightarrow> (\<forall>x \<in> set vs. json_value x))
   \<and> (p_members n s = Some (kvs, r) \<longrightarrow> (\<forall>kv \<in> set kvs. json_value (snd kv)))"
proof (induction n arbitrary: s v r vs kvs)
  case 0
  then show ?case by simp
next
  case (Suc n)
  have V: "json_value w" if "p_value n t = Some (w, q)" for t w q using Suc that by blast
  have E: "\<forall>x \<in> set w. json_value x" if "p_elems n t = Some (w, q)" for t w q using Suc that by blast
  have M: "\<forall>kv \<in> set w. json_value (snd kv)" if "p_members n t = Some (w, q)" for t w q
    using Suc that by blast
  have "p_value (Suc n) s = Some (v, r) \<Longrightarrow> json_value v"
    by (auto split: list.splits if_splits dest: p_word_json E M intro: obj_of_json)
  moreover have "p_elems (Suc n) s = Some (vs, r) \<Longrightarrow> \<forall>x \<in> set vs. json_value x"
    by (auto split: list.splits if_splits option.splits) (blast dest: V E)+
  moreover have "p_members (Suc n) s = Some (kvs, r) \<Longrightarrow> \<forall>kv \<in> set kvs. json_value (snd kv)"
    by (auto split: list.splits if_splits option.splits dest!: V) (use M in fastforce)
  ultimately show ?case by blast
qed

lemma json_parse_value: "json_parse s = Some v \<Longrightarrow> json_value v"
  using p_value_json [of "2 * length s + 1" s v]
  by (auto simp: json_parse_def simp del: p_value.simps split: option.splits if_splits)

lemma json_value_field: "json_value v \<Longrightarrow> jhas v k \<Longrightarrow> json_value (jfield v k)"
  by (cases v) (fastforce dest: map_of_SomeD)+

end
