(* ===== verification/Names.thy ===== *)
theory Names imports Json
begin

text \<open>
  Agent names, peer addresses and the per-folder configuration that supplies the
  name: \<open>session/local_config.ts\<close> and the address helpers of \<open>session/broker.ts\<close>
  and \<open>session/broker_remote.ts\<close>. The regular expressions are written out as list
  functions. The lemmas show that a sanitised name is free of every addressing
  separator, so that an address determines the folder and the name it was
  composed from, and that sanitising is idempotent.
\<close>

subsection \<open>Segments\<close>

text \<open>White space as \<open>trim\<close> and \<open>\s\<close> see it, and the characters of \<open>[/:@#\s]\<close>.\<close>

definition is_space :: "char \<Rightarrow> bool" where
  "is_space c \<longleftrightarrow> of_char c \<in> {9, 10, 11, 12, 13, 32, 160 :: nat}"

definition is_separator :: "char \<Rightarrow> bool" where
  "is_separator c \<longleftrightarrow> c \<in> {CHR ''/'', CHR '':'', CHR ''@'', CHR ''#''} \<or> is_space c"

definition strip :: "(char \<Rightarrow> bool) \<Rightarrow> string \<Rightarrow> string" where
  "strip P s = rev (dropWhile P (rev (dropWhile P s)))"

definition trim :: "string \<Rightarrow> string" where
  "trim s = strip is_space s"

text \<open>\<open>replace(/[P]+/g, "-")\<close>: every maximal run becomes one dash.\<close>

function squash :: "(char \<Rightarrow> bool) \<Rightarrow> string \<Rightarrow> string" where
  "squash P [] = []"
| "squash P (c # s) = (if P c then CHR ''-'' # squash P (dropWhile P s) else c # squash P s)"
  by pat_completeness auto
termination
  by (relation "measure (\<lambda>(P, s). length s)") (auto simp: less_Suc_eq_le length_dropWhile_le)

definition is_dash :: "char \<Rightarrow> bool" where
  "is_dash c \<longleftrightarrow> c = CHR ''-''"

definition lower :: "char \<Rightarrow> char" where
  "lower c = (let n = of_char c :: nat in if 65 \<le> n \<and> n \<le> 90 then char_of (n + 32) else c)"

definition reserved :: "string \<Rightarrow> bool" where
  "reserved s \<longleftrightarrow> map lower s \<in> {''broadcast'', ''broker''}"

definition sanitizeSegment :: "js \<Rightarrow> string option" where
  "sanitizeSegment v = (case v of
     Str s \<Rightarrow>
       (let token = strip is_dash (squash is_dash (squash is_separator (trim s))) in
        if token = [] then None else if reserved token then None else Some token)
   | _ \<Rightarrow> None)"

text \<open>A trailing \<open>#<digits>\<close> and what precedes it.\<close>

definition split_suffix :: "string \<Rightarrow> (string \<times> string) option" where
  "split_suffix raw = (let ds = takeWhile is_digit (rev raw); rest = dropWhile is_digit (rev raw) in
     if ds \<noteq> [] \<and> rest \<noteq> [] \<and> hd rest = CHR ''#''
     then Some (rev (tl rest), CHR ''#'' # rev ds) else None)"

definition has_line_break :: "string \<Rightarrow> bool" where
  "has_line_break s \<longleftrightarrow> CHR 0x0A \<in> set s \<or> CHR 0x0D \<in> set s"

text \<open>
  The pattern \<open>/^(.*?)(#\d+)?$/\<close> fails on a text with a line break, where the
  code falls back to sanitising the whole text.
\<close>

definition sanitizeMeshName :: "string \<Rightarrow> string" where
  "sanitizeMeshName raw =
     (if has_line_break raw then (case sanitizeSegment (Str raw) of Some b \<Rightarrow> b | None \<Rightarrow> ''agent'')
      else case split_suffix raw of
        Some (b, sfx) \<Rightarrow> (case sanitizeSegment (Str b) of Some b' \<Rightarrow> b' | None \<Rightarrow> ''agent'') @ sfx
      | None \<Rightarrow> (case sanitizeSegment (Str raw) of Some b \<Rightarrow> b | None \<Rightarrow> ''agent''))"

definition composeAddress :: "string option \<Rightarrow> string \<Rightarrow> string \<Rightarrow> string" where
  "composeAddress pc cwd name =
     (let base = (if cwd \<noteq> [] then cwd @ ''@'' @ name else name) in
      case pc of Some p \<Rightarrow> (if p \<noteq> [] then p @ '':'' @ base else base) | None \<Rightarrow> base)"

definition parseAddress :: "string \<Rightarrow> (string \<times> string) option" where
  "parseAddress to = (case index_of to CHR '':'' of
     None \<Rightarrow> None
   | Some idx \<Rightarrow> (if idx = 0 \<or> idx = length to - 1 then None
                  else Some (take idx to, drop (idx + 1) to)))"

subsection \<open>The folder's configuration\<close>

record local_config =
  agent_name :: "string option"
  auto_start_relay :: "bool option"

definition empty_config :: local_config where
  "empty_config = \<lparr>agent_name = None, auto_start_relay = None\<rparr>"

definition last_segment :: "string \<Rightarrow> string" where
  "last_segment s = rev (takeWhile (\<lambda>c. c \<noteq> CHR ''/'') (rev s))"

definition migrateAgentName :: "string \<Rightarrow> string option" where
  "migrateAgentName raw =
     (let leaf = (if CHR ''/'' \<in> set raw then last_segment raw else raw);
          clean = trim (case split_suffix leaf of Some (b, _) \<Rightarrow> b | None \<Rightarrow> leaf) in
      if clean \<noteq> [] then Some clean else None)"

definition config_of_json :: "js \<Rightarrow> local_config option" where
  "config_of_json parsed =
     (if \<not> is_object parsed \<or> is_array parsed then None
      else Some \<lparr>agent_name = (case jfield parsed ''agent_name'' of Str s \<Rightarrow> migrateAgentName s | _ \<Rightarrow> None),
                 auto_start_relay = as_bool (jfield parsed ''auto_start_relay'')\<rparr>)"

definition parseLocalConfig :: "string \<Rightarrow> local_config option" where
  "parseLocalConfig raw = Option.bind (json_parse raw) config_of_json"

text \<open>The environment variable is a parameter: \<open>None\<close> when unset.\<close>

definition directConfig :: "string option \<Rightarrow> local_config option" where
  "directConfig env = (case env of
     None \<Rightarrow> None
   | Some raw \<Rightarrow> (if raw = [] \<or> trim raw = [] then None else parseLocalConfig raw))"

text \<open>A config file: absent, unreadable (reading throws), or its text.\<close>

datatype config_file = NoFile | Unreadable | Text string

definition localConfigExists :: "string option \<Rightarrow> config_file \<Rightarrow> bool" where
  "localConfigExists env f \<longleftrightarrow> directConfig env \<noteq> None \<or> f \<noteq> NoFile"

definition loadLocalConfig :: "string option \<Rightarrow> config_file \<Rightarrow> local_config" where
  "loadLocalConfig env f = (case directConfig env of
     Some c \<Rightarrow> c
   | None \<Rightarrow> (case f of
        NoFile \<Rightarrow> empty_config
      | Unreadable \<Rightarrow> empty_config
      | Text t \<Rightarrow> (case parseLocalConfig t of Some c \<Rightarrow> c | None \<Rightarrow> empty_config)))"

text \<open>
  The object \<open>saveLocalConfig\<close> writes (pretty-printed by the code; any printing of
  it parses back to it). A field of the patch overrides the current one where it
  is present; \<open>auto_start_relay\<close> is always made explicit.
\<close>

definition saved_config :: "local_config \<Rightarrow> local_config \<Rightarrow> local_config" where
  "saved_config current patch =
     (let next = \<lparr>agent_name = (case agent_name patch of Some n \<Rightarrow> Some n | None \<Rightarrow> agent_name current),
                  auto_start_relay = (case auto_start_relay patch of Some b \<Rightarrow> Some b | None \<Rightarrow> auto_start_relay current)\<rparr> in
      if auto_start_relay next = None then next\<lparr>auto_start_relay := Some True\<rparr> else next)"

definition config_to_json :: "local_config \<Rightarrow> js" where
  "config_to_json c = Obj
     ((case agent_name c of Some n \<Rightarrow> [(''agent_name'', Str n)] | None \<Rightarrow> []) @
      (case auto_start_relay c of Some b \<Rightarrow> [(''auto_start_relay'', Bool b)] | None \<Rightarrow> []))"

definition saveLocalConfig :: "string option \<Rightarrow> config_file \<Rightarrow> local_config \<Rightarrow> js" where
  "saveLocalConfig env f patch = config_to_json (saved_config (loadLocalConfig env f) patch)"

text \<open>\<open>path.basename\<close> on POSIX: trailing slashes are ignored.\<close>

definition basename :: "string \<Rightarrow> string" where
  "basename p = last_segment (rev (dropWhile (\<lambda>c. c = CHR ''/'') (rev p)))"

definition defaultAgentName :: "string \<Rightarrow> string" where
  "defaultAgentName cwd = (if basename cwd \<noteq> [] then basename cwd else ''agent'')"

definition effectiveAutoStartRelay :: "local_config \<Rightarrow> bool" where
  "effectiveAutoStartRelay cfg \<longleftrightarrow> auto_start_relay cfg \<noteq> Some False"

subsection \<open>What a sanitised segment looks like\<close>

lemma strip_subset: "set (strip P s) \<subseteq> set s"
  by (rule subsetI) (auto simp: strip_def dest!: set_dropWhileD)

lemma strip_prefix: "\<exists>t. dropWhile P s = strip P s @ t"
proof -
  have "rev (dropWhile P s) = takeWhile P (rev (dropWhile P s)) @ dropWhile P (rev (dropWhile P s))"
    by simp
  then have "dropWhile P s = strip P s @ rev (takeWhile P (rev (dropWhile P s)))"
    unfolding strip_def by (metis rev_append rev_rev_ident)
  then show ?thesis by blast
qed

lemma strip_last: "strip P s \<noteq> [] \<Longrightarrow> \<not> P (last (strip P s))"
  by (simp add: strip_def last_rev hd_dropWhile)

lemma strip_hd: "strip P s \<noteq> [] \<Longrightarrow> \<not> P (hd (strip P s))"
proof -
  assume ne: "strip P s \<noteq> []"
  obtain t where t: "dropWhile P s = strip P s @ t" using strip_prefix by blast
  with ne have "hd (strip P s) = hd (dropWhile P s)" "dropWhile P s \<noteq> []" by auto
  then show ?thesis using hd_dropWhile by metis
qed

lemma strip_id: "s = [] \<or> \<not> P (hd s) \<and> \<not> P (last s) \<Longrightarrow> strip P s = s"
proof -
  assume a: "s = [] \<or> \<not> P (hd s) \<and> \<not> P (last s)"
  have "dropWhile P s = s" using a by (cases s) auto
  moreover have "dropWhile P (rev s) = rev s" using a by (cases s rule: rev_cases) auto
  ultimately show ?thesis by (simp add: strip_def)
qed

lemma squash_chars: "c \<in> set (squash P s) \<Longrightarrow> c = CHR ''-'' \<or> c \<in> set s \<and> \<not> P c"
  by (induction P s rule: squash.induct) (auto split: if_splits dest: set_dropWhileD)

lemma squash_id: "\<forall>c \<in> set s. \<not> P c \<Longrightarrow> squash P s = s"
  by (induction s) auto

abbreviation single_dashes :: "string \<Rightarrow> bool" where
  "single_dashes \<equiv> successively (\<lambda>a b. \<not> (is_dash a \<and> is_dash b))"

lemma is_dash_iff: "is_dash c \<longleftrightarrow> c = CHR ''-''"
  by (simp add: is_dash_def)

lemma squash_dash_Cons: "squash is_dash (CHR ''-'' # s) = CHR ''-'' # squash is_dash (dropWhile is_dash s)"
  by (simp add: is_dash_iff)

lemma squash_hd: "s \<noteq> [] \<Longrightarrow> \<not> P (hd s) \<Longrightarrow> squash P s \<noteq> [] \<and> hd (squash P s) = hd s"
  by (cases s) auto

lemma dropWhile_hd: "dropWhile P s = [] \<or> \<not> P (hd (dropWhile P s))"
  by (induction s) auto

lemma squash_single_dashes: "single_dashes (squash is_dash s)"
proof (induction is_dash s rule: squash.induct)
  case 1
  then show ?case by simp
next
  case (2 c s)
  show ?case
  proof (cases "is_dash c")
    case True
    have "squash is_dash u = [] \<or> \<not> is_dash (hd (squash is_dash u))"
      if "u = [] \<or> \<not> is_dash (hd u)" for u
      using that squash_hd [of u is_dash] by (cases u) auto
    from this [OF dropWhile_hd]
    have "squash is_dash (dropWhile is_dash s) = [] \<or>
      \<not> is_dash (hd (squash is_dash (dropWhile is_dash s)))" .
    with True 2 show ?thesis by (auto simp: successively_Cons)
  next
    case False
    with 2 show ?thesis by (auto simp: successively_Cons)
  qed
qed

lemma squash_dash_id: "single_dashes s \<Longrightarrow> squash is_dash s = s"
proof (induction s rule: length_induct)
  case (1 s)
  show ?case
  proof (cases s)
    case Nil
    then show ?thesis by simp
  next
    case (Cons c t)
    with 1 have t: "squash is_dash t = t" by (auto simp: successively_Cons)
    have "is_dash c \<Longrightarrow> dropWhile is_dash t = t"
      using Cons 1(2) by (cases t) (auto simp: successively_Cons)
    with Cons t show ?thesis by (cases "is_dash c") (auto dest: is_dash_iff [THEN iffD1])
  qed
qed

lemma successively_dropWhile: "successively R s \<Longrightarrow> successively R (dropWhile P s)"
  by (induction s) (auto simp: successively_Cons)

lemma single_dashes_rev: "single_dashes (rev s) = single_dashes s"
  by (simp only: successively_rev conj_commute)

lemma strip_single_dashes: "single_dashes s \<Longrightarrow> single_dashes (strip P s)"
  unfolding strip_def
  by (simp only: single_dashes_rev successively_dropWhile)

definition clean_segment :: "string \<Rightarrow> bool" where
  "clean_segment t \<longleftrightarrow> t \<noteq> [] \<and> (\<forall>c \<in> set t. \<not> is_separator c) \<and> single_dashes t
     \<and> hd t \<noteq> CHR ''-'' \<and> last t \<noteq> CHR ''-'' \<and> \<not> reserved t"

lemma is_separator_dash [simp]: "\<not> is_separator CHR ''-''"
  by (simp add: is_separator_def is_space_def)

lemma sanitizeSegment_clean:
  assumes "sanitizeSegment v = Some t"
  shows "clean_segment t"
proof -
  from assms obtain s where v: "v = Str s" by (cases v) (auto simp: sanitizeSegment_def)
  let ?u = "squash is_dash (squash is_separator (trim s))"
  from assms v have t: "t = strip is_dash ?u" "t \<noteq> []" "\<not> reserved t"
    by (auto simp: sanitizeSegment_def Let_def split: if_splits)
  have "\<not> is_separator c" if "c \<in> set t" for c
  proof -
    from that t(1) have "c \<in> set ?u" using strip_subset by blast
    then have "c = CHR ''-'' \<or> c \<in> set (squash is_separator (trim s))"
      using squash_chars by blast
    then show ?thesis using squash_chars [of c is_separator "trim s"] by auto
  qed
  moreover have "single_dashes t"
    unfolding t(1) by (intro strip_single_dashes squash_single_dashes)
  moreover have "hd t \<noteq> CHR ''-''" "last t \<noteq> CHR ''-''"
    using strip_hd [of is_dash ?u] strip_last [of is_dash ?u] t by (auto simp: is_dash_def)
  ultimately show ?thesis using t by (simp add: clean_segment_def)
qed

lemma clean_segment_fixed:
  assumes "clean_segment t"
  shows "sanitizeSegment (Str t) = Some t"
proof -
  have sep: "\<forall>c \<in> set t. \<not> is_separator c" "t \<noteq> []" using assms by (auto simp: clean_segment_def)
  then have "trim t = t"
    unfolding trim_def by (intro strip_id) (auto simp: is_separator_def)
  moreover have "squash is_separator t = t" using sep(1) by (rule squash_id)
  moreover have "squash is_dash t = t" using assms squash_dash_id by (simp add: clean_segment_def)
  moreover have "strip is_dash t = t"
    using assms by (intro strip_id) (auto simp: clean_segment_def is_dash_def)
  ultimately show ?thesis using assms by (simp add: sanitizeSegment_def clean_segment_def)
qed

subsection \<open>Mesh names and addresses\<close>

text \<open>The characters that separate the parts of an address never occur in a mesh name.\<close>

definition address_safe :: "string \<Rightarrow> bool" where
  "address_safe n \<longleftrightarrow> n \<noteq> [] \<and> CHR ''@'' \<notin> set n \<and> CHR '':'' \<notin> set n \<and> CHR ''/'' \<notin> set n
     \<and> CHR 0x0A \<notin> set n"

lemma is_separator_chars [simp]:
  "is_separator CHR ''@''" "is_separator CHR '':''" "is_separator CHR ''/''" "is_separator CHR 0x0A"
  by (simp_all add: is_separator_def is_space_def)

lemma clean_segment_safe: "clean_segment t \<Longrightarrow> address_safe t"
  unfolding clean_segment_def address_safe_def using is_separator_chars by blast

lemma agent_clean: "clean_segment ''agent''"
proof -
  have "\<forall>c \<in> set ''agent''. \<not> is_separator c"
    by (simp add: is_separator_def is_space_def)
  moreover have "single_dashes ''agent''"
    by (simp add: is_dash_iff)
  moreover have "\<not> reserved ''agent''"
    by (simp add: reserved_def)
  ultimately show ?thesis by (simp add: clean_segment_def)
qed

lemma sanitized_or_agent:
  "clean_segment (case sanitizeSegment v of Some b \<Rightarrow> b | None \<Rightarrow> ''agent'')"
  by (auto simp: agent_clean sanitizeSegment_clean split: option.split)

lemma split_suffix_Some:
  assumes "split_suffix raw = Some (b, sfx)"
  shows "\<exists>ds. raw = b @ sfx \<and> sfx = CHR ''#'' # ds \<and> ds \<noteq> [] \<and> (\<forall>c \<in> set ds. is_digit c)"
proof -
  let ?r = "rev raw"
  from assms have ds: "takeWhile is_digit ?r \<noteq> []" "dropWhile is_digit ?r \<noteq> []"
      "hd (dropWhile is_digit ?r) = CHR ''#''"
      and b: "b = rev (tl (dropWhile is_digit ?r))" "sfx = CHR ''#'' # rev (takeWhile is_digit ?r)"
    by (auto simp: split_suffix_def Let_def split: if_splits)
  have "raw = rev (takeWhile is_digit ?r @ dropWhile is_digit ?r)" by simp
  moreover have "dropWhile is_digit ?r = CHR ''#'' # tl (dropWhile is_digit ?r)"
    using ds(2,3) by (cases "dropWhile is_digit ?r") auto
  ultimately have "raw = rev (takeWhile is_digit ?r @ CHR ''#'' # tl (dropWhile is_digit ?r))"
    by simp
  then have "raw = b @ sfx" unfolding b by (simp only: rev_append rev.simps append_assoc append.simps)
  moreover have "\<forall>c \<in> set (rev (takeWhile is_digit ?r)). is_digit c"
    by (auto dest: set_takeWhileD)
  ultimately show ?thesis using b ds(1) by (intro exI [of _ "rev (takeWhile is_digit ?r)"]) simp
qed

lemma split_suffix_append:
  assumes "ds \<noteq> []" "\<forall>c \<in> set ds. is_digit c"
  shows "split_suffix (b @ CHR ''#'' # ds) = Some (b, CHR ''#'' # ds)"
proof -
  have hash: "\<not> is_digit CHR ''#''" by (simp add: is_digit_def)
  have "\<forall>c \<in> set (rev ds). is_digit c" using assms by simp
  then have "takeWhile is_digit (rev ds @ CHR ''#'' # rev b) = rev ds"
    "dropWhile is_digit (rev ds @ CHR ''#'' # rev b) = CHR ''#'' # rev b"
    using hash by (simp_all add: takeWhile_append dropWhile_append)
  then show ?thesis using assms by (simp add: split_suffix_def)
qed

lemma address_safe_suffix:
  "address_safe b \<Longrightarrow> \<forall>c \<in> set ds. is_digit c \<Longrightarrow> address_safe (b @ CHR ''#'' # ds)"
  by (auto simp: address_safe_def is_digit_def)

lemma sanitizeMeshName_safe: "address_safe (sanitizeMeshName raw)"
proof (cases "split_suffix raw")
  case None
  then show ?thesis
    using sanitized_or_agent [THEN clean_segment_safe] by (simp add: sanitizeMeshName_def)
next
  case (Some p)
  obtain b sfx where p: "p = (b, sfx)" by (cases p)
  from split_suffix_Some [of raw b sfx] Some p obtain ds where
    "sfx = CHR ''#'' # ds" "\<forall>c \<in> set ds. is_digit c" by auto
  then show ?thesis
    using Some p sanitized_or_agent [THEN clean_segment_safe]
    by (auto simp: sanitizeMeshName_def intro: address_safe_suffix)
qed

text \<open>
  The separator \<open>@\<close> is found from the right: the folder may hold one, the name
  never does.
\<close>

lemma append_sep_inject:
  assumes "a @ c # n = b @ c # m" "c \<notin> set n" "c \<notin> set m"
  shows "a = b \<and> n = m"
proof -
  have "rev n @ c # rev a = rev m @ c # rev b" using arg_cong [OF assms(1), of rev] by simp
  moreover have "takeWhile (\<lambda>x. x \<noteq> c) (rev n @ c # rev a) = rev n"
    "takeWhile (\<lambda>x. x \<noteq> c) (rev m @ c # rev b) = rev m"
    using assms(2,3) by (auto simp: takeWhile_append)
  ultimately show ?thesis by simp
qed

lemma composeAddress_inject:
  assumes "address_safe n" "address_safe m"
  shows "composeAddress None cwd n = composeAddress None cwd' m \<longleftrightarrow> cwd = cwd' \<and> n = m"
proof
  assume eq: "composeAddress None cwd n = composeAddress None cwd' m"
  have at: "CHR ''@'' \<notin> set n" "CHR ''@'' \<notin> set m" using assms by (auto simp: address_safe_def)
  show "cwd = cwd' \<and> n = m"
  proof (cases "cwd = [] \<or> cwd' = []")
    case True
    from arg_cong [OF eq, of "\<lambda>s. CHR ''@'' \<in> set s"] at True
    have "cwd = []" "cwd' = []" by (auto simp: composeAddress_def split: if_splits)
    with eq show ?thesis by (simp add: composeAddress_def)
  next
    case False
    with eq have "cwd @ CHR ''@'' # n = cwd' @ CHR ''@'' # m" by (simp add: composeAddress_def)
    from append_sep_inject [OF this at] show ?thesis .
  qed
qed simp

lemma composeAddress_nonempty: "address_safe n \<Longrightarrow> composeAddress None cwd n \<noteq> []"
  by (auto simp: composeAddress_def address_safe_def)

lemma parseAddress_Some:
  "parseAddress to = Some (pc, peer) \<longleftrightarrow>
     to = pc @ CHR '':'' # peer \<and> CHR '':'' \<notin> set pc \<and> pc \<noteq> [] \<and> peer \<noteq> []"
proof
  assume "parseAddress to = Some (pc, peer)"
  then obtain i where i: "index_of to CHR '':'' = Some i" "i \<noteq> 0" "i \<noteq> length to - 1"
    and pc: "pc = take i to" "peer = drop (i + 1) to"
    by (auto simp: parseAddress_def split: option.splits if_splits)
  from i(1) have lt: "i < length to" "to ! i = CHR '':''" "CHR '':'' \<notin> set (take i to)"
    by (auto simp: index_of_Some)
  with id_take_nth_drop [OF lt(1)] i pc show
    "to = pc @ CHR '':'' # peer \<and> CHR '':'' \<notin> set pc \<and> pc \<noteq> [] \<and> peer \<noteq> []"
    by auto
next
  assume a: "to = pc @ CHR '':'' # peer \<and> CHR '':'' \<notin> set pc \<and> pc \<noteq> [] \<and> peer \<noteq> []"
  then have "index_of to CHR '':'' = Some (length pc)" by (simp add: index_of_append)
  with a show "parseAddress to = Some (pc, peer)"
    by (cases peer rule: rev_cases) (auto simp: parseAddress_def)
qed

lemma parseAddress_prefix:
  "CHR '':'' \<notin> set pc \<Longrightarrow> pc \<noteq> [] \<Longrightarrow> peer \<noteq> [] \<Longrightarrow> parseAddress (pc @ '':'' @ peer) = Some (pc, peer)"
  by (simp add: parseAddress_Some)


subsection \<open>Properties\<close>

text \<open>
  Composing an address is injective on sanitised names: two peers have the same
  address only when both the folder and the name agree, although folders are not
  escaped.
\<close>
lemma mesh_address_injective:
  "composeAddress None cwd (sanitizeMeshName a) = composeAddress None cwd' (sanitizeMeshName b)
     \<longleftrightarrow> cwd = cwd' \<and> sanitizeMeshName a = sanitizeMeshName b"
  by (rule composeAddress_inject [OF sanitizeMeshName_safe sanitizeMeshName_safe])

text \<open>
  Sanitising is idempotent and safe: what it returns is non-empty, holds no separator
  or white space, is not a reserved keyword, and sanitises to itself.
\<close>
lemma sanitizeSegment_idempotent:
  assumes "sanitizeSegment v = Some t"
  shows "sanitizeSegment (Str t) = Some t \<and> t \<noteq> [] \<and> (\<forall>c \<in> set t. \<not> is_separator c) \<and> \<not> reserved t"
  using sanitizeSegment_clean [OF assms] clean_segment_fixed by (auto simp: clean_segment_def)

lemma sanitizeSegment_idempotent_example:
  "sanitizeSegment (Str ''a-b'') = Some ''a-b'' \<and> \<not> reserved ''a-b''"
proof -
  have "sanitizeSegment (Str '' -a//b-'') = Some ''a-b''" by code_simp
  from sanitizeSegment_idempotent [OF this] show ?thesis by blast
qed

end
