(* ===== verification/Framing.thy ===== *)
theory Framing imports Prelude
begin

text \<open>
  The line framing shared by every stream of the program (\<open>_onData\<close> of the
  broker and of the session peer): bytes are appended to a buffer, complete lines
  are cut off at each newline, empty lines are skipped, and the remainder waits
  for the next chunk. \<open>feeds_concat\<close> says that how the transport splits the bytes
  into chunks does not matter; the locale \<open>line_codec\<close> states what a line
  protocol promises (one line per message, and it reads back), and proves once
  that every message sent over such a stream is received, in order.
\<close>

definition nl_char :: char where
  "nl_char = CHR 0x0A"

text \<open>The \<open>while ((nl = buf.indexOf("\n")) >= 0)\<close> loop: the lines and the remaining buffer.\<close>

function drain :: "string \<Rightarrow> string list \<times> string" where
  "drain buf = (case index_of buf nl_char of
     None \<Rightarrow> ([], buf)
   | Some nl \<Rightarrow>
       (let line = take nl buf; rest = drain (drop (nl + 1) buf) in
        (if line = [] then fst rest else line # fst rest, snd rest)))"
  by pat_completeness auto
termination
  by (relation "measure length") (auto simp: index_of_Some)

declare drain.simps [simp del]

lemma drain_no_newline: "nl_char \<notin> set s \<Longrightarrow> drain s = ([], s)"
  by (subst drain.simps) (simp add: index_of_None [THEN iffD2])

lemma drain_line:
  "nl_char \<notin> set l \<Longrightarrow>
   drain (l @ nl_char # s) = ((if l = [] then [] else [l]) @ fst (drain s), snd (drain s))"
  by (subst drain.simps) (simp add: index_of_append Let_def)

lemma split_at_newline:
  "nl_char \<in> set s \<Longrightarrow> \<exists>l t. s = l @ nl_char # t \<and> nl_char \<notin> set l"
  by (meson split_list_first)

lemma drain_rest_no_newline: "nl_char \<notin> set (snd (drain s))"
proof (induction s rule: measure_induct_rule [where f = length])
  case (less s)
  show ?case
  proof (cases "nl_char \<in> set s")
    case True
    then obtain l t where "s = l @ nl_char # t" "nl_char \<notin> set l" using split_at_newline by blast
    with less [of t] show ?thesis by (simp add: drain_line)
  qed (simp add: drain_no_newline)
qed

lemma drain_append:
  "drain (s @ t) = (fst (drain s) @ fst (drain (snd (drain s) @ t)), snd (drain (snd (drain s) @ t)))"
proof (induction s rule: measure_induct_rule [where f = length])
  case (less s)
  show ?case
  proof (cases "nl_char \<in> set s")
    case True
    then obtain l u where s: "s = l @ nl_char # u" "nl_char \<notin> set l" using split_at_newline by blast
    with less [of u] show ?thesis by (simp add: drain_line)
  qed (simp add: drain_no_newline)
qed

text \<open>One \<open>data\<close> event, and a sequence of them.\<close>

definition feed :: "string \<Rightarrow> string \<Rightarrow> string list \<times> string" where
  "feed buf chunk = drain (buf @ chunk)"

fun feeds :: "string \<Rightarrow> string list \<Rightarrow> string list \<times> string" where
  "feeds buf [] = ([], buf)"
| "feeds buf (c # cs) =
     (let (ls, buf') = feed buf c; (ls', buf'') = feeds buf' cs in (ls @ ls', buf''))"

lemma feeds_concat: "nl_char \<notin> set buf \<Longrightarrow> feeds buf cs = drain (buf @ concat cs)"
proof (induction cs arbitrary: buf)
  case Nil
  then show ?case by (simp add: drain_no_newline)
next
  case (Cons c cs)
  have "drain (buf @ concat (c # cs)) = drain ((buf @ c) @ concat cs)" by simp
  also have "\<dots> = (fst (drain (buf @ c)) @ fst (drain (snd (drain (buf @ c)) @ concat cs)),
      snd (drain (snd (drain (buf @ c)) @ concat cs)))"
    by (rule drain_append)
  finally show ?case
    using Cons.IH [OF drain_rest_no_newline] by (simp add: feed_def split_def Let_def)
qed

lemma drain_lines:
  assumes "\<forall>l \<in> set ls. nl_char \<notin> set l \<and> l \<noteq> []"
  shows "drain (concat (map (\<lambda>l. l @ [nl_char]) ls)) = (ls, [])"
  using assms by (induction ls) (simp_all add: drain_no_newline drain_line)

subsection \<open>Line protocols\<close>

locale line_codec =
  fixes enc :: "'m \<Rightarrow> string"
    and dec :: "string \<Rightarrow> 'e + 'm"
    and ok :: "'m \<Rightarrow> bool"
  assumes dec_enc: "ok m \<Longrightarrow> dec (enc m) = Inr m"
    and enc_line: "nl_char \<notin> set (enc m)"
    and enc_nonempty: "enc m \<noteq> []"
begin

definition stream :: "'m list \<Rightarrow> string" where
  "stream ms = concat (map (\<lambda>m. enc m @ [nl_char]) ms)"

definition received :: "string list \<Rightarrow> 'm list" where
  "received ls = concat (map (\<lambda>l. case dec l of Inr m \<Rightarrow> [m] | Inl _ \<Rightarrow> []) ls)"

lemma drain_stream: "drain (stream ms) = (map enc ms, [])"
  using drain_lines [of "map enc ms"] by (simp add: stream_def enc_line enc_nonempty comp_def)

lemma received_enc: "\<forall>m \<in> set ms. ok m \<Longrightarrow> received (map enc ms) = ms"
  by (induction ms) (simp_all add: received_def dec_enc)

text \<open>However the transport cuts the stream, the receiver sees the messages that were sent.\<close>

lemma chunked_delivery:
  assumes "\<forall>m \<in> set ms. ok m" and "concat chunks = stream ms"
  shows "received (fst (feeds [] chunks)) = ms \<and> snd (feeds [] chunks) = []"
  using feeds_concat [of "[]" chunks] assms by (simp add: drain_stream received_enc)

text \<open>A chunk that stops inside a message delivers the complete messages and keeps the rest.\<close>

lemma partial_delivery:
  assumes "\<forall>m \<in> set ms. ok m" and "concat chunks = stream ms @ p" and "nl_char \<notin> set p"
  shows "received (fst (feeds [] chunks)) = ms \<and> snd (feeds [] chunks) = p"
  using feeds_concat [of "[]" chunks] drain_append [of "stream ms" p] assms
  by (simp add: drain_stream received_enc drain_no_newline)

end

end
