(* ===== verification/Envelope.thy ===== *)
theory Envelope imports Json Framing
begin

unbundle bit_operations_syntax

text \<open>
  \<open>session/envelope.ts\<close>: the five-field message of the local agent network, its
  identifiers (UUID version 7), its JSONL printing and its validating parser. A
  thrown \<open>EnvelopeError\<close> is a value of \<open>envelope_error\<close>, one constructor for each
  \<open>throw\<close> of the source.
\<close>

datatype recipients = One string | Many "string list"

record envelope =
  env_from :: string
  env_to :: recipients
  env_id :: string
  env_re :: "string option"
  env_body :: js

subsection \<open>Identifiers\<close>

definition is_hex :: "char \<Rightarrow> bool" where
  "is_hex c \<longleftrightarrow> hex_val c \<noteq> None"

text \<open>\<open>UUID_RE\<close>: hexadecimal groups of 8, 4, 4, 4 and 12, case-insensitive.\<close>

definition is_uuid :: "string \<Rightarrow> bool" where
  "is_uuid s \<longleftrightarrow> length s = 36 \<and>
     (\<forall>i \<in> set [0..<36]. if i \<in> {8, 13, 18, 23} then s ! i = CHR ''-'' else is_hex (s ! i))"

definition hex_byte :: "8 word \<Rightarrow> string" where
  "hex_byte b = [hex_char (unat b div 16), hex_char (unat b mod 16)]"

text \<open>\<open>(ts / 2 ** k) & 0xff\<close>\<close>

definition ts_byte :: "nat \<Rightarrow> nat \<Rightarrow> 8 word" where
  "ts_byte ts k = word_of_nat (ts div 2 ^ k)"

definition uuid_bytes :: "nat \<Rightarrow> 8 word list \<Rightarrow> 8 word list" where
  "uuid_bytes ts rand =
     (let buf = map (ts_byte ts) [40, 32, 24, 16, 8, 0] @ take 10 rand;
          buf6 = buf[6 := (buf ! 6 AND 0x0f) OR 0x70]
      in buf6[8 := (buf6 ! 8 AND 0x3f) OR 0x80])"

definition slice :: "nat \<Rightarrow> nat \<Rightarrow> string \<Rightarrow> string" where
  "slice i j s = take (j - i) (drop i s)"

definition uuidv7 :: "nat \<Rightarrow> 8 word list \<Rightarrow> string" where
  "uuidv7 ts rand = (let hex = concat (map hex_byte (uuid_bytes ts rand)) in
     slice 0 8 hex @ ''-'' @ slice 8 12 hex @ ''-'' @ slice 12 16 hex @ ''-'' @ slice 16 20 hex @ ''-'' @ drop 20 hex)"

subsection \<open>Printing and parsing\<close>

datatype envelope_error =
    NotJson
  | NotObject
  | FromInvalid
  | ToNotStringOrArray
  | ToEmpty
  | ToListEmpty
  | ToEntryInvalid
  | IdInvalid
  | ReInvalid
  | BodyRequired

fun recipients_to_json :: "recipients \<Rightarrow> js" where
  "recipients_to_json (One s) = Str s"
| "recipients_to_json (Many ss) = Arr (map Str ss)"

definition env_to_json :: "envelope \<Rightarrow> js" where
  "env_to_json env = Obj
     [(''from'', Str (env_from env)),
      (''to'', recipients_to_json (env_to env)),
      (''id'', Str (env_id env)),
      (''re'', case env_re env of None \<Rightarrow> Null | Some r \<Rightarrow> Str r),
      (''body'', env_body env)]"

definition serialize :: "envelope \<Rightarrow> string" where
  "serialize env = stringify (env_to_json env) @ [nl_char]"

fun nonempty_string :: "js \<Rightarrow> bool" where
  "nonempty_string (Str s) = (s \<noteq> [])"
| "nonempty_string _ = False"

fun uuid_string :: "js \<Rightarrow> bool" where
  "uuid_string (Str s) = is_uuid s"
| "uuid_string _ = False"

fun str_of :: "js \<Rightarrow> string" where
  "str_of (Str s) = s"
| "str_of _ = []"

definition parse_to :: "js \<Rightarrow> envelope_error + recipients" where
  "parse_to v = (case v of
     Str s \<Rightarrow> (if s = [] then Inl ToEmpty else Inr (One s))
   | Arr xs \<Rightarrow>
       (if xs = [] then Inl ToListEmpty
        else if \<exists>t \<in> set xs. \<not> nonempty_string t then Inl ToEntryInvalid
        else Inr (Many (map str_of xs)))
   | _ \<Rightarrow> Inl ToNotStringOrArray)"

definition parse_json :: "js \<Rightarrow> envelope_error + envelope" where
  "parse_json raw =
     (if \<not> is_object raw then Inl NotObject
      else if \<not> nonempty_string (jfield raw ''from'') then Inl FromInvalid
      else case parse_to (jfield raw ''to'') of
        Inl e \<Rightarrow> Inl e
      | Inr to \<Rightarrow>
          (if \<not> uuid_string (jfield raw ''id'') then Inl IdInvalid
           else let re = jfield raw ''re'' in
             if re \<noteq> Null \<and> \<not> uuid_string re then Inl ReInvalid
             else if \<not> jhas raw ''body'' then Inl BodyRequired
             else Inr \<lparr>env_from = str_of (jfield raw ''from''), env_to = to,
                       env_id = str_of (jfield raw ''id''), env_re = as_str re,
                       env_body = jfield raw ''body''\<rparr>))"

definition parse :: "string \<Rightarrow> envelope_error + envelope" where
  "parse line = (case json_parse line of None \<Rightarrow> Inl NotJson | Some raw \<Rightarrow> parse_json raw)"

text \<open>The convenience constructor; the fresh identifier is an argument.\<close>

definition envelope_with :: "string \<Rightarrow> string \<Rightarrow> recipients \<Rightarrow> js \<Rightarrow> string option \<Rightarrow> envelope" where
  "envelope_with new_id from to body re =
     \<lparr>env_from = from, env_to = to, env_id = new_id, env_re = re, env_body = body\<rparr>"

subsection \<open>Well-formed envelopes\<close>

fun wf_recipients :: "recipients \<Rightarrow> bool" where
  "wf_recipients (One s) = (s \<noteq> [])"
| "wf_recipients (Many ss) = (ss \<noteq> [] \<and> (\<forall>s \<in> set ss. s \<noteq> []))"

definition wf_envelope :: "envelope \<Rightarrow> bool" where
  "wf_envelope env \<longleftrightarrow> env_from env \<noteq> [] \<and> wf_recipients (env_to env) \<and> is_uuid (env_id env)
     \<and> (\<forall>r. env_re env = Some r \<longrightarrow> is_uuid r) \<and> json_value (env_body env)"

subsection \<open>The printed form reads back\<close>

lemma jfield_env [simp]:
  "jfield (env_to_json e) ''from'' = Str (env_from e)"
  "jfield (env_to_json e) ''to'' = recipients_to_json (env_to e)"
  "jfield (env_to_json e) ''id'' = Str (env_id e)"
  "jfield (env_to_json e) ''re'' = (case env_re e of None \<Rightarrow> Null | Some r \<Rightarrow> Str r)"
  "jfield (env_to_json e) ''body'' = env_body e"
  "jhas (env_to_json e) ''body''" "is_object (env_to_json e)"
  by (simp_all add: env_to_json_def)

lemma parse_to_recipients: "wf_recipients to \<Longrightarrow> parse_to (recipients_to_json to) = Inr to"
  by (cases to) (auto simp: parse_to_def comp_def)

lemma json_value_env: "wf_envelope e \<Longrightarrow> json_value (env_to_json e)"
  by (cases "env_to e") (auto simp: wf_envelope_def env_to_json_def split: option.splits)

lemma parse_json_env: "wf_envelope e \<Longrightarrow> parse_json (env_to_json e) = Inr e"
  by (auto simp: parse_json_def wf_envelope_def parse_to_recipients Let_def neq_Nil_conv split: option.splits)

lemma parse_stringify: "wf_envelope e \<Longrightarrow> parse (stringify (env_to_json e)) = Inr e"
  by (simp add: parse_def json_round_trip json_value_env parse_json_env)

lemma envelope_line_no_newline: "nl_char \<notin> set (stringify (env_to_json e))"
  by (simp add: nl_char_def stringify_no_newline)

lemma nonempty_string_iff: "nonempty_string v \<longleftrightarrow> (\<exists>s. v = Str s \<and> s \<noteq> [])"
  by (cases v) auto

lemma uuid_string_iff: "uuid_string v \<longleftrightarrow> (\<exists>s. v = Str s \<and> is_uuid s)"
  by (cases v) auto

lemma parse_to_wf: "parse_to v = Inr to \<Longrightarrow> wf_recipients to"
  by (auto simp: parse_to_def nonempty_string_iff split: js.splits if_splits) fastforce

text \<open>Whatever the parser lets through is a well-formed envelope.\<close>

lemma parse_wf: "parse line = Inr env \<Longrightarrow> wf_envelope env"
  by (auto simp: parse_def parse_json_def wf_envelope_def Let_def nonempty_string_iff uuid_string_iff
      dest!: parse_to_wf json_parse_value intro: json_value_field split: option.splits if_splits sum.splits)

subsection \<open>Generated identifiers\<close>

lemma hex_char_is_hex: "n < 16 \<Longrightarrow> is_hex (hex_char n)"
  by (simp add: is_hex_def)

lemma unat_byte: "unat (b :: 8 word) div 16 < 16" "unat b mod 16 < 16"
  using unsigned_less [of b, where 'a = nat] by simp_all

lemma hex_byte_hex: "c \<in> set (hex_byte b) \<Longrightarrow> is_hex c"
  using unat_byte [of b] by (auto simp: hex_byte_def intro: hex_char_is_hex)

lemma length_hex_bytes: "length (concat (map hex_byte bs)) = 2 * length bs"
  by (induction bs) (simp_all add: hex_byte_def)

lemma length_uuid_bytes: "length rand = 10 \<Longrightarrow> length (uuid_bytes ts rand) = 16"
  by (simp add: uuid_bytes_def Let_def)

text \<open>Inserting the four dashes into 32 hexadecimal digits gives a UUID.\<close>

lemma dashes_uuid:
  assumes "length h = 32" and "\<forall>c \<in> set h. is_hex c"
  shows "is_uuid (slice 0 8 h @ ''-'' @ slice 8 12 h @ ''-'' @ slice 12 16 h @ ''-'' @ slice 16 20 h @ ''-'' @ drop 20 h)"
proof -
  have hex: "is_hex (h ! i)" if "i < 32" for i using assms that by auto
  show ?thesis
    unfolding is_uuid_def slice_def using assms(1) hex
    by (simp add: upt_rec nth_append nth_Cons')
qed

text \<open>
  The generator always yields text in the UUID form the parser demands, whatever the
  clock and the ten random bytes are.
\<close>
lemma uuidv7_is_uuid: "length rand = 10 \<Longrightarrow> is_uuid (uuidv7 ts rand)"
  unfolding uuidv7_def Let_def
  using hex_byte_hex by (intro dashes_uuid) (auto simp: length_hex_bytes length_uuid_bytes)

lemma uuidv7_is_uuid_example: "is_uuid (uuidv7 1700000000000 (replicate 10 255))"
  by (rule uuidv7_is_uuid) simp

text \<open>A fixed number of hexadecimal digits, most significant first.\<close>

fun hex_digits :: "nat \<Rightarrow> nat \<Rightarrow> string" where
  "hex_digits 0 n = []"
| "hex_digits (Suc w) n = hex_digits w (n div 16) @ [hex_char (n mod 16)]"

lemma length_hex_digits [simp]: "length (hex_digits w n) = w"
  by (induction w arbitrary: n) auto

lemma list_less_append:
  fixes a b :: "'a :: order list"
  assumes "length a = length b" "a < b"
  shows "a @ x < b @ y"
  using assms
proof (induction a b rule: list_induct2)
  case Nil
  then show ?case by simp
next
  case (Cons p a q b)
  then show ?case by auto
qed

lemma list_less_prefix: "(c :: 'a :: order list) @ a < c @ b \<longleftrightarrow> a < b"
  by (induction c) auto

lemma hex_char_mono: "m < n \<Longrightarrow> n < 16 \<Longrightarrow> hex_char m < hex_char n"
  by (auto simp: hex_char_def less_char_def)

lemma hex_digits_mono: "m < n \<Longrightarrow> n < 16 ^ w \<Longrightarrow> hex_digits w m < hex_digits w n"
proof (induction w arbitrary: m n)
  case 0
  then show ?case by simp
next
  case (Suc w)
  show ?case
  proof (cases "m div 16 = n div 16")
    case True
    with Suc.prems(1) have "m mod 16 < n mod 16"
      by (metis div_mult_mod_eq nat_add_left_cancel_less)
    with True show ?thesis by (simp add: list_less_prefix hex_char_mono)
  next
    case False
    with Suc.prems have "m div 16 < n div 16" by (meson div_le_mono le_neq_implies_less less_imp_le)
    moreover have "n div 16 < 16 ^ w" using Suc.prems(2) by (simp add: less_mult_imp_div_less mult.commute)
    ultimately have "hex_digits w (m div 16) < hex_digits w (n div 16)" by (rule Suc.IH)
    then show ?thesis by (simp add: list_less_append)
  qed
qed

lemma unat_ts_byte: "unat (ts_byte ts k) = ts div 2 ^ k mod 256"
  by (simp add: ts_byte_def unat_of_nat)

lemma hex_ts_byte:
  "hex_byte (ts_byte ts k) = [hex_char (ts div 2 ^ (k + 4) mod 16), hex_char (ts div 2 ^ k mod 16)]"
proof -
  have "ts div 2 ^ k mod 256 div 16 = ts div 2 ^ (k + 4) mod 16"
    using div_mult2_eq [of ts "2 ^ k" 16] mod_mult2_eq [of "ts div 2 ^ k" 16 16]
    by (simp add: power_add)
  moreover have "ts div 2 ^ k mod 256 mod 16 = ts div 2 ^ k mod 16"
    by (simp add: mod_mod_cancel)
  ultimately show ?thesis by (simp add: hex_byte_def unat_ts_byte)
qed

lemma hex_byte_zero: "hex_byte (ts_byte ts 0) = [hex_char (ts div 16 mod 16), hex_char (ts mod 16)]"
  using hex_ts_byte [of ts 0] by simp

lemma ts_byte_shift: "ts_byte ts (8 + k) = ts_byte (ts div 256) k"
  by (simp add: ts_byte_def power_add div_mult2_eq)

lemma hex_bytes_digits:
  "concat (map (\<lambda>j. hex_byte (ts_byte ts (8 * j))) (rev [0..<m])) = hex_digits (2 * m) ts"
proof (induction m arbitrary: ts)
  case 0
  then show ?case by simp
next
  case (Suc m)
  have "rev [0..<Suc m] = map Suc (rev [0..<m]) @ [0]"
    by (simp add: upt_conv_Cons rev_map flip: map_Suc_upt del: upt_Suc)
  then have "concat (map (\<lambda>j. hex_byte (ts_byte ts (8 * j))) (rev [0..<Suc m]))
      = concat (map (\<lambda>j. hex_byte (ts_byte (ts div 256) (8 * j))) (rev [0..<m])) @ hex_byte (ts_byte ts 0)"
    by (simp add: comp_def ts_byte_shift del: upt_Suc)
  also have "\<dots> = hex_digits (2 * m) (ts div 256) @ [hex_char (ts div 16 mod 16), hex_char (ts mod 16)]"
    by (simp only: Suc.IH hex_byte_zero)
  also have "\<dots> = hex_digits (2 * Suc m) ts"
    by (simp flip: div_mult2_eq)
  finally show ?case .
qed

lemma hex_timestamp:
  "concat (map hex_byte (map (ts_byte ts) [40, 32, 24, 16, 8, 0])) = hex_digits 12 ts"
proof -
  have "rev [0..<6] = [5, 4, 3, 2, 1, 0 :: nat]" by (simp add: upt_rec)
  with hex_bytes_digits [of ts 6] show ?thesis by simp
qed

text \<open>The random tail with its version and variant marks, and its printed form.\<close>

definition marked :: "8 word list \<Rightarrow> 8 word list" where
  "marked rand = (take 10 rand)[0 := (rand ! 0 AND 0x0f) OR 0x70, 2 := (rand ! 2 AND 0x3f) OR 0x80]"

definition random_part :: "8 word list \<Rightarrow> string" where
  "random_part rand = (let g = concat (map hex_byte (marked rand)) in
     ''-'' @ slice 0 4 g @ ''-'' @ slice 4 8 g @ ''-'' @ drop 8 g)"

lemma uuid_bytes_split:
  "length rand = 10 \<Longrightarrow> uuid_bytes ts rand = map (ts_byte ts) [40, 32, 24, 16, 8, 0] @ marked rand"
  by (simp add: uuid_bytes_def marked_def Let_def list_update_append nth_append)

lemma uuidv7_split:
  assumes "length rand = 10"
  shows "uuidv7 ts rand = take 8 (hex_digits 12 ts) @ ''-'' @ drop 8 (hex_digits 12 ts) @ random_part rand"
proof -
  have "concat (map hex_byte (uuid_bytes ts rand)) = hex_digits 12 ts @ concat (map hex_byte (marked rand))"
    unfolding uuid_bytes_split [OF assms] map_append concat_append hex_timestamp ..
  then show ?thesis by (simp add: uuidv7_def random_part_def Let_def slice_def)
qed

text \<open>
  Identifiers sort by time: one drawn in an earlier millisecond is lexicographically
  smaller, whatever the random bytes, for every clock value below 2^48.
\<close>
lemma uuidv7_time_ordered:
  assumes "length r1 = 10" "length r2 = 10" "t1 < t2" "t2 < 2 ^ 48"
  shows "uuidv7 t1 r1 < uuidv7 t2 r2"
proof -
  let ?h = "hex_digits 12"
  have lt: "?h t1 < ?h t2" using assms(3,4) by (intro hex_digits_mono) simp_all
  note u = uuidv7_split [OF assms(1)] uuidv7_split [OF assms(2)]
  show ?thesis
  proof (cases "take 8 (?h t1) = take 8 (?h t2)")
    case True
    with lt have "drop 8 (?h t1) < drop 8 (?h t2)"
      by (metis append_take_drop_id list_less_prefix)
    then have "drop 8 (?h t1) @ random_part r1 < drop 8 (?h t2) @ random_part r2" by (intro list_less_append) simp_all
    with True show ?thesis unfolding u by (simp add: list_less_prefix)
  next
    case False
    have "take 8 (?h t1) < take 8 (?h t2)"
    proof (rule ccontr)
      assume "\<not> ?thesis"
      with False have "take 8 (?h t2) < take 8 (?h t1)" by simp
      then have "take 8 (?h t2) @ drop 8 (?h t2) < take 8 (?h t1) @ drop 8 (?h t1)"
        by (intro list_less_append) simp_all
      with lt show False by simp
    qed
    then show ?thesis unfolding u by (intro list_less_append) simp_all
  qed
qed

lemma random_part_order: "random_part (replicate 10 0) < random_part (replicate 10 255)"
  by code_simp

text \<open>
  Within one millisecond the order is not kept: the generator has no counter, so
  for every timestamp some pair of draws has the later identifier sort first.
\<close>
lemma uuidv7_same_millisecond:
  "\<exists>r1 r2. length r1 = 10 \<and> length r2 = 10 \<and> uuidv7 ts r2 < uuidv7 ts r1"
  by (rule exI [of _ "replicate 10 255"], rule exI [of _ "replicate 10 0"])
    (simp only: uuidv7_split length_replicate list_less_prefix random_part_order append_assoc simp_thms)

subsection \<open>Envelopes are a line protocol\<close>

interpretation envelope_lines: line_codec "\<lambda>e. stringify (env_to_json e)" parse wf_envelope
  by unfold_locales (simp_all add: parse_stringify envelope_line_no_newline)

lemma serialize_stream: "concat (map serialize es) = envelope_lines.stream es"
  by (simp add: serialize_def [abs_def] envelope_lines.stream_def)


subsection \<open>Properties\<close>

definition sample_envelopes :: "envelope list" where
  "sample_envelopes =
     [\<lparr>env_from = ''/p@al'', env_to = One ''broker'', env_id = ''0190a000-0000-7000-8000-000000000000'',
       env_re = None, env_body = Obj [(''type'', Str ''list_peers'')]\<rparr>,
      \<lparr>env_from = ''broker'', env_to = Many [''x'', ''y''], env_id = ''0190a000-0000-7000-8000-000000000001'',
       env_re = Some ''0190a000-0000-7000-8000-000000000000'', env_body = Arr [Num 3, Null]\<rparr>]"

lemma sample_envelopes_wf: "\<forall>e \<in> set sample_envelopes. wf_envelope e"
  by (simp add: sample_envelopes_def wf_envelope_def is_uuid_def is_hex_def hex_val_def upt_rec nth_Cons')

text \<open>
  Printing then parsing a well-formed envelope gives it back, and the parser lets
  through well-formed envelopes only.
\<close>
lemma envelope_round_trip:
  "(wf_envelope e \<longrightarrow> parse (butlast (serialize e)) = Inr e) \<and> (\<forall>line. parse line = Inr e \<longrightarrow> wf_envelope e)"
  by (auto simp: serialize_def parse_stringify parse_wf)

text \<open>
  C4. However the transport cuts the byte stream into chunks, even inside a message, the
  receiver's line buffer yields exactly the well-formed envelopes that were
  written, in order, and holds the unfinished rest.
\<close>
theorem envelope_stream_delivery:
  assumes "\<forall>e \<in> set es. wf_envelope e" and "concat chunks = concat (map serialize es) @ p"
    and "nl_char \<notin> set p"
  shows "map parse (fst (feeds [] chunks)) = map Inr es \<and> snd (feeds [] chunks) = p"
proof -
  have "feeds [] chunks = drain (envelope_lines.stream es @ p)"
    using feeds_concat [of "[]" chunks] assms(2) by (simp add: serialize_stream)
  moreover have "drain p = ([], p)" using assms(3) by (rule drain_no_newline)
  ultimately have "feeds [] chunks = (map (\<lambda>e. stringify (env_to_json e)) es, p)"
    using drain_append [of "envelope_lines.stream es" p] by (simp add: envelope_lines.drain_stream)
  then show ?thesis using assms(1) by (simp add: parse_stringify)
qed

theorem envelope_stream_delivery_witness:
  "map parse (fst (feeds [] [take 20 (concat (map serialize sample_envelopes)),
      drop 20 (concat (map serialize sample_envelopes)) @ ''xy''])) = map Inr sample_envelopes
   \<and> snd (feeds [] [take 20 (concat (map serialize sample_envelopes)),
      drop 20 (concat (map serialize sample_envelopes)) @ ''xy'']) = ''xy''"
  by (rule envelope_stream_delivery [OF sample_envelopes_wf]) (simp_all add: nl_char_def)

end
