(* ===== verification/Broker.thy ===== *)
theory Broker imports Names Envelope
begin

text \<open>
  \<open>session/broker.ts\<close>: the leader's registry of local peers and its router. A
  socket is a number; what the broker writes to it is appended to \<open>bk_out\<close>. A
  write throws exactly on the sockets of \<open>bk_broken\<close>, and is lost on a destroyed
  socket (\<open>bk_closed\<close>). Fresh identifiers come from \<open>bk_gen\<close>, the clock is
  \<open>bk_now\<close>. A \<open>PeerConn\<close> object is shared by the socket's handlers and the peer
  map, so connections live in a store \<open>bk_conns\<close> and the map holds socket numbers.
  \<open>bk_fault\<close> records the one \<open>throw\<close> that leaves a handler.

  The remote router is an interface: the broker calls \<open>rt_try\<close>, \<open>rt_names\<close> and
  \<open>rt_infos\<close> on the router's own state. The locale \<open>remote_router\<close> states what
  the broker relies on.
\<close>

subsection \<open>Data\<close>

record peer_info =
  pi_pc :: "string option"
  pi_cwd :: string
  pi_name :: string
  pi_address :: string

record peer_conn =
  pc_name :: string
  pc_cwd :: string
  pc_address :: string
  pc_sock :: nat
  pc_buf :: string

record 'r router =
  rt_try :: "'r \<Rightarrow> envelope \<Rightarrow> bool \<times> 'r"
  rt_names :: "'r \<Rightarrow> string list"
  rt_infos :: "'r \<Rightarrow> peer_info list"
  rt_state :: 'r

datatype ack_status = Received | Denied

datatype audit_status = NoAck | Acked ack_status

datatype via = Uds | Relay

record 'r broker =
  bk_peers :: "(string, nat) omap"
  bk_conns :: "(nat, peer_conn) omap"
  bk_router :: "'r router option"
  bk_audit_path :: bool
  bk_audit :: "js list"
  bk_routed :: "(envelope \<times> string list) list"
  bk_out :: "(nat \<times> string) list"
  bk_broken :: "nat list"
  bk_closed :: "nat list"
  bk_listening :: bool
  bk_fault :: bool
  bk_gen :: "nat \<Rightarrow> string"
  bk_ids :: nat
  bk_now :: int

definition BROKER_NAME :: string where
  "BROKER_NAME = ''broker''"

definition new_broker :: "bool \<Rightarrow> (nat \<Rightarrow> string) \<Rightarrow> 'r broker" where
  "new_broker audit gen = \<lparr>bk_peers = [], bk_conns = [], bk_router = None, bk_audit_path = audit,
     bk_audit = [], bk_routed = [], bk_out = [], bk_broken = [], bk_closed = [], bk_listening = True,
     bk_fault = False, bk_gen = gen, bk_ids = 0, bk_now = 0\<rparr>"

definition setRemoteRouter :: "'r router option \<Rightarrow> 'r broker \<Rightarrow> 'r broker" where
  "setRemoteRouter r b = b\<lparr>bk_router := r\<rparr>"

subsection \<open>Sockets and identifiers\<close>

definition fresh_id :: "'r broker \<Rightarrow> string" where
  "fresh_id b = bk_gen b (bk_ids b)"

definition next_id :: "'r broker \<Rightarrow> 'r broker" where
  "next_id b = b\<lparr>bk_ids := Suc (bk_ids b)\<rparr>"

text \<open>\<open>socket.write\<close>: \<open>None\<close> when it throws.\<close>

definition try_write :: "nat \<Rightarrow> string \<Rightarrow> 'r broker \<Rightarrow> 'r broker option" where
  "try_write s l b =
     (if s \<in> set (bk_broken b) then None
      else if s \<in> set (bk_closed b) then Some b
      else Some (b\<lparr>bk_out := bk_out b @ [(s, l)]\<rparr>))"

definition write_ignoring :: "nat \<Rightarrow> string \<Rightarrow> 'r broker \<Rightarrow> 'r broker" where
  "write_ignoring s l b = (case try_write s l b of Some b' \<Rightarrow> b' | None \<Rightarrow> b)"

definition destroy :: "nat \<Rightarrow> 'r broker \<Rightarrow> 'r broker" where
  "destroy s b = b\<lparr>bk_closed := oset_add (bk_closed b) s\<rparr>"

definition peer_conn_of :: "'r broker \<Rightarrow> string \<Rightarrow> peer_conn option" where
  "peer_conn_of b addr = Option.bind (map_of (bk_peers b) addr) (map_of (bk_conns b))"

subsection \<open>Rosters\<close>

definition peerNames :: "'r broker \<Rightarrow> string list" where
  "peerNames b = omap_keys (bk_peers b)"

definition peer_conns :: "'r broker \<Rightarrow> peer_conn list" where
  "peer_conns b = List.map_filter (\<lambda>p. map_of (bk_conns b) (snd p)) (bk_peers b)"

definition localPeerInfos :: "'r broker \<Rightarrow> peer_info list" where
  "localPeerInfos b = map (\<lambda>p. \<lparr>pi_pc = None, pi_cwd = pc_cwd p, pi_name = pc_name p,
     pi_address = pc_address p\<rparr>) (peer_conns b)"

definition allPeerNames :: "'r broker \<Rightarrow> string list" where
  "allPeerNames b = peerNames b @
     (case bk_router b of Some r \<Rightarrow> rt_names r (rt_state r) | None \<Rightarrow> [])"

definition allPeerInfos :: "'r broker \<Rightarrow> peer_info list" where
  "allPeerInfos b = localPeerInfos b @
     (case bk_router b of Some r \<Rightarrow> rt_infos r (rt_state r) | None \<Rightarrow> [])"

definition info_to_json :: "peer_info \<Rightarrow> js" where
  "info_to_json i = Obj
     ((case pi_pc i of Some p \<Rightarrow> [(''pc'', Str p)] | None \<Rightarrow> []) @
      [(''cwd'', Str (pi_cwd i)), (''name'', Str (pi_name i)), (''address'', Str (pi_address i))])"

definition list_peers_reply :: "'r broker \<Rightarrow> js" where
  "list_peers_reply b = Obj
     [(''type'', Str ''list_peers_reply''),
      (''peers'', Arr (map Str (allPeerNames b))),
      (''peers_detailed'', Arr (map info_to_json (allPeerInfos b)))]"

definition peer_event :: "string \<Rightarrow> string \<Rightarrow> js" where
  "peer_event kind address = Obj
     [(''type'', Str kind), (''name'', Str address), (''address'', Str address)]"

text \<open>\<open>_broadcastSystem\<close>: one envelope to every peer but the excluded one.\<close>

definition system_envelope :: "js \<Rightarrow> string \<Rightarrow> 'r broker \<Rightarrow> envelope" where
  "system_envelope body address b =
     \<lparr>env_from = BROKER_NAME, env_to = One address, env_id = fresh_id b, env_re = None, env_body = body\<rparr>"

fun broadcast_to :: "js \<Rightarrow> string \<Rightarrow> (string \<times> nat) list \<Rightarrow> 'r broker \<Rightarrow> 'r broker" where
  "broadcast_to body excluded [] b = b"
| "broadcast_to body excluded ((address, s) # ps) b =
     (if address = excluded then broadcast_to body excluded ps b
      else broadcast_to body excluded ps
        (write_ignoring s (serialize (system_envelope body address b)) (next_id b)))"

definition broadcastSystem :: "js \<Rightarrow> string \<Rightarrow> 'r broker \<Rightarrow> 'r broker" where
  "broadcastSystem body excluded b = broadcast_to body excluded (bk_peers b) b"

subsection \<open>Audit\<close>

definition BROKER_AUDIT_MAX_BYTES :: nat where
  "BROKER_AUDIT_MAX_BYTES = 256 * 1024"

definition BROKER_AUDIT_MAX_RECIPIENTS :: nat where
  "BROKER_AUDIT_MAX_RECIPIENTS = 32"

definition BROKER_AUDIT_MAX_FIELD_LENGTH :: nat where
  "BROKER_AUDIT_MAX_FIELD_LENGTH = 256"

definition auditText :: "string \<Rightarrow> string" where
  "auditText s = take BROKER_AUDIT_MAX_FIELD_LENGTH s"

definition auditRecipients :: "string list \<Rightarrow> string list" where
  "auditRecipients rs = map auditText (take BROKER_AUDIT_MAX_RECIPIENTS rs)"

definition audit_status_text :: "audit_status \<Rightarrow> string" where
  "audit_status_text a = (case a of NoAck \<Rightarrow> ''none'' | Acked Received \<Rightarrow> ''received'' | Acked Denied \<Rightarrow> ''denied'')"

definition audit_record :: "int \<Rightarrow> envelope \<Rightarrow> string list \<Rightarrow> audit_status \<Rightarrow> via \<Rightarrow> js" where
  "audit_record ts env delivered status v = Obj
     [(''ts'', Num ts),
      (''from'', Str (auditText (env_from env))),
      (''to'', case env_to env of
          Many rs \<Rightarrow> Arr (map Str (auditRecipients rs)) | One t \<Rightarrow> Str (auditText t)),
      (''id'', Str (auditText (env_id env))),
      (''re'', case env_re env of None \<Rightarrow> Null | Some r \<Rightarrow> Str (auditText r)),
      (''delivered'', Arr (map Str (auditRecipients delivered))),
      (''ack_status'', Str (audit_status_text status)),
      (''via'', Str (case v of Uds \<Rightarrow> ''uds'' | Relay \<Rightarrow> ''relay''))]"

definition append_audit :: "envelope \<Rightarrow> string list \<Rightarrow> audit_status \<Rightarrow> via \<Rightarrow> 'r broker \<Rightarrow> 'r broker" where
  "append_audit env delivered status v b =
     (if bk_audit_path b
      then b\<lparr>bk_audit := bk_audit b @ [audit_record (bk_now b) env delivered status v]\<rparr> else b)"

text \<open>
  The file behind the audit: the current log and its predecessor, \<open>None\<close> when
  absent. A full log is rotated once; a log that is already over the bound is
  dropped instead of becoming the predecessor.
\<close>

record audit_files =
  af_current :: "string option"
  af_previous :: "string option"

definition byte_length :: "string \<Rightarrow> nat" where
  "byte_length s = sum_list (map (\<lambda>c. if (of_char c :: nat) < 128 then 1 else 2) s)"

definition current_bytes :: "audit_files \<Rightarrow> nat" where
  "current_bytes f = (case af_current f of None \<Rightarrow> 0 | Some t \<Rightarrow> byte_length t)"

definition append_audit_line :: "string \<Rightarrow> audit_files \<Rightarrow> audit_files" where
  "append_audit_line line f =
     (let f' =
        (if 0 < current_bytes f \<and> BROKER_AUDIT_MAX_BYTES < current_bytes f + byte_length line
         then (if current_bytes f \<le> BROKER_AUDIT_MAX_BYTES
               then \<lparr>af_current = None, af_previous = af_current f\<rparr>
               else \<lparr>af_current = None, af_previous = None\<rparr>)
         else f)
      in f'\<lparr>af_current := Some ((case af_current f' of None \<Rightarrow> [] | Some t \<Rightarrow> t) @ line)\<rparr>)"

definition routed :: "envelope \<Rightarrow> string list \<Rightarrow> 'r broker \<Rightarrow> 'r broker" where
  "routed env delivered b = b\<lparr>bk_routed := bk_routed b @ [(env, delivered)]\<rparr>"

subsection \<open>Routing\<close>

definition resolveTargets :: "envelope \<Rightarrow> 'r broker \<Rightarrow> string list" where
  "resolveTargets env b = (case env_to env of
     One t \<Rightarrow>
       (if t = ''broadcast'' then
          (let scope = (case peer_conn_of b (env_from env) of Some p \<Rightarrow> pc_cwd p | None \<Rightarrow> []) in
           map pc_address (filter (\<lambda>p. pc_address p \<noteq> env_from env \<and> pc_cwd p = scope) (peer_conns b)))
        else if t = env_from env then [] else [t])
   | Many ts \<Rightarrow> filter (\<lambda>n. n \<noteq> env_from env) ts)"

definition is_unicast :: "envelope \<Rightarrow> bool" where
  "is_unicast env \<longleftrightarrow> (\<exists>t. env_to env = One t \<and> t \<noteq> ''broadcast'')"

lemma is_unicast_code [code, simp]:
  "is_unicast env = (case env_to env of One t \<Rightarrow> t \<noteq> ''broadcast'' | Many _ \<Rightarrow> False)"
  by (auto simp: is_unicast_def split: recipients.split)

definition status_text :: "ack_status \<Rightarrow> string" where
  "status_text s = (case s of Received \<Rightarrow> ''received'' | Denied \<Rightarrow> ''denied'')"

definition ack_body :: "ack_status \<Rightarrow> string \<Rightarrow> js" where
  "ack_body status target = Obj
     [(''type'', Str ''ack''), (''status'', Str (status_text status)), (''target'', Str target)]"

definition ack_envelope :: "envelope \<Rightarrow> ack_status \<Rightarrow> string \<Rightarrow> string \<Rightarrow> envelope" where
  "ack_envelope env status target new_id =
     \<lparr>env_from = BROKER_NAME, env_to = One (env_from env), env_id = new_id,
      env_re = Some (env_id env), env_body = ack_body status target\<rparr>"

definition sendAckToSender :: "envelope \<Rightarrow> ack_status \<Rightarrow> string \<Rightarrow> 'r broker \<Rightarrow> 'r broker" where
  "sendAckToSender env status target b = (case map_of (bk_peers b) (env_from env) of
     None \<Rightarrow> b
   | Some s \<Rightarrow> write_ignoring s (serialize (ack_envelope env status target (fresh_id b))) (next_id b))"

text \<open>The delivery loop: what was delivered and the acknowledgement to audit.\<close>

fun deliver :: "envelope \<Rightarrow> string list \<Rightarrow> 'r broker \<Rightarrow> (string list \<times> audit_status) \<times> 'r broker" where
  "deliver env [] b = (([], NoAck), b)"
| "deliver env (t # ts) b =
     (case map_of (bk_peers b) t of
        None \<Rightarrow> deliver env ts b
      | Some s \<Rightarrow>
          (case try_write s (serialize env) b of
             None \<Rightarrow> deliver env ts b
           | Some b' \<Rightarrow>
               (let b'' = (if is_unicast env then sendAckToSender env Received t b' else b');
                    ((ds, a), b3) = deliver env ts b''
                in ((t # ds, if is_unicast env then Acked Received else a), b3))))"

definition handleBrokerMessage :: "envelope \<Rightarrow> 'r broker \<Rightarrow> 'r broker" where
  "handleBrokerMessage env b =
     (if \<not> is_object (env_body env) then b
      else if jfield (env_body env) ''type'' = Str ''list_peers'' then
        (let reply = \<lparr>env_from = BROKER_NAME, env_to = One (env_from env), env_id = fresh_id b,
               env_re = Some (env_id env), env_body = list_peers_reply b\<rparr>;
             b' = next_id b
         in case map_of (bk_peers b') (env_from env) of
              Some s \<Rightarrow> write_ignoring s (serialize reply) b'
            | None \<Rightarrow> b')
      else b)"

definition try_remote :: "envelope \<Rightarrow> 'r broker \<Rightarrow> bool \<times> 'r broker" where
  "try_remote env b = (case (bk_router b, env_to env) of
     (Some r, One _) \<Rightarrow>
       (let (claimed, r') = rt_try r (rt_state r) env
        in (claimed, b\<lparr>bk_router := Some (r\<lparr>rt_state := r'\<rparr>)\<rparr>))
   | _ \<Rightarrow> (False, b))"

definition route_local :: "envelope \<Rightarrow> 'r broker \<Rightarrow> 'r broker" where
  "route_local env b =
     (let ((delivered, status), b') = deliver env (resolveTargets env b) b
      in routed env delivered (append_audit env delivered status Uds b'))"

definition route :: "envelope \<Rightarrow> 'r broker \<Rightarrow> 'r broker" where
  "route env b =
     (if env_to env = One BROKER_NAME then handleBrokerMessage env b
      else let (claimed, b') = try_remote env b in if claimed then b' else route_local env b')"

text \<open>Delivery of an envelope that arrived from another machine.\<close>

definition injectFromRemote :: "envelope \<Rightarrow> 'r broker \<Rightarrow> ack_status \<times> 'r broker" where
  "injectFromRemote env b = (case env_to env of
     Many _ \<Rightarrow> (Denied, b)
   | One t \<Rightarrow>
       (if t = ''broadcast'' \<or> t = BROKER_NAME then (Denied, b)
        else case map_of (bk_peers b) t of
          None \<Rightarrow> (Denied, b)
        | Some s \<Rightarrow>
            (case try_write s (serialize env) b of
               None \<Rightarrow> (Denied, b)
             | Some b' \<Rightarrow> (Received, routed env [t] (append_audit env [t] (Acked Received) Relay b')))))"

subsection \<open>Registration\<close>

definition base_name :: "string \<Rightarrow> string" where
  "base_name s = (case split_suffix s of Some (b, _) \<Rightarrow> b | None \<Rightarrow> s)"

text \<open>The collision suffixes tried: \<open>for (let n = 2; n < 1000; n++)\<close>.\<close>

definition collision_suffixes :: "nat list" where
  "collision_suffixes = [2..<1000]"

text \<open>\<open>_uniqueIdentity\<close>: \<open>None\<close> when the name space is exhausted and the code throws.\<close>

definition uniqueIdentity :: "string \<Rightarrow> string \<Rightarrow> 'r broker \<Rightarrow> (string \<times> string) option" where
  "uniqueIdentity cwd requested b =
     (let sanitized = sanitizeMeshName requested in
      if \<not> omap_has (bk_peers b) (composeAddress None cwd sanitized)
      then Some (sanitized, composeAddress None cwd sanitized)
      else
        (let suffixed = (\<lambda>n. base_name sanitized @ ''#'' @ nat_text n) in
         map_option (\<lambda>n. (suffixed n, composeAddress None cwd (suffixed n)))
           (find (\<lambda>n. \<not> omap_has (bk_peers b) (composeAddress None cwd (suffixed n))) collision_suffixes)))"

definition register_ack :: "string \<Rightarrow> string \<Rightarrow> js" where
  "register_ack address name = Obj
     [(''type'', Str ''register_ack''), (''address_assigned'', Str address), (''name_assigned'', Str name)]"

definition conn_of :: "'r broker \<Rightarrow> nat \<Rightarrow> peer_conn" where
  "conn_of b s = (case map_of (bk_conns b) s of Some c \<Rightarrow> c
     | None \<Rightarrow> \<lparr>pc_name = [], pc_cwd = [], pc_address = [], pc_sock = s, pc_buf = []\<rparr>)"

definition put_conn :: "nat \<Rightarrow> peer_conn \<Rightarrow> 'r broker \<Rightarrow> 'r broker" where
  "put_conn s c b = b\<lparr>bk_conns := omap_put (bk_conns b) s c\<rparr>"

definition register_request :: "string \<Rightarrow> (string \<times> string) option" where
  "register_request line = (case json_parse line of
     None \<Rightarrow> None
   | Some v \<Rightarrow>
       (if is_object v \<and> jfield v ''type'' = Str ''register''
        then map_option (\<lambda>name. (case as_str (jfield v ''cwd'') of Some c \<Rightarrow> c | None \<Rightarrow> [], name))
               (as_str (jfield v ''name''))
        else None))"

definition admit :: "nat \<Rightarrow> string \<Rightarrow> string \<Rightarrow> string \<Rightarrow> 'r broker \<Rightarrow> 'r broker" where
  "admit s cwd name address b =
     (let b1 = put_conn s ((conn_of b s)\<lparr>pc_cwd := cwd, pc_name := name, pc_address := address\<rparr>) b;
          b2 = b1\<lparr>bk_peers := omap_put (bk_peers b1) address s\<rparr>;
          b3 = write_ignoring s (stringify (register_ack address name) @ [nl_char]) b2
      in broadcastSystem (peer_event ''peer_joined'' address) address b3)"

definition handleRegister :: "nat \<Rightarrow> string \<Rightarrow> 'r broker \<Rightarrow> 'r broker" where
  "handleRegister s line b = (case register_request line of
     None \<Rightarrow> destroy s b
   | Some (cwd, requested) \<Rightarrow>
       (case uniqueIdentity cwd requested b of
          None \<Rightarrow> (put_conn s ((conn_of b s)\<lparr>pc_cwd := cwd\<rparr>) b)\<lparr>bk_fault := True\<rparr>
        | Some (name, address) \<Rightarrow> admit s cwd name address b))"

definition is_probe :: "string \<Rightarrow> bool" where
  "is_probe line = (case json_parse line of
     None \<Rightarrow> False
   | Some v \<Rightarrow> is_object v \<and> jfield v ''type'' = Str ''list_peers'')"

definition answer_probe :: "nat \<Rightarrow> 'r broker \<Rightarrow> 'r broker" where
  "answer_probe s b = write_ignoring s
     (serialize \<lparr>env_from = BROKER_NAME, env_to = One ''observer'', env_id = fresh_id b,
        env_re = None, env_body = list_peers_reply b\<rparr>) (next_id b)"

subsection \<open>Connection events\<close>

definition handleConnection :: "nat \<Rightarrow> 'r broker \<Rightarrow> 'r broker" where
  "handleConnection s b = put_conn s
     \<lparr>pc_name = [], pc_cwd = [], pc_address = [], pc_sock = s, pc_buf = []\<rparr> b"

definition handleLine :: "nat \<Rightarrow> string \<Rightarrow> 'r broker \<Rightarrow> 'r broker" where
  "handleLine s line b =
     (let conn = conn_of b s in
      if pc_name conn = [] then
        (if is_probe line then answer_probe s b else handleRegister s line b)
      else case parse line of
        Inl _ \<Rightarrow> b
      | Inr env \<Rightarrow> route (env\<lparr>env_from := pc_address conn\<rparr>) b)"

definition onData :: "nat \<Rightarrow> string \<Rightarrow> 'r broker \<Rightarrow> 'r broker" where
  "onData s chunk b =
     (let (lines, rest) = feed (pc_buf (conn_of b s)) chunk
      in fold (handleLine s) lines (put_conn s ((conn_of b s)\<lparr>pc_buf := rest\<rparr>) b))"

definition drop_conn :: "nat \<Rightarrow> 'r broker \<Rightarrow> 'r broker" where
  "drop_conn s b = b\<lparr>bk_conns := omap_del (bk_conns b) s\<rparr>"

definition onClose :: "nat \<Rightarrow> 'r broker \<Rightarrow> 'r broker" where
  "onClose s b =
     (let address = pc_address (conn_of b s); b0 = drop_conn s b in
      if address = [] then b0
      else let b1 = b0\<lparr>bk_peers := omap_del (bk_peers b0) address\<rparr>
           in broadcastSystem (peer_event ''peer_left'' address) address b1)"

definition close_broker :: "'r broker \<Rightarrow> 'r broker" where
  "close_broker b = (fold destroy (map snd (bk_peers b)) b)\<lparr>bk_peers := [], bk_listening := False\<rparr>"

subsection \<open>What an operation writes, and what it leaves alone\<close>

text \<open>
  \<open>quiet P b b'\<close>: from \<open>b\<close> to \<open>b'\<close> the registry is unchanged and every line written
  satisfies \<open>P\<close> of its socket and text.
\<close>

definition quiet :: "(nat \<Rightarrow> string \<Rightarrow> bool) \<Rightarrow> 'r broker \<Rightarrow> 'r broker \<Rightarrow> bool" where
  "quiet P b b' \<longleftrightarrow> bk_peers b' = bk_peers b \<and> bk_conns b' = bk_conns b
     \<and> bk_listening b' = bk_listening b
     \<and> (\<exists>new. bk_out b' = bk_out b @ new \<and> (\<forall>(s, l) \<in> set new. P s l))"

lemma quiet_refl [simp, intro]: "quiet P b b"
  by (simp add: quiet_def)

lemma quiet_trans: "quiet P a b \<Longrightarrow> quiet P b c \<Longrightarrow> quiet P a c"
  by (fastforce simp: quiet_def)

lemma quiet_write:
  "P s l \<Longrightarrow> try_write s l b = Some b' \<Longrightarrow> quiet P b b'"
  by (auto simp: quiet_def try_write_def split: if_splits)

lemma quiet_write_ignoring: "P s l \<Longrightarrow> quiet P b (write_ignoring s l b)"
  by (auto simp: write_ignoring_def intro: quiet_write split: option.split)

lemma quiet_fields [simp]:
  "quiet P b (next_id b')  = quiet P b b'"
  "quiet P b (routed env ds b') = quiet P b b'"
  "quiet P b (append_audit env ds st v b') = quiet P b b'"
  "quiet P b (b'\<lparr>bk_router := r\<rparr>) = quiet P b b'"
  "quiet P b (destroy s b') = quiet P b b'"
  by (simp_all add: quiet_def next_id_def routed_def append_audit_def destroy_def)

lemma quiet_registry: "quiet P b b' \<Longrightarrow> bk_peers b' = bk_peers b \<and> bk_conns b' = bk_conns b"
  by (simp add: quiet_def)

lemma quiet_mono: "quiet P b b' \<Longrightarrow> (\<And>s l. P s l \<Longrightarrow> Q s l) \<Longrightarrow> quiet Q b b'"
  by (fastforce simp: quiet_def)

lemma quiet_broadcast_to:
  assumes "\<And>s e. env_from e = BROKER_NAME \<Longrightarrow> P s (serialize e)"
  shows "quiet P b (broadcast_to body ex ps b)"
proof (induction ps arbitrary: b)
  case Nil
  then show ?case by simp
next
  case (Cons p ps)
  obtain address s where p: "p = (address, s)" by (cases p)
  let ?b = "write_ignoring s (serialize (system_envelope body address b)) (next_id b)"
  have "quiet P (next_id b) ?b"
    by (intro quiet_write_ignoring assms) (simp add: system_envelope_def)
  then have "quiet P b ?b" by (rule quiet_trans [rotated]) simp
  from quiet_trans [OF this Cons.IH] Cons.IH p show ?case by simp
qed

lemma quiet_ack:
  assumes "\<And>s e. env_from e = BROKER_NAME \<Longrightarrow> P s (serialize e)"
  shows "quiet P b (sendAckToSender env st t b)"
proof (cases "map_of (bk_peers b) (env_from env)")
  case None
  then show ?thesis by (simp add: sendAckToSender_def)
next
  case (Some s)
  have "quiet P (next_id b) (write_ignoring s (serialize (ack_envelope env st t (fresh_id b))) (next_id b))"
    by (intro quiet_write_ignoring assms) (simp add: ack_envelope_def)
  then have "quiet P b (write_ignoring s (serialize (ack_envelope env st t (fresh_id b))) (next_id b))"
    by (rule quiet_trans [rotated]) simp
  with Some show ?thesis by (simp add: sendAckToSender_def)
qed

lemma quiet_deliver:
  assumes broker: "\<And>s e. env_from e = BROKER_NAME \<Longrightarrow> P s (serialize e)"
    and self: "\<And>s. P s (serialize env)"
  shows "quiet P b (snd (deliver env ts b))"
proof (induction ts arbitrary: b)
  case Nil
  then show ?case by simp
next
  case (Cons t ts)
  show ?case
  proof (cases "map_of (bk_peers b) t")
    case None
    with Cons show ?thesis by simp
  next
    case (Some s)
    show ?thesis
    proof (cases "try_write s (serialize env) b")
      case None
      with Some Cons show ?thesis by simp
    next
      case (Some b')
      from quiet_write [where P = P, OF self Some] have "quiet P b b'" .
      moreover have "quiet P b' (if is_unicast env then sendAckToSender env Received t b' else b')"
        using quiet_ack [where P = P, OF broker, of b' env Received t] by (simp del: is_unicast_code)
      ultimately have "quiet P b (if is_unicast env then sendAckToSender env Received t b' else b')"
        by (rule quiet_trans)
      from quiet_trans [OF this Cons.IH] Some \<open>map_of (bk_peers b) t = Some s\<close>
      show ?thesis by (simp add: Let_def split_def del: is_unicast_code)
    qed
  qed
qed

lemma quiet_handleBrokerMessage:
  assumes "\<And>s e. env_from e = BROKER_NAME \<Longrightarrow> P s (serialize e)"
  shows "quiet P b (handleBrokerMessage env b)"
proof -
  have "quiet P b (write_ignoring s (serialize e) (next_id b))" if "env_from e = BROKER_NAME" for s e
    by (rule quiet_trans [of P b "next_id b"]) (simp_all add: quiet_write_ignoring assms that)
  then show ?thesis
    by (simp add: handleBrokerMessage_def Let_def split: option.split)
qed

lemma quiet_try_remote [simp]: "quiet P b (snd (try_remote env b))"
  by (auto simp: try_remote_def Let_def split_def split: option.split recipients.split)

lemma quiet_route:
  assumes "\<And>s e. env_from e = BROKER_NAME \<Longrightarrow> P s (serialize e)"
    and "\<And>s. P s (serialize env)"
  shows "quiet P b (route env b)"
proof -
  let ?b = "snd (try_remote env b)"
  have "quiet P ?b (route_local env ?b)"
    using quiet_deliver [where P = P, OF assms] by (simp add: route_local_def Let_def split_def)
  from quiet_trans [OF quiet_try_remote this] show ?thesis
    using quiet_handleBrokerMessage [where P = P, OF assms(1), of b env]
    by (simp add: route_def Let_def split_def)
qed

lemma quiet_inject:
  "(\<And>s. P s (serialize env)) \<Longrightarrow> quiet P b (snd (injectFromRemote env b))"
  by (auto simp: injectFromRemote_def intro: quiet_write split: recipients.split option.split)

lemma quiet_probe:
  assumes "\<And>s e. env_from e = BROKER_NAME \<Longrightarrow> P s (serialize e)"
  shows "quiet P b (answer_probe s b)"
  unfolding answer_probe_def
  by (rule quiet_trans [of P b "next_id b"]) (auto intro!: quiet_write_ignoring assms)

lemma quiet_broadcastSystem:
  assumes "\<And>s e. env_from e = BROKER_NAME \<Longrightarrow> P s (serialize e)"
  shows "quiet P b (broadcastSystem body ex b)"
  unfolding broadcastSystem_def by (rule quiet_broadcast_to) (rule assms)

subsection \<open>The registry invariant\<close>

text \<open>
  A registered address is the composed address of its connection, whose name is
  free of separators; it is never one of the two addresses the router treats
  specially. A connection has a name exactly when it has an address.
\<close>

definition routable :: "string \<Rightarrow> bool" where
  "routable a \<longleftrightarrow> a \<noteq> [] \<and> a \<noteq> BROKER_NAME \<and> a \<noteq> ''broadcast''"

definition mesh_name :: "string \<Rightarrow> bool" where
  "mesh_name n \<longleftrightarrow> address_safe n \<and> n \<noteq> BROKER_NAME \<and> n \<noteq> ''broadcast''"

definition registered_as :: "string \<Rightarrow> peer_conn \<Rightarrow> bool" where
  "registered_as a c \<longleftrightarrow> mesh_name (pc_name c) \<and> pc_address c = a
     \<and> a = composeAddress None (pc_cwd c) (pc_name c)"

definition wf_broker :: "'r broker \<Rightarrow> bool" where
  "wf_broker b \<longleftrightarrow> omap_wf (bk_peers b) \<and> omap_wf (bk_conns b)
     \<and> (\<forall>a s. map_of (bk_peers b) a = Some s \<longrightarrow>
           (\<exists>c. map_of (bk_conns b) s = Some c \<and> registered_as a c))
     \<and> (\<forall>s c. map_of (bk_conns b) s = Some c \<longrightarrow>
           pc_sock c = s \<and> (pc_name c = []) = (pc_address c = [])
           \<and> (pc_name c \<noteq> [] \<and> bk_listening b \<longrightarrow> map_of (bk_peers b) (pc_address c) = Some s))"

lemma wf_new_broker [wf_intros]: "wf_broker (new_broker audit gen)"
  by (simp add: wf_broker_def new_broker_def)

lemma wf_quiet: "quiet P b b' \<Longrightarrow> wf_broker b' = wf_broker b"
  by (simp add: quiet_def wf_broker_def)

lemma wf_peer_conn:
  "wf_broker b \<Longrightarrow> map_of (bk_peers b) a = Some s \<Longrightarrow>
    \<exists>c. map_of (bk_conns b) s = Some c \<and> registered_as a c"
  by (simp add: wf_broker_def)

lemma wf_conn_name:
  "wf_broker b \<Longrightarrow> map_of (bk_conns b) s = Some c \<Longrightarrow> (pc_name c = []) = (pc_address c = [])"
  by (simp add: wf_broker_def)

lemma wf_owned:
  "wf_broker b \<Longrightarrow> map_of (bk_conns b) s = Some c \<Longrightarrow> pc_name c \<noteq> [] \<Longrightarrow> bk_listening b \<Longrightarrow>
    map_of (bk_peers b) (pc_address c) = Some s"
  by (simp add: wf_broker_def)

lemma composed_routable:
  assumes "address_safe n" "n \<noteq> BROKER_NAME" "n \<noteq> ''broadcast''"
  shows "routable (composeAddress None cwd n)"
  using assms by (auto simp: routable_def composeAddress_def address_safe_def BROKER_NAME_def
      dest: arg_cong [where f = "\<lambda>s. CHR ''@'' \<in> set s"])

lemma clean_segment_mesh: "clean_segment t \<Longrightarrow> mesh_name t"
proof -
  assume c: "clean_segment t"
  have "reserved BROKER_NAME" "reserved ''broadcast''"
    by (simp_all add: reserved_def lower_def BROKER_NAME_def)
  with c show ?thesis by (auto simp: mesh_name_def clean_segment_safe clean_segment_def)
qed

lemma suffixed_mesh: "address_safe b \<Longrightarrow> \<forall>c \<in> set ds. is_digit c \<Longrightarrow> mesh_name (b @ CHR ''#'' # ds)"
  unfolding mesh_name_def
  by (auto simp: address_safe_suffix BROKER_NAME_def dest: arg_cong [where f = "\<lambda>s. CHR ''#'' \<in> set s"])

lemma sanitizeMeshName_mesh: "mesh_name (sanitizeMeshName raw)"
proof (cases "split_suffix raw")
  case None
  then show ?thesis
    using sanitized_or_agent [THEN clean_segment_mesh] by (simp add: sanitizeMeshName_def)
next
  case (Some p)
  obtain b sfx where p: "p = (b, sfx)" by (cases p)
  from split_suffix_Some [of raw b sfx] Some p obtain ds where
    "sfx = CHR ''#'' # ds" "\<forall>c \<in> set ds. is_digit c" by auto
  then show ?thesis
    using Some p sanitized_or_agent [THEN clean_segment_mesh] sanitized_or_agent [THEN clean_segment_safe]
    by (auto simp: sanitizeMeshName_def intro: suffixed_mesh)
qed

lemma set_base_name: "set (base_name n) \<subseteq> set n"
proof (cases "split_suffix n")
  case (Some p)
  then show ?thesis
    using split_suffix_Some [of n "fst p" "snd p"] by (cases p) (auto simp: base_name_def)
qed (simp add: base_name_def)

lemma nat_text_notin: "\<not> is_digit c \<Longrightarrow> c \<notin> set (nat_text k)"
  using nat_text_digits by blast

lemma base_name_mesh: "address_safe n \<Longrightarrow> mesh_name (base_name n @ ''#'' @ nat_text k)"
  unfolding mesh_name_def address_safe_def BROKER_NAME_def
  using set_base_name [of n]
  by (auto simp: nat_text_notin is_digit_def dest: arg_cong [where f = "\<lambda>s. CHR ''#'' \<in> set s"])

lemma uniqueIdentity_fresh:
  assumes "uniqueIdentity cwd requested b = Some (name, address)"
  shows "map_of (bk_peers b) address = None" "address = composeAddress None cwd name" "mesh_name name"
proof -
  note mesh = sanitizeMeshName_mesh [of requested]
  let ?free = "\<lambda>n. \<not> omap_has (bk_peers b)
    (composeAddress None cwd (base_name (sanitizeMeshName requested) @ ''#'' @ nat_text n))"
  have "map_of (bk_peers b) address = None \<and> address = composeAddress None cwd name \<and> mesh_name name"
  proof (cases "omap_has (bk_peers b) (composeAddress None cwd (sanitizeMeshName requested))")
    case False
    with assms mesh show ?thesis by (auto simp: uniqueIdentity_def Let_def)
  next
    case True
    with assms obtain n where "find ?free collision_suffixes = Some n"
      and n: "name = base_name (sanitizeMeshName requested) @ ''#'' @ nat_text n"
        "address = composeAddress None cwd name"
      by (auto simp: uniqueIdentity_def Let_def)
    then have "?free n" by (auto simp: find_Some_iff)
    with n mesh base_name_mesh show ?thesis by (auto simp: mesh_name_def)
  qed
  then show "map_of (bk_peers b) address = None" "address = composeAddress None cwd name" "mesh_name name"
    by blast+
qed

lemma card_suffixes: "card (set collision_suffixes) = 998"
  unfolding collision_suffixes_def set_upt card_atLeastLessThan by simp

text \<open>Fewer than 998 peers: one of the candidate names is free.\<close>

lemma suffixed_address_inj:
  assumes "address_safe n"
  shows "inj (\<lambda>k. composeAddress None cwd (base_name n @ ''#'' @ nat_text k))"
  using base_name_mesh [OF assms] by (intro injI) (simp add: composeAddress_inject mesh_name_def nat_text_inj)

lemma uniqueIdentity_total:
  assumes "length (bk_peers b) < 998"
  shows "uniqueIdentity cwd requested b \<noteq> None"
proof
  assume none: "uniqueIdentity cwd requested b = None"
  let ?s = "sanitizeMeshName requested"
  let ?a = "\<lambda>k. composeAddress None cwd (base_name ?s @ ''#'' @ nat_text k)"
  let ?P = "fst ` set (bk_peers b)"
  from none have taken: "composeAddress None cwd ?s \<in> ?P" "\<forall>k \<in> set collision_suffixes. ?a k \<in> ?P"
    by (auto simp: uniqueIdentity_def Let_def find_None_iff intro: omap_hasI split: if_splits)
  have "inj_on ?a (set collision_suffixes)"
    using suffixed_address_inj [OF sanitizeMeshName_safe] by (rule inj_on_subset) simp
  then have "card (?a ` set collision_suffixes) = 998" by (simp add: card_image card_suffixes)
  moreover have "?a ` set collision_suffixes \<subseteq> ?P" using taken(2) by auto
  ultimately have "998 \<le> card ?P" by (metis List.finite_set card_mono finite_imageI)
  moreover have "card ?P \<le> length (bk_peers b)" using card_length [of "map fst (bk_peers b)"] by simp
  ultimately show False using assms by simp
qed

lemma registered_routable: "registered_as a c \<Longrightarrow> routable a"
  by (auto simp: registered_as_def mesh_name_def intro: composed_routable)

lemma registered_named: "registered_as a c \<Longrightarrow> pc_name c \<noteq> [] \<and> pc_address c = a"
  by (auto simp: registered_as_def mesh_name_def address_safe_def)

text \<open>Two addresses never share a socket.\<close>

lemma wf_sockets_distinct:
  "wf_broker b \<Longrightarrow> map_of (bk_peers b) a = Some s \<Longrightarrow> map_of (bk_peers b) a' = Some s \<Longrightarrow> a = a'"
  by (metis option.inject registered_named wf_peer_conn)

subsection \<open>Every event keeps the invariant\<close>

lemma wf_put_unnamed [wf_intros]:
  assumes "wf_broker b" "pc_name (conn_of b s) = []" "pc_name c = []" "pc_address c = []" "pc_sock c = s"
  shows "wf_broker (put_conn s c b)"
proof -
  have "\<not> registered_as a (conn_of b s)" for a using assms(2) registered_named by blast
  then have "map_of (bk_peers b) a \<noteq> Some s" for a
    using wf_peer_conn [OF assms(1), of a s] by (auto simp: conn_of_def)
  then show ?thesis
    using assms unfolding wf_broker_def put_conn_def by (auto simp: conn_of_def) 
qed

lemma registered_buf [simp]: "registered_as a (c\<lparr>pc_buf := r\<rparr>) = registered_as a c"
  by (simp add: registered_as_def)

lemma wf_put_buf [wf_intros]:
  assumes wf: "wf_broker b" and c: "map_of (bk_conns b) s = Some c"
  shows "wf_broker (put_conn s (c\<lparr>pc_buf := rest\<rparr>) b)"
proof -
  have "pc_sock c = s \<and> (pc_name c = []) = (pc_address c = [])
      \<and> (pc_name c \<noteq> [] \<and> bk_listening b \<longrightarrow> map_of (bk_peers b) (pc_address c) = Some s)"
    using wf c by (simp add: wf_broker_def)
  moreover have "registered_as a c" if "map_of (bk_peers b) a = Some s" for a
    using wf_peer_conn [OF wf that] c by simp
  ultimately show ?thesis
    using wf by (simp add: wf_broker_def put_conn_def)
qed

lemma wf_admit [wf_intros]:
  assumes wf: "wf_broker b" and c: "map_of (bk_conns b) s = Some c" "pc_name c = []"
    and u: "uniqueIdentity cwd requested b = Some (name, address)"
  shows "wf_broker (admit s cwd name address b)"
proof -
  let ?c = "c\<lparr>pc_cwd := cwd, pc_name := name, pc_address := address\<rparr>"
  let ?b = "(put_conn s ?c b)\<lparr>bk_peers := omap_put (bk_peers b) address s\<rparr>"
  note fresh = uniqueIdentity_fresh [OF u]
  have named: "registered_as address ?c" using fresh by (simp add: registered_as_def)
  have other: "map_of (bk_peers b) a \<noteq> Some s" for a
    using wf_peer_conn [OF wf, of a s] c registered_named by fastforce
  have owned: "\<forall>t d. map_of (bk_conns b) t = Some d \<longrightarrow> bk_listening b \<longrightarrow> pc_address d \<noteq> address \<or> pc_name d = []"
    using wf_owned [OF wf] fresh(1) by fastforce
  have "wf_broker ?b"
    using wf named other owned registered_named [OF named] registered_routable [OF named] c(1)
    unfolding routable_def wf_broker_def put_conn_def by (auto simp: wf_broker_def)
  moreover have "quiet (\<lambda>_ _. True) ?b (admit s cwd name address b)"
    using c by (simp add: admit_def Let_def conn_of_def put_conn_def
        quiet_trans [OF quiet_write_ignoring quiet_broadcastSystem])
  ultimately show ?thesis by (simp add: wf_quiet)
qed

lemma wf_handleRegister [wf_intros]:
  assumes "wf_broker b" "map_of (bk_conns b) s = Some c" "pc_name c = []"
  shows "wf_broker (handleRegister s line b)"
proof (cases "register_request line")
  case None
  then show ?thesis using assms(1) by (simp add: handleRegister_def destroy_def wf_broker_def)
next
  case (Some r)
  obtain cwd requested where r: "r = (cwd, requested)" by (cases r)
  show ?thesis
  proof (cases "uniqueIdentity cwd requested b")
    case None
    have "pc_address c = []" "pc_sock c = s" using assms by (auto simp: wf_broker_def)
    then have "wf_broker (put_conn s (c\<lparr>pc_cwd := cwd\<rparr>) b)"
      using assms by (intro wf_put_unnamed) (simp_all add: conn_of_def)
    then show ?thesis
      using Some r None assms(2) by (simp add: handleRegister_def conn_of_def wf_broker_def)
  next
    case (Some p)
    with wf_admit [OF assms, of cwd requested "fst p" "snd p"] \<open>register_request line = Some r\<close> r
    show ?thesis by (simp add: handleRegister_def split_def)
  qed
qed

abbreviation from_broker_or :: "string \<Rightarrow> nat \<Rightarrow> string \<Rightarrow> bool" where
  "from_broker_or a s l \<equiv> \<exists>e. l = serialize e \<and> (env_from e = BROKER_NAME \<or> env_from e = a)"

lemma quiet_registered_line:
  assumes "pc_name (conn_of b s) \<noteq> []"
  shows "quiet (from_broker_or (pc_address (conn_of b s))) b (handleLine s line b)"
proof (cases "parse line")
  case (Inl e)
  with assms show ?thesis by (simp add: handleLine_def)
next
  case (Inr env)
  have "quiet (from_broker_or (pc_address (conn_of b s))) b (route (env\<lparr>env_from := pc_address (conn_of b s)\<rparr>) b)"
    by (rule quiet_route) auto
  with Inr assms show ?thesis by (simp add: handleLine_def)
qed

lemma conn_of_Some: "map_of (bk_conns b) s = Some c \<Longrightarrow> conn_of b s = c"
  by (simp add: conn_of_def)

lemma broadcastSystem_registry [simp]:
  "bk_peers (broadcastSystem body ex b) = bk_peers b" "bk_conns (broadcastSystem body ex b) = bk_conns b"
  using quiet_broadcastSystem [of "\<lambda>_ _. True" b body ex] by (simp_all add: quiet_def)

lemma wf_broadcastSystem [simp]: "wf_broker (broadcastSystem body ex b) = wf_broker b"
  using wf_quiet [OF quiet_broadcastSystem, of "\<lambda>_ _. True"] by blast

lemma write_ignoring_registry [simp]:
  "bk_peers (write_ignoring s l b) = bk_peers b" "bk_conns (write_ignoring s l b) = bk_conns b"
  using quiet_write_ignoring [of "\<lambda>_ _. True" s l b] by (simp_all add: quiet_def)

lemma handleRegister_conns: "fst ` set (bk_conns b) \<subseteq> fst ` set (bk_conns (handleRegister s line b))"
proof -
  show ?thesis
    by (auto simp: handleRegister_def admit_def Let_def destroy_def put_conn_def split: option.split)
qed

lemma wf_handleLine [wf_intros]:
  assumes "wf_broker b" "s \<in> fst ` set (bk_conns b)"
  shows "wf_broker (handleLine s line b) \<and> s \<in> fst ` set (bk_conns (handleLine s line b))"
proof (cases "pc_name (conn_of b s) = []")
  case False
  from quiet_registered_line [OF False] have "wf_broker (handleLine s line b) = wf_broker b"
    "bk_conns (handleLine s line b) = bk_conns b"
    using wf_quiet quiet_registry by blast+
  with assms show ?thesis by simp
next
  case True
  from assms(2) obtain c where c: "map_of (bk_conns b) s = Some c"
    by (metis omap_has_iff not_None_eq)
  have "quiet (\<lambda>_ _. True) b (answer_probe s b)" by (rule quiet_probe) simp
  then show ?thesis
    using True assms handleRegister_conns [of b s line] wf_handleRegister [OF assms(1) c] c
    by (auto simp: handleLine_def conn_of_Some wf_quiet quiet_registry)
qed

lemma wf_handleLines:
  "wf_broker b \<Longrightarrow> s \<in> fst ` set (bk_conns b) \<Longrightarrow> wf_broker (fold (handleLine s) lines b)"
  by (induction lines arbitrary: b) (simp_all add: wf_handleLine)

lemma wf_onData [wf_intros]:
  assumes "wf_broker b" "s \<in> fst ` set (bk_conns b)"
  shows "wf_broker (onData s chunk b)"
proof -
  from assms(2) obtain c where c: "map_of (bk_conns b) s = Some c"
    by (metis omap_has_iff not_None_eq)
  let ?b = "put_conn s (c\<lparr>pc_buf := snd (feed (pc_buf c) chunk)\<rparr>) b"
  have "wf_broker ?b" using wf_put_buf [OF assms(1) c] .
  moreover have "s \<in> fst ` set (bk_conns ?b)" by (simp add: put_conn_def)
  ultimately have "wf_broker (fold (handleLine s) (fst (feed (pc_buf c) chunk)) ?b)" by (rule wf_handleLines)
  with c show ?thesis by (simp add: onData_def conn_of_Some Let_def split_def)
qed

lemma wf_handleConnection [wf_intros]:
  assumes "wf_broker b" "s \<notin> fst ` set (bk_conns b)"
  shows "wf_broker (handleConnection s b)"
  unfolding handleConnection_def
  using assms by (intro wf_put_unnamed) (auto simp: conn_of_def split: option.split dest: omap_hasI)

lemma wf_remove:
  assumes wf: "wf_broker b"
    and only: "\<And>a'. map_of (bk_peers b) a' = Some s \<Longrightarrow> a' = a"
    and mine: "\<And>t d. map_of (bk_conns b) t = Some d \<Longrightarrow> pc_name d \<noteq> [] \<Longrightarrow> bk_listening b \<Longrightarrow>
      pc_address d = a \<Longrightarrow> t = s"
  shows "wf_broker ((drop_conn s b)\<lparr>bk_peers := omap_del (bk_peers b) a\<rparr>)"
proof -
  have "\<exists>c. ((map_of (bk_conns b))(s := None)) t = Some c \<and> registered_as a' c"
    if "((map_of (bk_peers b))(a := None)) a' = Some t" for a' t
    using that wf_peer_conn [OF wf, of a' t] only by (auto split: if_splits)
  moreover have "pc_sock c = t \<and> (pc_name c = []) = (pc_address c = [])
      \<and> (pc_name c \<noteq> [] \<and> bk_listening b \<longrightarrow> ((map_of (bk_peers b))(a := None)) (pc_address c) = Some t)"
    if "((map_of (bk_conns b))(s := None)) t = Some c" for t c
    using that wf mine by (auto simp: wf_broker_def split: if_splits)
  ultimately show ?thesis
    using wf by (simp add: wf_broker_def drop_conn_def)
qed

lemma wf_onClose [wf_intros]:
  assumes wf: "wf_broker b"
  shows "wf_broker (onClose s b)"
proof (cases "map_of (bk_conns b) s")
  case None
  then have "drop_conn s b = b" by (simp add: drop_conn_def map_of_eq_None_iff AList.delete_id)
  with None wf show ?thesis by (simp add: onClose_def Let_def conn_of_def)
next
  case (Some c)
  let ?b = "(drop_conn s b)\<lparr>bk_peers := omap_del (bk_peers b) (pc_address c)\<rparr>"
  have "wf_broker ?b"
  proof (rule wf_remove [OF wf])
    fix a assume "map_of (bk_peers b) a = Some s"
    with wf_peer_conn [OF wf this] Some registered_named show "a = pc_address c" by force
  next
    fix t d assume "map_of (bk_conns b) t = Some d" "pc_name d \<noteq> []" "bk_listening b" "pc_address d = pc_address c"
    then show "t = s"
      using wf_owned [OF wf, of t d] wf_owned [OF wf Some] wf_conn_name [OF wf Some] wf_conn_name [OF wf, of t d]
      by simp
  qed
  moreover have "?b = drop_conn s b" if "pc_address c = []"
  proof -
    have "[] \<notin> fst ` set (bk_peers b)"
      using wf_peer_conn [OF wf, of "[]"] registered_routable
      by (metis omap_has_iff not_None_eq routable_def)
    with that show ?thesis by (simp add: AList.delete_id drop_conn_def)
  qed
  ultimately show ?thesis
    using Some by (cases "pc_address c = []") (simp_all add: onClose_def Let_def conn_of_Some drop_conn_def)
qed

lemma wf_close_broker [wf_intros]:
  assumes "wf_broker b"
  shows "wf_broker (close_broker b)"
proof -
  have "bk_conns (fold destroy ss b) = bk_conns b" for ss
    by (induction ss arbitrary: b) (simp_all add: destroy_def)
  with assms show ?thesis by (simp add: wf_broker_def close_broker_def)
qed

subsection \<open>Executions\<close>

text \<open>
  What happens to a broker: a socket connects, sends a chunk or closes; an
  envelope arrives from another machine; the remote router is attached, and its
  own state moves on; the clock advances; a socket starts to throw; the broker is
  closed.
\<close>

datatype 'r broker_event =
    Connect nat
  | Data nat string
  | Closed nat
  | Inject envelope
  | Attach "'r router option"
  | Tick int
  | Breaks nat
  | Shut

fun broker_step :: "'r broker_event \<Rightarrow> 'r broker \<Rightarrow> 'r broker" where
  "broker_step (Connect s) b = handleConnection s b"
| "broker_step (Data s chunk) b = onData s chunk b"
| "broker_step (Closed s) b = onClose s b"
| "broker_step (Inject env) b = snd (injectFromRemote env b)"
| "broker_step (Attach r) b = setRemoteRouter r b"
| "broker_step (Tick t) b = b\<lparr>bk_now := t\<rparr>"
| "broker_step (Breaks s) b = b\<lparr>bk_broken := oset_add (bk_broken b) s\<rparr>"
| "broker_step Shut b = close_broker b"

text \<open>A socket connects once, to a broker that listens, and sends only while connected.\<close>

fun possible :: "'r broker_event \<Rightarrow> 'r broker \<Rightarrow> bool" where
  "possible (Connect s) b = (bk_listening b \<and> \<not> omap_has (bk_conns b) s)"
| "possible (Data s _) b = omap_has (bk_conns b) s"
| "possible (Closed s) b = omap_has (bk_conns b) s"
| "possible _ b = True"

inductive broker_reachable :: "bool \<Rightarrow> (nat \<Rightarrow> string) \<Rightarrow> 'r broker \<Rightarrow> bool" for audit gen where
  start: "broker_reachable audit gen (new_broker audit gen)"
| event: "broker_reachable audit gen b \<Longrightarrow> possible e b \<Longrightarrow> broker_reachable audit gen (broker_step e b)"

lemma wf_step:
  assumes "wf_broker b" "possible e b"
  shows "wf_broker (broker_step e b)"
proof (cases e)
  case (Inject env)
  have "quiet (\<lambda>_ _. True) b (snd (injectFromRemote env b))" by (rule quiet_inject) simp
  with Inject assms show ?thesis by (simp add: wf_quiet)
next
  case (Data s chunk)
  with assms show ?thesis by (auto intro!: wf_onData dest: omap_hasI)
next
  case (Connect s)
  with assms show ?thesis by (auto intro!: wf_handleConnection simp: map_of_eq_None_iff)
next
  case (Closed s)
  with assms wf_onClose show ?thesis by simp
next
  case Shut
  with assms wf_close_broker show ?thesis by simp
qed (use assms in \<open>simp_all add: wf_broker_def setRemoteRouter_def\<close>)

lemma reachable_wf: "broker_reachable audit gen b \<Longrightarrow> wf_broker b"
  by (induction rule: broker_reachable.induct) (simp_all add: wf_new_broker wf_step)

subsection \<open>Delivery\<close>

definition writable :: "'r broker \<Rightarrow> nat \<Rightarrow> bool" where
  "writable b s \<longleftrightarrow> s \<notin> set (bk_broken b) \<and> s \<notin> set (bk_closed b)"

lemma try_write_writable:
  "writable b s \<Longrightarrow> try_write s l b = Some (b\<lparr>bk_out := bk_out b @ [(s, l)]\<rparr>)"
  by (simp add: writable_def try_write_def)

lemma write_ignoring_writable:
  "writable b s \<Longrightarrow> write_ignoring s l b = b\<lparr>bk_out := bk_out b @ [(s, l)]\<rparr>"
  by (simp add: write_ignoring_def try_write_writable)

lemma writable_fields [simp]:
  "writable (b\<lparr>bk_out := out\<rparr>) = writable b" "writable (b\<lparr>bk_ids := n\<rparr>) = writable b"
  "writable (next_id b) = writable b"
  "writable (routed env ds b) = writable b" "writable (append_audit env ds st v b) = writable b"
  by (simp_all add: fun_eq_iff writable_def next_id_def routed_def append_audit_def)

lemma out_fields [simp]:
  "bk_out (routed env ds b) = bk_out b" "bk_out (append_audit env ds st v b) = bk_out b"
  "bk_out (next_id b) = bk_out b" "bk_peers (next_id b) = bk_peers b"
  "bk_peers (routed env ds b) = bk_peers b" "bk_peers (append_audit env ds st v b) = bk_peers b"
  "bk_conns (next_id b) = bk_conns b"
  by (simp_all add: routed_def append_audit_def next_id_def)

text \<open>Delivery to one addressee that is online, with its acknowledgement.\<close>

lemma deliver_unicast:
  assumes "env_to env = One t" "t \<noteq> ''broadcast''"
    and "map_of (bk_peers b) t = Some st" "writable b st"
    and "map_of (bk_peers b) (env_from env) = Some s" "writable b s"
  shows "deliver env [t] b = (([t], Acked Received),
    (next_id b)\<lparr>bk_out := bk_out b @ [(st, serialize env), (s, serialize (ack_envelope env Received t (fresh_id b)))]\<rparr>)"
  using assms
  by (simp add: try_write_writable write_ignoring_writable sendAckToSender_def fresh_id_def next_id_def)

lemma deliver_unknown:
  "\<forall>t \<in> set ts. map_of (bk_peers b) t = None \<Longrightarrow> deliver env ts b = (([], NoAck), b)"
  by (induction ts) simp_all

text \<open>Delivery without acknowledgement: every online target, in order, once.\<close>

lemma deliver_multi:
  assumes "\<not> is_unicast env" "\<forall>t s. t \<in> set ts \<longrightarrow> map_of (bk_peers b) t = Some s \<longrightarrow> writable b s"
  shows "deliver env ts b =
    ((filter (omap_has (bk_peers b)) ts, NoAck),
     b\<lparr>bk_out := bk_out b @ map (\<lambda>s. (s, serialize env)) (List.map_filter (map_of (bk_peers b)) ts)\<rparr>)"
  using assms
proof (induction ts arbitrary: b)
  case Nil
  then show ?case by (simp add: map_filter_simps)
next
  case (Cons t ts)
  show ?case
  proof (cases "map_of (bk_peers b) t")
    case None
    with Cons show ?thesis by (simp add: map_filter_simps del: is_unicast_code)
  next
    case (Some s)
    then have "try_write s (serialize env) b = Some (b\<lparr>bk_out := bk_out b @ [(s, serialize env)]\<rparr>)"
      using Cons.prems(2) by (intro try_write_writable) simp
    then show ?thesis
      using Some Cons.prems Cons.IH [of "b\<lparr>bk_out := bk_out b @ [(s, serialize env)]\<rparr>"]
      by (simp add: map_filter_simps del: is_unicast_code)
  qed
qed

subsection \<open>What the broker relies on in its remote router\<close>

text \<open>
  A remote router leaves an address without a machine prefix alone, lists only
  prefixed addresses, and describes in its structured roster exactly the peers it
  lists.
\<close>

locale remote_router =
  fixes claim :: "'r \<Rightarrow> envelope \<Rightarrow> bool \<times> 'r"
    and names :: "'r \<Rightarrow> string list"
    and infos :: "'r \<Rightarrow> peer_info list"
  assumes declines: "env_to env = One t \<Longrightarrow> parseAddress t = None \<Longrightarrow> claim r env = (False, r)"
    and prefixed: "a \<in> set (names r) \<Longrightarrow> CHR '':'' \<in> set a"
    and described: "map pi_address (infos r) = names r"
begin

definition attached :: "'r broker \<Rightarrow> bool" where
  "attached b \<longleftrightarrow> (\<exists>r. bk_router b = Some r \<and> rt_try r = claim \<and> rt_names r = names \<and> rt_infos r = infos)"

lemma try_remote_declines:
  assumes "attached b" "env_to env = One t" "parseAddress t = None"
  shows "try_remote env b = (False, b)"
  using assms declines by (auto simp: attached_def try_remote_def)

text \<open>An unprefixed address is routed locally, whatever the router knows.\<close>

lemma route_unprefixed:
  assumes "attached b" "env_to env = One t" "parseAddress t = None" "t \<noteq> BROKER_NAME"
  shows "route env b = route_local env b"
  using assms by (simp add: route_def try_remote_declines)

lemma remote_names_prefixed:
  assumes "attached b" "a \<in> set (allPeerNames b)" "CHR '':'' \<notin> set a"
  shows "a \<in> set (peerNames b)"
  using assms prefixed by (fastforce simp: attached_def allPeerNames_def)

lemma infos_names:
  assumes "attached b" "map pi_address (localPeerInfos b) = peerNames b"
  shows "map pi_address (allPeerInfos b) = allPeerNames b"
  using assms described by (auto simp: attached_def allPeerInfos_def allPeerNames_def)

end

lemma peer_conns_addresses:
  assumes "wf_broker b"
  shows "map pc_address (peer_conns b) = peerNames b"
proof -
  have "map pc_address (List.map_filter (\<lambda>p. map_of (bk_conns b) (snd p)) ps) = map fst ps"
    if "\<forall>(a, s) \<in> set ps. \<exists>c. map_of (bk_conns b) s = Some c \<and> registered_as a c" for ps
    using that by (induction ps) (auto simp: map_filter_simps registered_as_def)
  moreover have "\<forall>(a, s) \<in> set (bk_peers b). \<exists>c. map_of (bk_conns b) s = Some c \<and> registered_as a c"
    using assms wf_peer_conn [OF assms] by (auto simp: wf_broker_def)
  ultimately show ?thesis by (simp add: peer_conns_def peerNames_def)
qed

lemma localPeerInfos_addresses: "wf_broker b \<Longrightarrow> map pi_address (localPeerInfos b) = peerNames b"
  using peer_conns_addresses by (simp add: localPeerInfos_def comp_def)

subsection \<open>Audit\<close>

lemma byte_length_append [simp]:
  "byte_length (s @ t) = byte_length s + byte_length t" "byte_length [] = 0"
  by (simp_all add: byte_length_def)

text \<open>Once within the bound, the log and its predecessor stay within it.\<close>

definition audit_bounded :: "audit_files \<Rightarrow> bool" where
  "audit_bounded f \<longleftrightarrow> current_bytes f \<le> BROKER_AUDIT_MAX_BYTES
     \<and> (\<forall>t. af_previous f = Some t \<longrightarrow> byte_length t \<le> BROKER_AUDIT_MAX_BYTES)"

lemma append_audit_line_bounded:
  assumes "audit_bounded f" "byte_length line \<le> BROKER_AUDIT_MAX_BYTES"
  shows "audit_bounded (append_audit_line line f)"
  using assms by (auto simp: audit_bounded_def append_audit_line_def Let_def current_bytes_def
      split: option.splits if_splits)

text \<open>A log already over the bound is dropped with its predecessor at the next line.\<close>

lemma append_audit_line_oversized:
  assumes "BROKER_AUDIT_MAX_BYTES < current_bytes f"
  shows "append_audit_line line f = \<lparr>af_current = Some line, af_previous = None\<rparr>"
  using assms by (auto simp: append_audit_line_def Let_def)
subsection \<open>Properties\<close>

definition register_line :: "string \<Rightarrow> string \<Rightarrow> string" where
  "register_line cwd name =
     stringify (Obj [(''type'', Str ''register''), (''name'', Str name), (''cwd'', Str cwd)]) @ [nl_char]"

definition sample_uuid :: string where
  "sample_uuid = ''0190a000-0000-7000-8000-000000000000''"

text \<open>A broker with two peers of one folder, one of another, and a fresh connection.\<close>

definition sample_broker :: "unit broker" where
  "sample_broker = (new_broker False (\<lambda>_. sample_uuid))\<lparr>
     bk_peers := [(''/p@al'', 1), (''/p@al#2'', 2), (''/q@bo'', 3)],
     bk_conns :=
       [(1, \<lparr>pc_name = ''al'', pc_cwd = ''/p'', pc_address = ''/p@al'', pc_sock = 1, pc_buf = []\<rparr>),
        (2, \<lparr>pc_name = ''al#2'', pc_cwd = ''/p'', pc_address = ''/p@al#2'', pc_sock = 2, pc_buf = []\<rparr>),
        (3, \<lparr>pc_name = ''bo'', pc_cwd = ''/q'', pc_address = ''/q@bo'', pc_sock = 3, pc_buf = []\<rparr>),
        (4, \<lparr>pc_name = [], pc_cwd = [], pc_address = [], pc_sock = 4, pc_buf = []\<rparr>)]\<rparr>"

lemma sample_broker_state [simp]:
  "bk_peers sample_broker = [(''/p@al'', 1), (''/p@al#2'', 2), (''/q@bo'', 3)]"
  "bk_conns sample_broker =
     [(1, \<lparr>pc_name = ''al'', pc_cwd = ''/p'', pc_address = ''/p@al'', pc_sock = 1, pc_buf = []\<rparr>),
      (2, \<lparr>pc_name = ''al#2'', pc_cwd = ''/p'', pc_address = ''/p@al#2'', pc_sock = 2, pc_buf = []\<rparr>),
      (3, \<lparr>pc_name = ''bo'', pc_cwd = ''/q'', pc_address = ''/q@bo'', pc_sock = 3, pc_buf = []\<rparr>),
      (4, \<lparr>pc_name = [], pc_cwd = [], pc_address = [], pc_sock = 4, pc_buf = []\<rparr>)]"
  "bk_broken sample_broker = []" "bk_closed sample_broker = []" "bk_router sample_broker = None"
  by (simp_all add: sample_broker_def new_broker_def)

lemma sample_writable [simp]: "writable sample_broker s"
  by (simp add: writable_def)

fun all_possible :: "'r broker_event list \<Rightarrow> 'r broker \<Rightarrow> bool" where
  "all_possible [] b = True"
| "all_possible (e # es) b = (possible e b \<and> all_possible es (broker_step e b))"

lemma reachable_fold:
  "broker_reachable audit gen b \<Longrightarrow> all_possible es b \<Longrightarrow> broker_reachable audit gen (fold broker_step es b)"
  by (induction es arbitrary: b) (auto intro: broker_reachable.event)

definition registered_once :: "unit broker" where
  "registered_once = fold broker_step [Connect 1, Data 1 (register_line ''/p'' ''al'')] (new_broker False (\<lambda>_. sample_uuid))"

lemma registered_once_reachable: "broker_reachable False (\<lambda>_. sample_uuid) registered_once"
  unfolding registered_once_def by (rule reachable_fold [OF broker_reachable.start]) code_simp

lemma registered_once_peers: "bk_peers registered_once = [(''/p@al'', 1)]"
  by code_simp

lemma sample_conn:
  "conn_of sample_broker (Suc 0) = \<lparr>pc_name = ''al'', pc_cwd = ''/p'', pc_address = ''/p@al'', pc_sock = 1, pc_buf = []\<rparr>"
  by (simp_all add: conn_of_def sample_broker_state)

text \<open>
  C1. In every reachable state of the broker each address of the registry belongs to
  one live connection, is the composition of that connection's folder and name,
  and is never \<open>broker\<close> or \<open>broadcast\<close>; no two addresses share a socket.
\<close>
theorem broker_registry:
  assumes "broker_reachable audit gen b" and "map_of (bk_peers b) a = Some s"
  shows "(\<exists>c. map_of (bk_conns b) s = Some c \<and> pc_address c = a
        \<and> a = composeAddress None (pc_cwd c) (pc_name c) \<and> address_safe (pc_name c))
     \<and> a \<noteq> BROKER_NAME \<and> a \<noteq> ''broadcast'' \<and> (\<forall>a'. map_of (bk_peers b) a' = Some s \<longrightarrow> a' = a)"
proof -
  note wf = reachable_wf [OF assms(1)]
  from wf_peer_conn [OF wf assms(2)] obtain c where "map_of (bk_conns b) s = Some c" "registered_as a c" by blast
  with registered_routable [of a c] wf_sockets_distinct [OF wf assms(2)] show ?thesis
    by (auto simp: registered_as_def mesh_name_def routable_def)
qed

theorem broker_registry_witness:
  "(\<exists>c. map_of (bk_conns registered_once) 1 = Some c \<and> pc_address c = ''/p@al''
        \<and> ''/p@al'' = composeAddress None (pc_cwd c) (pc_name c) \<and> address_safe (pc_name c))
     \<and> ''/p@al'' \<noteq> BROKER_NAME \<and> ''/p@al'' \<noteq> ''broadcast''"
proof -
  have "map_of (bk_peers registered_once) ''/p@al'' = Some 1" by (simp add: registered_once_peers)
  from broker_registry [OF registered_once_reachable this] show ?thesis by blast
qed

text \<open>
  C3. A registered peer cannot speak for another: whatever line it sends, every line the
  broker writes while handling it is an envelope from that peer's own address or
  from the broker, and the registry is untouched.
\<close>
theorem broker_no_spoofing:
  assumes "pc_name (conn_of b s) \<noteq> []"
  shows "\<exists>new. bk_out (handleLine s line b) = bk_out b @ new
     \<and> set new \<subseteq> {(t, serialize e) |t e. env_from e \<in> {BROKER_NAME, pc_address (conn_of b s)}}
     \<and> bk_peers (handleLine s line b) = bk_peers b"
proof -
  from quiet_registered_line [OF assms, of line] obtain new
    where "bk_out (handleLine s line b) = bk_out b @ new" "bk_peers (handleLine s line b) = bk_peers b"
      and "\<forall>(t, l) \<in> set new. from_broker_or (pc_address (conn_of b s)) t l"
    unfolding quiet_def by blast
  moreover from this(3) have "set new \<subseteq> {(t, serialize e) |t e. env_from e \<in> {BROKER_NAME, pc_address (conn_of b s)}}"
    by fastforce
  ultimately show ?thesis by blast
qed

theorem broker_no_spoofing_witness:
  "\<exists>new. bk_out (handleLine 1 (stringify (env_to_json \<lparr>env_from = ''/q@bo'', env_to = One ''/p@al#2'',
        env_id = sample_uuid, env_re = None, env_body = Null\<rparr>)) sample_broker) = bk_out sample_broker @ new
     \<and> set new \<subseteq> {(t, serialize e) |t e. env_from e \<in> {BROKER_NAME, pc_address (conn_of sample_broker 1)}}
     \<and> bk_peers (handleLine 1 (stringify (env_to_json \<lparr>env_from = ''/q@bo'', env_to = One ''/p@al#2'',
        env_id = sample_uuid, env_re = None, env_body = Null\<rparr>)) sample_broker) = bk_peers sample_broker"
  by (rule broker_no_spoofing) (simp add: sample_conn)

text \<open>
  A registration is admitted whenever fewer than 998 peers are registered: the new
  address was free, no registered peer is displaced, and the first line written
  is the acknowledgement that carries the assigned address.
\<close>
lemma register_never_displaces:
  assumes "register_request line = Some (cwd, requested)" and "length (bk_peers b) < 998" and "writable b s"
  shows "\<exists>name address rest. map_of (bk_peers b) address = None
     \<and> address = composeAddress None cwd name \<and> address_safe name
     \<and> bk_peers (handleRegister s line b) = bk_peers b @ [(address, s)]
     \<and> bk_out (handleRegister s line b)
       = bk_out b @ (s, stringify (register_ack address name) @ [nl_char]) # rest"
proof -
  obtain name address where u: "uniqueIdentity cwd requested b = Some (name, address)"
    using uniqueIdentity_total [OF assms(2)] by fastforce
  note fresh = uniqueIdentity_fresh [OF u]
  let ?b = "(put_conn s ((conn_of b s)\<lparr>pc_cwd := cwd, pc_name := name, pc_address := address\<rparr>) b)
    \<lparr>bk_peers := omap_put (bk_peers b) address s\<rparr>"
  let ?ack = "stringify (register_ack address name) @ [nl_char]"
  have "writable ?b s" using assms(3) by (simp add: writable_def put_conn_def)
  then have w: "write_ignoring s ?ack ?b = ?b\<lparr>bk_out := bk_out b @ [(s, ?ack)]\<rparr>"
    by (simp add: write_ignoring_writable put_conn_def)
  have h: "handleRegister s line b = broadcastSystem (peer_event ''peer_joined'' address) address
      (?b\<lparr>bk_out := bk_out b @ [(s, ?ack)]\<rparr>)"
    using assms(1) u w by (simp add: handleRegister_def admit_def Let_def put_conn_def)
  moreover have "quiet (\<lambda>_ _. True) (?b\<lparr>bk_out := bk_out b @ [(s, ?ack)]\<rparr>) (handleRegister s line b)"
    unfolding h by (rule quiet_broadcastSystem) simp
  then obtain rest where "bk_out (handleRegister s line b) = bk_out b @ (s, ?ack) # rest"
    by (auto simp: quiet_def)
  moreover have "bk_peers (handleRegister s line b) = bk_peers b @ [(address, s)]"
    using fresh(1) by (simp add: h omap_put_new map_of_eq_None_iff)
  ultimately show ?thesis using fresh by (auto simp: mesh_name_def)
qed

text \<open>
  C2. Reliable unicast: an envelope from one registered peer to another that is
  online, not claimed by the remote router, is written once to the target and
  acknowledged once to its sender as \<open>received\<close>, in that order, and nothing else
  is written.
\<close>
theorem unicast_delivered_once:
  assumes "env_to env = One t" "t \<noteq> ''broadcast''" "t \<noteq> BROKER_NAME" "t \<noteq> env_from env"
    and "try_remote env b = (False, b)"
    and "map_of (bk_peers b) t = Some st" "writable b st"
    and "map_of (bk_peers b) (env_from env) = Some s" "writable b s"
  shows "bk_out (route env b)
     = bk_out b @ [(st, serialize env), (s, serialize (ack_envelope env Received t (fresh_id b)))]
   \<and> bk_routed (route env b) = bk_routed b @ [(env, [t])]"
proof -
  have "resolveTargets env b = [t]" using assms by (simp add: resolveTargets_def)
  with assms deliver_unicast [OF assms(1,2,6-9)] show ?thesis
    by (simp add: route_def route_local_def Let_def routed_def append_audit_def next_id_def)
qed

definition sample_envelope :: envelope where
  "sample_envelope = \<lparr>env_from = ''/p@al'', env_to = One ''/q@bo'', env_id = sample_uuid,
     env_re = None, env_body = Null\<rparr>"

theorem unicast_delivered_once_witness:
  "bk_out (route sample_envelope sample_broker)
     = bk_out sample_broker @ [(3, serialize sample_envelope),
         (1, serialize (ack_envelope sample_envelope Received ''/q@bo'' (fresh_id sample_broker)))]
   \<and> bk_routed (route sample_envelope sample_broker) = bk_routed sample_broker @ [(sample_envelope, [''/q@bo''])]"
  by (rule unicast_delivered_once) (simp_all add: sample_envelope_def BROKER_NAME_def try_remote_def)

text \<open>
  An envelope to a peer that is not registered is dropped silently: nothing is
  written to any socket, so the sender gets no acknowledgement.
\<close>
lemma unicast_unknown_dropped:
  assumes "env_to env = One t" "t \<noteq> ''broadcast''" "t \<noteq> BROKER_NAME"
    and "try_remote env b = (False, b)" and "map_of (bk_peers b) t = None"
  shows "bk_out (route env b) = bk_out b \<and> bk_peers (route env b) = bk_peers b
   \<and> bk_routed (route env b) = bk_routed b @ [(env, [])]"
proof -
  have "deliver env (resolveTargets env b) b = (([], NoAck), b)"
    using assms by (intro deliver_unknown) (simp add: resolveTargets_def)
  with assms show ?thesis
    by (simp add: route_def route_local_def Let_def routed_def append_audit_def)
qed

lemma unicast_unknown_dropped_example:
  "bk_out (route (sample_envelope\<lparr>env_to := One ''/p@zz''\<rparr>) sample_broker) = bk_out sample_broker
   \<and> bk_peers (route (sample_envelope\<lparr>env_to := One ''/p@zz''\<rparr>) sample_broker) = bk_peers sample_broker
   \<and> bk_routed (route (sample_envelope\<lparr>env_to := One ''/p@zz''\<rparr>) sample_broker)
     = bk_routed sample_broker @ [(sample_envelope\<lparr>env_to := One ''/p@zz''\<rparr>, [])]"
  by (rule unicast_unknown_dropped [where t = "''/p@zz''"]) (simp_all add: BROKER_NAME_def try_remote_def)

lemma peer_conns_registered:
  assumes "wf_broker b" "p \<in> set (peer_conns b)"
  shows "map_of (bk_peers b) (pc_address p) = Some (pc_sock p)"
proof -
  from assms(2) obtain a s where as: "(a, s) \<in> set (bk_peers b)" "map_of (bk_conns b) s = Some p"
    by (auto simp: peer_conns_def map_filter_def)
  then have m: "map_of (bk_peers b) a = Some s" using assms(1) by (simp add: wf_broker_def)
  from wf_peer_conn [OF assms(1) m] as have "pc_address p = a" by (auto simp: registered_as_def)
  moreover have "pc_sock p = s" using as assms(1) by (simp add: wf_broker_def)
  ultimately show ?thesis using m by simp
qed

text \<open>
  A broadcast reaches, once each and in registration order, exactly the peers of
  the sender's folder other than the sender, and is not acknowledged.
\<close>
lemma broadcast_scope:
  assumes "wf_broker b" and "env_to env = One ''broadcast''"
    and "try_remote env b = (False, b)"
    and "peer_conn_of b (env_from env) = Some c"
    and "\<And>s. writable b s"
  shows "bk_out (route env b) = bk_out b @ map (\<lambda>p. (pc_sock p, serialize env))
     (filter (\<lambda>p. pc_address p \<noteq> env_from env \<and> pc_cwd p = pc_cwd c) (peer_conns b))"
proof -
  let ?ps = "filter (\<lambda>p. pc_address p \<noteq> env_from env \<and> pc_cwd p = pc_cwd c) (peer_conns b)"
  have targets: "resolveTargets env b = map pc_address ?ps"
    using assms(2,4) by (simp add: resolveTargets_def)
  have "map_of (bk_peers b) (pc_address p) = Some (pc_sock p)" if "p \<in> set (peer_conns b)" for p
    using that peer_conns_registered [OF assms(1)] by blast
  then have socks: "List.map_filter (map_of (bk_peers b)) (map pc_address ps) = map pc_sock ps"
    if "set ps \<subseteq> set (peer_conns b)" for ps
    using that by (induction ps) (auto simp: map_filter_simps)
  have "\<not> is_unicast env" using assms(2) by simp
  from deliver_multi [OF this, of "map pc_address ?ps" b] assms(5) have
    "bk_out (snd (deliver env (map pc_address ?ps) b)) = bk_out b @ map (\<lambda>s. (s, serialize env)) (map pc_sock ?ps)"
    by (simp add: socks comp_def del: is_unicast_code)
  then show ?thesis
    using assms(2,3) targets by (simp add: route_def route_local_def Let_def split_def BROKER_NAME_def comp_def)
qed

lemma sample_wf: "wf_broker sample_broker"
  by (auto simp: wf_broker_def registered_as_def mesh_name_def address_safe_def BROKER_NAME_def composeAddress_def
      split: if_splits)

text \<open>
  Querying the roster from an unregistered connection leaves no trace: one reply is
  written to that connection, no peer is told, and the registry and every
  connection are unchanged; the reply lists every registered address.
\<close>
lemma observer_probe_no_trace:
  assumes "pc_name (conn_of b s) = []" and "is_probe line" and "writable b s"
  shows "\<exists>e. bk_out (handleLine s line b) = bk_out b @ [(s, serialize e)]
     \<and> bk_peers (handleLine s line b) = bk_peers b \<and> bk_conns (handleLine s line b) = bk_conns b
     \<and> env_body e = list_peers_reply b \<and> set (peerNames b) \<subseteq> set (allPeerNames b)"
  using assms
  by (auto simp: handleLine_def answer_probe_def write_ignoring_writable list_peers_reply_def
      allPeerNames_def allPeerInfos_def localPeerInfos_def peer_conns_def peerNames_def next_id_def
      intro!: exI [where x = "\<lparr>env_from = BROKER_NAME, env_to = One ''observer'', env_id = fresh_id b,
        env_re = None, env_body = list_peers_reply b\<rparr>"])

text \<open>
  An envelope injected from another machine is reported \<open>received\<close> exactly when it is
  addressed to one registered peer whose socket takes the write; then that peer
  alone is written to, once. Otherwise it is \<open>denied\<close> and the broker is unchanged.
\<close>
lemma inject_outcome:
  "(fst (injectFromRemote env b) = Received \<longleftrightarrow>
      (\<exists>t s. env_to env = One t \<and> t \<noteq> ''broadcast'' \<and> t \<noteq> BROKER_NAME
        \<and> map_of (bk_peers b) t = Some s \<and> s \<notin> set (bk_broken b)))
   \<and> (fst (injectFromRemote env b) = Denied \<longrightarrow> snd (injectFromRemote env b) = b)
   \<and> (\<forall>t s. fst (injectFromRemote env b) = Received \<and> env_to env = One t \<and> map_of (bk_peers b) t = Some s
        \<and> s \<notin> set (bk_closed b) \<longrightarrow> bk_out (snd (injectFromRemote env b)) = bk_out b @ [(s, serialize env)])"
  by (auto simp: injectFromRemote_def try_write_def split: recipients.splits option.splits if_splits)

text \<open>
  The audit log and its rotated predecessor each stay within 256 KiB, whatever
  sequence of lines is appended, as long as no single line exceeds the bound.
\<close>
lemma audit_log_bounded:
  assumes "\<forall>l \<in> set lines. byte_length l \<le> BROKER_AUDIT_MAX_BYTES"
  shows "audit_bounded (fold append_audit_line lines \<lparr>af_current = None, af_previous = None\<rparr>)"
proof -
  have "audit_bounded (fold append_audit_line lines f)" if "audit_bounded f" for f
    using assms that by (induction lines arbitrary: f) (simp_all add: append_audit_line_bounded)
  moreover have "audit_bounded \<lparr>af_current = None, af_previous = None\<rparr>"
    by (simp add: audit_bounded_def current_bytes_def)
  ultimately show ?thesis by blast
qed

end
