(* ===== verification/BrokerRemote.thy ===== *)
theory BrokerRemote imports Broker
begin

text \<open>
  \<open>session/broker_remote.ts\<close>: the adapter that routes envelopes between the machines
  of one owner. It keeps the verified sibling machines (label and public key), a
  cache of each sibling's peers with a time to live, and the live relay rooms of
  each sibling, oldest first. What it hands to the relay client is appended to
  \<open>rm_sent\<close>; the clock, the fresh identifiers and the host's \<open>localeCompare\<close> are
  fields. Log lines are not modelled.

  Operations that read or write the broker take it, or its local roster, as an
  argument. At the end the adapter's model is shown to satisfy the interface
  \<open>remote_router\<close> the broker relies on.
\<close>

subsection \<open>Data\<close>

definition CACHE_TTL_MS :: int where
  "CACHE_TTL_MS = 5 * 60000"

definition REANNOUNCE_INTERVAL_MS :: int where
  "REANNOUNCE_INTERVAL_MS = 2 * 60000"

record wire_peer =
  wp_cwd :: string
  wp_name :: string
  wp_address :: string

record remote_entry =
  re_infos :: "wire_peer list"
  re_pubkey :: string
  re_ts :: int

record sibling =
  sb_label :: string
  sb_pubkey :: string

datatype pi_out = ToPi string string envelope | SubscribeRooms string | RoomsCheck string

record remote =
  rm_self_label :: string
  rm_self_pubkey :: string
  rm_ttl :: int
  rm_by_label :: "(string, string) omap"
  rm_by_pubkey :: "(string, string) omap"
  rm_peers :: "(string, remote_entry) omap"
  rm_rooms :: "(string, string list) omap"
  rm_started :: "(string, (string, int) omap) omap"
  rm_subscribed :: "string list"
  rm_checks :: "string list"
  rm_fills :: "(string, nat list) omap"
  rm_filled :: "nat list"
  rm_timer :: bool
  rm_listening :: bool
  rm_detached :: bool
  rm_now :: int
  rm_gen :: "nat \<Rightarrow> string"
  rm_ids :: nat
  rm_slots :: nat
  rm_locale :: "string \<Rightarrow> string \<Rightarrow> int"
  rm_sent :: "pi_out list"

definition emit :: "pi_out \<Rightarrow> remote \<Rightarrow> remote" where
  "emit out rm = rm\<lparr>rm_sent := rm_sent rm @ [out]\<rparr>"

definition remote_id :: "remote \<Rightarrow> string" where
  "remote_id rm = rm_gen rm (rm_ids rm)"

text \<open>\<open>pi.sendEnvelopeToPi\<close> of an envelope that carries the next fresh identifier.\<close>

definition send_fresh :: "string \<Rightarrow> string \<Rightarrow> envelope \<Rightarrow> remote \<Rightarrow> remote" where
  "send_fresh pc room env rm = emit (ToPi pc room env) (rm\<lparr>rm_ids := Suc (rm_ids rm)\<rparr>)"

subsection \<open>Rooms\<close>

definition subscribeToRooms :: "string \<Rightarrow> remote \<Rightarrow> remote" where
  "subscribeToRooms pk rm =
     (if rm_detached rm \<or> pk \<in> set (rm_subscribed rm) then rm
      else emit (SubscribeRooms pk) (rm\<lparr>rm_subscribed := oset_add (rm_subscribed rm) pk\<rparr>))"

definition requestRooms :: "string \<Rightarrow> remote \<Rightarrow> remote" where
  "requestRooms pk rm =
     (if rm_detached rm \<or> pk \<in> set (rm_checks rm) then rm
      else emit (RoomsCheck pk) (rm\<lparr>rm_checks := oset_add (rm_checks rm) pk\<rparr>))"

definition known_room :: "string \<Rightarrow> remote \<Rightarrow> string option" where
  "known_room pk rm = (case map_of (rm_rooms rm) pk of
     Some (r # _) \<Rightarrow> (if r = [] then None else Some r)
   | _ \<Rightarrow> None)"

definition pickRoom :: "string \<Rightarrow> remote \<Rightarrow> string option \<times> remote" where
  "pickRoom pk rm = (case known_room pk rm of
     Some r \<Rightarrow> (Some r, rm)
   | None \<Rightarrow> (None, requestRooms pk (subscribeToRooms pk rm)))"

definition room_cmp :: "(string \<Rightarrow> string \<Rightarrow> int) \<Rightarrow> string \<times> int \<Rightarrow> string \<times> int \<Rightarrow> int" where
  "room_cmp loc a b = (if snd a - snd b \<noteq> 0 then snd a - snd b else loc (fst a) (fst b))"

definition started_of :: "string \<Rightarrow> remote \<Rightarrow> (string, int) omap" where
  "started_of pk rm = (case map_of (rm_started rm) pk of Some m \<Rightarrow> m | None \<Rightarrow> [])"

definition replaceOrderedRooms :: "string \<Rightarrow> remote \<Rightarrow> remote" where
  "replaceOrderedRooms pk rm =
     rm\<lparr>rm_rooms := omap_put (rm_rooms rm) pk (map fst (sort_by (room_cmp (rm_locale rm)) (started_of pk rm)))\<rparr>"

subsection \<open>Control envelopes\<close>

definition peers_request :: js where
  "peers_request = Obj [(''type'', Str ''peers_request'')]"

definition wire_json :: "peer_info \<Rightarrow> js" where
  "wire_json i = Obj [(''cwd'', Str (pi_cwd i)), (''name'', Str (pi_name i)), (''address'', Str (pi_address i))]"

definition localPeersBody :: "peer_info list \<Rightarrow> js" where
  "localPeersBody detailed = Obj
     [(''type'', Str ''peers_update''),
      (''peers'', Arr (map (Str \<circ> pi_address) detailed)),
      (''peers_detailed'', Arr (map wire_json detailed))]"

definition label_or_unknown :: "string \<Rightarrow> remote \<Rightarrow> string" where
  "label_or_unknown pk rm = (case map_of (rm_by_pubkey rm) pk of Some l \<Rightarrow> l | None \<Rightarrow> ''?'')"

definition sendControlEnvelopeToRoom :: "string \<Rightarrow> string \<Rightarrow> js \<Rightarrow> remote \<Rightarrow> remote" where
  "sendControlEnvelopeToRoom pk room body rm =
     (if rm_detached rm then rm
      else send_fresh pk room
        (envelope_with (remote_id rm) (rm_self_label rm @ '':_broker_remote'')
          (One (label_or_unknown pk rm @ '':_broker_remote'')) body None) rm)"

definition sendControlEnvelope :: "string \<Rightarrow> js \<Rightarrow> remote \<Rightarrow> remote" where
  "sendControlEnvelope pk body rm = (case pickRoom pk rm of
     (None, rm') \<Rightarrow> rm'
   | (Some room, rm') \<Rightarrow> sendControlEnvelopeToRoom pk room body rm')"

definition bootstrap_one :: "js \<Rightarrow> string \<Rightarrow> remote \<Rightarrow> remote" where
  "bootstrap_one body pk rm = (case pickRoom pk (subscribeToRooms pk rm) of
     (None, rm') \<Rightarrow> rm'
   | (Some room, rm') \<Rightarrow>
       sendControlEnvelopeToRoom pk room body (sendControlEnvelopeToRoom pk room peers_request rm'))"

definition bootstrapWithSiblings :: "peer_info list \<Rightarrow> remote \<Rightarrow> remote" where
  "bootstrapWithSiblings infos rm = fold (bootstrap_one (localPeersBody infos)) (map snd (rm_by_label rm)) rm"

text \<open>The periodic re-announcement.\<close>

definition reannounce :: "peer_info list \<Rightarrow> remote \<Rightarrow> remote" where
  "reannounce infos rm = (if rm_detached rm \<or> rm_by_label rm = [] then rm else bootstrapWithSiblings infos rm)"

definition onLocalPeersChanged :: "peer_info list \<Rightarrow> remote \<Rightarrow> remote" where
  "onLocalPeersChanged infos rm =
     (if rm_detached rm then rm
      else if rm_by_label rm = [] then rm
      else fold (\<lambda>pk. sendControlEnvelope pk (localPeersBody infos)) (map snd (rm_by_label rm)) rm)"

subsection \<open>Siblings\<close>

definition addSibling :: "sibling \<Rightarrow> remote \<Rightarrow> remote" where
  "addSibling s rm =
     (if sb_label s = [] \<or> sb_pubkey s = [] then rm
      else if sb_label s = rm_self_label rm then rm
      else if sb_pubkey s = rm_self_pubkey rm then rm
      else rm\<lparr>rm_by_label := omap_put (rm_by_label rm) (sb_label s) (sb_pubkey s),
             rm_by_pubkey := omap_put (rm_by_pubkey rm) (sb_pubkey s) (sb_label s)\<rparr>)"

definition forget_key :: "string \<Rightarrow> remote \<Rightarrow> remote" where
  "forget_key pk rm =
     (if omap_has (rm_by_pubkey rm) pk then rm
      else rm\<lparr>rm_rooms := omap_del (rm_rooms rm) pk, rm_started := omap_del (rm_started rm) pk,
             rm_subscribed := removeAll pk (rm_subscribed rm), rm_checks := removeAll pk (rm_checks rm)\<rparr>)"

definition setSiblings :: "sibling list \<Rightarrow> peer_info list \<Rightarrow> remote \<Rightarrow> remote" where
  "setSiblings next infos rm =
     (if rm_detached rm then rm
      else
        (let prev = omap_keys (rm_by_pubkey rm);
             rm1 = fold addSibling next (rm\<lparr>rm_by_label := [], rm_by_pubkey := []\<rparr>);
             rm2 = rm1\<lparr>rm_peers := filter (\<lambda>p. omap_has (rm_by_label rm1) (fst p)) (rm_peers rm1)\<rparr>
         in bootstrapWithSiblings infos (fold forget_key prev rm2)))"

definition new_remote :: "string \<Rightarrow> string \<Rightarrow> int \<Rightarrow> (nat \<Rightarrow> string) \<Rightarrow> (string \<Rightarrow> string \<Rightarrow> int) \<Rightarrow> remote" where
  "new_remote label pubkey ttl gen loc =
     \<lparr>rm_self_label = label, rm_self_pubkey = pubkey, rm_ttl = ttl, rm_by_label = [], rm_by_pubkey = [],
      rm_peers = [], rm_rooms = [], rm_started = [], rm_subscribed = [], rm_checks = [], rm_fills = [],
      rm_filled = [], rm_timer = False, rm_listening = False, rm_detached = False, rm_now = 0,
      rm_gen = gen, rm_ids = 0, rm_slots = 0, rm_locale = loc, rm_sent = []\<rparr>"

text \<open>The constructor: seed the siblings, listen, bootstrap, start the timer.\<close>

definition start_remote :: "sibling list \<Rightarrow> int \<Rightarrow> peer_info list \<Rightarrow> remote \<Rightarrow> remote" where
  "start_remote siblings interval infos rm =
     (bootstrapWithSiblings infos ((fold addSibling siblings rm)\<lparr>rm_listening := True\<rparr>))\<lparr>rm_timer := 0 < interval\<rparr>"

subsection \<open>The cached rosters\<close>

definition remoteInfos :: "string \<Rightarrow> remote \<Rightarrow> wire_peer list" where
  "remoteInfos label rm = (case map_of (rm_peers rm) label of
     None \<Rightarrow> []
   | Some entry \<Rightarrow> (if rm_now rm - re_ts entry > rm_ttl rm then [] else re_infos entry))"

definition getRemotePeers :: "string \<Rightarrow> remote \<Rightarrow> string list" where
  "getRemotePeers label rm = map wp_address (remoteInfos label rm)"

definition getAllRemote :: "remote \<Rightarrow> (string, string list) omap" where
  "getAllRemote rm = fold (\<lambda>label out.
     (let peers = getRemotePeers label rm in if 0 < length peers then omap_put out label peers else out))
     (omap_keys (rm_peers rm)) []"

definition listRemotePeers :: "remote \<Rightarrow> string list" where
  "listRemotePeers rm = concat (map (\<lambda>label. map (\<lambda>i. label @ '':'' @ wp_address i) (remoteInfos label rm))
     (omap_keys (rm_peers rm)))"

definition listRemotePeerInfos :: "remote \<Rightarrow> peer_info list" where
  "listRemotePeerInfos rm = concat (map (\<lambda>label. map (\<lambda>i.
       \<lparr>pi_pc = Some label, pi_cwd = wp_cwd i, pi_name = wp_name i, pi_address = label @ '':'' @ wp_address i\<rparr>)
     (remoteInfos label rm)) (omap_keys (rm_peers rm)))"

definition setRemoteCache :: "string \<Rightarrow> string \<Rightarrow> wire_peer list \<Rightarrow> remote \<Rightarrow> remote" where
  "setRemoteCache label pk infos rm =
     (let rm1 = rm\<lparr>rm_peers := omap_put (rm_peers rm) label \<lparr>re_infos = infos, re_pubkey = pk, re_ts = rm_now rm\<rparr>\<rparr> in
      case map_of (rm_fills rm1) label of
        None \<Rightarrow> rm1
      | Some slots \<Rightarrow> rm1\<lparr>rm_filled := rm_filled rm1 @ slots, rm_fills := omap_del (rm_fills rm1) label\<rparr>)"

definition awaitPeersFill :: "string \<Rightarrow> remote \<Rightarrow> remote" where
  "awaitPeersFill label rm =
     (let slots = (case map_of (rm_fills rm) label of Some ss \<Rightarrow> ss | None \<Rightarrow> [])
      in rm\<lparr>rm_fills := omap_put (rm_fills rm) label (oset_add slots (rm_slots rm)), rm_slots := Suc (rm_slots rm)\<rparr>)"

text \<open>The 2 s timer of a pending fill.\<close>

definition fill_timeout :: "string \<Rightarrow> nat \<Rightarrow> remote \<Rightarrow> remote" where
  "fill_timeout label slot rm =
     rm\<lparr>rm_fills := (case map_of (rm_fills rm) label of
          Some ss \<Rightarrow> omap_put (rm_fills rm) label (removeAll slot ss) | None \<Rightarrow> rm_fills rm),
        rm_filled := rm_filled rm @ [slot]\<rparr>"

fun str_field :: "js \<Rightarrow> string \<Rightarrow> string" where
  "str_field v k = (case jfield v k of Str s \<Rightarrow> s | _ \<Rightarrow> [])"

definition is_wire_peer :: "js \<Rightarrow> bool" where
  "is_wire_peer e \<longleftrightarrow> is_object e \<and> is_string (jfield e ''cwd'') \<and> is_string (jfield e ''name'')
     \<and> is_string (jfield e ''address'')"

definition parsePeersUpdate :: "js \<Rightarrow> wire_peer list" where
  "parsePeersUpdate body = (case jfield body ''peers_detailed'' of
     Arr detailed \<Rightarrow> map (\<lambda>e. \<lparr>wp_cwd = str_field e ''cwd'', wp_name = str_field e ''name'',
         wp_address = str_field e ''address''\<rparr>) (filter is_wire_peer detailed)
   | _ \<Rightarrow> map (\<lambda>a. \<lparr>wp_cwd = [], wp_name = a, wp_address = a\<rparr>)
       (case jfield body ''peers'' of Arr ps \<Rightarrow> List.map_filter as_str ps | _ \<Rightarrow> []))"

subsection \<open>Outbound\<close>

definition tryRouteOutbound :: "remote \<Rightarrow> envelope \<Rightarrow> bool \<times> remote" where
  "tryRouteOutbound rm env =
     (if rm_detached rm then (False, rm)
      else case env_to env of
        Many _ \<Rightarrow> (False, rm)
      | One t \<Rightarrow> (case parseAddress t of
          None \<Rightarrow> (False, rm)
        | Some (label, _) \<Rightarrow>
            (if label = rm_self_label rm then (False, rm)
             else case map_of (rm_by_label rm) label of
               None \<Rightarrow> (False, rm)
             | Some pk \<Rightarrow>
                 (if pk = [] then (False, rm)
                  else
                    (let rewritten = env\<lparr>env_from := rm_self_label rm @ '':'' @ env_from env\<rparr>;
                         (room, rm1) = pickRoom pk rm;
                         rm2 = (case room of Some r \<Rightarrow> emit (ToPi pk r rewritten) rm1 | None \<Rightarrow> rm1);
                         rm3 = (if map_of (rm_peers rm2) label = None
                                then awaitPeersFill label (sendControlEnvelope pk peers_request rm2) else rm2)
                     in (True, rm3))))))"

subsection \<open>Inbound\<close>

definition body_type :: "js \<Rightarrow> js" where
  "body_type b = (if is_object b then jfield b ''type'' else Undef)"

definition isRelayTransportError :: "envelope \<Rightarrow> bool" where
  "isRelayTransportError env \<longleftrightarrow> env_from env = ''_relay'' \<and> (case env_to env of One _ \<Rightarrow> True | Many _ \<Rightarrow> False)
     \<and> is_object (env_body env) \<and> jfield (env_body env) ''type'' = Str ''transport_error''"

definition localize :: "remote \<Rightarrow> envelope \<Rightarrow> envelope" where
  "localize rm env = (case env_to env of
     Many _ \<Rightarrow> env
   | One t \<Rightarrow> (case parseAddress t of
       Some (label, name) \<Rightarrow> (if label = rm_self_label rm then env\<lparr>env_to := One name\<rparr> else env)
     | None \<Rightarrow> env))"

definition propagateTransportError :: "remote \<Rightarrow> envelope \<Rightarrow> 'r broker \<Rightarrow> 'r broker" where
  "propagateTransportError rm env b = (case env_to env of
     Many _ \<Rightarrow> b
   | One _ \<Rightarrow> snd (injectFromRemote (localize rm env) b))"

definition remote_prefix :: "string \<Rightarrow> string" where
  "remote_prefix from = takeWhile (\<lambda>c. c \<noteq> CHR '':'') from"

definition remote_ack :: "remote \<Rightarrow> envelope \<Rightarrow> ack_status \<Rightarrow> string \<Rightarrow> envelope" where
  "remote_ack rm env status target =
     \<lparr>env_from = rm_self_label rm @ '':'' @ BROKER_NAME, env_to = One (env_from env), env_id = remote_id rm,
      env_re = Some (env_id env), env_body = ack_body status target\<rparr>"

text \<open>The regular envelope: strip our prefix, inject, acknowledge unless it is an acknowledgement.\<close>

definition deliver_remote :: "envelope \<Rightarrow> string \<Rightarrow> string \<Rightarrow> remote \<Rightarrow> 'r broker \<Rightarrow> remote \<times> 'r broker" where
  "deliver_remote env from_pc to_room rm b = (case env_to env of
     Many _ \<Rightarrow> (rm, b)
   | One t \<Rightarrow>
       (if (case parseAddress t of Some (label, _) \<Rightarrow> label \<noteq> rm_self_label rm | None \<Rightarrow> False) then (rm, b)
        else
          (let injected = localize rm env;
               (status, b') = injectFromRemote injected b
           in if body_type (env_body env) = Str ''ack'' then (rm, b')
              else (send_fresh from_pc to_room
                      (remote_ack rm env status (case env_to injected of One a \<Rightarrow> a | Many _ \<Rightarrow> [])) rm, b'))))"

definition handleIncoming :: "envelope \<Rightarrow> string \<Rightarrow> string \<Rightarrow> remote \<Rightarrow> 'r broker \<Rightarrow> remote \<times> 'r broker" where
  "handleIncoming env from_pc to_room rm b =
     (if rm_detached rm then (rm, b)
      else if from_pc = ''_relay'' then
        (if isRelayTransportError env then (rm, propagateTransportError rm env b) else (rm, b))
      else case map_of (rm_by_pubkey rm) from_pc of
        None \<Rightarrow> (rm, b)
      | Some label \<Rightarrow>
          (if label = [] then (rm, b)
           else if remote_prefix (env_from env) \<noteq> label then (rm, b)
           else if body_type (env_body env) = Str ''peers_update''
             then (setRemoteCache label from_pc (parsePeersUpdate (env_body env)) rm, b)
           else if body_type (env_body env) = Str ''peers_request''
             then (sendControlEnvelope from_pc (localPeersBody (localPeerInfos b)) rm, b)
           else deliver_remote env from_pc to_room rm b))"

definition handleRooms :: "string \<Rightarrow> (string \<times> int) list \<Rightarrow> remote \<Rightarrow> remote" where
  "handleRooms peer rooms rm =
     (if rm_detached rm \<or> \<not> omap_has (rm_by_pubkey rm) peer then rm
      else
        (let started = fold (\<lambda>(room, at) m. omap_put m room at) rooms [];
             rm1 = replaceOrderedRooms peer
               (rm\<lparr>rm_checks := removeAll peer (rm_checks rm), rm_started := omap_put (rm_started rm) peer started\<rparr>)
         in fold (\<lambda>room. sendControlEnvelopeToRoom peer room peers_request)
              (case map_of (rm_rooms rm1) peer of Some rs \<Rightarrow> rs | None \<Rightarrow> []) rm1))"

definition handleRoomAnnounced :: "string \<Rightarrow> string \<Rightarrow> int \<Rightarrow> remote \<Rightarrow> remote" where
  "handleRoomAnnounced peer room at rm =
     (if rm_detached rm \<or> \<not> omap_has (rm_by_pubkey rm) peer then rm
      else replaceOrderedRooms peer
        (rm\<lparr>rm_checks := removeAll peer (rm_checks rm),
           rm_started := omap_put (rm_started rm) peer (omap_put (started_of peer rm) room at)\<rparr>))"

definition handleRoomEnded :: "string \<Rightarrow> string \<Rightarrow> remote \<Rightarrow> remote" where
  "handleRoomEnded peer room rm =
     (if rm_detached rm \<or> \<not> omap_has (rm_by_pubkey rm) peer then rm
      else replaceOrderedRooms peer
        (case map_of (rm_started rm) peer of
           Some m \<Rightarrow> rm\<lparr>rm_started := omap_put (rm_started rm) peer (omap_del m room)\<rparr>
         | None \<Rightarrow> rm))"

definition detach :: "remote \<Rightarrow> 'r broker \<Rightarrow> remote \<times> 'r broker" where
  "detach rm b =
     (if rm_detached rm then (rm, b)
      else (rm\<lparr>rm_detached := True, rm_timer := False, rm_listening := False\<rparr>, setRemoteRouter None b))"

text \<open>The test-support entry; \<open>canon\<close> re-encodes a Base64 key.\<close>

definition sendEnvelopeForTest ::
  "(string \<Rightarrow> string) \<Rightarrow> string \<Rightarrow> string \<Rightarrow> string \<Rightarrow> string \<Rightarrow> js \<Rightarrow> remote \<Rightarrow> bool \<times> remote" where
  "sendEnvelopeForTest canon to_pc to_room to_address from_address body rm =
     (if rm_detached rm then (False, rm)
      else case map_of (rm_by_pubkey rm) (canon to_pc) of
        None \<Rightarrow> (False, rm)
      | Some label \<Rightarrow>
          (if label = [] then (False, rm)
           else (True, send_fresh (canon to_pc) to_room
             (envelope_with (remote_id rm) (rm_self_label rm @ '':'' @ from_address)
               (One (label @ '':'' @ to_address)) body None) rm)))"

subsection \<open>What the sending helpers leave alone\<close>

text \<open>The fields that sending, subscribing and waiting do not touch.\<close>

definition books :: "remote \<Rightarrow> remote" where
  "books rm = rm\<lparr>rm_sent := [], rm_ids := 0, rm_subscribed := [], rm_checks := [], rm_fills := [],
     rm_filled := [], rm_slots := 0\<rparr>"

lemma books_fields:
  assumes "books a = books b"
  shows "rm_by_label a = rm_by_label b" "rm_by_pubkey a = rm_by_pubkey b" "rm_peers a = rm_peers b"
    "rm_rooms a = rm_rooms b" "rm_started a = rm_started b" "rm_self_label a = rm_self_label b"
    "rm_self_pubkey a = rm_self_pubkey b" "rm_detached a = rm_detached b" "rm_now a = rm_now b"
    "rm_ttl a = rm_ttl b" "rm_locale a = rm_locale b" "rm_gen a = rm_gen b"
proof -
  have "rm_by_label (books a) = rm_by_label (books b)" "rm_by_pubkey (books a) = rm_by_pubkey (books b)"
    "rm_peers (books a) = rm_peers (books b)" "rm_rooms (books a) = rm_rooms (books b)"
    "rm_started (books a) = rm_started (books b)" "rm_self_label (books a) = rm_self_label (books b)"
    "rm_self_pubkey (books a) = rm_self_pubkey (books b)" "rm_detached (books a) = rm_detached (books b)"
    "rm_now (books a) = rm_now (books b)" "rm_ttl (books a) = rm_ttl (books b)"
    "rm_locale (books a) = rm_locale (books b)" "rm_gen (books a) = rm_gen (books b)"
    by (simp_all only: assms)
  then show "rm_by_label a = rm_by_label b" "rm_by_pubkey a = rm_by_pubkey b" "rm_peers a = rm_peers b"
    "rm_rooms a = rm_rooms b" "rm_started a = rm_started b" "rm_self_label a = rm_self_label b"
    "rm_self_pubkey a = rm_self_pubkey b" "rm_detached a = rm_detached b" "rm_now a = rm_now b"
    "rm_ttl a = rm_ttl b" "rm_locale a = rm_locale b" "rm_gen a = rm_gen b"
    by (simp_all add: books_def)
qed

lemma books_emit [simp]:
  "books (emit out rm) = books rm" "books (rm\<lparr>rm_ids := n\<rparr>) = books rm"
  "books (send_fresh pk r env rm) = books rm" "books (subscribeToRooms pk rm) = books rm"
  "books (requestRooms pk rm) = books rm" "books (awaitPeersFill l rm) = books rm"
  "books (fill_timeout l slot rm) = books rm"
  "books (rm\<lparr>rm_checks := cs\<rparr>) = books rm"
  by (simp_all add: books_def emit_def send_fresh_def subscribeToRooms_def requestRooms_def
      awaitPeersFill_def fill_timeout_def Let_def)

lemma books_pickRoom [simp]: "books (snd (pickRoom pk rm)) = books rm"
  by (simp add: pickRoom_def split: option.split)

lemma books_pickRoom_eq: "pickRoom pk rm = (r, rm') \<Longrightarrow> books rm' = books rm"
  using books_pickRoom [of pk rm] by simp

lemma books_control_room [simp]: "books (sendControlEnvelopeToRoom pk r body rm) = books rm"
  by (simp add: sendControlEnvelopeToRoom_def)

lemma books_control [simp]: "books (sendControlEnvelope pk body rm) = books rm"
  by (auto simp: sendControlEnvelope_def split: prod.split option.split dest: books_pickRoom_eq)

lemma books_bootstrap_one [simp]: "books (bootstrap_one body pk rm) = books rm"
  by (auto simp: bootstrap_one_def split: prod.split option.split dest: books_pickRoom_eq)

lemma books_fold: "(\<And>x rm. books (f x rm) = books rm) \<Longrightarrow> books (fold f xs rm) = books rm"
  by (induction xs arbitrary: rm) simp_all

lemma books_bootstrap [simp]: "books (bootstrapWithSiblings infos rm) = books rm"
  unfolding bootstrapWithSiblings_def by (rule books_fold) simp

lemma books_tryRouteOutbound [simp]: "books (snd (tryRouteOutbound rm env)) = books rm"
  by (auto simp: tryRouteOutbound_def Let_def split: recipients.split option.split prod.split dest: books_pickRoom_eq)

subsection \<open>The sibling books\<close>

definition wf_siblings :: "remote \<Rightarrow> bool" where
  "wf_siblings rm \<longleftrightarrow>
     (\<forall>l p. map_of (rm_by_label rm) l = Some p \<longrightarrow>
        l \<noteq> [] \<and> p \<noteq> [] \<and> l \<noteq> rm_self_label rm \<and> p \<noteq> rm_self_pubkey rm \<and> omap_has (rm_by_pubkey rm) p)
   \<and> (\<forall>p l. map_of (rm_by_pubkey rm) p = Some l \<longrightarrow>
        l \<noteq> [] \<and> p \<noteq> [] \<and> l \<noteq> rm_self_label rm \<and> p \<noteq> rm_self_pubkey rm \<and> omap_has (rm_by_label rm) l)"

definition wf_remote :: "remote \<Rightarrow> bool" where
  "wf_remote rm \<longleftrightarrow> wf_siblings rm
     \<and> (\<forall>l. omap_has (rm_peers rm) l \<longrightarrow> omap_has (rm_by_label rm) l)
     \<and> (\<forall>pk rs. map_of (rm_rooms rm) pk = Some rs \<longrightarrow>
          rs = map fst (sort_by (room_cmp (rm_locale rm)) (started_of pk rm)))
     \<and> (\<forall>pk m. map_of (rm_started rm) pk = Some m \<longrightarrow> omap_wf m)"

lemma wf_remote_books: "books a = books b \<Longrightarrow> wf_remote a = wf_remote b"
  using books_fields [of a b] by (simp add: wf_remote_def wf_siblings_def started_of_def)

lemma wf_new_remote [wf_intros]: "wf_remote (new_remote l p ttl gen loc)"
  by (simp add: wf_remote_def wf_siblings_def new_remote_def)

lemma wf_addSibling: "wf_siblings rm \<Longrightarrow> wf_siblings (addSibling s rm)"
  unfolding wf_siblings_def addSibling_def by auto

lemma wf_addSiblings: "wf_siblings rm \<Longrightarrow> wf_siblings (fold addSibling ss rm)"
  by (induction ss arbitrary: rm) (simp_all add: wf_addSibling)

lemma addSibling_fields [simp]:
  "rm_peers (addSibling s rm) = rm_peers rm" "rm_rooms (addSibling s rm) = rm_rooms rm"
  "rm_started (addSibling s rm) = rm_started rm" "rm_locale (addSibling s rm) = rm_locale rm"
  "rm_self_label (addSibling s rm) = rm_self_label rm" "rm_self_pubkey (addSibling s rm) = rm_self_pubkey rm"
  by (simp_all add: addSibling_def)

lemma addSiblings_fields [simp]:
  "rm_peers (fold addSibling ss rm) = rm_peers rm" "rm_rooms (fold addSibling ss rm) = rm_rooms rm"
  "rm_started (fold addSibling ss rm) = rm_started rm" "rm_locale (fold addSibling ss rm) = rm_locale rm"
  "rm_self_label (fold addSibling ss rm) = rm_self_label rm"
  "rm_self_pubkey (fold addSibling ss rm) = rm_self_pubkey rm"
  by (induction ss arbitrary: rm) simp_all

lemma started_of_cong: "rm_started a = rm_started b \<Longrightarrow> started_of pk a = started_of pk b"
  by (simp add: started_of_def)

lemma wf_forget_key: "wf_remote rm \<Longrightarrow> wf_remote (forget_key pk rm)"
  by (auto simp: wf_remote_def wf_siblings_def forget_key_def started_of_def split: if_splits option.splits)

lemma wf_forget_keys: "wf_remote rm \<Longrightarrow> wf_remote (fold forget_key pks rm)"
  by (induction pks arbitrary: rm) (simp_all add: wf_forget_key)

lemma map_of_filter_key: "map_of (filter (\<lambda>p. P (fst p)) m) k = (if P k then map_of m k else None)"
  by (induction m) auto

lemma wf_cut:
  assumes "wf_remote rm" "wf_siblings rm1" "rm_rooms rm1 = rm_rooms rm" "rm_started rm1 = rm_started rm"
    "rm_locale rm1 = rm_locale rm" "\<And>l. omap_has ps l \<Longrightarrow> omap_has (rm_by_label rm1) l"
  shows "wf_remote (rm1\<lparr>rm_peers := ps\<rparr>)"
  using assms by (simp add: wf_remote_def wf_siblings_def started_of_def)

lemma wf_prune:
  assumes "wf_remote rm" "wf_siblings rm1" "rm_rooms rm1 = rm_rooms rm" "rm_started rm1 = rm_started rm"
    "rm_locale rm1 = rm_locale rm"
  shows "wf_remote (rm1\<lparr>rm_peers := filter (\<lambda>p. omap_has (rm_by_label rm1) (fst p)) ps\<rparr>)"
  using assms
proof (rule wf_cut)
  fix l assume "omap_has (filter (\<lambda>p. omap_has (rm_by_label rm1) (fst p)) ps) l"
  then show "omap_has (rm_by_label rm1) l"
    unfolding map_of_filter_key [of "\<lambda>k. omap_has (rm_by_label rm1) k"] by (rule contrapos_np) simp
qed

lemma wf_setSiblings [wf_intros]:
  assumes "wf_remote rm"
  shows "wf_remote (setSiblings next infos rm)"
proof -
  let ?rm1 = "fold addSibling next (rm\<lparr>rm_by_label := [], rm_by_pubkey := []\<rparr>)"
  let ?rm2 = "?rm1\<lparr>rm_peers := filter (\<lambda>p. omap_has (rm_by_label ?rm1) (fst p)) (rm_peers ?rm1)\<rparr>"
  have "wf_siblings ?rm1" by (rule wf_addSiblings) (simp add: wf_siblings_def)
  with assms have "wf_remote ?rm2" by (rule wf_prune) simp_all
  then show ?thesis
    using assms wf_forget_keys [of ?rm2] wf_remote_books [OF books_bootstrap]
    by (simp add: setSiblings_def Let_def)
qed

lemma wf_replaceOrdered:
  assumes "wf_siblings rm" "\<forall>l. omap_has (rm_peers rm) l \<longrightarrow> omap_has (rm_by_label rm) l"
    and "\<forall>q rs. q \<noteq> pk \<longrightarrow> map_of (rm_rooms rm) q = Some rs \<longrightarrow>
      rs = map fst (sort_by (room_cmp (rm_locale rm)) (started_of q rm))"
    and "\<forall>q m. map_of (rm_started rm) q = Some m \<longrightarrow> omap_wf m"
  shows "wf_remote (replaceOrderedRooms pk rm)"
  using assms by (auto simp: wf_remote_def wf_siblings_def replaceOrderedRooms_def started_of_def split: if_splits)

lemma wf_handleRooms [wf_intros]:
  assumes "wf_remote rm"
  shows "wf_remote (handleRooms peer rooms rm)"
proof -
  let ?started = "fold (\<lambda>(room, at) m. omap_put m room at) rooms []"
  let ?rm = "rm\<lparr>rm_checks := removeAll peer (rm_checks rm), rm_started := omap_put (rm_started rm) peer ?started\<rparr>"
  have "omap_wf (fold (\<lambda>(room, at) m. omap_put m room at) rooms m)" if "omap_wf m" for m :: "(string, int) omap"
    using that by (induction rooms arbitrary: m) (auto simp: split_def)
  then have "omap_wf ?started" by simp
  then have "wf_remote (replaceOrderedRooms peer ?rm)"
    using assms by (intro wf_replaceOrdered) (auto simp: wf_remote_def wf_siblings_def started_of_def split: if_splits)
  then show ?thesis
    using assms wf_remote_books [OF books_fold, of "\<lambda>room. sendControlEnvelopeToRoom peer room peers_request"]
    by (simp add: handleRooms_def Let_def)
qed

lemma wf_handleRoomAnnounced [wf_intros]:
  assumes "wf_remote rm"
  shows "wf_remote (handleRoomAnnounced peer room at rm)"
proof -
  have "omap_wf (started_of peer rm)"
    using assms by (auto simp: wf_remote_def started_of_def split: option.split)
  then have "wf_remote (replaceOrderedRooms peer (rm\<lparr>rm_checks := removeAll peer (rm_checks rm),
      rm_started := omap_put (rm_started rm) peer (omap_put (started_of peer rm) room at)\<rparr>))"
    using assms by (intro wf_replaceOrdered) (auto simp: wf_remote_def wf_siblings_def started_of_def split: if_splits)
  then show ?thesis using assms by (simp add: handleRoomAnnounced_def)
qed

lemma wf_handleRoomEnded [wf_intros]:
  assumes "wf_remote rm"
  shows "wf_remote (handleRoomEnded peer room rm)"
proof -
  let ?rm = "case map_of (rm_started rm) peer of
      Some m \<Rightarrow> rm\<lparr>rm_started := omap_put (rm_started rm) peer (omap_del m room)\<rparr> | None \<Rightarrow> rm"
  have "wf_remote (replaceOrderedRooms peer ?rm)"
    using assms by (intro wf_replaceOrdered)
      (auto simp: wf_remote_def wf_siblings_def started_of_def split: if_splits option.splits)
  then show ?thesis using assms by (simp add: handleRoomEnded_def)
qed

lemma wf_setRemoteCache [wf_intros]:
  "wf_remote rm \<Longrightarrow> map_of (rm_by_pubkey rm) pk = Some l \<Longrightarrow> wf_remote (setRemoteCache l q infos rm)"
  by (auto simp: wf_remote_def wf_siblings_def setRemoteCache_def Let_def started_of_def split: option.split)

lemma wf_handleIncoming [wf_intros]:
  assumes "wf_remote rm"
  shows "wf_remote (fst (handleIncoming env pc room rm b))"
proof -
  have "wf_remote (fst (deliver_remote env pc room rm b))"
    using assms wf_remote_books [OF books_emit(3)]
    by (auto simp: deliver_remote_def Let_def split: recipients.split prod.split)
  then show ?thesis
    using assms wf_remote_books [OF books_control] wf_setRemoteCache [OF assms]
    by (auto simp: handleIncoming_def split: option.split)
qed
lemma wf_detach [wf_intros]: "wf_remote rm \<Longrightarrow> wf_remote (fst (detach rm b))"
  by (simp add: detach_def wf_remote_def wf_siblings_def started_of_def)

lemma wf_start_remote [wf_intros]:
  "wf_remote (start_remote ss interval infos (new_remote l p ttl gen loc))"
proof -
  let ?rm = "fold addSibling ss (new_remote l p ttl gen loc)"
  have "wf_siblings ?rm"
    using wf_new_remote [of l p ttl gen loc] by (intro wf_addSiblings) (simp add: wf_remote_def)
  then have "wf_remote (?rm\<lparr>rm_listening := True\<rparr>)"
    by (simp add: wf_remote_def wf_siblings_def new_remote_def)
  then have "wf_remote (bootstrapWithSiblings infos (?rm\<lparr>rm_listening := True\<rparr>))"
    using wf_remote_books [OF books_bootstrap] by blast
  then show ?thesis by (simp add: start_remote_def wf_remote_def wf_siblings_def started_of_def)
qed

subsection \<open>Executions\<close>

text \<open>
  What happens to the adapter. The broker's local roster and, for an incoming
  envelope, the broker itself are whatever they are at that moment.
\<close>

datatype remote_event =
    Incoming envelope string string "remote broker"
  | Outbound envelope
  | Rooms string "(string \<times> int) list"
  | RoomAnnounced string string int
  | RoomEnded string string
  | SiblingsPublished "sibling list" "peer_info list"
  | LocalChanged "peer_info list"
  | Reannounce "peer_info list"
  | FillTimeout string nat
  | ClockAt int
  | Detach "remote broker"

fun remote_step :: "remote_event \<Rightarrow> remote \<Rightarrow> remote" where
  "remote_step (Incoming env pc room b) rm = fst (handleIncoming env pc room rm b)"
| "remote_step (Outbound env) rm = snd (tryRouteOutbound rm env)"
| "remote_step (Rooms peer rooms) rm = handleRooms peer rooms rm"
| "remote_step (RoomAnnounced peer room at) rm = handleRoomAnnounced peer room at rm"
| "remote_step (RoomEnded peer room) rm = handleRoomEnded peer room rm"
| "remote_step (SiblingsPublished ss infos) rm = setSiblings ss infos rm"
| "remote_step (LocalChanged infos) rm = onLocalPeersChanged infos rm"
| "remote_step (Reannounce infos) rm = reannounce infos rm"
| "remote_step (FillTimeout l slot) rm = fill_timeout l slot rm"
| "remote_step (ClockAt t) rm = rm\<lparr>rm_now := t\<rparr>"
| "remote_step (Detach b) rm = fst (detach rm b)"

inductive remote_run :: "remote \<Rightarrow> remote \<Rightarrow> bool" for rm0 where
  initial: "remote_run rm0 rm0"
| next_event: "remote_run rm0 rm \<Longrightarrow> remote_run rm0 (remote_step e rm)"

lemma books_onLocalPeersChanged [simp]: "books (onLocalPeersChanged infos rm) = books rm"
  by (simp add: onLocalPeersChanged_def books_fold)

lemma books_reannounce [simp]: "books (reannounce infos rm) = books rm"
  by (simp add: reannounce_def)

lemma wf_remote_step: "wf_remote rm \<Longrightarrow> wf_remote (remote_step e rm)"
proof (cases e)
  case (ClockAt t)
  assume "wf_remote rm"
  with ClockAt show ?thesis by (simp add: wf_remote_def wf_siblings_def started_of_def)
next
  case (Outbound env)
  assume "wf_remote rm"
  with Outbound wf_remote_books [OF books_tryRouteOutbound] show ?thesis by simp
next
  case (LocalChanged infos)
  assume "wf_remote rm"
  with LocalChanged wf_remote_books [OF books_onLocalPeersChanged] show ?thesis by simp
next
  case (Reannounce infos)
  assume "wf_remote rm"
  with Reannounce wf_remote_books [OF books_reannounce] show ?thesis by simp
next
  case (FillTimeout l slot)
  assume "wf_remote rm"
  with FillTimeout wf_remote_books [OF books_emit(7)] show ?thesis by simp
qed (simp_all add: wf_intros)

lemma remote_run_wf: "remote_run rm0 rm \<Longrightarrow> wf_remote rm0 \<Longrightarrow> wf_remote rm"
  by (induction rule: remote_run.induct) (simp_all add: wf_remote_step)

subsection \<open>The adapter satisfies the broker's interface\<close>

lemma tryRouteOutbound_declines:
  "env_to env = One t \<Longrightarrow> parseAddress t = None \<Longrightarrow> tryRouteOutbound rm env = (False, rm)"
  by (simp add: tryRouteOutbound_def)

lemma roster_described: "map pi_address (listRemotePeerInfos rm) = listRemotePeers rm"
  by (simp add: listRemotePeerInfos_def listRemotePeers_def map_concat comp_def)

interpretation relay_router: remote_router tryRouteOutbound listRemotePeers listRemotePeerInfos
  by unfold_locales (auto simp: tryRouteOutbound_declines roster_described listRemotePeers_def)

definition remote_router_of :: "remote \<Rightarrow> remote router" where
  "remote_router_of rm = \<lparr>rt_try = tryRouteOutbound, rt_names = listRemotePeers,
     rt_infos = listRemotePeerInfos, rt_state = rm\<rparr>"

subsection \<open>Sending\<close>

lemma known_room_pick: "known_room pk rm = Some r \<Longrightarrow> pickRoom pk rm = (Some r, rm)"
  by (simp add: pickRoom_def)

text \<open>When the outbound half claims an envelope, and what it sends when a room is known.\<close>

lemma tryRouteOutbound_claims:
  "fst (tryRouteOutbound rm env) \<longleftrightarrow> \<not> rm_detached rm \<and>
     (\<exists>t label name pk. env_to env = One t \<and> parseAddress t = Some (label, name) \<and> label \<noteq> rm_self_label rm
        \<and> map_of (rm_by_label rm) label = Some pk \<and> pk \<noteq> [])"
  by (auto simp: tryRouteOutbound_def Let_def split: recipients.split option.split prod.split)

lemma tryRouteOutbound_warm:
  assumes "\<not> rm_detached rm" "env_to env = One t" "parseAddress t = Some (label, name)"
    "label \<noteq> rm_self_label rm" "map_of (rm_by_label rm) label = Some pk" "pk \<noteq> []"
    "known_room pk rm = Some room" "omap_has (rm_peers rm) label"
  shows "tryRouteOutbound rm env =
    (True, emit (ToPi pk room (env\<lparr>env_from := rm_self_label rm @ '':'' @ env_from env\<rparr>)) rm)"
  using assms by (auto simp: tryRouteOutbound_def known_room_pick emit_def Let_def)

text \<open>What the inbound half delivers for a genuine envelope of a sibling.\<close>

lemma handleIncoming_regular:
  assumes "\<not> rm_detached rm" "pc \<noteq> ''_relay''" "map_of (rm_by_pubkey rm) pc = Some label" "label \<noteq> []"
    "remote_prefix (env_from env) = label"
    "body_type (env_body env) \<noteq> Str ''peers_update''" "body_type (env_body env) \<noteq> Str ''peers_request''"
    "env_to env = One t" "parseAddress t = Some (rm_self_label rm, name)"
  shows "handleIncoming env pc room rm b =
    (let (status, b') = injectFromRemote (env\<lparr>env_to := One name\<rparr>) b in
     if body_type (env_body env) = Str ''ack'' then (rm, b')
     else (send_fresh pc room (remote_ack rm env status name) rm, b'))"
  using assms by (simp add: handleIncoming_def deliver_remote_def localize_def Let_def split_def)

lemma remote_prefix_label: "CHR '':'' \<notin> set l \<Longrightarrow> remote_prefix (l @ '':'' @ s) = l"
  unfolding remote_prefix_def by (induction l) auto

lemma injectFromRemote_online:
  assumes "env_to env = One t" "routable t" "map_of (bk_peers b) t = Some s" "writable b s"
  shows "fst (injectFromRemote env b) = Received"
    "bk_out (snd (injectFromRemote env b)) = bk_out b @ [(s, serialize env)]"
  using assms by (simp_all add: injectFromRemote_def routable_def try_write_writable)


lemma parse_prefixed [simp]:
  "CHR '':'' \<notin> set l \<Longrightarrow> l \<noteq> [] \<Longrightarrow> a \<noteq> [] \<Longrightarrow> parseAddress (l @ CHR '':'' # a) = Some (l, a)"
  using parseAddress_prefix [of l a] by simp

lemma remote_prefix_label' [simp]: "CHR '':'' \<notin> set l \<Longrightarrow> remote_prefix (l @ CHR '':'' # s) = l"
  using remote_prefix_label [of l s] by simp

subsection \<open>Rosters on the wire\<close>

definition wire_of :: "peer_info \<Rightarrow> wire_peer" where
  "wire_of i = \<lparr>wp_cwd = pi_cwd i, wp_name = pi_name i, wp_address = pi_address i\<rparr>"

lemma parse_localPeersBody: "parsePeersUpdate (localPeersBody infos) = map wire_of infos"
  by (induction infos) (simp_all add: parsePeersUpdate_def localPeersBody_def is_wire_peer_def wire_json_def wire_of_def)

lemma body_type_localPeersBody [simp]: "body_type (localPeersBody infos) = Str ''peers_update''"
  by (simp add: body_type_def localPeersBody_def)

subsection \<open>The oldest room first\<close>

lemma consistent_room_cmp: "consistent_cmp loc \<Longrightarrow> consistent_cmp (room_cmp loc)"
  unfolding consistent_cmp_def room_cmp_def
  by (auto split: if_splits)

lemma oldest_first:
  assumes "consistent_cmp loc" "map fst (sort_by (room_cmp loc) m) = r # rs"
  shows "\<exists>at. (r, at) \<in> set m \<and> (\<forall>(r', at') \<in> set m. at \<le> at')"
proof -
  from assms(2) obtain at ps where s: "sort_by (room_cmp loc) m = (r, at) # ps"
    by (cases "sort_by (room_cmp loc) m") auto
  have "sorted_wrt (\<lambda>a b. room_cmp loc a b \<le> 0) ((r, at) # ps)"
    using sorted_sort_by [OF consistent_room_cmp [OF assms(1)], of m] s by simp
  then have "\<forall>p \<in> set ps. at \<le> snd p" by (auto simp: room_cmp_def split: if_splits)
  moreover have "set m = insert (r, at) (set ps)" using set_sort_by [of "room_cmp loc" m] s by simp
  ultimately show ?thesis by fastforce
qed

subsection \<open>Constants of a run\<close>

lemma books_constants:
  "books a = books b \<Longrightarrow> rm_locale a = rm_locale b \<and> rm_self_label a = rm_self_label b \<and> rm_self_pubkey a = rm_self_pubkey b"
  using books_fields [of a b] by simp

lemma forget_keys_constants [simp]:
  "rm_locale (fold forget_key pks rm) = rm_locale rm"
  "rm_self_label (fold forget_key pks rm) = rm_self_label rm"
  "rm_self_pubkey (fold forget_key pks rm) = rm_self_pubkey rm"
  by (induction pks arbitrary: rm) (simp_all add: forget_key_def)

lemma replaceOrderedRooms_constants [simp]:
  "rm_locale (replaceOrderedRooms pk rm) = rm_locale rm"
  "rm_self_label (replaceOrderedRooms pk rm) = rm_self_label rm"
  "rm_self_pubkey (replaceOrderedRooms pk rm) = rm_self_pubkey rm"
  by (simp_all add: replaceOrderedRooms_def)

lemma step_constants:
  "rm_locale (remote_step e rm) = rm_locale rm \<and> rm_self_label (remote_step e rm) = rm_self_label rm
     \<and> rm_self_pubkey (remote_step e rm) = rm_self_pubkey rm"
proof (cases e)
  case (Incoming env pc room b)
  have "rm_locale (sendControlEnvelope pc body rm) = rm_locale rm \<and> rm_self_label (sendControlEnvelope pc body rm) = rm_self_label rm
      \<and> rm_self_pubkey (sendControlEnvelope pc body rm) = rm_self_pubkey rm" for body
    by (rule books_constants) simp
  then show ?thesis
    using Incoming by (simp add: handleIncoming_def deliver_remote_def setRemoteCache_def Let_def send_fresh_def emit_def
        split: option.split recipients.split prod.split)
next
  case (Outbound env)
  then show ?thesis using books_constants [OF books_tryRouteOutbound] by simp
next
  case (Rooms peer rooms)
  then show ?thesis
    using books_constants [OF books_fold, of "\<lambda>room. sendControlEnvelopeToRoom peer room peers_request"]
    by (simp add: handleRooms_def Let_def)
next
  case (SiblingsPublished ss infos)
  then show ?thesis
    using books_constants [OF books_bootstrap] by (simp add: setSiblings_def Let_def)
next
  case (LocalChanged infos)
  then show ?thesis using books_constants [OF books_onLocalPeersChanged] by simp
next
  case (Reannounce infos)
  then show ?thesis using books_constants [OF books_reannounce] by simp
qed (simp_all add: handleRoomAnnounced_def handleRoomEnded_def fill_timeout_def detach_def split: option.split)

lemma remote_run_constants:
  "remote_run rm0 rm \<Longrightarrow> rm_locale rm = rm_locale rm0 \<and> rm_self_label rm = rm_self_label rm0
     \<and> rm_self_pubkey rm = rm_self_pubkey rm0"
  by (induction rule: remote_run.induct) (simp_all add: step_constants)

lemma start_remote_constants:
  "rm_locale (start_remote ss interval infos (new_remote self pk ttl gen loc)) = loc"
  "rm_self_label (start_remote ss interval infos (new_remote self pk ttl gen loc)) = self"
  "rm_self_pubkey (start_remote ss interval infos (new_remote self pk ttl gen loc)) = pk"
  using books_constants [OF books_bootstrap] by (simp_all add: start_remote_def new_remote_def)

subsection \<open>Properties\<close>

text \<open>Machine \<open>ca\<close> with the sibling \<open>wk\<close>, and machine \<open>wk\<close> with the sibling \<open>ca\<close>.\<close>

definition machine :: "string \<Rightarrow> string \<Rightarrow> string \<Rightarrow> string \<Rightarrow> remote" where
  "machine self self_pk other other_pk = (new_remote self self_pk CACHE_TTL_MS (\<lambda>_. sample_uuid) (\<lambda>_ _. 0))\<lparr>
     rm_by_label := [(other, other_pk)], rm_by_pubkey := [(other_pk, other)],
     rm_rooms := [(other_pk, [''main''])], rm_started := [(other_pk, [(''main'', 1)])],
     rm_peers := [(other, \<lparr>re_infos = [\<lparr>wp_cwd = ''/q'', wp_name = ''bo'', wp_address = ''/q@bo''\<rparr>],
       re_pubkey = other_pk, re_ts = 0\<rparr>)]\<rparr>"

lemma machine_fields [simp]:
  "rm_by_label (machine s sp t tp) = [(t, tp)]" "rm_by_pubkey (machine s sp t tp) = [(tp, t)]"
  "rm_self_label (machine s sp t tp) = s" "rm_self_pubkey (machine s sp t tp) = sp"
  "rm_detached (machine s sp t tp) = False" "rm_rooms (machine s sp t tp) = [(tp, [''main''])]"
  "rm_sent (machine s sp t tp) = []" "rm_now (machine s sp t tp) = 0" "rm_ttl (machine s sp t tp) = CACHE_TTL_MS"
  "rm_started (machine s sp t tp) = [(tp, [(''main'', 1)])]" "rm_locale (machine s sp t tp) = (\<lambda>_ _. 0)"
  "rm_peers (machine s sp t tp) = [(t, \<lparr>re_infos = [\<lparr>wp_cwd = ''/q'', wp_name = ''bo'', wp_address = ''/q@bo''\<rparr>],
       re_pubkey = tp, re_ts = 0\<rparr>)]"
  by (simp_all add: machine_def new_remote_def)

text \<open>
  C5. The cross-machine round trip. A peer of machine A writes to \<open>B:tb\<close>: A's adapter
  claims the envelope and sends it to B's room with the sender prefixed by A's
  label. B's adapter hands exactly that envelope, with its own prefix stripped, to
  the local peer \<open>tb\<close> and answers with one acknowledgement. A's adapter hands the
  acknowledgement, correlated to the original identifier, to the original sender
  and answers nothing.
\<close>
theorem cross_machine_round_trip:
  fixes A B :: remote and bA bB :: "'r broker"
  assumes A: "\<not> rm_detached A" "map_of (rm_by_label A) (rm_self_label B) = Some pkB"
      "map_of (rm_by_pubkey A) pkB = Some (rm_self_label B)" "known_room pkB A = Some room"
      "omap_has (rm_peers A) (rm_self_label B)"
    and B: "\<not> rm_detached B" "map_of (rm_by_pubkey B) pkA = Some (rm_self_label A)"
    and labels: "rm_self_label A \<noteq> rm_self_label B" "rm_self_label A \<noteq> []" "rm_self_label B \<noteq> []"
      "CHR '':'' \<notin> set (rm_self_label A)" "CHR '':'' \<notin> set (rm_self_label B)"
      "pkA \<noteq> ''_relay''" "pkB \<noteq> ''_relay''" "pkB \<noteq> []"
    and env: "env_to env = One (rm_self_label B @ '':'' @ tb)" "env_from env = fa"
      "body_type (env_body env) \<notin> {Str ''peers_update'', Str ''peers_request'', Str ''ack''}"
    and tb: "routable tb" "map_of (bk_peers bB) tb = Some sb" "writable bB sb"
    and fa: "routable fa" "map_of (bk_peers bA) fa = Some sa" "writable bA sa"
  shows "\<exists>ack B'. tryRouteOutbound A env
        = (True, emit (ToPi pkB room (env\<lparr>env_from := rm_self_label A @ '':'' @ fa\<rparr>)) A)
     \<and> fst (handleIncoming (env\<lparr>env_from := rm_self_label A @ '':'' @ fa\<rparr>) pkA reply B bB) = B'
     \<and> rm_sent B' = rm_sent B @ [ToPi pkA reply ack]
     \<and> bk_out (snd (handleIncoming (env\<lparr>env_from := rm_self_label A @ '':'' @ fa\<rparr>) pkA reply B bB))
        = bk_out bB @ [(sb, serialize (env\<lparr>env_from := rm_self_label A @ '':'' @ fa, env_to := One tb\<rparr>))]
     \<and> env_re ack = Some (env_id env) \<and> env_body ack = ack_body Received tb
     \<and> fst (handleIncoming ack pkB room A bA) = A
     \<and> bk_out (snd (handleIncoming ack pkB room A bA)) = bk_out bA @ [(sa, serialize (ack\<lparr>env_to := One fa\<rparr>))]"
proof -
  let ?sent = "env\<lparr>env_from := rm_self_label A @ '':'' @ fa\<rparr>"
  let ?ack = "remote_ack B ?sent Received tb"
  have ne: "tb \<noteq> []" "fa \<noteq> []" using tb(1) fa(1) by (simp_all add: routable_def)
  have pb: "parseAddress (rm_self_label B @ '':'' @ tb) = Some (rm_self_label B, tb)"
    by (rule parseAddress_prefix) (use labels ne in simp_all)
  have pa: "parseAddress (rm_self_label A @ '':'' @ fa) = Some (rm_self_label A, fa)"
    by (rule parseAddress_prefix) (use labels ne in simp_all)
  have out: "tryRouteOutbound A env = (True, emit (ToPi pkB room ?sent) A)"
    unfolding env(2) [symmetric]
    by (rule tryRouteOutbound_warm [OF A(1) env(1) pb _ A(2) _ A(4,5)]) (use labels in simp_all)
  have "handleIncoming ?sent pkA reply B bB =
    (let (status, b') = injectFromRemote (?sent\<lparr>env_to := One tb\<rparr>) bB in
       if body_type (env_body ?sent) = Str ''ack'' then (B, b')
       else (send_fresh pkA reply (remote_ack B ?sent status tb) B, b'))"
    using B labels env ne pb
    by (intro handleIncoming_regular [where t = "rm_self_label B @ '':'' @ tb" and label = "rm_self_label A"]) simp_all
  moreover note injectFromRemote_online [of "?sent\<lparr>env_to := One tb\<rparr>" tb bB sb]
  ultimately have in_B: "fst (handleIncoming ?sent pkA reply B bB) = send_fresh pkA reply ?ack B"
    "bk_out (snd (handleIncoming ?sent pkA reply B bB)) = bk_out bB @ [(sb, serialize (?sent\<lparr>env_to := One tb\<rparr>))]"
    using tb env by (simp_all add: split_def Let_def)
  have "handleIncoming ?ack pkB room A bA =
    (let (status, b') = injectFromRemote (?ack\<lparr>env_to := One fa\<rparr>) bA in
       if body_type (env_body ?ack) = Str ''ack'' then (A, b')
       else (send_fresh pkB room (remote_ack A ?ack status fa) A, b'))"
    using A labels ne pa
    by (intro handleIncoming_regular [where t = "rm_self_label A @ '':'' @ fa" and label = "rm_self_label B"])
      (simp_all add: remote_ack_def body_type_def ack_body_def)
  moreover note injectFromRemote_online(2) [of "?ack\<lparr>env_to := One fa\<rparr>" fa bA sa]
  moreover have "body_type (env_body ?ack) = Str ''ack''" by (simp add: remote_ack_def body_type_def ack_body_def)
  ultimately have in_A: "fst (handleIncoming ?ack pkB room A bA) = A"
    "bk_out (snd (handleIncoming ?ack pkB room A bA)) = bk_out bA @ [(sa, serialize (?ack\<lparr>env_to := One fa\<rparr>))]"
    using fa by (simp_all add: split_def Let_def)
  have "rm_sent (send_fresh pkA reply ?ack B) = rm_sent B @ [ToPi pkA reply ?ack]"
    by (simp add: send_fresh_def emit_def)
  then show ?thesis
    using out in_B in_A by (intro exI [of _ ?ack]) (simp add: remote_ack_def)
qed

theorem cross_machine_round_trip_witness:
  "\<exists>ack B'. tryRouteOutbound (machine ''ca'' ''PA'' ''wk'' ''PB'') (sample_envelope\<lparr>env_to := One ''wk:/q@bo''\<rparr>)
        = (True, emit (ToPi ''PB'' ''main'' (sample_envelope\<lparr>env_to := One ''wk:/q@bo'', env_from := ''ca:/p@al''\<rparr>))
             (machine ''ca'' ''PA'' ''wk'' ''PB''))
     \<and> fst (handleIncoming (sample_envelope\<lparr>env_to := One ''wk:/q@bo'', env_from := ''ca:/p@al''\<rparr>) ''PA'' ''main''
          (machine ''wk'' ''PB'' ''ca'' ''PA'') sample_broker) = B'
     \<and> rm_sent B' = [ToPi ''PA'' ''main'' ack] \<and> env_re ack = Some sample_uuid"
  using cross_machine_round_trip [of "machine ''ca'' ''PA'' ''wk'' ''PB''" "machine ''wk'' ''PB'' ''ca'' ''PA''" "''PB''" "''main''"
      "''PA''" "sample_envelope\<lparr>env_to := One ''wk:/q@bo''\<rparr>" "''/q@bo''" "''/p@al''" sample_broker 3 sample_broker 1 "''main''"]
  by (auto simp: known_room_def routable_def BROKER_NAME_def sample_envelope_def body_type_def)

text \<open>
  C6. No machine speaks for another. If handling a relayed envelope writes anything to a
  local peer, or changes what is cached about a sibling, then the relay-verified
  sender key is a known sibling whose label is the prefix of the envelope's
  sender (for the cache: that sibling's own label), or the envelope is a genuine
  transport error of the relay itself.
\<close>
theorem relay_no_spoofing:
  "(bk_out (snd (handleIncoming env pc room rm b)) \<noteq> bk_out b \<longrightarrow>
      (pc = ''_relay'' \<and> isRelayTransportError env)
      \<or> (\<exists>label. map_of (rm_by_pubkey rm) pc = Some label \<and> remote_prefix (env_from env) = label \<and> label \<noteq> []))
   \<and> (map_of (rm_peers (fst (handleIncoming env pc room rm b))) l \<noteq> map_of (rm_peers rm) l \<longrightarrow>
      map_of (rm_by_pubkey rm) pc = Some l \<and> remote_prefix (env_from env) = l)"
proof -
  have "rm_peers (fst (deliver_remote env pc room rm b)) = rm_peers rm"
    by (auto simp: deliver_remote_def Let_def send_fresh_def emit_def split: recipients.split prod.split)
  moreover have "rm_peers (sendControlEnvelope pc body rm) = rm_peers rm" for body
    by (rule books_fields(3) [OF books_control])
  moreover have "map_of (rm_peers (setRemoteCache label pc infos rm)) l \<noteq> map_of (rm_peers rm) l \<Longrightarrow> l = label"
    for label infos by (auto simp: setRemoteCache_def Let_def split: option.splits if_splits)
  ultimately show ?thesis
    by (auto simp: handleIncoming_def split: option.splits)
qed

theorem relay_no_spoofing_witness:
  "bk_out (snd (handleIncoming (sample_envelope\<lparr>env_from := ''ca:/p@al'', env_to := One ''zz:/q@bo''\<rparr>) ''PZ'' ''main''
      (machine ''wk'' ''PB'' ''ca'' ''PA'') sample_broker)) = bk_out sample_broker"
  using relay_no_spoofing [of "sample_envelope\<lparr>env_from := ''ca:/p@al'', env_to := One ''zz:/q@bo''\<rparr>" "''PZ''" "''main''"
      "machine ''wk'' ''PB'' ''ca'' ''PA''" sample_broker "''ca''"]
  by auto

text \<open>
  The sibling books never name the machine itself, each index is covered by the other,
  and only current siblings have a cached roster, whatever sequence of relay
  frames, membership publications and timers the adapter sees.
\<close>
lemma sibling_books_sound:
  assumes "remote_run (start_remote ss interval infos (new_remote self pk ttl gen loc)) rm"
  shows "(\<forall>l p. map_of (rm_by_label rm) l = Some p \<longrightarrow>
        l \<noteq> self \<and> p \<noteq> pk \<and> omap_has (rm_by_pubkey rm) p)
   \<and> (\<forall>p l. map_of (rm_by_pubkey rm) p = Some l \<longrightarrow> omap_has (rm_by_label rm) l)
   \<and> (\<forall>l. omap_has (rm_peers rm) l \<longrightarrow> omap_has (rm_by_label rm) l)"
  using remote_run_wf [OF assms wf_start_remote] remote_run_constants [OF assms]
  unfolding wf_remote_def wf_siblings_def by (simp only: start_remote_constants) blast

definition sample_run :: remote where
  "sample_run = remote_step (SiblingsPublished [\<lparr>sb_label = ''me'', sb_pubkey = ''PX''\<rparr>, \<lparr>sb_label = ''wk'', sb_pubkey = ''PB''\<rparr>] [])
     (start_remote [\<lparr>sb_label = ''old'', sb_pubkey = ''PO''\<rparr>] 0 [] (new_remote ''me'' ''PA'' CACHE_TTL_MS (\<lambda>_. sample_uuid) (\<lambda>_ _. 0)))"

text \<open>
  A local inventory pushed to a sibling arrives unchanged: what the sibling caches for
  this machine is exactly the pushed roster, and its list of remote peers shows
  each address under this machine's label until the time to live has passed.
\<close>
lemma roster_propagates:
  assumes "\<not> rm_detached B" and "pkA \<noteq> ''_relay''" and "map_of (rm_by_pubkey B) pkA = Some label"
    and "label \<noteq> []" and "remote_prefix (env_from env) = label" and "env_body env = localPeersBody infos"
    and "t - rm_now B \<le> rm_ttl B"
  shows "getRemotePeers label ((fst (handleIncoming env pkA room B b))\<lparr>rm_now := t\<rparr>) = map pi_address infos
   \<and> (\<forall>i \<in> set infos. label @ '':'' @ pi_address i
        \<in> set (listRemotePeers ((fst (handleIncoming env pkA room B b))\<lparr>rm_now := t\<rparr>)))"
proof -
  have "fst (handleIncoming env pkA room B b) = setRemoteCache label pkA (map wire_of infos) B"
    using assms by (simp add: handleIncoming_def parse_localPeersBody)
  then have c: "remoteInfos label ((fst (handleIncoming env pkA room B b))\<lparr>rm_now := t\<rparr>) = map wire_of infos"
    and k: "label \<in> set (omap_keys (rm_peers (fst (handleIncoming env pkA room B b))))"
    using assms(7) by (auto simp: setRemoteCache_def Let_def remoteInfos_def split: option.split)
  from c have "getRemotePeers label ((fst (handleIncoming env pkA room B b))\<lparr>rm_now := t\<rparr>) = map pi_address infos"
    by (simp add: getRemotePeers_def wire_of_def comp_def)
  moreover from c k have "label @ '':'' @ pi_address i
      \<in> set (listRemotePeers ((fst (handleIncoming env pkA room B b))\<lparr>rm_now := t\<rparr>))" if "i \<in> set infos" for i
  proof -
    from k obtain entry where "(label, entry) \<in> set (rm_peers (fst (handleIncoming env pkA room B b)))" by auto
    then show ?thesis
      using that c by (auto simp: listRemotePeers_def wire_of_def image_image intro!: bexI [of _ "(label, entry)"])
  qed
  ultimately show ?thesis by blast
qed

text \<open>
  A detached adapter is inert: no event makes it send anything or come back to life,
  it claims no outbound envelope, and an incoming one leaves the broker as it was.
\<close>
lemma detached_is_inert:
  assumes "rm_detached rm"
  shows "rm_sent (remote_step e rm) = rm_sent rm \<and> rm_detached (remote_step e rm)
   \<and> tryRouteOutbound rm env = (False, rm) \<and> handleIncoming env pc room rm b = (rm, b)"
  using assms
  by (cases e) (simp_all add: handleIncoming_def tryRouteOutbound_def handleRooms_def handleRoomAnnounced_def
      handleRoomEnded_def setSiblings_def onLocalPeersChanged_def reannounce_def fill_timeout_def detach_def)

lemma detached_is_inert_example:
  "rm_sent (remote_step (Reannounce []) ((machine ''wk'' ''PB'' ''ca'' ''PA'')\<lparr>rm_detached := True\<rparr>)) = []
   \<and> rm_detached (remote_step (Reannounce []) ((machine ''wk'' ''PB'' ''ca'' ''PA'')\<lparr>rm_detached := True\<rparr>))"
  using detached_is_inert [of "(machine ''wk'' ''PB'' ''ca'' ''PA'')\<lparr>rm_detached := True\<rparr>" "Reannounce []"
      sample_envelope "''PA''" "''main''" sample_broker] by simp

text \<open>
  Traffic for a sibling goes to its oldest live room: after any execution, the room
  picked is one the relay announced for that key and no announced room started
  earlier, for every consistent \<open>localeCompare\<close>.
\<close>
lemma oldest_room_picked:
  assumes "remote_run (start_remote ss interval infos (new_remote self pk ttl gen loc)) rm"
    and "consistent_cmp loc" and "pickRoom q rm = (Some room, rm')"
  shows "\<exists>at. map_of (started_of q rm) room = Some at \<and> (\<forall>(r', at') \<in> set (started_of q rm). at \<le> at')"
proof -
  note wf = remote_run_wf [OF assms(1) wf_start_remote]
  from assms(3) obtain rs where rs: "map_of (rm_rooms rm) q = Some (room # rs)"
    by (auto simp: pickRoom_def known_room_def split: option.splits list.splits if_splits)
  have "rm_locale rm = loc" using remote_run_constants [OF assms(1)] start_remote_constants by simp
  with wf rs have "map fst (sort_by (room_cmp loc) (started_of q rm)) = room # rs"
    unfolding wf_remote_def by metis
  from oldest_first [OF assms(2) this] obtain at where
    at: "(room, at) \<in> set (started_of q rm)" "\<forall>(r', at') \<in> set (started_of q rm). at \<le> at'" by blast
  moreover have "omap_wf (started_of q rm)"
    using wf by (auto simp: wf_remote_def started_of_def split: option.split)
  ultimately show ?thesis by (auto simp: map_of_eq_Some_iff)
qed

definition sample_rooms :: remote where
  "sample_rooms = remote_step (Rooms ''PO'' [(''new'', 9), (''first'', 3)])
     (start_remote [\<lparr>sb_label = ''old'', sb_pubkey = ''PO''\<rparr>] 0 [] (new_remote ''me'' ''PA'' CACHE_TTL_MS (\<lambda>_. sample_uuid) (\<lambda>_ _. 0)))"

text \<open>
  With the adapter attached, an address without a machine prefix never leaves the
  machine: the broker routes it exactly as without the adapter, and every
  unprefixed name in its roster is one of its own registered peers.
\<close>
lemma unprefixed_stays_local:
  assumes "bk_router b = Some (remote_router_of rm)" and "CHR '':'' \<notin> set t"
  shows "(env_to env = One t \<and> t \<noteq> BROKER_NAME \<longrightarrow> route env b = route_local env b)
   \<and> (t \<in> set (allPeerNames b) \<longrightarrow> t \<in> set (peerNames b))"
proof -
  have a: "relay_router.attached b" using assms(1) by (simp add: relay_router.attached_def remote_router_of_def)
  have "parseAddress t = None" using assms(2) by (simp add: parseAddress_def index_of_None [THEN iffD2])
  then show ?thesis
    using relay_router.route_unprefixed [OF a] relay_router.remote_names_prefixed [OF a, of t] assms(2) by blast
qed

end
