(* ===== verification/Election.thy ===== *)
theory Election imports Names
begin

text \<open>
  \<open>session/leader_election.ts\<close>, \<open>session/cwd_lock.ts\<close>, \<open>session/ipc.ts\<close>, \<open>rooms.ts\<close> and
  the paths of \<open>session/global_config.ts\<close>: who leads the local network, and who holds
  a folder.

  The operating system's side of one socket path is a value of \<open>path_state\<close>; \<open>bind\<close>,
  \<open>connect\<close> and \<open>unlink\<close> act on it. Between any two awaits of the code other
  processes may act: each attempt takes the functions by which they change the path
  at its three suspension points, and whether a live listener answers the probe
  within the 500 ms limit. A listener is named by the number of its process.
\<close>

subsection \<open>Addresses\<close>

datatype platform = Win32 | Posix

definition usesNamedPipe :: "platform \<Rightarrow> bool" where
  "usesNamedPipe plat \<longleftrightarrow> plat = Win32"

definition pipe_char :: "char \<Rightarrow> bool" where
  "pipe_char c \<longleftrightarrow> (let n = of_char c :: nat in
     65 \<le> n \<and> n \<le> 90 \<or> 97 \<le> n \<and> n \<le> 122 \<or> 48 \<le> n \<and> n \<le> 57 \<or> c \<in> {CHR ''_'', CHR ''.'', CHR ''-''})"

definition safe :: "string \<Rightarrow> string" where
  "safe s = map (\<lambda>c. if pipe_char c then c else CHR ''_'') s"

definition backslash :: char where
  "backslash = CHR 0x5C"

definition pipe_root :: string where
  "pipe_root = [backslash, backslash, CHR ''.'', backslash] @ ''pipe'' @ [backslash] @ ''outpost-pi-''"

text \<open>\<open>user\<close> is the given user, or the one of the operating system.\<close>

definition ipcAddress :: "string \<Rightarrow> string \<Rightarrow> platform \<Rightarrow> string \<Rightarrow> string" where
  "ipcAddress suffix file_path plat user =
     (if usesNamedPipe plat then pipe_root @ safe suffix @ ''-'' @ safe (if user \<noteq> [] then user else ''user'')
      else file_path)"

text \<open>\<open>path.join\<close> on components that need no normalisation.\<close>

definition path_join :: "string list \<Rightarrow> string" where
  "path_join ps = concat (map (\<lambda>p. p @ ''/'') (butlast ps)) @ last ps"

definition sessions_dir :: "string \<Rightarrow> string" where
  "sessions_dir home = path_join [home, ''.pi'', ''remote'', ''sessions'']"

definition sessionSockPath :: "string \<Rightarrow> platform \<Rightarrow> string \<Rightarrow> string \<Rightarrow> string" where
  "sessionSockPath home plat user name =
     ipcAddress (''broker-'' @ name) (path_join [sessions_dir home, name, ''broker.sock'']) plat user"

definition sessionAuditPath :: "string \<Rightarrow> string \<Rightarrow> string" where
  "sessionAuditPath home name = path_join [sessions_dir home, name, ''audit.jsonl'']"

definition sessionMetaPath :: "string \<Rightarrow> string \<Rightarrow> string" where
  "sessionMetaPath home name = path_join [sessions_dir home, name, ''session.json'']"

subsection \<open>Room identifiers\<close>

text \<open>
  \<open>real\<close> is \<open>realpathSync\<close> (\<open>None\<close> when it throws) and \<open>digest\<close> is SHA-256 printed in
  base64url: both are arguments.
\<close>

definition real_target :: "(string \<Rightarrow> string option) \<Rightarrow> string \<Rightarrow> string" where
  "real_target real cwd = (case real cwd of Some t \<Rightarrow> t | None \<Rightarrow> cwd)"

definition roomIdForCwd :: "(string \<Rightarrow> string) \<Rightarrow> (string \<Rightarrow> string option) \<Rightarrow> string \<Rightarrow> string" where
  "roomIdForCwd digest real cwd = take 12 (digest (real_target real cwd))"

definition roomIdFor :: "(string \<Rightarrow> string) \<Rightarrow> (string \<Rightarrow> string option) \<Rightarrow> string \<Rightarrow> string option \<Rightarrow> string" where
  "roomIdFor digest real cwd name = (case name of
     None \<Rightarrow> roomIdForCwd digest real cwd
   | Some n \<Rightarrow>
       (if n = [] \<or> n = defaultAgentName cwd then roomIdForCwd digest real cwd
        else take 12 (digest (real_target real cwd @ CHR 0x00 # n))))"

definition lockPathFor ::
  "(string \<Rightarrow> string) \<Rightarrow> (string \<Rightarrow> string option) \<Rightarrow> string \<Rightarrow> platform \<Rightarrow> string \<Rightarrow> string \<Rightarrow> string option \<Rightarrow> string" where
  "lockPathFor digest real locks plat user cwd name =
     (let i = roomIdFor digest real cwd name
      in ipcAddress (''lock-'' @ i) (path_join [locks, i @ ''.sock'']) plat user)"

text \<open>\<open>$OUTPOST_PI_HOME || homedir()\<close>\<close>

definition locksDir :: "string option \<Rightarrow> string \<Rightarrow> string" where
  "locksDir override home =
     path_join [(case override of Some o' \<Rightarrow> (if o' \<noteq> [] then o' else home) | None \<Rightarrow> home), ''.pi'', ''remote'', ''locks'']"

subsection \<open>The socket path\<close>

datatype path_state = Free | Live nat | Stale | OtherFile

type_synonym interference = "path_state \<Rightarrow> path_state"

definition tryConnect :: "bool \<Rightarrow> path_state \<Rightarrow> nat option" where
  "tryConnect answers p = (case p of Live l \<Rightarrow> (if answers then Some l else None) | _ \<Rightarrow> None)"

definition tryBind :: "nat \<Rightarrow> path_state \<Rightarrow> path_state option" where
  "tryBind self p = (case p of Free \<Rightarrow> Some (Live self) | _ \<Rightarrow> None)"

definition removeStaleSock :: "path_state \<Rightarrow> path_state" where
  "removeStaleSock p = (case p of OtherFile \<Rightarrow> OtherFile | _ \<Rightarrow> Free)"

subsection \<open>Leader election\<close>

definition MAX_ATTEMPTS :: nat where
  "MAX_ATTEMPTS = 20"

record round =
  rd_before :: interference
  rd_answers :: bool
  rd_probed :: interference
  rd_cleaned :: interference

datatype election = Leader | Follower nat | Failed

text \<open>
  One pass of the loop: \<open>rd_before\<close> acts before it, \<open>rd_probed\<close> while the probe is
  awaited, \<open>rd_cleaned\<close> before the bind takes effect.
\<close>

definition attempt :: "platform \<Rightarrow> nat \<Rightarrow> round \<Rightarrow> path_state \<Rightarrow> election option \<times> path_state" where
  "attempt plat self r p0 =
     (let p = rd_before r p0; pipe = usesNamedPipe plat;
          bind = (\<lambda>q. case tryBind self q of Some q' \<Rightarrow> (Some Leader, q') | None \<Rightarrow> (None, q))
      in if pipe \<or> p \<noteq> Free
         then (case tryConnect (rd_answers r) p of
                 Some l \<Rightarrow> (Some (Follower l), rd_probed r p)
               | None \<Rightarrow>
                   (let q = rd_probed r p; q' = (if pipe then q else removeStaleSock q)
                    in bind (rd_cleaned r q')))
         else bind (rd_cleaned r p))"

fun elect :: "platform \<Rightarrow> nat \<Rightarrow> round list \<Rightarrow> path_state \<Rightarrow> election \<times> path_state" where
  "elect plat self [] p = (Failed, p)"
| "elect plat self (r # rs) p = (case attempt plat self r p of
     (Some e, p') \<Rightarrow> (e, p')
   | (None, p') \<Rightarrow> elect plat self rs p')"

definition joinOrLead :: "platform \<Rightarrow> nat \<Rightarrow> (nat \<Rightarrow> round) \<Rightarrow> path_state \<Rightarrow> election \<times> path_state" where
  "joinOrLead plat self rounds p = elect plat self (map rounds [0..<MAX_ATTEMPTS]) p"

subsection \<open>The folder lock\<close>

datatype lock_result = Acquired | Refused

definition acquireCwdLock :: "platform \<Rightarrow> nat \<Rightarrow> round \<Rightarrow> path_state \<Rightarrow> lock_result \<times> path_state" where
  "acquireCwdLock plat self r p0 =
     (let p = rd_before r p0 in
      case tryBind self p of
        Some q \<Rightarrow> (Acquired, q)
      | None \<Rightarrow>
          (case tryConnect (rd_answers r) p of
             Some _ \<Rightarrow> (Refused, rd_probed r p)
           | None \<Rightarrow>
               (let q = rd_probed r p; q' = rd_cleaned r (if usesNamedPipe plat then q else removeStaleSock q) in
                case tryBind self q' of Some q'' \<Rightarrow> (Acquired, q'') | None \<Rightarrow> (Refused, q'))))"

text \<open>The held lock: \<open>release\<close> closes the server once, which frees the path.\<close>

record held_lock =
  hl_self :: nat
  hl_released :: bool

definition release :: "held_lock \<Rightarrow> path_state \<Rightarrow> held_lock \<times> path_state" where
  "release h p =
     (if hl_released h then (h, p)
      else (h\<lparr>hl_released := True\<rparr>, if p = Live (hl_self h) then Free else p))"

subsection \<open>Facts about one attempt\<close>

definition quiet_round :: round where
  "quiet_round = \<lparr>rd_before = id, rd_answers = True, rd_probed = id, rd_cleaned = id\<rparr>"

lemma try_simps [simp]:
  "tryConnect a Free = None" "tryConnect a Stale = None" "tryConnect a OtherFile = None"
  "tryConnect True (Live l) = Some l" "tryConnect False (Live l) = None"
  "tryBind s Free = Some (Live s)" "tryBind s (Live l) = None" "tryBind s Stale = None" "tryBind s OtherFile = None"
  "removeStaleSock Free = Free" "removeStaleSock (Live l) = Free" "removeStaleSock Stale = Free"
  "removeStaleSock OtherFile = OtherFile"
  by (simp_all add: tryConnect_def tryBind_def removeStaleSock_def)

lemma tryConnect_Some: "tryConnect a p = Some l \<Longrightarrow> p = Live l"
  by (auto simp: tryConnect_def split: path_state.splits if_splits)

lemma tryBind_Some: "tryBind s p = Some q \<longleftrightarrow> p = Free \<and> q = Live s"
  by (auto simp: tryBind_def split: path_state.splits)

lemma attempt_leader: "attempt plat self r p = (Some Leader, q) \<Longrightarrow> q = Live self"
  by (auto simp: attempt_def Let_def tryBind_Some split: option.splits if_splits)

lemma attempt_follower:
  "attempt plat self r p = (Some (Follower l), q) \<Longrightarrow> rd_before r p = Live l \<and> rd_answers r"
  by (auto simp: attempt_def Let_def tryConnect_def split: option.splits if_splits path_state.splits)

lemma attempt_not_Failed: "attempt plat self r p \<noteq> (Some Failed, q)"
  by (auto simp: attempt_def Let_def split: option.splits if_splits)

lemma attempt_quiet:
  "attempt Posix self quiet_round p = (case p of
     Free \<Rightarrow> (Some Leader, Live self) | Live l \<Rightarrow> (Some (Follower l), Live l)
   | Stale \<Rightarrow> (Some Leader, Live self) | OtherFile \<Rightarrow> (None, OtherFile))"
  "attempt Win32 self quiet_round p = (case p of
     Free \<Rightarrow> (Some Leader, Live self) | Live l \<Rightarrow> (Some (Follower l), Live l)
   | q \<Rightarrow> (None, q))"
  by (simp_all add: attempt_def quiet_round_def usesNamedPipe_def Let_def split: path_state.split)

lemma elect_quiet_stuck: "elect Posix self (replicate n quiet_round) OtherFile = (Failed, OtherFile)"
  by (induction n) (simp_all add: attempt_quiet)

lemma quiet_rounds: "map (\<lambda>_. quiet_round) [0..<n] = replicate n quiet_round"
  by (simp add: map_replicate_const)

text \<open>
  What an election may rely on about the others: probes are answered in time, and
  whoever holds the path when the probe fails to find it live did not appear in the
  window between that probe and the cleanup.
\<close>

definition orderly :: "round \<Rightarrow> bool" where
  "orderly r \<longleftrightarrow> rd_answers r \<and> (\<forall>p l. rd_probed r p = Live l \<longrightarrow> p = Live l)"

lemma attempt_keeps_live:
  assumes "orderly r" "rd_before r p = Live l" "rd_probed r (Live l) = Live l"
  shows "attempt plat self r p = (Some (Follower l), Live l)"
  using assms by (simp add: attempt_def orderly_def Let_def)

lemma append_first_inject:
  assumes "c \<notin> set a" "c \<notin> set b"
  shows "a @ c # n = b @ c # m \<longleftrightarrow> a = b \<and> n = m"
proof
  assume eq: "a @ c # n = b @ c # m"
  have "takeWhile (\<lambda>x. x \<noteq> c) (a @ c # n) = a" "takeWhile (\<lambda>x. x \<noteq> c) (b @ c # m) = b"
    using assms by (auto simp: takeWhile_append)
  with eq have "a = b" by simp
  with eq show "a = b \<and> n = m" by simp
qed simp

lemma elect_leader: "elect plat self rs p = (Leader, q) \<Longrightarrow> q = Live self"
proof (induction rs arbitrary: p)
  case (Cons r rs)
  then show ?case
    by (auto split: prod.splits option.splits dest: attempt_leader)
qed simp

lemma elect_stays:
  assumes "rs \<noteq> []" "\<forall>r \<in> set rs. rd_answers r \<and> rd_before r (Live l) = Live l \<and> rd_probed r (Live l) = Live l"
  shows "elect plat self rs (Live l) = (Follower l, Live l)"
  using assms by (cases rs) (auto simp: attempt_def Let_def)

lemma first_round: "map rounds [0..<MAX_ATTEMPTS] = rounds 0 # map rounds [1..<MAX_ATTEMPTS]"
  by (simp add: MAX_ATTEMPTS_def upt_conv_Cons)

subsection \<open>Properties\<close>

text \<open>
  C10. Undisturbed, the election settles at once: a free path or a socket left by a crash
  makes this process the leader with its listener on the path; a live listener makes
  it a follower of exactly that listener, which keeps the path; and a path blocked
  by a file that is no socket is left alone and reported as a failure after the
  twentieth attempt, never retried forever.
\<close>
theorem election_outcome:
  "joinOrLead Posix self (\<lambda>_. quiet_round) p = (case p of
     Free \<Rightarrow> (Leader, Live self)
   | Stale \<Rightarrow> (Leader, Live self)
   | Live l \<Rightarrow> (Follower l, Live l)
   | OtherFile \<Rightarrow> (Failed, OtherFile))"
proof (cases p)
  case OtherFile
  then show ?thesis by (simp add: joinOrLead_def quiet_rounds elect_quiet_stuck)
qed (simp_all add: joinOrLead_def first_round attempt_quiet)

text \<open>
  C11. Whatever other processes do in between: a process that leads holds the path with its
  own listener, and while a leader stays live and answers probes in time, every
  other election ends in following it and leaves its listener on the path.
\<close>
theorem election_safety:
  "(joinOrLead plat self rounds p = (Leader, q) \<longrightarrow> q = Live self)
   \<and> ((\<forall>i. rd_answers (rounds i) \<and> rd_before (rounds i) (Live l) = Live l \<and> rd_probed (rounds i) (Live l) = Live l)
      \<longrightarrow> joinOrLead plat self rounds (Live l) = (Follower l, Live l))"
proof -
  have "joinOrLead plat self rounds (Live l) = (Follower l, Live l)"
    if "\<forall>i. rd_answers (rounds i) \<and> rd_before (rounds i) (Live l) = Live l \<and> rd_probed (rounds i) (Live l) = Live l"
    unfolding joinOrLead_def by (rule elect_stays) (use that in \<open>auto simp: MAX_ATTEMPTS_def\<close>)
  then show ?thesis by (auto simp: joinOrLead_def dest: elect_leader)
qed

theorem election_safety_witness: "joinOrLead Posix 2 (\<lambda>_. quiet_round) (Live 1) = (Follower 1, Live 1)"
  using election_safety [of Posix 2 "\<lambda>_. quiet_round" "Live 1" _ 1] by (simp add: quiet_round_def)

text \<open>
  The cleanup cannot tell a crashed leader from a slow one: when a live leader does not
  answer the probe within its limit, the election unlinks its socket and leads
  beside it. The same happens when a new leader binds between the failed probe and
  the cleanup.
\<close>
lemma slow_leader_displaced:
  "attempt Posix self (quiet_round\<lparr>rd_answers := False\<rparr>) (Live l) = (Some Leader, Live self)
   \<and> attempt Posix self (quiet_round\<lparr>rd_probed := (\<lambda>_. Live l)\<rparr>) Stale = (Some Leader, Live self)"
  by (simp add: attempt_def quiet_round_def usesNamedPipe_def Let_def)

text \<open>
  The folder lock excludes: an attempt on a free or crashed lock acquires it, an
  attempt on a live one is refused and leaves the holder in place, a second process
  is refused while the first holds the lock and acquires it after the release, and
  releasing again changes nothing.
\<close>
lemma cwd_lock_exclusive:
  "acquireCwdLock Posix self quiet_round p = (case p of
     Free \<Rightarrow> (Acquired, Live self) | Stale \<Rightarrow> (Acquired, Live self)
   | Live l \<Rightarrow> (Refused, Live l) | OtherFile \<Rightarrow> (Refused, OtherFile))
   \<and> acquireCwdLock Posix other quiet_round (snd (acquireCwdLock Posix self quiet_round Free)) = (Refused, Live self)
   \<and> acquireCwdLock Posix other quiet_round
       (snd (release \<lparr>hl_self = self, hl_released = False\<rparr> (snd (acquireCwdLock Posix self quiet_round Free))))
     = (Acquired, Live other)
   \<and> release (fst (release h q)) (snd (release h q)) = release h q"
  by (simp add: acquireCwdLock_def quiet_round_def usesNamedPipe_def Let_def release_def split: path_state.split)

text \<open>
  Agents of one folder get different rooms: two custom names, or two folders, yield
  different digest inputs, so their room identifiers differ wherever the truncated
  digest tells those inputs apart; an agent without a custom name keeps the
  folder's identifier.
\<close>
lemma room_ids_distinct:
  assumes "CHR 0x00 \<notin> set (real_target real cwd)" "CHR 0x00 \<notin> set (real_target real cwd')"
    and "n \<noteq> []" "n \<noteq> defaultAgentName cwd" "n' \<noteq> []" "n' \<noteq> defaultAgentName cwd'"
    and "inj_on (\<lambda>x. take 12 (digest x)) {real_target real cwd @ CHR 0x00 # n, real_target real cwd' @ CHR 0x00 # n'}"
  shows "roomIdFor digest real cwd (Some n) = roomIdFor digest real cwd' (Some n')
      \<longleftrightarrow> real_target real cwd = real_target real cwd' \<and> n = n'"
proof -
  have "real_target real cwd @ CHR 0x00 # n = real_target real cwd' @ CHR 0x00 # n'
      \<longleftrightarrow> real_target real cwd = real_target real cwd' \<and> n = n'"
    using assms(1,2) by (rule append_first_inject)
  then show ?thesis using assms by (auto simp: roomIdFor_def dest: inj_onD)
qed

lemma room_ids_distinct_example:
  "roomIdFor rev (\<lambda>p. Some p) ''/p'' (Some ''al'') \<noteq> roomIdFor rev (\<lambda>p. Some p) ''/p'' (Some ''bo'')"
  using room_ids_distinct [of "\<lambda>p. Some p" "''/p''" "''/p''" "''al''" "''bo''" rev]
  by (simp add: real_target_def defaultAgentName_def basename_def last_segment_def)

end
