(* ===== verification/SessionPeer.thy ===== *)
theory SessionPeer imports Envelope
begin

text \<open>
  \<open>session/peer.ts\<close>: one participant of the local network. It keeps its connection to
  the broker, the requests that wait for a reply, the sends that wait for the
  broker's acknowledgement, and the registration in progress.

  A promise is a ticket, counted by \<open>sp_tickets\<close>; \<open>sp_settled\<close> lists the calls that
  settle one, with their outcome, in order. Registration promises are kept apart
  in \<open>sp_registered\<close>. What the broker receives is \<open>sp_out\<close>, tagged with the socket.
  Everything asynchronous is an operation of its own: the timers, the result of an
  election, the close of a socket, the end of a teardown.
\<close>

subsection \<open>Data\<close>

record ack_result =
  ar_status :: string
  ar_id :: string
  ar_target :: js

datatype outcome =
    Reply envelope
  | RequestTimeout
  | NotConnected
  | PeerLeaving
  | AckOutcome ack_result

datatype reg_outcome = Registered string | RegisterTimeout | NotRegisterAck

text \<open>Why a join runs: the first start, a rename, or the recovery after the leader died.\<close>

datatype join_reason = Starting | Renaming | Failover

datatype join_result = Leads nat | Follows nat | NoElection

record session_peer =
  sp_name :: string
  sp_cwd :: "string option"
  sp_assigned_name :: string
  sp_assigned_address :: string
  sp_leader :: bool
  sp_broker :: bool
  sp_socket :: "nat option"
  sp_destroyed :: "nat list"
  sp_buf :: string
  sp_pending :: "(string, nat) omap"
  sp_ack_pending :: "(string, nat) omap"
  sp_handlers :: "nat list"
  sp_reconnect_handlers :: "nat list"
  sp_left :: bool
  sp_pre_ack :: "(nat \<times> join_reason) option"
  sp_gen :: "nat \<Rightarrow> string"
  sp_ids :: nat
  sp_tickets :: nat
  sp_reg_tickets :: nat
  sp_settled :: "(nat \<times> outcome) list"
  sp_registered :: "(nat \<times> reg_outcome) list"
  sp_out :: "(nat \<times> string) list"
  sp_delivered :: "(nat \<times> envelope) list"
  sp_reconnects :: "nat list"

definition new_peer :: "string \<Rightarrow> string option \<Rightarrow> (nat \<Rightarrow> string) \<Rightarrow> session_peer" where
  "new_peer name cwd gen = \<lparr>sp_name = name, sp_cwd = cwd, sp_assigned_name = name, sp_assigned_address = name,
     sp_leader = False, sp_broker = False, sp_socket = None, sp_destroyed = [], sp_buf = [],
     sp_pending = [], sp_ack_pending = [], sp_handlers = [], sp_reconnect_handlers = [], sp_left = False,
     sp_pre_ack = None, sp_gen = gen, sp_ids = 0, sp_tickets = 0, sp_reg_tickets = 0, sp_settled = [],
     sp_registered = [], sp_out = [], sp_delivered = [], sp_reconnects = []\<rparr>"

definition onMessage :: "nat \<Rightarrow> session_peer \<Rightarrow> session_peer" where
  "onMessage h sp = sp\<lparr>sp_handlers := oset_add (sp_handlers sp) h\<rparr>"

definition offMessage :: "nat \<Rightarrow> session_peer \<Rightarrow> session_peer" where
  "offMessage h sp = sp\<lparr>sp_handlers := removeAll h (sp_handlers sp)\<rparr>"

definition onReconnect :: "nat \<Rightarrow> session_peer \<Rightarrow> session_peer" where
  "onReconnect h sp = sp\<lparr>sp_reconnect_handlers := oset_add (sp_reconnect_handlers sp) h\<rparr>"

subsection \<open>Sending\<close>

definition settle :: "nat \<Rightarrow> outcome \<Rightarrow> session_peer \<Rightarrow> session_peer" where
  "settle t oc sp = sp\<lparr>sp_settled := sp_settled sp @ [(t, oc)]\<rparr>"

text \<open>\<open>_writeEnvelope\<close>: \<open>None\<close> when it throws.\<close>

definition writeEnvelope :: "envelope \<Rightarrow> session_peer \<Rightarrow> session_peer option" where
  "writeEnvelope env sp = (case sp_socket sp of
     None \<Rightarrow> None
   | Some s \<Rightarrow> (if s \<in> set (sp_destroyed sp) then None
               else Some (sp\<lparr>sp_out := sp_out sp @ [(s, serialize env)]\<rparr>)))"

definition next_envelope :: "recipients \<Rightarrow> js \<Rightarrow> string option \<Rightarrow> session_peer \<Rightarrow> envelope" where
  "next_envelope to body re sp = envelope_with (sp_gen sp (sp_ids sp)) (sp_assigned_name sp) to body re"

definition take_id :: "session_peer \<Rightarrow> session_peer" where
  "take_id sp = sp\<lparr>sp_ids := Suc (sp_ids sp)\<rparr>"

text \<open>\<open>send\<close> and whether it threw.\<close>

definition send :: "recipients \<Rightarrow> js \<Rightarrow> string option \<Rightarrow> session_peer \<Rightarrow> bool \<times> session_peer" where
  "send to body re sp = (case writeEnvelope (next_envelope to body re sp) (take_id sp) of
     Some sp' \<Rightarrow> (True, sp')
   | None \<Rightarrow> (False, take_id sp))"

definition timed_out :: "string \<Rightarrow> outcome" where
  "timed_out i = AckOutcome \<lparr>ar_status = ''timeout'', ar_id = i, ar_target = Undef\<rparr>"

definition sendWithAck :: "string \<Rightarrow> js \<Rightarrow> string option \<Rightarrow> session_peer \<Rightarrow> nat \<times> session_peer" where
  "sendWithAck to body re sp =
     (let env = next_envelope (One to) body re sp; t = sp_tickets sp;
          sp1 = (take_id sp)\<lparr>sp_tickets := Suc t, sp_ack_pending := omap_put (sp_ack_pending sp) (env_id env) t\<rparr>
      in (t, case writeEnvelope env sp1 of
            Some sp2 \<Rightarrow> sp2
          | None \<Rightarrow> settle t (timed_out (env_id env))
                (sp1\<lparr>sp_ack_pending := omap_del (sp_ack_pending sp1) (env_id env)\<rparr>)))"

definition request :: "string \<Rightarrow> js \<Rightarrow> session_peer \<Rightarrow> nat \<times> session_peer" where
  "request to body sp =
     (let env = next_envelope (One to) body None sp; t = sp_tickets sp;
          sp1 = (take_id sp)\<lparr>sp_tickets := Suc t, sp_pending := omap_put (sp_pending sp) (env_id env) t\<rparr>
      in (t, case writeEnvelope env sp1 of
            Some sp2 \<Rightarrow> sp2
          | None \<Rightarrow> settle t NotConnected (sp1\<lparr>sp_pending := omap_del (sp_pending sp1) (env_id env)\<rparr>)))"

text \<open>The two timers; a timer that was cleared does not fire.\<close>

definition request_timeout :: "string \<Rightarrow> session_peer \<Rightarrow> session_peer" where
  "request_timeout i sp = (case map_of (sp_pending sp) i of
     None \<Rightarrow> sp
   | Some t \<Rightarrow> settle t RequestTimeout (sp\<lparr>sp_pending := omap_del (sp_pending sp) i\<rparr>))"

definition ack_timeout :: "string \<Rightarrow> session_peer \<Rightarrow> session_peer" where
  "ack_timeout i sp = (case map_of (sp_ack_pending sp) i of
     None \<Rightarrow> sp
   | Some t \<Rightarrow> settle t (timed_out i) (sp\<lparr>sp_ack_pending := omap_del (sp_ack_pending sp) i\<rparr>))"

subsection \<open>Receiving\<close>

definition settle_registration :: "nat \<Rightarrow> reg_outcome \<Rightarrow> session_peer \<Rightarrow> session_peer" where
  "settle_registration t oc sp =
     (if t \<in> fst ` set (sp_registered sp) then sp else sp\<lparr>sp_registered := sp_registered sp @ [(t, oc)]\<rparr>)"

text \<open>The names an acknowledgement assigns, either of which stands in for the other.\<close>

definition assigned_names :: "js \<Rightarrow> (string \<times> string) option" where
  "assigned_names ack =
     (let n = jfield ack ''name_assigned''; a = jfield ack ''address_assigned'';
          name = (if is_string n then n else a); address = (if is_string a then a else n)
      in if jfield ack ''type'' = Str ''register_ack'' then
           (case (as_str name, as_str address) of (Some x, Some y) \<Rightarrow> Some (x, y) | _ \<Rightarrow> None)
         else None)"

definition preAck :: "nat \<Rightarrow> join_reason \<Rightarrow> js \<Rightarrow> session_peer \<Rightarrow> session_peer" where
  "preAck t reason ack sp = (case assigned_names ack of
     Some (name, address) \<Rightarrow>
       (let first = t \<notin> fst ` set (sp_registered sp);
            sp1 = settle_registration t (Registered name)
              (sp\<lparr>sp_assigned_name := name, sp_assigned_address := address, sp_pre_ack := None\<rparr>)
        in if reason = Failover \<and> first
           then sp1\<lparr>sp_reconnects := sp_reconnects sp1 @ sp_reconnect_handlers sp1\<rparr> else sp1)
   | None \<Rightarrow> settle_registration t NotRegisterAck sp)"

definition is_broker_sender :: "string \<Rightarrow> bool" where
  "is_broker_sender from \<longleftrightarrow> from = ''broker'' \<or> ends_with from '':broker''"

definition is_ack :: "envelope \<Rightarrow> bool" where
  "is_ack env \<longleftrightarrow> env_re env \<noteq> None \<and> env_re env \<noteq> Some [] \<and> is_broker_sender (env_from env)
     \<and> jfield (env_body env) ''type'' = Str ''ack'' \<and> is_string (jfield (env_body env) ''status'')"

definition dispatch :: "envelope \<Rightarrow> session_peer \<Rightarrow> session_peer" where
  "dispatch env sp = sp\<lparr>sp_delivered := sp_delivered sp @ map (\<lambda>h. (h, env)) (sp_handlers sp)\<rparr>"

definition resolve_ack :: "envelope \<Rightarrow> string \<Rightarrow> session_peer \<Rightarrow> session_peer" where
  "resolve_ack env re sp = (case map_of (sp_ack_pending sp) re of
     None \<Rightarrow> sp
   | Some t \<Rightarrow> settle t (AckOutcome \<lparr>ar_status = str_of (jfield (env_body env) ''status''), ar_id = re,
         ar_target = jfield (env_body env) ''target''\<rparr>)
       (sp\<lparr>sp_ack_pending := omap_del (sp_ack_pending sp) re\<rparr>))"

definition handleEnvelope :: "envelope \<Rightarrow> session_peer \<Rightarrow> session_peer" where
  "handleEnvelope env sp =
     (if is_ack env then resolve_ack env (the (env_re env)) sp
      else case env_re env of
        None \<Rightarrow> dispatch env sp
      | Some re \<Rightarrow>
          (if re = [] then dispatch env sp
           else case map_of (sp_pending sp) re of
             Some t \<Rightarrow> settle t (Reply env) (sp\<lparr>sp_pending := omap_del (sp_pending sp) re\<rparr>)
           | None \<Rightarrow> dispatch env sp))"

definition handlePeerLine :: "string \<Rightarrow> session_peer \<Rightarrow> session_peer" where
  "handlePeerLine line sp = (case sp_pre_ack sp of
     Some (t, reason) \<Rightarrow> (case json_parse line of None \<Rightarrow> sp | Some v \<Rightarrow> preAck t reason v sp)
   | None \<Rightarrow> (case parse line of Inl _ \<Rightarrow> sp | Inr env \<Rightarrow> handleEnvelope env sp))"

definition onPeerData :: "string \<Rightarrow> session_peer \<Rightarrow> session_peer" where
  "onPeerData chunk sp =
     (let (lines, rest) = feed (sp_buf sp) chunk in fold handlePeerLine lines (sp\<lparr>sp_buf := rest\<rparr>))"

subsection \<open>Joining, failing over, leaving\<close>

definition register_json :: "session_peer \<Rightarrow> js" where
  "register_json sp = Obj ([(''type'', Str ''register''), (''name'', Str (sp_name sp))] @
     (case sp_cwd sp of Some c \<Rightarrow> [(''cwd'', Str c)] | None \<Rightarrow> []))"

definition registerOver :: "nat \<Rightarrow> join_reason \<Rightarrow> session_peer \<Rightarrow> session_peer" where
  "registerOver s reason sp =
     sp\<lparr>sp_pre_ack := Some (sp_reg_tickets sp, reason), sp_reg_tickets := Suc (sp_reg_tickets sp),
       sp_out := sp_out sp @ [(s, stringify (register_json sp) @ [nl_char])]\<rparr>"

definition register_timeout :: "nat \<Rightarrow> session_peer \<Rightarrow> session_peer" where
  "register_timeout t sp = settle_registration t RegisterTimeout sp"

definition wireSocket :: "nat \<Rightarrow> session_peer \<Rightarrow> session_peer" where
  "wireSocket s sp = sp\<lparr>sp_socket := Some s, sp_buf := []\<rparr>"

text \<open>\<open>_joinOrLead\<close> once the election has answered; a leader connects to itself.\<close>

definition join :: "join_reason \<Rightarrow> join_result \<Rightarrow> session_peer \<Rightarrow> session_peer" where
  "join reason res sp = (case res of
     NoElection \<Rightarrow> sp
   | Leads s \<Rightarrow> registerOver s reason (wireSocket s (sp\<lparr>sp_leader := True, sp_broker := True\<rparr>))
   | Follows s \<Rightarrow> registerOver s reason (wireSocket s (sp\<lparr>sp_leader := False\<rparr>)))"

text \<open>\<open>_onSocketClose\<close>: whether a recovery is due, before and after the 100 ms pause.\<close>

definition failover_due :: "nat \<Rightarrow> session_peer \<Rightarrow> bool" where
  "failover_due s sp \<longleftrightarrow> \<not> sp_left sp \<and> sp_socket sp = Some s"

definition onSocketClose :: "nat \<Rightarrow> join_result \<Rightarrow> session_peer \<Rightarrow> session_peer" where
  "onSocketClose s res sp = (if failover_due s sp then join Failover res sp else sp)"

definition teardown_socket :: "session_peer \<Rightarrow> session_peer" where
  "teardown_socket sp = (case sp_socket sp of
     None \<Rightarrow> sp
   | Some s \<Rightarrow> sp\<lparr>sp_destroyed := oset_add (sp_destroyed sp) s, sp_socket := None\<rparr>)"

definition teardown_finish :: "session_peer \<Rightarrow> session_peer" where
  "teardown_finish sp =
     sp\<lparr>sp_broker := False,
       sp_settled := sp_settled sp @ map (\<lambda>p. (snd p, PeerLeaving)) (sp_pending sp)
         @ map (\<lambda>p. (snd p, timed_out [])) (sp_ack_pending sp),
       sp_pending := [], sp_ack_pending := []\<rparr>"

definition leave :: "session_peer \<Rightarrow> session_peer" where
  "leave sp = teardown_socket (sp\<lparr>sp_left := True\<rparr>)"

text \<open>\<open>rename\<close> after its teardown; the join that follows is \<open>join Renaming\<close>.\<close>

definition rename_to :: "string \<Rightarrow> session_peer \<Rightarrow> session_peer" where
  "rename_to n sp = sp\<lparr>sp_name := n, sp_assigned_name := n\<rparr>"

subsection \<open>Executions\<close>

datatype peer_event =
    Send recipients js "string option"
  | SendWithAck string js "string option"
  | Request string js
  | RequestTimer string
  | AckTimer string
  | Chunk string
  | Joined join_reason join_result
  | SocketClosed nat join_result
  | RegisterTimer nat
  | Leave
  | TeardownSocket
  | TeardownDone
  | RenameTo string
  | AddHandler nat
  | RemoveHandler nat
  | AddReconnect nat

fun peer_step :: "peer_event \<Rightarrow> session_peer \<Rightarrow> session_peer" where
  "peer_step (Send to body re) sp = snd (send to body re sp)"
| "peer_step (SendWithAck to body re) sp = snd (sendWithAck to body re sp)"
| "peer_step (Request to body) sp = snd (request to body sp)"
| "peer_step (RequestTimer i) sp = request_timeout i sp"
| "peer_step (AckTimer i) sp = ack_timeout i sp"
| "peer_step (Chunk c) sp = onPeerData c sp"
| "peer_step (Joined reason res) sp = join reason res sp"
| "peer_step (SocketClosed s res) sp = onSocketClose s res sp"
| "peer_step (RegisterTimer t) sp = register_timeout t sp"
| "peer_step Leave sp = leave sp"
| "peer_step TeardownSocket sp = teardown_socket sp"
| "peer_step TeardownDone sp = teardown_finish sp"
| "peer_step (RenameTo n) sp = rename_to n sp"
| "peer_step (AddHandler h) sp = onMessage h sp"
| "peer_step (RemoveHandler h) sp = offMessage h sp"
| "peer_step (AddReconnect h) sp = onReconnect h sp"

inductive peer_run :: "session_peer \<Rightarrow> session_peer \<Rightarrow> bool" for sp0 where
  created: "peer_run sp0 sp0"
| happens: "peer_run sp0 sp \<Longrightarrow> peer_run sp0 (peer_step e sp)"

subsection \<open>Every promise is waiting or settled, once\<close>

text \<open>
  The tickets issued so far are exactly those of the waiting requests, of the
  waiting acknowledgements and of the settled promises, each counted once.
\<close>

definition tally :: "session_peer \<Rightarrow> nat multiset" where
  "tally sp = mset (map snd (sp_pending sp)) + mset (map snd (sp_ack_pending sp)) + mset (map fst (sp_settled sp))"

definition wf_session_peer :: "session_peer \<Rightarrow> bool" where
  "wf_session_peer sp \<longleftrightarrow> omap_wf (sp_pending sp) \<and> omap_wf (sp_ack_pending sp)
     \<and> fst ` set (sp_pending sp) \<union> fst ` set (sp_ack_pending sp) \<subseteq> sp_gen sp ` {..<sp_ids sp}
     \<and> tally sp = mset [0..<sp_tickets sp]"

lemma mset_omap_del:
  "omap_wf m \<Longrightarrow> map_of m k = Some t \<Longrightarrow>
    image_mset snd (mset m) = add_mset t (image_mset snd (mset (omap_del m k)))"
proof (induction m)
  case (Cons p m)
  then show ?case by (cases p) (auto simp: AList.delete_id split: if_splits)
qed simp

lemma mset_omap_put_new:
  "k \<notin> fst ` set m \<Longrightarrow> image_mset snd (mset (omap_put m k v)) = add_mset v (image_mset snd (mset m))"
  by (simp add: omap_put_new)

lemma wf_new_peer [wf_intros]: "wf_session_peer (new_peer name cwd gen)"
  by (simp add: wf_session_peer_def new_peer_def tally_def)

text \<open>Steps that touch neither the waiting tables nor the settled list.\<close>

definition tables :: "session_peer \<Rightarrow> (string, nat) omap \<times> (string, nat) omap \<times> (nat \<times> outcome) list \<times> nat \<times> (nat \<Rightarrow> string)" where
  "tables sp = (sp_pending sp, sp_ack_pending sp, sp_settled sp, sp_tickets sp, sp_gen sp)"

lemma wf_tables:
  "tables sp' = tables sp \<Longrightarrow> sp_ids sp \<le> sp_ids sp' \<Longrightarrow> wf_session_peer sp \<Longrightarrow> wf_session_peer sp'"
proof -
  assume eq: "tables sp' = tables sp" and le: "sp_ids sp \<le> sp_ids sp'" and wf: "wf_session_peer sp"
  have "sp_gen sp ` {..<sp_ids sp} \<subseteq> sp_gen sp ` {..<sp_ids sp'}" using le by auto
  with wf have keys: "fst ` set (sp_pending sp) \<union> fst ` set (sp_ack_pending sp) \<subseteq> sp_gen sp ` {..<sp_ids sp'}"
    unfolding wf_session_peer_def by (meson subset_trans)
  from eq have "sp_pending sp' = sp_pending sp" "sp_ack_pending sp' = sp_ack_pending sp"
    "sp_settled sp' = sp_settled sp" "sp_tickets sp' = sp_tickets sp" "sp_gen sp' = sp_gen sp"
    by (simp_all add: tables_def)
  with wf keys show ?thesis unfolding wf_session_peer_def tally_def by simp
qed

lemma wf_settle_pending:
  assumes "wf_session_peer sp" "map_of (sp_pending sp) i = Some t"
  shows "wf_session_peer (settle t oc (sp\<lparr>sp_pending := omap_del (sp_pending sp) i\<rparr>))"
  using assms mset_omap_del [of "sp_pending sp" i t]
  by (auto simp: wf_session_peer_def tally_def settle_def)

lemma wf_settle_ack:
  assumes "wf_session_peer sp" "map_of (sp_ack_pending sp) i = Some t"
  shows "wf_session_peer (settle t oc (sp\<lparr>sp_ack_pending := omap_del (sp_ack_pending sp) i\<rparr>))"
  using assms mset_omap_del [of "sp_ack_pending sp" i t]
  by (auto simp: wf_session_peer_def tally_def settle_def)

lemma tables_writeEnvelope:
  "writeEnvelope env sp = Some sp' \<Longrightarrow> tables sp' = tables sp \<and> sp_ids sp' = sp_ids sp"
  by (auto simp: writeEnvelope_def tables_def split: option.splits if_splits)

lemma wf_take_id: "wf_session_peer sp \<Longrightarrow> wf_session_peer (take_id sp)"
  by (rule wf_tables) (simp_all add: take_id_def tables_def)

text \<open>A fresh identifier is not waiting yet.\<close>

lemma fresh_not_waiting:
  assumes "wf_session_peer sp" "inj (sp_gen sp)"
  shows "sp_gen sp (sp_ids sp) \<notin> fst ` set (sp_pending sp)"
    and "sp_gen sp (sp_ids sp) \<notin> fst ` set (sp_ack_pending sp)"
proof -
  have "sp_gen sp (sp_ids sp) \<notin> sp_gen sp ` {..<sp_ids sp}"
    using assms(2) by (auto dest: injD)
  then show "sp_gen sp (sp_ids sp) \<notin> fst ` set (sp_pending sp)"
    "sp_gen sp (sp_ids sp) \<notin> fst ` set (sp_ack_pending sp)"
    using assms(1) by (auto simp: wf_session_peer_def)
qed

lemma wf_issue_pending:
  assumes "wf_session_peer sp" "inj (sp_gen sp)"
  shows "wf_session_peer ((take_id sp)\<lparr>sp_tickets := Suc (sp_tickets sp),
    sp_pending := omap_put (sp_pending sp) (sp_gen sp (sp_ids sp)) (sp_tickets sp)\<rparr>)"
  using assms fresh_not_waiting [OF assms] mset_omap_put_new [OF fresh_not_waiting(1) [OF assms]]
    mset_omap_put_new [OF fresh_not_waiting(2) [OF assms]]
  by (auto simp: wf_session_peer_def tally_def take_id_def lessThan_Suc)

lemma wf_issue_ack:
  assumes "wf_session_peer sp" "inj (sp_gen sp)"
  shows "wf_session_peer ((take_id sp)\<lparr>sp_tickets := Suc (sp_tickets sp),
    sp_ack_pending := omap_put (sp_ack_pending sp) (sp_gen sp (sp_ids sp)) (sp_tickets sp)\<rparr>)"
  using assms fresh_not_waiting [OF assms] mset_omap_put_new [OF fresh_not_waiting(1) [OF assms]]
    mset_omap_put_new [OF fresh_not_waiting(2) [OF assms]]
  by (auto simp: wf_session_peer_def tally_def take_id_def lessThan_Suc)

lemma wf_written: "writeEnvelope env sp = Some sp' \<Longrightarrow> wf_session_peer sp \<Longrightarrow> wf_session_peer sp'"
  using tables_writeEnvelope [of env sp sp'] wf_tables [of sp' sp] by simp

lemma wf_sendWithAck [wf_intros]:
  assumes "wf_session_peer sp" "inj (sp_gen sp)"
  shows "wf_session_peer (snd (sendWithAck to body re sp))"
proof -
  let ?sp1 = "(take_id sp)\<lparr>sp_tickets := Suc (sp_tickets sp),
    sp_ack_pending := omap_put (sp_ack_pending sp) (sp_gen sp (sp_ids sp)) (sp_tickets sp)\<rparr>"
  have wf1: "wf_session_peer ?sp1" using assms by (rule wf_issue_ack)
  have i: "env_id (next_envelope (One to) body re sp) = sp_gen sp (sp_ids sp)"
    by (simp add: next_envelope_def envelope_with_def)
  have "wf_session_peer (settle (sp_tickets sp) oc (?sp1\<lparr>sp_ack_pending := omap_del (sp_ack_pending ?sp1) (sp_gen sp (sp_ids sp))\<rparr>))" for oc
    by (rule wf_settle_ack [OF wf1]) simp
  then show ?thesis
    using wf_written [OF _ wf1] by (simp add: sendWithAck_def Let_def i split: option.split)
qed

lemma wf_request [wf_intros]:
  assumes "wf_session_peer sp" "inj (sp_gen sp)"
  shows "wf_session_peer (snd (request to body sp))"
proof -
  let ?sp1 = "(take_id sp)\<lparr>sp_tickets := Suc (sp_tickets sp),
    sp_pending := omap_put (sp_pending sp) (sp_gen sp (sp_ids sp)) (sp_tickets sp)\<rparr>"
  have wf1: "wf_session_peer ?sp1" using assms by (rule wf_issue_pending)
  have i: "env_id (next_envelope (One to) body None sp) = sp_gen sp (sp_ids sp)"
    by (simp add: next_envelope_def envelope_with_def)
  have "wf_session_peer (settle (sp_tickets sp) oc (?sp1\<lparr>sp_pending := omap_del (sp_pending ?sp1) (sp_gen sp (sp_ids sp))\<rparr>))" for oc
    by (rule wf_settle_pending [OF wf1]) simp
  then show ?thesis
    using wf_written [OF _ wf1] by (simp add: request_def Let_def i split: option.split)
qed

lemma wf_send [wf_intros]: "wf_session_peer sp \<Longrightarrow> wf_session_peer (snd (send to body re sp))"
  using wf_take_id [of sp] wf_written [of _ "take_id sp"]
  by (simp add: send_def split: option.split)

lemma wf_request_timeout [wf_intros]: "wf_session_peer sp \<Longrightarrow> wf_session_peer (request_timeout i sp)"
  by (auto simp: request_timeout_def intro: wf_settle_pending split: option.split)

lemma wf_ack_timeout [wf_intros]: "wf_session_peer sp \<Longrightarrow> wf_session_peer (ack_timeout i sp)"
  by (auto simp: ack_timeout_def intro: wf_settle_ack split: option.split)

lemma tables_settle_registration [simp]:
  "tables (settle_registration t oc sp) = tables sp" "sp_ids (settle_registration t oc sp) = sp_ids sp"
  by (simp_all add: settle_registration_def tables_def)

lemma tables_preAck [simp]: "tables (preAck t reason v sp) = tables sp \<and> sp_ids (preAck t reason v sp) = sp_ids sp"
proof -
  have "tables (settle_registration t oc sp\<lparr>sp_reconnects := rs\<rparr>) = tables (settle_registration t oc sp)" for oc rs sp
    by (simp add: tables_def)
  moreover have "tables (sp\<lparr>sp_assigned_name := n, sp_assigned_address := a, sp_pre_ack := None\<rparr>) = tables sp" for n a
    by (simp add: tables_def)
  ultimately show ?thesis by (simp add: preAck_def Let_def split: option.split prod.split)
qed

lemma wf_handleEnvelope: "wf_session_peer sp \<Longrightarrow> wf_session_peer (handleEnvelope env sp)"
proof -
  assume wf: "wf_session_peer sp"
  have "wf_session_peer (dispatch env sp)"
    by (rule wf_tables [OF _ _ wf]) (simp_all add: dispatch_def tables_def)
  with wf show ?thesis
    by (auto simp: handleEnvelope_def resolve_ack_def intro: wf_settle_pending wf_settle_ack split: option.split)
qed

lemma wf_handlePeerLine: "wf_session_peer sp \<Longrightarrow> wf_session_peer (handlePeerLine line sp)"
proof -
  assume wf: "wf_session_peer sp"
  have "wf_session_peer (preAck t reason v sp)" for t reason v
    by (rule wf_tables [OF _ _ wf]) simp_all
  with wf show ?thesis
    by (auto simp: handlePeerLine_def intro: wf_handleEnvelope split: option.split sum.split)
qed

lemma wf_onPeerData [wf_intros]:
  assumes "wf_session_peer sp"
  shows "wf_session_peer (onPeerData chunk sp)"
proof -
  have "wf_session_peer (fold handlePeerLine ls sp')" if "wf_session_peer sp'" for ls sp'
    using that by (induction ls arbitrary: sp') (simp_all add: wf_handlePeerLine)
  moreover have "wf_session_peer (sp\<lparr>sp_buf := rest\<rparr>)" for rest
    by (rule wf_tables [OF _ _ assms]) (simp_all add: tables_def)
  ultimately show ?thesis by (simp add: onPeerData_def Let_def split_def)
qed

lemma wf_teardown_finish [wf_intros]: "wf_session_peer sp \<Longrightarrow> wf_session_peer (teardown_finish sp)"
  by (simp add: wf_session_peer_def teardown_finish_def tally_def comp_def ac_simps)

lemma tables_join: "tables (join reason res sp) = tables sp \<and> sp_ids (join reason res sp) = sp_ids sp"
  by (cases res) (simp_all add: join_def registerOver_def wireSocket_def tables_def)

lemma wf_join [wf_intros]: "wf_session_peer sp \<Longrightarrow> wf_session_peer (join reason res sp)"
  by (rule wf_tables) (simp_all add: tables_join)

lemma sp_gen_step: "sp_gen (peer_step e sp) = sp_gen sp"
proof -
  have h: "sp_gen (handlePeerLine l sp) = sp_gen sp" for l sp
    by (simp add: handlePeerLine_def preAck_def settle_registration_def handleEnvelope_def resolve_ack_def
        dispatch_def settle_def Let_def split: option.split sum.split prod.split)
  have "sp_gen (fold handlePeerLine ls sp) = sp_gen sp" for ls sp
    by (induction ls arbitrary: sp) (simp_all add: h)
  then show ?thesis
    by (cases e) (auto simp: send_def sendWithAck_def request_def take_id_def writeEnvelope_def settle_def Let_def
        request_timeout_def ack_timeout_def onPeerData_def join_def registerOver_def wireSocket_def onSocketClose_def
        register_timeout_def settle_registration_def leave_def teardown_socket_def teardown_finish_def rename_to_def
        onMessage_def offMessage_def onReconnect_def split: option.split join_result.split prod.split)
qed

lemma wf_peer_step:
  assumes "wf_session_peer sp" "inj (sp_gen sp)"
  shows "wf_session_peer (peer_step e sp)"
proof (cases e)
  case (SocketClosed s res)
  with assms show ?thesis by (simp add: onSocketClose_def wf_join)
next
  case Leave
  show ?thesis
    unfolding Leave peer_step.simps
    by (rule wf_tables [OF _ _ assms(1)]) (auto simp: leave_def teardown_socket_def tables_def split: option.split)
next
  case TeardownSocket
  show ?thesis
    unfolding TeardownSocket peer_step.simps
    by (rule wf_tables [OF _ _ assms(1)]) (auto simp: teardown_socket_def tables_def split: option.split)
next
  case (RegisterTimer t)
  show ?thesis
    unfolding RegisterTimer peer_step.simps
    by (rule wf_tables [OF _ _ assms(1)]) (simp_all add: register_timeout_def)
next
  case (RenameTo n)
  show ?thesis
    unfolding RenameTo peer_step.simps
    by (rule wf_tables [OF _ _ assms(1)]) (simp_all add: rename_to_def tables_def)
next
  case (AddHandler h)
  show ?thesis
    unfolding AddHandler peer_step.simps
    by (rule wf_tables [OF _ _ assms(1)]) (simp_all add: onMessage_def tables_def)
next
  case (RemoveHandler h)
  show ?thesis
    unfolding RemoveHandler peer_step.simps
    by (rule wf_tables [OF _ _ assms(1)]) (simp_all add: offMessage_def tables_def)
next
  case (AddReconnect h)
  show ?thesis
    unfolding AddReconnect peer_step.simps
    by (rule wf_tables [OF _ _ assms(1)]) (simp_all add: onReconnect_def tables_def)
qed (use assms in \<open>simp_all add: wf_intros\<close>)

lemma peer_run_wf:
  "peer_run sp0 sp \<Longrightarrow> wf_session_peer sp0 \<Longrightarrow> inj (sp_gen sp0) \<Longrightarrow> wf_session_peer sp \<and> sp_gen sp = sp_gen sp0"
  by (induction rule: peer_run.induct) (simp_all add: wf_peer_step sp_gen_step)

subsection \<open>Properties\<close>

lemma tickets_accounted:
  assumes "wf_session_peer sp"
  shows "distinct (map snd (sp_pending sp) @ map snd (sp_ack_pending sp) @ map fst (sp_settled sp))"
    "set (map snd (sp_pending sp) @ map snd (sp_ack_pending sp) @ map fst (sp_settled sp)) = {..<sp_tickets sp}"
proof -
  let ?ts = "map snd (sp_pending sp) @ map snd (sp_ack_pending sp) @ map fst (sp_settled sp)"
  have m: "mset ?ts = mset [0..<sp_tickets sp]"
    using assms by (simp add: wf_session_peer_def tally_def add.assoc)
  show "distinct ?ts" using mset_eq_imp_distinct_iff [OF m] by simp
  show "set ?ts = {..<sp_tickets sp}" using mset_eq_setD [OF m] by (simp add: lessThan_atLeast0)
qed

text \<open>
  C7. No promise is lost and none is settled twice: in every execution, with fresh
  identifiers, each request and each acknowledged send issued so far is either
  still waiting or has been settled exactly once, never both.
\<close>
theorem promises_settle_once:
  assumes "peer_run (new_peer name cwd gen) sp" and "inj gen"
  shows "distinct (map fst (sp_settled sp))
   \<and> fst ` set (sp_settled sp) \<union> snd ` set (sp_pending sp) \<union> snd ` set (sp_ack_pending sp) = {..<sp_tickets sp}
   \<and> fst ` set (sp_settled sp) \<inter> (snd ` set (sp_pending sp) \<union> snd ` set (sp_ack_pending sp)) = {}"
proof -
  have "wf_session_peer sp"
    using peer_run_wf [OF assms(1) wf_new_peer] assms(2) by (simp add: new_peer_def)
  from tickets_accounted [OF this] show ?thesis by auto
qed

definition sample_id :: "nat \<Rightarrow> string" where
  "sample_id n = replicate (Suc n) CHR ''i''"

lemma inj_sample_id: "inj sample_id"
proof (rule injI)
  fix m n assume "sample_id m = sample_id n"
  then have "length (sample_id m) = length (sample_id n)" by simp
  then show "m = n" by (simp add: sample_id_def)
qed

definition sample_peer :: session_peer where
  "sample_peer = new_peer ''al'' (Some ''/p'') sample_id"

theorem promises_settle_once_witness:
  "distinct (map fst (sp_settled (peer_step (RequestTimer ''i'') (peer_step (Request ''bo'' Null)
      (peer_step (Joined Starting (Follows 5)) sample_peer)))))"
proof -
  have "peer_run (new_peer ''al'' (Some ''/p'') sample_id) (peer_step (RequestTimer ''i'') (peer_step (Request ''bo'' Null)
      (peer_step (Joined Starting (Follows 5)) sample_peer)))"
    unfolding sample_peer_def by (intro peer_run.intros)
  from promises_settle_once [OF this inj_sample_id] show ?thesis by blast
qed

text \<open>
  A broker acknowledgement is never mistaken for a reply or for mail: it reaches no
  handler and resolves no request; it settles the send that waits for it, if one
  does, with its status and target.
\<close>
lemma acks_are_swallowed:
  assumes "is_ack env" and "env_re env = Some re"
  shows "sp_delivered (handleEnvelope env sp) = sp_delivered sp \<and> sp_pending (handleEnvelope env sp) = sp_pending sp
   \<and> sp_settled (handleEnvelope env sp) = sp_settled sp @ (case map_of (sp_ack_pending sp) re of
        None \<Rightarrow> []
      | Some t \<Rightarrow> [(t, AckOutcome \<lparr>ar_status = str_of (jfield (env_body env) ''status''), ar_id = re,
          ar_target = jfield (env_body env) ''target''\<rparr>)])
   \<and> map_of (sp_ack_pending (handleEnvelope env sp)) re = None"
  using assms by (simp add: handleEnvelope_def resolve_ack_def settle_def split: option.split)

definition sample_ack :: envelope where
  "sample_ack = \<lparr>env_from = ''wk:broker'', env_to = One ''/p@al'', env_id = ''k'', env_re = Some ''i'',
     env_body = Obj [(''type'', Str ''ack''), (''status'', Str ''received''), (''target'', Str ''bo'')]\<rparr>"

text \<open>
  Replies are correlated by identifier: an envelope that answers a waiting request
  settles exactly that request and reaches no handler; any other envelope that is
  not an acknowledgement reaches every handler once and settles nothing.
\<close>
lemma replies_are_correlated:
  assumes "\<not> is_ack env"
  shows "(\<forall>re t. env_re env = Some re \<and> re \<noteq> [] \<and> map_of (sp_pending sp) re = Some t \<longrightarrow>
        sp_settled (handleEnvelope env sp) = sp_settled sp @ [(t, Reply env)]
      \<and> sp_delivered (handleEnvelope env sp) = sp_delivered sp
      \<and> sp_pending (handleEnvelope env sp) = omap_del (sp_pending sp) re)
   \<and> ((\<forall>re. env_re env = Some re \<longrightarrow> re = [] \<or> map_of (sp_pending sp) re = None) \<longrightarrow>
        sp_settled (handleEnvelope env sp) = sp_settled sp
      \<and> sp_pending (handleEnvelope env sp) = sp_pending sp
      \<and> sp_delivered (handleEnvelope env sp) = sp_delivered sp @ map (\<lambda>h. (h, env)) (sp_handlers sp))"
  using assms by (auto simp: handleEnvelope_def settle_def dispatch_def split: option.split)

text \<open>
  An event in which no election answers: what happens to a peer that has left, until an
  election that was already running when it left returns.
\<close>

fun no_election_answers :: "peer_event \<Rightarrow> bool" where
  "no_election_answers (Joined reason res) = (res = NoElection)"
| "no_election_answers e = True"

definition peer_after :: "peer_event list \<Rightarrow> session_peer \<Rightarrow> session_peer" where
  "peer_after es sp = foldl (\<lambda>sp e. peer_step e sp) sp es"

definition departed :: "session_peer \<Rightarrow> bool" where
  "departed sp \<longleftrightarrow> sp_left sp \<and> sp_socket sp = None"

definition none_waits :: "session_peer \<Rightarrow> bool" where
  "none_waits sp \<longleftrightarrow> sp_pending sp = [] \<and> sp_ack_pending sp = []"

lemma handlePeerLine_departed:
  "(departed (handlePeerLine l sp) \<longleftrightarrow> departed sp) \<and> sp_out (handlePeerLine l sp) = sp_out sp
   \<and> (none_waits sp \<longrightarrow> none_waits (handlePeerLine l sp))"
  by (auto simp: handlePeerLine_def preAck_def settle_registration_def handleEnvelope_def resolve_ack_def dispatch_def settle_def
      departed_def none_waits_def Let_def split: option.split sum.split prod.split)

lemma onPeerData_departed:
  "(departed (onPeerData c sp) \<longleftrightarrow> departed sp) \<and> sp_out (onPeerData c sp) = sp_out sp
   \<and> (none_waits sp \<longrightarrow> none_waits (onPeerData c sp))"
proof -
  have "(departed (fold handlePeerLine ls sp) \<longleftrightarrow> departed sp) \<and> sp_out (fold handlePeerLine ls sp) = sp_out sp
     \<and> (none_waits sp \<longrightarrow> none_waits (fold handlePeerLine ls sp))" for ls sp
    by (induction ls arbitrary: sp) (simp_all add: handlePeerLine_departed)
  from this [of "fst (feed (sp_buf sp) c)" "sp\<lparr>sp_buf := snd (feed (sp_buf sp) c)\<rparr>"]
  show ?thesis by (simp add: onPeerData_def split_def Let_def departed_def none_waits_def)
qed

lemma departed_step:
  assumes "departed sp" "no_election_answers e"
  shows "departed (peer_step e sp)" "sp_out (peer_step e sp) = sp_out sp" "none_waits sp \<Longrightarrow> none_waits (peer_step e sp)"
proof -
  have "departed (peer_step e sp) \<and> sp_out (peer_step e sp) = sp_out sp \<and> (none_waits sp \<longrightarrow> none_waits (peer_step e sp))"
    using assms onPeerData_departed
    by (cases e) (auto simp: departed_def none_waits_def send_def sendWithAck_def request_def take_id_def writeEnvelope_def settle_def Let_def
        request_timeout_def ack_timeout_def join_def onSocketClose_def failover_due_def register_timeout_def settle_registration_def
        leave_def teardown_socket_def teardown_finish_def rename_to_def onMessage_def offMessage_def onReconnect_def AList.delete_eq
        split: option.split)
  then show "departed (peer_step e sp)" "sp_out (peer_step e sp) = sp_out sp" "none_waits sp \<Longrightarrow> none_waits (peer_step e sp)" by blast+
qed

lemma departed_after:
  assumes "departed sp" "list_all no_election_answers es"
  shows "departed (peer_after es sp) \<and> sp_out (peer_after es sp) = sp_out sp \<and> (none_waits sp \<longrightarrow> none_waits (peer_after es sp))"
  using assms unfolding peer_after_def
  by (induction es arbitrary: sp) (simp_all add: departed_step)

lemma peer_run_after: "peer_run sp0 sp \<Longrightarrow> peer_run sp0 (peer_after es sp)"
  unfolding peer_after_def by (induction es arbitrary: sp) (simp_all add: peer_run.happens)

text \<open>
  C8. Leaving settles every request and every acknowledged send, for as long as no election
  answers: whatever happens while the broker is being closed (\<open>es\<close>) and after the teardown is
  done (\<open>fs\<close>), none of them waits, all issued so far have been settled, the ones issued after
  leaving included, nothing can be sent, not one byte has been written since the peer left,
  and the close of a socket starts no recovery. (An election already running when the peer
  leaves may still answer, see C9; and the promise of a registration under way is not among
  these, its own timer settles it.)
\<close>
theorem leaving_settles_everything:
  assumes "peer_run (new_peer name cwd gen) sp" and "inj gen"
    and "list_all no_election_answers es" "list_all no_election_answers fs"
    and "sp' = peer_after fs (teardown_finish (peer_after es (leave sp)))"
  shows "sp_pending sp' = [] \<and> sp_ack_pending sp' = [] \<and> fst ` set (sp_settled sp') = {..<sp_tickets sp'}
   \<and> fst (send to body re sp') = False \<and> sp_out sp' = sp_out sp \<and> onSocketClose s res sp' = sp'"
proof -
  have "departed (leave sp)" "sp_out (leave sp) = sp_out sp"
    by (simp_all add: departed_def leave_def teardown_socket_def split: option.split)
  then have es: "departed (peer_after es (leave sp))" "sp_out (peer_after es (leave sp)) = sp_out sp"
    using departed_after assms(3) by auto
  then have "departed (teardown_finish (peer_after es (leave sp)))" "none_waits (teardown_finish (peer_after es (leave sp)))"
    by (simp_all add: departed_def none_waits_def teardown_finish_def)
  then have d: "departed sp'" "none_waits sp'" "sp_out sp' = sp_out sp"
    using departed_after [OF _ assms(4)] es(2) unfolding assms(5) by (simp_all add: teardown_finish_def)
  have "peer_run (new_peer name cwd gen) (teardown_finish (peer_after es (leave sp)))"
    using peer_run.happens [OF peer_run_after [OF peer_run.happens [OF assms(1), of Leave]], of TeardownDone es] by simp
  then have "peer_run (new_peer name cwd gen) sp'" unfolding assms(5) by (rule peer_run_after)
  then have "wf_session_peer sp'"
    using peer_run_wf [OF _ wf_new_peer] assms(2) by (simp add: new_peer_def)
  from tickets_accounted(2) [OF this] show ?thesis
    using d by (simp add: departed_def none_waits_def send_def writeEnvelope_def take_id_def onSocketClose_def failover_due_def)
qed

theorem leaving_settles_everything_witness:
  "fst ` set (sp_settled (peer_after [Request ''bo'' Null] (teardown_finish (peer_after [] (leave (peer_step (Request ''bo'' Null)
      (peer_step (Joined Starting (Follows 5)) sample_peer))))))) = {..<2}"
proof -
  let ?sp = "peer_step (Request ''bo'' Null) (peer_step (Joined Starting (Follows 5)) sample_peer)"
  have run: "peer_run (new_peer ''al'' (Some ''/p'') sample_id) ?sp"
    unfolding sample_peer_def by (intro peer_run.intros)
  have "sp_tickets (peer_after [Request ''bo'' Null] (teardown_finish (peer_after [] (leave ?sp)))) = 2"
    by (simp add: request_def Let_def join_def registerOver_def wireSocket_def sample_peer_def new_peer_def peer_after_def leave_def
        teardown_socket_def teardown_finish_def take_id_def writeEnvelope_def settle_def)
  with leaving_settles_everything [OF run inj_sample_id _ _ refl, of "[]" "[Request ''bo'' Null]"] show ?thesis by simp
qed

text \<open>
  Only the death of the current connection starts a recovery: the close of a socket
  that was replaced, or of any socket once the peer has left or is tearing down,
  changes nothing, so a peer never registers twice.
\<close>
lemma stale_close_ignored:
  assumes "sp_left sp \<or> sp_socket sp \<noteq> Some s"
  shows "onSocketClose s res sp = sp"
  using assms by (auto simp: onSocketClose_def failover_due_def)

lemma stale_close_ignored_example:
  "onSocketClose 5 (Leads 9) (join Renaming (Follows 6) (leave (join Starting (Follows 5) sample_peer)))
   = join Renaming (Follows 6) (leave (join Starting (Follows 5) sample_peer))"
  by (rule stale_close_ignored) (simp add: join_def registerOver_def wireSocket_def)

text \<open>
  C9. Leaving does not cancel a join in flight: when an election that was already running
  answers after \<open>leave\<close>, the peer takes the connection and registers on it again.
\<close>
theorem leave_does_not_cancel_join:
  "sp_left (join Failover (Follows s) (leave sp)) \<and> sp_socket (join Failover (Follows s) (leave sp)) = Some s
   \<and> sp_out (join Failover (Follows s) (leave sp))
     = sp_out sp @ [(s, stringify (register_json (leave sp)) @ [nl_char])]"
  by (simp add: join_def registerOver_def wireSocket_def leave_def teardown_socket_def register_json_def split: option.split)

end
