(* ===== verification/RemoteSession.thy ===== *)
theory RemoteSession imports Envelope
begin

text \<open>
  \<open>session/remote_session.ts\<close>, \<open>session/subagent_gate.ts\<close> and
  \<open>session/peer_inventory.ts\<close>: the identity of the session the phone talks to, the
  depth counter that silences subagents, and the listing of the peers.

  A host context is described by what reading it does: \<open>manager\<close> is the outcome of
  \<open>ctx.sessionManager\<close> and \<open>id_read\<close> of \<open>getSessionId()\<close>, which throw on a stale context.
\<close>

subsection \<open>Session identity\<close>

datatype id_read = NoGetter | GetterThrows | IdValue js

datatype entries_read = NoBuild | BuildThrows | BuildValue js

datatype manager = NoManager | ManagerThrows | Manager id_read entries_read

text \<open>\<open>now\<close> is \<open>Date.now()\<close> and \<open>bytes\<close> the sixteen random bytes.\<close>

definition uuid7_bytes :: "nat \<Rightarrow> 8 word list \<Rightarrow> 8 word list" where
  "uuid7_bytes now bytes =
     (let b = bytes[0 := ts_byte now 40, 1 := ts_byte now 32, 2 := ts_byte now 24, 3 := ts_byte now 16,
                    4 := ts_byte now 8, 5 := ts_byte now 0];
          b6 = b[6 := (b ! 6 AND 0x0f) OR 0x70]
      in b6[8 := (b6 ! 8 AND 0x3f) OR 0x80])"

definition uuid7 :: "nat \<Rightarrow> 8 word list \<Rightarrow> string" where
  "uuid7 now bytes = (let hex = concat (map hex_byte (uuid7_bytes now bytes)) in
     slice 0 8 hex @ ''-'' @ slice 8 12 hex @ ''-'' @ slice 12 16 hex @ ''-'' @ slice 16 20 hex @ ''-'' @ drop 20 hex)"

fun safeSessionManager :: "manager option \<Rightarrow> id_read option" where
  "safeSessionManager None = None"
| "safeSessionManager (Some NoManager) = None"
| "safeSessionManager (Some ManagerThrows) = None"
| "safeSessionManager (Some (Manager NoGetter _)) = None"
| "safeSessionManager (Some (Manager r _)) = Some r"

text \<open>\<open>fresh\<close> is the identifier a call of \<open>uuid7()\<close> makes.\<close>

definition resolveRemoteSessionId :: "string \<Rightarrow> manager option \<Rightarrow> string" where
  "resolveRemoteSessionId fresh ctx = (case safeSessionManager ctx of
     Some (IdValue (Str s)) \<Rightarrow> (if 0 < length s then s else fresh)
   | _ \<Rightarrow> fresh)"

definition remoteSessionDurableKey :: "string \<Rightarrow> string \<Rightarrow> string \<Rightarrow> string" where
  "remoteSessionDurableKey peerId roomId sessionId = peerId @ '':'' @ roomId @ '':'' @ sessionId"

text \<open>The state of \<open>RemoteSessionIssuer\<close> is the current id.\<close>

definition capture :: "string \<Rightarrow> manager option \<Rightarrow> string option \<Rightarrow> string \<times> string option" where
  "capture fresh ctx current = (let next = resolveRemoteSessionId fresh ctx in (next, Some next))"

definition currentOrCapture :: "string \<Rightarrow> manager option \<Rightarrow> string option \<Rightarrow> string \<times> string option" where
  "currentOrCapture fresh ctx current = (case current of Some i \<Rightarrow> (i, current) | None \<Rightarrow> capture fresh ctx current)"

definition clear_issuer :: "string option \<Rightarrow> string option" where
  "clear_issuer current = None"

lemma uuid7_bytes_same:
  assumes "length bytes = 16"
  shows "uuid7_bytes now bytes = uuid_bytes now (drop 6 bytes)"
proof -
  from assms obtain a0 a1 a2 a3 a4 a5 r where b: "bytes = a0 # a1 # a2 # a3 # a4 # a5 # r" and "length r = 10"
    by (auto simp: numeral_eq_Suc length_Suc_conv)
  then show ?thesis by (simp add: uuid7_bytes_def uuid_bytes_def Let_def)
qed

text \<open>The two UUIDv7 generators of the program make the same identifiers from the same bytes.\<close>

lemma uuid7_same: "length bytes = 16 \<Longrightarrow> uuid7 now bytes = uuidv7 now (drop 6 bytes)"
  by (simp add: uuid7_def uuidv7_def uuid7_bytes_same)

lemma uuid7_is_uuid: "length bytes = 16 \<Longrightarrow> is_uuid (uuid7 now bytes)"
  by (simp add: uuid7_same uuidv7_is_uuid)

lemma resolve_nonempty: "fresh \<noteq> [] \<Longrightarrow> resolveRemoteSessionId fresh ctx \<noteq> []"
  by (auto simp: resolveRemoteSessionId_def split: option.splits id_read.splits js.splits)

lemma currentOrCapture_stable: "currentOrCapture fresh ctx current = (i, current') \<Longrightarrow> currentOrCapture fresh' ctx' current' = (i, current')"
  by (auto simp: currentOrCapture_def capture_def Let_def split: option.splits)

lemma append_colon_inj:
  assumes "CHR '':'' \<notin> set a" and "CHR '':'' \<notin> set b" and "a @ CHR '':'' # x = b @ CHR '':'' # y"
  shows "a = b \<and> x = y"
  using assms
proof (induction a arbitrary: b)
  case Nil
  then show ?case by (cases b) auto
next
  case (Cons c a)
  then show ?case by (cases b) auto
qed

lemma remoteSessionDurableKey_inj:
  "CHR '':'' \<notin> set p \<Longrightarrow> CHR '':'' \<notin> set p' \<Longrightarrow> CHR '':'' \<notin> set r \<Longrightarrow> CHR '':'' \<notin> set r' \<Longrightarrow>
   remoteSessionDurableKey p r s = remoteSessionDurableKey p' r' s' \<Longrightarrow> p = p' \<and> r = r' \<and> s = s'"
  unfolding remoteSessionDurableKey_def append.simps by (metis append_colon_inj)

subsection \<open>Subagents\<close>

definition SUBAGENT_TOOL_NAME :: string where
  "SUBAGENT_TOOL_NAME = ''subagent''"

definition enter_tool :: "string \<Rightarrow> nat \<Rightarrow> nat" where
  "enter_tool toolName depth = (if toolName = SUBAGENT_TOOL_NAME then depth + 1 else depth)"

text \<open>\<open>Math.max(0, depth - 1)\<close> is subtraction on \<open>nat\<close>.\<close>

definition exit_tool :: "string \<Rightarrow> nat \<Rightarrow> nat" where
  "exit_tool toolName depth = (if toolName = SUBAGENT_TOOL_NAME then depth - 1 else depth)"

definition gate_isActive :: "nat \<Rightarrow> bool" where
  "gate_isActive depth \<longleftrightarrow> 0 < depth"

definition gate_reset :: nat where
  "gate_reset = 0"

datatype tool_event = ToolStart string | ToolEnd string

fun gate_step :: "nat \<Rightarrow> tool_event \<Rightarrow> nat" where
  "gate_step d (ToolStart t) = enter_tool t d"
| "gate_step d (ToolEnd t) = exit_tool t d"

text \<open>Dispatches and their ends, properly nested.\<close>

inductive nested :: "tool_event list \<Rightarrow> bool" where
  nested_empty: "nested []"
| nested_wrap: "nested xs \<Longrightarrow> nested (ToolStart t # xs @ [ToolEnd t])"
| nested_append: "nested xs \<Longrightarrow> nested ys \<Longrightarrow> nested (xs @ ys)"

lemma nested_neutral: "nested xs \<Longrightarrow> foldl gate_step d xs = d"
  by (induction arbitrary: d rule: nested.induct) (simp_all add: enter_tool_def exit_tool_def)

text \<open>Between a dispatch and its end the gate is closed, whatever tools run inside.\<close>

lemma gate_closed_inside:
  assumes "nested (xs @ ys)"
  shows "gate_isActive (foldl gate_step (enter_tool SUBAGENT_TOOL_NAME d) (xs @ ys))"
  using assms by (simp add: nested_neutral enter_tool_def gate_isActive_def del: foldl_append)

subsection \<open>Listing the peers\<close>

text \<open>The local peers and the buckets of the machines, in the order they are met.\<close>

definition inventory_add :: "string option \<Rightarrow> string list \<times> (string, string list) omap \<Rightarrow> string \<Rightarrow> string list \<times> (string, string list) omap" where
  "inventory_add selfName acc p = (case acc of (locals, remotes) \<Rightarrow>
     if selfName \<noteq> None \<and> selfName \<noteq> Some [] \<and> selfName = Some p then (locals, remotes)
     else case index_of p CHR '':'' of
       Some idx \<Rightarrow>
         (if 0 < idx \<and> idx < length p - 1 then
            (let label = take idx p; name = drop (idx + 1) p;
                 bucket = (case map_of remotes label of Some b \<Rightarrow> b | None \<Rightarrow> [])
             in (locals, omap_put remotes label (bucket @ [name])))
          else (locals @ [p], remotes))
     | None \<Rightarrow> (locals @ [p], remotes))"

definition join_lines :: "string list \<Rightarrow> string" where
  "join_lines ls = (case ls of [] \<Rightarrow> [] | l # r \<Rightarrow> l @ concat (map (\<lambda>x. CHR 0x0A # x) r))"

definition inventory_lines :: "string list \<times> (string, string list) omap \<Rightarrow> string list" where
  "inventory_lines acc = (case acc of (locals, remotes) \<Rightarrow>
     [''  local:'']
     @ (if locals = [] then [''    (none)''] else map (\<lambda>n. ''    '' @ n) (sort locals))
     @ concat (map (\<lambda>label. [[], ''  remote:'' @ label]
          @ map (\<lambda>n. ''    '' @ n) (sort (case map_of remotes label of Some b \<Rightarrow> b | None \<Rightarrow> [])))
        (sort (omap_keys remotes))))"

definition formatPeerInventory :: "string list \<Rightarrow> string option \<Rightarrow> string" where
  "formatPeerInventory peers selfName =
     join_lines (inventory_lines (foldl (inventory_add selfName) ([], []) peers))"

text \<open>Every listed peer but oneself is in the local list or in the bucket of its machine.\<close>

definition listed :: "string list \<times> (string, string list) omap \<Rightarrow> string set" where
  "listed acc = set (fst acc) \<union> {l @ '':'' @ n |l n b. map_of (snd acc) l = Some b \<and> n \<in> set b}"

lemma bucket_insert:
  assumes "old = (case m l of Some b \<Rightarrow> b | None \<Rightarrow> [])"
  shows "{k @ '':'' @ n |k n b. (m(l \<mapsto> old @ [x])) k = Some b \<and> n \<in> set b}
    = insert (l @ '':'' @ x) {k @ '':'' @ n |k n b. m k = Some b \<and> n \<in> set b}" (is "?A = insert ?x ?B")
proof (intro equalityI subsetI)
  fix y assume "y \<in> ?A"
  then obtain k n b where y: "y = k @ '':'' @ n" "(m(l \<mapsto> old @ [x])) k = Some b" "n \<in> set b" by blast
  show "y \<in> insert ?x ?B"
  proof (cases "k = l")
    case True
    with y have "n = x \<or> n \<in> set old" by auto
    then show ?thesis using y True assms by (cases "m l") auto
  next
    case False
    with y show ?thesis by auto
  qed
next
  fix y assume "y \<in> insert ?x ?B"
  then consider "y = ?x" | k n b where "y = k @ '':'' @ n" "m k = Some b" "n \<in> set b" by blast
  then show "y \<in> ?A"
  proof cases
    case 1
    have "(m(l \<mapsto> old @ [x])) l = Some (old @ [x]) \<and> x \<in> set (old @ [x])" by simp
    with 1 show ?thesis by blast
  next
    case (2 k n b)
    then have "(m(l \<mapsto> old @ [x])) k = Some (if k = l then old @ [x] else b)" "n \<in> set (if k = l then old @ [x] else b)"
      using assms by auto
    with 2(1) show ?thesis by blast
  qed
qed

lemma inventory_add_listed:
  "listed (inventory_add selfName acc p) =
     (if selfName \<noteq> Some [] \<and> selfName = Some p then listed acc else insert p (listed acc))"
proof (cases "index_of p CHR '':''")
  case None
  then show ?thesis by (auto simp: inventory_add_def listed_def split: prod.splits)
next
  case (Some idx)
  then have p: "p = take idx p @ CHR '':'' # drop (idx + 1) p" and l: "idx < length p"
    using id_take_nth_drop [of idx p] by (auto simp: index_of_Some)
  obtain locals remotes where acc: "acc = (locals, remotes)" by (cases acc)
  show ?thesis
  proof (cases "0 < idx \<and> idx < length p - 1 \<and> \<not> (selfName \<noteq> Some [] \<and> selfName = Some p)")
    case False
    with Some show ?thesis by (auto simp: inventory_add_def listed_def acc Let_def)
  next
    case True
    let ?l = "take idx p" and ?n = "drop (idx + 1) p"
    let ?b = "case map_of remotes ?l of Some b \<Rightarrow> b | None \<Rightarrow> []"
    have new: "inventory_add selfName acc p = (locals, omap_put remotes ?l (?b @ [?n]))"
      using True Some by (auto simp: inventory_add_def acc Let_def)
    have "insert p (set locals \<union> X) = set locals \<union> insert (?l @ '':'' @ ?n) X" for X
      using p by simp
    moreover have "\<not> (selfName \<noteq> Some [] \<and> selfName = Some p)" using True by simp
    ultimately show ?thesis
      using bucket_insert [OF refl, of "map_of remotes" ?l ?n]
      by (simp only: new [unfolded acc] listed_def acc fst_conv snd_conv map_of_put if_False)
  qed
qed

lemma inventory_complete:
  "selfName \<noteq> Some [] \<Longrightarrow>
   listed (foldl (inventory_add selfName) acc peers) = listed acc \<union> (set peers - set_option selfName)"
  by (induction peers arbitrary: acc) (auto simp: inventory_add_listed)

end
