(* ===== verification/Transcript.thy ===== *)
theory Transcript imports Json
begin

text \<open>
  \<open>session/transcript_event.ts\<close>, \<open>session/durable_transcript_event.ts\<close> and
  \<open>session/transcript_event_log.ts\<close>: the canonical facts of a session, the JSON
  codec that carries them into the session file, and the append-only log that
  lets a fact be seen only after it has been written.

  A fact has two views, as in the code. The runtime value is a \<open>js\<close> object, which
  \<open>isTranscriptEvent\<close> validates; the typed view is the datatype below, \<open>event_js\<close>
  gives the object of a typed event and \<open>event_of_js\<close> reads one back. A cyclic
  object is not a \<open>js\<close> value, so the ancestor set of \<open>isJsonValue\<close> never hits and
  is left out; neither are symbol keys and exotic prototypes.
\<close>

subsection \<open>Events\<close>

record wire_image =
  img_data :: string
  img_mime :: string

record wire_usage =
  input_tokens :: int
  output_tokens :: int

datatype streaming_behavior = Steer

datatype event_body =
    UserSubmitted string string "wire_image list option"
  | UserConfirmed string string "wire_image list option" "streaming_behavior option"
  | UserFailed string string string
  | AssistantDelta string string
  | AssistantCommitted string string string "wire_usage option"
  | AssistantDone string "wire_usage option"
  | ProviderErrorEvent "string option" string string
  | ToolRequested string string js
  | ToolFinished string "js option" "string option"
  | CompactionRecorded string "int option"

record transcript_event =
  ev_id :: string
  ev_session :: string
  ev_ts :: int
  ev_turn :: "string option"
  ev_body :: event_body

fun kind_of :: "event_body \<Rightarrow> string" where
  "kind_of (UserSubmitted _ _ _) = ''user_submitted''"
| "kind_of (UserConfirmed _ _ _ _) = ''user_confirmed''"
| "kind_of (UserFailed _ _ _) = ''user_failed''"
| "kind_of (AssistantDelta _ _) = ''assistant_delta''"
| "kind_of (AssistantCommitted _ _ _ _) = ''assistant_committed''"
| "kind_of (AssistantDone _ _) = ''assistant_done''"
| "kind_of (ProviderErrorEvent _ _ _) = ''provider_error''"
| "kind_of (ToolRequested _ _ _) = ''tool_requested''"
| "kind_of (ToolFinished _ _ _) = ''tool_finished''"
| "kind_of (CompactionRecorded _ _) = ''compaction_recorded''"

abbreviation ev_kind :: "transcript_event \<Rightarrow> string" where
  "ev_kind e \<equiv> kind_of (ev_body e)"

subsection \<open>The objects of events\<close>

text \<open>An optional member is absent when the value is.\<close>

definition opt_member :: "string \<Rightarrow> ('a \<Rightarrow> js) \<Rightarrow> 'a option \<Rightarrow> (string \<times> js) list" where
  "opt_member k f x = (case x of None \<Rightarrow> [] | Some v \<Rightarrow> [(k, f v)])"

definition image_js :: "wire_image \<Rightarrow> js" where
  "image_js i = Obj [(''data'', Str (img_data i)), (''mime'', Str (img_mime i))]"

definition images_js :: "wire_image list \<Rightarrow> js" where
  "images_js is = Arr (map image_js is)"

definition usage_js :: "wire_usage \<Rightarrow> js" where
  "usage_js u = Obj [(''input_tokens'', Num (input_tokens u)), (''output_tokens'', Num (output_tokens u))]"

definition streaming_js :: "streaming_behavior \<Rightarrow> js" where
  "streaming_js s = Str ''steer''"

fun body_members :: "event_body \<Rightarrow> (string \<times> js) list" where
  "body_members (UserSubmitted c t is) =
     [(''clientMessageId'', Str c), (''text'', Str t)] @ opt_member ''images'' images_js is"
| "body_members (UserConfirmed c t is sb) =
     [(''clientMessageId'', Str c), (''text'', Str t)] @ opt_member ''images'' images_js is
       @ opt_member ''streamingBehavior'' streaming_js sb"
| "body_members (UserFailed c code m) =
     [(''clientMessageId'', Str c), (''code'', Str code), (''message'', Str m)]"
| "body_members (AssistantDelta r d) = [(''replyTo'', Str r), (''delta'', Str d)]"
| "body_members (AssistantCommitted m r t u) =
     [(''messageId'', Str m), (''replyTo'', Str r), (''text'', Str t)] @ opt_member ''usage'' usage_js u"
| "body_members (AssistantDone r u) = [(''replyTo'', Str r)] @ opt_member ''usage'' usage_js u"
| "body_members (ProviderErrorEvent r code m) =
     opt_member ''replyTo'' Str r @ [(''code'', Str code), (''message'', Str m)]"
| "body_members (ToolRequested c t a) = [(''toolCallId'', Str c), (''tool'', Str t), (''args'', a)]"
| "body_members (ToolFinished c r e) =
     [(''toolCallId'', Str c)] @ opt_member ''result'' id r @ opt_member ''error'' Str e"
| "body_members (CompactionRecorded s n) = [(''summary'', Str s)] @ opt_member ''tokensBefore'' Num n"

definition event_js :: "transcript_event \<Rightarrow> js" where
  "event_js e = Obj
     ([(''kind'', Str (ev_kind e)), (''eventId'', Str (ev_id e)), (''sessionId'', Str (ev_session e)),
       (''ts'', Num (ev_ts e))]
      @ opt_member ''turnId'' Str (ev_turn e) @ body_members (ev_body e))"

text \<open>The typed view of an object whose fields have been validated.\<close>

fun the_str :: "js \<Rightarrow> string" where
  "the_str (Str s) = s"
| "the_str _ = ''''"

fun the_num :: "js \<Rightarrow> int" where
  "the_num (Num n) = n"
| "the_num _ = 0"

fun the_list :: "js \<Rightarrow> js list" where
  "the_list (Arr xs) = xs"
| "the_list _ = []"

definition opt_field :: "js \<Rightarrow> string \<Rightarrow> (js \<Rightarrow> 'a) \<Rightarrow> 'a option" where
  "opt_field v k f = (if jfield v k = Undef then None else Some (f (jfield v k)))"

definition image_of :: "js \<Rightarrow> wire_image" where
  "image_of v = \<lparr>img_data = the_str (jfield v ''data''), img_mime = the_str (jfield v ''mime'')\<rparr>"

definition images_of :: "js \<Rightarrow> wire_image list" where
  "images_of v = map image_of (the_list v)"

definition usage_of :: "js \<Rightarrow> wire_usage" where
  "usage_of v = \<lparr>input_tokens = the_num (jfield v ''input_tokens''), output_tokens = the_num (jfield v ''output_tokens'')\<rparr>"

definition body_of_js :: "js \<Rightarrow> event_body" where
  "body_of_js v =
    (let k = the_str (jfield v ''kind''); s = (\<lambda>f. the_str (jfield v f)) in
     if k = ''user_submitted'' then
       UserSubmitted (s ''clientMessageId'') (s ''text'') (opt_field v ''images'' images_of)
     else if k = ''user_confirmed'' then
       UserConfirmed (s ''clientMessageId'') (s ''text'') (opt_field v ''images'' images_of)
         (opt_field v ''streamingBehavior'' (\<lambda>_. Steer))
     else if k = ''user_failed'' then UserFailed (s ''clientMessageId'') (s ''code'') (s ''message'')
     else if k = ''assistant_delta'' then AssistantDelta (s ''replyTo'') (s ''delta'')
     else if k = ''assistant_committed'' then
       AssistantCommitted (s ''messageId'') (s ''replyTo'') (s ''text'') (opt_field v ''usage'' usage_of)
     else if k = ''assistant_done'' then AssistantDone (s ''replyTo'') (opt_field v ''usage'' usage_of)
     else if k = ''provider_error'' then
       ProviderErrorEvent (opt_field v ''replyTo'' the_str) (s ''code'') (s ''message'')
     else if k = ''tool_requested'' then ToolRequested (s ''toolCallId'') (s ''tool'') (jfield v ''args'')
     else if k = ''tool_finished'' then
       ToolFinished (s ''toolCallId'') (opt_field v ''result'' id) (opt_field v ''error'' the_str)
     else CompactionRecorded (s ''summary'') (opt_field v ''tokensBefore'' the_num))"

definition event_of_js :: "js \<Rightarrow> transcript_event" where
  "event_of_js v =
     \<lparr>ev_id = the_str (jfield v ''eventId''), ev_session = the_str (jfield v ''sessionId''),
      ev_ts = the_num (jfield v ''ts''), ev_turn = opt_field v ''turnId'' the_str,
      ev_body = body_of_js v\<rparr>"

subsection \<open>Validation and cloning\<close>

fun isRecord :: "js \<Rightarrow> bool" where
  "isRecord (Obj _) = True"
| "isRecord _ = False"

fun isNonEmptyString :: "js \<Rightarrow> bool" where
  "isNonEmptyString (Str s) = (s \<noteq> [])"
| "isNonEmptyString _ = False"

fun isSafeTimestamp :: "js \<Rightarrow> bool" where
  "isSafeTimestamp (Num n) = (0 \<le> n \<and> n \<le> 2 ^ 53 - 1)"
| "isSafeTimestamp _ = False"

fun isFiniteNonNegative :: "js \<Rightarrow> bool" where
  "isFiniteNonNegative (Num n) = (0 \<le> n)"
| "isFiniteNonNegative _ = False"

fun hasExactKeys :: "js \<Rightarrow> string list \<Rightarrow> bool" where
  "hasExactKeys (Obj kvs) allowed = list_all (\<lambda>kv. fst kv \<in> set allowed) kvs"
| "hasExactKeys _ allowed = True"

fun isOptionalImages :: "js \<Rightarrow> bool" where
  "isOptionalImages Undef = True"
| "isOptionalImages (Arr xs) = list_all (\<lambda>i. isRecord i \<and> hasExactKeys i [''data'', ''mime'']
     \<and> is_string (jfield i ''data'') \<and> is_string (jfield i ''mime'')) xs"
| "isOptionalImages _ = False"

definition isOptionalUsage :: "js \<Rightarrow> bool" where
  "isOptionalUsage v \<longleftrightarrow> v = Undef
     \<or> isRecord v \<and> hasExactKeys v [''input_tokens'', ''output_tokens'']
       \<and> isFiniteNonNegative (jfield v ''input_tokens'') \<and> isFiniteNonNegative (jfield v ''output_tokens'')"

fun isJsonValue :: "js \<Rightarrow> bool" where
  "isJsonValue Null = True"
| "isJsonValue (Str _) = True"
| "isJsonValue (Bool _) = True"
| "isJsonValue (Num _) = True"
| "isJsonValue NonFinite = False"
| "isJsonValue Undef = False"
| "isJsonValue (Arr xs) = list_all isJsonValue xs"
| "isJsonValue (Obj kvs) = list_all (\<lambda>kv. isJsonValue (snd kv)) kvs"

fun hasCommonFields :: "js \<Rightarrow> bool" where
  "hasCommonFields (Obj kvs) =
     (list_all (\<lambda>kv. snd kv \<noteq> Undef) kvs
      \<and> isNonEmptyString (jfield (Obj kvs) ''kind'') \<and> isNonEmptyString (jfield (Obj kvs) ''eventId'')
      \<and> isNonEmptyString (jfield (Obj kvs) ''sessionId'')
      \<and> isSafeTimestamp (jfield (Obj kvs) ''ts'')
      \<and> (jfield (Obj kvs) ''turnId'' = Undef \<or> isNonEmptyString (jfield (Obj kvs) ''turnId'')))"
| "hasCommonFields _ = False"

definition COMMON_KEYS :: "string list" where
  "COMMON_KEYS = [''kind'', ''eventId'', ''sessionId'', ''ts'', ''turnId'']"

definition isTranscriptEvent :: "js \<Rightarrow> bool" where
  "isTranscriptEvent v \<longleftrightarrow> hasCommonFields v \<and>
    (let k = the_str (jfield v ''kind''); f = jfield v; keys = (\<lambda>ks. hasExactKeys v (COMMON_KEYS @ ks)) in
     if k = ''user_submitted'' then
       keys [''clientMessageId'', ''text'', ''images''] \<and> is_string (f ''clientMessageId'')
       \<and> is_string (f ''text'') \<and> isOptionalImages (f ''images'')
     else if k = ''user_confirmed'' then
       keys [''clientMessageId'', ''text'', ''images'', ''streamingBehavior''] \<and> is_string (f ''clientMessageId'')
       \<and> is_string (f ''text'') \<and> isOptionalImages (f ''images'')
       \<and> (f ''streamingBehavior'' = Undef \<or> f ''streamingBehavior'' = Str ''steer'')
     else if k = ''user_failed'' then
       keys [''clientMessageId'', ''code'', ''message''] \<and> is_string (f ''clientMessageId'')
       \<and> is_string (f ''code'') \<and> is_string (f ''message'')
     else if k = ''assistant_delta'' then
       keys [''replyTo'', ''delta''] \<and> is_string (f ''replyTo'') \<and> is_string (f ''delta'')
     else if k = ''assistant_committed'' then
       keys [''messageId'', ''replyTo'', ''text'', ''usage''] \<and> is_string (f ''messageId'')
       \<and> is_string (f ''replyTo'') \<and> is_string (f ''text'') \<and> isOptionalUsage (f ''usage'')
     else if k = ''assistant_done'' then
       keys [''replyTo'', ''usage''] \<and> is_string (f ''replyTo'') \<and> isOptionalUsage (f ''usage'')
     else if k = ''provider_error'' then
       keys [''replyTo'', ''code'', ''message''] \<and> (f ''replyTo'' = Undef \<or> is_string (f ''replyTo''))
       \<and> is_string (f ''code'') \<and> is_string (f ''message'')
     else if k = ''tool_requested'' then
       keys [''toolCallId'', ''tool'', ''args''] \<and> is_string (f ''toolCallId'')
       \<and> is_string (f ''tool'') \<and> isRecord (f ''args'') \<and> isJsonValue (f ''args'')
     else if k = ''tool_finished'' then
       keys [''toolCallId'', ''result'', ''error''] \<and> is_string (f ''toolCallId'')
       \<and> (f ''result'' = Undef \<or> isJsonValue (f ''result''))
       \<and> (f ''error'' = Undef \<or> is_string (f ''error''))
     else if k = ''compaction_recorded'' then
       keys [''summary'', ''tokensBefore''] \<and> is_string (f ''summary'')
       \<and> (f ''tokensBefore'' = Undef \<or> isFiniteNonNegative (f ''tokensBefore''))
     else False)"

text \<open>\<open>None\<close> is the \<open>TypeError\<close> of \<open>Object.entries(undefined)\<close>.\<close>

fun cloneJsonValue :: "js \<Rightarrow> js option"
and clone_items :: "js list \<Rightarrow> js list option"
and clone_members :: "(string \<times> js) list \<Rightarrow> (string \<times> js) list \<Rightarrow> (string \<times> js) list option" where
  "cloneJsonValue Undef = None"
| "cloneJsonValue Null = Some Null"
| "cloneJsonValue (Str s) = Some (Str s)"
| "cloneJsonValue (Bool b) = Some (Bool b)"
| "cloneJsonValue (Num n) = Some (Num n)"
| "cloneJsonValue NonFinite = Some NonFinite"
| "cloneJsonValue (Arr xs) = map_option Arr (clone_items xs)"
| "cloneJsonValue (Obj kvs) = map_option Obj (clone_members [] kvs)"
| "clone_items [] = Some []"
| "clone_items (x # xs) = (case cloneJsonValue x of None \<Rightarrow> None
     | Some y \<Rightarrow> map_option (Cons y) (clone_items xs))"
| "clone_members clone [] = Some clone"
| "clone_members clone ((k, child) # kvs) = (case cloneJsonValue child of None \<Rightarrow> None
     | Some y \<Rightarrow> clone_members (omap_put clone k y) kvs)"

subsection \<open>The durable codec\<close>

definition TRANSCRIPT_EVENT_CUSTOM_TYPE :: string where
  "TRANSCRIPT_EVENT_CUSTOM_TYPE = ''outpost-pi.transcript-event.v1''"

definition TRANSCRIPT_EVENT_CUSTOM_TYPE_PREFIX :: string where
  "TRANSCRIPT_EVENT_CUSTOM_TYPE_PREFIX = ''outpost-pi.transcript-event.v''"

datatype encode_error = InvalidDurableEvent | CloneThrew

definition encodeDurableTranscriptEventV1 :: "js \<Rightarrow> encode_error + js" where
  "encodeDurableTranscriptEventV1 event =
     (if \<not> isTranscriptEvent event then Inl InvalidDurableEvent
      else case cloneJsonValue event of None \<Rightarrow> Inl CloneThrew | Some p \<Rightarrow> Inr p)"

datatype durable_decode =
    Decoded transcript_event
  | NotTranscript
  | UnsupportedVersion
  | InvalidEntry

definition decodeDurableTranscriptEntry :: "js \<Rightarrow> durable_decode" where
  "decodeDurableTranscriptEntry entry =
    (if \<not> isRecord entry \<or> \<not> is_string (jfield entry ''customType'') then NotTranscript
     else let customType = the_str (jfield entry ''customType'') in
       if customType \<noteq> TRANSCRIPT_EVENT_CUSTOM_TYPE then
         (if starts_with customType TRANSCRIPT_EVENT_CUSTOM_TYPE_PREFIX then UnsupportedVersion
          else NotTranscript)
       else if jfield entry ''type'' \<noteq> Str ''custom'' then InvalidEntry
       else if \<not> isTranscriptEvent (jfield entry ''data'') then InvalidEntry
       else case cloneJsonValue (jfield entry ''data'') of
         None \<Rightarrow> InvalidEntry
       | Some c \<Rightarrow> Decoded (event_of_js c))"


subsection \<open>What the codec accepts and gives back\<close>

text \<open>Keys occur once in every object, at every depth.\<close>

fun js_wf :: "js \<Rightarrow> bool" where
  "js_wf (Arr xs) = (\<forall>x \<in> set xs. js_wf x)"
| "js_wf (Obj kvs) = (distinct (map fst kvs) \<and> (\<forall>kv \<in> set kvs. js_wf (snd kv)))"
| "js_wf _ = True"

lemma json_value_iff: "json_value v \<longleftrightarrow> js_wf v \<and> isJsonValue v"
  by (induction v) (auto simp: list_all_iff, (metis snd_conv)+)

lemma js_wf_field: "js_wf v \<Longrightarrow> js_wf (jfield v k)"
  by (cases v) (auto split: option.splits dest!: map_of_SomeD)

lemma clone_id:
  "json_value v \<Longrightarrow> cloneJsonValue v = Some v"
  "\<forall>x \<in> set xs. json_value x \<Longrightarrow> clone_items xs = Some xs"
  "\<forall>kv \<in> set kvs. json_value (snd kv) \<Longrightarrow> distinct (map fst (acc @ kvs)) \<Longrightarrow>
   clone_members acc kvs = Some (acc @ kvs)"
proof (induction v and xs and acc kvs rule: cloneJsonValue_clone_items_clone_members.induct)
  case (12 acc k child kvs)
  then show ?case by (auto simp: omap_put_new image_Un)
qed auto

text \<open>The facts the codec lets into the session file.\<close>

definition usage_ok :: "wire_usage option \<Rightarrow> bool" where
  "usage_ok u = (case u of None \<Rightarrow> True | Some x \<Rightarrow> 0 \<le> input_tokens x \<and> 0 \<le> output_tokens x)"

fun valid_body :: "event_body \<Rightarrow> bool" where
  "valid_body (AssistantCommitted _ _ _ u) = usage_ok u"
| "valid_body (AssistantDone _ u) = usage_ok u"
| "valid_body (ToolRequested _ _ a) = (isRecord a \<and> json_value a)"
| "valid_body (ToolFinished _ r _) = (case r of None \<Rightarrow> True | Some v \<Rightarrow> json_value v)"
| "valid_body (CompactionRecorded _ n) = (case n of None \<Rightarrow> True | Some k \<Rightarrow> 0 \<le> k)"
| "valid_body _ = True"

definition valid_event :: "transcript_event \<Rightarrow> bool" where
  "valid_event e \<longleftrightarrow> ev_id e \<noteq> [] \<and> ev_session e \<noteq> [] \<and> 0 \<le> ev_ts e \<and> ev_ts e \<le> 2 ^ 53 - 1
     \<and> ev_turn e \<noteq> Some [] \<and> valid_body (ev_body e)"

fun body_wf :: "event_body \<Rightarrow> bool" where
  "body_wf (ToolRequested _ _ a) = js_wf a"
| "body_wf (ToolFinished _ r _) = (case r of None \<Rightarrow> True | Some v \<Rightarrow> js_wf v)"
| "body_wf _ = True"

lemma opt_member_simps [simp]:
  "opt_member k f None = []" "opt_member k f (Some v) = [(k, f v)]"
  by (simp_all add: opt_member_def)

lemma images_ok [simp]: "isOptionalImages (images_js is)"
  by (auto simp: images_js_def image_js_def list_all_iff)

lemma images_json [simp]: "json_value (images_js is)"
  by (auto simp: images_js_def image_js_def)

lemma usage_ok_js [simp]: "isOptionalUsage (usage_js u) \<longleftrightarrow> usage_ok (Some u)"
  by (auto simp: usage_js_def usage_ok_def isOptionalUsage_def)

lemma usage_json [simp]: "json_value (usage_js u)"
  by (auto simp: usage_js_def)

lemma optional_undef [simp]: "isOptionalUsage Undef" "usage_ok None"
  by (simp_all add: isOptionalUsage_def usage_ok_def)

lemma images_not_undef [simp]: "images_js is \<noteq> Undef" "usage_js u \<noteq> Undef" "streaming_js s \<noteq> Undef"
  by (simp_all add: images_js_def usage_js_def streaming_js_def)

lemma image_back [simp]: "image_of (image_js i) = i"
  by (simp add: image_of_def image_js_def)

lemma images_back [simp]: "images_of (images_js is) = is"
  by (simp add: images_of_def images_js_def comp_def)

lemma usage_back [simp]: "usage_of (usage_js u) = u"
  by (simp add: usage_of_def usage_js_def)

lemma isTranscriptEvent_event_js:
  assumes "body_wf (ev_body e)"
  shows "isTranscriptEvent (event_js e) \<longleftrightarrow> valid_event e"
proof (cases "ev_turn e")
  case None
  with assms show ?thesis
    by (cases "ev_body e")
      (auto simp: isTranscriptEvent_def event_js_def valid_event_def COMMON_KEYS_def json_value_iff
        streaming_js_def opt_member_def Let_def split: option.splits)
next
  case (Some t)
  with assms show ?thesis
    by (cases "ev_body e"; cases t)
      (auto simp: isTranscriptEvent_def event_js_def valid_event_def COMMON_KEYS_def json_value_iff
        streaming_js_def opt_member_def Let_def split: option.splits)
qed

lemma event_js_json: "valid_event e \<Longrightarrow> json_value (event_js e)"
  by (cases "ev_turn e"; cases "ev_body e")
    (auto simp: event_js_def valid_event_def streaming_js_def opt_member_def split: option.splits)

lemma valid_body_wf: "valid_body b \<Longrightarrow> body_wf b"
  by (cases b) (auto simp: json_value_iff split: option.splits)


lemma steer_only [simp]: "(Steer = x) = True"
  by (cases x) simp

lemma no_turn_member: "map_of (body_members b) ''turnId'' = None"
  by (cases b) (auto simp: opt_member_def split: option.splits)

lemma body_of_event_js: "valid_body (ev_body e) \<Longrightarrow> body_of_js (event_js e) = ev_body e"
  by (cases "ev_turn e"; cases "ev_body e")
    (auto simp: event_js_def body_of_js_def opt_field_def streaming_js_def opt_member_def Let_def
      split: option.splits)

lemma event_of_event_js: "valid_event e \<Longrightarrow> event_of_js (event_js e) = e"
  by (simp add: event_of_js_def valid_event_def body_of_event_js)
    (auto simp: event_js_def opt_field_def opt_member_def no_turn_member split: option.splits)

lemma encode_valid:
  "valid_event e \<Longrightarrow> encodeDurableTranscriptEventV1 (event_js e) = Inr (event_js e)"
  using valid_body_wf [of "ev_body e"]
  by (simp add: encodeDurableTranscriptEventV1_def isTranscriptEvent_event_js clone_id event_js_json valid_event_def)

lemma encode_invalid:
  "body_wf (ev_body e) \<Longrightarrow> \<not> valid_event e \<Longrightarrow>
   encodeDurableTranscriptEventV1 (event_js e) = Inl InvalidDurableEvent"
  by (simp add: encodeDurableTranscriptEventV1_def isTranscriptEvent_event_js)

text \<open>The converse: whatever passes the validator is a valid fact.\<close>

lemma usage_of_ok: "isOptionalUsage v \<Longrightarrow> v \<noteq> Undef \<Longrightarrow> usage_ok (Some (usage_of v))"
  by (cases "jfield v ''input_tokens''"; cases "jfield v ''output_tokens''")
    (auto simp: isOptionalUsage_def usage_ok_def usage_of_def)

lemma valid_body_of:
  assumes "js_wf v" and "isTranscriptEvent v"
  shows "valid_body (body_of_js v)"
proof -
  have fld: "js_wf (jfield v k)" for k using assms(1) by (rule js_wf_field)
  show ?thesis
    using assms(2) fld usage_of_ok
    by (cases "jfield v ''tokensBefore''")
      (auto simp: isTranscriptEvent_def body_of_js_def opt_field_def json_value_iff Let_def split: if_splits)
qed

lemma valid_event_of:
  assumes "js_wf v" and "isTranscriptEvent v"
  shows "valid_event (event_of_js v)"
proof -
  from assms obtain kvs where v: "v = Obj kvs" by (cases v) (auto simp: isTranscriptEvent_def)
  with assms have c: "hasCommonFields (Obj kvs)" by (simp add: isTranscriptEvent_def)
  have ne: "isNonEmptyString x \<Longrightarrow> the_str x \<noteq> []" for x by (cases x) auto
  have ts: "isSafeTimestamp x \<Longrightarrow> 0 \<le> the_num x \<and> the_num x \<le> 2 ^ 53 - 1" for x by (cases x) auto
  from c v have "ev_id (event_of_js v) \<noteq> []" "ev_session (event_of_js v) \<noteq> []"
    "ev_turn (event_of_js v) \<noteq> Some []" "0 \<le> ev_ts (event_of_js v)" "ev_ts (event_of_js v) \<le> 2 ^ 53 - 1"
    using ne ts [of "jfield v ''ts''"] by (auto simp: event_of_js_def opt_field_def simp del: jfield.simps)
  with valid_body_of [OF assms] show ?thesis by (simp add: valid_event_def event_of_js_def)
qed


text \<open>An absent member, or one that survives JSON.\<close>

definition jok :: "js \<Rightarrow> bool" where
  "jok v \<longleftrightarrow> v = Undef \<or> json_value v"

lemma jokI:
  "jok Undef" "is_string v \<Longrightarrow> jok v" "isNonEmptyString v \<Longrightarrow> jok v"
  "isSafeTimestamp v \<Longrightarrow> jok v" "isFiniteNonNegative v \<Longrightarrow> jok v" "js_wf v \<Longrightarrow> isJsonValue v \<Longrightarrow> jok v"
  by (cases v; simp add: jok_def json_value_iff)+

lemma jok_opt:
  "v = Undef \<or> v = Str s \<Longrightarrow> jok v" "v = Undef \<or> is_string v \<Longrightarrow> jok v"
  "js_wf v \<Longrightarrow> v = Undef \<or> isJsonValue v \<Longrightarrow> jok v" "v = Undef \<or> isFiniteNonNegative v \<Longrightarrow> jok v"
  by (auto simp: jokI)

lemma record_json:
  assumes "hasExactKeys v ks" and "isRecord v" and "js_wf v" and "list_all (\<lambda>k. jok (jfield v k)) ks"
    and "\<And>kvs. v = Obj kvs \<Longrightarrow> list_all (\<lambda>kv. snd kv \<noteq> Undef) kvs"
  shows "json_value v"
proof -
  from assms(2) obtain kvs where v: "v = Obj kvs" by (cases v) auto
  have "json_value c" if m: "(k, c) \<in> set kvs" for k c
  proof -
    from assms(3) v m have "jfield v k = c" by (simp add: map_of_is_SomeI)
    moreover from assms(1) v m have "k \<in> set ks" by (auto simp: list_all_iff)
    moreover from assms(5) [OF v] m have "c \<noteq> Undef" by (auto simp: list_all_iff)
    ultimately show ?thesis using assms(4) by (auto simp: list_all_iff jok_def)
  qed
  with assms(3) v show ?thesis by auto
qed

lemma present_members:
  assumes "hasExactKeys (Obj kvs) ks" and "distinct (map fst kvs)" and "\<forall>k \<in> set ks. jfield (Obj kvs) k \<noteq> Undef"
  shows "list_all (\<lambda>kv. snd kv \<noteq> Undef) kvs"
  using assms by (fastforce simp: list_all_iff map_of_is_SomeI split: option.splits)

lemma strings_json:
  assumes "hasExactKeys v ks" and "isRecord v" and "js_wf v"
    and "\<forall>k \<in> set ks. jok (jfield v k) \<and> jfield v k \<noteq> Undef"
  shows "json_value v"
  using assms by (intro record_json [of v ks]) (auto simp: list_all_iff [of _ ks] intro!: present_members)

lemma optional_images_jok:
  assumes "isOptionalImages v" and "js_wf v" shows "jok v"
proof (cases v)
  case (Arr xs)
  have "json_value i" if "i \<in> set xs" for i
  proof (rule strings_json)
    show "hasExactKeys i [''data'', ''mime'']" "isRecord i" "js_wf i"
      using assms Arr that by (auto simp: list_all_iff)
    have "is_string (jfield i ''data'')" "is_string (jfield i ''mime'')"
      using assms Arr that by (auto simp: list_all_iff)
    then show "\<forall>k \<in> set [''data'', ''mime'']. jok (jfield i k) \<and> jfield i k \<noteq> Undef"
      by (auto simp: is_string_iff jok_def)
  qed
  with Arr show ?thesis by (simp add: jok_def)
qed (use assms in \<open>auto simp: jok_def\<close>)

lemma optional_usage_jok:
  assumes "isOptionalUsage v" and "js_wf v" shows "jok v"
proof (cases "v = Undef")
  case False
  with assms(1) have u: "isRecord v" "hasExactKeys v [''input_tokens'', ''output_tokens'']"
    and n: "isFiniteNonNegative (jfield v ''input_tokens'')" "isFiniteNonNegative (jfield v ''output_tokens'')"
    by (simp_all add: isOptionalUsage_def)
  have d: "x \<noteq> Undef" if "isFiniteNonNegative x" for x using that by (cases x) auto
  have "json_value v"
    using n by (intro strings_json [OF u(2,1) assms(2)]) (auto simp: jokI d simp del: jfield.simps)
  then show ?thesis by (simp add: jok_def)
qed (simp add: jokI)

lemma transcript_event_json:
  assumes t: "isTranscriptEvent v" and wf: "js_wf v"
  shows "json_value v"
proof -
  from t obtain kvs where v: "v = Obj kvs" by (cases v) (auto simp: isTranscriptEvent_def)
  have c: "hasCommonFields (Obj kvs)" using t v by (simp add: isTranscriptEvent_def)
  have fld: "js_wf (jfield v k)" for k using wf by (rule js_wf_field)
  have common: "jok (jfield v k)" if "k \<in> set COMMON_KEYS" for k
    using c that by (auto simp: COMMON_KEYS_def v jokI simp del: jfield.simps)
  have "\<exists>ks. hasExactKeys v (COMMON_KEYS @ ks) \<and> list_all (\<lambda>k. jok (jfield v k)) ks"
    using t unfolding isTranscriptEvent_def Let_def
    apply (elim conjE)
    apply (simp only: split: if_split_asm)
             apply (elim conjE, rule exI, rule conjI, assumption,
       (simp add: jokI jok_opt fld optional_images_jok optional_usage_jok del: jfield.simps))+
    done
  then obtain ks where ks: "hasExactKeys v (COMMON_KEYS @ ks)" "list_all (\<lambda>k. jok (jfield v k)) ks" by blast
  show ?thesis
    using record_json [OF ks(1) _ wf] ks(2) common c v by (auto simp: list_all_iff)
qed

subsection \<open>The session file\<close>

text \<open>
  The documented effect of the host's \<open>appendEntry\<close>: a custom entry is added at the
  end of the session, or the call throws (\<open>accepts\<close> tells which, by writer and
  file). \<open>append_entry\<close> is the writer of \<open>bindTranscriptPersistence\<close>
  (\<open>session/sdk_session_projection.ts\<close>); its second reaction to a stale writer is
  in \<open>SessionProjection\<close>.
\<close>

definition custom_entry :: "js \<Rightarrow> js" where
  "custom_entry p = Obj [(''type'', Str ''custom''), (''customType'', Str TRANSCRIPT_EVENT_CUSTOM_TYPE), (''data'', p)]"

definition append_entry :: "('w \<Rightarrow> js list \<Rightarrow> bool) \<Rightarrow> 'w \<Rightarrow> transcript_event \<Rightarrow> js list \<Rightarrow> bool \<times> js list" where
  "append_entry accepts w e file =
     (case encodeDurableTranscriptEventV1 (event_js e) of
        Inl _ \<Rightarrow> (False, file)
      | Inr p \<Rightarrow> (if accepts w file then (True, file @ [custom_entry p]) else (False, file)))"

definition durable_facts :: "js list \<Rightarrow> transcript_event set" where
  "durable_facts file = {e. Decoded e \<in> decodeDurableTranscriptEntry ` set file}"

lemma decode_custom_entry:
  "valid_event e \<Longrightarrow> decodeDurableTranscriptEntry (custom_entry (event_js e)) = Decoded e"
  using valid_body_wf [of "ev_body e"]
  by (simp add: decodeDurableTranscriptEntry_def custom_entry_def isTranscriptEvent_event_js
      clone_id event_js_json event_of_event_js valid_event_def)

lemma custom_entry_json: "json_value p \<Longrightarrow> json_value (custom_entry p)"
  by (simp add: custom_entry_def)

lemma decode_valid:
  assumes "js_wf entry" and "decodeDurableTranscriptEntry entry = Decoded e"
  shows "valid_event e \<and> jfield entry ''customType'' = Str TRANSCRIPT_EVENT_CUSTOM_TYPE
    \<and> e = event_of_js (jfield entry ''data'')"
proof -
  have wf: "js_wf (jfield entry ''data'')" using assms(1) by (rule js_wf_field)
  from assms(2) have t: "isTranscriptEvent (jfield entry ''data'')"
    and c: "is_string (jfield entry ''customType'')" "the_str (jfield entry ''customType'') = TRANSCRIPT_EVENT_CUSTOM_TYPE"
    by (auto simp: decodeDurableTranscriptEntry_def Let_def split: if_splits option.splits)
  have j: "json_value (jfield entry ''data'')"
    using t wf by (rule transcript_event_json)
  with assms(2) t c wf valid_event_of show ?thesis
    by (auto simp: decodeDurableTranscriptEntry_def clone_id is_string_iff split: if_splits)
qed


subsection \<open>The event log\<close>

text \<open>\<open>JSON.stringify([sessionId, eventId])\<close>\<close>

definition eventIdentity :: "string \<Rightarrow> string \<Rightarrow> string" where
  "eventIdentity sid i = stringify (Arr [Str sid, Str i])"

abbreviation identity_of :: "transcript_event \<Rightarrow> string" where
  "identity_of e \<equiv> eventIdentity (ev_session e) (ev_id e)"

lemma eventIdentity_inj [simp]: "eventIdentity s i = eventIdentity s' i' \<longleftrightarrow> s = s' \<and> i = i'"
proof
  assume "eventIdentity s i = eventIdentity s' i'"
  then have "json_parse (stringify (Arr [Str s, Str i])) = json_parse (stringify (Arr [Str s', Str i']))"
    by (simp add: eventIdentity_def)
  then show "s = s' \<and> i = i'" by (simp add: json_round_trip del: stringify.simps)
qed simp

record 'w event_log =
  log_events :: "transcript_event list"
  log_index :: "(string, transcript_event) omap"
  log_writer :: "'w option"

datatype record_result = Recorded | Duplicate | Unavailable | Failed

definition new_log :: "'w event_log" where
  "new_log = \<lparr>log_events = [], log_index = [], log_writer = None\<rparr>"

definition bindPersistence :: "'w \<Rightarrow> 'w event_log \<Rightarrow> 'w event_log" where
  "bindPersistence w l = l\<lparr>log_writer := Some w\<rparr>"

text \<open>The argument is \<open>undefined\<close> in a call without one.\<close>

definition unbindPersistence :: "'w option \<Rightarrow> 'w event_log \<Rightarrow> 'w event_log" where
  "unbindPersistence w l = (if w \<noteq> None \<and> w \<noteq> log_writer l then l else l\<lparr>log_writer := None\<rparr>)"

definition install :: "transcript_event \<Rightarrow> 'w event_log \<Rightarrow> bool \<times> 'w event_log" where
  "install e l =
     (if omap_has (log_index l) (identity_of e) then (False, l)
      else (True, l\<lparr>log_index := omap_put (log_index l) (identity_of e) e, log_events := log_events l @ [e]\<rparr>))"

text \<open>
  \<open>put w e d\<close> is the call of the bound writer: whether it returned, and the
  storage afterwards.
\<close>

definition record_event ::
  "('w \<Rightarrow> transcript_event \<Rightarrow> 'd \<Rightarrow> bool \<times> 'd) \<Rightarrow> transcript_event \<Rightarrow> 'w event_log \<Rightarrow> 'd
     \<Rightarrow> record_result \<times> 'w event_log \<times> 'd" where
  "record_event put e l d =
     (if omap_has (log_index l) (identity_of e) then (Duplicate, l, d)
      else case log_writer l of
        None \<Rightarrow> (Unavailable, l, d)
      | Some w \<Rightarrow>
          (case encodeDurableTranscriptEventV1 (event_js e) of
             Inl _ \<Rightarrow> (Failed, l, d)
           | Inr _ \<Rightarrow>
               (case put w e d of
                  (False, d') \<Rightarrow> (Failed, l, d')
                | (True, d') \<Rightarrow> (Recorded, snd (install e l), d'))))"

fun hydrate :: "transcript_event list \<Rightarrow> 'w event_log \<Rightarrow> nat \<times> 'w event_log" where
  "hydrate [] l = (0, l)"
| "hydrate (e # es) l =
     (let (fresh, l') = install e l; (appended, l'') = hydrate es l'
      in ((if fresh then 1 else 0) + appended, l''))"

definition recordedTsFor :: "string \<Rightarrow> string \<Rightarrow> 'w event_log \<Rightarrow> int option" where
  "recordedTsFor sid i l = map_option ev_ts (map_of (log_index l) (eventIdentity sid i))"

definition hasPersistence :: "'w event_log \<Rightarrow> bool" where
  "hasPersistence l \<longleftrightarrow> log_writer l \<noteq> None"

definition clear_log :: "'w event_log \<Rightarrow> 'w event_log" where
  "clear_log l = l\<lparr>log_events := [], log_index := []\<rparr>"

definition replace_log :: "transcript_event list \<Rightarrow> 'w event_log \<Rightarrow> 'w event_log" where
  "replace_log es l = snd (hydrate es (clear_log l))"

definition forSession :: "string \<Rightarrow> 'w event_log \<Rightarrow> transcript_event list" where
  "forSession sid l = filter (\<lambda>e. ev_session e = sid) (log_events l)"

definition entries_log :: "'w event_log \<Rightarrow> transcript_event list" where
  "entries_log l = log_events l"

text \<open>The index holds exactly the visible events, under their identities.\<close>

definition log_wf :: "'w event_log \<Rightarrow> bool" where
  "log_wf l \<longleftrightarrow> log_index l = map (\<lambda>e. (identity_of e, e)) (log_events l)
     \<and> distinct (map identity_of (log_events l))"

lemma log_wf_new [simp]: "log_wf new_log"
  by (simp add: log_wf_def new_log_def)

lemma log_wf_clear [simp]: "log_wf (clear_log l)"
  by (simp add: log_wf_def clear_log_def)

lemma log_wf_writer [simp]:
  "log_wf (bindPersistence w l) = log_wf l" "log_wf (unbindPersistence w' l) = log_wf l"
  by (simp_all add: log_wf_def bindPersistence_def unbindPersistence_def)

lemma log_has_identity: "log_wf l \<Longrightarrow> omap_has (log_index l) k \<longleftrightarrow> k \<in> identity_of ` set (log_events l)"
  unfolding omap_has_iff by (simp add: log_wf_def image_image)

lemma install_events:
  "log_wf l \<Longrightarrow> log_events (snd (install e l)) =
     (if identity_of e \<in> identity_of ` set (log_events l) then log_events l else log_events l @ [e])"
  using log_has_identity [of l "identity_of e"] by (simp add: install_def)

lemma install_writer [simp]: "log_writer (snd (install e l)) = log_writer l"
  by (simp add: install_def)

lemma log_wf_install [wf_intros]: "log_wf l \<Longrightarrow> log_wf (snd (install e l))"
  using log_has_identity [of l "identity_of e"]
  by (auto simp: install_def log_wf_def omap_put_new image_image comp_def)

lemma log_wf_hydrate [wf_intros]: "log_wf l \<Longrightarrow> log_wf (snd (hydrate es l))"
proof (induction es arbitrary: l)
  case (Cons e es)
  then show ?case using log_wf_install [of l e] by (simp add: split_beta Let_def)
qed simp

lemma hydrate_writer [simp]: "log_writer (snd (hydrate es l)) = log_writer l"
  by (induction es arbitrary: l) (simp_all add: split_beta Let_def)

lemma hydrate_Cons: "snd (hydrate (e # es) l) = snd (hydrate es (snd (install e l)))"
  by (simp add: split_beta Let_def)

lemma log_wf_record [wf_intros]: "log_wf l \<Longrightarrow> record_event put e l d = (r, l', d') \<Longrightarrow> log_wf l'"
  by (auto simp: record_event_def log_wf_install split: if_splits option.splits sum.splits prod.splits bool.splits)

lemma record_event_cases:
  assumes "record_event put e l d = (r, l', d')"
  obtains "r = Duplicate" "l' = l" "d' = d" "omap_has (log_index l) (identity_of e)"
  | "r = Unavailable" "l' = l" "d' = d" "\<not> omap_has (log_index l) (identity_of e)"
  | "r = Failed" "l' = l" "\<not> omap_has (log_index l) (identity_of e)" "d' = d \<or> (\<exists>w. log_writer l = Some w \<and> put w e d = (False, d'))"
  | w p where "r = Recorded" "log_writer l = Some w" "put w e d = (True, d')"
      "encodeDurableTranscriptEventV1 (event_js e) = Inr p" "l' = snd (install e l)"
      "\<not> omap_has (log_index l) (identity_of e)"
  using assms
  by (auto simp: record_event_def split: if_splits option.splits sum.splits prod.splits bool.splits)


subsection \<open>Persistence before visibility\<close>

datatype 'w log_op =
    RecordOp transcript_event
  | HydrateOp "transcript_event list"
  | ReplaceOp "transcript_event list"
  | ClearOp
  | BindOp 'w
  | UnbindOp "'w option"

fun log_step :: "('w \<Rightarrow> transcript_event \<Rightarrow> 'd \<Rightarrow> bool \<times> 'd) \<Rightarrow> 'w log_op \<Rightarrow> 'w event_log \<times> 'd \<Rightarrow> 'w event_log \<times> 'd" where
  "log_step put (RecordOp e) (l, d) = snd (record_event put e l d)"
| "log_step put (HydrateOp es) (l, d) = (snd (hydrate es l), d)"
| "log_step put (ReplaceOp es) (l, d) = (replace_log es l, d)"
| "log_step put ClearOp (l, d) = (clear_log l, d)"
| "log_step put (BindOp w) (l, d) = (bindPersistence w l, d)"
| "log_step put (UnbindOp w) (l, d) = (unbindPersistence w l, d)"

definition log_run where
  "log_run put ops s = foldl (\<lambda>s op. log_step put op s) s ops"

fun loaded :: "'w log_op \<Rightarrow> transcript_event list" where
  "loaded (HydrateOp es) = es"
| "loaded (ReplaceOp es) = es"
| "loaded _ = []"

lemma log_run_snoc: "log_run put (ops @ [op]) s = log_step put op (log_run put ops s)"
  by (simp add: log_run_def)

lemma log_step_wf: "log_wf (fst s) \<Longrightarrow> log_wf (fst (log_step put op s))"
  using log_wf_record [of "fst s" put _ "snd s" _ "fst (snd (record_event put _ (fst s) (snd s)))"
      "snd (snd (record_event put _ (fst s) (snd s)))"]
  by (cases s; cases op) (auto simp: replace_log_def log_wf_hydrate, metis prod.collapse)

lemma log_run_wf: "log_wf (fst (log_run put ops (new_log, d)))"
  by (induction ops rule: rev_induct) (simp_all add: log_run_snoc log_step_wf, simp add: log_run_def)

lemma install_subset: "set (log_events (snd (install e l))) \<subseteq> insert e (set (log_events l))"
  by (auto simp: install_def)

lemma hydrate_subset: "set (log_events (snd (hydrate es l))) \<subseteq> set es \<union> set (log_events l)"
proof (induction es arbitrary: l)
  case (Cons e es)
  from Cons [of "snd (install e l)"] install_subset [of e l] show ?case
    unfolding hydrate_Cons by auto
qed simp

text \<open>
  What the log relies on: a put that returns makes the fact durable, and no
  put loses a durable fact.
\<close>

locale transcript_writer =
  fixes put :: "'w \<Rightarrow> transcript_event \<Rightarrow> 'd \<Rightarrow> bool \<times> 'd"
    and durable :: "'d \<Rightarrow> transcript_event set"
  assumes written: "put w e d = (True, d') \<Longrightarrow> encodeDurableTranscriptEventV1 (event_js e) = Inr p \<Longrightarrow>
      body_wf (ev_body e) \<Longrightarrow> e \<in> durable d'"
    and kept: "put w e d = (ok, d') \<Longrightarrow> durable d \<subseteq> durable d'"
begin

lemma record_keeps: "record_event put e l d = (r, l', d') \<Longrightarrow> durable d \<subseteq> durable d'"
  by (erule record_event_cases) (auto dest: kept)

lemma record_visible:
  assumes "record_event put e l d = (r, l', d')"
  shows "{x \<in> set (log_events l'). body_wf (ev_body x)} \<subseteq> set (log_events l) \<union> durable d'"
  using assms
proof (cases rule: record_event_cases)
  case (4 w p)
  with install_subset [of e l] written show ?thesis by auto
qed auto

lemma run_visible:
  "{x \<in> set (log_events (fst (log_run put ops (new_log, d)))). body_wf (ev_body x)}
     \<subseteq> (\<Union>op \<in> set ops. set (loaded op)) \<union> durable (snd (log_run put ops (new_log, d)))"
proof (induction ops rule: rev_induct)
  case Nil
  then show ?case by (simp add: log_run_def new_log_def)
next
  case (snoc op ops)
  obtain l1 d1 where s: "log_run put ops (new_log, d) = (l1, d1)" by (cases "log_run put ops (new_log, d)")
  show ?case
  proof (cases op)
    case (RecordOp e)
    obtain r l2 d2 where r: "record_event put e l1 d1 = (r, l2, d2)" by (cases "record_event put e l1 d1")
    from record_visible [OF r] record_keeps [OF r] snoc show ?thesis
      by (auto simp: log_run_snoc s RecordOp r)
  next
    case (HydrateOp es)
    from hydrate_subset [of es l1] snoc show ?thesis by (auto simp: log_run_snoc s HydrateOp)
  next
    case (ReplaceOp es)
    from hydrate_subset [of es "clear_log l1"] show ?thesis
      by (auto simp: log_run_snoc s ReplaceOp replace_log_def clear_log_def)
  qed (use snoc in \<open>auto simp: log_run_snoc s clear_log_def bindPersistence_def unbindPersistence_def\<close>)
qed

end

lemma append_entry_cases:
  assumes "append_entry accepts w e file = (ok, file')"
  obtains "\<not> ok" "file' = file" | p where "ok" "encodeDurableTranscriptEventV1 (event_js e) = Inr p" "file' = file @ [custom_entry p]"
  using assms by (auto simp: append_entry_def split: sum.splits if_splits)

interpretation session_file: transcript_writer "append_entry accepts" durable_facts for accepts
proof
  fix w e d d' p
  assume a: "append_entry accepts w e d = (True, d')" and p: "encodeDurableTranscriptEventV1 (event_js e) = Inr p"
    and wf: "body_wf (ev_body e)"
  from p wf have v: "valid_event e" and [simp]: "p = event_js e"
    by (cases "valid_event e"; simp add: encode_invalid encode_valid)+
  from a p have "d' = d @ [custom_entry (event_js e)]" by (auto elim!: append_entry_cases)
  with decode_custom_entry [OF v] show "e \<in> durable_facts d'" by (simp add: durable_facts_def)
next
  fix w e d d' ok
  assume "append_entry accepts w e d = (ok, d')"
  then show "durable_facts d \<subseteq> durable_facts d'" by (cases rule: append_entry_cases) (auto simp: durable_facts_def)
qed

lemma record_reports:
  assumes "log_wf l" and "record_event put e l d = (r, l', d')"
  shows "(r = Recorded \<or> r = Duplicate) = (identity_of e \<in> identity_of ` set (log_events l'))
    \<and> (r = Recorded \<or> l' = l)"
  using assms(2)
proof (cases rule: record_event_cases)
  case (4 w p)
  with assms(1) show ?thesis by (simp add: install_events)
qed (use log_has_identity [OF assms(1), of "identity_of e"] in simp_all)

definition session_log :: "('w \<Rightarrow> js list \<Rightarrow> bool) \<Rightarrow> 'w log_op list \<Rightarrow> js list \<Rightarrow> 'w event_log \<times> js list" where
  "session_log accepts ops d = log_run (append_entry accepts) ops (new_log, d)"

text \<open>
  C13. Whatever operations a transcript log went through, binding and unbinding of writers,
  failed writes and replaced snapshots included, a fact is visible in it only if a
  snapshot loaded it or it can be decoded from the session file; no identity is
  visible twice; and \<open>record\<close> answers \<open>recorded\<close> or \<open>duplicate\<close> exactly when the fact's
  identity is visible afterwards, leaving the log as it was in every other case.
\<close>

theorem visible_facts_are_durable:
  "{x \<in> set (log_events (fst (session_log accepts ops d))). body_wf (ev_body x)}
           \<subseteq> (\<Union>op \<in> set ops. set (loaded op)) \<union> durable_facts (snd (session_log accepts ops d))
       \<and> distinct (map identity_of (log_events (fst (session_log accepts ops d))))
       \<and> (case record_event (append_entry accepts) e (fst (session_log accepts ops d)) (snd (session_log accepts ops d)) of
            (r, l', d') \<Rightarrow>
              (r = Recorded \<or> r = Duplicate) = (identity_of e \<in> identity_of ` set (log_events l'))
              \<and> (r = Recorded \<or> l' = fst (session_log accepts ops d)))"
proof -
  let ?l = "fst (session_log accepts ops d)"
  have wf: "log_wf ?l" unfolding session_log_def by (rule log_run_wf)
  obtain r l' d' where r: "record_event (append_entry accepts) e ?l (snd (session_log accepts ops d)) = (r, l', d')"
    by (cases "record_event (append_entry accepts) e ?l (snd (session_log accepts ops d))")
  with wf session_file.run_visible [of accepts ops d] record_reports [OF wf r] show ?thesis
    by (simp add: r session_log_def log_wf_def)
qed


text \<open>
  C14. A fact whose identifiers are not empty, whose timestamp is a safe integer and whose
  counts are not negative is written to the session file and read back from its JSON
  text as the same fact; every other fact is refused before it is written. Whatever
  custom entry the decoder accepts carries such a fact and the v1 type, so entries of
  other extensions and of later versions are never taken for facts.
\<close>

theorem durable_round_trip:
  assumes "body_wf (ev_body e)" and "js_wf entry"
  shows "(case encodeDurableTranscriptEventV1 (event_js e) of
            Inr p \<Rightarrow> valid_event e
              \<and> map_option decodeDurableTranscriptEntry (json_parse (stringify (custom_entry p))) = Some (Decoded e)
          | Inl _ \<Rightarrow> \<not> valid_event e)
       \<and> (case decodeDurableTranscriptEntry entry of
            Decoded x \<Rightarrow> valid_event x \<and> jfield entry ''customType'' = Str TRANSCRIPT_EVENT_CUSTOM_TYPE
          | _ \<Rightarrow> True)"
proof -
  have "map_option decodeDurableTranscriptEntry (json_parse (stringify (custom_entry (event_js e)))) = Some (Decoded e)"
    if "valid_event e"
    using that by (simp add: json_round_trip custom_entry_json event_js_json decode_custom_entry)
  with assms show ?thesis
    using encode_valid [of e] encode_invalid [of e] decode_valid [of entry]
    by (cases "valid_event e") (auto split: durable_decode.splits)
qed

definition sample_fact :: transcript_event where
  "sample_fact = \<lparr>ev_id = ''e1'', ev_session = ''s1'', ev_ts = 7, ev_turn = None,
     ev_body = UserConfirmed ''m1'' ''hello'' (Some [\<lparr>img_data = ''AA'', img_mime = ''image/png''\<rparr>]) (Some Steer)\<rparr>"

definition sample_entry :: js where
  "sample_entry = Obj [(''type'', Str ''custom''), (''customType'', Str ''outpost-pi.transcript-event.v2''), (''data'', Null)]"

theorem durable_round_trip_witness:
  "encodeDurableTranscriptEventV1 (event_js sample_fact) = Inr (event_js sample_fact)
   \<and> map_option decodeDurableTranscriptEntry (json_parse (stringify (custom_entry (event_js sample_fact)))) = Some (Decoded sample_fact)
   \<and> decodeDurableTranscriptEntry sample_entry = UnsupportedVersion"
proof -
  have e: "encodeDurableTranscriptEventV1 (event_js sample_fact) = Inr (event_js sample_fact)" by code_simp
  have "body_wf (ev_body sample_fact)" "js_wf sample_entry"
    by (simp_all add: sample_fact_def sample_entry_def)
  from durable_round_trip [OF this] e
  have "map_option decodeDurableTranscriptEntry (json_parse (stringify (custom_entry (event_js sample_fact)))) = Some (Decoded sample_fact)"
    by simp
  moreover have "decodeDurableTranscriptEntry sample_entry = UnsupportedVersion" by code_simp
  ultimately show ?thesis using e by simp
qed

end
