(* ===== verification/TranscriptHistory.thy ===== *)
theory TranscriptHistory imports Transcript
begin

text \<open>
  \<open>session/transcript_projection.ts\<close>: the bounded wire history of a session's facts,
  and the reconciliation of the host's context entries, in which the durable facts
  of the session file win over facts guessed from the host's own messages.

  Messages and entries are the host's objects, \<open>js\<close> values of an unchecked shape.
  \<open>Date.parse\<close> is the argument \<open>date_parse\<close> (\<open>None\<close> is \<open>NaN\<close>). A non-finite timestamp,
  a non-object in the place of an entry and a user-defined \<open>toString\<close> are outside the
  model.
\<close>

subsection \<open>Language primitives\<close>

fun js_truthy :: "js \<Rightarrow> bool" where
  "js_truthy Undef = False"
| "js_truthy Null = False"
| "js_truthy (Bool b) = b"
| "js_truthy (Num n) = (n \<noteq> 0)"
| "js_truthy NonFinite = True"
| "js_truthy (Str s) = (s \<noteq> [])"
| "js_truthy _ = True"

text \<open>\<open>String(v)\<close>; in an array \<open>null\<close> and \<open>undefined\<close> print as nothing.\<close>

fun js_String :: "js \<Rightarrow> string"
and js_join :: "js list \<Rightarrow> string" where
  "js_String (Str s) = s"
| "js_String (Num n) = int_text n"
| "js_String (Bool b) = (if b then ''true'' else ''false'')"
| "js_String Null = ''null''"
| "js_String Undef = ''undefined''"
| "js_String NonFinite = ''NaN''"
| "js_String (Obj _) = ''[object Object]''"
| "js_String (Arr xs) = js_join xs"
| "js_join [] = ''''"
| "js_join [x] = (if x = Null \<or> x = Undef then '''' else js_String x)"
| "js_join (x # y # xs) = (if x = Null \<or> x = Undef then '''' else js_String x) @ '','' @ js_join (y # xs)"

text \<open>\<open>v ?? d\<close>\<close>

definition nullish :: "js \<Rightarrow> js \<Rightarrow> js" where
  "nullish v d = (if v = Undef \<or> v = Null then d else v)"

subsection \<open>Wire history\<close>

datatype history_event =
    HistoryUserInput int string string "wire_image list option" "streaming_behavior option"
  | HistoryAgentMessage int string string string "wire_usage option"
  | HistoryToolRequest int string string js
  | HistoryToolResult int string "string + js option"
  | HistoryCompaction int string int
  | HistoryError int "string option" string string

record seen_ids =
  seen_users :: "string list"
  seen_requests :: "string list"
  seen_finishes :: "string list"
  seen_assistants :: "string list"
  seen_compactions :: "string list"
  seen_errors :: "string list"

definition nothing_seen :: seen_ids where
  "nothing_seen = \<lparr>seen_users = [], seen_requests = [], seen_finishes = [], seen_assistants = [],
     seen_compactions = [], seen_errors = []\<rparr>"

definition toWireUsage :: "wire_usage option \<Rightarrow> wire_usage option" where
  "toWireUsage u = map_option (\<lambda>u. \<lparr>input_tokens = input_tokens u, output_tokens = output_tokens u\<rparr>) u"

definition some_images :: "wire_image list option \<Rightarrow> wire_image list option" where
  "some_images is = (case is of Some (i # r) \<Rightarrow> Some (i # r) | _ \<Rightarrow> None)"

definition push_user where
  "push_user e c t is sb s =
     (if c \<in> set (seen_users s) then (s, [])
      else (s\<lparr>seen_users := oset_add (seen_users s) c\<rparr>,
            [HistoryUserInput (ev_ts e) c t (some_images is) sb]))"

definition history_step :: "string list \<Rightarrow> transcript_event \<Rightarrow> seen_ids \<Rightarrow> seen_ids \<times> history_event list" where
  "history_step finished e s =
    (case ev_body e of
       UserSubmitted c t is \<Rightarrow> push_user e c t is None s
     | UserConfirmed c t is sb \<Rightarrow> push_user e c t is sb s
     | AssistantCommitted m r t u \<Rightarrow>
         (if m \<in> set (seen_assistants s) then (s, [])
          else (s\<lparr>seen_assistants := oset_add (seen_assistants s) m\<rparr>,
                [HistoryAgentMessage (ev_ts e) r t m (toWireUsage u)]))
     | ToolRequested c t a \<Rightarrow>
         (if t = ''agent-network'' \<and> c \<notin> set finished then (s, [])
          else if c \<in> set (seen_requests s) then (s, [])
          else (s\<lparr>seen_requests := oset_add (seen_requests s) c\<rparr>, [HistoryToolRequest (ev_ts e) c t a]))
     | ToolFinished c r err \<Rightarrow>
         (if c \<in> set (seen_finishes s) then (s, [])
          else (s\<lparr>seen_finishes := oset_add (seen_finishes s) c\<rparr>,
                [HistoryToolResult (ev_ts e) c (case err of Some x \<Rightarrow> Inl x | None \<Rightarrow> Inr r)]))
     | CompactionRecorded sm n \<Rightarrow>
         (if ev_id e \<in> set (seen_compactions s) then (s, [])
          else (s\<lparr>seen_compactions := oset_add (seen_compactions s) (ev_id e)\<rparr>,
                [HistoryCompaction (ev_ts e) sm (case n of None \<Rightarrow> 0 | Some k \<Rightarrow> k)]))
     | ProviderErrorEvent r code m \<Rightarrow>
         (if ev_id e \<in> set (seen_errors s) then (s, [])
          else (s\<lparr>seen_errors := oset_add (seen_errors s) (ev_id e)\<rparr>,
                [HistoryError (ev_ts e) (if r = Some [] then None else r) code m]))
     | UserFailed _ _ _ \<Rightarrow> (s, [])
     | AssistantDelta _ _ \<Rightarrow> (s, [])
     | AssistantDone _ _ \<Rightarrow> (s, []))"

fun history_from :: "string list \<Rightarrow> seen_ids \<Rightarrow> transcript_event list \<Rightarrow> history_event list" where
  "history_from finished s [] = []"
| "history_from finished s (e # es) =
     (let (s', out) = history_step finished e s in out @ history_from finished s' es)"

fun finished_id :: "event_body \<Rightarrow> string option" where
  "finished_id (ToolFinished c _ _) = Some c"
| "finished_id _ = None"

definition finishedToolIds :: "transcript_event list \<Rightarrow> string list" where
  "finishedToolIds es = List.map_filter (\<lambda>e. finished_id (ev_body e)) es"

definition transcriptEventsToSessionHistory :: "transcript_event list \<Rightarrow> history_event list" where
  "transcriptEventsToSessionHistory es = history_from (finishedToolIds es) nothing_seen es"

fun dedupe_from :: "string list \<Rightarrow> transcript_event list \<Rightarrow> transcript_event list" where
  "dedupe_from seen [] = []"
| "dedupe_from seen (e # es) =
     (if identity_of e \<in> set seen then dedupe_from seen es
      else e # dedupe_from (oset_add seen (identity_of e)) es)"

definition dedupeTranscriptEvents :: "transcript_event list \<Rightarrow> transcript_event list" where
  "dedupeTranscriptEvents es = dedupe_from [] es"

record history_projection =
  hp_events :: "history_event list"
  hp_truncated :: bool

text \<open>\<open>xs.slice(-n)\<close> for a positive \<open>n\<close>.\<close>

definition last_n :: "nat \<Rightarrow> 'a list \<Rightarrow> 'a list" where
  "last_n n xs = drop (length xs - n) xs"

definition projectSessionHistory :: "string \<Rightarrow> transcript_event list \<Rightarrow> int \<Rightarrow> history_projection" where
  "projectSessionHistory sid es limit =
    (let deduped = filter (\<lambda>e. ev_session e = sid) (dedupeTranscriptEvents es);
         allEvents = transcriptEventsToSessionHistory deduped;
         effectiveLimit = max 0 limit
     in \<lparr>hp_events = (if 0 < effectiveLimit then last_n (nat effectiveLimit) allEvents else []),
         hp_truncated = (effectiveLimit < int (length allEvents))\<rparr>)"

subsection \<open>Facts guessed from the host's messages\<close>

definition deterministicTranscriptEventId :: "string \<Rightarrow> string \<Rightarrow> string \<Rightarrow> string" where
  "deterministicTranscriptEventId sid kind key = ''server:'' @ sid @ '':'' @ kind @ '':'' @ key"

definition block_text :: "js \<Rightarrow> string" where
  "block_text b = js_String (nullish (jfield b ''text'') (Str ''''))"

definition stringifyContent :: "js \<Rightarrow> string" where
  "stringifyContent content = (case content of
     Str s \<Rightarrow> s
   | Arr bs \<Rightarrow> concat (map (\<lambda>b. if is_object b \<and> jfield b ''type'' = Str ''text'' then block_text b else '''') bs)
   | _ \<Rightarrow> '''')"

definition stringifyToolResult :: "js \<Rightarrow> string" where
  "stringifyToolResult v = (case v of
     Str s \<Rightarrow> s
   | Arr _ \<Rightarrow> stringifyContent v
   | Obj _ \<Rightarrow>
       (if is_array (jfield v ''content'') then stringifyContent (jfield v ''content'')
        else case jfield v ''text'' of Str t \<Rightarrow> t | _ \<Rightarrow> stringify v)
   | Null \<Rightarrow> ''''
   | Undef \<Rightarrow> ''''
   | _ \<Rightarrow> js_String v)"

definition image_block :: "js \<Rightarrow> wire_image option" where
  "image_block b =
     (if is_object b \<and> jfield b ''type'' = Str ''image'' \<and> is_string (jfield b ''data'') \<and> is_string (jfield b ''mimeType'')
      then Some \<lparr>img_data = the_str (jfield b ''data''), img_mime = the_str (jfield b ''mimeType'')\<rparr>
      else None)"

definition imagesFromContent :: "js \<Rightarrow> wire_image list" where
  "imagesFromContent content = List.map_filter image_block (the_list content)"

text \<open>\<open>transcriptUserContentSignature\<close>: absent images and an empty list sign alike.\<close>

definition transcriptUserContentSignature :: "string \<Rightarrow> wire_image list option \<Rightarrow> string" where
  "transcriptUserContentSignature t is =
     stringify (Obj [(''text'', Str t), (''images'', images_js (case is of None \<Rightarrow> [] | Some xs \<Rightarrow> xs))])"

definition sync_id :: "int \<Rightarrow> string" where
  "sync_id ts = ''sync_'' @ int_text ts"

definition num_or :: "int \<Rightarrow> js \<Rightarrow> int" where
  "num_or d v = (case as_num v of Some n \<Rightarrow> n | None \<Rightarrow> d)"

definition message_ts :: "js \<Rightarrow> int" where
  "message_ts m = num_or 0 (jfield m ''timestamp'')"

definition usage_of_message :: "js \<Rightarrow> wire_usage option" where
  "usage_of_message m =
     (if js_truthy (jfield m ''usage'')
      then Some \<lparr>input_tokens = num_or 0 (jfield (jfield m ''usage'') ''input''),
                 output_tokens = num_or 0 (jfield (jfield m ''usage'') ''output'')\<rparr>
      else None)"

definition server_event :: "string \<Rightarrow> string \<Rightarrow> int \<Rightarrow> event_body \<Rightarrow> transcript_event" where
  "server_event sid key ts b =
     \<lparr>ev_id = deterministicTranscriptEventId sid (kind_of b) key, ev_session = sid, ev_ts = ts,
      ev_turn = None, ev_body = b\<rparr>"

text \<open>One content block of an assistant message, at its index.\<close>

definition block_events :: "string \<Rightarrow> int \<Rightarrow> string option \<Rightarrow> wire_usage option \<Rightarrow> nat \<times> js \<Rightarrow> transcript_event list" where
  "block_events sid ts lastUser usage ib =
    (case ib of (i, b) \<Rightarrow>
      if \<not> is_object b then []
      else if jfield b ''type'' = Str ''text'' then
        (let text = block_text b; messageId = sync_id ts @ '':assistant:'' @ nat_text i in
         if text = [] then []
         else [server_event sid messageId ts
                 (AssistantCommitted messageId (case lastUser of Some u \<Rightarrow> u | None \<Rightarrow> sync_id ts) text usage)])
      else if jfield b ''type'' = Str ''toolCall'' then
        (let c = js_String (nullish (jfield b ''id'') (Str (sync_id ts @ '':tool:'' @ nat_text i))) in
         [server_event sid c ts
            (ToolRequested c (js_String (nullish (jfield b ''name'') (Str '''')))
              (if isRecord (jfield b ''arguments'') then jfield b ''arguments'' else Obj []))])
      else [])"

definition message_content :: "js \<Rightarrow> js list" where
  "message_content m = the_list (jfield m ''content'')"

definition message_events :: "string \<Rightarrow> string option \<Rightarrow> nat \<Rightarrow> js \<Rightarrow> string option \<times> transcript_event list" where
  "message_events sid lastUser index m =
    (let ts = message_ts m; role = jfield m ''role'' in
     if role = Str ''compaction'' \<or> role = Str ''compactionSummary'' then
       (let summary = (if role = Str ''compactionSummary'' then the_str (jfield m ''summary'')
                       else the_str (jfield m ''content''))
        in (lastUser, [server_event sid (int_text ts) ts
              (CompactionRecorded summary (Some (num_or 0 (jfield m ''tokensBefore''))))]))
     else if role = Str ''user'' then
       (let images = imagesFromContent (jfield m ''content'') in
        (Some (sync_id ts),
         [server_event sid (sync_id ts) ts
            (UserConfirmed (sync_id ts) (stringifyContent (jfield m ''content''))
              (if 0 < length images then Some images else None) None)]))
     else if role = Str ''assistant'' then
       (lastUser, concat (map (block_events sid ts lastUser (usage_of_message m))
                    (enumerate 0 (message_content m))))
     else if role = Str ''toolResult'' then
       (let c = js_String (nullish (jfield m ''toolCallId'') (Str (sync_id ts @ '':tool-result:'' @ nat_text index)));
            text = stringifyToolResult (jfield m ''content'')
        in (lastUser, [server_event sid c ts
              (if js_truthy (jfield m ''isError'') then ToolFinished c None (Some text)
               else ToolFinished c (Some (Str text)) None)]))
     else (lastUser, []))"

fun map_messages :: "string \<Rightarrow> string option \<Rightarrow> nat \<Rightarrow> js list \<Rightarrow> transcript_event list" where
  "map_messages sid lastUser i [] = []"
| "map_messages sid lastUser i (m # ms) =
     (let (lastUser', es) = message_events sid lastUser i m in es @ map_messages sid lastUser' (Suc i) ms)"

definition mapPreDurableSdkMessagesToTranscriptEvents :: "string \<Rightarrow> js list \<Rightarrow> transcript_event list" where
  "mapPreDurableSdkMessagesToTranscriptEvents sid ms = map_messages sid None 0 ms"

subsection \<open>Reconciliation\<close>

definition projectedEventCount :: "js \<Rightarrow> nat" where
  "projectedEventCount m =
    (let role = jfield m ''role'' in
     if role = Str ''user'' \<or> role = Str ''toolResult'' \<or> role = Str ''compaction'' \<or> role = Str ''compactionSummary''
     then 1
     else if role \<noteq> Str ''assistant'' \<or> \<not> is_array (jfield m ''content'') then 0
     else length (filter (\<lambda>b. is_object b \<and> (jfield b ''type'' = Str ''toolCall''
            \<or> jfield b ''type'' = Str ''text'' \<and> block_text b \<noteq> [])) (message_content m)))"

text \<open>The message entries with their places among the entries.\<close>

definition message_sources :: "js list \<Rightarrow> (nat \<times> js) list" where
  "message_sources entries =
     map (\<lambda>(i, e). (i, jfield e ''message''))
       (filter (\<lambda>(i, e). jfield e ''type'' = Str ''message'' \<and> jhas e ''message'') (enumerate 0 entries))"

fun slice_by :: "transcript_event list \<Rightarrow> (nat \<times> js) list \<Rightarrow> (nat \<times> transcript_event list) list" where
  "slice_by mapped [] = []"
| "slice_by mapped ((source, m) # ms) =
     (source, take (projectedEventCount m) mapped) # slice_by (drop (projectedEventCount m) mapped) ms"

definition indexPreDurableContextEvents :: "string \<Rightarrow> js list \<Rightarrow> (nat \<times> transcript_event list) list" where
  "indexPreDurableContextEvents sid entries =
     (let sources = message_sources entries
      in slice_by (mapPreDurableSdkMessagesToTranscriptEvents sid (map snd sources)) sources)"

fun user_content :: "event_body \<Rightarrow> (string \<times> string) option" where
  "user_content (UserSubmitted c t is) = Some (c, transcriptUserContentSignature t is)"
| "user_content (UserConfirmed c t is _) = Some (c, transcriptUserContentSignature t is)"
| "user_content _ = None"

definition signature_of :: "transcript_event \<Rightarrow> string option" where
  "signature_of e = map_option snd (user_content (ev_body e))"

text \<open>The search of the inner loop: the nearest unclaimed message before the durable entry.\<close>

definition claim_index :: "(nat \<times> transcript_event list) list \<Rightarrow> nat list \<Rightarrow> nat \<Rightarrow> string \<Rightarrow> nat option" where
  "claim_index fallbacks claimed durableIndex signature =
     find (\<lambda>i. i \<notin> set claimed
        \<and> (case map_of fallbacks i of None \<Rightarrow> False
           | Some es \<Rightarrow> list_ex (\<lambda>e. signature_of e = Some signature) es))
       (rev [0..<durableIndex])"

fun bind_claims :: "(nat \<times> transcript_event list) list \<Rightarrow> (nat \<times> transcript_event) list \<Rightarrow> nat list \<Rightarrow> string list \<Rightarrow> nat list" where
  "bind_claims fallbacks [] claimed ids = claimed"
| "bind_claims fallbacks ((i, e) # ds) claimed ids =
     (case user_content (ev_body e) of
        None \<Rightarrow> bind_claims fallbacks ds claimed ids
      | Some (c, signature) \<Rightarrow>
          (if c \<in> set ids then bind_claims fallbacks ds claimed ids
           else case claim_index fallbacks claimed i signature of
             None \<Rightarrow> bind_claims fallbacks ds claimed (oset_add ids c)
           | Some j \<Rightarrow> bind_claims fallbacks ds (oset_add claimed j) (oset_add ids c)))"

definition bindDurableUserClaims :: "(nat \<times> transcript_event) list \<Rightarrow> (nat \<times> transcript_event list) list \<Rightarrow> nat list" where
  "bindDurableUserClaims durables fallbacks = bind_claims fallbacks durables [] []"

fun tool_of :: "event_body \<Rightarrow> string option" where
  "tool_of (ToolRequested c _ _) = Some c"
| "tool_of (ToolFinished c _ _) = Some c"
| "tool_of _ = None"

definition toolCollisionKey :: "transcript_event \<Rightarrow> string option" where
  "toolCollisionKey e = map_option (\<lambda>c. ev_kind e @ CHR 0x00 # c) (tool_of (ev_body e))"

record durable_index =
  di_ids :: "string list"
  di_tools :: "string list"
  di_assistants :: "string list"
  di_compactions :: "int list"

definition index_fact :: "transcript_event \<Rightarrow> durable_index \<Rightarrow> durable_index" where
  "index_fact e d0 = (let d = d0\<lparr>di_ids := oset_add (di_ids d0) (ev_id e)\<rparr> in
     case toolCollisionKey e of
       Some k \<Rightarrow> d\<lparr>di_tools := oset_add (di_tools d) k\<rparr>
     | None \<Rightarrow> (case ev_body e of
         AssistantCommitted m _ _ _ \<Rightarrow> d\<lparr>di_assistants := oset_add (di_assistants d) m\<rparr>
       | CompactionRecorded _ _ \<Rightarrow> d\<lparr>di_compactions := oset_add (di_compactions d) (ev_ts e)\<rparr>
       | _ \<Rightarrow> d))"

fun index_durables :: "string \<Rightarrow> (nat \<times> js) list \<Rightarrow> durable_index \<Rightarrow> (nat \<times> transcript_event) list \<times> durable_index" where
  "index_durables sid [] d = ([], d)"
| "index_durables sid ((i, entry) # es) d =
     (case decodeDurableTranscriptEntry entry of
        Decoded e0 \<Rightarrow>
          (if ev_id e0 \<in> set (di_ids d) then index_durables sid es d
           else let e = e0\<lparr>ev_session := sid\<rparr>; (ds, d') = index_durables sid es (index_fact e d)
                in ((i, e) # ds, d'))
      | _ \<Rightarrow> index_durables sid es d)"

definition nothing_durable :: durable_index where
  "nothing_durable = \<lparr>di_ids = [], di_tools = [], di_assistants = [], di_compactions = []\<rparr>"

definition isClaimedByDurable :: "transcript_event \<Rightarrow> nat \<Rightarrow> durable_index \<Rightarrow> nat list \<Rightarrow> bool" where
  "isClaimedByDurable e i d claimedUsers =
    (case toolCollisionKey e of
       Some k \<Rightarrow> k \<in> set (di_tools d)
     | None \<Rightarrow> (case ev_body e of
         UserSubmitted _ _ _ \<Rightarrow> i \<in> set claimedUsers
       | UserConfirmed _ _ _ _ \<Rightarrow> i \<in> set claimedUsers
       | AssistantCommitted m _ _ _ \<Rightarrow> m \<in> set (di_assistants d)
       | _ \<Rightarrow> ev_id e \<in> set (di_ids d)))"

definition compaction_fact :: "(string \<Rightarrow> int option) \<Rightarrow> string \<Rightarrow> js \<Rightarrow> transcript_event" where
  "compaction_fact date_parse sid entry =
    (let ts = (case jfield entry ''timestamp'' of
                 Str s \<Rightarrow> (case date_parse s of Some n \<Rightarrow> n | None \<Rightarrow> 0)
               | _ \<Rightarrow> 0)
     in server_event sid (int_text ts) ts
          (CompactionRecorded (the_str (jfield entry ''summary'')) (Some (num_or 0 (jfield entry ''tokensBefore'')))))"

definition entry_facts ::
  "(string \<Rightarrow> int option) \<Rightarrow> string \<Rightarrow> (nat \<times> transcript_event) list \<Rightarrow> durable_index
     \<Rightarrow> (nat \<times> transcript_event list) list \<Rightarrow> nat list \<Rightarrow> nat \<times> js \<Rightarrow> transcript_event list" where
  "entry_facts date_parse sid durables d fallbacks claimed ie =
    (case ie of (i, entry) \<Rightarrow>
      case map_of durables i of
        Some e \<Rightarrow> [e]
      | None \<Rightarrow>
          (if jfield entry ''type'' = Str ''message'' then
             filter (\<lambda>e. \<not> isClaimedByDurable e i d claimed)
               (case map_of fallbacks i of Some es \<Rightarrow> es | None \<Rightarrow> [])
           else if jfield entry ''type'' = Str ''compaction'' \<and> isRecord entry then
             (let e = compaction_fact date_parse sid entry in
              if ev_ts e \<in> set (di_compactions d) then [] else [e])
           else []))"

definition reconcileTranscriptContextEntries :: "(string \<Rightarrow> int option) \<Rightarrow> string \<Rightarrow> js list \<Rightarrow> transcript_event list" where
  "reconcileTranscriptContextEntries date_parse sid entries =
    (let (durables, d) = index_durables sid (enumerate 0 entries) nothing_durable;
         fallbacks = indexPreDurableContextEvents sid entries;
         claimed = bindDurableUserClaims durables fallbacks
     in concat (map (entry_facts date_parse sid durables d fallbacks claimed) (enumerate 0 entries)))"


subsection \<open>Every fact once\<close>

text \<open>What a history event stands for: the kind of fact and its stable id.\<close>

datatype fact_key = UserKey string | AssistantKey string | RequestKey string | ResultKey string

fun history_key :: "history_event \<Rightarrow> fact_key option" where
  "history_key (HistoryUserInput _ i _ _ _) = Some (UserKey i)"
| "history_key (HistoryAgentMessage _ _ _ m _) = Some (AssistantKey m)"
| "history_key (HistoryToolRequest _ c _ _) = Some (RequestKey c)"
| "history_key (HistoryToolResult _ c _) = Some (ResultKey c)"
| "history_key _ = None"

text \<open>The key a fact is replayed under; a pending \<open>agent-network\<close> call is not replayed.\<close>

fun key_of :: "string list \<Rightarrow> event_body \<Rightarrow> fact_key option" where
  "key_of finished (UserSubmitted c _ _) = Some (UserKey c)"
| "key_of finished (UserConfirmed c _ _ _) = Some (UserKey c)"
| "key_of finished (AssistantCommitted m _ _ _) = Some (AssistantKey m)"
| "key_of finished (ToolRequested c t _) =
     (if t = ''agent-network'' \<and> c \<notin> set finished then None else Some (RequestKey c))"
| "key_of finished (ToolFinished c _ _) = Some (ResultKey c)"
| "key_of finished _ = None"

definition history_keys :: "history_event list \<Rightarrow> fact_key list" where
  "history_keys hs = List.map_filter history_key hs"

definition fact_keys :: "transcript_event list \<Rightarrow> fact_key set" where
  "fact_keys es = {k. \<exists>e \<in> set es. key_of (finishedToolIds es) (ev_body e) = Some k}"

definition seen_keys :: "seen_ids \<Rightarrow> fact_key set" where
  "seen_keys s = UserKey ` set (seen_users s) \<union> AssistantKey ` set (seen_assistants s)
     \<union> RequestKey ` set (seen_requests s) \<union> ResultKey ` set (seen_finishes s)"

lemma history_keys_simps [simp]:
  "history_keys [] = []" "history_keys (xs @ ys) = history_keys xs @ history_keys ys"
  "history_keys (h # hs) = (case history_key h of None \<Rightarrow> history_keys hs | Some k \<Rightarrow> k # history_keys hs)"
  by (auto simp: history_keys_def List.map_filter_def split: option.splits)

lemma history_step_keys:
  assumes "history_step finished e s = (s', out)"
  shows "history_keys out = (case key_of finished (ev_body e) of
            Some k \<Rightarrow> if k \<in> seen_keys s then [] else [k] | None \<Rightarrow> [])
       \<and> seen_keys s' = seen_keys s \<union> set_option (key_of finished (ev_body e))"
  using assms
  by (cases "ev_body e")
    (auto simp: history_step_def push_user_def seen_keys_def image_iff split: if_splits)

lemma history_from_keys:
  "distinct (history_keys (history_from finished s es))
   \<and> set (history_keys (history_from finished s es))
       = {k. \<exists>e \<in> set es. key_of finished (ev_body e) = Some k} - seen_keys s"
proof (induction es arbitrary: s)
  case (Cons e es)
  obtain s' out where st: "history_step finished e s = (s', out)" by (cases "history_step finished e s")
  from history_step_keys [OF st] Cons.IH [of s'] show ?case
    by (auto simp: st split: option.splits if_splits)
qed simp

lemma seen_keys_nothing [simp]: "seen_keys nothing_seen = {}"
  by (simp add: seen_keys_def nothing_seen_def)

lemma history_keys_all:
  "distinct (history_keys (transcriptEventsToSessionHistory es))"
  "set (history_keys (transcriptEventsToSessionHistory es)) = fact_keys es"
  using history_from_keys [of "finishedToolIds es" nothing_seen es]
  by (simp_all add: transcriptEventsToSessionHistory_def fact_keys_def)

lemma last_n_suffix: "\<exists>older. xs = older @ last_n n xs \<and> (older = [] \<longleftrightarrow> length xs \<le> n)"
  by (rule exI [of _ "take (length xs - n) xs"]) (auto simp: last_n_def)

lemma length_last_n: "length (last_n n xs) \<le> n"
  by (simp add: last_n_def)

definition session_facts :: "string \<Rightarrow> transcript_event list \<Rightarrow> transcript_event list" where
  "session_facts sid es = filter (\<lambda>e. ev_session e = sid) (dedupeTranscriptEvents es)"

text \<open>
  C15. The history sent for a session is never longer than the limit and is the newest part of
  the full history, marked as truncated exactly when something older was left out; the
  full history shows every user message, assistant message, tool call and tool result
  of the session's facts under its stable id once and none twice, except the pending
  calls of the agent network.
\<close>

theorem history_bounded:
  "int (length (hp_events (projectSessionHistory sid es limit))) \<le> max 0 limit
       \<and> (\<exists>older. transcriptEventsToSessionHistory (session_facts sid es) = older @ hp_events (projectSessionHistory sid es limit)
            \<and> hp_truncated (projectSessionHistory sid es limit) = (older \<noteq> []))
       \<and> distinct (history_keys (transcriptEventsToSessionHistory (session_facts sid es)))
       \<and> set (history_keys (transcriptEventsToSessionHistory (session_facts sid es))) = fact_keys (session_facts sid es)"
proof -
  let ?p = "projectSessionHistory sid es limit"
  let ?all = "transcriptEventsToSessionHistory (session_facts sid es)"
  have p: "hp_events ?p = (if 0 < limit then last_n (nat limit) ?all else [])"
    "hp_truncated ?p = (max 0 limit < int (length ?all))"
    by (simp_all add: session_facts_def projectSessionHistory_def Let_def)
  obtain older where o: "?all = older @ last_n (nat limit) ?all" "older = [] \<longleftrightarrow> length ?all \<le> nat limit"
    using last_n_suffix by blast
  have "\<exists>older. ?all = older @ hp_events ?p \<and> hp_truncated ?p = (older \<noteq> [])"
  proof (cases "0 < limit")
    case True
    with o p show ?thesis by (intro exI [of _ older]) auto
  next
    case False
    with p show ?thesis by (intro exI [of _ ?all]) auto
  qed
  moreover have "int (length (hp_events ?p)) \<le> max 0 limit"
    using length_last_n [of "nat limit" ?all] by (auto simp: p)
  ultimately show ?thesis using history_keys_all by blast
qed

subsection \<open>The log and the projection agree\<close>

lemma hydrate_dedupe:
  "log_wf l \<Longrightarrow> identity_of ` set (log_events l) = set seen \<Longrightarrow>
   log_events (snd (hydrate es l)) = log_events l @ dedupe_from seen es"
proof (induction es arbitrary: l seen)
  case (Cons e es)
  have wf: "log_wf (snd (install e l))" using Cons.prems by (simp add: log_wf_install)
  show ?case
  proof (cases "identity_of e \<in> set seen")
    case True
    with Cons wf show ?thesis unfolding hydrate_Cons by (simp add: install_events)
  next
    case False
    with Cons.prems have ev: "log_events (snd (install e l)) = log_events l @ [e]" by (simp add: install_events)
    with Cons.prems have "identity_of ` set (log_events (snd (install e l))) = set (oset_add seen (identity_of e))"
      by auto
    from Cons.IH [OF wf this] False ev show ?thesis unfolding hydrate_Cons by simp
  qed
qed simp

lemma replace_log_dedupe: "log_events (replace_log es l) = dedupeTranscriptEvents es"
  unfolding replace_log_def dedupeTranscriptEvents_def
  using hydrate_dedupe [OF log_wf_clear, of l "[]" es] by (simp add: clear_log_def)

lemma dedupe_from_session:
  "(\<And>i. eventIdentity sid i \<in> set s1 \<longleftrightarrow> eventIdentity sid i \<in> set s2) \<Longrightarrow>
   dedupe_from s1 (filter (\<lambda>e. ev_session e = sid) es) = filter (\<lambda>e. ev_session e = sid) (dedupe_from s2 es)"
proof (induction es arbitrary: s1 s2)
  case (Cons e es)
  show ?case
  proof (cases "ev_session e = sid")
    case True
    have "identity_of e \<in> set s1 \<longleftrightarrow> identity_of e \<in> set s2" using Cons.prems [of "ev_id e"] True by simp
    with True Cons.IH [of s1 s2] Cons.IH [of "oset_add s1 (identity_of e)" "oset_add s2 (identity_of e)"] Cons.prems
    show ?thesis by auto
  next
    case False
    with Cons.IH [of s1 s2] Cons.IH [of s1 "oset_add s2 (identity_of e)"] Cons.prems show ?thesis
      by (auto simp: oset_add_def)
  qed
qed simp

lemma dedupe_from_again:
  "set s1 \<subseteq> set s2 \<Longrightarrow> dedupe_from s1 (dedupe_from s2 es) = dedupe_from s2 es"
proof (induction es arbitrary: s1 s2)
  case (Cons e es)
  from Cons.IH [of s1 s2] Cons.IH [of "oset_add s1 (identity_of e)" "oset_add s2 (identity_of e)"] Cons.prems
  show ?case by auto
qed simp

text \<open>
  The log and the projection remove repeated facts in the same way: after any snapshot
  is loaded the log holds what the projection's own duplicate removal gives, and the
  history sent from the log's view of a session is the history of the raw list of
  facts, whatever repetitions and facts of other sessions the list has.
\<close>

lemma log_is_dedupe:
  "entries_log (replace_log es l) = dedupeTranscriptEvents es
   \<and> projectSessionHistory sid (forSession sid (replace_log es l)) limit = projectSessionHistory sid es limit"
proof -
  have "dedupeTranscriptEvents (filter (\<lambda>e. ev_session e = sid) (dedupeTranscriptEvents es))
      = filter (\<lambda>e. ev_session e = sid) (dedupeTranscriptEvents es)"
    unfolding dedupeTranscriptEvents_def
    using dedupe_from_session [of sid "[]" "[]" "dedupe_from [] es"] dedupe_from_again [of "[]" "[]" es] by simp
  then show ?thesis
    by (simp add: entries_log_def forSession_def replace_log_dedupe projectSessionHistory_def)
qed


subsection \<open>The session file replays the log\<close>

text \<open>The durable facts of a list of entries, in order, the first of each id.\<close>

fun decoded_facts :: "string \<Rightarrow> string list \<Rightarrow> js list \<Rightarrow> transcript_event list" where
  "decoded_facts sid seen [] = []"
| "decoded_facts sid seen (entry # es) =
     (case decodeDurableTranscriptEntry entry of
        Decoded e \<Rightarrow> (if ev_id e \<in> set seen then decoded_facts sid seen es
                     else e\<lparr>ev_session := sid\<rparr> # decoded_facts sid (oset_add seen (ev_id e)) es)
      | _ \<Rightarrow> decoded_facts sid seen es)"

lemma index_fact_ids [simp]: "di_ids (index_fact e d) = oset_add (di_ids d) (ev_id e)"
  by (auto simp: index_fact_def Let_def split: option.splits event_body.splits)

lemma index_durables_Cons:
  "index_durables sid ((i, entry) # es) d =
     (case decodeDurableTranscriptEntry entry of
        Decoded e0 \<Rightarrow>
          (if ev_id e0 \<in> set (di_ids d) then index_durables sid es d
           else ((i, e0\<lparr>ev_session := sid\<rparr>) # fst (index_durables sid es (index_fact (e0\<lparr>ev_session := sid\<rparr>) d)),
                 snd (index_durables sid es (index_fact (e0\<lparr>ev_session := sid\<rparr>) d))))
      | _ \<Rightarrow> index_durables sid es d)"
  by (simp add: Let_def split_beta split: durable_decode.split)

declare index_durables.simps(2) [simp del] index_durables_Cons [simp]

lemma index_durables_facts: "map snd (fst (index_durables sid (enumerate n es) d)) = decoded_facts sid (di_ids d) es"
proof (induction es arbitrary: n d)
  case (Cons entry es)
  show ?case by (cases "decodeDurableTranscriptEntry entry") (simp_all add: Cons.IH)
qed simp

lemma index_durables_keys:
  "fst ` set (fst (index_durables sid (enumerate n es) d)) \<subseteq> {n..<n + length es}
   \<and> distinct (map fst (fst (index_durables sid (enumerate n es) d)))"
proof (induction es arbitrary: n d)
  case (Cons entry es)
  have sub: "{Suc n..<Suc n + length es} \<subseteq> {n..<n + length (entry # es)}" by auto
  show ?case
  proof (cases "decodeDurableTranscriptEntry entry")
    case (Decoded e)
    show ?thesis
    proof (cases "ev_id e \<in> set (di_ids d)")
      case True
      with Decoded Cons.IH [of "Suc n" d] sub show ?thesis by auto
    next
      case False
      let ?r = "fst (index_durables sid (enumerate (Suc n) es) (index_fact (e\<lparr>ev_session := sid\<rparr>) d))"
      have r: "fst ` set ?r \<subseteq> {Suc n..<Suc n + length es}" "distinct (map fst ?r)"
        using Cons.IH by blast+
      then have "n \<notin> fst ` set ?r" by auto
      with r sub False Decoded show ?thesis by auto
    qed
  qed (use Cons.IH [of "Suc n" d] sub in auto)
qed simp

text \<open>Entries that are neither messages nor compactions add only their durable facts.\<close>

definition extension_only :: "js list \<Rightarrow> bool" where
  "extension_only entries \<longleftrightarrow>
     (\<forall>e \<in> set entries. jfield e ''type'' \<noteq> Str ''message'' \<and> jfield e ''type'' \<noteq> Str ''compaction'')"

lemma enumerate_ge: "(i, e) \<in> set (enumerate n es) \<Longrightarrow> n \<le> i \<and> i < n + length es"
  by (auto simp: enumerate_eq_zip dest: set_zip_leftD)

lemma facts_by_index:
  "concat (map (\<lambda>(i, e). case map_of (fst (index_durables sid (enumerate n es) d)) i of Some x \<Rightarrow> [x] | None \<Rightarrow> [])
     (enumerate n es)) = map snd (fst (index_durables sid (enumerate n es) d))"
proof (induction es arbitrary: n d)
  case (Cons entry es)
  have none: "map_of (fst (index_durables sid (enumerate (Suc n) es) d')) n = None" for d'
    using index_durables_keys [of sid "Suc n" es d'] by (auto simp: map_of_eq_None_iff)
  have skip: "map (\<lambda>(i, e). case ((map_of m)(n \<mapsto> x)) i of Some x \<Rightarrow> [x] | None \<Rightarrow> []) (enumerate (Suc n) es)
      = map (\<lambda>(i, e). case map_of m i of Some x \<Rightarrow> [x] | None \<Rightarrow> []) (enumerate (Suc n) es)"
    for m :: "(nat \<times> transcript_event) list" and x
    by (rule map_cong) (auto dest: enumerate_ge)
  show ?case
    by (cases "decodeDurableTranscriptEntry entry") (simp_all add: none skip Cons.IH del: fun_upd_apply, simp)
qed simp

lemma extension_only_reconcile:
  assumes "extension_only entries"
  shows "reconcileTranscriptContextEntries dp sid entries = decoded_facts sid [] entries"
proof -
  have ids: "di_ids nothing_durable = []" by (simp add: nothing_durable_def)
  obtain ds d where ix: "index_durables sid (enumerate 0 entries) nothing_durable = (ds, d)"
    by (cases "index_durables sid (enumerate 0 entries) nothing_durable")
  have same: "map (entry_facts dp sid ds d fb cl) (enumerate 0 entries)
      = map (\<lambda>(i, e). case map_of ds i of Some x \<Rightarrow> [x] | None \<Rightarrow> []) (enumerate 0 entries)" for fb cl
    using assms by (intro map_cong) (auto simp: entry_facts_def extension_only_def split: option.splits
        dest!: in_set_enumerate_eq [THEN iffD1] elim!: in_set_conv_nth [THEN iffD2] bspec)
  show ?thesis
    using facts_by_index [of sid 0 entries nothing_durable] index_durables_facts [of sid 0 entries nothing_durable]
    by (simp add: reconcileTranscriptContextEntries_def ix Let_def ids same)
qed

lemma decoded_facts_snoc:
  "decoded_facts sid seen (es @ [entry]) = decoded_facts sid seen es @
     (case decodeDurableTranscriptEntry entry of
        Decoded e \<Rightarrow> (if ev_id e \<in> set seen \<union> ev_id ` set (decoded_facts sid seen es) then []
                      else [e\<lparr>ev_session := sid\<rparr>])
      | _ \<Rightarrow> [])"
  by (induction es arbitrary: seen) (auto split: durable_decode.splits)

lemma decoded_facts_wf:
  "distinct (map ev_id (decoded_facts sid seen es)) \<and> set (map ev_id (decoded_facts sid seen es)) \<inter> set seen = {}
   \<and> (\<forall>e \<in> set (decoded_facts sid seen es). ev_session e = sid)"
proof (induction es arbitrary: seen)
  case (Cons entry es)
  show ?case
  proof (cases "decodeDurableTranscriptEntry entry")
    case (Decoded e)
    with Cons.IH [of seen] Cons.IH [of "oset_add seen (ev_id e)"] show ?thesis by auto
  qed (use Cons.IH [of seen] in auto)
qed simp


text \<open>The operations of a running session: facts are recorded while writers come and go.\<close>

fun live_op :: "string \<Rightarrow> 'w log_op \<Rightarrow> bool" where
  "live_op sid (RecordOp e) = (ev_session e = sid \<and> body_wf (ev_body e))"
| "live_op sid (BindOp _) = True"
| "live_op sid (UnbindOp _) = True"
| "live_op sid _ = False"

definition replayed :: "string \<Rightarrow> 'w event_log \<times> js list \<Rightarrow> bool" where
  "replayed sid s \<longleftrightarrow> log_wf (fst s) \<and> extension_only (snd s) \<and> log_events (fst s) = decoded_facts sid [] (snd s)"

lemma replayed_record:
  assumes inv: "replayed sid (l, fs)" and e: "ev_session e = sid" "body_wf (ev_body e)"
    and r: "record_event (append_entry accepts) e l fs = (r, l', fs')"
  shows "replayed sid (l', fs')"
  using r
proof (cases rule: record_event_cases)
  case 3
  with inv show ?thesis by (auto elim: append_entry_cases)
next
  case (4 w p)
  from 4 e(2) have v: "valid_event e" and p: "p = event_js e"
    by (cases "valid_event e"; simp add: encode_invalid encode_valid)+
  from 4 p have f: "fs' = fs @ [custom_entry (event_js e)]" by (auto elim!: append_entry_cases)
  have wf: "log_wf l" "log_events l = decoded_facts sid [] fs" using inv by (simp_all add: replayed_def)
  have new: "ev_id e \<notin> ev_id ` set (decoded_facts sid [] fs)"
    using 4(6) decoded_facts_wf [of sid "[]" fs] e(1) unfolding log_has_identity [OF wf(1)] wf(2) by force
  have "log_events l' = log_events l @ [e]"
    using 4 wf log_has_identity [OF wf(1), of "identity_of e"] by (simp add: install_events)
  moreover have "log_wf l'" using 4 wf by (simp add: log_wf_install)
  moreover have "extension_only fs'"
    using inv by (auto simp: f replayed_def extension_only_def custom_entry_def)
  ultimately show ?thesis
    using wf new e(1) by (simp add: replayed_def f decoded_facts_snoc decode_custom_entry [OF v])
qed (use inv in auto)

lemma replayed_step: "replayed sid s \<Longrightarrow> live_op sid op \<Longrightarrow> replayed sid (log_step (append_entry accepts) op s)"
proof (cases s; cases op)
  fix l fs e
  assume a: "replayed sid s" "live_op sid op" "s = (l, fs)" "op = RecordOp e"
  obtain r l' fs' where r: "record_event (append_entry accepts) e l fs = (r, l', fs')"
    by (cases "record_event (append_entry accepts) e l fs")
  with a replayed_record [OF _ _ _ r] show ?thesis by simp
qed (auto simp: replayed_def bindPersistence_def unbindPersistence_def log_wf_def)

lemma replayed_run:
  "replayed sid s \<Longrightarrow> list_all (live_op sid) ops \<Longrightarrow> replayed sid (log_run (append_entry accepts) ops s)"
  by (induction ops arbitrary: s) (simp_all add: log_run_def replayed_step)

lemma dedupe_distinct:
  "distinct (map identity_of es) \<Longrightarrow> identity_of ` set es \<inter> set seen = {} \<Longrightarrow> dedupe_from seen es = es"
  by (induction es arbitrary: seen) auto

lemma dedupe_decoded: "dedupeTranscriptEvents (decoded_facts sid [] es) = decoded_facts sid [] es"
proof -
  have "inj_on identity_of (set (decoded_facts sid [] es))"
    using decoded_facts_wf [of sid "[]" es] by (auto simp: inj_on_def distinct_map)
  with decoded_facts_wf [of sid "[]" es] show ?thesis
    unfolding dedupeTranscriptEvents_def by (intro dedupe_distinct) (auto simp: distinct_map)
qed

text \<open>
  C16. What the user sees is what a restart will show: start a session from a file of extension
  entries, record any facts while writers are bound, unbound and refuse, and the log
  holds exactly what reconciling the file then on disk gives; a fresh process that
  loads that file has the same facts in the same order and sends the same history.
\<close>

theorem live_log_is_replayable:
  assumes "extension_only fs" and "list_all (live_op sid) ops"
    and "log_run (append_entry accepts) ops (replace_log (reconcileTranscriptContextEntries dp sid fs) l0, fs) = (l, fs')"
  shows "entries_log l = reconcileTranscriptContextEntries dp sid fs'
       \<and> entries_log (replace_log (reconcileTranscriptContextEntries dp sid fs') l1) = entries_log l
       \<and> projectSessionHistory sid (forSession sid l) n
           = projectSessionHistory sid (reconcileTranscriptContextEntries dp sid fs') n"
proof -
  have "replayed sid (replace_log (reconcileTranscriptContextEntries dp sid fs) l0, fs)"
    using assms(1) log_wf_hydrate [OF log_wf_clear]
    by (simp add: replayed_def extension_only_reconcile replace_log_dedupe dedupe_decoded)
      (simp add: replace_log_def)
  from replayed_run [OF this assms(2), of accepts] assms(3)
  have r: "extension_only fs'" "log_events l = decoded_facts sid [] fs'" by (simp_all add: replayed_def)
  have "filter (\<lambda>e. ev_session e = sid) (decoded_facts sid [] fs') = decoded_facts sid [] fs'"
    using decoded_facts_wf [of sid "[]" fs'] by simp
  with r show ?thesis
    by (simp add: extension_only_reconcile entries_log_def replace_log_dedupe dedupe_decoded forSession_def)
qed


definition sample_ops :: "nat log_op list" where
  "sample_ops = [RecordOp sample_fact, BindOp 1, RecordOp sample_fact, UnbindOp None, RecordOp (sample_fact\<lparr>ev_id := ''e2''\<rparr>)]"

theorem live_log_is_replayable_witness:
  "entries_log (fst (log_run (append_entry (\<lambda>_ _. True)) sample_ops (new_log, []))) = [sample_fact]
   \<and> snd (log_run (append_entry (\<lambda>_ _. True)) sample_ops (new_log, [])) = [custom_entry (event_js sample_fact)]
   \<and> reconcileTranscriptContextEntries (\<lambda>_. None) ''s1'' [custom_entry (event_js sample_fact)] = [sample_fact]"
proof -
  have start: "replace_log (reconcileTranscriptContextEntries (\<lambda>_. None) ''s1'' []) new_log = (new_log :: nat event_log)"
    by code_simp
  have e: "encodeDurableTranscriptEventV1 (event_js sample_fact) = Inr (event_js sample_fact)" by code_simp
  have i: "ev_id sample_fact = ''e1''" by (simp add: sample_fact_def)
  obtain l fs' where r: "log_run (append_entry (\<lambda>_ _. True)) sample_ops (new_log, []) = (l, fs')" by fastforce
  then have fs: "l = \<lparr>log_events = [sample_fact], log_index = [(identity_of sample_fact, sample_fact)], log_writer = None\<rparr>"
      "fs' = [custom_entry (event_js sample_fact)]"
    by (simp_all add: log_run_def sample_ops_def record_event_def new_log_def bindPersistence_def
        unbindPersistence_def append_entry_def install_def e i)
  have ops: "list_all (live_op ''s1'') sample_ops" by (simp add: sample_ops_def sample_fact_def)
  have "extension_only []" by (simp add: extension_only_def)
  from live_log_is_replayable [OF this ops, of "\<lambda>_ _. True" "\<lambda>_. None" new_log l fs' new_log 0] start r
  have "reconcileTranscriptContextEntries (\<lambda>_. None) ''s1'' fs' = entries_log l" by metis
  with r fs show ?thesis by (simp add: entries_log_def)
qed


subsection \<open>Messages of the host\<close>

lemma length_concat_filter:
  "(\<And>x. x \<in> set xs \<Longrightarrow> length (f x) = (if P x then 1 else 0)) \<Longrightarrow> length (concat (map f xs)) = length (filter P xs)"
  by (induction xs) auto

lemma length_filter_enumerate: "length (filter (\<lambda>(i, x). P x) (enumerate n xs)) = length (filter P xs)"
  by (induction xs arbitrary: n) auto

lemma block_events_length:
  "length (block_events sid ts u us (i, b)) =
     (if is_object b \<and> (jfield b ''type'' = Str ''toolCall'' \<or> jfield b ''type'' = Str ''text'' \<and> block_text b \<noteq> [])
      then 1 else 0)"
  by (simp add: block_events_def Let_def)

text \<open>The two passes over a message count alike, so the slices line up.\<close>

lemma projectedEventCount_exact: "length (snd (message_events sid u i m)) = projectedEventCount m"
proof -
  have "message_content m = []" if "\<not> is_array (jfield m ''content'')"
    using that by (cases "jfield m ''content''") (auto simp: message_content_def)
  moreover have "length (concat (map (block_events sid (message_ts m) u (usage_of_message m)) (enumerate 0 (message_content m))))
      = length (filter (\<lambda>b. is_object b \<and> (jfield b ''type'' = Str ''toolCall''
          \<or> jfield b ''type'' = Str ''text'' \<and> block_text b \<noteq> [])) (message_content m))"
    by (subst length_filter_enumerate [of _ 0, symmetric], rule length_concat_filter, rename_tac ib, case_tac ib)
      (simp only: block_events_length prod.case)
  ultimately show ?thesis
    by (auto simp: message_events_def projectedEventCount_def Let_def)
qed

text \<open>The facts of each message, with its place among the entries.\<close>

fun facts_of_messages :: "string \<Rightarrow> string option \<Rightarrow> nat \<Rightarrow> (nat \<times> js) list \<Rightarrow> (nat \<times> transcript_event list) list" where
  "facts_of_messages sid u i [] = []"
| "facts_of_messages sid u i ((source, m) # ms) =
     (source, snd (message_events sid u i m)) # facts_of_messages sid (fst (message_events sid u i m)) (Suc i) ms"

lemma slice_by_exact: "slice_by (map_messages sid u i (map snd ms)) ms = facts_of_messages sid u i ms"
proof (induction ms arbitrary: u i)
  case (Cons sm ms)
  obtain s m where sm: "sm = (s, m)" by (cases sm)
  show ?case
    by (simp add: sm Cons.IH split_beta Let_def flip: projectedEventCount_exact [of sid u i m])
qed simp

lemma index_exact: "indexPreDurableContextEvents sid entries = facts_of_messages sid None 0 (message_sources entries)"
  by (simp add: indexPreDurableContextEvents_def mapPreDurableSdkMessagesToTranscriptEvents_def slice_by_exact Let_def)

lemma facts_of_messages_all: "concat (map snd (facts_of_messages sid u i ms)) = map_messages sid u i (map snd ms)"
  by (induction sid u i ms rule: facts_of_messages.induct) (simp_all add: split_beta Let_def)

lemma facts_of_messages_keys: "map fst (facts_of_messages sid u i ms) = map fst ms"
  by (induction sid u i ms rule: facts_of_messages.induct) simp_all

definition message_entry :: "js \<Rightarrow> js" where
  "message_entry m = Obj [(''type'', Str ''message''), (''message'', m)]"

lemma message_sources_entries: "message_sources (map message_entry ms) = enumerate 0 ms"
proof -
  have "filter (\<lambda>(i, e). jfield e ''type'' = Str ''message'' \<and> jhas e ''message'') (enumerate n (map message_entry ms))
      = enumerate n (map message_entry ms)" for n
    by (induction ms arbitrary: n) (simp_all add: message_entry_def)
  moreover have "map (\<lambda>(i, e). (i, jfield e ''message'')) (enumerate n (map message_entry ms)) = enumerate n ms" for n
    by (induction ms arbitrary: n) (simp_all add: message_entry_def)
  ultimately show ?thesis by (simp add: message_sources_def)
qed

lemma no_durables: "index_durables sid (enumerate n (map message_entry ms)) d = ([], d)"
  by (induction ms arbitrary: n) (simp_all add: decodeDurableTranscriptEntry_def message_entry_def)

lemma map_of_enumerate_facts:
  "map fst fs = map fst es \<Longrightarrow> distinct (map fst es) \<Longrightarrow>
   map (\<lambda>(i, e). case map_of fs i of Some x \<Rightarrow> x | None \<Rightarrow> []) es = map snd fs"
proof (induction fs es rule: list_induct2')
  case (4 f fs e es)
  have "map (\<lambda>(i, e). case ((map_of fs)(fst f \<mapsto> snd f)) i of Some x \<Rightarrow> x | None \<Rightarrow> []) es
      = map (\<lambda>(i, e). case map_of fs i of Some x \<Rightarrow> x | None \<Rightarrow> []) es"
    using "4.prems" by (intro map_cong) (auto simp: image_iff)
  with 4 show ?case by (cases f; cases e) simp
qed simp_all

text \<open>
  C17. A session recorded before the extension wrote its own entries is replayed whole: for
  entries that are all messages of the host the reconciliation gives every fact guessed
  from the messages, in their order, although it cuts the guesses by a separate count
  of the facts of each message.
\<close>

theorem legacy_session_replays:
  "reconcileTranscriptContextEntries dp sid (map message_entry ms) = mapPreDurableSdkMessagesToTranscriptEvents sid ms"
proof -
  let ?fb = "facts_of_messages sid None 0 (enumerate 0 ms)"
  have fb: "indexPreDurableContextEvents sid (map message_entry ms) = ?fb"
    by (simp add: index_exact message_sources_entries)
  have un: "\<not> isClaimedByDurable e i nothing_durable []" for e i
    by (auto simp: isClaimedByDurable_def nothing_durable_def split: option.splits event_body.splits)
  have "entry_facts dp sid [] nothing_durable ?fb [] ie = (case map_of ?fb (fst ie) of Some x \<Rightarrow> x | None \<Rightarrow> [])"
    if "ie \<in> set (enumerate 0 (map message_entry ms))" for ie
  proof -
    obtain i entry where ie: "ie = (i, entry)" by (cases ie)
    from that have "jfield entry ''type'' = Str ''message''"
      by (auto simp: ie in_set_enumerate_eq message_entry_def)
    then show ?thesis by (simp add: entry_facts_def ie un split: option.splits)
  qed
  then have "map (entry_facts dp sid [] nothing_durable ?fb []) (enumerate 0 (map message_entry ms))
      = map (\<lambda>(i, e). case map_of ?fb i of Some x \<Rightarrow> x | None \<Rightarrow> []) (enumerate 0 (map message_entry ms))"
    by (intro map_cong) auto
  also have "\<dots> = map snd ?fb"
    by (rule map_of_enumerate_facts) (simp_all add: facts_of_messages_keys)
  finally show ?thesis
    by (simp add: reconcileTranscriptContextEntries_def no_durables fb bindDurableUserClaims_def Let_def
        facts_of_messages_all mapPreDurableSdkMessagesToTranscriptEvents_def)
qed


subsection \<open>Durable facts win\<close>






lemma server_event_session [simp]: "ev_session (server_event sid k ts b) = sid"
  by (simp add: server_event_def)




















end
