(* ===== verification/Protocol.thy ===== *)
theory Protocol imports TranscriptHistory
begin

text \<open>
  The wire protocol of the app and the extension: the generated validators
  (\<open>protocol/generated/protocol.generated.ts\<close>), the line codec over them
  (\<open>protocol/codec.ts\<close>), the session scope of message types
  (\<open>protocol/session_scope.ts\<close>) and the gate that turns away frames for another
  session (\<open>session/session_gate.ts\<close>).

  A validator is written as the shape it checks, field by field in the order of
  the code: \<open>req\<close> is \<open>Object.hasOwn(r, k) && ...\<close>, \<open>opt\<close> is \<open>r[k] === undefined || ...\<close>,
  and no other key is allowed.
\<close>

subsection \<open>Shapes\<close>

datatype shape =
    AnyShape
  | NullShape
  | BoolShape
  | StrShape nat "nat option"
  | OneOf "string list"
  | IntMin int
  | ListOf nat shape
  | AnyOf "shape list"
  | ObjOf "(string \<times> bool \<times> shape) list"

abbreviation req :: "string \<Rightarrow> shape \<Rightarrow> string \<times> bool \<times> shape" where
  "req k s \<equiv> (k, True, s)"

abbreviation opt :: "string \<Rightarrow> shape \<Rightarrow> string \<times> bool \<times> shape" where
  "opt k s \<equiv> (k, False, s)"

definition has_str :: "nat \<Rightarrow> nat option \<Rightarrow> js \<Rightarrow> bool" where
  "has_str lo hi v = (case v of Str s \<Rightarrow> lo \<le> length s \<and> (case hi of None \<Rightarrow> True | Some h \<Rightarrow> length s \<le> h) | _ \<Rightarrow> False)"

definition isIntegerAtLeast :: "js \<Rightarrow> int \<Rightarrow> bool" where
  "isIntegerAtLeast v minimum = (case v of Num n \<Rightarrow> minimum \<le> n | _ \<Rightarrow> False)"

fun hasOnlyKeys :: "js \<Rightarrow> string list \<Rightarrow> bool" where
  "hasOnlyKeys (Obj kvs) allowed = list_all (\<lambda>kv. fst kv \<in> set allowed) kvs"
| "hasOnlyKeys _ allowed = False"

fun has_shape :: "shape \<Rightarrow> js \<Rightarrow> bool" where
  "has_shape AnyShape v = True"
| "has_shape NullShape v = (v = Null)"
| "has_shape BoolShape v = (case v of Bool _ \<Rightarrow> True | _ \<Rightarrow> False)"
| "has_shape (StrShape lo hi) v = has_str lo hi v"
| "has_shape (OneOf ss) v = (case v of Str s \<Rightarrow> s \<in> set ss | _ \<Rightarrow> False)"
| "has_shape (IntMin n) v = isIntegerAtLeast v n"
| "has_shape (ListOf lo s) v = (case v of Arr xs \<Rightarrow> lo \<le> length xs \<and> list_all (has_shape s) xs | _ \<Rightarrow> False)"
| "has_shape (AnyOf ss) v = list_ex (\<lambda>s. has_shape s v) ss"
| "has_shape (ObjOf fds) v =
     (isRecord v \<and> hasOnlyKeys v (map fst fds)
      \<and> list_all (\<lambda>(k, required, s).
          (if required then jhas v k \<and> has_shape s (jfield v k)
           else jfield v k = Undef \<or> has_shape s (jfield v k))) fds)"

subsection \<open>The validators\<close>

definition isRelayOuterEnvelope :: "js \<Rightarrow> bool" where
  "isRelayOuterEnvelope = has_shape
    (ObjOf [req ''peer'' (StrShape 1 None), req ''room'' (StrShape 1 None), req ''ct'' (StrShape 1 None)])"

definition isRelayOuterEnvelopeCompat :: "js \<Rightarrow> bool" where
  "isRelayOuterEnvelopeCompat = has_shape
    (ObjOf [req ''peer'' (StrShape 1 None), opt ''room'' (StrShape 1 None), req ''ct'' (StrShape 1 None)])"

definition isHistoryUserInput :: "js \<Rightarrow> bool" where
  "isHistoryUserInput = has_shape
    (ObjOf [req ''ts'' (IntMin 0), req ''type'' (OneOf [''user_input'']), req ''id'' (StrShape 1 None),
       req ''text'' (StrShape 0 None),
       opt ''images'' (ListOf 0 (ObjOf [req ''data'' (StrShape 1 None), req ''mime'' (StrShape 1 None)]))])"

definition isHistoryToolRequest :: "js \<Rightarrow> bool" where
  "isHistoryToolRequest = has_shape
    (ObjOf [req ''ts'' (IntMin 0), req ''type'' (OneOf [''tool_request'']),
       req ''tool_call_id'' (StrShape 1 None), req ''tool'' (StrShape 1 None), req ''args'' AnyShape])"

definition isHistoryToolResult :: "js \<Rightarrow> bool" where
  "isHistoryToolResult = has_shape
    (ObjOf [req ''ts'' (IntMin 0), req ''type'' (OneOf [''tool_result'']),
       req ''tool_call_id'' (StrShape 1 None), opt ''result'' AnyShape,
       opt ''error'' (StrShape 0 None)])"

definition isHistoryAgentMessage :: "js \<Rightarrow> bool" where
  "isHistoryAgentMessage = has_shape
    (ObjOf [req ''ts'' (IntMin 0), req ''type'' (OneOf [''agent_message'']),
       req ''in_reply_to'' (StrShape 1 None), req ''text'' (StrShape 0 None),
       opt ''message_id'' (StrShape 0 None),
       opt ''usage'' (ObjOf [req ''input_tokens'' (IntMin 0), req ''output_tokens'' (IntMin 0)])])"

definition isHistoryCompaction :: "js \<Rightarrow> bool" where
  "isHistoryCompaction = has_shape
    (ObjOf [req ''ts'' (IntMin 0), req ''type'' (OneOf [''compaction'']), req ''summary'' (StrShape 0 None),
       req ''tokens_before'' (IntMin 0)])"

definition isHistoryError :: "js \<Rightarrow> bool" where
  "isHistoryError = has_shape
    (ObjOf [req ''ts'' (IntMin 0), req ''type'' (OneOf [''error'']), opt ''in_reply_to'' (StrShape 1 None),
       req ''code'' (StrShape 1 None), req ''message'' (StrShape 0 None)])"

definition isPairRequest :: "js \<Rightarrow> bool" where
  "isPairRequest = has_shape
    (ObjOf [req ''type'' (OneOf [''pair_request'']), req ''id'' (StrShape 1 None),
       opt ''token_id'' (StrShape 1 None), opt ''pair_mac'' (StrShape 1 None),
       req ''device_name'' (StrShape 1 None), opt ''dh_pk'' (StrShape 1 None),
       opt ''dh_sig'' (StrShape 1 None)])"

definition isUserMessage :: "js \<Rightarrow> bool" where
  "isUserMessage = has_shape
    (ObjOf [req ''type'' (OneOf [''user_message'']), req ''id'' (StrShape 1 None),
       opt ''session_id'' (StrShape 1 (Some 512)), req ''text'' (StrShape 0 None),
       opt ''images'' (ListOf 0 (ObjOf [req ''data'' (StrShape 1 None), req ''mime'' (StrShape 1 None)])),
       opt ''streaming_behavior'' (OneOf [''steer'']), opt ''ts'' (IntMin 0)])"

definition isQueuedMessageSet :: "js \<Rightarrow> bool" where
  "isQueuedMessageSet = has_shape
    (ObjOf [req ''type'' (OneOf [''queued_message_set'']), req ''id'' (StrShape 1 None),
       opt ''session_id'' (StrShape 1 (Some 512)), req ''text'' (StrShape 0 None)])"

definition isQueuedMessageClear :: "js \<Rightarrow> bool" where
  "isQueuedMessageClear = has_shape
    (ObjOf [req ''type'' (OneOf [''queued_message_clear'']), req ''id'' (StrShape 1 None),
       opt ''session_id'' (StrShape 1 (Some 512))])"

definition isApproveTool :: "js \<Rightarrow> bool" where
  "isApproveTool = has_shape
    (ObjOf [req ''type'' (OneOf [''approve_tool'']), req ''id'' (StrShape 1 None),
       opt ''session_id'' (StrShape 1 (Some 512)), req ''tool_call_id'' (StrShape 1 None),
       req ''decision'' (OneOf [''allow'', ''deny''])])"

definition isCancel :: "js \<Rightarrow> bool" where
  "isCancel = has_shape
    (ObjOf [req ''type'' (OneOf [''cancel'']), req ''id'' (StrShape 1 None),
       opt ''session_id'' (StrShape 1 (Some 512)), req ''target_id'' (StrShape 1 None)])"

definition isPing :: "js \<Rightarrow> bool" where
  "isPing = has_shape
    (ObjOf [req ''type'' (OneOf [''ping'']), req ''id'' (StrShape 1 None)])"

definition isSessionSync :: "js \<Rightarrow> bool" where
  "isSessionSync = has_shape
    (ObjOf [req ''type'' (OneOf [''session_sync'']), req ''id'' (StrShape 1 None),
       opt ''session_id'' (StrShape 1 (Some 512)), opt ''limit'' (IntMin 1)])"

definition isSessionNew :: "js \<Rightarrow> bool" where
  "isSessionNew = has_shape
    (ObjOf [req ''type'' (OneOf [''session_new'']), req ''id'' (StrShape 1 None),
       opt ''session_id'' (StrShape 1 (Some 512))])"

definition isSessionCompact :: "js \<Rightarrow> bool" where
  "isSessionCompact = has_shape
    (ObjOf [req ''type'' (OneOf [''session_compact'']), req ''id'' (StrShape 1 None),
       opt ''session_id'' (StrShape 1 (Some 512))])"

definition isFleetUpdate :: "js \<Rightarrow> bool" where
  "isFleetUpdate = has_shape
    (ObjOf [req ''type'' (OneOf [''fleet_update'']), req ''id'' (StrShape 1 None),
       opt ''session_id'' (StrShape 1 (Some 512))])"

definition isModelSet :: "js \<Rightarrow> bool" where
  "isModelSet = has_shape
    (ObjOf [req ''type'' (OneOf [''model_set'']), req ''id'' (StrShape 1 None),
       opt ''session_id'' (StrShape 1 (Some 512)), req ''provider'' (StrShape 1 None),
       req ''model_id'' (StrShape 1 None)])"

definition isThinkingSet :: "js \<Rightarrow> bool" where
  "isThinkingSet = has_shape
    (ObjOf [req ''type'' (OneOf [''thinking_set'']), req ''id'' (StrShape 1 None),
       opt ''session_id'' (StrShape 1 (Some 512)),
       req ''level'' (OneOf [''off'', ''minimal'', ''low'', ''medium'', ''high'', ''xhigh''])])"

definition isListModels :: "js \<Rightarrow> bool" where
  "isListModels = has_shape
    (ObjOf [req ''type'' (OneOf [''list_models'']), req ''id'' (StrShape 1 None),
       opt ''session_id'' (StrShape 1 (Some 512))])"

definition isCaptureUploadBegin :: "js \<Rightarrow> bool" where
  "isCaptureUploadBegin = has_shape
    (ObjOf [req ''type'' (OneOf [''capture_upload_begin'']), req ''id'' (StrShape 1 None),
       opt ''session_id'' (StrShape 1 (Some 512)), req ''upload_id'' (StrShape 1 (Some 128)),
       req ''device_label'' (StrShape 1 (Some 128)), req ''total_bytes'' (IntMin 1),
       req ''capture_kind'' (OneOf [''debug_log_jsonl''])])"

definition isCaptureUploadChunk :: "js \<Rightarrow> bool" where
  "isCaptureUploadChunk = has_shape
    (ObjOf [req ''type'' (OneOf [''capture_upload_chunk'']), req ''id'' (StrShape 1 None),
       opt ''session_id'' (StrShape 1 (Some 512)), req ''upload_id'' (StrShape 1 (Some 128)),
       req ''sequence'' (IntMin 0), req ''payload'' (StrShape 1 (Some 10924))])"

definition isCaptureUploadEnd :: "js \<Rightarrow> bool" where
  "isCaptureUploadEnd = has_shape
    (ObjOf [req ''type'' (OneOf [''capture_upload_end'']), req ''id'' (StrShape 1 None),
       opt ''session_id'' (StrShape 1 (Some 512)), req ''upload_id'' (StrShape 1 (Some 128)),
       req ''sha256'' (StrShape 64 (Some 64))])"

definition isPairOk :: "js \<Rightarrow> bool" where
  "isPairOk = has_shape
    (ObjOf [req ''type'' (OneOf [''pair_ok'']), req ''in_reply_to'' (StrShape 1 None),
       req ''session_name'' (StrShape 1 None), req ''session_started_at'' (IntMin 0),
       opt ''session_id'' (StrShape 1 (Some 512)), req ''room_id'' (StrShape 1 None),
       opt ''harness'' (ObjOf [req ''name'' (StrShape 1 None), req ''version'' (StrShape 1 None)]),
       opt ''hostname'' (StrShape 1 None), opt ''dh_pk'' (StrShape 1 None),
       opt ''dh_sig'' (StrShape 1 None)])"

definition isPairError :: "js \<Rightarrow> bool" where
  "isPairError = has_shape
    (ObjOf [req ''type'' (OneOf [''pair_error'']), req ''in_reply_to'' (StrShape 1 None),
       req ''code'' (OneOf [''token_expired'', ''token_consumed'', ''token_unknown'', ''bad_dh_sig'', ''internal_error'']),
       req ''message'' (StrShape 0 None)])"

definition isUserInput :: "js \<Rightarrow> bool" where
  "isUserInput = has_shape
    (ObjOf [req ''type'' (OneOf [''user_input'']), req ''id'' (StrShape 1 None),
       opt ''session_id'' (StrShape 1 (Some 512)), req ''text'' (StrShape 0 None),
       opt ''images'' (ListOf 0 (ObjOf [req ''data'' (StrShape 1 None), req ''mime'' (StrShape 1 None)])),
       opt ''streaming_behavior'' (OneOf [''steer'']), opt ''ts'' (IntMin 0)])"

definition isQueuedMessageState :: "js \<Rightarrow> bool" where
  "isQueuedMessageState = has_shape
    (ObjOf [req ''type'' (OneOf [''queued_message_state'']), opt ''session_id'' (StrShape 1 (Some 512)),
       opt ''id'' (StrShape 1 None), opt ''text'' (StrShape 0 None)])"

definition isAgentChunk :: "js \<Rightarrow> bool" where
  "isAgentChunk = has_shape
    (ObjOf [req ''type'' (OneOf [''agent_chunk'']), opt ''session_id'' (StrShape 1 (Some 512)),
       req ''in_reply_to'' (StrShape 1 None), req ''delta'' (StrShape 0 None), opt ''ts'' (IntMin 0)])"

definition isAgentDone :: "js \<Rightarrow> bool" where
  "isAgentDone = has_shape
    (ObjOf [req ''type'' (OneOf [''agent_done'']), opt ''session_id'' (StrShape 1 (Some 512)),
       req ''in_reply_to'' (StrShape 1 None),
       opt ''usage'' (ObjOf [req ''input_tokens'' (IntMin 0), req ''output_tokens'' (IntMin 0)]),
       opt ''ts'' (IntMin 0)])"

definition isAgentMessage :: "js \<Rightarrow> bool" where
  "isAgentMessage = has_shape
    (ObjOf [req ''type'' (OneOf [''agent_message'']), opt ''session_id'' (StrShape 1 (Some 512)),
       req ''in_reply_to'' (StrShape 1 None), req ''text'' (StrShape 0 None),
       opt ''usage'' (ObjOf [req ''input_tokens'' (IntMin 0), req ''output_tokens'' (IntMin 0)]),
       opt ''ts'' (IntMin 0), opt ''message_id'' (StrShape 0 None)])"

definition isCompaction :: "js \<Rightarrow> bool" where
  "isCompaction = has_shape
    (ObjOf [req ''type'' (OneOf [''compaction'']), opt ''session_id'' (StrShape 1 (Some 512)),
       req ''summary'' (StrShape 0 None), req ''tokens_before'' (IntMin 0), opt ''ts'' (IntMin 0)])"

definition isToolRequest :: "js \<Rightarrow> bool" where
  "isToolRequest = has_shape
    (ObjOf [req ''type'' (OneOf [''tool_request'']), opt ''session_id'' (StrShape 1 (Some 512)),
       req ''tool_call_id'' (StrShape 1 None), req ''tool'' (StrShape 1 None), req ''args'' AnyShape,
       opt ''ts'' (IntMin 0)])"

definition isToolResult :: "js \<Rightarrow> bool" where
  "isToolResult = has_shape
    (ObjOf [req ''type'' (OneOf [''tool_result'']), opt ''session_id'' (StrShape 1 (Some 512)),
       req ''tool_call_id'' (StrShape 1 None), opt ''result'' AnyShape,
       opt ''error'' (StrShape 0 None), opt ''ts'' (IntMin 0)])"

definition isErrorMessage :: "js \<Rightarrow> bool" where
  "isErrorMessage = has_shape
    (ObjOf [req ''type'' (OneOf [''error'']), opt ''session_id'' (StrShape 1 (Some 512)),
       opt ''in_reply_to'' (StrShape 1 None), req ''code'' (StrShape 1 None),
       req ''message'' (StrShape 0 None), opt ''ts'' (IntMin 0)])"

definition isCancelled :: "js \<Rightarrow> bool" where
  "isCancelled = has_shape
    (ObjOf [req ''type'' (OneOf [''cancelled'']), opt ''session_id'' (StrShape 1 (Some 512)),
       req ''in_reply_to'' (StrShape 1 None), req ''target_id'' (StrShape 1 None)])"

definition isPong :: "js \<Rightarrow> bool" where
  "isPong = has_shape
    (ObjOf [req ''type'' (OneOf [''pong'']), req ''in_reply_to'' (StrShape 1 None)])"

definition isBye :: "js \<Rightarrow> bool" where
  "isBye = has_shape
    (ObjOf [req ''type'' (OneOf [''bye'']),
       req ''reason'' (OneOf [''peer_stop'', ''session_replaced'', ''shutdown''])])"

text \<open>What \<open>isSessionHistory\<close> checks of each event.\<close>

definition history_event_shape :: shape where
  "history_event_shape = AnyOf
    [(ObjOf [req ''ts'' (IntMin 0), req ''type'' (OneOf [''user_input'']), req ''id'' (StrShape 1 None),
       req ''text'' (StrShape 0 None),
       opt ''images'' (ListOf 0 (ObjOf [req ''data'' (StrShape 1 None), req ''mime'' (StrShape 1 None)]))]),
     (ObjOf [req ''ts'' (IntMin 0), req ''type'' (OneOf [''tool_request'']),
       req ''tool_call_id'' (StrShape 1 None), req ''tool'' (StrShape 1 None), req ''args'' AnyShape]),
     (ObjOf [req ''ts'' (IntMin 0), req ''type'' (OneOf [''tool_result'']),
       req ''tool_call_id'' (StrShape 1 None), opt ''result'' AnyShape,
       opt ''error'' (StrShape 0 None)]),
     (ObjOf [req ''ts'' (IntMin 0), req ''type'' (OneOf [''agent_message'']),
       req ''in_reply_to'' (StrShape 1 None), req ''text'' (StrShape 0 None),
       opt ''message_id'' (StrShape 0 None),
       opt ''usage'' (ObjOf [req ''input_tokens'' (IntMin 0), req ''output_tokens'' (IntMin 0)])]),
     (ObjOf [req ''ts'' (IntMin 0), req ''type'' (OneOf [''compaction'']), req ''summary'' (StrShape 0 None),
       req ''tokens_before'' (IntMin 0)]),
     (ObjOf [req ''ts'' (IntMin 0), req ''type'' (OneOf [''error'']), opt ''in_reply_to'' (StrShape 1 None),
       req ''code'' (StrShape 1 None), req ''message'' (StrShape 0 None)])]"

definition isSessionHistory :: "js \<Rightarrow> bool" where
  "isSessionHistory = has_shape
    (ObjOf [req ''type'' (OneOf [''session_history'']), opt ''session_id'' (StrShape 1 (Some 512)),
       req ''in_reply_to'' (StrShape 1 None), req ''session_started_at'' (IntMin 0),
       req ''events'' (ListOf 0 (history_event_shape)),
       req ''eos'' BoolShape, req ''truncated'' BoolShape])"

definition isActionOk :: "js \<Rightarrow> bool" where
  "isActionOk = has_shape
    (ObjOf [req ''type'' (OneOf [''action_ok'']), opt ''session_id'' (StrShape 1 (Some 512)),
       req ''in_reply_to'' (StrShape 1 None),
       req ''action'' (OneOf [''session_new'', ''session_compact'', ''model_set'', ''thinking_set''])])"

definition isActionError :: "js \<Rightarrow> bool" where
  "isActionError = has_shape
    (ObjOf [req ''type'' (OneOf [''action_error'']), opt ''session_id'' (StrShape 1 (Some 512)),
       req ''in_reply_to'' (StrShape 1 None),
       req ''action'' (OneOf [''session_new'', ''session_compact'', ''model_set'', ''thinking_set'']),
       req ''error'' (StrShape 0 None)])"

definition isModelsList :: "js \<Rightarrow> bool" where
  "isModelsList = has_shape
    (ObjOf [req ''type'' (OneOf [''models_list'']), opt ''session_id'' (StrShape 1 (Some 512)),
       req ''in_reply_to'' (StrShape 1 None),
       req ''models'' (ListOf 0 (ObjOf [req ''id'' (StrShape 1 None), req ''name'' (StrShape 1 None),
       req ''provider'' (StrShape 1 None), req ''reasoning'' BoolShape,
       req ''context_window'' (IntMin 0), opt ''vision'' BoolShape])),
       opt ''current'' (ObjOf [req ''id'' (StrShape 1 None), req ''name'' (StrShape 1 None),
       req ''provider'' (StrShape 1 None), req ''reasoning'' BoolShape,
       req ''context_window'' (IntMin 0), opt ''vision'' BoolShape])])"

definition isFleetUpdateStatus :: "js \<Rightarrow> bool" where
  "isFleetUpdateStatus = has_shape
    (ObjOf [req ''type'' (OneOf [''fleet_update_status'']), req ''update_id'' (StrShape 1 None),
       req ''phase'' (OneOf [''updating'', ''arming'', ''update_failed'', ''already_running'']),
       opt ''detail'' (StrShape 0 None),
       opt ''peers'' (ListOf 0 (ObjOf [req ''peer'' (StrShape 1 None),
       req ''state'' (OneOf [''armed'', ''deferred'', ''declined'', ''no-ack'']),
       opt ''reason'' (StrShape 0 None)]))])"

definition isCaptureUploadAck :: "js \<Rightarrow> bool" where
  "isCaptureUploadAck = has_shape
    (ObjOf [req ''type'' (OneOf [''capture_upload_ack'']), opt ''session_id'' (StrShape 1 (Some 512)),
       req ''in_reply_to'' (StrShape 1 None), req ''upload_id'' (StrShape 1 (Some 128)),
       req ''stage'' (OneOf [''begin'', ''chunk'', ''delivered'']), opt ''next_sequence'' (IntMin 0),
       opt ''path'' (StrShape 1 (Some 512)), opt ''bytes'' (IntMin 0), opt ''events'' (IntMin 0)])"

definition isCaptureUploadError :: "js \<Rightarrow> bool" where
  "isCaptureUploadError = has_shape
    (ObjOf [req ''type'' (OneOf [''capture_upload_error'']), opt ''session_id'' (StrShape 1 (Some 512)),
       req ''in_reply_to'' (StrShape 1 None), req ''upload_id'' (StrShape 1 (Some 128)),
       req ''code'' (OneOf [''too_large'', ''bad_sequence'', ''io_error'', ''checksum_mismatch'', ''invalid_capture'', ''busy'', ''not_found'']),
       req ''message'' (StrShape 1 (Some 256))])"

definition isRelayControlFrameChallenge :: "js \<Rightarrow> bool" where
  "isRelayControlFrameChallenge = has_shape
    (ObjOf [req ''type'' (OneOf [''challenge'']), req ''nonce'' (StrShape 1 None)])"

definition isRelayControlFramePresence :: "js \<Rightarrow> bool" where
  "isRelayControlFramePresence = has_shape
    (ObjOf [req ''type'' (OneOf [''presence'']),
       req ''states'' (ListOf 0 (ObjOf [req ''peer'' (StrShape 1 None), req ''online'' BoolShape,
       opt ''since_ts'' (AnyOf [(IntMin 0), NullShape])]))])"

definition isRelayControlFramePeerOnline :: "js \<Rightarrow> bool" where
  "isRelayControlFramePeerOnline = has_shape
    (ObjOf [req ''type'' (OneOf [''peer_online'']), req ''peer'' (StrShape 1 None)])"

definition isRelayControlFramePeerOffline :: "js \<Rightarrow> bool" where
  "isRelayControlFramePeerOffline = has_shape
    (ObjOf [req ''type'' (OneOf [''peer_offline'']), req ''peer'' (StrShape 1 None),
       req ''since_ts'' (IntMin 0)])"

definition isRelayControlFrameRooms :: "js \<Rightarrow> bool" where
  "isRelayControlFrameRooms = has_shape
    (ObjOf [req ''type'' (OneOf [''rooms'']), req ''peer'' (StrShape 1 None),
       req ''rooms'' (ListOf 0 (ObjOf [req ''room_id'' (StrShape 1 (Some 256)), opt ''name'' (StrShape 0 (Some 256)),
       opt ''cwd'' (StrShape 0 (Some 4096)), opt ''session_id'' (StrShape 1 (Some 512)),
       opt ''model'' (StrShape 0 (Some 256)), opt ''thinking'' (StrShape 0 (Some 32)),
       req ''working'' BoolShape, opt ''background'' BoolShape,
       opt ''branch'' (AnyOf [(StrShape 0 (Some 256)), NullShape]),
       opt ''ctx_percent'' (AnyOf [(IntMin 0), NullShape]),
       opt ''ctx_max'' (AnyOf [(IntMin 0), NullShape]), req ''started_at'' (IntMin 0)]))])"

definition isRelayControlFrameRoomAnnounced :: "js \<Rightarrow> bool" where
  "isRelayControlFrameRoomAnnounced = has_shape
    (ObjOf [req ''type'' (OneOf [''room_announced'']), req ''peer'' (StrShape 1 None),
       req ''room_id'' (StrShape 1 (Some 256)), opt ''name'' (StrShape 0 (Some 256)),
       opt ''cwd'' (StrShape 0 (Some 4096)), opt ''session_id'' (StrShape 1 (Some 512)),
       opt ''model'' (StrShape 0 (Some 256)), opt ''thinking'' (StrShape 0 (Some 32)),
       req ''working'' BoolShape, opt ''background'' BoolShape,
       opt ''branch'' (AnyOf [(StrShape 0 (Some 256)), NullShape]),
       opt ''ctx_percent'' (AnyOf [(IntMin 0), NullShape]),
       opt ''ctx_max'' (AnyOf [(IntMin 0), NullShape]), req ''started_at'' (IntMin 0)])"

definition isRelayControlFrameRoomEnded :: "js \<Rightarrow> bool" where
  "isRelayControlFrameRoomEnded = has_shape
    (ObjOf [req ''type'' (OneOf [''room_ended'']), req ''peer'' (StrShape 1 None),
       req ''room_id'' (StrShape 1 (Some 256)), req ''since_ts'' (IntMin 0)])"

definition isRelayControlFrameRoomMetaUpdated :: "js \<Rightarrow> bool" where
  "isRelayControlFrameRoomMetaUpdated = has_shape
    (ObjOf [req ''type'' (OneOf [''room_meta_updated'']), req ''peer'' (StrShape 1 None),
       req ''room_id'' (StrShape 1 (Some 256)),
       req ''meta'' (ObjOf [opt ''model'' (AnyOf [(StrShape 0 (Some 256)), NullShape]),
       opt ''thinking'' (AnyOf [(StrShape 0 (Some 32)), NullShape]),
       opt ''session_id'' (AnyOf [(StrShape 1 (Some 512)), NullShape]), opt ''working'' BoolShape,
       opt ''background'' BoolShape, opt ''branch'' (AnyOf [(StrShape 0 (Some 256)), NullShape]),
       opt ''ctx_percent'' (AnyOf [(IntMin 0), NullShape]),
       opt ''ctx_max'' (AnyOf [(IntMin 0), NullShape])])])"

definition isCrossPcFramePiEnvelope :: "js \<Rightarrow> bool" where
  "isCrossPcFramePiEnvelope = has_shape
    (ObjOf [req ''type'' (OneOf [''pi_envelope'']), req ''to_pc'' (StrShape 1 None),
       req ''to_room'' (StrShape 1 None),
       req ''envelope'' (ObjOf [req ''from'' (StrShape 1 None),
       req ''to'' (AnyOf [(StrShape 1 None), (ListOf 1 (StrShape 1 None))]),
       req ''id'' (StrShape 1 None), req ''re'' (AnyOf [(StrShape 1 None), NullShape]),
       req ''body'' AnyShape])])"

definition isCrossPcFramePiEnvelopeIn :: "js \<Rightarrow> bool" where
  "isCrossPcFramePiEnvelopeIn = has_shape
    (ObjOf [req ''type'' (OneOf [''pi_envelope_in'']), req ''from_pc'' (StrShape 1 None),
       req ''to_room'' (StrShape 1 None),
       req ''envelope'' (AnyOf [(ObjOf [req ''from'' (OneOf [''_relay'']), req ''to'' (StrShape 1 None), req ''id'' (StrShape 1 None),
       req ''re'' (AnyOf [(StrShape 1 None), NullShape]),
       req ''body'' (ObjOf [req ''type'' (OneOf [''transport_error'']),
       req ''reason'' (OneOf [''offline'', ''not_authorized'', ''bad_envelope''])])]), (ObjOf [req ''from'' (StrShape 1 None),
       req ''to'' (AnyOf [(StrShape 1 None), (ListOf 1 (StrShape 1 None))]),
       req ''id'' (StrShape 1 None), req ''re'' (AnyOf [(StrShape 1 None), NullShape]),
       req ''body'' AnyShape])])])"

subsection \<open>Dispatch by type\<close>

text \<open>
  \<open>VALIDATORS[record.type]\<close> is a property access, so it also finds the members every
  object inherits. Called as a plain function on the record, \<open>constructor\<close> (\<open>Object\<close>)
  and \<open>toString\<close> return something truthy; the others throw, as \<open>this\<close> is \<open>undefined\<close> or,
  for \<open>__proto__\<close>, the value is not a function. \<open>None\<close> is the exception.
\<close>

definition inherited_members :: "string list" where
  "inherited_members = [''constructor'', ''__defineGetter__'', ''__defineSetter__'', ''hasOwnProperty'',
     ''__lookupGetter__'', ''__lookupSetter__'', ''isPrototypeOf'', ''propertyIsEnumerable'', ''toString'',
     ''valueOf'', ''__proto__'', ''toLocaleString'']"

definition call_validator :: "(string \<times> (js \<Rightarrow> bool)) list \<Rightarrow> string \<Rightarrow> js \<Rightarrow> bool option" where
  "call_validator table t v = (case map_of table t of
     Some f \<Rightarrow> Some (f v)
   | None \<Rightarrow> (if t = ''constructor'' \<or> t = ''toString'' then Some True
             else if t \<in> set inherited_members then None
             else Some False))"

definition by_type :: "(string \<times> (js \<Rightarrow> bool)) list \<Rightarrow> js \<Rightarrow> bool option" where
  "by_type table v = (if \<not> isRecord v then Some False else case jfield v ''type'' of
     Str t \<Rightarrow> call_validator table t v
   | _ \<Rightarrow> Some False)"

definition CLIENT_MESSAGE_VALIDATORS :: "(string \<times> (js \<Rightarrow> bool)) list" where
  "CLIENT_MESSAGE_VALIDATORS =
    [(''pair_request'', isPairRequest), (''user_message'', isUserMessage),
     (''queued_message_set'', isQueuedMessageSet), (''queued_message_clear'', isQueuedMessageClear),
     (''approve_tool'', isApproveTool), (''cancel'', isCancel), (''ping'', isPing),
     (''session_sync'', isSessionSync), (''session_new'', isSessionNew),
     (''session_compact'', isSessionCompact), (''fleet_update'', isFleetUpdate),
     (''model_set'', isModelSet), (''thinking_set'', isThinkingSet), (''list_models'', isListModels),
     (''capture_upload_begin'', isCaptureUploadBegin), (''capture_upload_chunk'', isCaptureUploadChunk),
     (''capture_upload_end'', isCaptureUploadEnd)]"

definition isClientMessage :: "js \<Rightarrow> bool option" where
  "isClientMessage = by_type CLIENT_MESSAGE_VALIDATORS"

definition SERVER_MESSAGE_VALIDATORS :: "(string \<times> (js \<Rightarrow> bool)) list" where
  "SERVER_MESSAGE_VALIDATORS =
    [(''pair_ok'', isPairOk), (''pair_error'', isPairError), (''user_input'', isUserInput),
     (''user_message'', isUserMessage), (''queued_message_state'', isQueuedMessageState),
     (''agent_chunk'', isAgentChunk), (''agent_done'', isAgentDone), (''agent_message'', isAgentMessage),
     (''compaction'', isCompaction), (''tool_request'', isToolRequest), (''tool_result'', isToolResult),
     (''error'', isErrorMessage), (''cancelled'', isCancelled), (''pong'', isPong), (''bye'', isBye),
     (''session_history'', isSessionHistory), (''action_ok'', isActionOk),
     (''action_error'', isActionError), (''models_list'', isModelsList),
     (''fleet_update_status'', isFleetUpdateStatus), (''capture_upload_ack'', isCaptureUploadAck),
     (''capture_upload_error'', isCaptureUploadError)]"

definition isServerMessage :: "js \<Rightarrow> bool option" where
  "isServerMessage = by_type SERVER_MESSAGE_VALIDATORS"

definition CROSS_PC_FRAME_VALIDATORS :: "(string \<times> (js \<Rightarrow> bool)) list" where
  "CROSS_PC_FRAME_VALIDATORS =
    [(''pi_envelope'', isCrossPcFramePiEnvelope), (''pi_envelope_in'', isCrossPcFramePiEnvelopeIn)]"

definition isCrossPcFrame :: "js \<Rightarrow> bool option" where
  "isCrossPcFrame = by_type CROSS_PC_FRAME_VALIDATORS"

definition RELAY_SERVER_CONTROL_FRAME_VALIDATORS :: "(string \<times> (js \<Rightarrow> bool)) list" where
  "RELAY_SERVER_CONTROL_FRAME_VALIDATORS =
    [(''challenge'', isRelayControlFrameChallenge), (''presence'', isRelayControlFramePresence),
     (''peer_online'', isRelayControlFramePeerOnline), (''peer_offline'', isRelayControlFramePeerOffline),
     (''rooms'', isRelayControlFrameRooms), (''room_announced'', isRelayControlFrameRoomAnnounced),
     (''room_ended'', isRelayControlFrameRoomEnded),
     (''room_meta_updated'', isRelayControlFrameRoomMetaUpdated)]"

definition isRelayServerControlFrame :: "js \<Rightarrow> bool option" where
  "isRelayServerControlFrame = by_type RELAY_SERVER_CONTROL_FRAME_VALIDATORS"

definition RELAY_POST_AUTH_CONTROL_FRAME_VALIDATORS :: "(string \<times> (js \<Rightarrow> bool)) list" where
  "RELAY_POST_AUTH_CONTROL_FRAME_VALIDATORS =
    [(''presence'', isRelayControlFramePresence), (''peer_online'', isRelayControlFramePeerOnline),
     (''peer_offline'', isRelayControlFramePeerOffline), (''rooms'', isRelayControlFrameRooms),
     (''room_announced'', isRelayControlFrameRoomAnnounced),
     (''room_ended'', isRelayControlFrameRoomEnded),
     (''room_meta_updated'', isRelayControlFrameRoomMetaUpdated)]"

definition isRelayPostAuthControlFrame :: "js \<Rightarrow> bool option" where
  "isRelayPostAuthControlFrame = by_type RELAY_POST_AUTH_CONTROL_FRAME_VALIDATORS"

definition SESSION_HISTORY_EVENT_VALIDATORS :: "(string \<times> (js \<Rightarrow> bool)) list" where
  "SESSION_HISTORY_EVENT_VALIDATORS =
    [(''user_input'', isHistoryUserInput), (''tool_request'', isHistoryToolRequest),
     (''tool_result'', isHistoryToolResult), (''agent_message'', isHistoryAgentMessage),
     (''compaction'', isHistoryCompaction), (''error'', isHistoryError)]"

definition isSessionHistoryEvent :: "js \<Rightarrow> bool option" where
  "isSessionHistoryEvent = by_type SESSION_HISTORY_EVENT_VALIDATORS"

subsection \<open>Type lists\<close>

definition CLIENT_MESSAGE_TYPES :: "string list" where
  "CLIENT_MESSAGE_TYPES =
    [''pair_request'', ''user_message'', ''queued_message_set'', ''queued_message_clear'',
     ''approve_tool'', ''cancel'', ''ping'', ''session_sync'', ''session_new'', ''session_compact'',
     ''fleet_update'', ''model_set'', ''thinking_set'', ''list_models'', ''capture_upload_begin'',
     ''capture_upload_chunk'', ''capture_upload_end'']"

definition SESSION_SCOPED_CLIENT_MESSAGE_TYPES :: "string list" where
  "SESSION_SCOPED_CLIENT_MESSAGE_TYPES =
    [''user_message'', ''queued_message_set'', ''queued_message_clear'', ''approve_tool'', ''cancel'',
     ''session_sync'', ''session_new'', ''session_compact'', ''fleet_update'', ''model_set'',
     ''thinking_set'', ''list_models'', ''capture_upload_begin'', ''capture_upload_chunk'',
     ''capture_upload_end'']"

definition SERVER_MESSAGE_TYPES :: "string list" where
  "SERVER_MESSAGE_TYPES =
    [''pair_ok'', ''pair_error'', ''user_input'', ''user_message'', ''queued_message_state'',
     ''agent_chunk'', ''agent_done'', ''agent_message'', ''compaction'', ''tool_request'',
     ''tool_result'', ''error'', ''cancelled'', ''pong'', ''bye'', ''session_history'', ''action_ok'',
     ''action_error'', ''models_list'', ''fleet_update_status'', ''capture_upload_ack'',
     ''capture_upload_error'']"

definition SESSION_SCOPED_SERVER_MESSAGE_TYPES :: "string list" where
  "SESSION_SCOPED_SERVER_MESSAGE_TYPES =
    [''user_input'', ''user_message'', ''queued_message_state'', ''agent_chunk'', ''agent_done'',
     ''agent_message'', ''compaction'', ''tool_request'', ''tool_result'', ''error'', ''cancelled'',
     ''session_history'', ''action_ok'', ''action_error'', ''models_list'', ''capture_upload_ack'',
     ''capture_upload_error'']"

subsection \<open>The line codec\<close>

datatype decode_error = InvalidMessage | UnsupportedType

definition js_space :: "char \<Rightarrow> bool" where
  "js_space c \<longleftrightarrow> of_char c \<in> {9, 10, 11, 12, 13, 32, 160 :: nat}"

definition js_trim :: "string \<Rightarrow> string" where
  "js_trim s = rev (dropWhile js_space (rev (dropWhile js_space s)))"

definition encodeClient :: "js \<Rightarrow> string" where
  "encodeClient msg = stringify msg @ [CHR 0x0A]"

definition parseJsonLine :: "string \<Rightarrow> decode_error + js" where
  "parseJsonLine line = (case json_parse (js_trim line) of None \<Rightarrow> Inl InvalidMessage | Some v \<Rightarrow> Inr v)"

definition readType :: "js \<Rightarrow> decode_error + string" where
  "readType v = (if \<not> is_object v then Inl InvalidMessage else case jfield v ''type'' of
     Str t \<Rightarrow> Inr t
   | _ \<Rightarrow> Inl InvalidMessage)"

text \<open>The two decoders differ in the list and the validator only.\<close>

definition decode_line :: "string list \<Rightarrow> (js \<Rightarrow> bool option) \<Rightarrow> string \<Rightarrow> decode_error + js" where
  "decode_line types valid line = (case parseJsonLine line of
     Inl e \<Rightarrow> Inl e
   | Inr v \<Rightarrow> (case readType v of
       Inl e \<Rightarrow> Inl e
     | Inr t \<Rightarrow>
         (if t \<notin> set types then Inl UnsupportedType
          else if valid v = Some True then Inr v
          else Inl InvalidMessage)))"

definition decodeServer :: "string \<Rightarrow> decode_error + js" where
  "decodeServer = decode_line SERVER_MESSAGE_TYPES isServerMessage"

definition decodeClient :: "string \<Rightarrow> decode_error + js" where
  "decodeClient = decode_line CLIENT_MESSAGE_TYPES isClientMessage"

definition decodeRelayClientPayload :: "string \<Rightarrow> js option" where
  "decodeRelayClientPayload payload = (case decodeClient payload of Inl _ \<Rightarrow> None | Inr m \<Rightarrow> Some m)"

subsection \<open>Session scope and gate\<close>

definition isSessionScopedServerType :: "string \<Rightarrow> bool" where
  "isSessionScopedServerType t \<longleftrightarrow> t \<in> set SESSION_SCOPED_SERVER_MESSAGE_TYPES"

definition isServerMessageType :: "string \<Rightarrow> bool" where
  "isServerMessageType t \<longleftrightarrow> t \<in> set SERVER_MESSAGE_TYPES"

definition isSessionScopedClientType :: "string \<Rightarrow> bool" where
  "isSessionScopedClientType t \<longleftrightarrow> t \<in> set SESSION_SCOPED_CLIENT_MESSAGE_TYPES"

definition NON_SESSION_SCOPED_SERVER_TYPES :: "string list" where
  "NON_SESSION_SCOPED_SERVER_TYPES = filter (\<lambda>t. \<not> isSessionScopedServerType t) SERVER_MESSAGE_TYPES"

datatype session_gate =
    GateOk
  | SessionMismatch string string "string option"

definition sessionIdFromClientMessage :: "js \<Rightarrow> string option" where
  "sessionIdFromClientMessage msg = as_str (jfield msg ''session_id'')"

definition validateClientSession :: "js \<Rightarrow> string \<Rightarrow> session_gate" where
  "validateClientSession msg current =
    (if \<not> isSessionScopedClientType (the_str (jfield msg ''type'')) then GateOk
     else let received = sessionIdFromClientMessage msg in
       if received \<noteq> Some current then
         SessionMismatch
           (if received = None \<or> received = Some [] then ''Session-scoped command is missing session_id''
            else ''Session-scoped command targets a stale session'')
           current received
       else GateOk)"


subsection \<open>What passes the gate\<close>

lemma by_type_own: "map_of table t = Some f \<Longrightarrow> jfield v ''type'' = Str t \<Longrightarrow> isRecord v \<Longrightarrow> by_type table v = Some (f v)"
  by (simp add: by_type_def call_validator_def)

lemma by_type_record: "by_type table v = Some True \<Longrightarrow> isRecord v \<and> (\<exists>t. jfield v ''type'' = Str t)"
  by (auto simp: by_type_def split: if_splits js.splits)

lemma client_validators: "map fst CLIENT_MESSAGE_VALIDATORS = CLIENT_MESSAGE_TYPES"
  by (simp add: CLIENT_MESSAGE_VALIDATORS_def CLIENT_MESSAGE_TYPES_def)

lemma server_validators: "map fst SERVER_MESSAGE_VALIDATORS = SERVER_MESSAGE_TYPES"
  by (simp add: SERVER_MESSAGE_VALIDATORS_def SERVER_MESSAGE_TYPES_def)

text \<open>A record's JSON text has nothing to trim but the newline of the frame.\<close>

lemma trim_record: "isRecord v \<Longrightarrow> js_trim (stringify v @ [CHR 0x0A]) = stringify v"
  by (cases v) (auto simp: js_trim_def js_space_def)

lemma decode_line_encoded:
  assumes "json_value v" and "isRecord v"
  shows "decode_line types valid (stringify v @ [CHR 0x0A]) =
    (case readType v of Inl e \<Rightarrow> Inl e
     | Inr t \<Rightarrow> if t \<notin> set types then Inl UnsupportedType
               else if valid v = Some True then Inr v else Inl InvalidMessage)"
  using assms by (simp add: decode_line_def parseJsonLine_def trim_record json_round_trip)

lemma readType_record: "isRecord v \<Longrightarrow> jfield v ''type'' = Str t \<Longrightarrow> readType v = Inr t"
  by (cases v) (simp_all add: readType_def)

lemma unscoped_types: "t \<in> set CLIENT_MESSAGE_TYPES \<Longrightarrow> \<not> isSessionScopedClientType t \<longleftrightarrow> t = ''pair_request'' \<or> t = ''ping''"
  by (auto simp: CLIENT_MESSAGE_TYPES_def isSessionScopedClientType_def SESSION_SCOPED_CLIENT_MESSAGE_TYPES_def)

lemma decoded_type: "decode_line types valid line = Inr m \<Longrightarrow> \<exists>t. jfield m ''type'' = Str t \<and> t \<in> set types \<and> valid m = Some True"
  by (auto simp: decode_line_def readType_def split: sum.splits if_splits js.splits)

text \<open>
  C19. Whatever line arrives, a client message that was decoded is let through to the session
  exactly when it carries the current session's id, pairing requests and pings alone
  excepted; a refusal names both ids; and a valid message that is encoded is decoded
  to itself.
\<close>

theorem only_current_session_frames:
  "(case decodeClient line of
      Inl _ \<Rightarrow> True
    | Inr m \<Rightarrow> (if validateClientSession m sid = GateOk
               then jfield m ''type'' \<in> {Str ''pair_request'', Str ''ping''} \<or> jfield m ''session_id'' = Str sid
               else jfield m ''session_id'' \<noteq> Str sid
                 \<and> (\<exists>text. validateClientSession m sid = SessionMismatch text sid (as_str (jfield m ''session_id'')))))
   \<and> (if json_value msg \<and> isClientMessage msg = Some True \<and> the_str (jfield msg ''type'') \<in> set CLIENT_MESSAGE_TYPES
      then decodeClient (encodeClient msg) = Inr msg else True)"
proof -
  have "(if validateClientSession m sid = GateOk
         then jfield m ''type'' \<in> {Str ''pair_request'', Str ''ping''} \<or> jfield m ''session_id'' = Str sid
         else jfield m ''session_id'' \<noteq> Str sid
           \<and> (\<exists>text. validateClientSession m sid = SessionMismatch text sid (as_str (jfield m ''session_id''))))"
    if "decodeClient line = Inr m" for m
  proof -
    from that obtain t where t: "jfield m ''type'' = Str t" "t \<in> set CLIENT_MESSAGE_TYPES"
      unfolding decodeClient_def by (blast dest: decoded_type)
    show ?thesis
      using unscoped_types [OF t(2)] t(1)
      by (auto simp: validateClientSession_def sessionIdFromClientMessage_def Let_def)
  qed
  moreover have "decodeClient (encodeClient msg) = Inr msg"
    if "json_value msg" "isClientMessage msg = Some True" "the_str (jfield msg ''type'') \<in> set CLIENT_MESSAGE_TYPES"
  proof -
    from that(2) obtain t where "isRecord msg" "jfield msg ''type'' = Str t"
      using by_type_record unfolding isClientMessage_def by blast
    with that show ?thesis
      by (simp add: decodeClient_def encodeClient_def decode_line_encoded readType_record)
  qed
  ultimately show ?thesis by (auto split: sum.split)
qed

text \<open>
  The relay's control frames have no list in front of the table: a frame whose type is
  the name of an inherited member is accepted, or the validator throws.
\<close>

lemma inherited_control_frames:
  "isRelayPostAuthControlFrame (Obj [(''type'', Str ''constructor'')]) = Some True"
  "isRelayPostAuthControlFrame (Obj [(''type'', Str ''hasOwnProperty'')]) = None"
  by code_simp+

end
