(* ===== verification/TurnState.thy ===== *)
theory TurnState imports Prelude
begin

text \<open>
  \<open>session/turn_state.ts\<close>: the turn of a session as one reducer over events, and the
  projection its consumers read. The state's \<open>awaitingSync: true\<close> is a constant of
  the \<open>Done\<close> constructor. The sets of the snapshot are lists without repetitions;
  \<open>localeCompare\<close> is an argument of the projection.
\<close>

datatype turn_source = App | QueuedSource | Local | Rpc | Compaction

datatype turn_error = ProviderError | DeliveryError | Cancelled | SessionShutdown

datatype late_kind = Owner | MeshBridge

record late_target =
  lt_kind :: late_kind
  lt_id :: string

record queued_message =
  qm_id :: string
  qm_text :: string

datatype turn_state =
    Idle
  | Working string string turn_source
  | AwaitingTool string string string
  | Streaming string string
  | Done string bool bool
  | TurnError "string option" turn_error

record turn_snapshot =
  ts_state :: turn_state
  ts_queued :: "queued_message option"
  ts_peers :: "string list"
  ts_targets :: "late_target list"

datatype turn_event =
    UserMessageAccepted string "string option" "turn_source option"
  | LocalInput string "string option" "turn_source option"
  | TurnStart string
  | AgentChunk "string option"
  | ToolExecutionStart string
  | ToolExecutionEnd "string option"
  | AgentDone "bool option"
  | TurnEnd
  | FlushLateAttachSync
  | ProviderFailed "string option"
  | DeliveryFailed "string option"
  | CancelledEvent "string option"
  | ShutdownEvent
  | CompactionStart string "string option"
  | CompactionDone
  | PeerAttachedTarget late_target
  | PeerAttached string
  | QueuedMessageSet string string
  | QueuedMessageClear

definition initialTurnSnapshot :: turn_snapshot where
  "initialTurnSnapshot = \<lparr>ts_state = Idle, ts_queued = None, ts_peers = [], ts_targets = []\<rparr>"

fun isActive :: "turn_state \<Rightarrow> bool" where
  "isActive (Working _ _ _) = True"
| "isActive (AwaitingTool _ _ _) = True"
| "isActive (Streaming _ _) = True"
| "isActive _ = False"

text \<open>\<open>state.turnId\<close> and \<open>state.replyTo\<close> of an active state.\<close>

fun turn_id :: "turn_state \<Rightarrow> string" where
  "turn_id (Working t _ _) = t"
| "turn_id (AwaitingTool t _ _) = t"
| "turn_id (Streaming t _) = t"
| "turn_id (Done t _ _) = t"
| "turn_id _ = []"

fun reply_to :: "turn_state \<Rightarrow> string" where
  "reply_to (Working _ r _) = r"
| "reply_to (AwaitingTool _ r _) = r"
| "reply_to (Streaming _ r) = r"
| "reply_to _ = []"

fun activeTurnId :: "turn_state \<Rightarrow> string option" where
  "activeTurnId Idle = None"
| "activeTurnId (TurnError t _) = t"
| "activeTurnId s = Some (turn_id s)"

definition or_else :: "'a option \<Rightarrow> 'a \<Rightarrow> 'a" where
  "or_else x d = (case x of Some v \<Rightarrow> v | None \<Rightarrow> d)"

definition withQueued :: "turn_snapshot \<Rightarrow> queued_message option \<Rightarrow> turn_snapshot" where
  "withQueued s q = s\<lparr>ts_queued := q\<rparr>"

definition enter :: "turn_snapshot \<Rightarrow> turn_state \<Rightarrow> turn_snapshot" where
  "enter s st = s\<lparr>ts_state := st, ts_peers := [], ts_targets := []\<rparr>"

definition seedTurn :: "turn_snapshot \<Rightarrow> string \<Rightarrow> string \<Rightarrow> turn_source \<Rightarrow> turn_snapshot" where
  "seedTurn s t r src = (if isActive (ts_state s) then s else enter s (Working t r src))"

definition transitionActive :: "turn_snapshot \<Rightarrow> (turn_state \<Rightarrow> turn_state) \<Rightarrow> turn_snapshot" where
  "transitionActive s next = (if \<not> isActive (ts_state s) then s else s\<lparr>ts_state := next (ts_state s)\<rparr>)"

definition terminalError :: "turn_snapshot \<Rightarrow> turn_error \<Rightarrow> string option \<Rightarrow> turn_snapshot" where
  "terminalError s reason t =
     enter s (TurnError (case t of Some x \<Rightarrow> Some x | None \<Rightarrow> activeTurnId (ts_state s)) reason)"

definition idleWithQueue :: "turn_snapshot \<Rightarrow> turn_snapshot" where
  "idleWithQueue s = enter s Idle"

definition lateAttachKey :: "late_target \<Rightarrow> string" where
  "lateAttachKey t = (case lt_kind t of Owner \<Rightarrow> ''owner'' | MeshBridge \<Rightarrow> ''mesh_bridge'') @ '':'' @ lt_id t"

definition withLateAttachTarget :: "turn_snapshot \<Rightarrow> late_target \<Rightarrow> turn_snapshot" where
  "withLateAttachTarget s target =
     (let existing = fold (\<lambda>t m. omap_put m (lateAttachKey t) t) (ts_targets s) [];
          m = omap_put existing (lateAttachKey target) target
      in s\<lparr>ts_peers := (if lt_kind target = Owner then oset_add (ts_peers s) (lt_id target) else ts_peers s),
           ts_targets := map snd m\<rparr>)"

definition attach :: "turn_snapshot \<Rightarrow> late_target \<Rightarrow> turn_snapshot" where
  "attach s target = (if \<not> isActive (ts_state s) then s else withLateAttachTarget s target)"

fun reduceTurn :: "turn_snapshot \<Rightarrow> turn_event \<Rightarrow> turn_snapshot" where
  "reduceTurn s (QueuedMessageSet i t) = withQueued s (Some \<lparr>qm_id = i, qm_text = t\<rparr>)"
| "reduceTurn s QueuedMessageClear = withQueued s None"
| "reduceTurn s (PeerAttachedTarget target) = attach s target"
| "reduceTurn s (PeerAttached p) = attach s \<lparr>lt_kind = Owner, lt_id = p\<rparr>"
| "reduceTurn s (UserMessageAccepted t r src) = seedTurn s t (or_else r t) (or_else src App)"
| "reduceTurn s (LocalInput t r src) = seedTurn s t (or_else r t) (or_else src Local)"
| "reduceTurn s (TurnStart t) = (if isActive (ts_state s) then s else enter s (Working t t Local))"
| "reduceTurn s (AgentChunk r) =
     transitionActive s (\<lambda>st. Streaming (turn_id st) (or_else r (reply_to st)))"
| "reduceTurn s (ToolExecutionStart c) = transitionActive s (\<lambda>st. AwaitingTool (turn_id st) (reply_to st) c)"
| "reduceTurn s (ToolExecutionEnd c) = (case ts_state s of
     AwaitingTool t r c' \<Rightarrow>
       (if c \<noteq> None \<and> c \<noteq> Some c' then s else s\<lparr>ts_state := Working t r Local\<rparr>)
   | _ \<Rightarrow> s)"
| "reduceTurn s (AgentDone collect) =
     (if \<not> isActive (ts_state s) then s
      else s\<lparr>ts_state := Done (turn_id (ts_state s)) (or_else collect (0 < length (ts_targets s))) False\<rparr>)"
| "reduceTurn s TurnEnd = (case ts_state s of
     Done t c f \<Rightarrow> s\<lparr>ts_state := Done t c True\<rparr>
   | Idle \<Rightarrow> s
   | _ \<Rightarrow> idleWithQueue s)"
| "reduceTurn s FlushLateAttachSync = (case ts_state s of Done _ _ _ \<Rightarrow> idleWithQueue s | _ \<Rightarrow> s)"
| "reduceTurn s (ProviderFailed t) = terminalError s ProviderError t"
| "reduceTurn s (DeliveryFailed t) = terminalError s DeliveryError t"
| "reduceTurn s (CancelledEvent t) = terminalError s Cancelled t"
| "reduceTurn s ShutdownEvent = \<lparr>ts_state = TurnError (activeTurnId (ts_state s)) SessionShutdown,
     ts_queued = None, ts_peers = [], ts_targets = []\<rparr>"
| "reduceTurn s (CompactionStart t r) = enter s (Working t (or_else r t) Compaction)"
| "reduceTurn s CompactionDone =
     (if \<not> isActive (ts_state s) then s else s\<lparr>ts_state := Done (turn_id (ts_state s)) False False\<rparr>)"

record turn_projection =
  tp_working :: bool
  tp_activeTurnId :: "string option"
  tp_replyTo :: "string option"
  tp_cancelTargetId :: "string option"
  tp_awaitingSyncTurnId :: "string option"
  tp_lateAttachSyncTargets :: "late_target list"
  tp_canFlushLateAttachSync :: bool
  tp_canDrainQueuedMessage :: bool
  tp_phase :: turn_state
  tp_peersAttached :: "string list"
  tp_queued :: "queued_message option"

definition sortLateAttachTargets :: "(string \<Rightarrow> string \<Rightarrow> int) \<Rightarrow> late_target list \<Rightarrow> late_target list" where
  "sortLateAttachTargets loc ts = sort_by (\<lambda>a b. loc (lateAttachKey a) (lateAttachKey b)) ts"

definition projectTurn :: "(string \<Rightarrow> string \<Rightarrow> int) \<Rightarrow> turn_snapshot \<Rightarrow> turn_projection" where
  "projectTurn loc s =
     (let st = ts_state s; working = isActive st;
          reply = (if isActive st then Some (reply_to st) else None);
          awaiting = (case st of Done t _ _ \<Rightarrow> Some t | _ \<Rightarrow> None)
      in \<lparr>tp_working = working,
          tp_activeTurnId = (if working then Some (turn_id st) else None),
          tp_replyTo = reply,
          tp_cancelTargetId = (if working then reply else None),
          tp_awaitingSyncTurnId = awaiting,
          tp_lateAttachSyncTargets = (if awaiting = None then [] else sortLateAttachTargets loc (ts_targets s)),
          tp_canFlushLateAttachSync = (awaiting \<noteq> None \<and> (case st of Done _ _ f \<Rightarrow> f | _ \<Rightarrow> False)),
          tp_canDrainQueuedMessage = (ts_queued s \<noteq> None \<and> st = Idle),
          tp_phase = st,
          tp_peersAttached = sort (ts_peers s),
          tp_queued = ts_queued s\<rparr>)"

subsection \<open>The snapshot invariant\<close>

text \<open>
  Late-attach bookkeeping exists only while a turn runs or waits for its final sync;
  targets are distinct, and the owners among them are the attached peers.
\<close>

definition late_open :: "turn_state \<Rightarrow> bool" where
  "late_open st \<longleftrightarrow> isActive st \<or> (\<exists>t c f. st = Done t c f)"

definition wf_turn :: "turn_snapshot \<Rightarrow> bool" where
  "wf_turn s \<longleftrightarrow> (\<not> late_open (ts_state s) \<longrightarrow> ts_targets s = [] \<and> ts_peers s = [])
     \<and> distinct (map lateAttachKey (ts_targets s)) \<and> distinct (ts_peers s)
     \<and> set (ts_peers s) = lt_id ` {t \<in> set (ts_targets s). lt_kind t = Owner}"

lemma late_open_simps [simp]:
  "\<not> late_open Idle" "\<not> late_open (TurnError e r)" "late_open (Done t c f)"
  "isActive st \<Longrightarrow> late_open st" "late_open (Working a b src)" "late_open (Streaming a b)" "late_open (AwaitingTool a b d)"
  by (simp_all add: late_open_def)

lemma lateAttachKey_inj: "lateAttachKey a = lateAttachKey b \<longleftrightarrow> a = b"
  by (cases a; cases b) (auto simp: lateAttachKey_def split: late_kind.splits)

text \<open>Rebuilding the map from distinct targets is the list of keyed targets.\<close>

lemma keyed_targets:
  assumes "distinct (map lateAttachKey ts)"
  shows "fold (\<lambda>t m. omap_put m (lateAttachKey t) t) ts [] = map (\<lambda>t. (lateAttachKey t, t)) ts"
  using assms
proof (induction ts rule: rev_induct)
  case (snoc t ts)
  then show ?case by (simp add: omap_put_new image_image)
qed simp

lemma put_present:
  "distinct (map lateAttachKey ts) \<Longrightarrow> t \<in> set ts \<Longrightarrow>
    omap_put (map (\<lambda>t. (lateAttachKey t, t)) ts) (lateAttachKey t) t = map (\<lambda>t. (lateAttachKey t, t)) ts"
  by (induction ts) (auto simp: lateAttachKey_inj)

lemma targets_after_attach:
  assumes "distinct (map lateAttachKey (ts_targets s))"
  shows "ts_targets (withLateAttachTarget s t) = oset_add (ts_targets s) t"
proof (cases "t \<in> set (ts_targets s)")
  case True
  with assms show ?thesis
    by (simp add: withLateAttachTarget_def Let_def keyed_targets put_present oset_add_def comp_def)
next
  case False
  then have "lateAttachKey t \<notin> lateAttachKey ` set (ts_targets s)" by (auto simp: lateAttachKey_inj)
  with False assms show ?thesis
    by (simp add: withLateAttachTarget_def Let_def keyed_targets omap_put_new image_image oset_add_def comp_def)
qed

lemma wf_attach: "wf_turn s \<Longrightarrow> wf_turn (attach s t)"
proof -
  assume wf: "wf_turn s"
  then have d: "distinct (map lateAttachKey (ts_targets s))" by (simp add: wf_turn_def)
  have "distinct (map lateAttachKey (oset_add (ts_targets s) t))"
    using d by (auto simp: oset_add_def lateAttachKey_inj)
  moreover have "ts_peers (withLateAttachTarget s t) = (if lt_kind t = Owner then oset_add (ts_peers s) (lt_id t) else ts_peers s)"
    "ts_state (withLateAttachTarget s t) = ts_state s"
    by (simp_all add: withLateAttachTarget_def Let_def)
  ultimately show ?thesis
    using wf unfolding attach_def wf_turn_def
    by (auto simp: targets_after_attach [OF d])
qed

lemma wf_enter [simp]: "wf_turn (enter s st)"
  by (simp add: wf_turn_def enter_def)

lemma wf_closed: "wf_turn \<lparr>ts_state = st, ts_queued = q, ts_peers = [], ts_targets = []\<rparr>"
  by (simp add: wf_turn_def)

lemma wf_withQueued [simp]: "wf_turn (withQueued s q) = wf_turn s"
  by (simp add: wf_turn_def withQueued_def)

lemma wf_state_change: "wf_turn s \<Longrightarrow> late_open (ts_state s) \<Longrightarrow> late_open st \<Longrightarrow> wf_turn (s\<lparr>ts_state := st\<rparr>)"
  by (simp add: wf_turn_def)

lemma wf_reduceTurn: "wf_turn s \<Longrightarrow> wf_turn (reduceTurn s e)"
  by (cases e) (auto simp: wf_attach wf_closed seedTurn_def transitionActive_def terminalError_def idleWithQueue_def
      intro!: wf_state_change split: turn_state.split)+

lemma wf_initial: "wf_turn initialTurnSnapshot"
  by (simp add: wf_turn_def initialTurnSnapshot_def)

lemma wf_run: "wf_turn s \<Longrightarrow> wf_turn (fold (\<lambda>e s. reduceTurn s e) es s)"
  by (induction es arbitrary: s) (simp_all add: wf_reduceTurn)

definition run_turn :: "turn_event list \<Rightarrow> turn_snapshot \<Rightarrow> turn_snapshot" where
  "run_turn es s = fold (\<lambda>e s. reduceTurn s e) es s"

lemma run_turn_simps [simp]:
  "run_turn [] s = s" "run_turn (e # es) s = run_turn es (reduceTurn s e)"
  by (simp_all add: run_turn_def)

lemma run_turn_append [simp]: "run_turn (es @ fs) s = run_turn fs (run_turn es s)"
  by (simp add: run_turn_def)

text \<open>Events that may end, replace or restart a running turn.\<close>

fun ends_turn :: "turn_event \<Rightarrow> bool" where
  "ends_turn (AgentDone _) = True"
| "ends_turn TurnEnd = True"
| "ends_turn (ProviderFailed _) = True"
| "ends_turn (DeliveryFailed _) = True"
| "ends_turn (CancelledEvent _) = True"
| "ends_turn ShutdownEvent = True"
| "ends_turn (CompactionStart _ _) = True"
| "ends_turn CompactionDone = True"
| "ends_turn _ = False"

lemma attach_state [simp]: "ts_state (attach s t) = ts_state s"
  by (simp add: attach_def withLateAttachTarget_def Let_def)

lemma active_keeps_turn:
  assumes "isActive (ts_state s)" "\<not> ends_turn e"
  shows "isActive (ts_state (reduceTurn s e)) \<and> turn_id (ts_state (reduceTurn s e)) = turn_id (ts_state s)"
  using assms by (cases e; cases "ts_state s") (auto simp: seedTurn_def transitionActive_def withQueued_def)

lemma active_keeps_targets:
  assumes "isActive (ts_state s)" "\<not> ends_turn e" "wf_turn s"
  shows "set (ts_targets s) \<subseteq> set (ts_targets (reduceTurn s e))"
proof -
  have "set (ts_targets s) \<subseteq> set (ts_targets (attach s t))" for t
    using assms targets_after_attach [of s t] by (auto simp: attach_def wf_turn_def)
  then show ?thesis
    using assms(1,2) by (cases e; cases "ts_state s") (auto simp: seedTurn_def transitionActive_def withQueued_def)
qed

lemma active_run:
  assumes "isActive (ts_state s)" "\<forall>e \<in> set es. \<not> ends_turn e" "wf_turn s"
  shows "isActive (ts_state (run_turn es s)) \<and> turn_id (ts_state (run_turn es s)) = turn_id (ts_state s)
    \<and> set (ts_targets s) \<subseteq> set (ts_targets (run_turn es s))"
  using assms
proof (induction es arbitrary: s)
  case (Cons e es)
  have "isActive (ts_state (reduceTurn s e))" "turn_id (ts_state (reduceTurn s e)) = turn_id (ts_state s)"
    using active_keeps_turn [of s e] Cons.prems by auto
  moreover have "set (ts_targets s) \<subseteq> set (ts_targets (reduceTurn s e))"
    using active_keeps_targets [of s e] Cons.prems by auto
  moreover have "wf_turn (reduceTurn s e)" using Cons.prems by (simp add: wf_reduceTurn)
  ultimately show ?case using Cons.IH [of "reduceTurn s e"] Cons.prems by (simp, blast)
qed simp

subsection \<open>Properties\<close>

text \<open>
  A turn cannot be taken over: while it runs, no input, chunk, tool event, attachment
  or queue event changes whose turn it is; only its end, an error, a shutdown or a
  compaction does.
\<close>
lemma turn_identity_stable:
  assumes "isActive (ts_state s)" and "\<forall>e \<in> set es. \<not> ends_turn e" and "wf_turn s"
  shows "tp_activeTurnId (projectTurn loc (run_turn es s)) = tp_activeTurnId (projectTurn loc s)
    \<and> tp_working (projectTurn loc (run_turn es s))"
  using active_run [OF assms] assms(1) by (simp add: projectTurn_def Let_def)

definition sample_turn :: turn_snapshot where
  "sample_turn = run_turn [UserMessageAccepted ''t1'' None None] initialTurnSnapshot"

lemma sample_turn_state [simp]:
  "ts_state sample_turn = Working ''t1'' ''t1'' App" "wf_turn sample_turn"
  using wf_run [OF wf_initial, of "[UserMessageAccepted ''t1'' None None]"]
  by (simp_all add: sample_turn_def initialTurnSnapshot_def seedTurn_def enter_def or_else_def)

text \<open>
  C12. The turn always converges: from every snapshot the closing sequence of a turn (done,
  end, flush) leads to idle, keeps the queued message and makes it drainable; and a
  terminal error projects no active turn, no cancel target and no final sync.
\<close>
theorem turn_converges:
  "ts_state (run_turn [AgentDone c, TurnEnd, FlushLateAttachSync] s) = Idle
   \<and> ts_queued (run_turn [AgentDone c, TurnEnd, FlushLateAttachSync] s) = ts_queued s
   \<and> tp_canDrainQueuedMessage (projectTurn loc (run_turn [AgentDone c, TurnEnd, FlushLateAttachSync] s)) = (ts_queued s \<noteq> None)
   \<and> (\<forall>e t. e \<in> {ProviderFailed t, DeliveryFailed t, CancelledEvent t, ShutdownEvent} \<longrightarrow>
        \<not> tp_working (projectTurn loc (reduceTurn s e)) \<and> tp_activeTurnId (projectTurn loc (reduceTurn s e)) = None
      \<and> tp_cancelTargetId (projectTurn loc (reduceTurn s e)) = None
      \<and> tp_lateAttachSyncTargets (projectTurn loc (reduceTurn s e)) = [])"
  by (cases "ts_state s")
    (auto simp: idleWithQueue_def enter_def projectTurn_def Let_def terminalError_def)

theorem turn_converges_witness:
  "ts_state (run_turn [AgentDone None, TurnEnd, FlushLateAttachSync] sample_turn) = Idle
   \<and> tp_cancelTargetId (projectTurn (\<lambda>_ _. 0) (reduceTurn sample_turn ShutdownEvent)) = None"
  using turn_converges [of None sample_turn "\<lambda>_ _. 0"] by blast

text \<open>
  Nobody who attaches mid-turn is forgotten or synchronised twice: a target that attaches
  while the turn runs is in the final sync list once the turn is done, the list
  has no repetitions, and the flush is allowed only after the turn has ended.
\<close>
lemma late_attach_synced:
  assumes "isActive (ts_state s)" and "wf_turn s" and "\<forall>e \<in> set es. \<not> ends_turn e"
  shows "t \<in> set (tp_lateAttachSyncTargets (projectTurn loc (run_turn (PeerAttachedTarget t # es @ [AgentDone c]) s)))
   \<and> distinct (tp_lateAttachSyncTargets (projectTurn loc (run_turn (PeerAttachedTarget t # es @ [AgentDone c]) s)))
   \<and> \<not> tp_canFlushLateAttachSync (projectTurn loc (run_turn (PeerAttachedTarget t # es @ [AgentDone c]) s))
   \<and> tp_canFlushLateAttachSync (projectTurn loc (run_turn (PeerAttachedTarget t # es @ [AgentDone c, TurnEnd]) s))"
proof -
  let ?a = "attach s t" and ?b = "run_turn es (attach s t)"
  have a: "isActive (ts_state ?a)" "wf_turn ?a" "t \<in> set (ts_targets ?a)"
    using assms wf_attach targets_after_attach [of s t] by (simp, simp, simp add: attach_def wf_turn_def)
  from active_run [OF a(1) assms(3) a(2)] have b: "isActive (ts_state ?b)" "t \<in> set (ts_targets ?b)"
    using a(3) by auto
  have "wf_turn ?b" using wf_run [OF a(2), of es] by (simp add: run_turn_def)
  then have d: "distinct (ts_targets ?b)" by (simp add: wf_turn_def distinct_map)
  show ?thesis
    using b d by (simp add: projectTurn_def Let_def sortLateAttachTargets_def)
qed

end
