(* ===== verification/SessionProjection.thy ===== *)
theory SessionProjection imports RemoteSession Protocol TurnState
begin

text \<open>
  \<open>session/sdk_session_projection.ts\<close>: the extension's view of the host's session. It
  holds the host capabilities, the identity of the session, the transcript log, the
  turn, and the queue of messages from the mesh, and refuses to act through
  capabilities of a session that was replaced.

  A host object is known by its serial number and by what it offers; comparing two
  references is comparing two \<open>host\<close> values. \<open>gen n\<close> is the \<open>n\<close>-th identifier
  \<open>uuid7()\<close> makes, \<open>sdk api p d\<close> the host's \<open>appendEntry\<close> on the storage \<open>d\<close>, and \<open>now\<close> the
  clock. What leaves the projection is the list \<open>sp_out\<close>. A promise of the host is an
  entry of \<open>sp_handoffs\<close> until it settles, a queued microtask an entry of
  \<open>sp_microtasks\<close>. \<open>h_send_message\<close> stands for both calls of an \<open>AgentMessageApi\<close>. The
  delivery debug log with its room id and the test-only accessors are left out.
\<close>

subsection \<open>State\<close>

record host =
  h_serial :: nat
  h_send_message :: bool
  h_set_model :: bool
  h_set_thinking :: bool
  h_append_entry :: bool
  h_manager :: manager

datatype writer = Writer nat host

fun w_api :: "writer \<Rightarrow> host" where
  "w_api (Writer n h) = h"

datatype append_outcome = Appended | ThrewStale | ThrewOther

record reservation =
  rv_serial :: nat
  rv_client :: string
  rv_event :: string
  rv_ts :: "int option"
  rv_streaming :: "streaming_behavior option"

record mesh_limits =
  maxFrames :: int
  maxBytes :: int
  maxFramesPerPeer :: int
  maxBytesPerPeer :: int

record pending_mesh =
  pm_peer :: string
  pm_content :: string
  pm_bytes :: int

record peer_accounting =
  pa_frames :: int
  pa_bytes :: int

datatype projection_output =
    Broadcast js
  | SendTo string js
  | PublishSession string
  | PublishWorking bool
  | StaleApi host
  | MeshFailure bool
  | SdkMessage host string

record 'd projection =
  sp_issuer :: "string option"
  sp_serial :: nat
  sp_started :: "int option"
  sp_log :: "writer event_log"
  sp_store :: 'd
  sp_reserved :: "(string, reservation list) omap"
  sp_accepted :: "(string, string list) omap"
  sp_lastUser :: "string option"
  sp_epoch :: nat
  sp_command :: "host option"
  sp_event :: "host option"
  sp_message :: "host option"
  sp_action :: "host option"
  sp_entry :: "host option"
  sp_persistence :: "writer option"
  sp_turn :: turn_snapshot
  sp_limits :: mesh_limits
  sp_pending :: "pending_mesh list"
  sp_byPeer :: "(string, peer_accounting) omap"
  sp_pendingBytes :: int
  sp_running :: bool
  sp_flush :: bool
  sp_microtasks :: "nat list"
  sp_handoffs :: "(nat \<times> pending_mesh list \<times> host) list"
  sp_out :: "projection_output list"

definition DEFAULT_MESH_INGRESS_LIMITS :: mesh_limits where
  "DEFAULT_MESH_INGRESS_LIMITS = \<lparr>maxFrames = 128, maxBytes = 1024 * 1024, maxFramesPerPeer = 32, maxBytesPerPeer = 256 * 1024\<rparr>"

definition new_projection :: "mesh_limits \<Rightarrow> 'd \<Rightarrow> 'd projection" where
  "new_projection limits store =
     \<lparr>sp_issuer = None, sp_serial = 0, sp_started = None, sp_log = new_log, sp_store = store, sp_reserved = [],
      sp_accepted = [], sp_lastUser = None, sp_epoch = 0, sp_command = None, sp_event = None, sp_message = None,
      sp_action = None, sp_entry = None, sp_persistence = None, sp_turn = initialTurnSnapshot, sp_limits = limits,
      sp_pending = [], sp_byPeer = [], sp_pendingBytes = 0, sp_running = False, sp_flush = False,
      sp_microtasks = [], sp_handoffs = [], sp_out = []\<rparr>"

definition emit :: "projection_output \<Rightarrow> 'd projection \<Rightarrow> 'd projection" where
  "emit o1 s = s\<lparr>sp_out := sp_out s @ [o1]\<rparr>"

text \<open>\<open>parseInt(raw, 10)\<close>: leading space, a sign and the leading digits.\<close>

definition parse_int :: "string \<Rightarrow> int option" where
  "parse_int raw =
    (let t = dropWhile js_space raw;
         neg = (t \<noteq> [] \<and> hd t = CHR ''-'');
         r = (if t \<noteq> [] \<and> (hd t = CHR ''-'' \<or> hd t = CHR ''+'') then tl t else t);
         ds = takeWhile is_digit r
     in if ds = [] then None else Some (if neg then - int (text_nat ds) else int (text_nat ds)))"

definition SYNC_LIMIT_DEFAULT :: int where
  "SYNC_LIMIT_DEFAULT = 200"

definition syncLimit :: "string option \<Rightarrow> int" where
  "syncLimit raw = (case raw of
     Some (c # r) \<Rightarrow> (case parse_int (c # r) of Some n \<Rightarrow> (if 0 < n then n else SYNC_LIMIT_DEFAULT) | None \<Rightarrow> SYNC_LIMIT_DEFAULT)
   | _ \<Rightarrow> SYNC_LIMIT_DEFAULT)"

subsection \<open>Capabilities\<close>

definition isAgentMessageApi :: "host \<Rightarrow> bool" where
  "isAgentMessageApi v = h_send_message v"

definition isTranscriptEntryApi :: "host \<Rightarrow> bool" where
  "isTranscriptEntryApi v = h_append_entry v"

definition isFreshActionApi :: "host \<Rightarrow> bool" where
  "isFreshActionApi v \<longleftrightarrow> h_set_model v \<or> h_set_thinking v"

definition bindTranscriptPersistence :: "host \<Rightarrow> 'd projection \<Rightarrow> 'd projection" where
  "bindTranscriptPersistence api s =
     (let w = Writer (sp_serial s) api
      in s\<lparr>sp_serial := sp_serial s + 1, sp_entry := Some api, sp_persistence := Some w,
           sp_log := bindPersistence w (sp_log s)\<rparr>)"

definition clearTranscriptPersistence :: "'d projection \<Rightarrow> 'd projection" where
  "clearTranscriptPersistence s =
     s\<lparr>sp_entry := None, sp_persistence := None, sp_log := unbindPersistence (sp_persistence s) (sp_log s)\<rparr>"

definition bindCapabilities :: "host \<Rightarrow> 'd projection \<Rightarrow> 'd projection" where
  "bindCapabilities v s =
    (let s1 = (if isAgentMessageApi v then s\<lparr>sp_message := Some v\<rparr> else s);
         s2 = (if isFreshActionApi v then s1\<lparr>sp_action := Some v\<rparr> else s1)
     in if isTranscriptEntryApi v then bindTranscriptPersistence v s2 else s2)"

definition replaceSessionCapabilities :: "host \<Rightarrow> 'd projection \<Rightarrow> 'd projection" where
  "replaceSessionCapabilities v s =
    (let s1 = s\<lparr>sp_message := (if isAgentMessageApi v then Some v else None),
                sp_action := (if isFreshActionApi v then Some v else None)\<rparr>
     in if isTranscriptEntryApi v then bindTranscriptPersistence v s1 else s1)"

definition forget :: "host \<Rightarrow> 'd projection \<Rightarrow> 'd projection" where
  "forget api s =
    (if sp_message s \<noteq> Some api then s
     else let s1 = s\<lparr>sp_message := None\<rparr>;
              s2 = (if sp_action s1 = Some api then s1\<lparr>sp_action := None\<rparr> else s1);
              s3 = (if sp_entry s2 = Some api then clearTranscriptPersistence s2 else s2)
          in emit (StaleApi api) s3)"

definition forgetActionApi :: "host \<Rightarrow> 'd projection \<Rightarrow> 'd projection" where
  "forgetActionApi api s =
    (let s1 = (if sp_action s = Some api then s\<lparr>sp_action := None\<rparr> else s);
         s2 = (if sp_entry s1 = Some api then clearTranscriptPersistence s1 else s1)
     in if sp_message s2 = Some api then emit (StaleApi api) (s2\<lparr>sp_message := None\<rparr>) else s2)"

definition forgetStaleBinding :: "host \<Rightarrow> 'd projection \<Rightarrow> 'd projection" where
  "forgetStaleBinding v s =
    (let s1 = (if sp_command s = Some v then s\<lparr>sp_command := None\<rparr> else s);
         s2 = (if sp_event s1 = Some v then s1\<lparr>sp_event := None\<rparr> else s1);
         s3 = (if sp_message s2 = Some v then emit (StaleApi v) (s2\<lparr>sp_message := None\<rparr>) else s2);
         s4 = (if sp_action s3 = Some v then s3\<lparr>sp_action := None\<rparr> else s3)
     in if sp_entry s4 = Some v then clearTranscriptPersistence s4 else s4)"

definition clearApiBindings :: "'d projection \<Rightarrow> 'd projection" where
  "clearApiBindings s = clearTranscriptPersistence (s\<lparr>sp_message := None, sp_action := None\<rparr>)"

definition currentActionPi :: "bool \<Rightarrow> 'd projection \<Rightarrow> host option" where
  "currentActionPi model_set s = (case sp_action s of
     None \<Rightarrow> None
   | Some api \<Rightarrow> (if model_set \<and> \<not> h_set_model api \<or> \<not> model_set \<and> \<not> h_set_thinking api then None else Some api))"

text \<open>
  The closures the actions are given. \<open>rejected\<close> is how the host's call ends: not at all,
  with a stale-context error, or with another one; the result is whether it succeeds.
\<close>

definition wrapped_setModel :: "host \<Rightarrow> bool option \<Rightarrow> 'd projection \<Rightarrow> bool \<times> 'd projection" where
  "wrapped_setModel api rejected s =
    (if \<not> h_set_model api then (False, s)
     else case rejected of
       None \<Rightarrow> (True, s)
     | Some stale \<Rightarrow> (False, if stale then forgetActionApi api s else s))"

definition wrapped_setThinkingLevel :: "host \<Rightarrow> bool option \<Rightarrow> 'd projection \<Rightarrow> bool \<times> 'd projection" where
  "wrapped_setThinkingLevel api rejected s =
    (if \<not> h_set_thinking api then (False, s)
     else case rejected of
       None \<Rightarrow> (True, s)
     | Some stale \<Rightarrow> (False, if stale then forgetActionApi api s else s))"

text \<open>\<open>compact\<close> and \<open>newSession\<close> of a wrapped context.\<close>

definition wrapped_ctx_call :: "host \<Rightarrow> bool option \<Rightarrow> 'd projection \<Rightarrow> bool \<times> 'd projection" where
  "wrapped_ctx_call ctx rejected s = (case rejected of
     None \<Rightarrow> (True, s)
   | Some stale \<Rightarrow> (False, if stale then forgetStaleBinding ctx s else s))"

text \<open>
  Reading the members of a context: \<open>reads\<close> is how that ends. \<open>Inl\<close> is an exception that
  leaves the wrapper, \<open>Inr None\<close> a stale context.
\<close>

definition wrapActionCtx :: "host \<Rightarrow> bool option \<Rightarrow> 'd projection \<Rightarrow> (unit + host option) \<times> 'd projection" where
  "wrapActionCtx ctx reads s = (case reads of
     None \<Rightarrow> (Inr (Some ctx), s)
   | Some stale \<Rightarrow> (if stale then (Inr None, forgetStaleBinding ctx s) else (Inl (), s)))"

definition freshActionCtx :: "bool option \<Rightarrow> 'd projection \<Rightarrow> (unit + host option) \<times> 'd projection" where
  "freshActionCtx reads s =
    (case (case sp_event s of Some c \<Rightarrow> Some c | None \<Rightarrow> sp_command s) of
       Some ctx \<Rightarrow> wrapActionCtx ctx reads s
     | None \<Rightarrow> (Inr None, s))"

definition freshCommandActionCtx :: "bool option \<Rightarrow> 'd projection \<Rightarrow> (unit + host option) \<times> 'd projection" where
  "freshCommandActionCtx reads s = (case sp_command s of
     Some ctx \<Rightarrow> wrapActionCtx ctx reads s
   | None \<Rightarrow> (Inr None, s))"

subsection \<open>The session's identity\<close>

definition first_ctx :: "host option \<Rightarrow> 'd projection \<Rightarrow> manager option" where
  "first_ctx ctx s = map_option h_manager
     (case ctx of Some c \<Rightarrow> Some c | None \<Rightarrow> (case sp_event s of Some c \<Rightarrow> Some c | None \<Rightarrow> sp_command s))"

definition currentRemoteSessionId :: "(nat \<Rightarrow> string) \<Rightarrow> host option \<Rightarrow> 'd projection \<Rightarrow> string \<times> 'd projection" where
  "currentRemoteSessionId gen ctx s =
    (let (i, issuer) = currentOrCapture (gen (sp_serial s)) (first_ctx ctx s) (sp_issuer s)
     in (i, s\<lparr>sp_issuer := issuer, sp_serial := sp_serial s + 1\<rparr>))"

definition issuer_capture :: "(nat \<Rightarrow> string) \<Rightarrow> host \<Rightarrow> 'd projection \<Rightarrow> string \<times> 'd projection" where
  "issuer_capture gen ctx s =
    (let (i, issuer) = capture (gen (sp_serial s)) (Some (h_manager ctx)) (sp_issuer s)
     in (i, s\<lparr>sp_issuer := issuer, sp_serial := sp_serial s + 1\<rparr>))"

definition captureRemoteSession :: "(nat \<Rightarrow> string) \<Rightarrow> host \<Rightarrow> 'd projection \<Rightarrow> string \<times> 'd projection" where
  "captureRemoteSession gen ctx s =
    (let (i, s1) = issuer_capture gen ctx s in (i, emit (PublishSession i) s1))"

text \<open>\<open>{ ...msg, session_id: ... }\<close>\<close>

definition currentSessionMessage :: "(nat \<Rightarrow> string) \<Rightarrow> (string \<times> js) list \<Rightarrow> 'd projection \<Rightarrow> js \<times> 'd projection" where
  "currentSessionMessage gen members s =
    (let (i, s1) = currentRemoteSessionId gen None s in (Obj (members @ [(''session_id'', Str i)]), s1))"

definition broadcast_current :: "(nat \<Rightarrow> string) \<Rightarrow> (string \<times> js) list \<Rightarrow> 'd projection \<Rightarrow> 'd projection" where
  "broadcast_current gen members s = (let (m, s1) = currentSessionMessage gen members s in emit (Broadcast m) s1)"

definition sessionStartedAtOrNow :: "int \<Rightarrow> 'd projection \<Rightarrow> int" where
  "sessionStartedAtOrNow now s = (case sp_started s of Some t \<Rightarrow> t | None \<Rightarrow> now)"

definition setSessionStartedAt :: "int option \<Rightarrow> 'd projection \<Rightarrow> 'd projection" where
  "setSessionStartedAt ts s = s\<lparr>sp_started := ts\<rparr>"

definition ensureSessionStarted :: "int \<Rightarrow> 'd projection \<Rightarrow> int \<times> 'd projection" where
  "ensureSessionStarted now s = (case sp_started s of
     Some t \<Rightarrow> (t, s)
   | None \<Rightarrow> (now, s\<lparr>sp_started := Some now\<rparr>))"

subsection \<open>Mesh ingress\<close>

text \<open>\<open>Buffer.byteLength(s, "utf8")\<close> of characters up to \<open>0xff\<close>.\<close>

definition utf8_length :: "string \<Rightarrow> int" where
  "utf8_length s = int (sum_list (map (\<lambda>c. if of_char c < (128::nat) then 1 else 2) s))"

definition scheduleMeshMessageFlush :: "'d projection \<Rightarrow> 'd projection" where
  "scheduleMeshMessageFlush s =
    (if sp_flush s \<or> sp_running s \<or> sp_pending s = [] \<or> sp_message s = None then s
     else s\<lparr>sp_flush := True, sp_microtasks := sp_microtasks s @ [sp_epoch s]\<rparr>)"

definition account_removed :: "pending_mesh \<Rightarrow> (string, peer_accounting) omap \<times> int \<Rightarrow> (string, peer_accounting) omap \<times> int" where
  "account_removed e acc = (case acc of (by, tot) \<Rightarrow>
     (case map_of by (pm_peer e) of
        None \<Rightarrow> (by, tot - pm_bytes e)
      | Some p \<Rightarrow>
          (if pa_frames p - 1 = 0 then (omap_del by (pm_peer e), tot - pm_bytes e)
           else (omap_put by (pm_peer e) \<lparr>pa_frames = pa_frames p - 1, pa_bytes = pa_bytes p - pm_bytes e\<rparr>,
                 tot - pm_bytes e))))"

definition removePendingMeshBatch :: "pending_mesh list \<Rightarrow> 'd projection \<Rightarrow> 'd projection" where
  "removePendingMeshBatch batch s =
    (let (by, tot) = fold account_removed batch (sp_byPeer s, sp_pendingBytes s)
     in s\<lparr>sp_pending := drop (length batch) (sp_pending s), sp_byPeer := by, sp_pendingBytes := tot\<rparr>)"

definition clearPendingMeshMessages :: "'d projection \<Rightarrow> 'd projection" where
  "clearPendingMeshMessages s = s\<lparr>sp_pending := [], sp_pendingBytes := 0, sp_byPeer := []\<rparr>"

definition handoffSucceeded :: "nat \<Rightarrow> pending_mesh list \<Rightarrow> 'd projection \<Rightarrow> 'd projection" where
  "handoffSucceeded generation batch s =
    (if generation \<noteq> sp_epoch s then s
     else scheduleMeshMessageFlush ((removePendingMeshBatch batch s)\<lparr>sp_flush := False\<rparr>))"

definition handoffFailed :: "nat \<Rightarrow> pending_mesh list \<Rightarrow> host \<Rightarrow> bool \<Rightarrow> 'd projection \<Rightarrow> 'd projection" where
  "handoffFailed generation batch api stale s =
    (if generation \<noteq> sp_epoch s then s
     else let s1 = (if stale then removePendingMeshBatch batch (forget api s) else s)
          in emit (MeshFailure stale) (s1\<lparr>sp_flush := False\<rparr>))"

datatype delivery = Returned | Promised | Threw bool

definition mesh_separator :: string where
  "mesh_separator = [CHR 0x0A, CHR 0x0A] @ ''---'' @ [CHR 0x0A, CHR 0x0A]"

fun join_mesh :: "string list \<Rightarrow> string" where
  "join_mesh [] = []"
| "join_mesh [x] = x"
| "join_mesh (x # y # xs) = x @ mesh_separator @ join_mesh (y # xs)"

text \<open>The first queued microtask runs; \<open>delivery\<close> is what the host's \<open>sendMessage\<close> does.\<close>

definition run_microtask :: "delivery \<Rightarrow> 'd projection \<Rightarrow> 'd projection" where
  "run_microtask delivery s0 = (case sp_microtasks s0 of
     [] \<Rightarrow> s0
   | generation # rest \<Rightarrow>
      (let s = s0\<lparr>sp_microtasks := rest\<rparr> in
       if generation \<noteq> sp_epoch s then s
       else case sp_message s of
         None \<Rightarrow> s\<lparr>sp_flush := False\<rparr>
       | Some api \<Rightarrow>
          (if sp_running s \<or> sp_pending s = [] then s\<lparr>sp_flush := False\<rparr>
           else let batch = sp_pending s;
                    s1 = emit (SdkMessage api (join_mesh (map pm_content batch))) s
                in case delivery of
                     Returned \<Rightarrow> handoffSucceeded generation batch s1
                   | Promised \<Rightarrow> s1\<lparr>sp_handoffs := sp_handoffs s1 @ [(generation, batch, api)]\<rparr>
                   | Threw stale \<Rightarrow> handoffFailed generation batch api stale s1)))"

text \<open>The \<open>i\<close>-th outstanding promise settles: fulfilled, or rejected with a stale-context error or another.\<close>

definition settle_handoff :: "nat \<Rightarrow> bool option \<Rightarrow> 'd projection \<Rightarrow> 'd projection" where
  "settle_handoff i rejected s0 =
    (if i < length (sp_handoffs s0) then
       (case sp_handoffs s0 ! i of (generation, batch, api) \<Rightarrow>
         let s = s0\<lparr>sp_handoffs := take i (sp_handoffs s0) @ drop (Suc i) (sp_handoffs s0)\<rparr>
         in case rejected of
              None \<Rightarrow> handoffSucceeded generation batch s
            | Some stale \<Rightarrow> handoffFailed generation batch api stale s)
     else s0)"

definition markAgentRunStarted :: "'d projection \<Rightarrow> 'd projection" where
  "markAgentRunStarted s = s\<lparr>sp_running := True\<rparr>"

definition markAgentSettled :: "'d projection \<Rightarrow> 'd projection" where
  "markAgentSettled s = scheduleMeshMessageFlush (s\<lparr>sp_running := False\<rparr>)"

datatype admission = Accepted | FrameLimit | ByteLimit

definition enqueueMeshMessage :: "string \<Rightarrow> string \<Rightarrow> 'd projection \<Rightarrow> admission \<times> 'd projection" where
  "enqueueMeshMessage peerId content s =
    (let bytes = utf8_length content; l = sp_limits s;
         peer = (case map_of (sp_byPeer s) peerId of Some p \<Rightarrow> p | None \<Rightarrow> \<lparr>pa_frames = 0, pa_bytes = 0\<rparr>)
     in if maxFrames l \<le> int (length (sp_pending s)) \<or> maxFramesPerPeer l \<le> pa_frames peer then (FrameLimit, s)
        else if maxBytes l - sp_pendingBytes s < bytes \<or> maxBytesPerPeer l - pa_bytes peer < bytes then (ByteLimit, s)
        else let s1 = s\<lparr>sp_pending := sp_pending s @ [\<lparr>pm_peer = peerId, pm_content = content, pm_bytes = bytes\<rparr>],
                        sp_pendingBytes := sp_pendingBytes s + bytes,
                        sp_byPeer := omap_put (sp_byPeer s) peerId
                          \<lparr>pa_frames = pa_frames peer + 1, pa_bytes = pa_bytes peer + bytes\<rparr>\<rparr>
             in (Accepted, if \<not> sp_running s then scheduleMeshMessageFlush s1 else s1))"

text \<open>\<open>sendPiMessage\<close>: \<open>delivery\<close> as above; a promise's later rejection is \<open>pi_message_rejected\<close>.\<close>

definition sendPiMessage :: "string \<Rightarrow> delivery \<Rightarrow> 'd projection \<Rightarrow> bool \<times> 'd projection" where
  "sendPiMessage content delivery s = (case sp_message s of
     None \<Rightarrow> (False, s)
   | Some api \<Rightarrow>
      (let s1 = emit (SdkMessage api content) s in
       case delivery of
         Threw stale \<Rightarrow> (False, if stale then forget api s1 else s1)
       | _ \<Rightarrow> (True, s1)))"

definition pi_message_rejected :: "host \<Rightarrow> bool \<Rightarrow> 'd projection \<Rightarrow> 'd projection" where
  "pi_message_rejected api stale s = (if stale then forget api s else s)"

datatype wake_result = WakeOk | WakeUnbound | WakeFailed bool

text \<open>\<open>wakeAgent\<close>: without an API the answer is immediate and recoverable; otherwise the call is awaited.\<close>

definition wake_start :: "'d projection \<Rightarrow> wake_result + host" where
  "wake_start s = (case sp_message s of None \<Rightarrow> Inl WakeUnbound | Some api \<Rightarrow> Inr api)"

definition wake_finish :: "host \<Rightarrow> bool option \<Rightarrow> 'd projection \<Rightarrow> wake_result \<times> 'd projection" where
  "wake_finish api rejected s = (case rejected of
     None \<Rightarrow> (WakeOk, s)
   | Some stale \<Rightarrow> (WakeFailed stale, if stale then forget api s else s))"

subsection \<open>Binding and clearing contexts\<close>

definition bindApi :: "host \<Rightarrow> 'd projection \<Rightarrow> 'd projection" where
  "bindApi pi s = (let s1 = bindCapabilities pi s in if \<not> sp_running s1 then scheduleMeshMessageFlush s1 else s1)"

definition bindCommandContext :: "host \<Rightarrow> 'd projection \<Rightarrow> 'd projection" where
  "bindCommandContext ctx s = bindCapabilities ctx (s\<lparr>sp_command := Some ctx\<rparr>)"

definition bindReplacementContext :: "(nat \<Rightarrow> string) \<Rightarrow> host \<Rightarrow> 'd projection \<Rightarrow> string \<times> 'd projection" where
  "bindReplacementContext gen ctx s =
     captureRemoteSession gen ctx (replaceSessionCapabilities ctx (s\<lparr>sp_command := Some ctx, sp_event := Some ctx\<rparr>))"

definition clearStaleContexts :: "'d projection \<Rightarrow> 'd projection" where
  "clearStaleContexts s =
    (let s1 = clearTranscriptPersistence
           (s\<lparr>sp_epoch := sp_epoch s + 1, sp_command := None, sp_event := None, sp_message := None, sp_action := None\<rparr>)
     in clearPendingMeshMessages (s1\<lparr>sp_running := False, sp_flush := False\<rparr>))"

subsection \<open>Turn\<close>

definition publish_turn :: "turn_snapshot \<Rightarrow> 'd projection \<Rightarrow> 'd projection" where
  "publish_turn before s =
    (if isActive (ts_state before) = isActive (ts_state (sp_turn s)) then s
     else emit (PublishWorking (isActive (ts_state (sp_turn s)))) s)"

definition applyTurn :: "turn_event \<Rightarrow> 'd projection \<Rightarrow> 'd projection" where
  "applyTurn e s = publish_turn (sp_turn s) (s\<lparr>sp_turn := reduceTurn (sp_turn s) e\<rparr>)"

definition resetTurnSnapshot :: "'d projection \<Rightarrow> 'd projection" where
  "resetTurnSnapshot s = publish_turn (sp_turn s) (s\<lparr>sp_turn := initialTurnSnapshot\<rparr>)"

definition recordOwnerAttached :: "string \<Rightarrow> 'd projection \<Rightarrow> 'd projection" where
  "recordOwnerAttached peerId s = applyTurn (PeerAttachedTarget \<lparr>lt_kind = Owner, lt_id = peerId\<rparr>) s"

definition queuedMessageState :: "turn_snapshot \<Rightarrow> (string \<times> js) list" where
  "queuedMessageState t = (''type'', Str ''queued_message_state'') #
     (case ts_queued t of None \<Rightarrow> [] | Some q \<Rightarrow> [(''id'', Str (qm_id q)), (''text'', Str (qm_text q))])"

definition broadcastQueuedMessageState :: "(nat \<Rightarrow> string) \<Rightarrow> 'd projection \<Rightarrow> 'd projection" where
  "broadcastQueuedMessageState gen s = broadcast_current gen (queuedMessageState (sp_turn s)) s"

text \<open>The result tells whether a turn was seeded and keeps the snapshot the rollback restores.\<close>

definition seedUserMessageTurn ::
  "string \<Rightarrow> turn_source \<Rightarrow> bool \<Rightarrow> 'd projection \<Rightarrow> (bool \<times> turn_snapshot) \<times> 'd projection" where
  "seedUserMessageTurn turnId source shouldSteer s =
    (let seeded = (\<not> shouldSteer \<or> \<not> isActive (ts_state (sp_turn s)))
     in ((seeded, sp_turn s),
         if seeded then applyTurn (UserMessageAccepted turnId (Some turnId) (Some source)) s else s))"

definition rollback_seed :: "bool \<times> turn_snapshot \<Rightarrow> 'd projection \<Rightarrow> 'd projection" where
  "rollback_seed r s = (case r of (seeded, previous) \<Rightarrow>
     if \<not> seeded then s else publish_turn (sp_turn s) (s\<lparr>sp_turn := previous\<rparr>))"

text \<open>The drained message is handed to the caller's \<open>deliver\<close>.\<close>

definition maybeDrainQueuedMessage :: "(nat \<Rightarrow> string) \<Rightarrow> 'd projection \<Rightarrow> js option \<times> 'd projection" where
  "maybeDrainQueuedMessage gen s = (case ts_queued (sp_turn s) of
     None \<Rightarrow> (None, s)
   | Some q \<Rightarrow>
      (if ts_state (sp_turn s) \<noteq> Idle then (None, s)
       else let s1 = broadcastQueuedMessageState gen (applyTurn QueuedMessageClear s);
                (m, s2) = currentSessionMessage gen
                  [(''type'', Str ''user_message''), (''id'', Str (qm_id q)), (''text'', Str (qm_text q))] s1
            in (Some m, s2)))"

text \<open>\<open>active\<close> are the attached owners; \<open>history\<close> is the message \<open>buildHistory\<close> makes.\<close>

definition maybeSendLateAttachSessionSync ::
  "(string \<Rightarrow> string \<Rightarrow> int) \<Rightarrow> string list \<Rightarrow> (string \<Rightarrow> js) \<Rightarrow> 'd projection \<Rightarrow> 'd projection" where
  "maybeSendLateAttachSessionSync loc active history s =
    (let p = projectTurn loc (sp_turn s) in
     case tp_awaitingSyncTurnId p of
       None \<Rightarrow> s
     | Some t \<Rightarrow>
        (if \<not> tp_canFlushLateAttachSync p then s
         else applyTurn FlushLateAttachSync
           (fold (\<lambda>target s. if lt_kind target = Owner \<and> lt_id target \<in> set active
                             then emit (SendTo (lt_id target) (history t)) s else s)
              (tp_lateAttachSyncTargets p) s)))"

subsection \<open>Recording facts\<close>

definition persist_outcome ::
  "(host \<Rightarrow> js \<Rightarrow> 'd \<Rightarrow> append_outcome \<times> 'd) \<Rightarrow> writer \<Rightarrow> transcript_event \<Rightarrow> 'd \<Rightarrow> append_outcome \<times> 'd" where
  "persist_outcome sdk w e d = (case encodeDurableTranscriptEventV1 (event_js e) of
     Inl _ \<Rightarrow> (ThrewOther, d)
   | Inr p \<Rightarrow> sdk (w_api w) (custom_entry p) d)"

definition persist ::
  "(host \<Rightarrow> js \<Rightarrow> 'd \<Rightarrow> append_outcome \<times> 'd) \<Rightarrow> writer \<Rightarrow> transcript_event \<Rightarrow> 'd \<Rightarrow> bool \<times> 'd" where
  "persist sdk w e d = (case persist_outcome sdk w e d of (r, d') \<Rightarrow> (r = Appended, d'))"

text \<open>
  \<open>append\<close> of the bound writer unbinds it when the host says the context is stale and
  then throws on; the log reads nothing more after that, so the unbinding is done
  after \<open>record\<close> has answered.
\<close>

definition unbind_stale ::
  "(host \<Rightarrow> js \<Rightarrow> 'd \<Rightarrow> append_outcome \<times> 'd) \<Rightarrow> transcript_event \<Rightarrow> 'd projection \<Rightarrow> 'd projection \<Rightarrow> 'd projection" where
  "unbind_stale sdk e before s = (case log_writer (sp_log before) of
     None \<Rightarrow> s
   | Some w \<Rightarrow>
      (if fst (persist_outcome sdk w e (sp_store before)) = ThrewStale \<and> Some (w_api w) = sp_entry s
       then s\<lparr>sp_entry := None, sp_persistence := None, sp_log := unbindPersistence (Some w) (sp_log s)\<rparr>
       else s))"

definition recordDurableTranscriptEvent ::
  "(host \<Rightarrow> js \<Rightarrow> 'd \<Rightarrow> append_outcome \<times> 'd) \<Rightarrow> transcript_event \<Rightarrow> 'd projection \<Rightarrow> record_result \<times> 'd projection" where
  "recordDurableTranscriptEvent sdk e s =
    (case record_event (persist sdk) e (sp_log s) (sp_store s) of
       (r, l, d) \<Rightarrow>
         (let s1 = s\<lparr>sp_log := l, sp_store := d\<rparr>
          in (r, if r = Failed then unbind_stale sdk e s s1 else s1)))"

definition recordedTranscriptTs :: "(nat \<Rightarrow> string) \<Rightarrow> string \<Rightarrow> 'd projection \<Rightarrow> int option \<times> 'd projection" where
  "recordedTranscriptTs gen eventId s =
    (let (i, s1) = currentRemoteSessionId gen None s in (recordedTsFor i eventId (sp_log s1), s1))"

definition visible_result :: "record_result \<Rightarrow> bool" where
  "visible_result r \<longleftrightarrow> r = Recorded \<or> r = Duplicate"

subsection \<open>Reservations of the app's identity\<close>

definition rememberDeliveredUserEvent ::
  "string \<Rightarrow> wire_image list option \<Rightarrow> string \<Rightarrow> string \<Rightarrow> (int \<times> streaming_behavior option) option
     \<Rightarrow> 'd projection \<Rightarrow> (string \<times> nat) \<times> 'd projection" where
  "rememberDeliveredUserEvent text is clientMessageId eventId producer s =
    (let key = transcriptUserContentSignature text is;
         entry = \<lparr>rv_serial = sp_serial s, rv_client = clientMessageId, rv_event = eventId,
                  rv_ts = map_option fst producer,
                  rv_streaming = (case producer of Some (_, sb) \<Rightarrow> sb | None \<Rightarrow> None)\<rparr>;
         existing = (case map_of (sp_reserved s) key of Some es \<Rightarrow> es | None \<Rightarrow> [])
     in ((key, sp_serial s),
         s\<lparr>sp_serial := sp_serial s + 1, sp_reserved := omap_put (sp_reserved s) key (existing @ [entry])\<rparr>))"

text \<open>The returned closure, applied to the reservation it closed over.\<close>

definition rollback_reservation :: "string \<times> nat \<Rightarrow> 'd projection \<Rightarrow> 'd projection" where
  "rollback_reservation r s = (case r of (key, serial) \<Rightarrow>
    (case map_of (sp_reserved s) key of
       None \<Rightarrow> s
     | Some pending \<Rightarrow>
        (if serial \<notin> rv_serial ` set pending then s
         else let rest = filter (\<lambda>e. rv_serial e \<noteq> serial) pending
              in s\<lparr>sp_reserved := (if rest = [] then omap_del (sp_reserved s) key
                                   else omap_put (sp_reserved s) key rest)\<rparr>)))"

definition consumeDeliveredUserEvent ::
  "string \<Rightarrow> wire_image list \<Rightarrow> 'd projection \<Rightarrow> reservation option \<times> 'd projection" where
  "consumeDeliveredUserEvent text is s =
    (let key = transcriptUserContentSignature text (Some is) in
     case map_of (sp_reserved s) key of
       Some (e # es) \<Rightarrow>
         (Some e, s\<lparr>sp_reserved := (if es = [] then omap_del (sp_reserved s) key else omap_put (sp_reserved s) key es)\<rparr>)
     | _ \<Rightarrow> (None, s))"

definition wasUserMessageDelivered :: "string \<Rightarrow> string \<Rightarrow> 'd projection \<Rightarrow> bool" where
  "wasUserMessageDelivered sid clientMessageId s =
     (case map_of (sp_accepted s) sid of Some ids \<Rightarrow> clientMessageId \<in> set ids | None \<Rightarrow> False)"

definition recordDeliveredUserMessageId :: "string \<Rightarrow> string \<Rightarrow> 'd projection \<Rightarrow> 'd projection" where
  "recordDeliveredUserMessageId sid clientMessageId s =
     s\<lparr>sp_accepted := omap_put (sp_accepted s) sid
         (oset_add (case map_of (sp_accepted s) sid of Some ids \<Rightarrow> ids | None \<Rightarrow> []) clientMessageId)\<rparr>"

subsection \<open>Messages of the host\<close>

definition usage_members :: "wire_usage option \<Rightarrow> (string \<times> js) list" where
  "usage_members u = opt_member ''usage'' usage_js u"

definition record_user_message ::
  "(nat \<Rightarrow> string) \<Rightarrow> (host \<Rightarrow> js \<Rightarrow> 'd \<Rightarrow> append_outcome \<times> 'd) \<Rightarrow> string \<Rightarrow> int \<Rightarrow> js \<Rightarrow> 'd projection \<Rightarrow> 'd projection" where
  "record_user_message gen sdk sid ts content s0 =
    (let text = stringifyContent content;
         images = imagesFromContent content;
         some_is = (if 0 < length images then Some images else None);
         (matched, s1) = consumeDeliveredUserEvent text images s0;
         (recordedTs, s2) = (case matched of Some m \<Rightarrow> recordedTranscriptTs gen (rv_event m) s1 | None \<Rightarrow> (None, s1));
         clientMessageId = (case matched of Some m \<Rightarrow> rv_client m | None \<Rightarrow> sync_id ts);
         canonicalTs = (case recordedTs of Some t \<Rightarrow> t | None \<Rightarrow>
                         (case matched of Some m \<Rightarrow> (case rv_ts m of Some t \<Rightarrow> t | None \<Rightarrow> ts) | None \<Rightarrow> ts));
         eventId = (case matched of Some m \<Rightarrow> rv_event m
                    | None \<Rightarrow> deterministicTranscriptEventId sid ''user_confirmed'' clientMessageId);
         sb = (case matched of Some m \<Rightarrow> rv_streaming m | None \<Rightarrow> None);
         (r, s3) = recordDurableTranscriptEvent sdk
           \<lparr>ev_id = eventId, ev_session = sid, ev_ts = canonicalTs, ev_turn = None,
            ev_body = UserConfirmed clientMessageId text some_is sb\<rparr> s2
     in if \<not> visible_result r then s3
        else let s4 = s3\<lparr>sp_lastUser := Some clientMessageId\<rparr>;
                 (t, s5) = recordedTranscriptTs gen eventId s4
             in broadcast_current gen
                  ([(''type'', Str ''user_input''), (''id'', Str clientMessageId), (''text'', Str text),
                    (''ts'', Num (case t of Some x \<Rightarrow> x | None \<Rightarrow> canonicalTs))]
                   @ opt_member ''images'' images_js some_is
                   @ opt_member ''streaming_behavior'' streaming_js sb) s5)"

definition record_assistant_block ::
  "(nat \<Rightarrow> string) \<Rightarrow> (host \<Rightarrow> js \<Rightarrow> 'd \<Rightarrow> append_outcome \<times> 'd) \<Rightarrow> string \<Rightarrow> int \<Rightarrow> wire_usage option
     \<Rightarrow> nat \<times> js \<Rightarrow> 'd projection \<Rightarrow> 'd projection" where
  "record_assistant_block gen sdk sid ts usage ib s =
    (case ib of (blockIndex, b) \<Rightarrow>
      if \<not> is_object b \<or> jfield b ''type'' \<noteq> Str ''text'' \<or> block_text b = [] then s
      else let text = block_text b;
               messageId = sync_id ts @ '':assistant:'' @ nat_text blockIndex;
               replyTo = (case sp_lastUser s of Some u \<Rightarrow> u | None \<Rightarrow> sync_id ts);
               eventId = deterministicTranscriptEventId sid ''assistant_committed'' messageId;
               (r, s1) = recordDurableTranscriptEvent sdk
                 \<lparr>ev_id = eventId, ev_session = sid, ev_ts = ts, ev_turn = None,
                  ev_body = AssistantCommitted messageId replyTo text usage\<rparr> s
           in if \<not> visible_result r then s1
              else let (t, s2) = recordedTranscriptTs gen eventId s1
                   in broadcast_current gen
                        ([(''type'', Str ''agent_message''), (''in_reply_to'', Str replyTo), (''text'', Str text),
                          (''ts'', Num (case t of Some x \<Rightarrow> x | None \<Rightarrow> ts)), (''message_id'', Str messageId)]
                         @ usage_members usage) s2)"

definition recordSdkMessageTranscriptEvents ::
  "(nat \<Rightarrow> string) \<Rightarrow> (host \<Rightarrow> js \<Rightarrow> 'd \<Rightarrow> append_outcome \<times> 'd) \<Rightarrow> int \<Rightarrow> js \<Rightarrow> 'd projection \<Rightarrow> 'd projection" where
  "recordSdkMessageTranscriptEvents gen sdk now m s0 =
    (let (sid, s) = currentRemoteSessionId gen None s0;
         ts = num_or now (jfield m ''timestamp'')
     in if jfield m ''role'' = Str ''user'' then record_user_message gen sdk sid ts (jfield m ''content'') s
        else if jfield m ''role'' \<noteq> Str ''assistant'' then s
        else fold (record_assistant_block gen sdk sid ts (usage_of_message m)) (enumerate 0 (message_content m)) s)"

subsection \<open>History messages\<close>

text \<open>The object of a history event; a member whose value is \<open>undefined\<close> is not on the wire.\<close>

fun history_js :: "history_event \<Rightarrow> js" where
  "history_js (HistoryUserInput ts i t is sb) = Obj
     ([(''ts'', Num ts), (''type'', Str ''user_input''), (''id'', Str i), (''text'', Str t)]
      @ opt_member ''images'' images_js is @ opt_member ''streaming_behavior'' streaming_js sb)"
| "history_js (HistoryAgentMessage ts r t m u) = Obj
     ([(''ts'', Num ts), (''type'', Str ''agent_message''), (''in_reply_to'', Str r), (''text'', Str t),
       (''message_id'', Str m)] @ usage_members u)"
| "history_js (HistoryToolRequest ts c t a) = Obj
     [(''ts'', Num ts), (''type'', Str ''tool_request''), (''tool_call_id'', Str c), (''tool'', Str t), (''args'', a)]"
| "history_js (HistoryToolResult ts c r) = Obj
     ([(''ts'', Num ts), (''type'', Str ''tool_result''), (''tool_call_id'', Str c)]
      @ (case r of Inl e \<Rightarrow> [(''error'', Str e)] | Inr v \<Rightarrow> opt_member ''result'' id v))"
| "history_js (HistoryCompaction ts sm n) = Obj
     [(''ts'', Num ts), (''type'', Str ''compaction''), (''summary'', Str sm), (''tokens_before'', Num n)]"
| "history_js (HistoryError ts r code m) = Obj
     ([(''ts'', Num ts), (''type'', Str ''error'')] @ opt_member ''in_reply_to'' Str r
      @ [(''code'', Str code), (''message'', Str m)])"

definition history_message :: "string \<Rightarrow> int option \<Rightarrow> history_event list \<Rightarrow> bool \<Rightarrow> (string \<times> js) list" where
  "history_message inReplyTo started hs truncated =
     [(''type'', Str ''session_history''), (''in_reply_to'', Str inReplyTo),
      (''session_started_at'', Num (case started of Some t \<Rightarrow> t | None \<Rightarrow> 0)),
      (''events'', Arr (map history_js hs)), (''eos'', Bool True), (''truncated'', Bool truncated)]"

definition buildSessionHistoryMessage ::
  "(nat \<Rightarrow> string) \<Rightarrow> string option \<Rightarrow> string \<Rightarrow> int option \<Rightarrow> 'd projection \<Rightarrow> js \<times> 'd projection" where
  "buildSessionHistoryMessage gen env inReplyTo limit s =
    (let serverLimit = syncLimit env;
         requested = (case limit of Some n \<Rightarrow> n | None \<Rightarrow> serverLimit);
         (sid, s1) = currentRemoteSessionId gen None s;
         p = projectSessionHistory sid (forSession sid (sp_log s1)) (min requested serverLimit)
     in currentSessionMessage gen (history_message inReplyTo (sp_started s1) (hp_events p) (hp_truncated p)) s1)"

definition emptySessionHistoryMessage :: "string \<Rightarrow> int option \<Rightarrow> (string \<times> js) list" where
  "emptySessionHistoryMessage inReplyTo started = history_message inReplyTo started [] False"

definition clearTranscriptOnly :: "'d projection \<Rightarrow> 'd projection" where
  "clearTranscriptOnly s = s\<lparr>sp_log := clear_log (sp_log s), sp_reserved := [], sp_accepted := [], sp_lastUser := None\<rparr>"

definition resetSessionForNew :: "(nat \<Rightarrow> string) \<Rightarrow> int \<Rightarrow> string \<Rightarrow> 'd projection \<Rightarrow> 'd projection" where
  "resetSessionForNew gen now inReplyTo s =
    (let s1 = (clearTranscriptOnly s)\<lparr>sp_started := Some now\<rparr>
     in broadcast_current gen (emptySessionHistoryMessage inReplyTo (sp_started s1)) s1)"

subsection \<open>Backfill from the host's session\<close>

fun user_id :: "event_body \<Rightarrow> string option" where
  "user_id (UserSubmitted c _ _) = Some c"
| "user_id (UserConfirmed c _ _ _) = Some c"
| "user_id _ = None"

definition recomputeLastTranscriptUserId :: "(nat \<Rightarrow> string) \<Rightarrow> 'd projection \<Rightarrow> 'd projection" where
  "recomputeLastTranscriptUserId gen s =
    (let (sid, s1) = currentRemoteSessionId gen None s;
         ids = List.map_filter (\<lambda>e. user_id (ev_body e)) (forSession sid (sp_log s1))
     in s1\<lparr>sp_lastUser := (if ids = [] then None else Some (last ids))\<rparr>)"

fun index_users :: "transcript_event list \<Rightarrow> (string, (string \<times> string) list) omap \<Rightarrow> (string, (string \<times> string) list) omap" where
  "index_users [] out = out"
| "index_users (e # es) out = (case ev_body e of
     UserConfirmed c t is sb \<Rightarrow>
       (let key = transcriptUserContentSignature t is;
            claims = (case map_of out key of Some cs \<Rightarrow> cs | None \<Rightarrow> [])
        in index_users es (omap_put out key (claims @ [(c, ev_id e)])))
   | _ \<Rightarrow> index_users es out)"

definition indexExistingUserEventsByContent :: "string \<Rightarrow> 'd projection \<Rightarrow> (string, (string \<times> string) list) omap" where
  "indexExistingUserEventsByContent sid s = index_users (forSession sid (sp_log s)) []"

text \<open>A guessed user message takes the identity of the next live one with its content.\<close>

fun keep_live_identity :: "(string, (string \<times> string) list) omap \<Rightarrow> transcript_event list \<Rightarrow> transcript_event list" where
  "keep_live_identity users [] = []"
| "keep_live_identity users (e # es) = (case ev_body e of
     UserConfirmed c t is sb \<Rightarrow>
       (if \<not> starts_with c ''sync_'' then e # keep_live_identity users es
        else let key = transcriptUserContentSignature t is in
          case map_of users key of
            Some ((c', i') # rest) \<Rightarrow>
              e\<lparr>ev_id := i', ev_body := UserConfirmed c' t is sb\<rparr>
                # keep_live_identity (if rest = [] then omap_del users key else omap_put users key rest) es
          | _ \<Rightarrow> e # keep_live_identity users es)
   | _ \<Rightarrow> e # keep_live_identity users es)"

definition backfill :: "(string \<Rightarrow> int option) \<Rightarrow> (nat \<Rightarrow> string) \<Rightarrow> host \<Rightarrow> js list \<Rightarrow> 'd projection \<Rightarrow> 'd projection" where
  "backfill date_parse gen ctx entries s =
    (let (sid, s1) = currentRemoteSessionId gen (Some ctx) s;
         mapped = reconcileTranscriptContextEntries date_parse sid entries;
         reconciled = keep_live_identity (indexExistingUserEventsByContent sid s1) mapped
     in recomputeLastTranscriptUserId gen (s1\<lparr>sp_log := snd (hydrate reconciled (sp_log s1))\<rparr>))"

text \<open>\<open>False\<close>: the getter of \<open>sessionManager\<close> threw, and so does the caller.\<close>

definition backfillTranscriptFromSessionManager ::
  "(string \<Rightarrow> int option) \<Rightarrow> (nat \<Rightarrow> string) \<Rightarrow> host \<Rightarrow> 'd projection \<Rightarrow> bool \<times> 'd projection" where
  "backfillTranscriptFromSessionManager date_parse gen ctx s = (case h_manager ctx of
     NoManager \<Rightarrow> (True, s)
   | ManagerThrows \<Rightarrow> (False, s)
   | Manager _ build \<Rightarrow> (case build of
       BuildValue (Arr entries) \<Rightarrow> (True, if entries = [] then s else backfill date_parse gen ctx entries s)
     | _ \<Rightarrow> (True, s)))"

definition bindSessionContext ::
  "(string \<Rightarrow> int option) \<Rightarrow> (nat \<Rightarrow> string) \<Rightarrow> host \<Rightarrow> bool \<Rightarrow> 'd projection \<Rightarrow> bool \<times> 'd projection" where
  "bindSessionContext date_parse gen ctx subagentChild s =
    (let s1 = s\<lparr>sp_event := Some ctx\<rparr>;
         s2 = (if \<not> subagentChild then snd (issuer_capture gen ctx s1) else s1);
         s3 = bindCapabilities ctx s2
     in if \<not> subagentChild then backfillTranscriptFromSessionManager date_parse gen ctx s3 else (True, s3))"

end
