(* ===== verification/MeshIngress.thy ===== *)
theory MeshIngress imports SessionProjection
begin

text \<open>
  The projection as a machine: every operation a caller or the host can make, in any
  order, and the invariants that hold in whatever state they lead to. The first is the
  accounting of the messages that wait for the agent, across microtasks, outstanding
  promises, stale contexts and session replacement.
\<close>

subsection \<open>Operations\<close>

datatype projection_op =
    EnqueueOp string string
  | RunStartedOp
  | SettledOp
  | MicrotaskOp delivery
  | HandoffOp nat "bool option"
  | BindApiOp host
  | BindCommandOp host
  | BindSessionOp host bool
  | BindReplacementOp host
  | ClearStaleOp
  | ClearApiOp
  | SendPiOp string delivery
  | PiRejectedOp host bool
  | WakeFinishOp host "bool option"
  | ForgetBindingOp host
  | ForgetActionOp host
  | CaptureOp host
  | TurnOp turn_event
  | ResetTurnOp
  | RememberOp string "wire_image list option" string string "(int \<times> streaming_behavior option) option"
  | RollbackOp string nat
  | AcceptedOp string string
  | SdkMessageOp int js
  | RecordFactOp transcript_event
  | HistoryOp "string option" string "int option"
  | NewSessionOp int string
  | DrainOp
  | StartedOp "int option"
  | EnsureStartedOp int
  | OwnerAttachedOp string
  | BroadcastQueuedOp
  | SeedOp string turn_source bool
  | RollbackSeedOp "bool \<times> turn_snapshot"
  | LateAttachOp "string list" "string \<Rightarrow> js"
  | SetModelOp host "bool option"
  | SetThinkingOp host "bool option"
  | CtxCallOp host "bool option"
  | ActionCtxOp "bool option"
  | CommandCtxOp "bool option"

text \<open>
  What the surroundings fix: identifiers, the host's storage, \<open>Date.parse\<close> and the
  comparison of late attach targets.
\<close>

record 'd surroundings =
  sr_gen :: "nat \<Rightarrow> string"
  sr_sdk :: "host \<Rightarrow> js \<Rightarrow> 'd \<Rightarrow> append_outcome \<times> 'd"
  sr_date :: "string \<Rightarrow> int option"
  sr_locale :: "string \<Rightarrow> string \<Rightarrow> int"

fun projection_step :: "'d surroundings \<Rightarrow> projection_op \<Rightarrow> 'd projection \<Rightarrow> 'd projection" where
  "projection_step v (EnqueueOp p c) s = snd (enqueueMeshMessage p c s)"
| "projection_step v RunStartedOp s = markAgentRunStarted s"
| "projection_step v SettledOp s = markAgentSettled s"
| "projection_step v (MicrotaskOp d) s = run_microtask d s"
| "projection_step v (HandoffOp i r) s = settle_handoff i r s"
| "projection_step v (BindApiOp h) s = bindApi h s"
| "projection_step v (BindCommandOp h) s = bindCommandContext h s"
| "projection_step v (BindSessionOp h c) s = snd (bindSessionContext (sr_date v) (sr_gen v) h c s)"
| "projection_step v (BindReplacementOp h) s = snd (bindReplacementContext (sr_gen v) h s)"
| "projection_step v ClearStaleOp s = clearStaleContexts s"
| "projection_step v ClearApiOp s = clearApiBindings s"
| "projection_step v (SendPiOp c d) s = snd (sendPiMessage c d s)"
| "projection_step v (PiRejectedOp h b) s = pi_message_rejected h b s"
| "projection_step v (WakeFinishOp h r) s = snd (wake_finish h r s)"
| "projection_step v (ForgetBindingOp h) s = forgetStaleBinding h s"
| "projection_step v (ForgetActionOp h) s = forgetActionApi h s"
| "projection_step v (CaptureOp h) s = snd (captureRemoteSession (sr_gen v) h s)"
| "projection_step v (TurnOp e) s = applyTurn e s"
| "projection_step v ResetTurnOp s = resetTurnSnapshot s"
| "projection_step v (RememberOp t is c e p) s = snd (rememberDeliveredUserEvent t is c e p s)"
| "projection_step v (RollbackOp k n) s = rollback_reservation (k, n) s"
| "projection_step v (AcceptedOp i c) s = recordDeliveredUserMessageId i c s"
| "projection_step v (SdkMessageOp now m) s = recordSdkMessageTranscriptEvents (sr_gen v) (sr_sdk v) now m s"
| "projection_step v (RecordFactOp e) s = snd (recordDurableTranscriptEvent (sr_sdk v) e s)"
| "projection_step v (HistoryOp env r n) s = snd (buildSessionHistoryMessage (sr_gen v) env r n s)"
| "projection_step v (NewSessionOp now r) s = resetSessionForNew (sr_gen v) now r s"
| "projection_step v DrainOp s = snd (maybeDrainQueuedMessage (sr_gen v) s)"
| "projection_step v (StartedOp t) s = setSessionStartedAt t s"
| "projection_step v (EnsureStartedOp now) s = snd (ensureSessionStarted now s)"
| "projection_step v (OwnerAttachedOp p) s = recordOwnerAttached p s"
| "projection_step v BroadcastQueuedOp s = broadcastQueuedMessageState (sr_gen v) s"
| "projection_step v (SeedOp t src steer) s = snd (seedUserMessageTurn t src steer s)"
| "projection_step v (RollbackSeedOp r) s = rollback_seed r s"
| "projection_step v (LateAttachOp owners h) s = maybeSendLateAttachSessionSync (sr_locale v) owners h s"
| "projection_step v (SetModelOp h r) s = snd (wrapped_setModel h r s)"
| "projection_step v (SetThinkingOp h r) s = snd (wrapped_setThinkingLevel h r s)"
| "projection_step v (CtxCallOp h r) s = snd (wrapped_ctx_call h r s)"
| "projection_step v (ActionCtxOp r) s = snd (freshActionCtx r s)"
| "projection_step v (CommandCtxOp r) s = snd (freshCommandActionCtx r s)"

definition projection_run :: "'d surroundings \<Rightarrow> projection_op list \<Rightarrow> 'd projection \<Rightarrow> 'd projection" where
  "projection_run v ops s = foldl (\<lambda>s op. projection_step v op s) s ops"

lemma projection_run_snoc: "projection_run v (ops @ [op]) s = projection_step v op (projection_run v ops s)"
  by (simp add: projection_run_def)

lemma projection_run_invariant:
  assumes "P s" and "\<And>op s. P s \<Longrightarrow> P (projection_step v op s)"
  shows "P (projection_run v ops s)"
  by (induction ops rule: rev_induct) (simp_all add: assms projection_run_snoc, simp add: projection_run_def assms)

subsection \<open>The mesh part of the state\<close>

text \<open>What the queue's invariant reads.\<close>

definition mesh_view where
  "mesh_view s = (sp_limits s, sp_pending s, sp_byPeer s, sp_pendingBytes s, sp_flush s, sp_epoch s,
     sp_microtasks s, sp_handoffs s)"

named_theorems mesh_frame "operations that leave the mesh queue alone"

lemma mesh_emit [mesh_frame]: "mesh_view (emit o1 s) = mesh_view s"
  by (simp add: emit_def mesh_view_def)

lemma mesh_bindT [mesh_frame]: "mesh_view (bindTranscriptPersistence h s) = mesh_view s"
  by (simp add: bindTranscriptPersistence_def mesh_view_def Let_def)

lemma mesh_clearT [mesh_frame]: "mesh_view (clearTranscriptPersistence s) = mesh_view s"
  by (simp add: clearTranscriptPersistence_def mesh_view_def)

lemma mesh_fields [mesh_frame]:
  "mesh_view (s\<lparr>sp_message := m\<rparr>) = mesh_view s" "mesh_view (s\<lparr>sp_action := m\<rparr>) = mesh_view s"
  "mesh_view (s\<lparr>sp_command := m\<rparr>) = mesh_view s" "mesh_view (s\<lparr>sp_event := m\<rparr>) = mesh_view s"
  "mesh_view (s\<lparr>sp_running := b\<rparr>) = mesh_view s" "mesh_view (s\<lparr>sp_turn := t\<rparr>) = mesh_view s"
  "mesh_view (s\<lparr>sp_started := st\<rparr>) = mesh_view s" "mesh_view (s\<lparr>sp_lastUser := u\<rparr>) = mesh_view s"
  "mesh_view (s\<lparr>sp_log := l\<rparr>) = mesh_view s" "mesh_view (s\<lparr>sp_reserved := rs\<rparr>) = mesh_view s"
  "mesh_view (s\<lparr>sp_accepted := ac\<rparr>) = mesh_view s" "mesh_view (s\<lparr>sp_store := d\<rparr>) = mesh_view s"
  "mesh_view (s\<lparr>sp_entry := en\<rparr>) = mesh_view s" "mesh_view (s\<lparr>sp_persistence := w\<rparr>) = mesh_view s"
  "mesh_view (s\<lparr>sp_serial := n\<rparr>) = mesh_view s" "mesh_view (s\<lparr>sp_issuer := i\<rparr>) = mesh_view s"
  by (simp_all add: mesh_view_def)

lemma mesh_caps [mesh_frame]:
  "mesh_view (bindCapabilities h s) = mesh_view s" "mesh_view (replaceSessionCapabilities h s) = mesh_view s"
  "mesh_view (forget h s) = mesh_view s" "mesh_view (forgetActionApi h s) = mesh_view s"
  "mesh_view (forgetStaleBinding h s) = mesh_view s" "mesh_view (clearApiBindings s) = mesh_view s"
  by (simp_all add: bindCapabilities_def replaceSessionCapabilities_def forget_def forgetActionApi_def
      forgetStaleBinding_def clearApiBindings_def Let_def mesh_frame)

lemma mesh_session [mesh_frame]:
  "mesh_view (snd (currentRemoteSessionId g c s)) = mesh_view s" "mesh_view (snd (issuer_capture g h s)) = mesh_view s"
  "mesh_view (snd (captureRemoteSession g h s)) = mesh_view s" "mesh_view (snd (currentSessionMessage g ms s)) = mesh_view s"
  "mesh_view (broadcast_current g ms s) = mesh_view s" "mesh_view (snd (recordedTranscriptTs g i s)) = mesh_view s"
proof -
  show a: "mesh_view (snd (currentRemoteSessionId g c s)) = mesh_view s" for c
    by (simp add: currentRemoteSessionId_def split_beta Let_def mesh_view_def)
  show b: "mesh_view (snd (issuer_capture g h s)) = mesh_view s"
    by (simp add: issuer_capture_def split_beta Let_def mesh_view_def)
  show "mesh_view (snd (captureRemoteSession g h s)) = mesh_view s"
    by (simp add: captureRemoteSession_def split_beta Let_def b mesh_emit)
  show c: "mesh_view (snd (currentSessionMessage g ms s)) = mesh_view s"
    by (simp add: currentSessionMessage_def split_beta Let_def a)
  show "mesh_view (broadcast_current g ms s) = mesh_view s"
    by (simp add: broadcast_current_def split_beta Let_def c mesh_emit)
  show "mesh_view (snd (recordedTranscriptTs g i s)) = mesh_view s"
    by (simp add: recordedTranscriptTs_def split_beta Let_def a)
qed

lemma mesh_unbind [mesh_frame]: "mesh_view (unbind_stale sdk e b s) = mesh_view s"
  by (simp add: unbind_stale_def mesh_view_def split: option.split)

lemma mesh_record [mesh_frame]: "mesh_view (snd (recordDurableTranscriptEvent sdk e s)) = mesh_view s"
  by (simp add: recordDurableTranscriptEvent_def split_beta Let_def mesh_frame)

lemma mesh_consume [mesh_frame]: "mesh_view (snd (consumeDeliveredUserEvent t is s)) = mesh_view s"
  by (simp add: consumeDeliveredUserEvent_def Let_def mesh_frame split: option.split list.split)

lemma mesh_user_message [mesh_frame]: "mesh_view (record_user_message g sdk sid ts c s) = mesh_view s"
  by (simp add: record_user_message_def Let_def split_beta mesh_frame split: option.split)

lemma mesh_assistant_block [mesh_frame]: "mesh_view (record_assistant_block g sdk sid ts u ib s) = mesh_view s"
  by (simp add: record_assistant_block_def Let_def split_beta mesh_frame)

lemma mesh_assistant_blocks [mesh_frame]:
  "mesh_view (fold (record_assistant_block g sdk sid ts u) bs s) = mesh_view s"
  by (induction bs arbitrary: s) (simp_all add: mesh_frame)

lemma mesh_sdk_message [mesh_frame]: "mesh_view (recordSdkMessageTranscriptEvents g sdk now m s) = mesh_view s"
  by (simp add: recordSdkMessageTranscriptEvents_def Let_def split_beta mesh_frame)

lemma mesh_backfill [mesh_frame]:
  "mesh_view (snd (backfillTranscriptFromSessionManager dp g h s)) = mesh_view s"
  by (simp add: backfillTranscriptFromSessionManager_def backfill_def recomputeLastTranscriptUserId_def
      Let_def split_beta mesh_frame split: manager.split entries_read.split js.split)

lemma mesh_turn [mesh_frame]:
  "mesh_view (publish_turn b s) = mesh_view s" "mesh_view (applyTurn e s) = mesh_view s"
  "mesh_view (resetTurnSnapshot s) = mesh_view s"
  by (simp_all add: publish_turn_def applyTurn_def resetTurnSnapshot_def mesh_frame)

lemma mesh_rest [mesh_frame]:
  "mesh_view (snd (bindSessionContext dp g h c s)) = mesh_view s" "mesh_view (bindCommandContext h s) = mesh_view s"
  "mesh_view (snd (bindReplacementContext g h s)) = mesh_view s" "mesh_view (snd (sendPiMessage t d s)) = mesh_view s"
  "mesh_view (pi_message_rejected h b s) = mesh_view s" "mesh_view (snd (wake_finish h r s)) = mesh_view s"
  "mesh_view (snd (rememberDeliveredUserEvent t is cl e p s)) = mesh_view s"
  "mesh_view (rollback_reservation k s) = mesh_view s" "mesh_view (recordDeliveredUserMessageId i cl s) = mesh_view s"
  "mesh_view (snd (buildSessionHistoryMessage g env q n s)) = mesh_view s"
  "mesh_view (resetSessionForNew g now q s) = mesh_view s" "mesh_view (snd (maybeDrainQueuedMessage g s)) = mesh_view s"
  by (simp_all add: bindSessionContext_def bindCommandContext_def bindReplacementContext_def sendPiMessage_def
      pi_message_rejected_def wake_finish_def rememberDeliveredUserEvent_def rollback_reservation_def
      recordDeliveredUserMessageId_def buildSessionHistoryMessage_def resetSessionForNew_def clearTranscriptOnly_def
      maybeDrainQueuedMessage_def broadcastQueuedMessageState_def Let_def split_beta mesh_frame
      split: option.split delivery.split)

lemma mesh_fold_emit [mesh_frame]:
  "mesh_view (fold (\<lambda>x s. if P x then emit (f x) s else s) xs s) = mesh_view s"
  by (induction xs arbitrary: s) (simp_all add: mesh_emit)

lemma mesh_turns [mesh_frame]:
  "mesh_view (setSessionStartedAt t s) = mesh_view s" "mesh_view (snd (ensureSessionStarted now s)) = mesh_view s"
  "mesh_view (recordOwnerAttached p s) = mesh_view s" "mesh_view (broadcastQueuedMessageState g s) = mesh_view s"
  "mesh_view (snd (seedUserMessageTurn i src b s)) = mesh_view s" "mesh_view (rollback_seed r s) = mesh_view s"
  "mesh_view (maybeSendLateAttachSessionSync loc as h s) = mesh_view s"
  by (simp_all add: setSessionStartedAt_def ensureSessionStarted_def recordOwnerAttached_def
      broadcastQueuedMessageState_def seedUserMessageTurn_def rollback_seed_def maybeSendLateAttachSessionSync_def
      Let_def split_beta mesh_frame split: option.split)

lemma mesh_wrapped [mesh_frame]:
  "mesh_view (snd (wrapped_setModel h r s)) = mesh_view s" "mesh_view (snd (wrapped_setThinkingLevel h r s)) = mesh_view s"
  "mesh_view (snd (wrapped_ctx_call h r s)) = mesh_view s" "mesh_view (snd (freshActionCtx r s)) = mesh_view s"
  "mesh_view (snd (freshCommandActionCtx r s)) = mesh_view s"
  by (simp_all add: wrapped_setModel_def wrapped_setThinkingLevel_def wrapped_ctx_call_def freshActionCtx_def
      freshCommandActionCtx_def wrapActionCtx_def mesh_frame split: option.split)

subsection \<open>Accounting\<close>

definition of_peer :: "string \<Rightarrow> pending_mesh list \<Rightarrow> pending_mesh list" where
  "of_peer p xs = filter (\<lambda>e. pm_peer e = p) xs"

definition bytes_of :: "pending_mesh list \<Rightarrow> int" where
  "bytes_of xs = sum_list (map pm_bytes xs)"

text \<open>The total and the per-peer table say exactly what is in the queue.\<close>

definition accounted :: "pending_mesh list \<Rightarrow> (string, peer_accounting) omap \<times> int \<Rightarrow> bool" where
  "accounted xs acc \<longleftrightarrow> snd acc = bytes_of xs
     \<and> (\<forall>p. map_of (fst acc) p = (if of_peer p xs = [] then None
            else Some \<lparr>pa_frames = int (length (of_peer p xs)), pa_bytes = bytes_of (of_peer p xs)\<rparr>))"

lemma of_peer_simps [simp]:
  "of_peer p [] = []" "of_peer p (xs @ ys) = of_peer p xs @ of_peer p ys"
  "of_peer p (e # xs) = (if pm_peer e = p then e # of_peer p xs else of_peer p xs)"
  by (simp_all add: of_peer_def)

lemma bytes_of_simps [simp]:
  "bytes_of [] = 0" "bytes_of (xs @ ys) = bytes_of xs + bytes_of ys" "bytes_of (e # xs) = pm_bytes e + bytes_of xs"
  by (simp_all add: bytes_of_def)

lemma accounted_removed: "accounted (e # xs) acc \<Longrightarrow> accounted xs (account_removed e acc)"
  by (cases acc) (auto simp: accounted_def account_removed_def split: if_splits)

lemma accounted_batch: "accounted (batch @ rest) acc \<Longrightarrow> accounted rest (fold account_removed batch acc)"
proof (induction batch arbitrary: acc)
  case (Cons e batch)
  then have "accounted (batch @ rest) (account_removed e acc)" by (auto dest: accounted_removed)
  with Cons.IH show ?case by simp
qed simp

definition within :: "mesh_limits \<Rightarrow> pending_mesh list \<Rightarrow> bool" where
  "within l xs \<longleftrightarrow> int (length xs) \<le> max 0 (maxFrames l) \<and> bytes_of xs \<le> max 0 (maxBytes l)
     \<and> (\<forall>p. int (length (of_peer p xs)) \<le> max 0 (maxFramesPerPeer l) \<and> bytes_of (of_peer p xs) \<le> max 0 (maxBytesPerPeer l))
     \<and> (\<forall>e \<in> set xs. 0 \<le> pm_bytes e)"

lemma bytes_of_nonneg: "\<forall>e \<in> set xs. 0 \<le> pm_bytes e \<Longrightarrow> 0 \<le> bytes_of xs"
  by (auto simp: bytes_of_def intro!: sum_list_nonneg)

lemma within_suffix: "within l (xs @ ys) \<Longrightarrow> within l ys"
proof -
  assume w: "within l (xs @ ys)"
  then have n: "0 \<le> bytes_of xs" and p: "0 \<le> bytes_of (of_peer p xs)" for p
    by (auto simp: within_def of_peer_def intro!: bytes_of_nonneg)
  show ?thesis
    unfolding within_def
  proof (intro conjI allI)
    show "int (length ys) \<le> max 0 (maxFrames l)" "bytes_of ys \<le> max 0 (maxBytes l)" "\<forall>e \<in> set ys. 0 \<le> pm_bytes e"
      using w n by (auto simp: within_def)
    fix q
    from w p [of q] have "int (length (of_peer q xs) + length (of_peer q ys)) \<le> max 0 (maxFramesPerPeer l)"
      "bytes_of (of_peer q xs) + bytes_of (of_peer q ys) \<le> max 0 (maxBytesPerPeer l)"
      by (simp_all add: within_def)
    with p [of q] show "int (length (of_peer q ys)) \<le> max 0 (maxFramesPerPeer l)"
      "bytes_of (of_peer q ys) \<le> max 0 (maxBytesPerPeer l)" by linarith+
  qed
qed

text \<open>What of the flush is under way in the current session: its microtask or its promise.\<close>

definition live_handoffs :: "'d projection \<Rightarrow> (nat \<times> pending_mesh list \<times> host) list" where
  "live_handoffs s = filter (\<lambda>h. fst h = sp_epoch s) (sp_handoffs s)"

definition live_ticks :: "'d projection \<Rightarrow> nat list" where
  "live_ticks s = filter (\<lambda>g. g = sp_epoch s) (sp_microtasks s)"

definition mesh_ok :: "'d projection \<Rightarrow> bool" where
  "mesh_ok s \<longleftrightarrow> accounted (sp_pending s) (sp_byPeer s, sp_pendingBytes s)
     \<and> within (sp_limits s) (sp_pending s)
     \<and> length (live_handoffs s) + length (live_ticks s) = (if sp_flush s then 1 else 0)
     \<and> (\<forall>g \<in> set (sp_microtasks s) \<union> fst ` set (sp_handoffs s). g \<le> sp_epoch s)
     \<and> (\<forall>h \<in> set (live_handoffs s). fst (snd h) \<noteq> [] \<and> (\<exists>rest. sp_pending s = fst (snd h) @ rest))"

lemma mesh_ok_view: "mesh_view s' = mesh_view s \<Longrightarrow> mesh_ok s \<Longrightarrow> mesh_ok s'"
  by (simp add: mesh_view_def mesh_ok_def live_handoffs_def live_ticks_def)

lemma mesh_ok_new: "mesh_ok (new_projection l d)"
  by (simp add: mesh_ok_def new_projection_def accounted_def within_def live_handoffs_def live_ticks_def)

lemma mesh_ok_schedule: "mesh_ok s \<Longrightarrow> mesh_ok (scheduleMeshMessageFlush s)"
  by (auto simp: scheduleMeshMessageFlush_def mesh_ok_def live_handoffs_def live_ticks_def)

text \<open>A state in which the flush is being decided: nothing of it is under way any more.\<close>

definition mesh_idle :: "'d projection \<Rightarrow> bool" where
  "mesh_idle s \<longleftrightarrow> mesh_ok (s\<lparr>sp_flush := False\<rparr>)"

lemma mesh_idle_remove:
  assumes "mesh_idle s" and "sp_pending s = batch @ rest"
  shows "mesh_idle (removePendingMeshBatch batch s)"
proof -
  obtain tab tot where r: "fold account_removed batch (sp_byPeer s, sp_pendingBytes s) = (tab, tot)"
    by (cases "fold account_removed batch (sp_byPeer s, sp_pendingBytes s)")
  have "accounted rest (tab, tot)"
    using accounted_batch [of batch rest "(sp_byPeer s, sp_pendingBytes s)"] assms r by (simp add: mesh_idle_def mesh_ok_def)
  moreover have "within (sp_limits s) rest"
    using assms within_suffix [of "sp_limits s" batch rest] by (simp add: mesh_idle_def mesh_ok_def)
  ultimately show ?thesis
    using assms
    by (auto simp: mesh_idle_def mesh_ok_def removePendingMeshBatch_def r live_handoffs_def live_ticks_def)
qed

lemma mesh_idle_success:
  assumes "mesh_idle s" and "sp_pending s = batch @ rest"
  shows "mesh_ok (handoffSucceeded (sp_epoch s) batch s)"
  using mesh_idle_remove [OF assms] by (simp add: handoffSucceeded_def mesh_idle_def mesh_ok_schedule)

lemma mesh_idle_view: "mesh_view s' = mesh_view s \<Longrightarrow> mesh_idle s \<Longrightarrow> mesh_idle s'"
  unfolding mesh_idle_def by (rule mesh_ok_view) (simp_all add: mesh_view_def)

lemma pending_view: "mesh_view s' = mesh_view s \<Longrightarrow> sp_pending s' = sp_pending s"
  by (simp add: mesh_view_def)

lemma mesh_idle_failure:
  assumes "mesh_idle s" and "sp_pending s = batch @ rest"
  shows "mesh_ok (handoffFailed (sp_epoch s) batch api stale s)"
proof -
  let ?s1 = "if stale then removePendingMeshBatch batch (forget api s) else s"
  have "mesh_idle (forget api s)" "sp_pending (forget api s) = batch @ rest"
    using assms mesh_idle_view [OF mesh_caps(3)] pending_view [OF mesh_caps(3)] by metis+
  then have "mesh_idle ?s1" using assms mesh_idle_remove by auto
  then show ?thesis
    by (simp add: handoffFailed_def Let_def mesh_ok_view [OF mesh_emit] mesh_idle_def)
qed

lemma mesh_ok_microtask:
  assumes ok: "mesh_ok s0"
  shows "mesh_ok (run_microtask delivery s0)"
proof (cases "sp_microtasks s0")
  case Nil
  with ok show ?thesis by (simp add: run_microtask_def)
next
  case (Cons g gs)
  let ?s = "s0\<lparr>sp_microtasks := gs\<rparr>"
  show ?thesis
  proof (cases "g = sp_epoch s0")
    case False
    with ok Cons show ?thesis
      by (auto simp: run_microtask_def mesh_ok_def live_handoffs_def live_ticks_def)
  next
    case True
    have idle: "mesh_idle ?s" and none: "live_handoffs ?s = []" "live_ticks ?s = []"
      using ok Cons True by (auto simp: mesh_idle_def mesh_ok_def live_handoffs_def live_ticks_def split: if_splits)
    show ?thesis
    proof (cases "sp_message s0 = None \<or> sp_running s0 \<or> sp_pending s0 = []")
      case skip: True
      with idle Cons True show ?thesis by (auto simp: run_microtask_def mesh_idle_def Let_def split: option.split)
    next
      case go: False
      then obtain api where api: "sp_message s0 = Some api" by auto
      let ?s1 = "emit (SdkMessage api (join_mesh (map pm_content (sp_pending s0)))) ?s"
      have i1: "mesh_idle ?s1" "sp_pending ?s1 = sp_pending s0 @ []" "sp_epoch ?s1 = sp_epoch s0"
        using idle by (auto intro: mesh_idle_view [OF mesh_emit]) (simp_all add: emit_def)
      have run: "run_microtask delivery s0 = (case delivery of
             Returned \<Rightarrow> handoffSucceeded (sp_epoch s0) (sp_pending s0) ?s1
           | Promised \<Rightarrow> ?s1\<lparr>sp_handoffs := sp_handoffs ?s1 @ [(sp_epoch s0, sp_pending s0, api)]\<rparr>
           | Threw stale \<Rightarrow> handoffFailed (sp_epoch s0) (sp_pending s0) api stale ?s1)"
        using go Cons True api by (simp add: run_microtask_def Let_def)
      show ?thesis
      proof (cases delivery)
        case Returned
        with mesh_idle_success [OF i1(1,2)] i1(3) show ?thesis unfolding run by simp
      next
        case (Threw stale)
        with mesh_idle_failure [OF i1(1,2)] i1(3) show ?thesis unfolding run by simp
      next
        case Promised
        have "sp_flush s0" using ok Cons True by (auto simp: mesh_ok_def live_ticks_def split: if_splits)
        with Promised ok none go Cons True show ?thesis
          unfolding run by (auto simp: emit_def mesh_ok_def live_handoffs_def live_ticks_def)
      qed
    qed
  qed
qed

lemma filter_without:
  assumes "i < length xs"
  shows "filter P xs = filter P (take i xs) @ (if P (xs ! i) then [xs ! i] else []) @ filter P (drop (Suc i) xs)"
proof -
  have "filter P xs = filter P (take i xs @ xs ! i # drop (Suc i) xs)"
    using id_take_nth_drop [OF assms] by simp
  then show ?thesis by (simp del: append_take_drop_id)
qed

lemma mesh_ok_settle:
  assumes ok: "mesh_ok s0"
  shows "mesh_ok (settle_handoff i rejected s0)"
proof (cases "i < length (sp_handoffs s0)")
  case False
  with ok show ?thesis by (simp add: settle_handoff_def)
next
  case True
  obtain g batch api where h: "sp_handoffs s0 ! i = (g, batch, api)" by (cases "sp_handoffs s0 ! i") auto
  let ?hs = "take i (sp_handoffs s0) @ drop (Suc i) (sp_handoffs s0)"
  let ?s = "s0\<lparr>sp_handoffs := ?hs\<rparr>"
  have sub: "set ?hs \<subseteq> set (sp_handoffs s0)" by (auto dest: in_set_takeD in_set_dropD)
  have split: "live_handoffs s0 = filter (\<lambda>h. fst h = sp_epoch s0) (take i (sp_handoffs s0))
      @ (if g = sp_epoch s0 then [(g, batch, api)] else []) @ filter (\<lambda>h. fst h = sp_epoch s0) (drop (Suc i) (sp_handoffs s0))"
    using filter_without [OF True, of "\<lambda>h. fst h = sp_epoch s0"] h by (simp add: live_handoffs_def)
  show ?thesis
  proof (cases "g = sp_epoch s0")
    case dead: False
    have live: "live_handoffs ?s = live_handoffs s0" using split dead by (simp add: live_handoffs_def)
    have "mesh_ok ?s"
      using ok sub unfolding mesh_ok_def live by (auto simp: live_ticks_def)
    with dead h True show ?thesis
      by (auto simp: settle_handoff_def Let_def handoffSucceeded_def handoffFailed_def split: option.split)
  next
    case alive: True
    then have in_live: "(g, batch, api) \<in> set (live_handoffs s0)" using split by simp
    then obtain rest where rest: "sp_pending s0 = batch @ rest" using ok by (auto simp: mesh_ok_def)
    have none: "live_handoffs ?s = []" "live_ticks ?s = []"
      using ok split alive by (auto simp: mesh_ok_def live_handoffs_def live_ticks_def split: if_splits)
    have "mesh_ok (?s\<lparr>sp_flush := False\<rparr>)"
      using ok sub none by (auto simp: mesh_ok_def live_handoffs_def live_ticks_def)
    then have idle: "mesh_idle ?s" by (simp add: mesh_idle_def)
    have p: "sp_pending ?s = batch @ rest" "sp_epoch ?s = sp_epoch s0" using rest by simp_all
    show ?thesis
      using mesh_idle_success [OF idle p(1)] mesh_idle_failure [OF idle p(1)] p(2) alive h True
      by (auto simp: settle_handoff_def Let_def split: option.split)
  qed
qed

lemma utf8_length_nonneg: "0 \<le> utf8_length s"
  by (simp add: utf8_length_def)

lemma mesh_ok_enqueue:
  assumes ok: "mesh_ok s"
  shows "mesh_ok (snd (enqueueMeshMessage p c s))"
proof -
  let ?b = "utf8_length c" and ?xs = "sp_pending s" and ?l = "sp_limits s"
  let ?peer = "case map_of (sp_byPeer s) p of Some q \<Rightarrow> q | None \<Rightarrow> \<lparr>pa_frames = 0, pa_bytes = 0\<rparr>"
  let ?e = "\<lparr>pm_peer = p, pm_content = c, pm_bytes = ?b\<rparr>"
  let ?s = "s\<lparr>sp_pending := ?xs @ [?e], sp_pendingBytes := sp_pendingBytes s + ?b,
      sp_byPeer := omap_put (sp_byPeer s) p \<lparr>pa_frames = pa_frames ?peer + 1, pa_bytes = pa_bytes ?peer + ?b\<rparr>\<rparr>"
  have acc: "accounted ?xs (sp_byPeer s, sp_pendingBytes s)" and w: "within ?l ?xs" using ok by (simp_all add: mesh_ok_def)
  have peer: "pa_frames ?peer = int (length (of_peer p ?xs))" "pa_bytes ?peer = bytes_of (of_peer p ?xs)"
    using acc by (auto simp: accounted_def split: option.splits if_splits)
  show ?thesis
  proof (cases "maxFrames ?l \<le> int (length ?xs) \<or> maxFramesPerPeer ?l \<le> pa_frames ?peer
      \<or> maxBytes ?l - sp_pendingBytes s < ?b \<or> maxBytesPerPeer ?l - pa_bytes ?peer < ?b")
    case True
    with ok show ?thesis by (auto simp: enqueueMeshMessage_def Let_def)
  next
    case False
    have "accounted (?xs @ [?e]) (sp_byPeer ?s, sp_pendingBytes ?s)"
      using acc peer by (auto simp: accounted_def)
    moreover have "within ?l (?xs @ [?e])"
      using w False acc peer utf8_length_nonneg [of c] by (auto simp: within_def accounted_def)
    ultimately have "mesh_ok ?s"
      using ok by (auto simp: mesh_ok_def live_handoffs_def live_ticks_def)
    moreover have "snd (enqueueMeshMessage p c s) = (if sp_running s then ?s else scheduleMeshMessageFlush ?s)"
      using False by (simp add: enqueueMeshMessage_def Let_def)
    ultimately show ?thesis by (simp add: mesh_ok_schedule)
  qed
qed

lemma mesh_ok_clear:
  assumes "mesh_ok s" shows "mesh_ok (clearStaleContexts s)"
proof -
  have "sp_epoch s < Suc (sp_epoch s)" by simp
  have "filter (\<lambda>h. fst h = Suc (sp_epoch s)) (sp_handoffs s) = []" "filter (\<lambda>g. g = Suc (sp_epoch s)) (sp_microtasks s) = []"
    using assms by (force simp: mesh_ok_def filter_empty_conv)+
  then show ?thesis
    using assms
    by (auto simp: clearStaleContexts_def clearPendingMeshMessages_def clearTranscriptPersistence_def Let_def
        mesh_ok_def accounted_def within_def live_handoffs_def live_ticks_def intro: le_SucI)
qed

lemma limits_view: "mesh_view s' = mesh_view s \<Longrightarrow> sp_limits s' = sp_limits s"
  by (simp add: mesh_view_def)

lemma limits_mesh [simp]:
  "sp_limits (scheduleMeshMessageFlush s) = sp_limits s" "sp_limits (removePendingMeshBatch b s) = sp_limits s"
  "sp_limits (emit x s) = sp_limits s" "sp_limits (forget h s) = sp_limits s"
  by (simp_all add: scheduleMeshMessageFlush_def removePendingMeshBatch_def split_beta Let_def
      limits_view [OF mesh_emit] limits_view [OF mesh_caps(3)])

lemma limits_handoff [simp]:
  "sp_limits (handoffSucceeded g b s) = sp_limits s" "sp_limits (handoffFailed g b h st s) = sp_limits s"
  by (simp_all add: handoffSucceeded_def handoffFailed_def Let_def)

lemma limits_fst: "sp_limits s = fst (mesh_view s)"
  by (simp add: mesh_view_def)

lemma limits_step: "sp_limits (projection_step v op s) = sp_limits s"
proof (cases op)
  case (MicrotaskOp d)
  then show ?thesis by (auto simp: run_microtask_def Let_def split: list.split option.split delivery.split)
next
  case (HandoffOp i r)
  then show ?thesis by (auto simp: settle_handoff_def Let_def split: option.split prod.split)
next
  case (BindApiOp h)
  then show ?thesis by (simp add: bindApi_def Let_def limits_view [OF mesh_caps(1)])
next
  case (EnqueueOp p c)
  then show ?thesis by (simp add: enqueueMeshMessage_def Let_def)
next
  case SettledOp
  then show ?thesis by (simp add: markAgentSettled_def)
next
  case ClearStaleOp
  then show ?thesis
    by (simp add: clearStaleContexts_def clearPendingMeshMessages_def clearTranscriptPersistence_def Let_def)
qed (simp_all add: markAgentRunStarted_def limits_fst mesh_frame)

lemma mesh_ok_step: "mesh_ok s \<Longrightarrow> mesh_ok (projection_step v op s)"
proof (cases op)
  case (BindApiOp h)
  assume "mesh_ok s"
  then have "mesh_ok (bindCapabilities h s)" by (rule mesh_ok_view [OF mesh_caps(1)])
  then show ?thesis by (simp add: BindApiOp bindApi_def Let_def mesh_ok_schedule)
next
  case SettledOp
  assume "mesh_ok s"
  then have "mesh_ok (s\<lparr>sp_running := False\<rparr>)" by (rule mesh_ok_view [rotated]) (simp add: mesh_view_def)
  then show ?thesis by (simp add: SettledOp markAgentSettled_def mesh_ok_schedule)
qed (simp_all add: mesh_ok_enqueue mesh_ok_microtask mesh_ok_settle mesh_ok_clear markAgentRunStarted_def
    mesh_ok_view [of _ s] mesh_frame)

text \<open>
  C20. Whatever the host and the mesh do, in whatever order, through microtasks, promises that
  settle late, agent runs, stale capabilities and replaced sessions: the waiting mesh
  messages never exceed the frame and byte limits, in all or of one peer, the counters
  say exactly what is waiting, and at most one hand-over to the agent is under way for
  the current session; its batch is the front of the queue, so when it succeeds exactly
  what was handed over is removed.
\<close>

theorem mesh_ingress_accounted:
  fixes v :: "'d surroundings" and ops :: "projection_op list"
  shows "(\<lambda>s :: 'd projection. within limits (sp_pending s)
       \<and> accounted (sp_pending s) (sp_byPeer s, sp_pendingBytes s)
       \<and> length (live_handoffs s) \<le> 1
       \<and> (case live_handoffs s of [] \<Rightarrow> True
          | (g, batch, api) # _ \<Rightarrow>
              take (length batch) (sp_pending s) = batch
              \<and> sp_pending (handoffSucceeded g batch s) = drop (length batch) (sp_pending s)))
     (projection_run v ops (new_projection limits store))"
proof -
  let ?s = "projection_run v ops (new_projection limits store)"
  have ok: "mesh_ok ?s"
    using mesh_ok_new mesh_ok_step by (rule projection_run_invariant)
  have l: "sp_limits ?s = limits"
    by (rule projection_run_invariant) (simp_all add: limits_step new_projection_def)
  have few: "length (live_handoffs ?s) \<le> 1" using ok by (auto simp: mesh_ok_def split: if_splits)
  have "take (length batch) (sp_pending ?s) = batch
      \<and> sp_pending (handoffSucceeded g batch ?s) = drop (length batch) (sp_pending ?s)"
    if "live_handoffs ?s = (g, batch, api) # hs" for g batch api hs
  proof -
    from that have m: "(g, batch, api) \<in> set (live_handoffs ?s)" by simp
    then have "g = sp_epoch ?s" by (auto simp: live_handoffs_def)
    moreover obtain rest where "sp_pending ?s = batch @ rest" using ok m by (auto simp: mesh_ok_def)
    ultimately show ?thesis
      by (simp add: handoffSucceeded_def scheduleMeshMessageFlush_def removePendingMeshBatch_def split_beta Let_def)
  qed
  with ok l few show ?thesis by (auto simp: mesh_ok_def split: list.split)
qed

end
