(* ===== verification/SessionVisibility.thy ===== *)
theory SessionVisibility imports MeshIngress
begin

text \<open>
  What the phone is shown of the host's session: messages are broadcast only once the
  log knows them, the app's identity of a message survives its way through the host,
  and the history sent on attach is, or is not, a frame the receiver accepts.
\<close>

subsection \<open>The facts of the log\<close>

definition facts_view where
  "facts_view s = (log_events (sp_log s), log_index (sp_log s))"

named_theorems facts_frame "operations that leave the visible facts alone"

lemma facts_fields [facts_frame]:
  "facts_view (s\<lparr>sp_message := m\<rparr>) = facts_view s" "facts_view (s\<lparr>sp_action := m\<rparr>) = facts_view s"
  "facts_view (s\<lparr>sp_command := m\<rparr>) = facts_view s" "facts_view (s\<lparr>sp_event := m\<rparr>) = facts_view s"
  "facts_view (s\<lparr>sp_running := b\<rparr>) = facts_view s" "facts_view (s\<lparr>sp_turn := t\<rparr>) = facts_view s"
  "facts_view (s\<lparr>sp_started := st\<rparr>) = facts_view s" "facts_view (s\<lparr>sp_lastUser := u\<rparr>) = facts_view s"
  "facts_view (s\<lparr>sp_reserved := rs\<rparr>) = facts_view s" "facts_view (s\<lparr>sp_accepted := ac\<rparr>) = facts_view s"
  "facts_view (s\<lparr>sp_store := d\<rparr>) = facts_view s" "facts_view (s\<lparr>sp_entry := en\<rparr>) = facts_view s"
  "facts_view (s\<lparr>sp_persistence := w\<rparr>) = facts_view s" "facts_view (s\<lparr>sp_serial := n\<rparr>) = facts_view s"
  "facts_view (s\<lparr>sp_issuer := i\<rparr>) = facts_view s" "facts_view (s\<lparr>sp_out := os\<rparr>) = facts_view s"
  "facts_view (s\<lparr>sp_flush := b\<rparr>) = facts_view s" "facts_view (s\<lparr>sp_microtasks := ts\<rparr>) = facts_view s"
  "facts_view (s\<lparr>sp_handoffs := hs\<rparr>) = facts_view s" "facts_view (s\<lparr>sp_pending := p\<rparr>) = facts_view s"
  "facts_view (s\<lparr>sp_pendingBytes := k\<rparr>) = facts_view s" "facts_view (s\<lparr>sp_byPeer := q\<rparr>) = facts_view s"
  "facts_view (s\<lparr>sp_epoch := e\<rparr>) = facts_view s"
  by (simp_all add: facts_view_def)

lemma facts_basic [facts_frame]:
  "facts_view (emit o1 s) = facts_view s" "facts_view (bindTranscriptPersistence h s) = facts_view s"
  "facts_view (clearTranscriptPersistence s) = facts_view s" "facts_view (unbind_stale sdk e b s) = facts_view s"
  by (simp_all add: emit_def bindTranscriptPersistence_def clearTranscriptPersistence_def unbind_stale_def
      bindPersistence_def unbindPersistence_def facts_view_def Let_def split: option.split)

lemma facts_caps [facts_frame]:
  "facts_view (bindCapabilities h s) = facts_view s" "facts_view (replaceSessionCapabilities h s) = facts_view s"
  "facts_view (forget h s) = facts_view s" "facts_view (forgetActionApi h s) = facts_view s"
  "facts_view (forgetStaleBinding h s) = facts_view s" "facts_view (clearApiBindings s) = facts_view s"
  by (simp_all add: bindCapabilities_def replaceSessionCapabilities_def forget_def forgetActionApi_def
      forgetStaleBinding_def clearApiBindings_def Let_def facts_frame)

lemma facts_session [facts_frame]:
  "facts_view (snd (currentRemoteSessionId g c s)) = facts_view s" "facts_view (snd (issuer_capture g h s)) = facts_view s"
  "facts_view (snd (captureRemoteSession g h s)) = facts_view s" "facts_view (snd (currentSessionMessage g ms s)) = facts_view s"
  "facts_view (broadcast_current g ms s) = facts_view s" "facts_view (snd (recordedTranscriptTs g i s)) = facts_view s"
proof -
  show a: "facts_view (snd (currentRemoteSessionId g c s)) = facts_view s" for c
    by (simp add: currentRemoteSessionId_def split_beta Let_def facts_view_def)
  show b: "facts_view (snd (issuer_capture g h s)) = facts_view s"
    by (simp add: issuer_capture_def split_beta Let_def facts_view_def)
  show "facts_view (snd (captureRemoteSession g h s)) = facts_view s"
    by (simp add: captureRemoteSession_def split_beta Let_def b facts_basic)
  show c: "facts_view (snd (currentSessionMessage g ms s)) = facts_view s"
    by (simp add: currentSessionMessage_def split_beta Let_def a)
  show "facts_view (broadcast_current g ms s) = facts_view s"
    by (simp add: broadcast_current_def split_beta Let_def c facts_basic)
  show "facts_view (snd (recordedTranscriptTs g i s)) = facts_view s"
    by (simp add: recordedTranscriptTs_def split_beta Let_def a)
qed

lemma facts_consume [facts_frame]: "facts_view (snd (consumeDeliveredUserEvent t is s)) = facts_view s"
  by (simp add: consumeDeliveredUserEvent_def Let_def facts_frame split: option.split list.split)

lemma facts_mesh [facts_frame]:
  "facts_view (scheduleMeshMessageFlush s) = facts_view s" "facts_view (removePendingMeshBatch b s) = facts_view s"
  "facts_view (clearPendingMeshMessages s) = facts_view s"
  by (simp_all add: scheduleMeshMessageFlush_def removePendingMeshBatch_def clearPendingMeshMessages_def
      Let_def split_beta facts_frame)

lemma facts_handoff [facts_frame]:
  "facts_view (handoffSucceeded g b s) = facts_view s" "facts_view (handoffFailed g b h st s) = facts_view s"
  by (simp_all add: handoffSucceeded_def handoffFailed_def Let_def facts_frame)

lemma facts_mesh_ops [facts_frame]:
  "facts_view (run_microtask d s) = facts_view s" "facts_view (settle_handoff i r s) = facts_view s"
  "facts_view (markAgentRunStarted s) = facts_view s" "facts_view (markAgentSettled s) = facts_view s"
  "facts_view (snd (enqueueMeshMessage p c s)) = facts_view s" "facts_view (bindApi h s) = facts_view s"
  "facts_view (clearStaleContexts s) = facts_view s"
  by (simp_all add: run_microtask_def settle_handoff_def markAgentRunStarted_def markAgentSettled_def
      enqueueMeshMessage_def bindApi_def clearStaleContexts_def Let_def split_beta facts_frame
      split: list.split option.split delivery.split prod.split)

lemma facts_turn [facts_frame]:
  "facts_view (publish_turn b s) = facts_view s" "facts_view (applyTurn e s) = facts_view s"
  "facts_view (resetTurnSnapshot s) = facts_view s"
  by (simp_all add: publish_turn_def applyTurn_def resetTurnSnapshot_def facts_frame)

lemma facts_rest [facts_frame]:
  "facts_view (bindCommandContext h s) = facts_view s"
  "facts_view (snd (bindReplacementContext g h s)) = facts_view s" "facts_view (snd (sendPiMessage t d s)) = facts_view s"
  "facts_view (pi_message_rejected h b s) = facts_view s" "facts_view (snd (wake_finish h r s)) = facts_view s"
  "facts_view (snd (rememberDeliveredUserEvent t is cl e p s)) = facts_view s"
  "facts_view (rollback_reservation k s) = facts_view s" "facts_view (recordDeliveredUserMessageId i cl s) = facts_view s"
  "facts_view (snd (buildSessionHistoryMessage g env q n s)) = facts_view s"
  "facts_view (snd (maybeDrainQueuedMessage g s)) = facts_view s"
  by (simp_all add: bindCommandContext_def bindReplacementContext_def sendPiMessage_def
      pi_message_rejected_def wake_finish_def rememberDeliveredUserEvent_def rollback_reservation_def
      recordDeliveredUserMessageId_def buildSessionHistoryMessage_def
      maybeDrainQueuedMessage_def broadcastQueuedMessageState_def Let_def split_beta facts_frame
      split: option.split delivery.split)

lemma facts_fold_emit [facts_frame]:
  "facts_view (fold (\<lambda>x s. if P x then emit (f x) s else s) xs s) = facts_view s"
  by (induction xs arbitrary: s) (simp_all add: facts_basic)

lemma facts_turns [facts_frame]:
  "facts_view (setSessionStartedAt t s) = facts_view s" "facts_view (snd (ensureSessionStarted now s)) = facts_view s"
  "facts_view (recordOwnerAttached p s) = facts_view s" "facts_view (broadcastQueuedMessageState g s) = facts_view s"
  "facts_view (snd (seedUserMessageTurn i src b s)) = facts_view s" "facts_view (rollback_seed r s) = facts_view s"
  "facts_view (maybeSendLateAttachSessionSync loc as h s) = facts_view s"
  by (simp_all add: setSessionStartedAt_def ensureSessionStarted_def recordOwnerAttached_def
      broadcastQueuedMessageState_def seedUserMessageTurn_def rollback_seed_def maybeSendLateAttachSessionSync_def
      Let_def split_beta facts_frame split: option.split)

lemma facts_wrapped [facts_frame]:
  "facts_view (snd (wrapped_setModel h r s)) = facts_view s" "facts_view (snd (wrapped_setThinkingLevel h r s)) = facts_view s"
  "facts_view (snd (wrapped_ctx_call h r s)) = facts_view s" "facts_view (snd (freshActionCtx r s)) = facts_view s"
  "facts_view (snd (freshCommandActionCtx r s)) = facts_view s"
  by (simp_all add: wrapped_setModel_def wrapped_setThinkingLevel_def wrapped_ctx_call_def freshActionCtx_def
      freshCommandActionCtx_def wrapActionCtx_def facts_frame split: option.split)

text \<open>The log is well-formed in every reachable state.\<close>

definition facts_wf :: "transcript_event list \<times> (string, transcript_event) omap \<Rightarrow> bool" where
  "facts_wf f \<longleftrightarrow> snd f = map (\<lambda>e. (identity_of e, e)) (fst f) \<and> distinct (map identity_of (fst f))"

lemma facts_wf_log: "facts_wf (facts_view s) = log_wf (sp_log s)"
  by (simp add: facts_view_def facts_wf_def log_wf_def)

lemma facts_wf_record [simp]:
  "facts_wf (facts_view s) \<Longrightarrow> facts_wf (facts_view (snd (recordDurableTranscriptEvent sdk e s)))"
proof -
  assume ok: "facts_wf (facts_view s)"
  obtain r l d where rec: "record_event (persist sdk) e (sp_log s) (sp_store s) = (r, l, d)"
    by (cases "record_event (persist sdk) e (sp_log s) (sp_store s)")
  have "facts_wf (facts_view (s\<lparr>sp_log := l, sp_store := d\<rparr>))"
    using ok log_wf_record [OF _ rec] by (simp add: facts_wf_log)
  then show ?thesis
    by (simp add: recordDurableTranscriptEvent_def rec Let_def facts_frame)
qed

lemma facts_wf_user: "facts_wf (facts_view s) \<Longrightarrow> facts_wf (facts_view (record_user_message g sdk sid ts c s))"
  by (simp add: record_user_message_def Let_def split_beta facts_frame split: option.split)

lemma facts_wf_block:
  "facts_wf (facts_view s) \<Longrightarrow> facts_wf (facts_view (record_assistant_block g sdk sid ts u ib s))"
  by (simp add: record_assistant_block_def Let_def split_beta facts_frame)

lemma facts_wf_blocks:
  "facts_wf (facts_view s) \<Longrightarrow> facts_wf (facts_view (fold (record_assistant_block g sdk sid ts u) bs s))"
  by (induction bs arbitrary: s) (simp_all add: facts_wf_block)

lemma facts_wf_message:
  "facts_wf (facts_view s) \<Longrightarrow> facts_wf (facts_view (recordSdkMessageTranscriptEvents g sdk now m s))"
  by (simp add: recordSdkMessageTranscriptEvents_def Let_def split_beta facts_wf_user facts_wf_blocks facts_frame)

lemma facts_wf_hydrate: "facts_wf (facts_view s) \<Longrightarrow> facts_wf (facts_view (s\<lparr>sp_log := snd (hydrate es (sp_log s'))\<rparr>))"
  if "facts_view s' = facts_view s"
  using that facts_wf_log [of s'] by (simp add: facts_wf_log log_wf_hydrate)

lemma facts_wf_backfill:
  "facts_wf (facts_view s) \<Longrightarrow> facts_wf (facts_view (snd (backfillTranscriptFromSessionManager dp g h s)))"
  by (simp add: backfillTranscriptFromSessionManager_def backfill_def recomputeLastTranscriptUserId_def Let_def
      split_beta facts_frame facts_wf_hydrate split: manager.split entries_read.split js.split)

lemma facts_wf_step: "facts_wf (facts_view s) \<Longrightarrow> facts_wf (facts_view (projection_step v op s))"
proof (cases op)
  case (NewSessionOp now r)
  then show "facts_wf (facts_view s) \<Longrightarrow> ?thesis"
    by (simp add: resetSessionForNew_def Let_def facts_frame)
      (simp add: facts_wf_log clearTranscriptOnly_def)
qed (simp_all add: facts_wf_message facts_wf_backfill bindSessionContext_def Let_def facts_frame)


subsection \<open>Nothing is shown before it is recorded\<close>

text \<open>An output that shows a fact of the log, with the log's own timestamp.\<close>

definition shows_fact :: "js \<Rightarrow> transcript_event \<Rightarrow> bool" where
  "shows_fact m e \<longleftrightarrow> jfield m ''session_id'' = Str (ev_session e) \<and> jfield m ''ts'' = Num (ev_ts e)
     \<and> (jfield m ''type'' = Str ''user_input''
        \<or> jfield m ''type'' = Str ''agent_message''
          \<and> (case jfield m ''message_id'' of
               Str mid \<Rightarrow> ev_id e = deterministicTranscriptEventId (ev_session e) ''assistant_committed'' mid
             | _ \<Rightarrow> False))"

definition shown :: "'d projection \<Rightarrow> projection_output \<Rightarrow> bool" where
  "shown s o1 \<longleftrightarrow> (case o1 of Broadcast m \<Rightarrow> list_ex (shows_fact m) (log_events (sp_log s)) | _ \<Rightarrow> False)"

definition grows :: "string \<Rightarrow> 'd projection \<Rightarrow> 'd projection \<Rightarrow> bool" where
  "grows sid s s' \<longleftrightarrow> sp_issuer s' = Some sid \<and> facts_wf (facts_view s')
     \<and> set (log_events (sp_log s)) \<subseteq> set (log_events (sp_log s'))
     \<and> (\<exists>outs. sp_out s' = sp_out s @ outs \<and> list_all (shown s') outs)"

lemma shown_mono: "shown s o1 \<Longrightarrow> set (log_events (sp_log s)) \<subseteq> set (log_events (sp_log s')) \<Longrightarrow> shown s' o1"
  by (auto simp: shown_def list_ex_iff split: projection_output.splits)

lemma grows_refl: "sp_issuer s = Some sid \<Longrightarrow> facts_wf (facts_view s) \<Longrightarrow> grows sid s s"
  by (auto simp: grows_def)

lemma grows_trans: "grows sid s s' \<Longrightarrow> grows sid s' s'' \<Longrightarrow> grows sid s s''"
  unfolding grows_def by (fastforce simp: list_all_iff intro: shown_mono)

lemma current_known [simp]:
  "sp_issuer s = Some sid \<Longrightarrow> currentRemoteSessionId g c s = (sid, s\<lparr>sp_serial := sp_serial s + 1\<rparr>)"
  by (simp add: currentRemoteSessionId_def currentOrCapture_def)

lemma current_sets: "sp_issuer (snd (currentRemoteSessionId g c s)) = Some (fst (currentRemoteSessionId g c s))"
  by (simp add: currentRemoteSessionId_def currentOrCapture_def capture_def Let_def split: option.split)

lemma record_keeps_rest:
  "recordDurableTranscriptEvent sdk e s = (r, s') \<Longrightarrow> sp_issuer s' = sp_issuer s \<and> sp_out s' = sp_out s
     \<and> sp_lastUser s' = sp_lastUser s"
  by (auto simp: recordDurableTranscriptEvent_def unbind_stale_def Let_def split: prod.splits option.splits if_splits)

lemma record_facts:
  assumes wf: "facts_wf (facts_view s)" and r: "recordDurableTranscriptEvent sdk e s = (r, s')"
  shows "facts_wf (facts_view s') \<and> set (log_events (sp_log s)) \<subseteq> set (log_events (sp_log s'))
    \<and> (visible_result r \<longrightarrow> (\<exists>x \<in> set (log_events (sp_log s')). ev_session x = ev_session e \<and> ev_id x = ev_id e
         \<and> recordedTsFor (ev_session e) (ev_id e) (sp_log s') = Some (ev_ts x)))"
proof -
  obtain r0 l d where rec: "record_event (persist sdk) e (sp_log s) (sp_store s) = (r0, l, d)"
    by (cases "record_event (persist sdk) e (sp_log s) (sp_store s)")
  have wl: "log_wf (sp_log s)" using wf by (simp add: facts_wf_log)
  have wf': "facts_wf (facts_view s')" using facts_wf_record [OF wf, of sdk e] r by simp
  have ev: "r = r0" "log_events (sp_log s') = log_events l" "log_index (sp_log s') = log_index l"
    using r rec facts_basic(4) [of sdk e s "s\<lparr>sp_log := l, sp_store := d\<rparr>"]
    by (auto simp: recordDurableTranscriptEvent_def Let_def facts_view_def split: if_splits)
  have mono: "set (log_events (sp_log s)) \<subseteq> set (log_events l)"
    using rec wl by (cases rule: record_event_cases) (auto simp: install_events)
  have "\<exists>x \<in> set (log_events (sp_log s')). ev_session x = ev_session e \<and> ev_id x = ev_id e
      \<and> recordedTsFor (ev_session e) (ev_id e) (sp_log s') = Some (ev_ts x)" if v: "visible_result r"
  proof -
    have "identity_of e \<in> identity_of ` set (log_events l)"
      using record_reports [OF wl rec] v ev(1) by (auto simp: visible_result_def)
    then obtain x where x: "x \<in> set (log_events l)" "identity_of x = identity_of e" by auto
    have "log_index l = map (\<lambda>e. (identity_of e, e)) (log_events l)" "distinct (map identity_of (log_events l))"
      using wf' ev by (simp_all add: facts_wf_def facts_view_def)
    then have "map_of (log_index l) (identity_of e) = Some x"
      using x by (intro map_of_is_SomeI) (auto simp: comp_def image_iff)
    with x ev show ?thesis by (auto simp: recordedTsFor_def)
  qed
  with wf' mono ev show ?thesis by simp
qed

lemma broadcast_known:
  "sp_issuer s = Some sid \<Longrightarrow>
   broadcast_current g ms s = emit (Broadcast (Obj (ms @ [(''session_id'', Str sid)]))) (s\<lparr>sp_serial := sp_serial s + 1\<rparr>)"
  by (simp add: broadcast_current_def currentSessionMessage_def)

lemma grows_record:
  assumes iss: "sp_issuer s = Some sid" and wf: "facts_wf (facts_view s)"
    and r: "recordDurableTranscriptEvent sdk e s = (r, s')"
  shows "grows sid s s'"
  using record_keeps_rest [OF r] record_facts [OF wf r] iss by (auto simp: grows_def)

lemma grows_broadcast:
  assumes iss: "sp_issuer s = Some sid" and wf: "facts_wf (facts_view s)"
    and x: "x \<in> set (log_events (sp_log s))"
    and m: "shows_fact (Obj (ms @ [(''session_id'', Str sid)])) x"
  shows "grows sid s (broadcast_current g ms s)"
proof -
  let ?s' = "broadcast_current g ms s"
  have log: "sp_log ?s' = sp_log s" "sp_issuer ?s' = Some sid"
    "sp_out ?s' = sp_out s @ [Broadcast (Obj (ms @ [(''session_id'', Str sid)]))]"
    using iss by (simp_all add: broadcast_known emit_def)
  have "shown ?s' (Broadcast (Obj (ms @ [(''session_id'', Str sid)])))"
    using x m log(1) by (auto simp: shown_def list_ex_iff)
  with log wf show ?thesis by (auto simp: grows_def facts_view_def)
qed

lemma grows_fields: "sp_issuer s' = sp_issuer s \<Longrightarrow> sp_log s' = sp_log s \<Longrightarrow> sp_out s' = sp_out s \<Longrightarrow>
   sp_issuer s = Some sid \<Longrightarrow> facts_wf (facts_view s) \<Longrightarrow> grows sid s s'"
  by (auto simp: grows_def facts_view_def)

lemma grows_block:
  assumes iss: "sp_issuer s = Some sid" and wf: "facts_wf (facts_view s)"
  shows "grows sid s (record_assistant_block g sdk sid ts u ib s)"
proof -
  obtain i b where ib: "ib = (i, b)" by (cases ib)
  show ?thesis
  proof (cases "\<not> is_object b \<or> jfield b ''type'' \<noteq> Str ''text'' \<or> block_text b = []")
    case True
    then show ?thesis using grows_refl [OF iss wf] by (auto simp: record_assistant_block_def ib)
  next
    case False
    define mid where "mid = sync_id ts @ '':assistant:'' @ nat_text i"
    define reply where "reply = (case sp_lastUser s of Some u \<Rightarrow> u | None \<Rightarrow> sync_id ts)"
    define eid where "eid = deterministicTranscriptEventId sid ''assistant_committed'' mid"
    define e where "e = \<lparr>ev_id = eid, ev_session = sid, ev_ts = ts, ev_turn = None,
        ev_body = AssistantCommitted mid reply (block_text b) u\<rparr>"
    obtain r s1 where r: "recordDurableTranscriptEvent sdk e s = (r, s1)" by (cases "recordDurableTranscriptEvent sdk e s")
    have g1: "grows sid s s1" using grows_record [OF iss wf r] .
    then have iss1: "sp_issuer s1 = Some sid" and wf1: "facts_wf (facts_view s1)" by (simp_all add: grows_def)
    let ?s2 = "s1\<lparr>sp_serial := sp_serial s1 + 1\<rparr>"
    let ?ms = "\<lambda>t. [(''type'', Str ''agent_message''), (''in_reply_to'', Str reply), (''text'', Str (block_text b)),
        (''ts'', Num t), (''message_id'', Str mid)] @ usage_members u"
    have run: "record_assistant_block g sdk sid ts u ib s =
        (if \<not> visible_result r then s1
         else broadcast_current g (?ms (case recordedTsFor sid eid (sp_log s1) of Some x \<Rightarrow> x | None \<Rightarrow> ts)) ?s2)"
      using False iss1 r [unfolded e_def eid_def mid_def reply_def] unfolding mid_def reply_def eid_def
      by (simp add: record_assistant_block_def ib Let_def recordedTranscriptTs_def split_beta)
    show ?thesis
    proof (cases "visible_result r")
      case False
      with g1 show ?thesis by (simp add: run)
    next
      case True
      with record_facts [OF wf r] obtain x where
        x: "x \<in> set (log_events (sp_log s1))" "ev_session x = sid" "ev_id x = eid"
          "recordedTsFor sid eid (sp_log s1) = Some (ev_ts x)"
        by (auto simp: e_def)
      have "grows sid ?s2 (broadcast_current g (?ms (ev_ts x)) ?s2)"
        using iss1 wf1 x by (intro grows_broadcast [of _ _ x])
          (auto simp: facts_frame shows_fact_def eid_def usage_members_def opt_member_def split: option.split)
      moreover have "grows sid s1 ?s2" using iss1 wf1 by (intro grows_fields) simp_all
      ultimately show ?thesis using True x g1 by (simp add: run) (meson grows_trans)
    qed
  qed
qed


lemma grows_blocks:
  "sp_issuer s = Some sid \<Longrightarrow> facts_wf (facts_view s) \<Longrightarrow>
   grows sid s (fold (record_assistant_block g sdk sid ts u) bs s)"
proof (induction bs arbitrary: s)
  case Nil
  then show ?case by (simp add: grows_refl)
next
  case (Cons b bs)
  let ?s1 = "record_assistant_block g sdk sid ts u b s"
  have g1: "grows sid s ?s1" using Cons.prems by (rule grows_block)
  then have "sp_issuer ?s1 = Some sid" "facts_wf (facts_view ?s1)" by (simp_all add: grows_def)
  from grows_trans [OF g1 Cons.IH [OF this]] show ?case by simp
qed

lemma consume_keeps: "sp_issuer (snd (consumeDeliveredUserEvent t is s)) = sp_issuer s
   \<and> sp_log (snd (consumeDeliveredUserEvent t is s)) = sp_log s \<and> sp_out (snd (consumeDeliveredUserEvent t is s)) = sp_out s"
  by (auto simp: consumeDeliveredUserEvent_def Let_def split: option.split list.split)

lemma grows_user:
  assumes iss: "sp_issuer s = Some sid" and wf: "facts_wf (facts_view s)"
  shows "grows sid s (record_user_message g sdk sid ts content s)"
proof -
  define body where "body = stringifyContent content"
  define images where "images = imagesFromContent content"
  define some_is where "some_is = (if 0 < length images then Some images else None)"
  obtain matched s1 where c: "consumeDeliveredUserEvent body images s = (matched, s1)"
    by (cases "consumeDeliveredUserEvent body images s")
  have g1: "grows sid s s1"
    using consume_keeps [of body images s] iss wf c by (intro grows_fields) simp_all
  then have i1: "sp_issuer s1 = Some sid" "facts_wf (facts_view s1)" by (simp_all add: grows_def)
  define s2 where "s2 = (if matched = None then s1 else s1\<lparr>sp_serial := sp_serial s1 + 1\<rparr>)"
  have g2: "grows sid s1 s2" unfolding s2_def using i1 by (intro grows_fields) simp_all
  then have i2: "sp_issuer s2 = Some sid" "facts_wf (facts_view s2)" by (simp_all add: grows_def)
  define rts where "rts = (case matched of None \<Rightarrow> None | Some m \<Rightarrow> recordedTsFor sid (rv_event m) (sp_log s1))"
  define cid where "cid = (case matched of Some m \<Rightarrow> rv_client m | None \<Rightarrow> sync_id ts)"
  define cts where "cts = (case rts of Some t \<Rightarrow> t | None \<Rightarrow>
      (case matched of Some m \<Rightarrow> (case rv_ts m of Some t \<Rightarrow> t | None \<Rightarrow> ts) | None \<Rightarrow> ts))"
  define eid where "eid = (case matched of Some m \<Rightarrow> rv_event m
      | None \<Rightarrow> deterministicTranscriptEventId sid ''user_confirmed'' cid)"
  define sb where "sb = (case matched of Some m \<Rightarrow> rv_streaming m | None \<Rightarrow> None)"
  define e where "e = \<lparr>ev_id = eid, ev_session = sid, ev_ts = cts, ev_turn = None, ev_body = UserConfirmed cid body some_is sb\<rparr>"
  obtain r s3 where r: "recordDurableTranscriptEvent sdk e s2 = (r, s3)" by (cases "recordDurableTranscriptEvent sdk e s2")
  have g3: "grows sid s2 s3" using grows_record [OF i2 r] .
  then have i3: "sp_issuer s3 = Some sid" "facts_wf (facts_view s3)" by (simp_all add: grows_def)
  let ?s5 = "s3\<lparr>sp_lastUser := Some cid, sp_serial := sp_serial s3 + 1\<rparr>"
  let ?ms = "\<lambda>t. [(''type'', Str ''user_input''), (''id'', Str cid), (''text'', Str body), (''ts'', Num t)]
      @ opt_member ''images'' images_js some_is @ opt_member ''streaming_behavior'' streaming_js sb"
  have two: "(case matched of Some m \<Rightarrow> recordedTranscriptTs g (rv_event m) s1 | None \<Rightarrow> (None, s1)) = (rts, s2)"
    using i1 by (simp add: recordedTranscriptTs_def rts_def s2_def split: option.split)
  have run: "record_user_message g sdk sid ts content s =
      (if \<not> visible_result r then s3
       else broadcast_current g (?ms (case recordedTsFor sid eid (sp_log s3) of Some x \<Rightarrow> x | None \<Rightarrow> cts)) ?s5)"
    unfolding record_user_message_def body_def [symmetric] images_def [symmetric] Let_def some_is_def [symmetric]
      c prod.case two cid_def [symmetric] cts_def [symmetric] eid_def [symmetric] sb_def [symmetric] e_def [symmetric] r
    using i3 by (simp add: recordedTranscriptTs_def)
  have g03: "grows sid s s3" using g1 g2 g3 grows_trans by blast
  show ?thesis
  proof (cases "visible_result r")
    case False
    with g03 show ?thesis by (simp add: run)
  next
    case True
    with record_facts [OF i2(2) r] obtain x where
      x: "x \<in> set (log_events (sp_log s3))" "ev_session x = sid" "ev_id x = eid"
        "recordedTsFor sid eid (sp_log s3) = Some (ev_ts x)"
      by (auto simp: e_def)
    have "grows sid ?s5 (broadcast_current g (?ms (ev_ts x)) ?s5)"
      using i3 x by (intro grows_broadcast [of _ _ x])
        (auto simp: facts_frame shows_fact_def opt_member_def split: option.split)
    moreover have "grows sid s3 ?s5" using i3 by (intro grows_fields) simp_all
    ultimately show ?thesis using True x g03 by (simp add: run) (meson grows_trans)
  qed
qed

lemma message_grows:
  assumes wf: "facts_wf (facts_view s)"
  shows "\<exists>sid. grows sid s (recordSdkMessageTranscriptEvents g sdk now m s)"
proof -
  obtain sid s1 where c: "currentRemoteSessionId g None s = (sid, s1)" by (cases "currentRemoteSessionId g None s")
  have keep: "sp_log s1 = sp_log s" "sp_out s1 = sp_out s"
    using c by (auto simp: currentRemoteSessionId_def split_beta Let_def)
  have i1: "sp_issuer s1 = Some sid" using current_sets [of g None s] c by simp
  have wf1: "facts_wf (facts_view s1)" using wf keep by (simp add: facts_view_def)
  have "grows sid s1 (recordSdkMessageTranscriptEvents g sdk now m s)"
    using grows_user [OF i1 wf1] grows_blocks [OF i1 wf1] grows_refl [OF i1 wf1]
    by (simp add: recordSdkMessageTranscriptEvents_def c Let_def)
  then have "grows sid s (recordSdkMessageTranscriptEvents g sdk now m s)"
    using keep by (simp add: grows_def)
  then show ?thesis ..
qed

text \<open>
  The phone is shown nothing that a restart would not show: in every reachable state of the
  projection, when a message of the host is taken up, whatever is sent out for it is a
  broadcast whose fact is in the log, in the same session, with the log's own
  timestamp and, for a message of the agent, under the identifier of that fact; what was sent before stays as it was, and the log holds no fact twice.
\<close>

lemma nothing_shown_before_recorded:
  fixes v :: "'d surroundings" and ops :: "projection_op list"
  shows "(\<lambda>(s :: 'd projection) s'. take (length (sp_out s)) (sp_out s') = sp_out s
       \<and> list_all (shown s') (drop (length (sp_out s)) (sp_out s'))
       \<and> distinct (map identity_of (log_events (sp_log s'))))
     (projection_run v ops (new_projection limits store))
     (projection_step v (SdkMessageOp now m) (projection_run v ops (new_projection limits store)))"
proof -
  let ?s = "projection_run v ops (new_projection limits store)"
  have wf: "facts_wf (facts_view ?s)"
    by (rule projection_run_invariant) (simp_all add: facts_wf_step, simp add: facts_wf_log new_projection_def)
  obtain sid where g: "grows sid ?s (projection_step v (SdkMessageOp now m) ?s)"
    using message_grows [OF wf, of "sr_gen v" "sr_sdk v" now m] by auto
  then obtain outs where "sp_out (projection_step v (SdkMessageOp now m) ?s) = sp_out ?s @ outs"
    "list_all (shown (projection_step v (SdkMessageOp now m) ?s)) outs" by (auto simp: grows_def)
  with g show ?thesis by (simp add: grows_def facts_wf_def facts_view_def)
qed

subsection \<open>Which histories are frames of the protocol\<close>

definition image_ok :: "wire_image \<Rightarrow> bool" where
  "image_ok i \<longleftrightarrow> img_data i \<noteq> [] \<and> img_mime i \<noteq> []"

definition usage_ok :: "wire_usage \<Rightarrow> bool" where
  "usage_ok u \<longleftrightarrow> 0 \<le> input_tokens u \<and> 0 \<le> output_tokens u"

fun history_ok :: "history_event \<Rightarrow> bool" where
  "history_ok (HistoryUserInput ts i t is sb) =
     (0 \<le> ts \<and> i \<noteq> [] \<and> pred_option (list_all image_ok) is \<and> sb = None)"
| "history_ok (HistoryAgentMessage ts r t m u) = (0 \<le> ts \<and> r \<noteq> [] \<and> pred_option usage_ok u)"
| "history_ok (HistoryToolRequest ts c t a) = (0 \<le> ts \<and> c \<noteq> [] \<and> t \<noteq> [])"
| "history_ok (HistoryToolResult ts c r) = (0 \<le> ts \<and> c \<noteq> [])"
| "history_ok (HistoryCompaction ts sm n) = (0 \<le> ts \<and> 0 \<le> n)"
| "history_ok (HistoryError ts r code m) = (0 \<le> ts \<and> r \<noteq> Some [] \<and> code \<noteq> [])"

lemma has_str_Str [simp]: "has_str (Suc 0) None (Str s) = (s \<noteq> [])" "has_str 0 None (Str s)"
  by (cases s; simp add: has_str_def)+

lemma image_shape: "has_shape (ObjOf [req ''data'' (StrShape 1 None), req ''mime'' (StrShape 1 None)]) (image_js i) = image_ok i"
  by (simp add: image_js_def image_ok_def)

lemma images_shape:
  "has_shape (ListOf 0 (ObjOf [req ''data'' (StrShape 1 None), req ''mime'' (StrShape 1 None)])) (images_js is) = list_all image_ok is"
  by (simp only: images_js_def has_shape.simps(7) js.case list.pred_map comp_def image_shape) simp

lemma usage_shape:
  "has_shape (ObjOf [req ''input_tokens'' (IntMin 0), req ''output_tokens'' (IntMin 0)]) (usage_js u) = usage_ok u"
  by (simp add: usage_js_def usage_ok_def isIntegerAtLeast_def)

lemma history_shape: "has_shape history_event_shape (history_js h) = history_ok h"
proof (cases h)
  case (HistoryUserInput ts i t imgs sb)
  then show ?thesis
    using images_shape [of "the imgs"]
    by (cases imgs; cases sb) (simp_all add: history_event_shape_def opt_member_def isIntegerAtLeast_def streaming_js_def usage_members_def images_js_def)
next
  case (HistoryAgentMessage ts r t m u)
  then show ?thesis
    using usage_shape [of "the u"]
    by (cases u) (simp_all add: history_event_shape_def opt_member_def isIntegerAtLeast_def usage_members_def usage_js_def)
next
  case (HistoryToolResult ts c r)
  then show ?thesis
    by (cases r) (auto simp add: history_event_shape_def opt_member_def isIntegerAtLeast_def split: option.split)
next
  case (HistoryError ts r code m)
  then show ?thesis
    by (cases r) (auto simp add: history_event_shape_def opt_member_def isIntegerAtLeast_def)
qed (simp_all add: history_event_shape_def isIntegerAtLeast_def)


lemma session_id_shape: "has_str (Suc 0) (Some 512) (Str sid) \<longleftrightarrow> sid \<noteq> [] \<and> length sid \<le> 512"
  by (cases sid) (auto simp: has_str_def)

lemma history_message_accepted:
  "isServerMessage (Obj (history_message r started hs trunc @ [(''session_id'', Str sid)])) =
     Some (r \<noteq> [] \<and> sid \<noteq> [] \<and> length sid \<le> 512 \<and> pred_option ((\<le>) 0) started \<and> list_all history_ok hs)"
proof -
  let ?m = "Obj (history_message r started hs trunc @ [(''session_id'', Str sid)])"
  have "isServerMessage ?m = Some (isSessionHistory ?m)"
    unfolding isServerMessage_def
    by (rule by_type_own) (simp_all add: SERVER_MESSAGE_VALIDATORS_def history_message_def)
  moreover have "isSessionHistory ?m = (r \<noteq> [] \<and> sid \<noteq> [] \<and> length sid \<le> 512 \<and> pred_option ((\<le>) 0) started
      \<and> list_all history_ok hs)"
    by (cases started) (auto simp add: isSessionHistory_def history_message_def list.pred_map comp_def history_shape
        session_id_shape isIntegerAtLeast_def)
  ultimately show ?thesis by simp
qed

text \<open>
  C21. When the history answer is a frame of the protocol: the generated validator accepts the
  message that \<open>buildSessionHistoryMessage\<close> makes exactly when the request and the session
  have ids, the times are not negative, every event has its ids, images and counts, and
  no user message of the window was steered. One steered message makes the receiver turn
  away the whole history, because the event carries \<open>streaming_behavior\<close> and the validator
  knows no such member.
\<close>

theorem history_frame_accepted:
  fixes s :: "'d projection"
  shows "(case currentRemoteSessionId gen None s of (sid, s1) \<Rightarrow>
      let p = projectSessionHistory sid (forSession sid (sp_log s1))
                (min (case limit of Some n \<Rightarrow> n | None \<Rightarrow> syncLimit env) (syncLimit env))
      in isServerMessage (fst (buildSessionHistoryMessage gen env r limit s)) =
           Some (r \<noteq> [] \<and> sid \<noteq> [] \<and> length sid \<le> 512 \<and> pred_option ((\<le>) 0) (sp_started s)
             \<and> list_all history_ok (hp_events p)))"
proof -
  obtain sid s1 where c: "currentRemoteSessionId gen None s = (sid, s1)" by (cases "currentRemoteSessionId gen None s")
  have i: "sp_issuer s1 = Some sid" using current_sets [of gen None s] c by simp
  have st: "sp_started s1 = sp_started s" using c by (auto simp: currentRemoteSessionId_def split_beta Let_def)
  show ?thesis
    by (simp add: c i st buildSessionHistoryMessage_def currentSessionMessage_def Let_def history_message_accepted)
qed

end
