(* ===== verification/Coordinator.thy ===== *)
theory Coordinator imports Prelude
begin

text \<open>
  \<open>extension/runtime_coordinator.ts\<close>: the authority of a process over the phone-facing
  binding. Every extension factory is given a lease, also the factories of child agent
  sessions; only the lease the coordinator has activated owns the binding, and only it
  can shut it down.

  A lease is its number, which stands for the frozen object's identity; an API object
  and an event bus are known by a number too. \<open>on\<close> registers the two handlers of child
  sessions, which are operations of their own here.
\<close>

subsection \<open>State\<close>

datatype lifecycle_reason = Startup | Reload | NewReason | Resume | Fork | Quit

datatype lease_disposition = CandidateLease | SatelliteLease | OwnerLease

datatype coordinator_state =
    Unowned
  | Candidate nat
  | Active nat string nat
  | Replacing nat lifecycle_reason "nat option"
  | Disposed

record coordinator =
  co_state :: coordinator_state
  co_leases :: "(nat, lease_disposition) omap"
  co_children :: "string list"
  co_buses :: "nat list"
  co_next :: nat

definition new_coordinator :: coordinator where
  "new_coordinator = \<lparr>co_state = Unowned, co_leases = [], co_children = [], co_buses = [], co_next = 0\<rparr>"

subsection \<open>Operations\<close>

definition acquireFactory :: "coordinator \<Rightarrow> nat \<times> coordinator" where
  "acquireFactory c =
    (let l = co_next c; c' = c\<lparr>co_next := l + 1\<rparr> in
     (l, case co_state c of
           Unowned \<Rightarrow> c'\<lparr>co_state := Candidate l, co_leases := omap_put (co_leases c) l CandidateLease\<rparr>
         | Replacing p r None \<Rightarrow>
             c'\<lparr>co_state := Replacing p r (Some l), co_leases := omap_put (co_leases c) l CandidateLease\<rparr>
         | _ \<Rightarrow> c'\<lparr>co_leases := omap_put (co_leases c) l SatelliteLease\<rparr>))"

definition childSessionId :: "js \<Rightarrow> string option" where
  "childSessionId payload = (if \<not> is_object payload then None else case jfield payload ''sessionId'' of
     Str s \<Rightarrow> (if 0 < length s then Some s else None)
   | _ \<Rightarrow> None)"

definition observeChildLifecycle :: "nat \<Rightarrow> coordinator \<Rightarrow> coordinator" where
  "observeChildLifecycle bus c = (if bus \<in> set (co_buses c) then c else c\<lparr>co_buses := bus # co_buses c\<rparr>)"

text \<open>The handlers of a bus that was subscribed.\<close>

definition child_created :: "nat \<Rightarrow> js \<Rightarrow> coordinator \<Rightarrow> coordinator" where
  "child_created bus payload c = (if bus \<notin> set (co_buses c) then c else case childSessionId payload of
     None \<Rightarrow> c
   | Some s \<Rightarrow> c\<lparr>co_children := oset_add (co_children c) s\<rparr>)"

definition child_disposed :: "nat \<Rightarrow> js \<Rightarrow> coordinator \<Rightarrow> coordinator" where
  "child_disposed bus payload c = (if bus \<notin> set (co_buses c) then c else case childSessionId payload of
     None \<Rightarrow> c
   | Some s \<Rightarrow> c\<lparr>co_children := filter (\<lambda>x. x \<noteq> s) (co_children c)\<rparr>)"

definition isOwner :: "nat \<Rightarrow> coordinator \<Rightarrow> bool" where
  "isOwner l c = (case co_state c of Active owner _ _ \<Rightarrow> owner = l | _ \<Rightarrow> False)"

definition isReplacing :: "coordinator \<Rightarrow> bool" where
  "isReplacing c = (case co_state c of Replacing _ _ _ \<Rightarrow> True | _ \<Rightarrow> False)"

definition rejectCandidate :: "nat \<Rightarrow> coordinator \<Rightarrow> coordinator" where
  "rejectCandidate l c =
    (if isOwner l c then c
     else let c1 = c\<lparr>co_leases := omap_put (co_leases c) l SatelliteLease\<rparr> in
       case co_state c of
         Candidate k \<Rightarrow> (if k = l then c1\<lparr>co_state := Unowned\<rparr> else c1)
       | Replacing p r k \<Rightarrow> (if k = Some l then c1\<lparr>co_state := Replacing p r None\<rparr> else c1)
       | _ \<Rightarrow> c1)"

datatype activation = Activated | DuplicateActivation | DeniedChild | DeniedSatellite | DeniedDisposed

definition activate :: "nat \<Rightarrow> string \<Rightarrow> nat \<Rightarrow> coordinator \<Rightarrow> activation \<times> coordinator" where
  "activate l sid api c =
    (let owned = (case co_state c of Active owner s _ \<Rightarrow> owner = l \<and> s = sid | _ \<Rightarrow> False) in
     if co_state c = Disposed then (DeniedDisposed, c)
     else if owned then (DuplicateActivation, c)
     else if sid \<in> set (co_children c) then (DeniedChild, rejectCandidate l c)
     else if isOwner l c then (Activated, c\<lparr>co_state := Active l sid api\<rparr>)
     else if map_of (co_leases c) l \<noteq> Some CandidateLease then (DeniedSatellite, c)
     else if (case co_state c of Candidate k \<Rightarrow> k \<noteq> l | Replacing _ _ k \<Rightarrow> k \<noteq> Some l | _ \<Rightarrow> False)
       then (DeniedSatellite, c)
     else (Activated, c\<lparr>co_leases := omap_put (co_leases c) l OwnerLease, co_state := Active l sid api\<rparr>))"

definition beginShutdown :: "nat \<Rightarrow> lifecycle_reason \<Rightarrow> coordinator \<Rightarrow> bool \<times> coordinator" where
  "beginShutdown l reason c =
    (if \<not> isOwner l c then (False, c)
     else if reason = Quit \<or> reason = Startup then (True, c\<lparr>co_state := Disposed\<rparr>)
     else (True, c\<lparr>co_state := Replacing l reason None\<rparr>))"

text \<open>\<open>snapshot\<close>: the kind, the session when active, and the number of children.\<close>

definition snapshot :: "coordinator \<Rightarrow> string \<times> string option \<times> nat" where
  "snapshot c =
    ((case co_state c of Unowned \<Rightarrow> ''UNOWNED'' | Candidate _ \<Rightarrow> ''CANDIDATE'' | Active _ _ _ \<Rightarrow> ''ACTIVE''
      | Replacing _ _ _ \<Rightarrow> ''REPLACING'' | Disposed \<Rightarrow> ''DISPOSED''),
     (case co_state c of Active _ s _ \<Rightarrow> Some s | _ \<Rightarrow> None), length (co_children c))"

subsection \<open>Runs\<close>

datatype coordinator_op =
    AcquireOp
  | ObserveOp nat
  | ChildCreatedOp nat js
  | ChildDisposedOp nat js
  | ActivateOp nat string nat
  | ShutdownOp nat lifecycle_reason

fun coordinator_step :: "coordinator_op \<Rightarrow> coordinator \<Rightarrow> coordinator" where
  "coordinator_step AcquireOp c = snd (acquireFactory c)"
| "coordinator_step (ObserveOp b) c = observeChildLifecycle b c"
| "coordinator_step (ChildCreatedOp b p) c = child_created b p c"
| "coordinator_step (ChildDisposedOp b p) c = child_disposed b p c"
| "coordinator_step (ActivateOp l s a) c = snd (activate l s a c)"
| "coordinator_step (ShutdownOp l r) c = snd (beginShutdown l r c)"

inductive coordinator_reachable :: "coordinator \<Rightarrow> coordinator \<Rightarrow> bool" for c where
  here: "coordinator_reachable c c"
| later: "coordinator_reachable c d \<Longrightarrow> coordinator_reachable c (coordinator_step op d)"

inductive_cases reachable_cases: "coordinator_reachable c d"

subsection \<open>Candidates\<close>

text \<open>
  The one lease with a candidate's disposition is the candidate of the state, and the
  owner of an active state holds an owner's lease; both were handed out.
\<close>

fun state_candidate :: "coordinator_state \<Rightarrow> nat option" where
  "state_candidate (Candidate l) = Some l"
| "state_candidate (Replacing _ _ k) = k"
| "state_candidate _ = None"

fun state_owner :: "coordinator_state \<Rightarrow> nat option" where
  "state_owner (Active l _ _) = Some l"
| "state_owner _ = None"

lemma isOwner_state: "isOwner l c \<longleftrightarrow> state_owner (co_state c) = Some l"
  by (cases "co_state c") (auto simp: isOwner_def)

definition coordinator_wf :: "coordinator \<Rightarrow> bool" where
  "coordinator_wf c \<longleftrightarrow>
     (\<forall>l. map_of (co_leases c) l = Some CandidateLease \<longleftrightarrow> state_candidate (co_state c) = Some l)
     \<and> (\<forall>l. state_owner (co_state c) = Some l \<longrightarrow> map_of (co_leases c) l = Some OwnerLease \<and> l < co_next c)
     \<and> (\<forall>l. state_candidate (co_state c) = Some l \<longrightarrow> l < co_next c)"

lemma wf_new_coordinator: "coordinator_wf new_coordinator"
  by (simp add: coordinator_wf_def new_coordinator_def)

lemma wf_acquire:
  assumes "coordinator_wf c" shows "coordinator_wf (snd (acquireFactory c))"
proof (cases "co_state c")
  case (Replacing p r k)
  with assms show ?thesis by (cases k) (auto simp: coordinator_wf_def acquireFactory_def Let_def)
qed (use assms in \<open>auto simp: coordinator_wf_def acquireFactory_def Let_def\<close>)

lemma wf_reject:
  assumes "coordinator_wf c" shows "coordinator_wf (rejectCandidate l c)"
proof (cases "co_state c")
  case (Replacing p r k)
  with assms show ?thesis by (cases "k = Some l") (auto simp: coordinator_wf_def rejectCandidate_def isOwner_def Let_def)
qed (use assms in \<open>auto simp: coordinator_wf_def rejectCandidate_def isOwner_def Let_def\<close>)

lemma activate_cases:
  obtains "activate l sid api c = (DeniedDisposed, c)" "co_state c = Disposed"
  | "activate l sid api c = (DuplicateActivation, c)" "isOwner l c"
  | "activate l sid api c = (DeniedChild, rejectCandidate l c)" "sid \<in> set (co_children c)" "co_state c \<noteq> Disposed"
  | "activate l sid api c = (DeniedSatellite, c)" "co_state c \<noteq> Disposed"
  | "activate l sid api c = (Activated, c\<lparr>co_state := Active l sid api\<rparr>)" "isOwner l c" "sid \<notin> set (co_children c)"
  | "activate l sid api c = (Activated, c\<lparr>co_leases := omap_put (co_leases c) l OwnerLease, co_state := Active l sid api\<rparr>)"
    "\<not> isOwner l c" "map_of (co_leases c) l = Some CandidateLease" "sid \<notin> set (co_children c)" "co_state c \<noteq> Disposed"
proof -
  let ?owned = "case co_state c of Active owner s _ \<Rightarrow> owner = l \<and> s = sid | _ \<Rightarrow> False"
  have owned: "?owned \<Longrightarrow> isOwner l c" by (auto simp: isOwner_def split: coordinator_state.splits)
  consider "co_state c = Disposed" | "co_state c \<noteq> Disposed" "?owned"
    | "co_state c \<noteq> Disposed" "\<not> ?owned" "sid \<in> set (co_children c)"
    | "co_state c \<noteq> Disposed" "\<not> ?owned" "sid \<notin> set (co_children c)" "isOwner l c"
    | "co_state c \<noteq> Disposed" "\<not> ?owned" "sid \<notin> set (co_children c)" "\<not> isOwner l c" by blast
  then show thesis
  proof cases
    case 5
    then show thesis
      using that(4,6)
      by (cases "map_of (co_leases c) l = Some CandidateLease \<and>
            \<not> (case co_state c of Candidate k \<Rightarrow> k \<noteq> l | Replacing _ _ k \<Rightarrow> k \<noteq> Some l | _ \<Rightarrow> False)")
        (simp_all add: activate_def Let_def)
  qed (use that(1-5) owned in \<open>simp_all add: activate_def Let_def\<close>)
qed

lemma wf_activate:
  assumes "coordinator_wf c" shows "coordinator_wf (snd (activate l sid api c))"
proof (cases rule: activate_cases [of l sid api c])
  case 6
  then have "state_candidate (co_state c) = Some l" using assms by (auto simp: coordinator_wf_def)
  with 6 assms show ?thesis by (auto simp: coordinator_wf_def)
next
  case 5
  then show ?thesis using assms by (cases "co_state c") (auto simp: coordinator_wf_def isOwner_def)
qed (use assms wf_reject in auto)

lemma wf_coordinator_step: "coordinator_wf c \<Longrightarrow> coordinator_wf (coordinator_step op c)"
proof (cases op)
  case (ShutdownOp l r)
  then show "coordinator_wf c \<Longrightarrow> ?thesis"
    by (cases "co_state c") (auto simp: beginShutdown_def isOwner_def coordinator_wf_def)
next
  case AcquireOp
  then show "coordinator_wf c \<Longrightarrow> ?thesis" by (simp add: wf_acquire)
next
  case (ActivateOp l s a)
  then show "coordinator_wf c \<Longrightarrow> ?thesis" by (simp add: wf_activate)
qed (auto simp: observeChildLifecycle_def child_created_def child_disposed_def coordinator_wf_def split: option.splits)

text \<open>Whoever reached a state from one with an owner: the owner itself, or a lease handed out later.\<close>

definition heir_of :: "nat \<Rightarrow> nat \<Rightarrow> coordinator \<Rightarrow> bool" where
  "heir_of l n c \<longleftrightarrow> coordinator_wf c \<and> n \<le> co_next c \<and> co_state c \<noteq> Unowned
     \<and> (\<forall>k. co_state c \<noteq> Candidate k)
     \<and> (\<forall>k. state_candidate (co_state c) = Some k \<longrightarrow> n \<le> k)
     \<and> (\<forall>k. state_owner (co_state c) = Some k \<longrightarrow> k = l \<or> n \<le> k)"

lemma heir_here: "coordinator_wf c \<Longrightarrow> isOwner l c \<Longrightarrow> heir_of l (co_next c) c"
  by (cases "co_state c") (auto simp: heir_of_def isOwner_def)

lemma heir_step:
  assumes h: "heir_of l n c" shows "heir_of l n (coordinator_step op c)"
proof -
  have wf: "coordinator_wf (coordinator_step op c)" using h by (simp add: heir_of_def wf_coordinator_step)
  show ?thesis
  proof (cases op)
    case AcquireOp
    with h wf show ?thesis
      by (auto simp: heir_of_def acquireFactory_def Let_def split: coordinator_state.splits option.splits)
  next
    case (ActivateOp k sid api)
    show ?thesis
    proof (cases rule: activate_cases [of k sid api c])
      case 3
      have "co_next (rejectCandidate k c) = co_next c"
        "co_state (rejectCandidate k c) = co_state c
         \<or> (\<exists>p r x. co_state c = Replacing p r x \<and> co_state (rejectCandidate k c) = Replacing p r None)"
        using h by (auto simp: heir_of_def rejectCandidate_def Let_def split: coordinator_state.splits)
      with 3 h wf ActivateOp show ?thesis by (elim disjE exE conjE) (simp_all add: heir_of_def)
    next
      case 6
      then have "state_candidate (co_state c) = Some k" using h by (auto simp: heir_of_def coordinator_wf_def)
      with 6 h wf ActivateOp show ?thesis by (auto simp: heir_of_def)
    next
      case 5
      with h wf ActivateOp show ?thesis by (auto simp: heir_of_def isOwner_state)
    qed (use h wf ActivateOp in auto)
  next
    case (ShutdownOp k r)
    with h wf show ?thesis by (auto simp: heir_of_def beginShutdown_def split: if_splits)
  qed (use h wf in \<open>auto simp: heir_of_def observeChildLifecycle_def child_created_def child_disposed_def
      split: option.splits\<close>)
qed

lemma heir_reachable: "coordinator_reachable c d \<Longrightarrow> heir_of l n c \<Longrightarrow> heir_of l n d"
  by (induction rule: coordinator_reachable.induct) (simp_all add: heir_step)

lemma coordinator_stays_wf: "coordinator_reachable c d \<Longrightarrow> coordinator_wf c \<Longrightarrow> coordinator_wf d"
  by (induction rule: coordinator_reachable.induct) (simp_all add: wf_coordinator_step)

lemma reachable_trans: "coordinator_reachable d e \<Longrightarrow> coordinator_reachable c d \<Longrightarrow> coordinator_reachable c e"
  by (induction rule: coordinator_reachable.induct) (auto intro: coordinator_reachable.intros)

lemma disposed_forever: "coordinator_reachable c d \<Longrightarrow> co_state c = Disposed \<Longrightarrow> co_state d = Disposed"
proof (induction rule: coordinator_reachable.induct)
  case (later d op)
  then show ?case
    by (cases op) (auto simp: acquireFactory_def observeChildLifecycle_def child_created_def child_disposed_def
        activate_def beginShutdown_def isOwner_def Let_def split: option.splits)
qed

lemma reachable_run: "coordinator_reachable c (fold coordinator_step ops c)"
  by (induction ops rule: rev_induct) (simp_all add: coordinator_reachable.intros)

lemma activate_authority:
  "case activate k sid api d of
     (Activated, e) \<Rightarrow> isOwner k e \<and> sid \<notin> set (co_children d)
        \<and> (isOwner k d \<or> map_of (co_leases d) k = Some CandidateLease)
   | (_, e) \<Rightarrow> (\<forall>j. isOwner j e \<longleftrightarrow> isOwner j d)"
proof (cases rule: activate_cases [of k sid api d])
  case 3
  then show ?thesis by (auto simp: rejectCandidate_def isOwner_def Let_def split: coordinator_state.splits)
qed (auto simp: isOwner_state)

text \<open>
  C22. Authority over the phone is handed over, never taken: from any reachable state on, whoever
  owns the binding later is the owner of now or holds a lease handed out after now, so no
  factory that existed beside the owner, a child agent's in particular, replaces it; a
  disposed coordinator stays disposed; a shutdown by anyone but the owner changes
  nothing; and an activation makes an owner only of the owner itself or of a candidate,
  and never for the session of a known child.
\<close>

theorem owner_keeps_authority:
  assumes "coordinator_reachable new_coordinator c" and "coordinator_reachable c d"
  shows "(case (co_state c, co_state d) of
      (Active l _ _, Active l' _ _) \<Rightarrow> l' = l \<or> co_next c \<le> l'
    | (Disposed, st) \<Rightarrow> st = Disposed
    | _ \<Rightarrow> True)
    \<and> (isOwner k d \<or> beginShutdown k r d = (False, d))
    \<and> (case activate k sid api d of
        (Activated, e) \<Rightarrow> isOwner k e \<and> sid \<notin> set (co_children d)
           \<and> (isOwner k d \<or> map_of (co_leases d) k = Some CandidateLease)
      | (_, e) \<Rightarrow> (\<forall>j. isOwner j e \<longleftrightarrow> isOwner j d))"
proof -
  have "coordinator_wf c" using assms(1) wf_new_coordinator by (rule coordinator_stays_wf)
  then have "heir_of l (co_next c) d" if "isOwner l c" for l
    using that assms(2) heir_here heir_reachable by blast
  then have "case (co_state c, co_state d) of
      (Active l _ _, Active l' _ _) \<Rightarrow> l' = l \<or> co_next c \<le> l'
    | (Disposed, st) \<Rightarrow> st = Disposed
    | _ \<Rightarrow> True"
    using disposed_forever [OF assms(2)]
    by (cases "co_state c"; cases "co_state d") (auto simp: isOwner_state heir_of_def)
  then show ?thesis by (simp add: activate_authority beginShutdown_def)
qed

theorem owner_keeps_authority_witness:
  "(\<lambda>c d. co_state c = Active 0 ''s1'' 7 \<and> co_state d = Active 2 ''s2'' 8 \<and> co_next c \<le> 2
     \<and> beginShutdown 1 Quit d = (False, d))
   (fold coordinator_step [AcquireOp, AcquireOp, ActivateOp 0 ''s1'' 7] new_coordinator)
   (fold coordinator_step [ShutdownOp 0 Reload, AcquireOp, ActivateOp 1 ''s2'' 9, ActivateOp 2 ''s2'' 8]
     (fold coordinator_step [AcquireOp, AcquireOp, ActivateOp 0 ''s1'' 7] new_coordinator))"
proof -
  let ?c = "fold coordinator_step [AcquireOp, AcquireOp, ActivateOp 0 ''s1'' 7] new_coordinator"
  let ?d = "fold coordinator_step [ShutdownOp 0 Reload, AcquireOp, ActivateOp 1 ''s2'' 9, ActivateOp 2 ''s2'' 8] ?c"
  have "co_state ?c = Active 0 ''s1'' 7" "co_state ?d = Active 2 ''s2'' 8" "\<not> isOwner 1 ?d"
    by (simp_all add: new_coordinator_def acquireFactory_def activate_def beginShutdown_def isOwner_def Let_def)
  with owner_keeps_authority [OF reachable_run [of _ "[AcquireOp, AcquireOp, ActivateOp 0 ''s1'' 7]"]
      reachable_run [of "?c" "[ShutdownOp 0 Reload, AcquireOp, ActivateOp 1 ''s2'' 9, ActivateOp 2 ''s2'' 8]"], of 1 Quit "''s2''" 9]
  show ?thesis by auto
qed

end
