(* ===== verification/Bytes.thy ===== *)
theory Bytes imports Prelude
begin

text \<open>
  Bytes and their texts: Base64 as the program's \<open>Buffer\<close> reads and writes it, with the
  checks the program makes around it (\<open>mesh/encoding.ts\<close>, the bounded decoder of
  \<open>protocol/relay_ingress.ts\<close>, the canonical length of
  \<open>actions/capture_upload_handler.ts\<close>), little-endian integers, and UTF-8.

  \<open>Buffer.from(s, "base64")\<close> takes both alphabets, skips what belongs to neither, stops
  at the padding and drops a last character that makes no byte.
\<close>

subsection \<open>Base64\<close>

type_synonym bytes = "8 word list"

abbreviation byte :: "nat \<Rightarrow> 8 word" where
  "byte n \<equiv> word_of_nat n"

lemma unat_byte_mod [simp]: "unat (byte n) = n mod 256"
  by (simp add: unat_of_nat)

lemma unat_byte_lt [simp]: "unat (x :: 8 word) < 256"
  using unsigned_less [where 'a = nat, of x] by simp

definition base64Value :: "char \<Rightarrow> nat option" where
  "base64Value c = (let code = of_char c :: nat in
     if 65 \<le> code \<and> code \<le> 90 then Some (code - 65)
     else if 97 \<le> code \<and> code \<le> 122 then Some (code - 71)
     else if 48 \<le> code \<and> code \<le> 57 then Some (code + 4)
     else if c = CHR ''+'' then Some 62
     else if c = CHR ''/'' then Some 63
     else None)"

definition base64_char :: "nat \<Rightarrow> char" where
  "base64_char n =
     (if n < 26 then char_of (n + 65) else if n < 52 then char_of (n + 71)
      else if n < 62 then char_of (n - 4) else if n = 62 then CHR ''+'' else CHR ''/'')"

fun bytes_sextets :: "bytes \<Rightarrow> nat list" where
  "bytes_sextets [] = []"
| "bytes_sextets [x] = [unat x div 4, (unat x mod 4) * 16]"
| "bytes_sextets [x, y] = [unat x div 4, (unat x mod 4) * 16 + unat y div 16, (unat y mod 16) * 4]"
| "bytes_sextets (x # y # z # r) =
     [unat x div 4, (unat x mod 4) * 16 + unat y div 16, (unat y mod 16) * 4 + unat z div 64, unat z mod 64]
     @ bytes_sextets r"

fun sextets_bytes :: "nat list \<Rightarrow> bytes" where
  "sextets_bytes (a # b # c # d # r) =
     [byte (a * 4 + b div 16), byte ((b mod 16) * 16 + c div 4), byte ((c mod 4) * 64 + d)] @ sextets_bytes r"
| "sextets_bytes [a, b, c] = [byte (a * 4 + b div 16), byte ((b mod 16) * 16 + c div 4)]"
| "sextets_bytes [a, b] = [byte (a * 4 + b div 16)]"
| "sextets_bytes _ = []"

text \<open>\<open>buffer.toString("base64")\<close>\<close>

definition base64_encode :: "bytes \<Rightarrow> string" where
  "base64_encode bs = map base64_char (bytes_sextets bs) @ replicate ((3 - length bs mod 3) mod 3) CHR ''=''"

definition url_normal :: "char \<Rightarrow> char" where
  "url_normal c = (if c = CHR ''-'' then CHR ''+'' else if c = CHR ''_'' then CHR ''/'' else c)"

text \<open>\<open>Buffer.from(s, "base64")\<close>\<close>

definition base64_decode :: "string \<Rightarrow> bytes" where
  "base64_decode s =
     sextets_bytes (List.map_filter base64Value (map url_normal (takeWhile (\<lambda>c. c \<noteq> CHR ''='') s)))"

definition padding :: "nat \<Rightarrow> nat" where
  "padding n = (4 - n mod 4) mod 4"

definition decodeB64Any :: "string \<Rightarrow> bytes" where
  "decodeB64Any s =
     (let normalized = map url_normal s
      in base64_decode (normalized @ replicate (padding (length normalized)) CHR ''=''))"

fun bytesEqual :: "bytes \<Rightarrow> bytes \<Rightarrow> bool" where
  "bytesEqual [] [] = True"
| "bytesEqual (x # xs) (y # ys) = (x = y \<and> bytesEqual xs ys)"
| "bytesEqual _ _ = False"

lemma bytesEqual_iff [simp]: "bytesEqual xs ys \<longleftrightarrow> xs = ys"
  by (induction xs ys rule: bytesEqual.induct) auto

subsection \<open>Round trips\<close>

lemma value_char [simp]: "n < 64 \<Longrightarrow> base64Value (base64_char n) = Some n"
proof -
  assume "n < 64"
  then consider "n < 26" | "26 \<le> n" "n < 52" | "52 \<le> n" "n < 62" | "n = 62" | "n = 63" by linarith
  then show ?thesis by cases (auto simp: base64Value_def base64_char_def Let_def)
qed

lemma char_value: "base64Value c = Some n \<Longrightarrow> base64_char n = c \<and> n < 64"
  by (auto simp: base64Value_def base64_char_def Let_def split: if_splits)

lemma char_plain [simp]: "n < 64 \<Longrightarrow> base64_char n \<noteq> CHR ''='' \<and> url_normal (base64_char n) = base64_char n"
proof -
  assume n: "n < 64"
  have "base64Value (CHR ''='') = None" "base64Value (CHR ''-'') = None" "base64Value (CHR ''_'') = None"
    by (simp_all add: base64Value_def)
  with value_char [OF n] show ?thesis by (auto simp: url_normal_def)
qed

lemma byte_fields:
  "unat x div 4 < 64" "(unat x mod 4) * 16 < 64" "(unat x mod 16) * 4 < 64" "unat x mod 64 < 64"
  "(unat x mod 4) * 16 + unat y div 16 < 64" "(unat x mod 16) * 4 + unat y div 64 < 64" for x y :: "8 word"
  using unat_byte_lt [of x] unat_byte_lt [of y] by linarith+

lemma sextets_small: "n \<in> set (bytes_sextets bs) \<Longrightarrow> n < 64"
  by (induction bs rule: bytes_sextets.induct) (auto simp: byte_fields)

lemma byte_back: "byte (unat x) = x"
  by simp

lemma high_low: "q < k \<Longrightarrow> (m * k + q) div k = m" "q < k \<Longrightarrow> (m * k + q) mod k = q" for m q k :: nat
  by auto

lemma byte_joins:
  "unat x div 4 * 4 + ((unat x mod 4) * 16 + unat y div 16) div 16 = unat x"
  "((unat x mod 4) * 16 + unat y div 16) mod 16 * 16 + ((unat y mod 16) * 4 + unat z div 64) div 4 = unat y"
  "((unat y mod 16) * 4 + unat z div 64) mod 4 * 64 + unat z mod 64 = unat z"
  "unat x div 4 * 4 + (unat x mod 4) * 16 div 16 = unat x"
  "((unat x mod 4) * 16 + unat y div 16) mod 16 * 16 + (unat y mod 16) * 4 div 4 = unat y" for x y z :: "8 word"
proof -
  have "unat y div 16 < 16" "unat z div 64 < 4" using unat_byte_lt [of y] unat_byte_lt [of z] by linarith+
  then show "unat x div 4 * 4 + ((unat x mod 4) * 16 + unat y div 16) div 16 = unat x"
    "((unat x mod 4) * 16 + unat y div 16) mod 16 * 16 + ((unat y mod 16) * 4 + unat z div 64) div 4 = unat y"
    "((unat y mod 16) * 4 + unat z div 64) mod 4 * 64 + unat z mod 64 = unat z"
    "((unat x mod 4) * 16 + unat y div 16) mod 16 * 16 + (unat y mod 16) * 4 div 4 = unat y"
    by (simp_all only: high_low div_mult_mod_eq div_mult_self_is_m zero_less_numeral)
qed simp

lemma sextets_round_trip [simp]: "sextets_bytes (bytes_sextets bs) = bs"
  by (induction bs rule: bytes_sextets.induct)
    (simp_all only: bytes_sextets.simps sextets_bytes.simps append.simps byte_joins byte_back)

lemma takeWhile_encoded:
  "takeWhile (\<lambda>c. c \<noteq> CHR ''='') (map base64_char (bytes_sextets bs) @ replicate k CHR ''='') = map base64_char (bytes_sextets bs)"
  by (cases k) (auto simp: takeWhile_append takeWhile_eq_all_conv dest: sextets_small)

lemma decode_chars: "(\<And>n. n \<in> set ns \<Longrightarrow> n < 64) \<Longrightarrow>
    List.map_filter base64Value (map url_normal (map base64_char ns)) = ns"
  by (induction ns) (auto simp: List.map_filter_simps)

lemma base64_round_trip [simp]: "base64_decode (base64_encode bs) = bs"
  by (simp only: base64_decode_def base64_encode_def takeWhile_encoded decode_chars sextets_small sextets_round_trip)

subsection \<open>Canonical Base64\<close>

abbreviation plain64 :: "char \<Rightarrow> bool" where
  "plain64 c \<equiv> base64Value c \<noteq> None"

text \<open>\<open>/^(?:[A-Za-z0-9+/]{4})*(?:[A-Za-z0-9+/]{2}==|[A-Za-z0-9+/]{3}=)?$/\<close>\<close>

fun base64_re :: "string \<Rightarrow> bool" where
  "base64_re [] = True"
| "base64_re [a, b, c, d] =
     (plain64 a \<and> plain64 b \<and> (plain64 c \<and> (plain64 d \<or> d = CHR ''='') \<or> c = CHR ''='' \<and> d = CHR ''=''))"
| "base64_re (a # b # c # d # e # r) = (plain64 a \<and> plain64 b \<and> plain64 c \<and> plain64 d \<and> base64_re (e # r))"
| "base64_re _ = False"

definition pad_length :: "string \<Rightarrow> nat" where
  "pad_length s = (if ends_with s ''=='' then 2 else if ends_with s ''='' then 1 else 0)"

definition canonicalBase64DecodedLength :: "string \<Rightarrow> nat option" where
  "canonicalBase64DecodedLength payload =
    (if \<not> base64_re payload \<or> length payload = 0 then None
     else let pad = pad_length payload in
       case base64Value (payload ! (length payload - pad - 1)) of
         None \<Rightarrow> None
       | Some v \<Rightarrow> (if pad = 2 \<and> v mod 16 \<noteq> 0 \<or> pad = 1 \<and> v mod 4 \<noteq> 0 then None
                    else Some (length payload div 4 * 3 - pad)))"

lemma encode_block: "base64_encode (x # y # z # r) =
    map base64_char [unat x div 4, (unat x mod 4) * 16 + unat y div 16, (unat y mod 16) * 4 + unat z div 64, unat z mod 64]
    @ base64_encode r"
  by (simp add: base64_encode_def)

lemma plain_not_pad [simp]: "base64Value c = Some n \<Longrightarrow> c \<noteq> CHR ''=''"
  by (auto simp: base64Value_def)

lemma plain_normal [simp]: "base64Value c = Some n \<Longrightarrow> url_normal c = c"
  by (auto simp: base64Value_def url_normal_def split: if_splits)

lemma decode_block:
  "base64Value a = Some i \<Longrightarrow> base64Value b = Some j \<Longrightarrow> base64Value c = Some k \<Longrightarrow> base64Value d = Some l \<Longrightarrow>
   base64_decode (a # b # c # d # r) =
     [byte (i * 4 + j div 16), byte ((j mod 16) * 16 + k div 4), byte ((k mod 4) * 64 + l)] @ base64_decode r"
  by (simp add: base64_decode_def List.map_filter_simps)

lemma encode_matches: "base64_re (base64_encode bs)"
proof (induction bs rule: bytes_sextets.induct)
  case (4 x y z r)
  have "base64_re (map base64_char [unat x div 4, (unat x mod 4) * 16 + unat y div 16, (unat y mod 16) * 4 + unat z div 64, unat z mod 64] @ t)"
    if "base64_re t" for t using that by (cases t) (simp_all add: byte_fields)
  with 4 show ?case by (simp add: encode_block)
qed (simp_all add: base64_encode_def byte_fields numeral_2_eq_2)

lemma three_bytes:
  assumes "i < 64" "j < 64" "k < 64" "l < 64"
  shows "unat (byte (i * 4 + j div 16)) div 4 = i"
    "unat (byte (i * 4 + j div 16)) mod 4 * 16 + unat (byte (j mod 16 * 16 + k div 4)) div 16 = j"
    "unat (byte (j mod 16 * 16 + k div 4)) mod 16 * 4 + unat (byte (k mod 4 * 64 + l)) div 64 = k"
    "unat (byte (k mod 4 * 64 + l)) mod 64 = l"
proof -
  have q: "j div 16 < 4" "k div 4 < 16" "i * 4 + j div 16 < 256" "j mod 16 * 16 + k div 4 < 256" "k mod 4 * 64 + l < 256"
    using assms by linarith+
  then have u: "unat (byte (i * 4 + j div 16)) = i * 4 + j div 16"
    "unat (byte (j mod 16 * 16 + k div 4)) = j mod 16 * 16 + k div 4" "unat (byte (k mod 4 * 64 + l)) = k mod 4 * 64 + l"
    by (simp_all only: unat_byte_mod mod_less)
  show "unat (byte (i * 4 + j div 16)) div 4 = i"
    "unat (byte (i * 4 + j div 16)) mod 4 * 16 + unat (byte (j mod 16 * 16 + k div 4)) div 16 = j"
    "unat (byte (j mod 16 * 16 + k div 4)) mod 16 * 4 + unat (byte (k mod 4 * 64 + l)) div 64 = k"
    "unat (byte (k mod 4 * 64 + l)) mod 64 = l"
    unfolding u using q assms by (simp_all only: high_low div_mult_mod_eq)
qed

lemma reencode_block:
  assumes "base64Value a = Some i" "base64Value b = Some j" "base64Value c = Some k" "base64Value d = Some l"
  shows "base64_encode (base64_decode (a # b # c # d # r)) = a # b # c # d # base64_encode (base64_decode r)"
proof -
  have v: "base64_char i = a" "base64_char j = b" "base64_char k = c" "base64_char l = d" and s: "i < 64" "j < 64" "k < 64" "l < 64"
    using assms char_value by blast+
  show ?thesis
    unfolding decode_block [OF assms] append.simps encode_block three_bytes [OF s] by (simp add: v)
qed

lemma ends_with_suffix: "length p \<le> length r \<Longrightarrow> ends_with (q @ r) p = ends_with r p"
  by (simp add: ends_with_def)

lemma pad_length_block: "4 \<le> length r \<Longrightarrow> pad_length (a # b # c # d # r) = pad_length r"
  using ends_with_suffix [of "''==''" r "[a, b, c, d]"] ends_with_suffix [of "''=''" r "[a, b, c, d]"]
  by (simp add: pad_length_def)

lemma base64_re_length: "base64_re s \<Longrightarrow> s = [] \<or> 4 \<le> length s"
  by (induction s rule: base64_re.induct) auto

lemma pad_small: "pad_length s \<le> 2"
  by (simp add: pad_length_def)

lemma canonical_block:
  assumes "base64Value a = Some i" "base64Value b = Some j" "base64Value c = Some k" "base64Value d = Some l"
    and "base64_re (e # r)"
  shows "canonicalBase64DecodedLength (a # b # c # d # e # r) = map_option (\<lambda>n. n + 3) (canonicalBase64DecodedLength (e # r))"
proof -
  let ?s = "e # r"
  have len: "4 \<le> length ?s" using base64_re_length [OF assms(5)] by auto
  have p: "pad_length (a # b # c # d # ?s) = pad_length ?s" using len by (rule pad_length_block)
  have "length (a # b # c # d # ?s) - pad_length ?s - 1 = 4 + (length ?s - pad_length ?s - 1)"
    using len pad_small [of ?s] by simp
  then have "(a # b # c # d # ?s) ! (length (a # b # c # d # ?s) - pad_length ?s - 1) = ?s ! (length ?s - pad_length ?s - 1)"
    by (simp add: numeral_eq_Suc)
  moreover have "(n + 4) div 4 * 3 - p = n div 4 * 3 - p + 3" if "4 \<le> n" "p \<le> 2" for n p :: nat
  proof -
    have "(n + 4) div 4 = n div 4 + 1" "1 \<le> n div 4" using that by simp_all
    with that show ?thesis by linarith
  qed
  from this [OF len pad_small [of ?s]]
  have "length (a # b # c # d # ?s) div 4 * 3 - pad_length ?s = length ?s div 4 * 3 - pad_length ?s + 3" by simp
  ultimately show ?thesis
    unfolding canonicalBase64DecodedLength_def p Let_def using assms by (simp del: length_Cons split: option.split)
qed

lemma base64_char_inj: "m < 64 \<Longrightarrow> n < 64 \<Longrightarrow> base64_char m = base64_char n \<longleftrightarrow> m = n"
  by (metis value_char option.inject)

lemma div_mult_exact: "m div k * k = m \<longleftrightarrow> m mod k = 0" for m k :: nat
  using div_mult_mod_eq [of m k] by linarith

lemma canonical_last:
  assumes "base64_re [a, b, c, d]"
  shows "canonicalBase64DecodedLength [a, b, c, d] =
    (if base64_encode (base64_decode [a, b, c, d]) = [a, b, c, d] then Some (length (base64_decode [a, b, c, d])) else None)"
proof -
  obtain i j where ij: "base64Value a = Some i" "base64Value b = Some j" using assms by auto
  then have ab: "base64_char i = a" "base64_char j = b" "i < 64" "j < 64" using char_value by blast+
  consider "c = CHR ''=''" "d = CHR ''=''" | k where "base64Value c = Some k" "d = CHR ''=''"
    | k l where "base64Value c = Some k" "base64Value d = Some l" using assms by auto
  then show ?thesis
  proof cases
    case 1
    have u: "unat (byte (i * 4 + j div 16)) = i * 4 + j div 16" using ab by (simp only: unat_byte_mod mod_less)
    have d: "base64_decode [a, b, c, d] = [byte (i * 4 + j div 16)]"
      using 1 ij by (simp add: base64_decode_def List.map_filter_simps)
    have "j div 16 < 4" using ab(4) by linarith
    then have "bytes_sextets [byte (i * 4 + j div 16)] = [i, j div 16 * 16]"
      by (simp only: bytes_sextets.simps u high_low)
    then have "base64_encode (base64_decode [a, b, c, d]) = [a, base64_char (j div 16 * 16), c, d]"
      unfolding d base64_encode_def using 1 ab by (simp add: numeral_2_eq_2)
    moreover have "base64_char (j div 16 * 16) = b \<longleftrightarrow> j mod 16 = 0"
      using base64_char_inj [of "j div 16 * 16" j] ab(2,4) by (auto simp: div_mult_exact)
    moreover have "length (base64_decode [a, b, c, d]) = 1" unfolding d by simp
    ultimately show ?thesis
      using 1 ij assms by (simp add: canonicalBase64DecodedLength_def pad_length_def ends_with_def)
  next
    case (2 k)
    then have c: "base64_char k = c" "k < 64" using char_value by blast+
    let ?x = "i * 4 + j div 16" and ?y = "j mod 16 * 16 + k div 4"
    have q: "j div 16 < 4" "k div 4 < 16" "?x < 256" "?y < 256" using ab c by linarith+
    have u: "unat (byte ?x) = ?x" "unat (byte ?y) = ?y" using q by (simp_all only: unat_byte_mod mod_less)
    have d: "base64_decode [a, b, c, d] = [byte ?x, byte ?y]"
      using 2 ij by (simp add: base64_decode_def List.map_filter_simps)
    have y16: "?y div 16 = j mod 16" "?y mod 16 = k div 4" using q by (simp_all only: high_low)
    have "bytes_sextets [byte ?x, byte ?y] = [i, j, k div 4 * 4]"
      using q(1) by (simp only: bytes_sextets.simps u high_low y16 div_mult_mod_eq)
    then have "base64_encode (base64_decode [a, b, c, d]) = [a, b, base64_char (k div 4 * 4), d]"
      unfolding d base64_encode_def using 2 ab by simp
    moreover have "base64_char (k div 4 * 4) = c \<longleftrightarrow> k mod 4 = 0"
      using base64_char_inj [of "k div 4 * 4" k] c by (auto simp: div_mult_exact)
    moreover have "length (base64_decode [a, b, c, d]) = 2" unfolding d by simp
    ultimately show ?thesis
      using 2 ij assms by (simp add: canonicalBase64DecodedLength_def pad_length_def ends_with_def)
  next
    case (3 k l)
    then show ?thesis
      using ij reencode_block [OF ij 3, of "[]"] decode_block [OF ij 3, of "[]"]
      by (simp add: canonicalBase64DecodedLength_def pad_length_def ends_with_def base64_decode_def base64_encode_def List.map_filter_simps)
  qed
qed

lemma unmatched_not_encoded: "\<not> base64_re s \<Longrightarrow> base64_encode (base64_decode s) \<noteq> s"
  using encode_matches by metis

lemma canonical_iff_encoded:
  "canonicalBase64DecodedLength s =
    (if s \<noteq> [] \<and> base64_encode (base64_decode s) = s then Some (length (base64_decode s)) else None)"
proof (induction s rule: base64_re.induct)
  case (2 a b c d)
  show ?case
  proof (cases "base64_re [a, b, c, d]")
    case True
    then show ?thesis by (simp add: canonical_last)
  next
    case False
    with unmatched_not_encoded [OF False] show ?thesis by (simp add: canonicalBase64DecodedLength_def)
  qed
next
  case (3 a b c d e r)
  show ?case
  proof (cases "base64_re (a # b # c # d # e # r)")
    case True
    then obtain i j k l where v: "base64Value a = Some i" "base64Value b = Some j" "base64Value c = Some k" "base64Value d = Some l"
      and r: "base64_re (e # r)" by auto
    have "length (base64_decode (a # b # c # d # e # r)) = length (base64_decode (e # r)) + 3"
      by (simp add: decode_block [OF v])
    with 3 show ?thesis
      using r by (simp add: canonical_block [OF v r] reencode_block [OF v])
  next
    case False
    with unmatched_not_encoded [OF False] show ?thesis by (simp add: canonicalBase64DecodedLength_def)
  qed
qed (simp_all add: canonicalBase64DecodedLength_def unmatched_not_encoded)

subsection \<open>Little-endian integers\<close>

fun le_bytes :: "nat \<Rightarrow> nat \<Rightarrow> bytes" where
  "le_bytes 0 n = []"
| "le_bytes (Suc k) n = byte (n mod 256) # le_bytes k (n div 256)"

fun le_value :: "bytes \<Rightarrow> nat" where
  "le_value [] = 0"
| "le_value (b # bs) = unat b + 256 * le_value bs"

lemma length_le_bytes [simp]: "length (le_bytes k n) = k"
  by (induction k arbitrary: n) auto

lemma le_value_bytes: "n < 256 ^ k \<Longrightarrow> le_value (le_bytes k n) = n"
proof (induction k arbitrary: n)
  case (Suc k)
  have "n div 256 < 256 ^ k" using Suc.prems by (simp add: less_mult_imp_div_less mult.commute)
  then show ?case using Suc.IH [of "n div 256"] by (simp del: of_nat_mod)
qed simp

lemma le_value_less: "le_value bs < 256 ^ length bs"
proof (induction bs)
  case (Cons b bs)
  have "unat b < 256" by simp
  moreover have "le_value bs + 1 \<le> 256 ^ length bs" using Cons by simp
  ultimately have "unat b + 256 * le_value bs < 256 * 256 ^ length bs" by linarith
  then show ?case by simp
qed simp

subsection \<open>UTF-8\<close>

text \<open>A text is the list of its code points; \<open>scalar\<close> are those UTF-8 has a form for.\<close>

definition scalar :: "nat \<Rightarrow> bool" where
  "scalar n \<longleftrightarrow> n < 0xD800 \<or> 0xE000 \<le> n \<and> n < 0x110000"

definition utf8_char :: "nat \<Rightarrow> bytes" where
  "utf8_char n = map byte
     (if n < 0x80 then [n]
      else if n < 0x800 then [0xC0 + n div 64, 0x80 + n mod 64]
      else if n < 0x10000 then [0xE0 + n div 4096, 0x80 + n div 64 mod 64, 0x80 + n mod 64]
      else [0xF0 + n div 262144, 0x80 + n div 4096 mod 64, 0x80 + n div 64 mod 64, 0x80 + n mod 64])"

text \<open>\<open>new TextEncoder().encode(s)\<close>\<close>

definition utf8_encode :: "nat list \<Rightarrow> bytes" where
  "utf8_encode cs = concat (map utf8_char cs)"

text \<open>The first character of a byte sequence and how many bytes follow its first one.\<close>

definition cont :: "nat \<Rightarrow> bool" where
  "cont b \<longleftrightarrow> 0x80 \<le> b \<and> b < 0xC0"

definition utf8_next :: "nat list \<Rightarrow> (nat \<times> nat) option" where
  "utf8_next bs = (case bs of
     [] \<Rightarrow> None
   | a # r \<Rightarrow>
      if a < 0x80 then Some (a, 0)
      else if a < 0xC0 then None
      else if a < 0xE0 then (case r of
          b # _ \<Rightarrow> let n = (a - 0xC0) * 64 + (b - 0x80) in if cont b \<and> 0x80 \<le> n then Some (n, 1) else None
        | _ \<Rightarrow> None)
      else if a < 0xF0 then (case r of
          b # c # _ \<Rightarrow> let n = (a - 0xE0) * 4096 + (b - 0x80) * 64 + (c - 0x80)
            in if cont b \<and> cont c \<and> 0x800 \<le> n \<and> scalar n then Some (n, 2) else None
        | _ \<Rightarrow> None)
      else if a < 0xF8 then (case r of
          b # c # d # _ \<Rightarrow> let n = (a - 0xF0) * 262144 + (b - 0x80) * 4096 + (c - 0x80) * 64 + (d - 0x80)
            in if cont b \<and> cont c \<and> cont d \<and> 0x10000 \<le> n \<and> scalar n then Some (n, 3) else None
        | _ \<Rightarrow> None)
      else None)"

function utf8_points :: "nat list \<Rightarrow> nat list option" where
  "utf8_points bs = (if bs = [] then Some [] else case utf8_next bs of
     None \<Rightarrow> None
   | Some (n, k) \<Rightarrow> map_option (Cons n) (utf8_points (drop (Suc k) bs)))"
  by auto
termination by (relation "measure length") auto

declare utf8_points.simps [simp del]

text \<open>\<open>new TextDecoder("utf-8", { fatal: true }).decode(bytes)\<close>; a leading byte order mark is dropped.\<close>

definition utf8_decode :: "bytes \<Rightarrow> nat list option" where
  "utf8_decode bs = map_option (\<lambda>cs. if cs \<noteq> [] \<and> hd cs = 0xFEFF then tl cs else cs) (utf8_points (map unat bs))"

lemma unat_bytes: "list_all (\<lambda>n. n < 256) ns \<Longrightarrow> map unat (map byte ns) = ns"
  by (induction ns) (auto simp: unat_byte_lt)

lemma digits_64_3: "n div 4096 * 4096 + n div 64 mod 64 * 64 + n mod 64 = (n :: nat)"
proof -
  have "n div 4096 = n div 64 div 64" by (simp add: div_mult2_eq [symmetric])
  with div_mult_mod_eq [of n 64] div_mult_mod_eq [of "n div 64" 64] show ?thesis by linarith
qed

lemma digits_64_4: "n div 262144 * 262144 + n div 4096 mod 64 * 4096 + n div 64 mod 64 * 64 + n mod 64 = (n :: nat)"
proof -
  have "n div 262144 = n div 4096 div 64" by (simp add: div_mult2_eq [symmetric])
  with div_mult_mod_eq [of "n div 4096" 64] digits_64_3 [of n] show ?thesis by linarith
qed

lemma utf8_next_2:
  "q < 32 \<Longrightarrow> r < 64 \<Longrightarrow> 0x80 \<le> q * 64 + r \<Longrightarrow>
    utf8_next ((0xC0 + q) # (0x80 + r) # rest) = Some (q * 64 + r, 1)"
  by (simp add: utf8_next_def cont_def)

lemma utf8_next_3:
  "q < 16 \<Longrightarrow> m < 64 \<Longrightarrow> r < 64 \<Longrightarrow> 0x800 \<le> q * 4096 + m * 64 + r \<Longrightarrow> scalar (q * 4096 + m * 64 + r) \<Longrightarrow>
    utf8_next ((0xE0 + q) # (0x80 + m) # (0x80 + r) # rest) = Some (q * 4096 + m * 64 + r, 2)"
  by (simp add: utf8_next_def cont_def)

lemma utf8_next_4:
  "q < 8 \<Longrightarrow> l < 64 \<Longrightarrow> m < 64 \<Longrightarrow> r < 64 \<Longrightarrow> 0x10000 \<le> q * 262144 + l * 4096 + m * 64 + r \<Longrightarrow>
    scalar (q * 262144 + l * 4096 + m * 64 + r) \<Longrightarrow>
    utf8_next ((0xF0 + q) # (0x80 + l) # (0x80 + m) # (0x80 + r) # rest) = Some (q * 262144 + l * 4096 + m * 64 + r, 3)"
  by (simp add: utf8_next_def cont_def)

lemma utf8_next_char:
  assumes "scalar n"
  shows "utf8_next (map unat (utf8_char n) @ rest) = Some (n, length (utf8_char n) - 1)"
proof -
  have n: "n < 0x110000" using assms by (auto simp: scalar_def)
  consider "n < 0x80" | "0x80 \<le> n" "n < 0x800" | "0x800 \<le> n" "n < 0x10000" | "0x10000 \<le> n" by linarith
  then show ?thesis
  proof cases
    case 1
    then have "map unat (utf8_char n) = [n]" "length (utf8_char n) = 1"
      unfolding utf8_char_def by (simp_all only: unat_bytes list.pred_inject if_True) simp_all
    with 1 show ?thesis by (simp add: utf8_next_def)
  next
    case 2
    have "list_all (\<lambda>n. n < 256) [0xC0 + n div 64, 0x80 + n mod 64]" using 2 by simp linarith
    moreover have "utf8_char n = map byte [0xC0 + n div 64, 0x80 + n mod 64]" using 2 by (simp add: utf8_char_def)
    ultimately have m: "map unat (utf8_char n) = [0xC0 + n div 64, 0x80 + n mod 64]" by (simp only: unat_bytes)
    have l: "length (utf8_char n) = 2" using 2 by (simp add: utf8_char_def)
    have "n div 64 * 64 + n mod 64 = n" by simp
    with utf8_next_2 [of "n div 64" "n mod 64" rest] 2 m l show ?thesis by simp
  next
    case 3
    have "list_all (\<lambda>n. n < 256) [0xE0 + n div 4096, 0x80 + n div 64 mod 64, 0x80 + n mod 64]" using 3 by simp linarith
    moreover have "utf8_char n = map byte [0xE0 + n div 4096, 0x80 + n div 64 mod 64, 0x80 + n mod 64]" using 3 by (simp add: utf8_char_def)
    ultimately have m: "map unat (utf8_char n) = [0xE0 + n div 4096, 0x80 + n div 64 mod 64, 0x80 + n mod 64]" by (simp only: unat_bytes)
    have l: "length (utf8_char n) = 3" using 3 by (simp add: utf8_char_def)
    have "n div 4096 * 4096 + n div 64 mod 64 * 64 + n mod 64 = n" by (rule digits_64_3)
    moreover have "n div 4096 < 16" using 3 by linarith
    ultimately show ?thesis using utf8_next_3 [of "n div 4096" "n div 64 mod 64" "n mod 64" rest] 3 assms by (simp add: m l)
  next
    case 4
    have "list_all (\<lambda>n. n < 256) [0xF0 + n div 262144, 0x80 + n div 4096 mod 64, 0x80 + n div 64 mod 64, 0x80 + n mod 64]"
      using n by simp linarith
    moreover have "utf8_char n = map byte [0xF0 + n div 262144, 0x80 + n div 4096 mod 64, 0x80 + n div 64 mod 64, 0x80 + n mod 64]" using 4 by (simp add: utf8_char_def)
    ultimately have m: "map unat (utf8_char n) = [0xF0 + n div 262144, 0x80 + n div 4096 mod 64, 0x80 + n div 64 mod 64, 0x80 + n mod 64]" by (simp only: unat_bytes)
    have l: "length (utf8_char n) = 4" using 4 by (simp add: utf8_char_def)
    have "n div 262144 * 262144 + n div 4096 mod 64 * 4096 + n div 64 mod 64 * 64 + n mod 64 = n" by (rule digits_64_4)
    moreover have "n div 262144 < 8" using n by linarith
    ultimately show ?thesis using utf8_next_4 [of "n div 262144" "n div 4096 mod 64" "n div 64 mod 64" "n mod 64" rest] 4 assms by (simp add: m l)
  qed
qed

lemma utf8_points_encode: "list_all scalar cs \<Longrightarrow> utf8_points (map unat (utf8_encode cs)) = Some cs"
proof (induction cs)
  case Nil
  then show ?case by (simp add: utf8_encode_def utf8_points.simps)
next
  case (Cons n cs)
  let ?c = "map unat (utf8_char n)" and ?r = "map unat (utf8_encode cs)"
  have ne: "?c \<noteq> []" by (simp add: utf8_char_def)
  have "map unat (utf8_encode (n # cs)) = ?c @ ?r" by (simp add: utf8_encode_def)
  then show ?case
    using ne Cons utf8_next_char [of n ?r] by (subst utf8_points.simps) (simp add: utf8_encode_def)
qed

lemma utf8_round_trip:
  "list_all scalar cs \<Longrightarrow> cs = [] \<or> hd cs \<noteq> 0xFEFF \<Longrightarrow> utf8_decode (utf8_encode cs) = Some cs"
  by (auto simp: utf8_decode_def utf8_points_encode)

end
