(* ===== verification/SecureFrame.thy ===== *)
theory SecureFrame imports Bytes
begin

text \<open>
  \<open>transport/secure_channel.ts\<close>: the frames of the paired owner channel and the
  transcripts of its pairing.

  The cipher, the hashes and the key agreement are not in the repository. They are
  arguments: \<open>enc\<close> and \<open>dec\<close> of key, nonce, associated data and text for
  \<open>xchacha20poly1305\<close>, \<open>hkdf\<close> of secret, salt and info, \<open>hmac\<close> of key and message,
  \<open>sha256\<close>, \<open>dh\<close>. What the channel relies on is \<open>aead\<close>. The random nonce is an
  argument of \<open>seal\<close>. A text is a string of characters below 256; an opened frame with
  others is outside the model and is not opened.
\<close>

subsection \<open>Texts as bytes\<close>

definition utf8 :: "string \<Rightarrow> bytes" where
  "utf8 s = utf8_encode (map of_char s)"

definition utf8_text :: "bytes \<Rightarrow> string option" where
  "utf8_text bs = (case utf8_decode bs of
     None \<Rightarrow> None
   | Some cs \<Rightarrow> (if list_all (\<lambda>n. n < 256) cs then Some (map char_of cs) else None))"

lemma utf8_text_utf8 [simp]: "utf8_text (utf8 s) = Some s"
proof -
  have "scalar (of_char c)" for c :: char using nat_of_char_less_256 [of c] unfolding scalar_def by linarith
  then have "list_all scalar (map of_char s)" by (auto simp: list_all_iff)
  moreover have "map of_char s = [] \<or> hd (map of_char s) \<noteq> (0xFEFF :: nat)"
    using nat_of_char_less_256 [of "hd s"] by (cases s) (simp_all del: nat_of_char_less_256)
  ultimately have "utf8_decode (utf8 s) = Some (map of_char s)"
    by (simp add: utf8_def utf8_round_trip)
  then show ?thesis by (simp add: utf8_text_def list_all_iff comp_def)
qed

lemma utf8_inject [simp]: "utf8 s = utf8 t \<longleftrightarrow> s = t"
  by (metis utf8_text_utf8 option.inject)

lemma utf8_length: "length (utf8 s) \<le> 4 * length s"
  by (induction s) (auto simp: utf8_def utf8_encode_def utf8_char_def)

subsection \<open>Frames\<close>

type_synonym cipher = "bytes \<Rightarrow> bytes \<Rightarrow> bytes \<Rightarrow> bytes \<Rightarrow> bytes"
type_synonym decipher = "bytes \<Rightarrow> bytes \<Rightarrow> bytes \<Rightarrow> bytes \<Rightarrow> bytes option"

definition aead :: "cipher \<Rightarrow> decipher \<Rightarrow> bool" where
  "aead enc dec \<longleftrightarrow>
    (\<forall>k n a m. dec k n a (enc k n a m) = Some m \<and> length (enc k n a m) = length m + 16)"

lemma aeadD: "aead enc dec \<Longrightarrow> dec k n a (enc k n a m) = Some m" "aead enc dec \<Longrightarrow> length (enc k n a m) = length m + 16"
  by (auto simp: aead_def)

definition OWNER_CHANNEL_SUITE :: string where
  "OWNER_CHANNEL_SUITE = ''outpost-pi-owner-channel-v1''"

definition FRAME_VERSION :: "8 word" where "FRAME_VERSION = 1"
definition SEQ_BYTES :: nat where "SEQ_BYTES = 8"
definition NONCE_BYTES :: nat where "NONCE_BYTES = 24"
definition TAG_BYTES :: nat where "TAG_BYTES = 16"
definition FRAME_HEADER_BYTES :: nat where "FRAME_HEADER_BYTES = 1 + SEQ_BYTES + NONCE_BYTES"
definition MAX_UINT64 :: nat where "MAX_UINT64 = 2 ^ 64 - 1"

lemmas frame_bytes = FRAME_VERSION_def SEQ_BYTES_def NONCE_BYTES_def TAG_BYTES_def FRAME_HEADER_BYTES_def

text \<open>\<open>seqLe64\<close> throws (here \<open>None\<close>) beyond 64 bits; a sequence is never negative.\<close>

definition seqLe64 :: "nat \<Rightarrow> bytes option" where
  "seqLe64 n = (if n > MAX_UINT64 then None else Some (le_bytes SEQ_BYTES n))"

definition seal :: "cipher \<Rightarrow> bytes \<Rightarrow> bytes \<Rightarrow> nat \<Rightarrow> string \<Rightarrow> bytes option" where
  "seal enc nonce key n json =
    (if length key \<noteq> 32 then None
     else case seqLe64 n of
       None \<Rightarrow> None
     | Some seqBytes \<Rightarrow>
        (if length nonce \<noteq> NONCE_BYTES then None
         else Some (FRAME_VERSION # seqBytes @ nonce @ enc key nonce seqBytes (utf8 json))))"

text \<open>\<open>open\<close>, which is an Isabelle constant already.\<close>

definition open_frame :: "decipher \<Rightarrow> bytes \<Rightarrow> bytes \<Rightarrow> nat \<Rightarrow> (nat \<times> string) option" where
  "open_frame dec key frame lastSeq =
    (if length key \<noteq> 32 \<or> length frame < FRAME_HEADER_BYTES + TAG_BYTES then None
     else if hd frame \<noteq> FRAME_VERSION then None
     else
       let seqBytes = take SEQ_BYTES (drop 1 frame); n = le_value seqBytes in
       if n \<le> lastSeq then None
       else
         let nonce = take NONCE_BYTES (drop (1 + SEQ_BYTES) frame);
             ciphertext = drop FRAME_HEADER_BYTES frame in
         case dec key nonce seqBytes ciphertext of
           None \<Rightarrow> None
         | Some plaintext \<Rightarrow> (case utf8_text plaintext of None \<Rightarrow> None | Some json \<Rightarrow> Some (n, json)))"

lemma seal_Some:
  "seal enc nonce key n json = Some frame \<longleftrightarrow>
    length key = 32 \<and> n \<le> MAX_UINT64 \<and> length nonce = 24 \<and>
    frame = FRAME_VERSION # le_bytes 8 n @ nonce @ enc key nonce (le_bytes 8 n) (utf8 json)"
  by (auto simp: seal_def seqLe64_def frame_bytes)

lemma open_frame_Some:
  "open_frame dec key frame l = Some (n, json) \<Longrightarrow>
    l < n \<and> n \<le> MAX_UINT64 \<and> n = le_value (take 8 (drop 1 frame)) \<and>
    (\<exists>pt. dec key (take 24 (drop 9 frame)) (take 8 (drop 1 frame)) (drop 33 frame) = Some pt \<and> utf8_text pt = Some json)"
  using le_value_less [of "take 8 (drop 1 frame)"]
  by (auto simp: open_frame_def frame_bytes Let_def MAX_UINT64_def not_le split: if_splits option.splits)

lemma open_sealed:
  assumes "aead enc dec" "seal enc nonce key n json = Some frame"
  shows "open_frame dec key frame l = (if l < n then Some (n, json) else None)"
proof -
  from assms(2) have k: "length key = 32" "n \<le> MAX_UINT64" "length nonce = 24"
    and f: "frame = FRAME_VERSION # le_bytes 8 n @ nonce @ enc key nonce (le_bytes 8 n) (utf8 json)"
    by (auto simp: seal_Some)
  have v: "le_value (le_bytes 8 n) = n"
    using k(2) by (intro le_value_bytes) (simp add: MAX_UINT64_def)
  show ?thesis
    unfolding open_frame_def f using k v aeadD [OF assms(1)]
    by (simp add: frame_bytes Let_def)
qed

text \<open>
  C23. A sealed frame opens, under the same key, to the sequence and the text it was
  sealed with exactly when that sequence is beyond the receiver's high-water, and to
  nothing otherwise: a frame can be lost but not accepted twice or out of order.
\<close>

theorem sealed_frame_opens_once:
  assumes "aead enc dec" "seal enc nonce key n json = Some frame"
  shows "open_frame dec key frame l = (if l < n then Some (n, json) else None)"
  using assms by (rule open_sealed)

text \<open>The laws hold of a cipher that only appends a tag.\<close>

definition tag_cipher :: cipher where
  "tag_cipher k n a m = m @ replicate 16 0"

definition tag_decipher :: decipher where
  "tag_decipher k n a c = Some (take (length c - 16) c)"

lemma tag_aead: "aead tag_cipher tag_decipher"
  by (simp add: aead_def tag_cipher_def tag_decipher_def)

theorem sealed_frame_opens_once_witness:
  "let key = replicate 32 7; frame = FRAME_VERSION # le_bytes 8 5 @ replicate 24 9 @ tag_cipher key (replicate 24 9) (le_bytes 8 5) (utf8 ''{}'')
   in seal tag_cipher (replicate 24 9) key 5 ''{}'' = Some frame \<and>
      open_frame tag_decipher key frame 4 = Some (5, ''{}'') \<and> open_frame tag_decipher key frame 5 = None"
proof -
  let ?key = "replicate 32 7" and ?nonce = "replicate 24 9"
  let ?frame = "FRAME_VERSION # le_bytes 8 5 @ ?nonce @ tag_cipher ?key ?nonce (le_bytes 8 5) (utf8 ''{}'')"
  have s: "seal tag_cipher ?nonce ?key 5 ''{}'' = Some ?frame"
    unfolding seal_Some by (simp add: MAX_UINT64_def)
  show ?thesis
    using s sealed_frame_opens_once [OF tag_aead s, of 4] sealed_frame_opens_once [OF tag_aead s, of 5]
    unfolding Let_def by simp
qed

subsection \<open>Keys and pairing transcripts\<close>

record directional_keys =
  key_send :: bytes
  key_recv :: bytes

definition x25519Shared :: "(bytes \<Rightarrow> bytes \<Rightarrow> bytes option) \<Rightarrow> bytes \<Rightarrow> bytes \<Rightarrow> bytes option" where
  "x25519Shared dh sk pk = (if length sk \<noteq> 32 \<or> length pk \<noteq> 32 then None else dh sk pk)"

type_synonym kdf = "bytes \<Rightarrow> bytes \<Rightarrow> bytes \<Rightarrow> bytes"

definition newline :: string where "newline = [CHR 0x0A]"

definition derive :: "kdf \<Rightarrow> bytes \<Rightarrow> bytes \<Rightarrow> string \<Rightarrow> bytes" where
  "derive hkdf shared tokenBytes direction = hkdf shared tokenBytes (utf8 (OWNER_CHANNEL_SUITE @ newline @ direction))"

datatype channel_side = AppSide | PiSide

definition deriveDirectionalKeys :: "kdf \<Rightarrow> bytes \<Rightarrow> string \<Rightarrow> channel_side \<Rightarrow> directional_keys option" where
  "deriveDirectionalKeys hkdf shared token side =
    (if length shared \<noteq> 32 then None
     else
       let tokenBytes = utf8 token;
           appToPi = derive hkdf shared tokenBytes ''app->pi'';
           piToApp = derive hkdf shared tokenBytes ''pi->app'' in
       Some (case side of
         AppSide \<Rightarrow> \<lparr>key_send = appToPi, key_recv = piToApp\<rparr>
       | PiSide \<Rightarrow> \<lparr>key_send = piToApp, key_recv = appToPi\<rparr>))"

definition pairTokenId :: "(bytes \<Rightarrow> bytes) \<Rightarrow> string \<Rightarrow> bytes" where
  "pairTokenId sha256 token = take 16 (sha256 (utf8 token))"

definition pairMacMessage :: "bytes \<Rightarrow> bytes \<Rightarrow> bytes \<Rightarrow> bytes \<Rightarrow> bytes option" where
  "pairMacMessage tokenId ownerEdPk appDhPk piEdPk =
    (if length tokenId \<noteq> 16 then None
     else if length ownerEdPk \<noteq> 32 \<or> length appDhPk \<noteq> 32 \<or> length piEdPk \<noteq> 32 then None
     else Some (utf8 (OWNER_CHANNEL_SUITE @ newline @ ''pair'' @ newline) @ tokenId @ ownerEdPk @ appDhPk @ piEdPk))"

definition computePairMac :: "(bytes \<Rightarrow> bytes \<Rightarrow> bytes) \<Rightarrow> string \<Rightarrow> bytes \<Rightarrow> bytes \<Rightarrow> bytes \<Rightarrow> bytes \<Rightarrow> bytes option" where
  "computePairMac hmac token tokenId ownerEdPk appDhPk piEdPk =
    map_option (hmac (utf8 token)) (pairMacMessage tokenId ownerEdPk appDhPk piEdPk)"

text \<open>\<open>timingSafeEqual\<close> throws on different lengths, which the caller's handler makes false.\<close>

definition verifyPairMac ::
  "(bytes \<Rightarrow> bytes \<Rightarrow> bytes) \<Rightarrow> string \<Rightarrow> bytes \<Rightarrow> bytes \<Rightarrow> bytes \<Rightarrow> bytes \<Rightarrow> bytes \<Rightarrow> bool" where
  "verifyPairMac hmac token tokenId ownerEdPk appDhPk piEdPk candidate =
    (if length candidate \<noteq> 32 then False
     else case computePairMac hmac token tokenId ownerEdPk appDhPk piEdPk of
       None \<Rightarrow> False
     | Some expected \<Rightarrow> expected = candidate)"

definition appTranscript :: "string \<Rightarrow> bytes \<Rightarrow> bytes \<Rightarrow> bytes" where
  "appTranscript token appDhPk piEdPk =
    utf8 (OWNER_CHANNEL_SUITE @ newline @ ''app'' @ newline) @ utf8 token @ appDhPk @ piEdPk"

definition piTranscript :: "string \<Rightarrow> bytes \<Rightarrow> bytes \<Rightarrow> bytes \<Rightarrow> bytes" where
  "piTranscript token appDhPk piDhPk ownerEdPk =
    utf8 (OWNER_CHANNEL_SUITE @ newline @ ''pi'' @ newline) @ utf8 token @ appDhPk @ piDhPk @ ownerEdPk"

lemma directional_keys_mirror:
  "deriveDirectionalKeys hkdf shared token AppSide = Some a \<Longrightarrow> deriveDirectionalKeys hkdf shared token PiSide = Some p \<Longrightarrow>
    key_send a = key_recv p \<and> key_recv a = key_send p"
  by (auto simp: deriveDirectionalKeys_def Let_def split: if_splits)

lemma utf8_append [simp]: "utf8 (s @ t) = utf8 s @ utf8 t"
  by (simp add: utf8_def utf8_encode_def)

lemma pairMacMessage_fields:
  assumes "pairMacMessage t o1 a p = Some m" "pairMacMessage t' o' a' p' = Some m"
  shows "t = t' \<and> o1 = o' \<and> a = a' \<and> p = p'"
  using assms by (auto simp: pairMacMessage_def split: if_splits)

text \<open>
  A verified proof is the token's own over the fields given: another token or another
  field with the same proof is a collision of the hash.
\<close>

lemma verifyPairMac_iff:
  "verifyPairMac hmac token t o1 a p c \<longleftrightarrow>
    length c = 32 \<and> (\<exists>m. pairMacMessage t o1 a p = Some m \<and> hmac (utf8 token) m = c)"
  by (auto simp: verifyPairMac_def computePairMac_def split: option.splits)

lemma prefixes_apart: "utf8 (OWNER_CHANNEL_SUITE @ newline @ ''app'' @ newline) @ x \<noteq> utf8 (OWNER_CHANNEL_SUITE @ newline @ ''pi'' @ newline) @ y"
  by (simp add: utf8_def utf8_encode_def utf8_char_def)

text \<open>
  What the two sides sign is unambiguous: for keys of the fixed width, the app's
  transcript determines the token and both keys it binds, the Pi's likewise, and no
  app transcript is a Pi transcript, so that a signature by one side over its transcript
  cannot be presented as one over other fields or for the other role.
\<close>

lemma transcripts_unambiguous:
  assumes "length a = 32" "length a' = 32" "length p = 32" "length p' = 32" "length e = 32" "length e' = 32"
  shows "(appTranscript t a p = appTranscript t' a' p' \<longleftrightarrow> t = t' \<and> a = a' \<and> p = p') \<and>
    (piTranscript t a p e = piTranscript t' a' p' e' \<longleftrightarrow> t = t' \<and> a = a' \<and> p = p' \<and> e = e') \<and>
    appTranscript t a p \<noteq> piTranscript t' a' p' e'"
proof (intro conjI)
  show "appTranscript t a p = appTranscript t' a' p' \<longleftrightarrow> t = t' \<and> a = a' \<and> p = p'"
    using assms by (auto simp: appTranscript_def simp del: utf8_append)
  show "piTranscript t a p e = piTranscript t' a' p' e' \<longleftrightarrow> t = t' \<and> a = a' \<and> p = p' \<and> e = e'"
    using assms by (auto simp: piTranscript_def simp del: utf8_append)
  show "appTranscript t a p \<noteq> piTranscript t' a' p' e'"
    unfolding appTranscript_def piTranscript_def by (rule prefixes_apart)
qed

end
