(* ===== verification/PeerStore.thy ===== *)
theory PeerStore imports SecureFrame
begin

text \<open>
  The pairing roster of \<open>pairing/storage.ts\<close>: \<open>peers.json\<close>, one record per paired owner
  with the channel keys and the two sequence high-waters, and the read-modify-write
  operations on it. Each operation runs under the machine-wide lock, so it is one step
  from a file to a file.

  The file is what its text reads as: absent, unreadable (an I/O failure or malformed
  text) or a roster. \<open>r\<close> and \<open>w\<close> say whether this operation's read and its
  write-and-rename succeed; a failed write leaves the file as it was and throws.
  \<open>readPeersFile\<close> takes every failure of a read for an empty roster.
\<close>

record peer_record =
  pr_name :: string
  remote_epk :: string
  paired_at :: string
  channel_key :: "string option"
  send_seq :: "string option"
  recv_seq :: "string option"

datatype peers_file = NoRoster | BadRoster | Roster "peer_record list"

datatype storage_error = WriteFailed | RangeError | InvalidSequence | RosterUnreadable

subsection \<open>Channel keys and sequences\<close>

definition encodePeerChannelKeys :: "bytes \<Rightarrow> bytes \<Rightarrow> string option" where
  "encodePeerChannelKeys snd_key rcv_key =
    (if length snd_key \<noteq> 32 \<or> length rcv_key \<noteq> 32 then None else Some (base64_encode (snd_key @ rcv_key)))"

definition decodePeerChannelKeys :: "string option \<Rightarrow> (bytes \<times> bytes) option" where
  "decodePeerChannelKeys channelKey = (case channelKey of
     None \<Rightarrow> None
   | Some k \<Rightarrow>
      (if k = '''' then None
       else let decoded = base64_decode k in
         if length decoded \<noteq> 64 \<or> base64_encode decoded \<noteq> k then None
         else Some (take 32 decoded, drop 32 decoded)))"

definition parsePeerChannelSequence :: "string option \<Rightarrow> nat option" where
  "parsePeerChannelSequence v = (case v of
     None \<Rightarrow> Some 0
   | Some s \<Rightarrow>
      (if s = '''' \<or> \<not> list_all is_digit s \<or> (hd s = CHR ''0'' \<and> tl s \<noteq> []) then None
       else if text_nat s \<le> MAX_UINT64 then Some (text_nat s) else None))"

lemma parse_nat_text: "parsePeerChannelSequence (Some (nat_text n)) = (if n \<le> MAX_UINT64 then Some n else None)"
proof -
  have "list_all is_digit (nat_text n)" by (auto simp: list_all_iff dest: nat_text_digits)
  moreover have "\<not> (hd (nat_text n) = CHR ''0'' \<and> tl (nat_text n) \<noteq> [])"
    using nat_text_hd_zero [of n "tl (nat_text n)"] by (cases "nat_text n") auto
  ultimately show ?thesis by (auto simp: parsePeerChannelSequence_def)
qed

lemma decode_keys_iff: "decodePeerChannelKeys (Some k) = Some (s, r) \<longleftrightarrow> encodePeerChannelKeys s r = Some k" (is "?L \<longleftrightarrow> ?R")
proof
  assume ?L
  then have d: "length (base64_decode k) = 64" "base64_encode (base64_decode k) = k"
    and sr: "s = take 32 (base64_decode k)" "r = drop 32 (base64_decode k)"
    by (auto simp: decodePeerChannelKeys_def Let_def split: if_splits)
  then show ?R by (simp add: encodePeerChannelKeys_def)
next
  assume ?R
  then have l: "length s = 32" "length r = 32" and k: "k = base64_encode (s @ r)"
    by (auto simp: encodePeerChannelKeys_def split: if_splits)
  from l k have "k \<noteq> ''''" using base64_round_trip [of "s @ r"] by (auto simp del: base64_round_trip simp: base64_decode_def)
  with l k show ?L by (simp add: decodePeerChannelKeys_def Let_def)
qed

text \<open>
  Channel keys survive their field of the roster exactly, and the field accepts
  nothing else: it reads as a pair of keys only when it is what writing that pair
  gives. Likewise every sequence of 64 bits survives its decimal text.
\<close>

lemma channel_fields_round_trip:
  "(\<forall>k. decodePeerChannelKeys (Some k) = Some (s, r) \<longleftrightarrow> encodePeerChannelKeys s r = Some k) \<and>
   parsePeerChannelSequence (Some (nat_text n)) = (if n \<le> MAX_UINT64 then Some n else None)"
  by (simp add: decode_keys_iff parse_nat_text)

subsection \<open>Reading\<close>

definition readPeersFile :: "bool \<Rightarrow> peers_file \<Rightarrow> peer_record list" where
  "readPeersFile r f = (case f of Roster ps \<Rightarrow> (if r then ps else []) | _ \<Rightarrow> [])"

definition readPeersFileStrict :: "bool \<Rightarrow> peers_file \<Rightarrow> storage_error + peer_record list" where
  "readPeersFileStrict r f = (case f of
     NoRoster \<Rightarrow> Inr []
   | BadRoster \<Rightarrow> Inl RosterUnreadable
   | Roster ps \<Rightarrow> (if r then Inr ps else Inl RosterUnreadable))"

text \<open>\<open>listOwnerPubkeys\<close>: the distinct owners, in order of first appearance.\<close>

definition listOwnerPubkeys :: "bool \<Rightarrow> peers_file \<Rightarrow> string list" where
  "listOwnerPubkeys r f = foldl (\<lambda>seen p. oset_add seen (remote_epk p)) [] (readPeersFile r f)"

definition find_peer :: "string \<Rightarrow> peer_record list \<Rightarrow> peer_record option" where
  "find_peer epk ps = List.find (\<lambda>p. remote_epk p = epk) ps"

text \<open>A change of the record found, which the source makes in place.\<close>

fun update_peer :: "string \<Rightarrow> (peer_record \<Rightarrow> peer_record) \<Rightarrow> peer_record list \<Rightarrow> peer_record list" where
  "update_peer epk g [] = []"
| "update_peer epk g (p # ps) = (if remote_epk p = epk then g p # ps else p # update_peer epk g ps)"

subsection \<open>Operations\<close>

definition writePeersFile :: "bool \<Rightarrow> peer_record list \<Rightarrow> 'a \<Rightarrow> peers_file \<Rightarrow> (storage_error + 'a) \<times> peers_file" where
  "writePeersFile w ps result f = (if w then (Inr result, Roster ps) else (Inl WriteFailed, f))"

definition addPeer :: "bool \<Rightarrow> bool \<Rightarrow> peer_record \<Rightarrow> peers_file \<Rightarrow> (storage_error + unit) \<times> peers_file" where
  "addPeer r w p f =
    (let ps = readPeersFile r f in
     writePeersFile w (if find_peer (remote_epk p) ps = None then ps @ [p] else update_peer (remote_epk p) (\<lambda>_. p) ps) () f)"

definition reserveSendSeq :: "bool \<Rightarrow> bool \<Rightarrow> string \<Rightarrow> string \<Rightarrow> peers_file \<Rightarrow> (storage_error + nat option) \<times> peers_file" where
  "reserveSendSeq r w epk key f =
    (let ps = readPeersFile r f in
     case find_peer epk ps of
       None \<Rightarrow> (Inr None, f)
     | Some p \<Rightarrow>
        (if channel_key p \<noteq> Some key then (Inr None, f)
         else case parsePeerChannelSequence (send_seq p) of
           None \<Rightarrow> (Inr None, f)
         | Some stored \<Rightarrow>
            (if stored = MAX_UINT64 then (Inl RangeError, f)
             else writePeersFile w (update_peer epk (send_seq_update (\<lambda>_. Some (nat_text (stored + 1)))) ps) (Some (stored + 1)) f)))"

datatype advance_result = Accepted | ReplayResult | StaleGeneration

definition compareAndAdvanceRecvSeq ::
  "bool \<Rightarrow> bool \<Rightarrow> string \<Rightarrow> string \<Rightarrow> nat \<Rightarrow> peers_file \<Rightarrow> (storage_error + advance_result) \<times> peers_file" where
  "compareAndAdvanceRecvSeq r w epk key n f =
    (let ps = readPeersFile r f in
     case find_peer epk ps of
       None \<Rightarrow> (Inr StaleGeneration, f)
     | Some p \<Rightarrow>
        (if channel_key p \<noteq> Some key then (Inr StaleGeneration, f)
         else if n > MAX_UINT64 then (Inl RangeError, f)
         else case parsePeerChannelSequence (recv_seq p) of
           None \<Rightarrow> (Inl InvalidSequence, f)
         | Some stored \<Rightarrow>
            (if n \<le> stored then (Inr ReplayResult, f)
             else writePeersFile w (update_peer epk (recv_seq_update (\<lambda>_. Some (nat_text n))) ps) Accepted f)))"

definition removePeer :: "bool \<Rightarrow> bool \<Rightarrow> string \<Rightarrow> peers_file \<Rightarrow> (storage_error + bool) \<times> peers_file" where
  "removePeer r w epk f =
    (let ps = readPeersFile r f; filtered = filter (\<lambda>p. remote_epk p \<noteq> epk) ps in
     if length filtered = length ps then (Inr False, f) else writePeersFile w filtered True f)"

lemmas store_defs = addPeer_def reserveSendSeq_def compareAndAdvanceRecvSeq_def removePeer_def writePeersFile_def Let_def

subsection \<open>What a peer's record is\<close>

text \<open>The record that counts for an owner.\<close>

definition peer_of :: "string \<Rightarrow> peers_file \<Rightarrow> peer_record option" where
  "peer_of epk f = (case f of Roster ps \<Rightarrow> find_peer epk ps | _ \<Rightarrow> None)"

lemma find_peer_Some: "find_peer epk ps = Some p \<Longrightarrow> p \<in> set ps \<and> remote_epk p = epk"
  by (auto simp: find_peer_def find_Some_iff)

lemma find_update [simp]:
  "(\<And>p. remote_epk (g p) = remote_epk p) \<Longrightarrow>
    find_peer e (update_peer epk g ps) = (if e = epk then map_option g (find_peer e ps) else find_peer e ps)"
  by (induction ps) (auto simp: find_peer_def)

lemma find_replace:
  "remote_epk q = epk \<Longrightarrow>
    find_peer e (update_peer epk (\<lambda>_. q) ps) = (if e = epk then map_option (\<lambda>_. q) (find_peer e ps) else find_peer e ps)"
  by (induction ps) (auto simp: find_peer_def)

lemma find_snoc: "find_peer e (ps @ [q]) = (case find_peer e ps of Some p \<Rightarrow> Some p | None \<Rightarrow> if remote_epk q = e then Some q else None)"
  by (induction ps) (auto simp: find_peer_def)

lemma find_filter: "find_peer e (filter (\<lambda>p. remote_epk p \<noteq> epk) ps) = (if e = epk then None else find_peer e ps)"
  by (induction ps) (auto simp: find_peer_def)

lemma read_find: "find_peer epk (readPeersFile r f) = Some p \<Longrightarrow> r \<and> peer_of epk f = Some p"
  by (auto simp: readPeersFile_def peer_of_def find_peer_def split: peers_file.splits if_splits)

lemma read_peer_of [simp]: "find_peer epk (readPeersFile True f) = peer_of epk f"
  by (auto simp: readPeersFile_def peer_of_def find_peer_def split: peers_file.splits)

lemma peer_of_Roster [simp]: "peer_of epk (Roster ps) = find_peer epk ps"
  by (simp add: peer_of_def)

lemma reserve_result:
  assumes "reserveSendSeq r w epk key f = (res, f')"
  shows "(\<exists>n p stored. res = Inr (Some n) \<and> peer_of epk f = Some p \<and> channel_key p = Some key \<and>
            parsePeerChannelSequence (send_seq p) = Some stored \<and> n = stored + 1 \<and> n \<le> MAX_UINT64 \<and>
            (\<forall>e. peer_of e f' = (if e = epk then Some (p\<lparr>send_seq := Some (nat_text n)\<rparr>) else peer_of e f)))
         \<or> (\<forall>n. res \<noteq> Inr (Some n)) \<and> f' = f"
proof (cases "find_peer epk (readPeersFile r f)")
  case None
  with assms show ?thesis by (auto simp: store_defs)
next
  case (Some p)
  with read_find have r: r and p: "peer_of epk f = Some p" by auto
  then obtain ps where f: "f = Roster ps" by (cases f) (auto simp: peer_of_def)
  show ?thesis
  proof (cases "channel_key p = Some key \<and> w \<and> (\<exists>s. parsePeerChannelSequence (send_seq p) = Some s \<and> s \<noteq> MAX_UINT64)")
    case True
    then obtain s where "parsePeerChannelSequence (send_seq p) = Some s" "s \<noteq> MAX_UINT64" "channel_key p = Some key" w
      by auto
    moreover from this have "s + 1 \<le> MAX_UINT64"
      by (auto simp: parsePeerChannelSequence_def split: option.splits if_splits)
    ultimately show ?thesis using assms r p Some by (auto simp: store_defs f readPeersFile_def)
  next
    case False
    with assms Some show ?thesis by (auto simp: store_defs split: if_splits option.splits)
  qed
qed

lemma advance_result:
  assumes "compareAndAdvanceRecvSeq r w epk key n f = (res, f')"
  shows "(\<exists>p stored. res = Inr Accepted \<and> peer_of epk f = Some p \<and> channel_key p = Some key \<and>
            parsePeerChannelSequence (recv_seq p) = Some stored \<and> stored < n \<and> n \<le> MAX_UINT64 \<and>
            (\<forall>e. peer_of e f' = (if e = epk then Some (p\<lparr>recv_seq := Some (nat_text n)\<rparr>) else peer_of e f)))
         \<or> res \<noteq> Inr Accepted \<and> f' = f"
proof (cases "find_peer epk (readPeersFile r f)")
  case None
  with assms show ?thesis by (auto simp: store_defs)
next
  case (Some p)
  with read_find have r: r and p: "peer_of epk f = Some p" by auto
  then obtain ps where f: "f = Roster ps" by (cases f) (auto simp: peer_of_def)
  show ?thesis
  proof (cases "channel_key p = Some key \<and> w \<and> n \<le> MAX_UINT64 \<and> (\<exists>s. parsePeerChannelSequence (recv_seq p) = Some s \<and> s < n)")
    case True
    then show ?thesis using assms r p Some by (auto simp: store_defs f readPeersFile_def)
  next
    case False
    with assms Some show ?thesis by (auto simp: store_defs split: if_splits option.splits)
  qed
qed

lemma add_result:
  assumes "addPeer r w p f = (res, f')"
  shows "if w then res = Inr () \<and> (\<forall>e. peer_of e f' = (if e = remote_epk p then Some p else if r then peer_of e f else None))
         else res = Inl WriteFailed \<and> f' = f"
proof (cases r)
  case True
  then show ?thesis
    using assms by (auto simp: store_defs find_replace find_snoc split: option.splits if_splits)
next
  case False
  then have "readPeersFile r f = []" by (simp add: readPeersFile_def split: peers_file.splits)
  with False assms show ?thesis by (auto simp: store_defs find_peer_def split: if_splits)
qed

text \<open>A roster that cannot be read for a moment is written back with the new pairing alone.\<close>

lemma addPeer_failed_read_forgets: "addPeer False True p f = (Inr (), Roster [p])"
  by (simp add: store_defs readPeersFile_def find_peer_def split: peers_file.splits)

lemma remove_result:
  assumes "removePeer r w epk f = (res, f')"
  shows "f' = f \<or> (\<forall>e. peer_of e f' = (if e = epk then None else peer_of e f))"
  using assms
  by (auto simp: store_defs find_filter readPeersFile_def split: peers_file.splits if_splits)

end
