(* ===== verification/OwnerChannel.thy ===== *)
theory OwnerChannel imports PeerStore Protocol
begin

text \<open>
  The protected owner channel of \<open>transport/peer_channel.ts\<close> over the roster of
  \<open>pairing/storage.ts\<close>: any number of channels, of one process or of several, for any
  owners, that share one \<open>peers.json\<close>.

  Every continuation after an \<open>await\<close> is a step of its own, so sending, reserving a
  sequence and transmitting interleave with ingress, opening, advancing the durable
  high-water and routing, and with detaching, pairing and unpairing, in any order.
  The head of \<open>ch_out\<close> is what the outbound promise chain works on; \<open>ch_stage\<close> is
  where the inbound drain stands.

  The base64 text of an envelope is decoded where the channel does it. Audit records
  are kept by reason only.
\<close>

subsection \<open>State\<close>

datatype audit_reason =
    PlaintextPostKey | OpenFailed | IngressOverflow | OutboundOverflow
  | SequencePersistFailed | StaleGenerationAudit | SequenceExhausted

datatype out_stage = OutQueued | OutReserved "storage_error + nat option"

datatype in_stage = InIdle | Advancing nat js | Advanced nat js "storage_error + advance_result"

record owner_channel =
  ch_peer :: string
  ch_key :: string
  ch_keys :: directional_keys
  ch_detached :: bool
  ch_notified :: bool
  ch_recv_seq :: nat
  ch_failures :: nat
  ch_out :: "(string \<times> out_stage) list"
  ch_out_frames :: nat
  ch_out_bytes :: nat
  ch_in :: "bytes list"
  ch_stage :: in_stage
  ch_audit :: "audit_reason list"

definition MAX_OPEN_FAILURES :: nat where "MAX_OPEN_FAILURES = 5"
definition MAX_PENDING_OWNER_FRAMES :: nat where "MAX_PENDING_OWNER_FRAMES = 64"
definition MAX_PENDING_OWNER_OUTBOUND_FRAMES :: nat where "MAX_PENDING_OWNER_OUTBOUND_FRAMES = 512"
definition MAX_PENDING_OWNER_OUTBOUND_BYTES :: nat where "MAX_PENDING_OWNER_OUTBOUND_BYTES = 16 * 1024 * 1024"

lemmas channel_limits = MAX_OPEN_FAILURES_def MAX_PENDING_OWNER_FRAMES_def
  MAX_PENDING_OWNER_OUTBOUND_FRAMES_def MAX_PENDING_OWNER_OUTBOUND_BYTES_def

text \<open>\<open>createPeerChannel\<close> of \<open>extension/relay_transport.ts\<close> for a persisted owner.\<close>

definition createPeerChannel :: "peer_record \<Rightarrow> owner_channel option" where
  "createPeerChannel p =
    (case (decodePeerChannelKeys (channel_key p), parsePeerChannelSequence (send_seq p),
           parsePeerChannelSequence (recv_seq p), channel_key p) of
       (Some (s, r), Some _, Some n, Some k) \<Rightarrow>
         Some \<lparr>ch_peer = remote_epk p, ch_key = k, ch_keys = \<lparr>key_send = s, key_recv = r\<rparr>, ch_detached = False,
               ch_notified = False, ch_recv_seq = n, ch_failures = 0, ch_out = [], ch_out_frames = 0,
               ch_out_bytes = 0, ch_in = [], ch_stage = InIdle, ch_audit = []\<rparr>
     | _ \<Rightarrow> None)"

subsection \<open>Operations of a channel\<close>

definition audit :: "audit_reason \<Rightarrow> owner_channel \<Rightarrow> owner_channel" where
  "audit a c = c\<lparr>ch_audit := ch_audit c @ [a]\<rparr>"

definition detach :: "owner_channel \<Rightarrow> owner_channel" where
  "detach c = (if ch_detached c then c
    else let d = c\<lparr>ch_detached := True\<rparr> in
      if ch_in c \<noteq> [] then audit IngressOverflow d\<lparr>ch_in := []\<rparr> else d)"

definition disconnect :: "owner_channel \<Rightarrow> owner_channel" where
  "disconnect c = (if ch_notified c then c else detach (c\<lparr>ch_notified := True\<rparr>))"

definition send_message :: "js \<Rightarrow> owner_channel \<Rightarrow> owner_channel" where
  "send_message msg c =
    (if ch_detached c then c
     else let json = stringify msg; jsonBytes = length (utf8 json) in
       if ch_out_frames c \<ge> MAX_PENDING_OWNER_OUTBOUND_FRAMES \<or>
          jsonBytes > MAX_PENDING_OWNER_OUTBOUND_BYTES - ch_out_bytes c
       then disconnect (audit OutboundOverflow c)
       else c\<lparr>ch_out_frames := ch_out_frames c + 1, ch_out_bytes := ch_out_bytes c + jsonBytes,
              ch_out := ch_out c @ [(json, OutQueued)]\<rparr>)"

text \<open>The chain's head asks for its sequence; then, with the answer, it is sealed and sent.\<close>

definition reserve_step :: "bool \<Rightarrow> bool \<Rightarrow> owner_channel \<Rightarrow> peers_file \<Rightarrow> owner_channel \<times> peers_file" where
  "reserve_step r w c f = (case ch_out c of
     (json, OutQueued) # rest \<Rightarrow>
       let (res, f') = reserveSendSeq r w (ch_peer c) (ch_key c) f in
       (c\<lparr>ch_out := (json, OutReserved res) # rest\<rparr>, f')
   | _ \<Rightarrow> (c, f))"

definition reserve_failed :: "audit_reason \<Rightarrow> owner_channel \<Rightarrow> owner_channel" where
  "reserve_failed a c = (let d = audit a c in if \<not> ch_detached d then disconnect d else d)"

definition transmit_step ::
  "cipher \<Rightarrow> bytes \<Rightarrow> bool \<Rightarrow> owner_channel \<Rightarrow> owner_channel \<times> (nat \<times> bytes) option" where
  "transmit_step enc nonce relay_ok c = (case ch_out c of
     (json, OutReserved res) # rest \<Rightarrow>
       let done_with = (\<lambda>d. d\<lparr>ch_out := rest, ch_out_frames := ch_out_frames d - 1,
                              ch_out_bytes := ch_out_bytes d - length (utf8 json)\<rparr>) in
       (case res of
          Inl e \<Rightarrow> (done_with (reserve_failed (if e = RangeError then SequenceExhausted else SequencePersistFailed) c), None)
        | Inr None \<Rightarrow> (done_with (reserve_failed SequencePersistFailed c), None)
        | Inr (Some n) \<Rightarrow>
           (case seal enc nonce (key_send (ch_keys c)) n json of
              None \<Rightarrow> (done_with (disconnect (audit SequenceExhausted c)), None)
            | Some frame \<Rightarrow> (done_with c, if relay_ok then Some (n, frame) else None)))
   | _ \<Rightarrow> (c, None))"

definition onIngress :: "string \<Rightarrow> string \<Rightarrow> owner_channel \<Rightarrow> owner_channel" where
  "onIngress peer ct c =
    (if ch_detached c \<or> peer \<noteq> ch_peer c then c
     else let frame = base64_decode ct in
       if frame = [] \<or> hd frame \<noteq> FRAME_VERSION then audit PlaintextPostKey c
       else if length (ch_in c) \<ge> MAX_PENDING_OWNER_FRAMES then audit IngressOverflow c
       else c\<lparr>ch_in := ch_in c @ [frame]\<rparr>)"

definition open_failed :: "owner_channel \<Rightarrow> owner_channel" where
  "open_failed c =
    (let d = audit OpenFailed (c\<lparr>ch_failures := ch_failures c + 1\<rparr>) in
     if ch_failures d \<ge> MAX_OPEN_FAILURES then disconnect d else d)"

text \<open>\<open>openAndRoute\<close> up to its \<open>await\<close>, the awaited call, and what follows it.\<close>

definition open_step :: "decipher \<Rightarrow> owner_channel \<Rightarrow> owner_channel" where
  "open_step dec c =
    (if ch_detached c \<or> ch_stage c \<noteq> InIdle then c
     else case ch_in c of
       [] \<Rightarrow> c
     | frame # rest \<Rightarrow>
        let d = c\<lparr>ch_in := rest\<rparr> in
        (case open_frame dec (key_recv (ch_keys d)) frame (ch_recv_seq d) of
           None \<Rightarrow> open_failed d
         | Some (n, json) \<Rightarrow>
            (case decodeRelayClientPayload json of
               None \<Rightarrow> open_failed d
             | Some message \<Rightarrow> d\<lparr>ch_stage := Advancing n message\<rparr>)))"

definition advance_step :: "bool \<Rightarrow> bool \<Rightarrow> owner_channel \<Rightarrow> peers_file \<Rightarrow> owner_channel \<times> peers_file" where
  "advance_step r w c f = (case ch_stage c of
     Advancing n message \<Rightarrow>
       let (res, f') = compareAndAdvanceRecvSeq r w (ch_peer c) (ch_key c) n f in
       (c\<lparr>ch_stage := Advanced n message res\<rparr>, f')
   | _ \<Rightarrow> (c, f))"

definition route_step :: "owner_channel \<Rightarrow> owner_channel \<times> (nat \<times> js) option" where
  "route_step c = (case ch_stage c of
     Advanced n message res \<Rightarrow>
       let d = c\<lparr>ch_stage := InIdle\<rparr> in
       if ch_detached d then (d, None)
       else (case res of
          Inl _ \<Rightarrow> (disconnect (audit SequencePersistFailed d), None)
        | Inr ReplayResult \<Rightarrow> (open_failed d, None)
        | Inr StaleGeneration \<Rightarrow> (disconnect (audit StaleGenerationAudit d), None)
        | Inr Accepted \<Rightarrow> (d\<lparr>ch_recv_seq := n, ch_failures := 0\<rparr>, Some (n, message)))
   | _ \<Rightarrow> (c, None))"

subsection \<open>Channels over one roster\<close>

text \<open>
  \<open>ow_wire\<close> and \<open>ow_delivered\<close> are what was sent and what reached \<open>onMessage\<close>, with the
  channel, its owner and its key text; \<open>ow_used\<close> are the key texts ever paired and
  \<open>ow_seen\<close> the frames the relay ever handed to a channel.
\<close>

type_synonym claim = "string \<times> string \<times> nat"

record owner_world =
  ow_file :: peers_file
  ow_channels :: "nat \<Rightarrow> owner_channel option"
  ow_wire :: "(claim \<times> bytes) list"
  ow_delivered :: "(nat \<times> claim \<times> js) list"
  ow_used :: "string list"
  ow_seen :: "bytes list"

definition roster_keys :: "peers_file \<Rightarrow> string list" where
  "roster_keys f = (case f of Roster ps \<Rightarrow> concat (map (\<lambda>p. case channel_key p of None \<Rightarrow> [] | Some k \<Rightarrow> [k]) ps) | _ \<Rightarrow> [])"

definition owner_start :: "peers_file \<Rightarrow> owner_world" where
  "owner_start f = \<lparr>ow_file = f, ow_channels = Map.empty, ow_wire = [], ow_delivered = [], ow_used = roster_keys f, ow_seen = []\<rparr>"

datatype owner_op =
    PairOp bool bool peer_record
  | UnpairOp bool bool string
  | AttachOp nat peer_record
  | DetachOp nat
  | SendOp nat js
  | ReserveOp nat bool bool
  | TransmitOp nat bytes bool
  | IngressOp nat string string
  | OpenOp nat
  | AdvanceOp nat bool bool
  | RouteOp nat

definition set_channel :: "nat \<Rightarrow> owner_channel \<Rightarrow> owner_world \<Rightarrow> owner_world" where
  "set_channel i c w = w\<lparr>ow_channels := (ow_channels w)(i \<mapsto> c)\<rparr>"

definition on_channel :: "nat \<Rightarrow> (owner_channel \<Rightarrow> owner_world) \<Rightarrow> owner_world \<Rightarrow> owner_world" where
  "on_channel i g w = (case ow_channels w i of None \<Rightarrow> w | Some c \<Rightarrow> g c)"

fun owner_do :: "cipher \<Rightarrow> decipher \<Rightarrow> owner_op \<Rightarrow> owner_world \<Rightarrow> owner_world" where
  "owner_do enc dec (PairOp r ok p) w =
    w\<lparr>ow_file := snd (addPeer r ok p (ow_file w)),
      ow_used := (case channel_key p of None \<Rightarrow> ow_used w | Some k \<Rightarrow> k # ow_used w)\<rparr>"
| "owner_do enc dec (UnpairOp r ok epk) w = w\<lparr>ow_file := snd (removePeer r ok epk (ow_file w))\<rparr>"
| "owner_do enc dec (AttachOp i p) w =
    (if ow_channels w i = None then (case createPeerChannel p of None \<Rightarrow> w | Some c \<Rightarrow> set_channel i c w) else w)"
| "owner_do enc dec (DetachOp i) w = on_channel i (\<lambda>c. set_channel i (detach c) w) w"
| "owner_do enc dec (SendOp i m) w = on_channel i (\<lambda>c. set_channel i (send_message m c) w) w"
| "owner_do enc dec (ReserveOp i r ok) w = on_channel i (\<lambda>c.
    let (d, f) = reserve_step r ok c (ow_file w) in set_channel i d (w\<lparr>ow_file := f\<rparr>)) w"
| "owner_do enc dec (TransmitOp i nonce ok) w = on_channel i (\<lambda>c.
    let (d, sent) = transmit_step enc nonce ok c in
    set_channel i d (case sent of None \<Rightarrow> w
      | Some (n, frame) \<Rightarrow> w\<lparr>ow_wire := ow_wire w @ [((ch_peer c, ch_key c, n), frame)]\<rparr>)) w"
| "owner_do enc dec (IngressOp i peer ct) w = on_channel i (\<lambda>c.
    set_channel i (onIngress peer ct c) (w\<lparr>ow_seen := base64_decode ct # ow_seen w\<rparr>)) w"
| "owner_do enc dec (OpenOp i) w = on_channel i (\<lambda>c. set_channel i (open_step dec c) w) w"
| "owner_do enc dec (AdvanceOp i r ok) w = on_channel i (\<lambda>c.
    let (d, f) = advance_step r ok c (ow_file w) in set_channel i d (w\<lparr>ow_file := f\<rparr>)) w"
| "owner_do enc dec (RouteOp i) w = on_channel i (\<lambda>c.
    let (d, routed) = route_step c in
    set_channel i d (case routed of None \<Rightarrow> w
      | Some (n, m) \<Rightarrow> w\<lparr>ow_delivered := ow_delivered w @ [(i, (ch_peer c, ch_key c, n), m)]\<rparr>)) w"

text \<open>A pairing brings keys of its own: those of the ephemeral key agreement.\<close>

fun fresh_op :: "owner_op \<Rightarrow> owner_world \<Rightarrow> bool" where
  "fresh_op (PairOp r ok p) w = (case channel_key p of None \<Rightarrow> True | Some k \<Rightarrow> k \<notin> set (ow_used w))"
| "fresh_op _ w = True"

inductive owner_run :: "cipher \<Rightarrow> decipher \<Rightarrow> peers_file \<Rightarrow> owner_world \<Rightarrow> bool" for enc dec f where
  start: "owner_run enc dec f (owner_start f)"
| step: "owner_run enc dec f w \<Longrightarrow> fresh_op op w \<Longrightarrow> owner_run enc dec f (owner_do enc dec op w)"

subsection \<open>Claims on sequences\<close>

text \<open>
  A claim is taken from the durable high-water, is pending in at most one place, and is
  then used once or dropped. \<open>L\<close> are the claims ever taken, \<open>P\<close> the pending ones, \<open>D\<close>
  the used ones.
\<close>

definition spent_once :: "(nat \<Rightarrow> claim option) \<Rightarrow> claim list \<Rightarrow> claim set \<Rightarrow> bool" where
  "spent_once P D L \<longleftrightarrow> distinct D \<and> (\<forall>i t. P i = Some t \<longrightarrow> t \<notin> set D) \<and>
    (\<forall>i j t. P i = Some t \<longrightarrow> P j = Some t \<longrightarrow> i = j) \<and> set D \<union> ran P \<subseteq> L"

lemma spent_claim: "spent_once P D L \<Longrightarrow> t \<notin> L \<Longrightarrow> spent_once (P(i \<mapsto> t)) D (insert t L)"
  unfolding spent_once_def by (auto simp: ran_def simp del: split_paired_All split_paired_Ex split: if_splits)

lemma spent_drop: "spent_once P D L \<Longrightarrow> spent_once (P(i := None)) D L"
  unfolding spent_once_def by (auto simp: ran_def simp del: split_paired_All split_paired_Ex split: if_splits)

lemma spent_use: "spent_once P D L \<Longrightarrow> P i = Some t \<Longrightarrow> spent_once (P(i := None)) (D @ [t]) L"
  unfolding spent_once_def by (auto simp: ran_def simp del: split_paired_All split_paired_Ex split: if_splits)

definition covered :: "(peer_record \<Rightarrow> string option) \<Rightarrow> peers_file \<Rightarrow> string set \<Rightarrow> claim set \<Rightarrow> bool" where
  "covered sel f used L \<longleftrightarrow> (\<forall>e k n. (e, k, n) \<in> L \<longrightarrow> k \<in> used \<and>
    (\<forall>p. peer_of e f = Some p \<longrightarrow> channel_key p = Some k \<longrightarrow>
      (\<exists>s. parsePeerChannelSequence (sel p) = Some s \<and> n \<le> s)))"

lemma covered_new:
  assumes "covered sel f used L" "peer_of e f = Some p" "channel_key p = Some k"
    "parsePeerChannelSequence (sel p) = Some s" "s < n"
  shows "(e, k, n) \<notin> L"
  using assms unfolding covered_def by fastforce

lemma covered_known: "covered sel f used L \<Longrightarrow> set K = used \<Longrightarrow> covered sel f (insert k used) L"
  unfolding covered_def by blast

lemma covered_pair:
  assumes "covered sel f used L" "\<And>k. channel_key p = Some k \<Longrightarrow> k \<notin> used"
  shows "covered sel (snd (addPeer r ok p f)) (case channel_key p of None \<Rightarrow> used | Some k \<Rightarrow> insert k used) L"
  using assms add_result [of r ok p f "fst (addPeer r ok p f)" "snd (addPeer r ok p f)"]
  unfolding covered_def by (fastforce split: option.splits if_splits)

lemma covered_remove: "covered sel f used L \<Longrightarrow> covered sel (snd (removePeer r ok epk f)) used L"
  using remove_result [of r ok epk f "fst (removePeer r ok epk f)" "snd (removePeer r ok epk f)"]
  unfolding covered_def by (fastforce split: if_splits)

lemma covered_same:
  assumes "covered sel f used L"
    "\<And>e p'. peer_of e f' = Some p' \<Longrightarrow> \<exists>p. peer_of e f = Some p \<and> channel_key p = channel_key p' \<and> sel p = sel p'"
  shows "covered sel f' used L"
  using assms unfolding covered_def by metis

lemma covered_reserve:
  assumes "covered recv_seq f used L" "reserveSendSeq r ok e k f = (res, f')"
  shows "covered recv_seq f' used L"
proof (rule covered_same [OF assms(1)])
  fix e' p' assume "peer_of e' f' = Some p'"
  with reserve_result [OF assms(2)] show "\<exists>p. peer_of e' f = Some p \<and> channel_key p = channel_key p' \<and> recv_seq p = recv_seq p'"
    by (cases "e' = e") auto
qed

lemma covered_advance:
  assumes "covered send_seq f used L" "compareAndAdvanceRecvSeq r ok e k n f = (res, f')"
  shows "covered send_seq f' used L"
proof (rule covered_same [OF assms(1)])
  fix e' p' assume "peer_of e' f' = Some p'"
  with advance_result [OF assms(2)] show "\<exists>p. peer_of e' f = Some p \<and> channel_key p = channel_key p' \<and> send_seq p = send_seq p'"
    by (cases "e' = e") auto
qed

lemma reserve_claims:
  assumes "covered send_seq f used L" "reserveSendSeq r ok e k f = (Inr (Some n), f')"
    "\<And>p. peer_of e f = Some p \<Longrightarrow> channel_key p = Some k \<Longrightarrow> k \<in> used"
  shows "(e, k, n) \<notin> L \<and> covered send_seq f' used (insert (e, k, n) L)"
proof -
  from reserve_result [OF assms(2)] obtain p s where p: "peer_of e f = Some p" "channel_key p = Some k"
    "parsePeerChannelSequence (send_seq p) = Some s" "n = s + 1" "n \<le> MAX_UINT64"
    and f': "\<And>e'. peer_of e' f' = (if e' = e then Some (p\<lparr>send_seq := Some (nat_text n)\<rparr>) else peer_of e' f)"
    by auto
  have "(e, k, n) \<notin> L" using covered_new [OF assms(1) p(1-3)] p(4) by simp
  moreover have "covered send_seq f' used (insert (e, k, n) L)"
    using assms(1,3) p f' parse_nat_text [of n] unfolding covered_def by (fastforce split: if_splits)
  ultimately show ?thesis ..
qed

lemma advance_claims:
  assumes "covered recv_seq f used L" "compareAndAdvanceRecvSeq r ok e k n f = (Inr Accepted, f')"
    "\<And>p. peer_of e f = Some p \<Longrightarrow> channel_key p = Some k \<Longrightarrow> k \<in> used"
  shows "(e, k, n) \<notin> L \<and> covered recv_seq f' used (insert (e, k, n) L)"
proof -
  from advance_result [OF assms(2)] obtain p s where p: "peer_of e f = Some p" "channel_key p = Some k"
    "parsePeerChannelSequence (recv_seq p) = Some s" "s < n" "n \<le> MAX_UINT64"
    and f': "\<And>e'. peer_of e' f' = (if e' = e then Some (p\<lparr>recv_seq := Some (nat_text n)\<rparr>) else peer_of e' f)"
    by auto
  have "(e, k, n) \<notin> L" using covered_new [OF assms(1) p(1-4)] .
  moreover have "covered recv_seq f' used (insert (e, k, n) L)"
    using assms(1,3) p f' parse_nat_text [of n] unfolding covered_def by (fastforce split: if_splits)
  ultimately show ?thesis ..
qed

subsection \<open>Frames of the channel operations\<close>

definition recv_pend :: "owner_channel \<Rightarrow> claim option" where
  "recv_pend c = (case ch_stage c of Advanced n m (Inr Accepted) \<Rightarrow> Some (ch_peer c, ch_key c, n) | _ \<Rightarrow> None)"

definition send_pend :: "owner_channel \<Rightarrow> claim option" where
  "send_pend c = (case ch_out c of (json, OutReserved (Inr (Some n))) # _ \<Rightarrow> Some (ch_peer c, ch_key c, n) | _ \<Rightarrow> None)"

definition pending :: "(owner_channel \<Rightarrow> claim option) \<Rightarrow> owner_world \<Rightarrow> nat \<Rightarrow> claim option" where
  "pending pend w i = Option.bind (ow_channels w i) pend"

lemma pending_set [simp]: "pending pend (set_channel i d w) = (pending pend w)(i := pend d)"
  by (auto simp: pending_def set_channel_def)

lemma pending_at: "ow_channels w i = Some c \<Longrightarrow> pending pend w i = pend c"
  by (simp add: pending_def)

lemma set_channel_simps [simp]:
  "ow_file (set_channel i d w) = ow_file w" "ow_wire (set_channel i d w) = ow_wire w"
  "ow_delivered (set_channel i d w) = ow_delivered w" "ow_used (set_channel i d w) = ow_used w"
  "ow_seen (set_channel i d w) = ow_seen w" "ow_channels (set_channel i d w) = (ow_channels w)(i \<mapsto> d)"
  by (simp_all add: set_channel_def)

lemma pending_frame [simp]:
  "pending pend (w\<lparr>ow_file := f\<rparr>) = pending pend w" "pending pend (w\<lparr>ow_wire := x\<rparr>) = pending pend w"
  "pending pend (w\<lparr>ow_delivered := y\<rparr>) = pending pend w" "pending pend (w\<lparr>ow_used := u\<rparr>) = pending pend w"
  "pending pend (w\<lparr>ow_seen := z\<rparr>) = pending pend w"
  by (auto simp: pending_def)

lemmas channel_ops = audit_def detach_def disconnect_def send_message_def reserve_failed_def onIngress_def
  open_failed_def Let_def

lemma keeps_identity [simp]:
  "ch_peer (detach c) = ch_peer c" "ch_key (detach c) = ch_key c" "ch_keys (detach c) = ch_keys c"
  "ch_peer (disconnect c) = ch_peer c" "ch_key (disconnect c) = ch_key c" "ch_keys (disconnect c) = ch_keys c"
  "ch_peer (audit a c) = ch_peer c" "ch_key (audit a c) = ch_key c" "ch_keys (audit a c) = ch_keys c"
  "ch_peer (send_message m c) = ch_peer c" "ch_key (send_message m c) = ch_key c" "ch_keys (send_message m c) = ch_keys c"
  "ch_peer (onIngress p ct c) = ch_peer c" "ch_key (onIngress p ct c) = ch_key c" "ch_keys (onIngress p ct c) = ch_keys c"
  "ch_peer (reserve_failed a c) = ch_peer c" "ch_key (reserve_failed a c) = ch_key c" "ch_keys (reserve_failed a c) = ch_keys c"
  "ch_peer (open_failed c) = ch_peer c" "ch_key (open_failed c) = ch_key c" "ch_keys (open_failed c) = ch_keys c"
  by (simp_all add: channel_ops)

lemma keeps_stage [simp]:
  "ch_stage (detach c) = ch_stage c" "ch_stage (disconnect c) = ch_stage c" "ch_stage (audit a c) = ch_stage c"
  "ch_stage (send_message m c) = ch_stage c" "ch_stage (onIngress p ct c) = ch_stage c"
  "ch_stage (reserve_failed a c) = ch_stage c" "ch_stage (open_failed c) = ch_stage c"
  by (simp_all add: channel_ops)

lemma keeps_out [simp]:
  "ch_out (detach c) = ch_out c" "ch_out (disconnect c) = ch_out c" "ch_out (audit a c) = ch_out c"
  "ch_out (onIngress p ct c) = ch_out c" "ch_out (reserve_failed a c) = ch_out c" "ch_out (open_failed c) = ch_out c"
  by (simp_all add: channel_ops)

lemma step_identity [simp]:
  "ch_peer (open_step dec c) = ch_peer c" "ch_key (open_step dec c) = ch_key c" "ch_keys (open_step dec c) = ch_keys c"
  "ch_peer (fst (reserve_step r ok c f)) = ch_peer c" "ch_key (fst (reserve_step r ok c f)) = ch_key c"
  "ch_keys (fst (reserve_step r ok c f)) = ch_keys c"
  "ch_peer (fst (advance_step r ok c f)) = ch_peer c" "ch_key (fst (advance_step r ok c f)) = ch_key c"
  "ch_keys (fst (advance_step r ok c f)) = ch_keys c"
  "ch_peer (fst (route_step c)) = ch_peer c" "ch_key (fst (route_step c)) = ch_key c" "ch_keys (fst (route_step c)) = ch_keys c"
  "ch_peer (fst (transmit_step enc nonce rok c)) = ch_peer c" "ch_key (fst (transmit_step enc nonce rok c)) = ch_key c"
  "ch_keys (fst (transmit_step enc nonce rok c)) = ch_keys c"
  by (auto simp: open_step_def reserve_step_def advance_step_def route_step_def transmit_step_def Let_def
      split: list.splits option.splits prod.splits out_stage.splits in_stage.splits sum.splits advance_result.splits)

lemma step_stage [simp]:
  "ch_stage (fst (reserve_step r ok c f)) = ch_stage c" "ch_stage (fst (transmit_step enc nonce rok c)) = ch_stage c"
  by (auto simp: reserve_step_def transmit_step_def Let_def split: list.splits option.splits prod.splits out_stage.splits sum.splits)

lemma step_out [simp]:
  "ch_out (open_step dec c) = ch_out c" "ch_out (fst (advance_step r ok c f)) = ch_out c" "ch_out (fst (route_step c)) = ch_out c"
  by (auto simp: open_step_def advance_step_def route_step_def Let_def
      split: list.splits option.splits prod.splits in_stage.splits sum.splits advance_result.splits)

lemma recv_pend_same: "ch_peer c = ch_peer d \<Longrightarrow> ch_key c = ch_key d \<Longrightarrow> ch_stage c = ch_stage d \<Longrightarrow> recv_pend c = recv_pend d"
  by (auto simp: recv_pend_def split: in_stage.splits sum.splits advance_result.splits)

lemma send_pend_same: "ch_peer c = ch_peer d \<Longrightarrow> ch_key c = ch_key d \<Longrightarrow> ch_out c = ch_out d \<Longrightarrow> send_pend c = send_pend d"
  by (auto simp: send_pend_def split: list.splits out_stage.splits sum.splits option.splits)

lemma keeps_pending [simp]:
  "recv_pend (detach c) = recv_pend c" "recv_pend (send_message m c) = recv_pend c" "recv_pend (onIngress p ct c) = recv_pend c"
  "recv_pend (fst (reserve_step r ok c f)) = recv_pend c" "recv_pend (fst (transmit_step enc nonce rok c)) = recv_pend c"
  by (rule recv_pend_same; simp)+

lemma open_pending [simp]: "recv_pend (open_step dec c) = recv_pend c"
  by (auto simp: recv_pend_def open_step_def Let_def split: list.splits option.splits prod.splits in_stage.splits)

lemma keeps_send_pending [simp]:
  "send_pend (detach c) = send_pend c" "send_pend (onIngress p ct c) = send_pend c" "send_pend (open_step dec c) = send_pend c"
  "send_pend (fst (advance_step r ok c f)) = send_pend c" "send_pend (fst (route_step c)) = send_pend c"
  by (rule send_pend_same; simp)+

lemma send_keeps_pending [simp]: "send_pend (send_message m c) = send_pend c"
  by (auto simp: send_pend_def send_message_def Let_def split: list.splits)

lemma created_idle [simp]: "createPeerChannel p = Some c \<Longrightarrow> recv_pend c = None" "createPeerChannel p = Some c \<Longrightarrow> send_pend c = None"
  by (auto simp: createPeerChannel_def recv_pend_def send_pend_def split: option.splits)

subsection \<open>Well-formed channels\<close>

definition out_bytes :: "(string \<times> out_stage) list \<Rightarrow> nat" where
  "out_bytes xs = sum_list (map (\<lambda>x. length (utf8 (fst x))) xs)"

definition channel_ok :: "owner_channel \<Rightarrow> bool" where
  "channel_ok c \<longleftrightarrow>
    (\<forall>x \<in> set (tl (ch_out c)). snd x = OutQueued) \<and>
    ch_out_frames c = length (ch_out c) \<and> ch_out_bytes c = out_bytes (ch_out c) \<and>
    length (ch_out c) \<le> MAX_PENDING_OWNER_OUTBOUND_FRAMES \<and> out_bytes (ch_out c) \<le> MAX_PENDING_OWNER_OUTBOUND_BYTES \<and>
    length (ch_in c) \<le> MAX_PENDING_OWNER_FRAMES \<and> ch_failures c \<le> MAX_OPEN_FAILURES \<and>
    (ch_failures c = MAX_OPEN_FAILURES \<longrightarrow> ch_detached c) \<and>
    (ch_detached c \<longrightarrow> ch_in c = []) \<and> (ch_notified c \<longrightarrow> ch_detached c)"

lemma out_bytes_simps [simp]: "out_bytes [] = 0" "out_bytes (x # xs) = length (utf8 (fst x)) + out_bytes xs"
  "out_bytes (xs @ ys) = out_bytes xs + out_bytes ys"
  by (simp_all add: out_bytes_def)

lemma ok_created: "createPeerChannel p = Some c \<Longrightarrow> channel_ok c"
  by (auto simp: createPeerChannel_def channel_ok_def channel_limits split: option.splits)

lemma ok_audit [simp]: "channel_ok (audit a c) = channel_ok c"
  by (simp add: channel_ok_def audit_def)

lemma ok_detach: "channel_ok c \<Longrightarrow> channel_ok (detach c)"
  by (auto simp: channel_ok_def detach_def audit_def Let_def)

lemma ok_disconnect: "channel_ok c \<Longrightarrow> channel_ok (disconnect c)"
  by (auto simp: channel_ok_def detach_def disconnect_def audit_def Let_def)

lemma ok_send:
  assumes "channel_ok c"
  shows "channel_ok (send_message m c)"
proof (cases "ch_detached c \<or> ch_out_frames c \<ge> MAX_PENDING_OWNER_OUTBOUND_FRAMES \<or>
    length (utf8 (stringify m)) > MAX_PENDING_OWNER_OUTBOUND_BYTES - ch_out_bytes c")
  case True
  with assms ok_disconnect [of "audit OutboundOverflow c"] show ?thesis by (auto simp: send_message_def Let_def)
next
  case False
  with assms show ?thesis by (cases "ch_out c") (auto simp: send_message_def Let_def channel_ok_def)
qed

lemma ok_ingress: "channel_ok c \<Longrightarrow> channel_ok (onIngress p ct c)"
  by (auto simp: onIngress_def Let_def) (auto simp: channel_ok_def)

lemma ok_reserve: "channel_ok c \<Longrightarrow> channel_ok (fst (reserve_step r ok c f))"
  by (auto simp: channel_ok_def reserve_step_def split: list.splits out_stage.splits prod.splits)

lemma ok_advance: "channel_ok c \<Longrightarrow> channel_ok (fst (advance_step r ok c f))"
  by (auto simp: channel_ok_def advance_step_def split: in_stage.splits prod.splits)

lemma ok_failed: "channel_ok c \<Longrightarrow> \<not> ch_detached c \<Longrightarrow> channel_ok (open_failed c)"
  by (auto simp: channel_ok_def channel_ops)

lemma ok_stage [simp]: "channel_ok (c\<lparr>ch_stage := st\<rparr>) = channel_ok c"
  by (simp add: channel_ok_def)

lemma ok_open: "channel_ok c \<Longrightarrow> channel_ok (open_step dec c)"
proof (cases "ch_detached c \<or> ch_stage c \<noteq> InIdle \<or> ch_in c = []")
  case True
  moreover assume "channel_ok c"
  ultimately show ?thesis by (auto simp: open_step_def)
next
  case False
  assume ok: "channel_ok c"
  then have "channel_ok (c\<lparr>ch_in := tl (ch_in c)\<rparr>)" by (auto simp: channel_ok_def)
  with False ok_failed [OF this] show ?thesis
    by (auto simp: open_step_def Let_def split: list.splits option.splits)
qed

lemma ok_route: "channel_ok c \<Longrightarrow> channel_ok (fst (route_step c))"
proof (cases "ch_stage c")
  case (Advanced n m res)
  assume "channel_ok c"
  then have ok: "channel_ok (c\<lparr>ch_stage := InIdle\<rparr>)" by simp
  then have "channel_ok (c\<lparr>ch_stage := InIdle, ch_recv_seq := n, ch_failures := 0\<rparr>)" if "\<not> ch_detached c"
    using that by (auto simp: channel_ok_def channel_limits)
  with Advanced ok ok_failed [OF ok] ok_disconnect [of "audit SequencePersistFailed (c\<lparr>ch_stage := InIdle\<rparr>)"]
    ok_disconnect [of "audit StaleGenerationAudit (c\<lparr>ch_stage := InIdle\<rparr>)"]
  show ?thesis by (auto simp: route_step_def Let_def split: sum.splits advance_result.splits)
qed (auto simp: route_step_def)

lemma out_kept [simp]:
  "ch_out_frames (detach c) = ch_out_frames c" "ch_out_bytes (detach c) = ch_out_bytes c"
  "ch_out_frames (disconnect c) = ch_out_frames c" "ch_out_bytes (disconnect c) = ch_out_bytes c"
  "ch_out_frames (audit a c) = ch_out_frames c" "ch_out_bytes (audit a c) = ch_out_bytes c"
  by (simp_all add: channel_ops)

lemma ok_transmitted:
  assumes "channel_ok d" "ch_out d = (json, st) # rest"
  shows "channel_ok (d\<lparr>ch_out := rest, ch_out_frames := ch_out_frames d - Suc 0, ch_out_bytes := ch_out_bytes d - length (utf8 json)\<rparr>)"
  using assms by (cases rest) (auto simp: channel_ok_def)

lemma ok_reserve_failed: "channel_ok c \<Longrightarrow> channel_ok (reserve_failed a c)"
  using ok_disconnect [of "audit a c"] by (auto simp: reserve_failed_def Let_def)

lemma ok_transmit: "channel_ok c \<Longrightarrow> channel_ok (fst (transmit_step enc nonce rok c))"
  using ok_transmitted [of "disconnect (audit SequenceExhausted c)"] ok_disconnect [of "audit SequenceExhausted c"] ok_reserve_failed [of c]
  by (auto simp: transmit_step_def Let_def split: list.splits out_stage.splits sum.splits option.splits
      intro!: ok_transmitted)

lemma transmit_head:
  assumes "channel_ok c" "transmit_step enc nonce rok c = (d, sent)"
  shows "(send_pend d = None \<and> (\<forall>n frame. sent = Some (n, frame) \<longrightarrow> send_pend c = Some (ch_peer c, ch_key c, n) \<and>
      (\<exists>json. seal enc nonce (key_send (ch_keys c)) n json = Some frame))) \<or> d = c \<and> sent = None"
proof (cases "\<exists>json res rest. ch_out c = (json, OutReserved res) # rest")
  case False
  with assms(2) show ?thesis by (auto simp: transmit_step_def split: list.splits out_stage.splits)
next
  case True
  then obtain json res rest where out: "ch_out c = (json, OutReserved res) # rest" by blast
  then have "\<forall>x \<in> set rest. snd x = OutQueued" using assms(1) by (simp add: channel_ok_def)
  then have "send_pend e = None" if "ch_out e = rest" for e
    using that by (cases rest) (auto simp: send_pend_def)
  with assms(2) show ?thesis
    by (auto simp: transmit_step_def out Let_def send_pend_def split: sum.splits option.splits if_splits)
qed

subsection \<open>The invariant of every interleaving\<close>

definition ledger :: "(owner_channel \<Rightarrow> claim option) \<Rightarrow> (peer_record \<Rightarrow> string option) \<Rightarrow> claim list \<Rightarrow> owner_world \<Rightarrow> bool" where
  "ledger pend sel D w \<longleftrightarrow>
    (\<exists>L. spent_once (pending pend w) D L \<and> covered sel (ow_file w) (set (ow_used w)) L)"

definition keys_known :: "peers_file \<Rightarrow> string set \<Rightarrow> bool" where
  "keys_known f used \<longleftrightarrow> (\<forall>e p k. peer_of e f = Some p \<longrightarrow> channel_key p = Some k \<longrightarrow> k \<in> used)"

abbreviation delivered_claims :: "owner_world \<Rightarrow> claim list" where
  "delivered_claims w \<equiv> map (fst \<circ> snd) (ow_delivered w)"

abbreviation wire_claims :: "owner_world \<Rightarrow> claim list" where
  "wire_claims w \<equiv> map fst (ow_wire w)"

definition owner_inv :: "owner_world \<Rightarrow> bool" where
  "owner_inv w \<longleftrightarrow> keys_known (ow_file w) (set (ow_used w)) \<and>
    ledger recv_pend recv_seq (delivered_claims w) w \<and> ledger send_pend send_seq (wire_claims w) w"

lemma ledger_frame:
  "ledger pend sel D w \<Longrightarrow> ow_channels w i = Some c \<Longrightarrow> pend d = pend c \<Longrightarrow> ledger pend sel D (set_channel i d w)"
  unfolding ledger_def by (simp add: fun_upd_idem pending_at)

lemma ledger_file:
  "ledger pend sel D w \<Longrightarrow> (\<And>L. covered sel (ow_file w) (set (ow_used w)) L \<Longrightarrow> covered sel f (set (ow_used w)) L) \<Longrightarrow>
    ledger pend sel D (w\<lparr>ow_file := f\<rparr>)"
  unfolding ledger_def by auto

lemma ledger_ghost [simp]:
  "ledger pend sel D (w\<lparr>ow_wire := x\<rparr>) = ledger pend sel D w" "ledger pend sel D (w\<lparr>ow_delivered := y\<rparr>) = ledger pend sel D w"
  "ledger pend sel D (w\<lparr>ow_seen := z\<rparr>) = ledger pend sel D w"
  by (simp_all add: ledger_def)

lemma ledger_claim:
  assumes "ledger pend sel D w" "pend d = Some t"
    "\<And>L. covered sel (ow_file w) (set (ow_used w)) L \<Longrightarrow> t \<notin> L \<and> covered sel f (set (ow_used w)) (insert t L)"
  shows "ledger pend sel D (set_channel i d (w\<lparr>ow_file := f\<rparr>))"
  using assms spent_claim unfolding ledger_def by fastforce

lemma ledger_drop: "ledger pend sel D w \<Longrightarrow> pend d = None \<Longrightarrow> ledger pend sel D (set_channel i d w)"
  unfolding ledger_def by (auto dest: spent_drop)

lemma ledger_use:
  "ledger pend sel D w \<Longrightarrow> ow_channels w i = Some c \<Longrightarrow> pend c = Some t \<Longrightarrow> pend d = None \<Longrightarrow>
    ledger pend sel (D @ [t]) (set_channel i d w)"
  unfolding ledger_def by (auto simp: pending_at dest: spent_use [of "pending pend w" _ _ i t])

lemma keys_known_same:
  assumes "keys_known f used"
    "\<And>e p'. peer_of e f' = Some p' \<Longrightarrow> \<exists>p. peer_of e f = Some p \<and> channel_key p = channel_key p'"
  shows "keys_known f' used"
  using assms unfolding keys_known_def by metis

lemma keys_known_reserve:
  assumes "keys_known f used" "reserveSendSeq r ok e k f = (res, f')"
  shows "keys_known f' used"
proof (rule keys_known_same [OF assms(1)])
  fix e' p' assume "peer_of e' f' = Some p'"
  with reserve_result [OF assms(2)] show "\<exists>p. peer_of e' f = Some p \<and> channel_key p = channel_key p'"
    by (cases "e' = e") auto
qed

lemma keys_known_advance:
  assumes "keys_known f used" "compareAndAdvanceRecvSeq r ok e k n f = (res, f')"
  shows "keys_known f' used"
proof (rule keys_known_same [OF assms(1)])
  fix e' p' assume "peer_of e' f' = Some p'"
  with advance_result [OF assms(2)] show "\<exists>p. peer_of e' f = Some p \<and> channel_key p = channel_key p'"
    by (cases "e' = e") auto
qed

lemma keys_known_remove: "keys_known f used \<Longrightarrow> keys_known (snd (removePeer r ok epk f)) used"
  using remove_result [of r ok epk f "fst (removePeer r ok epk f)" "snd (removePeer r ok epk f)"]
  unfolding keys_known_def by (fastforce split: if_splits)

lemma keys_known_pair:
  "keys_known f used \<Longrightarrow> keys_known (snd (addPeer r ok p f)) (case channel_key p of None \<Rightarrow> used | Some k \<Rightarrow> insert k used)"
  using add_result [of r ok p f "fst (addPeer r ok p f)" "snd (addPeer r ok p f)"]
  unfolding keys_known_def by (fastforce split: option.splits if_splits)

lemma inv_frame:
  "owner_inv w \<Longrightarrow> ow_channels w i = Some c \<Longrightarrow> recv_pend d = recv_pend c \<Longrightarrow> send_pend d = send_pend c \<Longrightarrow>
    owner_inv (set_channel i d w)"
  unfolding owner_inv_def by (simp add: ledger_frame)

lemma inv_pair:
  assumes "owner_inv w" "fresh_op (PairOp r ok p) w"
  shows "owner_inv (owner_do enc dec (PairOp r ok p) w)"
proof -
  have used: "set (case channel_key p of None \<Rightarrow> ow_used w | Some k \<Rightarrow> k # ow_used w) =
      (case channel_key p of None \<Rightarrow> set (ow_used w) | Some k \<Rightarrow> insert k (set (ow_used w)))"
    by (simp split: option.splits)
  have c: "covered sel (snd (addPeer r ok p (ow_file w))) (case channel_key p of None \<Rightarrow> set (ow_used w) | Some k \<Rightarrow> insert k (set (ow_used w))) L"
    if "covered sel (ow_file w) (set (ow_used w)) L" for sel L
    using covered_pair [OF that, of p r ok] assms(2) by (cases "channel_key p") auto
  have "ledger pend sel D (owner_do enc dec (PairOp r ok p) w)" if "ledger pend sel D w" for pend sel D
    using that c unfolding ledger_def by (auto simp: used)
  with assms(1) show ?thesis
    unfolding owner_inv_def by (auto simp: used keys_known_pair)
qed

lemma inv_remove: "owner_inv w \<Longrightarrow> owner_inv (owner_do enc dec (UnpairOp r ok epk) w)"
  unfolding owner_inv_def by (auto simp: keys_known_remove covered_remove intro!: ledger_file)

lemma inv_reserve:
  assumes "owner_inv w"
  shows "owner_inv (owner_do enc dec (ReserveOp i r ok) w)"
proof (cases "ow_channels w i")
  case None
  with assms show ?thesis by (simp add: on_channel_def)
next
  case (Some c)
  show ?thesis
  proof (cases "\<exists>json rest. ch_out c = (json, OutQueued) # rest")
    case False
    then have "reserve_step r ok c (ow_file w) = (c, ow_file w)"
      by (auto simp: reserve_step_def split: list.splits out_stage.splits)
    with assms Some show ?thesis by (simp add: on_channel_def inv_frame)
  next
    case True
    then obtain json rest where out: "ch_out c = (json, OutQueued) # rest" by blast
    obtain res f' where res: "reserveSendSeq r ok (ch_peer c) (ch_key c) (ow_file w) = (res, f')" by fastforce
    let ?d = "c\<lparr>ch_out := (json, OutReserved res) # rest\<rparr>"
    let ?w = "w\<lparr>ow_file := f'\<rparr>"
    have step: "owner_do enc dec (ReserveOp i r ok) w = set_channel i ?d ?w"
      by (simp add: on_channel_def Some reserve_step_def out res)
    have k: "keys_known f' (set (ow_used w))"
      using assms keys_known_reserve [OF _ res] by (simp add: owner_inv_def)
    have "ledger recv_pend recv_seq (delivered_claims w) ?w"
      using assms covered_reserve [OF _ res] by (auto simp: owner_inv_def intro: ledger_file)
    then have r: "ledger recv_pend recv_seq (delivered_claims w) (set_channel i ?d ?w)"
      by (rule ledger_frame [where c = c]) (simp add: Some, rule recv_pend_same, simp_all)
    have s: "ledger send_pend send_seq (wire_claims w) (set_channel i ?d ?w)"
    proof (cases "\<exists>n. res = Inr (Some n)")
      case True
      then obtain n where n: "res = Inr (Some n)" ..
      show ?thesis
        using assms reserve_claims [OF _ res [unfolded n]] unfolding owner_inv_def keys_known_def
        by (intro ledger_claim [where t = "(ch_peer c, ch_key c, n)"]) (auto simp: send_pend_def n)
    next
      case False
      with reserve_result [OF res] have "f' = ow_file w" by auto
      moreover from False have "send_pend ?d = None" by (auto simp: send_pend_def split: sum.splits option.splits)
      ultimately show ?thesis using assms ledger_drop by (simp add: owner_inv_def)
    qed
    from k r s show ?thesis unfolding step owner_inv_def by simp
  qed
qed

lemma inv_advance:
  assumes "owner_inv w"
  shows "owner_inv (owner_do enc dec (AdvanceOp i r ok) w)"
proof (cases "ow_channels w i")
  case None
  with assms show ?thesis by (simp add: on_channel_def)
next
  case (Some c)
  show ?thesis
  proof (cases "\<exists>n m. ch_stage c = Advancing n m")
    case False
    then have "advance_step r ok c (ow_file w) = (c, ow_file w)"
      by (auto simp: advance_step_def split: in_stage.splits)
    with assms Some show ?thesis by (simp add: on_channel_def inv_frame)
  next
    case True
    then obtain n m where st: "ch_stage c = Advancing n m" by blast
    obtain res f' where res: "compareAndAdvanceRecvSeq r ok (ch_peer c) (ch_key c) n (ow_file w) = (res, f')" by fastforce
    let ?d = "c\<lparr>ch_stage := Advanced n m res\<rparr>"
    let ?w = "w\<lparr>ow_file := f'\<rparr>"
    have step: "owner_do enc dec (AdvanceOp i r ok) w = set_channel i ?d ?w"
      by (simp add: on_channel_def Some advance_step_def st res)
    have k: "keys_known f' (set (ow_used w))"
      using assms keys_known_advance [OF _ res] by (simp add: owner_inv_def)
    have "ledger send_pend send_seq (wire_claims w) ?w"
      using assms covered_advance [OF _ res] by (auto simp: owner_inv_def intro: ledger_file)
    then have s: "ledger send_pend send_seq (wire_claims w) (set_channel i ?d ?w)"
      by (rule ledger_frame [where c = c]) (simp add: Some, rule send_pend_same, simp_all)
    have r: "ledger recv_pend recv_seq (delivered_claims w) (set_channel i ?d ?w)"
    proof (cases "res = Inr Accepted")
      case True
      show ?thesis
        using assms advance_claims [OF _ res [unfolded True]] unfolding owner_inv_def keys_known_def
        by (intro ledger_claim [where t = "(ch_peer c, ch_key c, n)"]) (auto simp: recv_pend_def True)
    next
      case False
      with advance_result [OF res] have "f' = ow_file w" by auto
      moreover from False have "recv_pend ?d = None" by (auto simp: recv_pend_def split: sum.splits advance_result.splits)
      ultimately show ?thesis using assms ledger_drop by (simp add: owner_inv_def)
    qed
    from k r s show ?thesis unfolding step owner_inv_def by simp
  qed
qed

lemma inv_transmit:
  assumes "owner_inv w" "\<And>c. ow_channels w i = Some c \<Longrightarrow> channel_ok c"
  shows "owner_inv (owner_do enc dec (TransmitOp i nonce rok) w)"
proof (cases "ow_channels w i")
  case None
  with assms show ?thesis by (simp add: on_channel_def)
next
  case (Some c)
  obtain d sent where t: "transmit_step enc nonce rok c = (d, sent)" by fastforce
  have r: "recv_pend d = recv_pend c" using keeps_pending(5) [of enc nonce rok c] by (simp add: t)
  show ?thesis
  proof (cases sent)
    case None
    with transmit_head [OF assms(2) [OF Some] t] have "send_pend d = None \<or> d = c" by auto
    with assms(1) Some r None t show ?thesis
      unfolding owner_inv_def by (auto simp: on_channel_def ledger_frame ledger_drop)
  next
    case (Some x)
    then obtain n frame where x: "sent = Some (n, frame)" by (cases x) auto
    with transmit_head [OF assms(2) [OF \<open>ow_channels w i = Some c\<close>] t]
    have "send_pend c = Some (ch_peer c, ch_key c, n)" "send_pend d = None" by auto
    with assms(1) r x t \<open>ow_channels w i = Some c\<close> show ?thesis
      unfolding owner_inv_def by (auto simp: on_channel_def ledger_frame intro: ledger_use)
  qed
qed

lemma route_head:
  assumes "route_step c = (d, routed)"
  shows "recv_pend d = None \<and> (\<forall>n m. routed = Some (n, m) \<longrightarrow> recv_pend c = Some (ch_peer c, ch_key c, n) \<and>
      ch_stage c = Advanced n m (Inr Accepted) \<and> \<not> ch_detached c) \<or> d = c \<and> routed = None"
  using assms
  by (auto simp: route_step_def recv_pend_def Let_def split: in_stage.splits sum.splits advance_result.splits if_splits)

lemma inv_route:
  assumes "owner_inv w"
  shows "owner_inv (owner_do enc dec (RouteOp i) w)"
proof (cases "ow_channels w i")
  case None
  with assms show ?thesis by (simp add: on_channel_def)
next
  case (Some c)
  obtain d routed where t: "route_step c = (d, routed)" by fastforce
  have r: "send_pend d = send_pend c" using keeps_send_pending(5) [of c] by (simp add: t)
  show ?thesis
  proof (cases routed)
    case None
    with route_head [OF t] have "recv_pend d = None \<or> d = c" by auto
    with assms(1) Some r None t show ?thesis
      unfolding owner_inv_def by (auto simp: on_channel_def ledger_frame ledger_drop)
  next
    case (Some x)
    then obtain n m where x: "routed = Some (n, m)" by (cases x) auto
    with route_head [OF t] have "recv_pend c = Some (ch_peer c, ch_key c, n)" "recv_pend d = None" by auto
    with assms(1) r x t \<open>ow_channels w i = Some c\<close> show ?thesis
      unfolding owner_inv_def by (auto simp: on_channel_def ledger_frame intro: ledger_use)
  qed
qed

definition channels_ok :: "owner_world \<Rightarrow> bool" where
  "channels_ok w \<longleftrightarrow> (\<forall>i c. ow_channels w i = Some c \<longrightarrow> channel_ok c)"

lemma channels_set: "channels_ok w \<Longrightarrow> channel_ok d \<Longrightarrow> channels_ok (set_channel i d w)"
  by (simp add: channels_ok_def)

lemma channels_frame [simp]:
  "channels_ok (w\<lparr>ow_file := f\<rparr>) = channels_ok w" "channels_ok (w\<lparr>ow_wire := x\<rparr>) = channels_ok w"
  "channels_ok (w\<lparr>ow_delivered := y\<rparr>) = channels_ok w" "channels_ok (w\<lparr>ow_used := u\<rparr>) = channels_ok w"
  "channels_ok (w\<lparr>ow_seen := z\<rparr>) = channels_ok w"
  by (simp_all add: channels_ok_def)

lemma ok_do:
  assumes "channels_ok w"
  shows "channels_ok (owner_do enc dec op w)"
proof (cases op)
  case (ReserveOp i r ok)
  with assms ok_reserve [of _ r ok "ow_file w"] show ?thesis
    by (fastforce simp: on_channel_def channels_ok_def split: option.splits prod.splits)
next
  case (AdvanceOp i r ok)
  with assms ok_advance [of _ r ok "ow_file w"] show ?thesis
    by (fastforce simp: on_channel_def channels_ok_def split: option.splits prod.splits)
next
  case (TransmitOp i nonce ok)
  with assms ok_transmit [of _ enc nonce ok] show ?thesis
    by (fastforce simp: on_channel_def channels_ok_def split: option.splits prod.splits)
next
  case (RouteOp i)
  with assms ok_route show ?thesis
    by (fastforce simp: on_channel_def channels_ok_def split: option.splits prod.splits)
qed (use assms in \<open>auto simp: on_channel_def channels_ok_def ok_created ok_detach ok_send ok_ingress ok_open split: option.splits\<close>)

lemma inv_do:
  assumes "owner_inv w" "channels_ok w" "fresh_op op w"
  shows "owner_inv (owner_do enc dec op w)"
proof (cases op)
  case (PairOp r ok p)
  with assms show ?thesis using inv_pair by blast
next
  case (UnpairOp r ok epk)
  with assms show ?thesis using inv_remove by blast
next
  case (AttachOp i p)
  then show ?thesis
    using assms(1) unfolding owner_inv_def by (auto simp: ledger_drop split: option.splits)
next
  case (ReserveOp i r ok)
  with assms show ?thesis using inv_reserve by blast
next
  case (TransmitOp i nonce ok)
  with assms show ?thesis using inv_transmit by (auto simp: channels_ok_def)
next
  case (AdvanceOp i r ok)
  with assms show ?thesis using inv_advance by blast
next
  case (RouteOp i)
  with assms show ?thesis using inv_route by blast
next
  case (IngressOp i p ct)
  have "owner_inv (w\<lparr>ow_seen := z\<rparr>)" for z using assms(1) by (simp add: owner_inv_def)
  with IngressOp show ?thesis by (auto simp: on_channel_def intro: assms(1) inv_frame split: option.splits)
qed (use assms(1) in \<open>auto simp: on_channel_def intro: inv_frame split: option.splits\<close>)

lemma run_invariant: "owner_run enc dec f w \<Longrightarrow> owner_inv w \<and> channels_ok w"
proof (induction rule: owner_run.induct)
  case start
  have "k \<in> set (roster_keys f)" if "peer_of e f = Some p" "channel_key p = Some k" for e p k
    using that by (cases f) (force simp: roster_keys_def peer_of_def dest!: find_peer_Some)+
  then have "owner_inv (owner_start f)"
    by (auto simp: owner_inv_def owner_start_def keys_known_def ledger_def spent_once_def covered_def pending_def ran_def
        intro!: exI [of _ "{}"])
  then show ?case by (simp add: channels_ok_def owner_start_def)
next
  case (step w op)
  then show ?case using inv_do ok_do by blast
qed

subsection \<open>Where a message comes from\<close>

definition authentic :: "decipher \<Rightarrow> bytes list \<Rightarrow> string \<Rightarrow> nat \<Rightarrow> js \<Rightarrow> bool" where
  "authentic dec seen k n m \<longleftrightarrow> (\<exists>s r frame l json.
    decodePeerChannelKeys (Some k) = Some (s, r) \<and> frame \<in> set seen \<and>
    open_frame dec r frame l = Some (n, json) \<and> decodeRelayClientPayload json = Some m)"

fun stage_genuine :: "decipher \<Rightarrow> bytes list \<Rightarrow> string \<Rightarrow> in_stage \<Rightarrow> bool" where
  "stage_genuine dec seen k InIdle = True"
| "stage_genuine dec seen k (Advancing n m) = authentic dec seen k n m"
| "stage_genuine dec seen k (Advanced n m _) = authentic dec seen k n m"

definition channel_genuine :: "decipher \<Rightarrow> bytes list \<Rightarrow> owner_channel \<Rightarrow> bool" where
  "channel_genuine dec seen c \<longleftrightarrow>
    decodePeerChannelKeys (Some (ch_key c)) = Some (key_send (ch_keys c), key_recv (ch_keys c)) \<and>
    set (ch_in c) \<subseteq> set seen \<and> stage_genuine dec seen (ch_key c) (ch_stage c)"

definition sealed :: "cipher \<Rightarrow> string \<Rightarrow> nat \<Rightarrow> bytes \<Rightarrow> bool" where
  "sealed enc k n frame \<longleftrightarrow> (\<exists>s r nonce json. decodePeerChannelKeys (Some k) = Some (s, r) \<and> seal enc nonce s n json = Some frame)"

definition world_genuine :: "cipher \<Rightarrow> decipher \<Rightarrow> owner_world \<Rightarrow> bool" where
  "world_genuine enc dec w \<longleftrightarrow>
    (\<forall>i c. ow_channels w i = Some c \<longrightarrow> channel_genuine dec (ow_seen w) c) \<and>
    (\<forall>(i, (e, k, n), m) \<in> set (ow_delivered w). authentic dec (ow_seen w) k n m) \<and>
    (\<forall>((e, k, n), frame) \<in> set (ow_wire w). sealed enc k n frame)"

lemma authentic_more: "authentic dec seen k n m \<Longrightarrow> authentic dec (x # seen) k n m"
  by (fastforce simp: authentic_def)

lemma genuine_more: "channel_genuine dec seen c \<Longrightarrow> channel_genuine dec (x # seen) c"
  by (cases "ch_stage c") (auto simp: channel_genuine_def intro: authentic_more)

lemma genuine_created: "createPeerChannel p = Some c \<Longrightarrow> channel_genuine dec seen c"
  by (auto simp: createPeerChannel_def channel_genuine_def split: option.splits)

lemma in_kept [simp]: "ch_in (audit a c) = ch_in c" "set (ch_in (detach c)) \<subseteq> set (ch_in c)"
  "set (ch_in (disconnect c)) \<subseteq> set (ch_in c)"
  "set (ch_in (send_message m c)) \<subseteq> set (ch_in c)" "set (ch_in (reserve_failed a c)) \<subseteq> set (ch_in c)"
  "set (ch_in (open_failed c)) \<subseteq> set (ch_in c)" "set (ch_in (fst (reserve_step r ok c f))) \<subseteq> set (ch_in c)"
  "set (ch_in (fst (advance_step r ok c f))) \<subseteq> set (ch_in c)"
  by (auto simp: channel_ops reserve_step_def advance_step_def
      split: list.splits out_stage.splits in_stage.splits prod.splits if_splits)

lemma transmit_in [simp]: "set (ch_in (fst (transmit_step enc nonce ok c))) \<subseteq> set (ch_in c)"
  using in_kept(3) [of "audit SequenceExhausted c"] in_kept(5) [of _ c]
  by (auto simp: transmit_step_def Let_def split: list.splits out_stage.splits sum.splits option.splits)

lemma route_in [simp]: "set (ch_in (fst (route_step c))) \<subseteq> set (ch_in c)"
  by (auto simp: route_step_def channel_ops split: in_stage.splits sum.splits advance_result.splits if_splits)

lemma genuine_same:
  assumes "channel_genuine dec seen c" "ch_key d = ch_key c" "ch_keys d = ch_keys c" "set (ch_in d) \<subseteq> set (ch_in c)"
    "ch_stage d = ch_stage c"
  shows "channel_genuine dec seen d"
  using assms by (auto simp: channel_genuine_def)

lemma genuine_open:
  assumes "channel_genuine dec seen c"
  shows "channel_genuine dec seen (open_step dec c)"
proof (cases "ch_detached c \<or> ch_stage c \<noteq> InIdle \<or> ch_in c = []")
  case True
  with assms show ?thesis by (auto simp: open_step_def)
next
  case False
  then obtain frame rest where i: "ch_in c = frame # rest" by (cases "ch_in c") auto
  let ?d = "c\<lparr>ch_in := rest\<rparr>"
  have d: "channel_genuine dec seen ?d" by (rule genuine_same [OF assms]) (auto simp: i)
  then have f: "channel_genuine dec seen (open_failed ?d)"
    by (rule genuine_same) (use in_kept(6) [of ?d] in simp_all)
  have "authentic dec seen (ch_key c) n m"
    if "open_frame dec (key_recv (ch_keys c)) frame (ch_recv_seq c) = Some (n, json)" "decodeRelayClientPayload json = Some m" for n json m
    using that assms unfolding authentic_def channel_genuine_def by (auto simp: i)
  with d f False i show ?thesis
    by (auto simp: open_step_def Let_def channel_genuine_def split: option.splits)
qed

lemma genuine_advance: "channel_genuine dec seen c \<Longrightarrow> channel_genuine dec seen (fst (advance_step r ok c f))"
  by (auto simp: advance_step_def channel_genuine_def split: in_stage.splits prod.splits)

lemma genuine_route: "channel_genuine dec seen c \<Longrightarrow> channel_genuine dec seen (fst (route_step c))"
  using route_in [of c] by (auto simp: route_step_def channel_genuine_def Let_def split: in_stage.splits sum.splits advance_result.splits)

lemma genuine_ingress: "channel_genuine dec seen c \<Longrightarrow> channel_genuine dec (base64_decode ct # seen) (onIngress p ct c)"
proof -
  assume "channel_genuine dec seen c"
  then have "channel_genuine dec (base64_decode ct # seen) c" by (rule genuine_more)
  moreover have "set (ch_in (onIngress p ct c)) \<subseteq> insert (base64_decode ct) (set (ch_in c))"
    by (auto simp: onIngress_def Let_def)
  ultimately show ?thesis by (auto simp: channel_genuine_def)
qed

lemma genuine_set:
  "world_genuine enc dec w \<Longrightarrow> channel_genuine dec (ow_seen w) d \<Longrightarrow> world_genuine enc dec (set_channel i d w)"
  by (auto simp: world_genuine_def)

lemma genuine_at: "world_genuine enc dec w \<Longrightarrow> ow_channels w i = Some c \<Longrightarrow> channel_genuine dec (ow_seen w) c"
  by (auto simp: world_genuine_def)

lemma genuine_frame [simp]:
  "world_genuine enc dec (w\<lparr>ow_file := f\<rparr>) = world_genuine enc dec w" "world_genuine enc dec (w\<lparr>ow_used := u\<rparr>) = world_genuine enc dec w"
  by (simp_all add: world_genuine_def)

lemma genuine_do:
  assumes "world_genuine enc dec w" "channels_ok w"
  shows "world_genuine enc dec (owner_do enc dec op w)"
proof (cases op)
  case (AttachOp i p)
  with assms show ?thesis by (auto simp: genuine_set genuine_created split: option.splits)
next
  case (DetachOp i)
  with assms show ?thesis
    by (auto simp: on_channel_def split: option.splits intro!: genuine_set genuine_same [OF genuine_at]
        dest: subsetD [OF in_kept(2)] subsetD [OF in_kept(4)])
next
  case (SendOp i m)
  with assms show ?thesis
    by (auto simp: on_channel_def split: option.splits intro!: genuine_set genuine_same [OF genuine_at]
        dest: subsetD [OF in_kept(2)] subsetD [OF in_kept(4)])
next
  case (ReserveOp i r ok)
  have g: "channel_genuine dec (ow_seen w) (fst (reserve_step r ok c f))" if "ow_channels w i = Some c" for c f
    by (rule genuine_same [OF genuine_at [OF assms(1) that]]) simp_all
  show ?thesis
  proof (cases "ow_channels w i")
    case (Some c)
    from g [OF Some, of "ow_file w"] assms(1) ReserveOp Some show ?thesis
      by (auto simp: on_channel_def case_prod_unfold Let_def intro: genuine_set)
  qed (use ReserveOp assms in \<open>simp add: on_channel_def\<close>)
next
  case (AdvanceOp i r ok)
  show ?thesis
  proof (cases "ow_channels w i")
    case (Some c)
    from genuine_advance [OF genuine_at [OF assms(1) Some], of r ok "ow_file w"] assms(1) AdvanceOp Some show ?thesis
      by (auto simp: on_channel_def case_prod_unfold Let_def intro: genuine_set)
  qed (use AdvanceOp assms in \<open>simp add: on_channel_def\<close>)
next
  case (OpenOp i)
  with assms show ?thesis
    by (auto simp: on_channel_def split: option.splits intro!: genuine_set genuine_open genuine_at)
next
  case (IngressOp i p ct)
  have "world_genuine enc dec (w\<lparr>ow_seen := x # ow_seen w\<rparr>)" for x
    using assms(1) genuine_more authentic_more by (fastforce simp: world_genuine_def)
  with IngressOp show ?thesis
    using assms(1) genuine_ingress [OF genuine_at [OF assms(1)]]
    by (auto simp: on_channel_def split: option.splits intro!: genuine_set)
next
  case (TransmitOp i nonce ok)
  show ?thesis
  proof (cases "ow_channels w i")
    case None
    with TransmitOp assms show ?thesis by (simp add: on_channel_def)
  next
    case (Some c)
    obtain d sent where t: "transmit_step enc nonce ok c = (d, sent)" by fastforce
    have g: "channel_genuine dec (ow_seen w) c" by (rule genuine_at [OF assms(1) Some])
    have "channel_genuine dec (ow_seen w) (fst (transmit_step enc nonce ok c))" by (rule genuine_same [OF g]) simp_all
    moreover have "sealed enc (ch_key c) n frame" if "sent = Some (n, frame)" for n frame
      using transmit_head [OF _ t] assms(2) Some g that unfolding sealed_def channels_ok_def channel_genuine_def by blast
    ultimately show ?thesis
      using assms(1) TransmitOp Some t by (auto simp: on_channel_def world_genuine_def split: option.splits)
  qed
next
  case (RouteOp i)
  show ?thesis
  proof (cases "ow_channels w i")
    case None
    with RouteOp assms show ?thesis by (simp add: on_channel_def)
  next
    case (Some c)
    obtain d routed where t: "route_step c = (d, routed)" by fastforce
    have g: "channel_genuine dec (ow_seen w) c" by (rule genuine_at [OF assms(1) Some])
    then have "channel_genuine dec (ow_seen w) d" using genuine_route [OF g] t by simp
    moreover have "authentic dec (ow_seen w) (ch_key c) n m" if "routed = Some (n, m)" for n m
      using route_head [OF t] g that by (auto simp: channel_genuine_def)
    ultimately show ?thesis
      using assms(1) RouteOp Some t by (auto simp: on_channel_def world_genuine_def split: option.splits)
  qed
qed (use assms in simp_all)

lemma run_genuine: "owner_run enc dec f w \<Longrightarrow> world_genuine enc dec w"
proof (induction rule: owner_run.induct)
  case start
  show ?case by (simp add: world_genuine_def owner_start_def)
next
  case (step w op)
  then show ?case using genuine_do run_invariant by blast
qed

subsection \<open>The channel's guarantees\<close>

fun owner_ops :: "cipher \<Rightarrow> decipher \<Rightarrow> owner_op list \<Rightarrow> owner_world \<Rightarrow> owner_world option" where
  "owner_ops enc dec [] w = Some w"
| "owner_ops enc dec (op # ops) w = (if fresh_op op w then owner_ops enc dec ops (owner_do enc dec op w) else None)"

lemma owner_ops_run: "owner_run enc dec f w \<Longrightarrow> owner_ops enc dec ops w = Some w' \<Longrightarrow> owner_run enc dec f w'"
  by (induction ops arbitrary: w) (auto split: if_splits intro: owner_run.step)

text \<open>
  C24. Whatever the interleaving of channels, processes, re-pairings, failed reads and
  failed writes: no sequence of an owner's key is delivered twice, over all channels
  together, and every message delivered was received as a frame that opens, under the
  receive half of that very key, to that sequence and to text the client-message
  validator accepts as that message. So neither the relay nor a replay can make a
  message reach the router.
\<close>

theorem delivered_once_and_authentic:
  assumes "owner_run enc dec f w"
  shows "distinct (delivered_claims w) \<and>
    (\<forall>(i, (e, k, n), m) \<in> set (ow_delivered w). authentic dec (ow_seen w) k n m)"
  using run_invariant [OF assms] run_genuine [OF assms]
  by (auto simp: owner_inv_def ledger_def spent_once_def world_genuine_def)

text \<open>
  C25. No sequence of an owner's key is ever put on the wire twice, by any of the
  channels and processes that share the roster, and what is on the wire is the
  sealing of some text under the send half of that key with that sequence. A crash
  or a failed send can only leave a gap.
\<close>

theorem sent_sequences_unique:
  assumes "owner_run enc dec f w"
  shows "distinct (wire_claims w) \<and> (\<forall>((e, k, n), frame) \<in> set (ow_wire w). sealed enc k n frame)"
  using run_invariant [OF assms] run_genuine [OF assms]
  by (auto simp: owner_inv_def ledger_def spent_once_def world_genuine_def)

text \<open>
  C26. What a channel retains is bounded and accounted exactly: the outbound counters
  are those of the chain, which never exceeds its limits of frames and bytes, the
  inbound queue never exceeds its own, five failures in a row always leave it
  detached, and a detached channel holds no inbound frame.
\<close>

theorem owner_channel_bounded:
  assumes "owner_run enc dec f w" "ow_channels w i = Some c"
  shows "ch_out_frames c = length (ch_out c) \<and> ch_out_bytes c = out_bytes (ch_out c) \<and>
    ch_out_frames c \<le> MAX_PENDING_OWNER_OUTBOUND_FRAMES \<and> ch_out_bytes c \<le> MAX_PENDING_OWNER_OUTBOUND_BYTES \<and>
    length (ch_in c) \<le> MAX_PENDING_OWNER_FRAMES \<and> ch_failures c \<le> MAX_OPEN_FAILURES \<and>
    (ch_failures c = MAX_OPEN_FAILURES \<longrightarrow> ch_detached c) \<and> (ch_detached c \<longrightarrow> ch_in c = [])"
  using run_invariant [OF assms(1)] assms(2) by (simp add: channels_ok_def channel_ok_def)

subsection \<open>A run\<close>

definition sample_key :: string where
  "sample_key = base64_encode (replicate 64 7)"

definition sample_owner_peer :: peer_record where
  "sample_owner_peer = \<lparr>pr_name = ''phone'', remote_epk = ''o'', paired_at = ''t'', channel_key = Some sample_key,
     send_seq = Some ''0'', recv_seq = Some ''0''\<rparr>"

definition ping :: js where
  "ping = Obj [(''type'', Str ''ping''), (''id'', Str ''a'')]"

definition sample_frame :: bytes where
  "sample_frame = FRAME_VERSION # le_bytes 8 5 @ replicate 24 9 @ tag_cipher (replicate 32 7) (replicate 24 9) (le_bytes 8 5) (utf8 (stringify ping))"

definition owner_sample_ops :: "owner_op list" where
  "owner_sample_ops = [PairOp True True sample_owner_peer, AttachOp 0 sample_owner_peer, IngressOp 0 ''o'' (base64_encode sample_frame), OpenOp 0,
     AdvanceOp 0 True True, RouteOp 0, SendOp 0 ping, ReserveOp 0 True True, TransmitOp 0 (replicate 24 9) True]"

lemma sample_keys: "decodePeerChannelKeys (Some sample_key) = Some (replicate 32 7, replicate 32 7)"
  using decode_keys_iff [of sample_key "replicate 32 7" "replicate 32 7"]
  by (simp add: encodePeerChannelKeys_def sample_key_def replicate_add [symmetric])

lemma parse_zero: "parsePeerChannelSequence (Some ''0'') = Some 0"
  by (simp add: parsePeerChannelSequence_def is_digit_def text_nat_def digit_val_def)

lemma sample_created: "createPeerChannel sample_owner_peer = Some \<lparr>ch_peer = ''o'', ch_key = sample_key,
    ch_keys = \<lparr>key_send = replicate 32 7, key_recv = replicate 32 7\<rparr>, ch_detached = False,
    ch_notified = False, ch_recv_seq = 0, ch_failures = 0, ch_out = [], ch_out_frames = 0,
    ch_out_bytes = 0, ch_in = [], ch_stage = InIdle, ch_audit = []\<rparr>"
  by (simp add: createPeerChannel_def sample_owner_peer_def sample_keys parse_zero)

lemma sample_seals: "seal tag_cipher (replicate 24 9) (replicate 32 7) 5 (stringify ping) = Some sample_frame"
  unfolding seal_Some by (simp add: MAX_UINT64_def sample_frame_def)

lemma sample_opens: "open_frame tag_decipher (replicate 32 7) sample_frame 0 = Some (5, stringify ping)"
  using open_sealed [OF tag_aead sample_seals, of 0] by simp

lemma ping_accepted: "decodeRelayClientPayload (stringify ping) = Some ping"
  by code_simp

definition sample_world :: "peer_record \<Rightarrow> owner_channel option \<Rightarrow> (claim \<times> bytes) list \<Rightarrow> (nat \<times> claim \<times> js) list \<Rightarrow> bytes list \<Rightarrow> owner_world" where
  "sample_world p c wire delivered seen = \<lparr>ow_file = Roster [p], ow_channels = (\<lambda>i. if i = 0 then c else None), ow_wire = wire,
     ow_delivered = delivered, ow_used = [sample_key], ow_seen = seen\<rparr>"

lemma sample_world_simps [simp]:
  "on_channel 0 g (sample_world p (Some c) wire del seen) = g c"
  "set_channel 0 d (sample_world p x wire del seen) = sample_world p (Some d) wire del seen"
  "ow_file (sample_world p x wire del seen) = Roster [p]"
  "(sample_world p x wire del seen)\<lparr>ow_file := Roster [q]\<rparr> = sample_world q x wire del seen"
  "(sample_world p x wire del seen)\<lparr>ow_wire := wire'\<rparr> = sample_world p x wire' del seen"
  "(sample_world p x wire del seen)\<lparr>ow_delivered := del'\<rparr> = sample_world p x wire del' seen"
  "(sample_world p x wire del seen)\<lparr>ow_seen := seen'\<rparr> = sample_world p x wire del seen'"
  "ow_wire (sample_world p x wire del seen) = wire" "ow_delivered (sample_world p x wire del seen) = del"
  "ow_seen (sample_world p x wire del seen) = seen" "ow_channels (sample_world p None wire del seen) 0 = None"
  by (auto simp: sample_world_def on_channel_def set_channel_def)

lemma sample_peer_simps [simp]:
  "remote_epk sample_owner_peer = ''o''" "channel_key sample_owner_peer = Some sample_key" "send_seq sample_owner_peer = Some ''0''"
  "recv_seq sample_owner_peer = Some ''0''"
  by (simp_all add: sample_owner_peer_def)

lemma sample_frame_simps [simp]: "sample_frame \<noteq> []" "hd sample_frame = FRAME_VERSION"
  by (simp_all add: sample_frame_def)

lemma sample_outcome:
  "\<exists>w. owner_ops tag_cipher tag_decipher owner_sample_ops (owner_start NoRoster) = Some w \<and>
    ow_delivered w = [(0, (''o'', sample_key, 5), ping)] \<and> wire_claims w = [(''o'', sample_key, 1)]"
proof -
  let ?do = "owner_do tag_cipher tag_decipher" and ?W = sample_world
  obtain c where c: "createPeerChannel sample_owner_peer = Some c" and
    c_simps: "ch_peer c = ''o''" "ch_key c = sample_key" "ch_keys c = \<lparr>key_send = replicate 32 7, key_recv = replicate 32 7\<rparr>"
    "ch_detached c = False" "ch_recv_seq c = 0" "ch_out c = []" "ch_out_frames c = 0" "ch_out_bytes c = 0"
    "ch_in c = []" "ch_stage c = InIdle"
    using sample_created by simp
  let ?q = "sample_owner_peer\<lparr>recv_seq := Some (nat_text 5)\<rparr>" and ?f = sample_frame
  let ?m = "(stringify ping, OutQueued)"
  have "length (stringify ping) = 24" by code_simp
  then have len: "length (utf8 (stringify ping)) \<le> 16777216" using utf8_length [of "stringify ping"] by simp
  have 1: "?do (PairOp True True sample_owner_peer) (owner_start NoRoster) = ?W sample_owner_peer None [] [] []"
    by (auto simp: owner_start_def sample_world_def roster_keys_def store_defs readPeersFile_def find_peer_def)
  have 2: "?do (AttachOp 0 sample_owner_peer) (?W sample_owner_peer None [] [] []) = ?W sample_owner_peer (Some c) [] [] []"
    by (simp add: c)
  have 3: "?do (IngressOp 0 ''o'' (base64_encode ?f)) (?W sample_owner_peer (Some c) [] [] []) =
      ?W sample_owner_peer (Some (c\<lparr>ch_in := [?f]\<rparr>)) [] [] [?f]"
    by (simp add: onIngress_def c_simps MAX_PENDING_OWNER_FRAMES_def)
  have 4: "?do (OpenOp 0) (?W sample_owner_peer (Some (c\<lparr>ch_in := [?f]\<rparr>)) [] [] [?f]) =
      ?W sample_owner_peer (Some (c\<lparr>ch_in := [], ch_stage := Advancing 5 ping\<rparr>)) [] [] [?f]"
    by (simp add: open_step_def c_simps sample_opens ping_accepted)
  have adv: "compareAndAdvanceRecvSeq True True ''o'' sample_key 5 (Roster [sample_owner_peer]) = (Inr Accepted, Roster [?q])"
    by (simp add: store_defs readPeersFile_def find_peer_def parse_zero MAX_UINT64_def)
  have 5: "?do (AdvanceOp 0 True True) (?W sample_owner_peer (Some (c\<lparr>ch_in := [], ch_stage := Advancing 5 ping\<rparr>)) [] [] [?f]) =
      ?W ?q (Some (c\<lparr>ch_in := [], ch_stage := Advanced 5 ping (Inr Accepted)\<rparr>)) [] [] [?f]"
    by (simp add: advance_step_def c_simps adv)
  let ?c = "c\<lparr>ch_in := [], ch_stage := InIdle, ch_recv_seq := 5, ch_failures := 0\<rparr>"
  let ?del = "[(0, (''o'', sample_key, 5), ping)]"
  have 6: "?do (RouteOp 0) (?W ?q (Some (c\<lparr>ch_in := [], ch_stage := Advanced 5 ping (Inr Accepted)\<rparr>)) [] [] [?f]) =
      ?W ?q (Some ?c) [] ?del [?f]"
    by (simp add: route_step_def c_simps)
  obtain d where d: "send_message ping ?c = d" and d_simps: "ch_out d = [?m]" "ch_peer d = ''o''" "ch_key d = sample_key" "ch_keys d = ch_keys c"
    using len by (simp add: send_message_def c_simps channel_limits Let_def)
  have 7: "?do (SendOp 0 ping) (?W ?q (Some ?c) [] ?del [?f]) = ?W ?q (Some d) [] ?del [?f]"
    by (simp add: d)
  let ?p = "?q\<lparr>send_seq := Some (nat_text 1)\<rparr>" and ?d = "d\<lparr>ch_out := [(stringify ping, OutReserved (Inr (Some 1)))]\<rparr>"
  have res: "reserveSendSeq True True ''o'' sample_key (Roster [?q]) = (Inr (Some 1), Roster [?p])"
    by (simp add: store_defs readPeersFile_def find_peer_def parse_zero MAX_UINT64_def)
  have 8: "?do (ReserveOp 0 True True) (?W ?q (Some d) [] ?del [?f]) = ?W ?p (Some ?d) [] ?del [?f]"
    by (simp add: reserve_step_def d_simps res)
  obtain frame where s: "seal tag_cipher (replicate 24 9) (replicate 32 7) 1 (stringify ping) = Some frame"
    using seal_Some [of tag_cipher "replicate 24 9" "replicate 32 7" 1 "stringify ping"] by (simp add: MAX_UINT64_def)
  have 9: "\<exists>e. ?do (TransmitOp 0 (replicate 24 9) True) (?W ?p (Some ?d) [] ?del [?f]) =
      ?W ?p (Some e) [((''o'', sample_key, 1), frame)] ?del [?f]"
    by (simp add: transmit_step_def d_simps c_simps s del: One_nat_def) blast
  have "fresh_op (PairOp True True sample_owner_peer) (owner_start NoRoster)"
    by (simp add: owner_start_def roster_keys_def)
  with 1 2 3 4 5 6 7 8 9 show ?thesis unfolding owner_sample_ops_def by fastforce
qed

lemma sample_run:
  "\<exists>w. owner_run tag_cipher tag_decipher NoRoster w \<and>
    ow_delivered w = [(0, (''o'', sample_key, 5), ping)] \<and> wire_claims w = [(''o'', sample_key, 1)]"
proof -
  from sample_outcome obtain w where
    w: "owner_ops tag_cipher tag_decipher owner_sample_ops (owner_start NoRoster) = Some w \<and>
      ow_delivered w = [(0, (''o'', sample_key, 5), ping)] \<and> wire_claims w = [(''o'', sample_key, 1)]" ..
  from owner_ops_run [OF owner_run.start conjunct1 [OF w]] conjunct2 [OF w]
  have "owner_run tag_cipher tag_decipher NoRoster w \<and>
    ow_delivered w = [(0, (''o'', sample_key, 5), ping)] \<and> wire_claims w = [(''o'', sample_key, 1)]" by (rule conjI)
  then show ?thesis ..
qed

theorem delivered_once_and_authentic_witness:
  "\<exists>w. owner_run tag_cipher tag_decipher NoRoster w \<and> delivered_claims w = [(''o'', sample_key, 5)] \<and>
    distinct (delivered_claims w) \<and> authentic tag_decipher (ow_seen w) sample_key 5 ping"
proof -
  from sample_run obtain w where w: "owner_run tag_cipher tag_decipher NoRoster w \<and>
    ow_delivered w = [(0, (''o'', sample_key, 5), ping)] \<and> wire_claims w = [(''o'', sample_key, 1)]" ..
  from delivered_once_and_authentic [OF conjunct1 [OF w]] w
  have "distinct (delivered_claims w) \<and> authentic tag_decipher (ow_seen w) sample_key 5 ping" by simp
  with w show ?thesis by (intro exI [of _ w]) simp
qed

theorem sent_sequences_unique_witness:
  "\<exists>w. owner_run tag_cipher tag_decipher NoRoster w \<and> wire_claims w = [(''o'', sample_key, 1)] \<and> distinct (wire_claims w) \<and>
    (\<exists>frame. sealed tag_cipher sample_key 1 frame)"
proof -
  from sample_run obtain w where w: "owner_run tag_cipher tag_decipher NoRoster w \<and>
    ow_delivered w = [(0, (''o'', sample_key, 5), ping)] \<and> wire_claims w = [(''o'', sample_key, 1)]" ..
  then obtain frame where "ow_wire w = [((''o'', sample_key, 1), frame)]" by (cases "ow_wire w") auto
  with sent_sequences_unique [OF conjunct1 [OF w]]
  have "distinct (wire_claims w) \<and> sealed tag_cipher sample_key 1 frame" by simp
  with w show ?thesis by (intro exI [of _ w]) auto
qed

text \<open>The channel attached first, holding a frame.\<close>

theorem owner_channel_bounded_witness:
  "\<exists>w c. owner_run tag_cipher tag_decipher NoRoster w \<and> ow_channels w 0 = Some c \<and> ch_in c = [sample_frame] \<and>
    ch_out_frames c = length (ch_out c) \<and> length (ch_in c) \<le> MAX_PENDING_OWNER_FRAMES"
proof -
  obtain c where c: "createPeerChannel sample_owner_peer = Some c" and c_simps: "ch_peer c = ''o''" "ch_detached c = False" "ch_in c = []"
    using sample_created by simp
  let ?do = "owner_do tag_cipher tag_decipher"
  let ?v = "?do (AttachOp 0 sample_owner_peer) (owner_start NoRoster)"
  let ?w = "?do (IngressOp 0 ''o'' (base64_encode sample_frame)) ?v"
  have v: "owner_run tag_cipher tag_decipher NoRoster ?v"
    by (rule owner_run.step [OF owner_run.start]) simp
  have r: "owner_run tag_cipher tag_decipher NoRoster ?w"
    by (rule owner_run.step [OF v]) simp
  have ch: "ow_channels ?w 0 = Some (c\<lparr>ch_in := [sample_frame]\<rparr>)"
    by (simp add: owner_start_def c c_simps on_channel_def onIngress_def MAX_PENDING_OWNER_FRAMES_def)
  from owner_channel_bounded [OF r ch] show ?thesis
    by (intro exI [of _ ?w] exI [of _ "c\<lparr>ch_in := [sample_frame]\<rparr>"]) (simp only: r ch, simp)
qed

subsection \<open>Detaching\<close>

lemma detached_stays:
  "ch_detached c \<Longrightarrow> ch_detached (audit a c)" "ch_detached c \<Longrightarrow> ch_detached (detach c)" "ch_detached c \<Longrightarrow> ch_detached (disconnect c)"
  "ch_detached c \<Longrightarrow> ch_detached (send_message m c)" "ch_detached c \<Longrightarrow> ch_detached (onIngress p ct c)"
  "ch_detached c \<Longrightarrow> ch_detached (open_step dec c)" "ch_detached c \<Longrightarrow> ch_detached (fst (reserve_step r ok c f))"
  "ch_detached c \<Longrightarrow> ch_detached (fst (advance_step r ok c f))" "ch_detached c \<Longrightarrow> ch_detached (fst (route_step c))"
  "ch_detached c \<Longrightarrow> ch_detached (fst (transmit_step enc nonce rok c))"
  by (auto simp: channel_ops open_step_def reserve_step_def advance_step_def route_step_def transmit_step_def
      split: list.splits option.splits prod.splits out_stage.splits in_stage.splits sum.splits)

definition gone :: "nat \<Rightarrow> owner_world \<Rightarrow> bool" where
  "gone i w \<longleftrightarrow> (\<exists>c. ow_channels w i = Some c \<and> ch_detached c)"

lemma gone_set: "gone i w \<Longrightarrow> (j = i \<Longrightarrow> ch_detached d) \<Longrightarrow> gone i (set_channel j d w)"
  by (auto simp: gone_def)

lemma gone_fields [simp]:
  "gone i (w\<lparr>ow_file := f\<rparr>) = gone i w" "gone i (w\<lparr>ow_wire := x\<rparr>) = gone i w" "gone i (w\<lparr>ow_delivered := y\<rparr>) = gone i w"
  "gone i (w\<lparr>ow_used := u\<rparr>) = gone i w" "gone i (w\<lparr>ow_seen := z\<rparr>) = gone i w"
  by (simp_all add: gone_def)

abbreviation delivered_by :: "nat \<Rightarrow> owner_world \<Rightarrow> (nat \<times> claim \<times> js) list" where
  "delivered_by i w \<equiv> filter (\<lambda>d. fst d = i) (ow_delivered w)"

lemma gone_do:
  assumes "gone i w"
  shows "gone i (owner_do enc dec op w) \<and> delivered_by i (owner_do enc dec op w) = delivered_by i w"
proof -
  have at: "ch_detached c" if "ow_channels w i = Some c" for c using assms that by (auto simp: gone_def)
  show ?thesis
  proof (cases op)
    case (RouteOp j)
    show ?thesis
    proof (cases "ow_channels w j")
      case (Some c)
      obtain d routed where t: "route_step c = (d, routed)" by fastforce
      have "j = i \<Longrightarrow> ch_detached d \<and> routed = None"
        using detached_stays(9) [of c] route_head [OF t] at Some t by (cases routed) auto
      with RouteOp Some t assms show ?thesis
        by (auto simp: on_channel_def intro!: gone_set split: option.splits)
    qed (use RouteOp assms in \<open>simp add: on_channel_def\<close>)
  next
    case (TransmitOp j nonce rok)
    with assms at detached_stays(10) [of _ enc nonce rok] show ?thesis
      by (fastforce simp: on_channel_def intro!: gone_set split: option.splits prod.splits)
  next
    case (ReserveOp j r ok)
    with assms at detached_stays(7) [of _ r ok "ow_file w"] show ?thesis
      by (fastforce simp: on_channel_def intro!: gone_set split: option.splits prod.splits)
  next
    case (AdvanceOp j r ok)
    with assms at detached_stays(8) [of _ r ok "ow_file w"] show ?thesis
      by (fastforce simp: on_channel_def intro!: gone_set split: option.splits prod.splits)
  next
    case (AttachOp j p)
    with assms show ?thesis by (auto simp: gone_def split: option.splits)
  qed (use assms at in \<open>auto simp: on_channel_def detached_stays intro!: gone_set split: option.splits\<close>)
qed

text \<open>
  Detaching is final for routing: whatever happens afterwards, including the end of
  work that was under way and frames that arrive, the detached channel delivers no
  further message.
\<close>

lemma detached_delivers_nothing:
  assumes "ow_channels w i = Some c" "ch_detached c"
  shows "delivered_by i (foldl (\<lambda>w op. owner_do enc dec op w) w ops) = delivered_by i w"
proof -
  have "gone i w" using assms by (simp add: gone_def)
  then show ?thesis by (induction ops arbitrary: w) (auto simp: gone_do)
qed

end
