(* ===== verification/RelayIngress.thy ===== *)
theory RelayIngress imports SecureFrame Protocol
begin

text \<open>
  What comes from the relay: the bounded decoding of \<open>protocol/relay_ingress.ts\<close> and
  the shared fan-out of \<open>transport/relay_ingress_fanout.ts\<close>.

  A line is measured in UTF-8 before it is parsed and its payload in Base64 before it
  is decoded. A validator that throws (see \<open>Protocol\<close>) is \<open>ThrewTypeError\<close>. The payload
  of an outer frame is kept as bytes; the source hands out their text.
\<close>

subsection \<open>Limits and results\<close>

definition RELAY_DEFAULT_MAX_DECODED_BYTES :: nat where "RELAY_DEFAULT_MAX_DECODED_BYTES = 4194304"
definition RELAY_MAX_FRAME_OVERHEAD_BYTES :: nat where "RELAY_MAX_FRAME_OVERHEAD_BYTES = 65536"
definition RELAY_MAX_PRE_AUTH_FRAME_BYTES :: nat where "RELAY_MAX_PRE_AUTH_FRAME_BYTES = 16384"

definition RELAY_MAX_RAW_MESSAGE_BYTES :: nat where
  "RELAY_MAX_RAW_MESSAGE_BYTES = 4 * ((RELAY_DEFAULT_MAX_DECODED_BYTES + 2) div 3) + RELAY_MAX_FRAME_OVERHEAD_BYTES"

record relay_ingress_limits =
  maxRawBytes :: nat
  maxDecodedPayloadBytes :: nat

definition DEFAULT_LIMITS :: relay_ingress_limits where
  "DEFAULT_LIMITS = \<lparr>maxRawBytes = RELAY_MAX_RAW_MESSAGE_BYTES, maxDecodedPayloadBytes = RELAY_DEFAULT_MAX_DECODED_BYTES\<rparr>"

datatype ingress_code = TooLarge | InvalidFrame | UnsupportedFrame

datatype ingress_error = RelayIngressDecodeError ingress_code nat | ThrewTypeError

datatype relay_ingress = OuterFrame js bytes | ControlFrame js | CrossPcFrame js

subsection \<open>Base64 within a bound\<close>

definition any64 :: "char \<Rightarrow> bool" where
  "any64 c \<longleftrightarrow> base64Value c \<noteq> None \<or> c = CHR ''_'' \<or> c = CHR ''-''"

text \<open>\<open>/^[A-Za-z0-9+/_-]*={0,2}$/\<close>\<close>

definition base64_any_re :: "string \<Rightarrow> bool" where
  "base64_any_re s \<longleftrightarrow> dropWhile any64 s \<in> {'''', ''='', ''==''}"

definition decodeBase64Bounded :: "string \<Rightarrow> nat \<Rightarrow> ingress_error + bytes" where
  "decodeBase64Bounded v maxDecodedBytes =
    (let maxEncodedBytes = 4 * ((maxDecodedBytes + 2) div 3) in
     if length v > maxEncodedBytes then Inl (RelayIngressDecodeError TooLarge (length v))
     else if length v mod 4 = 1 \<or> \<not> base64_any_re v then Inl (RelayIngressDecodeError InvalidFrame (length v))
     else
       let normalized = map url_normal v;
           padded = normalized @ replicate (padding (length normalized)) CHR ''='';
           decoded = base64_decode padded in
       if length decoded > maxDecodedBytes then Inl (RelayIngressDecodeError TooLarge (length decoded))
       else Inr decoded)"

lemma decodeBase64Bounded_bound: "decodeBase64Bounded v n = Inr bs \<Longrightarrow> length bs \<le> n"
  by (auto simp: decodeBase64Bounded_def Let_def split: if_splits)

text \<open>The two texts of a byte sequence a peer may use.\<close>

definition url_char :: "char \<Rightarrow> char" where
  "url_char c = (if c = CHR ''+'' then CHR ''-'' else if c = CHR ''/'' then CHR ''_'' else c)"

definition base64url :: "bytes \<Rightarrow> string" where
  "base64url bs = map url_char (map base64_char (bytes_sextets bs))"

lemma base64_not_url: "n < 64 \<Longrightarrow> base64_char n \<noteq> CHR ''_'' \<and> base64_char n \<noteq> CHR ''-''"
  using value_char [of n] by (auto simp: base64Value_def simp del: value_char)

lemma div_3_step: "(5 + n) div 3 = Suc (Suc (Suc n) div 3)" for n :: nat
  by presburger

lemma encode_length: "length (base64_encode bs) = 4 * ((length bs + 2) div 3)"
  by (induction bs rule: bytes_sextets.induct) (auto simp: base64_encode_def div_3_step)

lemma sextets_length: "length (bytes_sextets bs) = length bs + (length bs + 2) div 3"
  by (induction bs rule: bytes_sextets.induct) auto

lemma any64_char: "n < 64 \<Longrightarrow> any64 (base64_char n) \<and> any64 (url_char (base64_char n))"
  by (auto simp: any64_def url_char_def)

lemma any64_not_pad: "\<not> any64 (CHR ''='')"
  by (simp add: any64_def base64Value_def)

lemma base64_any_encode: "base64_any_re (base64_encode bs)"
proof -
  have "dropWhile any64 (base64_encode bs) = replicate ((3 - length bs mod 3) mod 3) CHR ''=''"
    unfolding base64_encode_def
    by (subst dropWhile_append2) (auto simp: any64_char dest: sextets_small, cases "(3 - length bs mod 3) mod 3", auto simp: any64_not_pad)
  moreover have "(3 - length bs mod 3) mod 3 \<in> {0, 1, 2}" by auto
  ultimately show ?thesis by (auto simp: base64_any_re_def numeral_2_eq_2)
qed

lemma base64_any_url: "base64_any_re (base64url bs)"
proof -
  have "dropWhile any64 (base64url bs) = []"
    by (auto simp: base64url_def any64_char dest: sextets_small)
  then show ?thesis by (simp add: base64_any_re_def)
qed

lemma url_normal_char: "n < 64 \<Longrightarrow> url_normal (url_char (base64_char n)) = base64_char n"
  using base64_not_url [of n] by (auto simp: url_normal_def url_char_def)

lemma pads_decode: "base64_decode (map base64_char (bytes_sextets bs) @ replicate k CHR ''='') = bs"
  by (simp only: base64_decode_def takeWhile_encoded decode_chars sextets_small sextets_round_trip)

lemma url_decodes: "base64_decode (map url_normal (base64url bs) @ replicate k CHR ''='') = bs"
proof -
  have "map url_normal (base64url bs) = map base64_char (bytes_sextets bs)"
    by (auto simp: base64url_def url_normal_char dest: sextets_small)
  then show ?thesis by (simp only: pads_decode)
qed

lemma encoded_decodes: "base64_decode (map url_normal (base64_encode bs) @ replicate k CHR ''='') = bs"
proof -
  have "map url_normal (base64_encode bs) = map base64_char (bytes_sextets bs) @ replicate ((3 - length bs mod 3) mod 3) CHR ''=''"
    using base64_not_url by (auto simp: base64_encode_def url_normal_def dest: sextets_small)
  then have "map url_normal (base64_encode bs) @ replicate k CHR ''='' =
      map base64_char (bytes_sextets bs) @ replicate ((3 - length bs mod 3) mod 3 + k) CHR ''=''"
    by (simp add: replicate_add)
  then show ?thesis by (simp only: pads_decode)
qed

lemma bounded_accepts:
  assumes "length bs \<le> n"
  shows "decodeBase64Bounded (base64_encode bs) n = Inr bs" and "decodeBase64Bounded (base64url bs) n = Inr bs"
proof -
  have l: "length bs + (length bs + 2) div 3 \<le> 4 * ((length bs + 2) div 3)" by linarith
  have m: "4 * ((length bs + 2) div 3) \<le> 4 * ((n + 2) div 3)" using assms by (simp add: div_le_mono)
  have "(length bs + (length bs + 2) div 3) mod 4 \<noteq> 1" by presburger
  with assms l m show "decodeBase64Bounded (base64_encode bs) n = Inr bs" "decodeBase64Bounded (base64url bs) n = Inr bs"
    by (auto simp: decodeBase64Bounded_def Let_def encode_length sextets_length base64_any_encode base64_any_url
        encoded_decodes url_decodes base64url_def [symmetric]) (auto simp: base64url_def sextets_length)
qed

subsection \<open>Lines\<close>

definition decodeRelayIngress :: "relay_ingress_limits \<Rightarrow> string \<Rightarrow> ingress_error + relay_ingress" where
  "decodeRelayIngress limits line =
    (let rawBytes = length (utf8 line); fail = (\<lambda>code. Inl (RelayIngressDecodeError code rawBytes)) in
     if rawBytes > maxRawBytes limits then fail TooLarge
     else case json_parse line of
       None \<Rightarrow> fail InvalidFrame
     | Some parsed \<Rightarrow>
        (if \<not> isRecord parsed then fail InvalidFrame
         else if is_string (jfield parsed ''type'') then
           (case isCrossPcFrame parsed of
              None \<Rightarrow> Inl ThrewTypeError
            | Some cross \<Rightarrow>
               (if cross \<and> jfield parsed ''type'' = Str ''pi_envelope_in'' then Inr (CrossPcFrame parsed)
                else case isRelayPostAuthControlFrame parsed of
                  None \<Rightarrow> Inl ThrewTypeError
                | Some True \<Rightarrow> Inr (ControlFrame parsed)
                | Some False \<Rightarrow> fail UnsupportedFrame))
         else if \<not> isRelayOuterEnvelopeCompat parsed then fail InvalidFrame
         else (case decodeBase64Bounded (case jfield parsed ''ct'' of Str ct \<Rightarrow> ct | _ \<Rightarrow> '''') (maxDecodedPayloadBytes limits) of
             Inl e \<Rightarrow> Inl e
           | Inr payload \<Rightarrow> Inr (OuterFrame parsed payload))))"

definition decodeRelayChallenge :: "string \<Rightarrow> ingress_error + js" where
  "decodeRelayChallenge line =
    (let rawBytes = length (utf8 line) in
     if rawBytes > RELAY_MAX_PRE_AUTH_FRAME_BYTES then Inl (RelayIngressDecodeError TooLarge rawBytes)
     else case json_parse line of
       None \<Rightarrow> Inl (RelayIngressDecodeError InvalidFrame rawBytes)
     | Some parsed \<Rightarrow>
        (case isRelayServerControlFrame parsed of
           None \<Rightarrow> Inl ThrewTypeError
         | Some valid \<Rightarrow>
            (if \<not> valid \<or> jfield parsed ''type'' \<noteq> Str ''challenge'' then Inl (RelayIngressDecodeError InvalidFrame rawBytes)
             else case decodeBase64Bounded (case jfield parsed ''nonce'' of Str n \<Rightarrow> n | _ \<Rightarrow> '''') 32 of
               Inl e \<Rightarrow> Inl e
             | Inr nonce \<Rightarrow>
                (if length nonce \<noteq> 32 then Inl (RelayIngressDecodeError InvalidFrame (length nonce))
                 else Inr (Obj [(''type'', Str ''challenge''), (''nonce'', jfield parsed ''nonce'')])))))"

definition outer_envelope :: "string \<Rightarrow> string \<Rightarrow> string \<Rightarrow> js" where
  "outer_envelope peer room ct = Obj [(''peer'', Str peer), (''room'', Str room), (''ct'', Str ct)]"

text \<open>
  What a peer sends through the relay arrives: an outer envelope within the limits,
  its payload in either Base64 alphabet, decodes to that envelope and that payload.
\<close>

lemma outer_frame_round_trip:
  assumes "peer \<noteq> ''''" "room \<noteq> ''''" "payload \<noteq> []" "length payload \<le> maxDecodedPayloadBytes limits"
    "ct = base64_encode payload \<or> ct = base64url payload"
    "length (utf8 (stringify (outer_envelope peer room ct))) \<le> maxRawBytes limits"
  shows "decodeRelayIngress limits (stringify (outer_envelope peer room ct)) =
    Inr (OuterFrame (outer_envelope peer room ct) payload)"
proof -
  have "json_value (outer_envelope peer room ct)" by (simp add: outer_envelope_def)
  then have parse: "json_parse (stringify (outer_envelope peer room ct)) = Some (outer_envelope peer room ct)"
    by (rule json_round_trip)
  have "ct \<noteq> ''''"
  proof
    assume "ct = ''''"
    then have "length (base64_encode payload) = 0 \<or> length (base64url payload) = 0" using assms(5) by auto
    moreover have "0 < (length payload + 2) div 3" using assms(3) by (cases payload) auto
    ultimately show False by (simp add: encode_length base64url_def sextets_length)
  qed
  with assms(1,2) have "isRelayOuterEnvelopeCompat (outer_envelope peer room ct)"
    by (auto simp: isRelayOuterEnvelopeCompat_def outer_envelope_def has_str_def Suc_le_eq)
  moreover have "decodeBase64Bounded ct (maxDecodedPayloadBytes limits) = Inr payload"
    using assms(4,5) bounded_accepts by auto
  ultimately show ?thesis
    using assms(6) unfolding decodeRelayIngress_def parse
    by (simp add: Let_def outer_envelope_def)
qed

text \<open>
  Whatever line the relay sends, what is accepted is bounded and well formed: the
  line is within the raw limit, an outer payload within the decoded limit and under an
  envelope of the validated shape, a cross-machine frame of the validated shape.
\<close>

lemma accepted_ingress_bounded:
  "case decodeRelayIngress limits line of
     Inl _ \<Rightarrow> True
   | Inr i \<Rightarrow> length (utf8 line) \<le> maxRawBytes limits \<and>
      (case i of
         OuterFrame frame payload \<Rightarrow> isRelayOuterEnvelopeCompat frame \<and> length payload \<le> maxDecodedPayloadBytes limits
       | CrossPcFrame frame \<Rightarrow> isCrossPcFramePiEnvelopeIn frame
       | ControlFrame frame \<Rightarrow> isRelayPostAuthControlFrame frame = Some True)"
proof -
  have cross: "isCrossPcFramePiEnvelopeIn v" if "isCrossPcFrame v = Some True" "jfield v ''type'' = Str ''pi_envelope_in''" for v
    using that by (auto simp: isCrossPcFrame_def by_type_def call_validator_def CROSS_PC_FRAME_VALIDATORS_def split: if_splits)
  show ?thesis
    by (auto simp: decodeRelayIngress_def Let_def cross dest: decodeBase64Bounded_bound
        split: sum.splits option.splits if_splits bool.splits)
qed

end
