(* ===== verification/RelayTransport.thy ===== *)
theory RelayTransport imports RelayIngress
begin

text \<open>
  \<open>extension/relay_transport.ts\<close>: the dispatch queue of one relay connection, the
  life cycle of the connection with its retries, and the typed fan-out of
  \<open>transport/relay_ingress_fanout.ts\<close>.

  A relay client is its number. What a client's \<open>connect\<close> does is an event of the run,
  so an attempt can resolve after anything else has happened. Handlers, timers and
  sockets are not modelled beyond the moment they act.
\<close>

subsection \<open>The dispatch queue of a connection\<close>

definition MAX_PENDING_RELAY_DISPATCH_FRAMES :: nat where "MAX_PENDING_RELAY_DISPATCH_FRAMES = 256"
definition MAX_PENDING_RELAY_DISPATCH_BYTES :: nat where "MAX_PENDING_RELAY_DISPATCH_BYTES = 8 * 1024 * 1024"
definition MAX_PENDING_RELAY_CONTROL_FRAMES :: nat where "MAX_PENDING_RELAY_CONTROL_FRAMES = 64"
definition MAX_PENDING_RELAY_CONTROL_BYTES :: nat where "MAX_PENDING_RELAY_CONTROL_BYTES = 256 * 1024"
definition RELAY_DISPATCH_AUDIT_SUMMARY_EVENTS :: nat where "RELAY_DISPATCH_AUDIT_SUMMARY_EVENTS = 100"

datatype dispatch_item = DataLine string | ControlItem js

fun is_control :: "dispatch_item \<Rightarrow> bool" where
  "is_control (ControlItem _) = True"
| "is_control (DataLine _) = False"

text \<open>\<open>RetainedDispatch\<close>: the item, its size in bytes, and whether it is still accounted.\<close>

type_synonym retained = "dispatch_item \<times> nat \<times> bool"

record overflow =
  ov_frames :: nat
  ov_bytes :: nat
  ov_emitted :: bool
  ov_timer :: bool

record dispatch =
  dp_alive :: bool
  dp_active :: "retained option"
  dp_queue :: "retained list"
  dp_data_frames :: nat
  dp_data_bytes :: nat
  dp_control_frames :: nat
  dp_control_bytes :: nat
  dp_data_overflow :: overflow
  dp_control_overflow :: overflow
  dp_audits :: "(bool \<times> nat \<times> nat) list"
  dp_given :: "dispatch_item list"
  dp_accepted :: "dispatch_item list"
  dp_offered :: nat

definition no_overflow :: overflow where
  "no_overflow = \<lparr>ov_frames = 0, ov_bytes = 0, ov_emitted = False, ov_timer = False\<rparr>"

definition new_dispatch :: dispatch where
  "new_dispatch = \<lparr>dp_alive = True, dp_active = None, dp_queue = [], dp_data_frames = 0, dp_data_bytes = 0,
     dp_control_frames = 0, dp_control_bytes = 0, dp_data_overflow = no_overflow, dp_control_overflow = no_overflow,
     dp_audits = [], dp_given = [], dp_accepted = [], dp_offered = 0\<rparr>"

definition the_overflow :: "bool \<Rightarrow> dispatch \<Rightarrow> overflow" where
  "the_overflow control d = (if control then dp_control_overflow d else dp_data_overflow d)"

definition set_overflow :: "bool \<Rightarrow> overflow \<Rightarrow> dispatch \<Rightarrow> dispatch" where
  "set_overflow control st d = (if control then d\<lparr>dp_control_overflow := st\<rparr> else d\<lparr>dp_data_overflow := st\<rparr>)"

definition flushOverflow :: "bool \<Rightarrow> dispatch \<Rightarrow> dispatch" where
  "flushOverflow control d =
    (let st = (the_overflow control d)\<lparr>ov_timer := False\<rparr> in
     if ov_frames st = 0 then set_overflow control st d
     else (set_overflow control (st\<lparr>ov_frames := 0, ov_bytes := 0, ov_emitted := True\<rparr>) d)
       \<lparr>dp_audits := dp_audits d @ [(control, ov_frames st, ov_bytes st)]\<rparr>)"

definition recordOverflow :: "bool \<Rightarrow> nat \<Rightarrow> dispatch \<Rightarrow> dispatch" where
  "recordOverflow control lineBytes d =
    (let st = the_overflow control d; st' = st\<lparr>ov_frames := ov_frames st + 1, ov_bytes := ov_bytes st + lineBytes\<rparr>;
         d' = set_overflow control st' d in
     if \<not> ov_emitted st' \<or> ov_frames st' \<ge> RELAY_DISPATCH_AUDIT_SUMMARY_EVENTS then flushOverflow control d'
     else set_overflow control (st'\<lparr>ov_timer := True\<rparr>) d')"

definition unaccount :: "retained \<Rightarrow> dispatch \<Rightarrow> dispatch" where
  "unaccount x d = (case x of (item, n, accounted) \<Rightarrow>
     if \<not> accounted then d
     else if is_control item then
       d\<lparr>dp_control_frames := dp_control_frames d - 1, dp_control_bytes := dp_control_bytes d - n\<rparr>
     else d\<lparr>dp_data_frames := dp_data_frames d - 1, dp_data_bytes := dp_data_bytes d - n\<rparr>)"

definition releasePendingDispatch :: "dispatch \<Rightarrow> dispatch" where
  "releasePendingDispatch d =
    (let d1 = d\<lparr>dp_alive := False\<rparr>;
         d2 = (case dp_active d1 of None \<Rightarrow> d1
               | Some (item, n, acc) \<Rightarrow> (unaccount (item, n, acc) d1)\<lparr>dp_active := Some (item, n, False)\<rparr>) in
     (foldl (\<lambda>d x. unaccount x d) d2 (dp_queue d2))\<lparr>dp_queue := []\<rparr>)"

text \<open>\<open>drainDispatches\<close> up to the handler's await, and its finaliser.\<close>

definition drain_next :: "dispatch \<Rightarrow> dispatch" where
  "drain_next d =
    (if \<not> dp_alive d \<or> dp_active d \<noteq> None then d
     else case dp_queue d of
       [] \<Rightarrow> d
     | x # rest \<Rightarrow> d\<lparr>dp_queue := rest, dp_active := Some x, dp_given := dp_given d @ [fst x]\<rparr>)"

definition handler_settled :: "dispatch \<Rightarrow> dispatch" where
  "handler_settled d = (case dp_active d of None \<Rightarrow> d | Some x \<Rightarrow> (unaccount x d)\<lparr>dp_active := None\<rparr>)"

definition enqueue :: "dispatch_item \<Rightarrow> nat \<Rightarrow> dispatch \<Rightarrow> dispatch" where
  "enqueue item n d =
    (let d1 = (if is_control item
         then d\<lparr>dp_control_frames := dp_control_frames d + 1, dp_control_bytes := dp_control_bytes d + n\<rparr>
         else d\<lparr>dp_data_frames := dp_data_frames d + 1, dp_data_bytes := dp_data_bytes d + n\<rparr>) in
     d1\<lparr>dp_queue := dp_queue d1 @ [(item, n, True)], dp_accepted := dp_accepted d1 @ [item]\<rparr>)"

definition decodeRelayControlFrame :: "string \<Rightarrow> js option" where
  "decodeRelayControlFrame line =
    (if length (utf8 line) > RELAY_MAX_RAW_MESSAGE_BYTES then None
     else case json_parse line of
       None \<Rightarrow> None
     | Some parsed \<Rightarrow> (if isRelayPostAuthControlFrame parsed = Some True then Some parsed else None))"

fun text_includes :: "string \<Rightarrow> string \<Rightarrow> bool" where
  "text_includes [] p = (p = [])"
| "text_includes (c # s) p = (take (length p) (c # s) = p \<or> text_includes s p)"

definition onMessage :: "string \<Rightarrow> dispatch \<Rightarrow> dispatch" where
  "onMessage line d0 =
    (let d = d0\<lparr>dp_offered := dp_offered d0 + 1\<rparr>; lineBytes = length (utf8 line);
         controlFrame = (if text_includes line ([CHR 0x22] @ ''type'' @ [CHR 0x22]) then decodeRelayControlFrame line else None) in
     case controlFrame of
       Some frame \<Rightarrow>
        (if dp_control_frames d \<ge> MAX_PENDING_RELAY_CONTROL_FRAMES \<or>
            lineBytes > MAX_PENDING_RELAY_CONTROL_BYTES - dp_control_bytes d
         then recordOverflow True lineBytes d
         else enqueue (ControlItem frame) lineBytes d)
     | None \<Rightarrow>
        (if dp_data_frames d \<ge> MAX_PENDING_RELAY_DISPATCH_FRAMES \<or>
            lineBytes > MAX_PENDING_RELAY_DISPATCH_BYTES - dp_data_bytes d
         then recordOverflow False lineBytes d
         else enqueue (DataLine line) lineBytes d))"

text \<open>A released queue is no longer subscribed to its client.\<close>

datatype dispatch_op = LineOp string | DrainOp | SettledOp | TimerOp bool | ReleaseOp

fun dispatch_do :: "dispatch_op \<Rightarrow> dispatch \<Rightarrow> dispatch" where
  "dispatch_do (LineOp line) d = (if dp_alive d then onMessage line d else d)"
| "dispatch_do DrainOp d = drain_next d"
| "dispatch_do SettledOp d = handler_settled d"
| "dispatch_do (TimerOp control) d = (if ov_timer (the_overflow control d) then flushOverflow control d else d)"
| "dispatch_do ReleaseOp d = flushOverflow True (flushOverflow False (releasePendingDispatch d))"

abbreviation dispatch_run :: "dispatch_op list \<Rightarrow> dispatch" where
  "dispatch_run ops \<equiv> foldl (\<lambda>d op. dispatch_do op d) new_dispatch ops"

subsection \<open>Accounting\<close>

definition retained_of :: "dispatch \<Rightarrow> retained list" where
  "retained_of d = filter (\<lambda>x. snd (snd x)) ((case dp_active d of None \<Rightarrow> [] | Some x \<Rightarrow> [x]) @ dp_queue d)"

definition class_frames :: "bool \<Rightarrow> retained list \<Rightarrow> nat" where
  "class_frames control xs = length (filter (\<lambda>x. is_control (fst x) = control) xs)"

definition class_bytes :: "bool \<Rightarrow> retained list \<Rightarrow> nat" where
  "class_bytes control xs = sum_list (map (\<lambda>x. fst (snd x)) (filter (\<lambda>x. is_control (fst x) = control) xs))"

definition dropped :: "dispatch \<Rightarrow> nat" where
  "dropped d = ov_frames (dp_data_overflow d) + ov_frames (dp_control_overflow d) + sum_list (map (\<lambda>(control, n, b). n) (dp_audits d))"

definition dispatch_ok :: "dispatch \<Rightarrow> bool" where
  "dispatch_ok d \<longleftrightarrow>
    dp_data_frames d = class_frames False (retained_of d) \<and> dp_data_bytes d = class_bytes False (retained_of d) \<and>
    dp_control_frames d = class_frames True (retained_of d) \<and> dp_control_bytes d = class_bytes True (retained_of d) \<and>
    dp_data_frames d \<le> MAX_PENDING_RELAY_DISPATCH_FRAMES \<and> dp_data_bytes d \<le> MAX_PENDING_RELAY_DISPATCH_BYTES \<and>
    dp_control_frames d \<le> MAX_PENDING_RELAY_CONTROL_FRAMES \<and> dp_control_bytes d \<le> MAX_PENDING_RELAY_CONTROL_BYTES \<and>
    (\<forall>x \<in> set (dp_queue d). snd (snd x)) \<and>
    (\<not> dp_alive d \<longrightarrow> retained_of d = [] \<and> dp_queue d = []) \<and>
    (if dp_alive d then dp_accepted d = dp_given d @ map fst (dp_queue d) \<and> (\<forall>x. dp_active d = Some x \<longrightarrow> snd (snd x))
     else \<exists>lost. dp_accepted d = dp_given d @ lost) \<and>
    dp_offered d = length (dp_accepted d) + dropped d"

lemma class_simps [simp]:
  "class_frames c [] = 0" "class_frames c (x # xs) = (if is_control (fst x) = c then 1 else 0) + class_frames c xs"
  "class_frames c (xs @ ys) = class_frames c xs + class_frames c ys"
  "class_bytes c [] = 0" "class_bytes c (x # xs) = (if is_control (fst x) = c then fst (snd x) else 0) + class_bytes c xs"
  "class_bytes c (xs @ ys) = class_bytes c xs + class_bytes c ys"
  by (simp_all add: class_frames_def class_bytes_def)

lemma overflow_kept [simp]:
  "dp_alive (flushOverflow c d) = dp_alive d" "retained_of (flushOverflow c d) = retained_of d"
  "dp_queue (flushOverflow c d) = dp_queue d" "dp_active (flushOverflow c d) = dp_active d"
  "dp_data_frames (flushOverflow c d) = dp_data_frames d" "dp_data_bytes (flushOverflow c d) = dp_data_bytes d"
  "dp_control_frames (flushOverflow c d) = dp_control_frames d" "dp_control_bytes (flushOverflow c d) = dp_control_bytes d"
  "dp_given (flushOverflow c d) = dp_given d" "dp_accepted (flushOverflow c d) = dp_accepted d"
  "dp_offered (flushOverflow c d) = dp_offered d"
  by (simp_all add: flushOverflow_def set_overflow_def the_overflow_def Let_def retained_of_def)

lemma flush_dropped [simp]: "dropped (flushOverflow c d) = dropped d"
  by (simp add: dropped_def flushOverflow_def set_overflow_def the_overflow_def Let_def)

lemma record_dropped: "dropped (recordOverflow c n d) = dropped d + 1"
proof -
  have "dropped (set_overflow c ((the_overflow c d)\<lparr>ov_frames := ov_frames (the_overflow c d) + 1, ov_bytes := k, ov_timer := t\<rparr>) d) = dropped d + 1" for k t
    by (simp add: dropped_def set_overflow_def the_overflow_def)
  moreover have "dropped (set_overflow c ((the_overflow c d)\<lparr>ov_frames := ov_frames (the_overflow c d) + 1, ov_bytes := k\<rparr>) d) = dropped d + 1" for k
    by (simp add: dropped_def set_overflow_def the_overflow_def)
  ultimately show ?thesis
    by (auto simp: recordOverflow_def Let_def) (auto simp: dropped_def set_overflow_def the_overflow_def)
qed

lemma record_kept [simp]:
  "dp_alive (recordOverflow c n d) = dp_alive d" "retained_of (recordOverflow c n d) = retained_of d"
  "dp_queue (recordOverflow c n d) = dp_queue d" "dp_active (recordOverflow c n d) = dp_active d"
  "dp_data_frames (recordOverflow c n d) = dp_data_frames d" "dp_data_bytes (recordOverflow c n d) = dp_data_bytes d"
  "dp_control_frames (recordOverflow c n d) = dp_control_frames d" "dp_control_bytes (recordOverflow c n d) = dp_control_bytes d"
  "dp_given (recordOverflow c n d) = dp_given d" "dp_accepted (recordOverflow c n d) = dp_accepted d"
  "dp_offered (recordOverflow c n d) = dp_offered d"
  by (simp_all add: recordOverflow_def flushOverflow_def set_overflow_def the_overflow_def Let_def retained_of_def)

lemma ok_flush [simp]: "dispatch_ok (flushOverflow c d) = dispatch_ok d"
  by (simp add: dispatch_ok_def)

lemma offered_frame [simp]: "retained_of (d\<lparr>dp_offered := k\<rparr>) = retained_of d" "dropped (d\<lparr>dp_offered := k\<rparr>) = dropped d"
  by (simp_all add: retained_of_def dropped_def)

lemma ok_record: "dispatch_ok d \<Longrightarrow> dispatch_ok (recordOverflow c n (d\<lparr>dp_offered := Suc (dp_offered d)\<rparr>))"
  by (simp add: dispatch_ok_def record_dropped)

lemma ok_enqueue:
  assumes "dispatch_ok d" "dp_alive d"
    "if is_control item then dp_control_frames d < MAX_PENDING_RELAY_CONTROL_FRAMES \<and> n \<le> MAX_PENDING_RELAY_CONTROL_BYTES - dp_control_bytes d
     else dp_data_frames d < MAX_PENDING_RELAY_DISPATCH_FRAMES \<and> n \<le> MAX_PENDING_RELAY_DISPATCH_BYTES - dp_data_bytes d"
  shows "dispatch_ok (enqueue item n (d\<lparr>dp_offered := Suc (dp_offered d)\<rparr>))"
proof -
  have r: "retained_of (enqueue item n (d\<lparr>dp_offered := Suc (dp_offered d)\<rparr>)) = retained_of d @ [(item, n, True)]"
    by (simp add: retained_of_def enqueue_def Let_def)
  show ?thesis
    using assms unfolding dispatch_ok_def r by (auto simp: enqueue_def Let_def dropped_def)
qed

lemma ok_line:
  assumes "dispatch_ok d" "dp_alive d"
  shows "dispatch_ok (onMessage line d)"
proof -
  obtain control where c: "(if text_includes line ([CHR 0x22] @ ''type'' @ [CHR 0x22]) then decodeRelayControlFrame line else None) = control"
    by blast
  show ?thesis
    unfolding onMessage_def Let_def c
    using assms ok_record ok_enqueue [OF assms] by (cases control) (simp_all add: not_le)
qed

lemma ok_drain:
  assumes "dispatch_ok d"
  shows "dispatch_ok (drain_next d)"
proof (cases "dp_alive d \<and> dp_active d = None \<and> dp_queue d \<noteq> []")
  case False
  with assms show ?thesis by (auto simp: drain_next_def split: list.splits)
next
  case True
  then obtain x rest where q: "dp_queue d = x # rest" by (cases "dp_queue d") auto
  let ?d = "d\<lparr>dp_queue := rest, dp_active := Some x, dp_given := dp_given d @ [fst x]\<rparr>"
  have "retained_of ?d = retained_of d" using True q by (simp add: retained_of_def)
  with assms True q show ?thesis by (auto simp: drain_next_def dispatch_ok_def dropped_def)
qed

lemma ok_settled:
  assumes "dispatch_ok d"
  shows "dispatch_ok (handler_settled d)"
proof (cases "dp_active d")
  case (Some x)
  obtain item n acc where x: "x = (item, n, acc)" by (cases x) auto
  show ?thesis
  proof (cases acc)
    case True
    then have r: "retained_of d = (item, n, True) # filter (\<lambda>x. snd (snd x)) (dp_queue d)"
      using Some x by (simp add: retained_of_def)
    have r': "retained_of (handler_settled d) = filter (\<lambda>x. snd (snd x)) (dp_queue d)"
      using Some x by (simp add: handler_settled_def unaccount_def retained_of_def)
    show ?thesis
      using assms Some x True unfolding dispatch_ok_def r r' by (auto simp: handler_settled_def unaccount_def dropped_def)
  next
    case False
    then have "retained_of (handler_settled d) = retained_of d"
      using Some x by (simp add: handler_settled_def unaccount_def retained_of_def)
    with assms Some x False show ?thesis by (auto simp: dispatch_ok_def handler_settled_def unaccount_def dropped_def)
  qed
qed (simp add: handler_settled_def assms)

lemma unaccount_kept [simp]:
  "dp_alive (unaccount x d) = dp_alive d" "dp_queue (unaccount x d) = dp_queue d" "dp_given (unaccount x d) = dp_given d"
  "dp_accepted (unaccount x d) = dp_accepted d" "dp_offered (unaccount x d) = dp_offered d" "dropped (unaccount x d) = dropped d"
  "dp_active (unaccount x d) = dp_active d"
  by (auto simp: unaccount_def dropped_def split: prod.splits)

text \<open>The counters left when every accounted item of a list is released.\<close>

abbreviation unaccount_all :: "retained list \<Rightarrow> dispatch \<Rightarrow> dispatch" where
  "unaccount_all xs d \<equiv> foldl (\<lambda>d x. unaccount x d) d xs"

lemma unaccount_counts:
  "snd (snd x) \<Longrightarrow> dp_data_frames (unaccount x d) = dp_data_frames d - class_frames False [x]"
  "snd (snd x) \<Longrightarrow> dp_data_bytes (unaccount x d) = dp_data_bytes d - class_bytes False [x]"
  "snd (snd x) \<Longrightarrow> dp_control_frames (unaccount x d) = dp_control_frames d - class_frames True [x]"
  "snd (snd x) \<Longrightarrow> dp_control_bytes (unaccount x d) = dp_control_bytes d - class_bytes True [x]"
  by (auto simp: unaccount_def split: prod.splits)

lemma unaccount_all_kept:
  "dp_alive (unaccount_all xs d) = dp_alive d" "dp_queue (unaccount_all xs d) = dp_queue d" "dp_given (unaccount_all xs d) = dp_given d"
  "dp_accepted (unaccount_all xs d) = dp_accepted d" "dp_offered (unaccount_all xs d) = dp_offered d"
  "dropped (unaccount_all xs d) = dropped d" "dp_active (unaccount_all xs d) = dp_active d"
  by (induction xs arbitrary: d) simp_all

lemma unaccount_all_counts:
  assumes "\<forall>x \<in> set xs. snd (snd x)"
  shows "dp_data_frames (unaccount_all xs d) = dp_data_frames d - class_frames False xs"
    and "dp_data_bytes (unaccount_all xs d) = dp_data_bytes d - class_bytes False xs"
    and "dp_control_frames (unaccount_all xs d) = dp_control_frames d - class_frames True xs"
    and "dp_control_bytes (unaccount_all xs d) = dp_control_bytes d - class_bytes True xs"
  using assms by (induction xs arbitrary: d) (simp_all add: unaccount_counts)

lemma ok_release:
  assumes "dispatch_ok d"
  shows "dispatch_ok (releasePendingDispatch d)"
proof -
  define d2 where "d2 = (case dp_active d of None \<Rightarrow> d\<lparr>dp_alive := False\<rparr>
    | Some (item, n, acc) \<Rightarrow> (unaccount (item, n, acc) (d\<lparr>dp_alive := False\<rparr>))\<lparr>dp_active := Some (item, n, False)\<rparr>)"
  have e: "releasePendingDispatch d = (unaccount_all (dp_queue d2) d2)\<lparr>dp_queue := []\<rparr>"
    by (simp add: releasePendingDispatch_def Let_def d2_def)
  have all: "\<forall>x \<in> set (dp_queue d). snd (snd x)" using assms by (simp add: dispatch_ok_def)
  then have qf: "filter (\<lambda>x. snd (snd x)) (dp_queue d) = dp_queue d" by simp
  have q: "dp_queue d2 = dp_queue d" by (simp add: d2_def split: option.splits prod.splits)
  have act: "\<forall>x. dp_active d2 = Some x \<longrightarrow> \<not> snd (snd x)" by (auto simp: d2_def split: option.splits prod.splits)
  have counts: "dp_data_frames d2 = class_frames False (dp_queue d)" "dp_data_bytes d2 = class_bytes False (dp_queue d)"
    "dp_control_frames d2 = class_frames True (dp_queue d)" "dp_control_bytes d2 = class_bytes True (dp_queue d)"
    using assms by (auto simp: d2_def dispatch_ok_def retained_of_def unaccount_def qf split: option.splits prod.splits)
  have given: "dp_given d2 = dp_given d" "dp_accepted d2 = dp_accepted d" "dp_offered d2 = dp_offered d" "dropped d2 = dropped d"
    "\<not> dp_alive d2" by (auto simp: d2_def dropped_def unaccount_def split: option.splits prod.splits)
  have lost: "\<exists>lost. dp_accepted d = dp_given d @ lost" using assms by (auto simp: dispatch_ok_def split: if_splits)
  have ret: "retained_of ((unaccount_all (dp_queue d2) d2)\<lparr>dp_queue := []\<rparr>) = []"
    using act by (cases "dp_active d2") (auto simp: retained_of_def unaccount_all_kept)
  have off: "dp_offered d = length (dp_accepted d) + dropped d" using assms by (simp add: dispatch_ok_def)
  have drp: "dropped ((unaccount_all (dp_queue d2) d2)\<lparr>dp_queue := []\<rparr>) = dropped d"
    using given(4) by (simp add: dropped_def) (metis dropped_def unaccount_all_kept(6))
  show ?thesis
    unfolding e dispatch_ok_def ret drp using given lost off
    by (simp add: unaccount_all_kept unaccount_all_counts [OF all] counts q)
qed

lemma ok_dispatch: "dispatch_ok (dispatch_run ops)"
proof (induction ops rule: rev_induct)
  case Nil
  show ?case by (simp add: new_dispatch_def dispatch_ok_def retained_of_def dropped_def no_overflow_def)
next
  case (snoc op ops)
  then show ?case by (cases op) (auto simp: ok_line ok_drain ok_settled ok_release)
qed

text \<open>
  C27. What one relay connection retains is bounded whatever the relay sends and however
  long a handler takes: data and control lines each within their own limit of frames
  and of bytes, counted exactly, and nothing is retained once the connection is
  released, even while a handler is still running.
\<close>

theorem relay_dispatch_bounded:
  "let d = dispatch_run ops in
    dp_data_frames d = class_frames False (retained_of d) \<and> dp_data_bytes d = class_bytes False (retained_of d) \<and>
    dp_control_frames d = class_frames True (retained_of d) \<and> dp_control_bytes d = class_bytes True (retained_of d) \<and>
    dp_data_frames d \<le> MAX_PENDING_RELAY_DISPATCH_FRAMES \<and> dp_data_bytes d \<le> MAX_PENDING_RELAY_DISPATCH_BYTES \<and>
    dp_control_frames d \<le> MAX_PENDING_RELAY_CONTROL_FRAMES \<and> dp_control_bytes d \<le> MAX_PENDING_RELAY_CONTROL_BYTES \<and>
    (if dp_alive d then True else retained_of d = [] \<and> dp_queue d = [])"
  using ok_dispatch [of ops] by (auto simp: dispatch_ok_def Let_def)

text \<open>
  Every line a live connection receives is either accepted or counted as dropped,
  and the accepted ones reach the handlers in the order they came: what was handed to
  them, followed by the queue, is exactly what was accepted; after a release it is a
  prefix of it.
\<close>

lemma relay_dispatch_fifo:
  "let d = dispatch_run ops in
    dp_offered d = length (dp_accepted d) + dropped d \<and>
    (if dp_alive d then dp_accepted d = dp_given d @ map fst (dp_queue d)
     else take (length (dp_given d)) (dp_accepted d) = dp_given d)"
  using ok_dispatch [of ops] by (auto simp: dispatch_ok_def Let_def)

subsection \<open>The connection and its retries\<close>

text \<open>
  \<open>tp_url\<close> is the retry configuration (URL, key, room), set together and cleared
  together. \<open>tp_connecting\<close> are the attempts whose \<open>connect\<close> has not resolved,
  \<open>tp_open\<close> the clients connected and not closed, \<open>tp_listening\<close> those whose messages
  still reach this transport.
\<close>

datatype connect_kind = ForStart | ForReconnect

datatype connect_result = ConnectOk | ConnectFailed | RoomAlreadyOpen

datatype relay_status = Disconnected | Connected | Reconnecting

record transport =
  tp_relay :: "nat option"
  tp_url :: "string option"
  tp_timer :: bool
  tp_attempt :: nat
  tp_stopping :: bool
  tp_disposed :: bool
  tp_binding :: "(nat \<times> nat) option"
  tp_generation :: nat
  tp_created :: nat
  tp_connecting :: "(nat \<times> connect_kind) list"
  tp_open :: "nat list"
  tp_listening :: "nat list"
  tp_delays :: "nat list"

definition new_transport :: transport where
  "new_transport = \<lparr>tp_relay = None, tp_url = None, tp_timer = False, tp_attempt = 0, tp_stopping = False,
     tp_disposed = False, tp_binding = None, tp_generation = 1, tp_created = 0, tp_connecting = [], tp_open = [],
     tp_listening = [], tp_delays = []\<rparr>"

definition REACHABILITY_BACKOFF_MS :: "nat list" where
  "REACHABILITY_BACKOFF_MS = [1000, 2000, 5000, 10000, 30000]"

definition reachabilityBackoffMs :: "nat \<Rightarrow> nat" where
  "reachabilityBackoffMs attempt = REACHABILITY_BACKOFF_MS ! min attempt (length REACHABILITY_BACKOFF_MS - 1)"

definition status :: "transport \<Rightarrow> relay_status" where
  "status t = (if tp_url t = None then Disconnected else if tp_relay t \<noteq> None then Connected else Reconnecting)"

definition connectionIsCurrent :: "nat \<times> nat \<Rightarrow> transport \<Rightarrow> bool" where
  "connectionIsCurrent b t \<longleftrightarrow>
    (case tp_binding t of None \<Rightarrow> False | Some (g, _) \<Rightarrow> g = fst b) \<and> tp_relay t = Some (snd b) \<and>
    \<not> tp_stopping t \<and> \<not> tp_disposed t"

definition bindRelay :: "nat \<Rightarrow> transport \<Rightarrow> transport" where
  "bindRelay r t = t\<lparr>tp_binding := Some (tp_generation t, r), tp_generation := tp_generation t + 1, tp_listening := r # tp_listening t\<rparr>"

definition unbindRelay :: "nat \<Rightarrow> transport \<Rightarrow> transport" where
  "unbindRelay r t = (case tp_binding t of
     None \<Rightarrow> t
   | Some (g, r') \<Rightarrow> (if r' \<noteq> r then t else t\<lparr>tp_binding := None, tp_listening := filter (\<lambda>x. x \<noteq> r) (tp_listening t)\<rparr>))"

definition close_client :: "nat \<Rightarrow> transport \<Rightarrow> transport" where
  "close_client r t = t\<lparr>tp_open := filter (\<lambda>x. x \<noteq> r) (tp_open t)\<rparr>"

definition scheduleReconnect :: "transport \<Rightarrow> transport" where
  "scheduleReconnect t =
    (if tp_timer t then t else if tp_url t = None then t else if status t = Disconnected then t
     else t\<lparr>tp_delays := tp_delays t @ [reachabilityBackoffMs (tp_attempt t)], tp_attempt := tp_attempt t + 1, tp_timer := True\<rparr>)"

definition create_client :: "connect_kind \<Rightarrow> transport \<Rightarrow> transport" where
  "create_client kind t = t\<lparr>tp_created := tp_created t + 1, tp_connecting := tp_connecting t @ [(tp_created t, kind)]\<rparr>"

text \<open>\<open>start\<close> up to its await.\<close>

definition start_relay :: "string \<Rightarrow> transport \<Rightarrow> transport" where
  "start_relay url t = create_client ForStart (t\<lparr>tp_stopping := False, tp_timer := False, tp_url := Some url, tp_attempt := 0\<rparr>)"

text \<open>What follows the await in \<open>start\<close>.\<close>

definition started :: "nat \<Rightarrow> connect_result \<Rightarrow> transport \<Rightarrow> transport" where
  "started r result t =
    (if result \<noteq> ConnectOk then
       let t1 = close_client r t in
       if tp_disposed t1 then t1\<lparr>tp_url := None\<rparr>
       else if result = RoomAlreadyOpen then t1\<lparr>tp_url := None\<rparr>
       else scheduleReconnect (t1\<lparr>tp_relay := None\<rparr>)
     else if tp_disposed t then (close_client r t)\<lparr>tp_url := None\<rparr>
     else
       let t1 = (case tp_relay t of None \<Rightarrow> t | Some old \<Rightarrow> close_client old (unbindRelay old t)) in
       bindRelay r (t1\<lparr>tp_relay := Some r, tp_attempt := 0\<rparr>))"

text \<open>\<open>attemptReconnect\<close> up to its await, and what follows it.\<close>

definition timer_fires :: "transport \<Rightarrow> transport" where
  "timer_fires t =
    (if \<not> tp_timer t then t
     else let t1 = t\<lparr>tp_timer := False\<rparr> in
       if status t1 = Disconnected \<or> tp_url t1 = None then t1 else create_client ForReconnect t1)"

definition reconnected :: "nat \<Rightarrow> connect_result \<Rightarrow> transport \<Rightarrow> transport" where
  "reconnected r result t =
    (if result \<noteq> ConnectOk then
       let t1 = close_client r t in if status t1 \<noteq> Disconnected then scheduleReconnect t1 else t1
     else if status t = Disconnected \<or> tp_disposed t then close_client r t
     else bindRelay r (t\<lparr>tp_relay := Some r, tp_attempt := 0\<rparr>))"

definition connect_resolves :: "nat \<Rightarrow> connect_result \<Rightarrow> transport \<Rightarrow> transport" where
  "connect_resolves r result t = (case map_of (tp_connecting t) r of
     None \<Rightarrow> t
   | Some kind \<Rightarrow>
      let t1 = t\<lparr>tp_connecting := filter (\<lambda>x. fst x \<noteq> r) (tp_connecting t)\<rparr>;
          t2 = (if result = ConnectOk then t1\<lparr>tp_open := r # tp_open t1\<rparr> else t1) in
      (case kind of ForStart \<Rightarrow> started r result t2 | ForReconnect \<Rightarrow> reconnected r result t2))"

definition onRelayClose :: "nat \<times> nat \<Rightarrow> transport \<Rightarrow> transport" where
  "onRelayClose b t =
    (if \<not> connectionIsCurrent b t \<or> tp_url t = None then t
     else scheduleReconnect ((unbindRelay (snd b) t)\<lparr>tp_relay := None\<rparr>))"

text \<open>A socket goes away; its binding hears of it if it is the current one.\<close>

definition socket_closes :: "nat \<Rightarrow> transport \<Rightarrow> transport" where
  "socket_closes r t =
    (if r \<notin> set (tp_open t) then t
     else let t1 = close_client r t in
       case tp_binding t1 of
         None \<Rightarrow> t1
       | Some b \<Rightarrow> (if snd b = r \<and> r \<in> set (tp_listening t1) then onRelayClose b t1 else t1))"

definition stop_relay :: "transport \<Rightarrow> transport" where
  "stop_relay t =
    (let t1 = t\<lparr>tp_stopping := True, tp_timer := False, tp_attempt := 0, tp_relay := None, tp_url := None\<rparr> in
     case tp_relay t of None \<Rightarrow> t1 | Some r \<Rightarrow> close_client r (unbindRelay r t1))"

datatype transport_op =
    StartRelay string
  | Resolves nat connect_result
  | TimerFires
  | SocketCloses nat
  | StopRelay
  | Dispose

fun transport_do :: "transport_op \<Rightarrow> transport \<Rightarrow> transport" where
  "transport_do (StartRelay url) t = start_relay url t"
| "transport_do (Resolves r result) t = connect_resolves r result t"
| "transport_do TimerFires t = timer_fires t"
| "transport_do (SocketCloses r) t = socket_closes r t"
| "transport_do StopRelay t = stop_relay t"
| "transport_do Dispose t = t\<lparr>tp_disposed := True\<rparr>"

abbreviation transport_run :: "transport_op list \<Rightarrow> transport" where
  "transport_run ops \<equiv> foldl (\<lambda>t op. transport_do op t) new_transport ops"

lemmas transport_defs = close_client_def create_client_def start_relay_def started_def timer_fires_def reconnected_def
  connect_resolves_def onRelayClose_def socket_closes_def stop_relay_def scheduleReconnect_def bindRelay_def
  status_def connectionIsCurrent_def Let_def

text \<open>The retry goes on: without a connection there is a timer or an attempt.\<close>

definition retrying :: "transport \<Rightarrow> bool" where
  "retrying t \<longleftrightarrow> tp_timer t \<or> tp_connecting t \<noteq> []"

definition not_stranded :: "transport \<Rightarrow> bool" where
  "not_stranded t \<longleftrightarrow> (tp_url t \<noteq> None \<and> tp_relay t = None \<and> \<not> tp_disposed t \<longrightarrow> retrying t)"

lemma unbind_kept [simp]:
  "tp_relay (unbindRelay r t) = tp_relay t" "tp_url (unbindRelay r t) = tp_url t" "tp_timer (unbindRelay r t) = tp_timer t"
  "tp_connecting (unbindRelay r t) = tp_connecting t" "tp_open (unbindRelay r t) = tp_open t"
  "tp_stopping (unbindRelay r t) = tp_stopping t" "tp_disposed (unbindRelay r t) = tp_disposed t"
  "tp_created (unbindRelay r t) = tp_created t" "tp_generation (unbindRelay r t) = tp_generation t"
  by (auto simp: unbindRelay_def split: option.splits)

lemma stranded_step: "not_stranded t \<Longrightarrow> not_stranded (transport_do op t)"
  by (cases op) (auto simp: not_stranded_def retrying_def transport_defs split: option.splits connect_kind.splits)

lemma backoff_slot: "reachabilityBackoffMs n \<in> set REACHABILITY_BACKOFF_MS"
  unfolding reachabilityBackoffMs_def by (rule nth_mem) (simp add: REACHABILITY_BACKOFF_MS_def)

lemma delays_step:
  "set (tp_delays t) \<subseteq> set REACHABILITY_BACKOFF_MS \<Longrightarrow> set (tp_delays (transport_do op t)) \<subseteq> set REACHABILITY_BACKOFF_MS"
  using backoff_slot
  by (cases op) (auto simp: transport_defs unbindRelay_def split: option.splits connect_kind.splits)

text \<open>
  C28. A transport that is configured and has lost its connection never gives up: in
  every run, whatever the order in which attempts resolve, sockets close and the user
  starts and stops, there is then a retry timer armed or an attempt under way, until
  the runtime is disposed; and no delay between attempts is outside the canonical
  table, so none exceeds thirty seconds.
\<close>

theorem relay_never_stranded:
  "let t = transport_run ops in
    (if status t = Reconnecting \<and> \<not> tp_disposed t then tp_timer t \<or> 0 < length (tp_connecting t) else True) \<and>
    set (tp_delays t) \<subseteq> {1000, 2000, 5000, 10000, 30000}"
proof -
  have "not_stranded (transport_run ops) \<and> set (tp_delays (transport_run ops)) \<subseteq> set REACHABILITY_BACKOFF_MS"
  proof (induction ops rule: rev_induct)
    case Nil
    show ?case by (simp add: not_stranded_def new_transport_def)
  next
    case (snoc op ops)
    then show ?case using stranded_step delays_step by simp
  qed
  then show ?thesis by (auto simp: not_stranded_def retrying_def status_def Let_def REACHABILITY_BACKOFF_MS_def)
qed

text \<open>
  The order of use under which connections do not pile up: a start finds the transport
  unconfigured and no attempt under way, a stop no start under way.
\<close>

fun orderly_step :: "transport_op \<Rightarrow> transport \<Rightarrow> bool" where
  "orderly_step (StartRelay url) t = (tp_url t = None \<and> tp_connecting t = [])"
| "orderly_step StopRelay t = (ForStart \<notin> snd ` set (tp_connecting t))"
| "orderly_step _ t = True"

fun orderly_run :: "transport_op list \<Rightarrow> transport \<Rightarrow> bool" where
  "orderly_run [] t = True"
| "orderly_run (op # ops) t = (orderly_step op t \<and> orderly_run ops (transport_do op t))"

definition tidy :: "transport \<Rightarrow> bool" where
  "tidy t \<longleftrightarrow>
    tp_open t = (case tp_relay t of None \<Rightarrow> [] | Some r \<Rightarrow> [r]) \<and> tp_listening t = tp_open t \<and>
    map_option snd (tp_binding t) = tp_relay t \<and>
    (\<exists>r kind. tp_connecting t = [] \<or> tp_connecting t = [(r, kind)] \<and> (kind = ForStart \<longrightarrow> tp_url t \<noteq> None)) \<and>
    (tp_connecting t \<noteq> [] \<or> tp_timer t \<or> tp_url t = None \<longrightarrow> tp_relay t = None) \<and>
    (tp_connecting t \<noteq> [] \<or> tp_url t = None \<longrightarrow> \<not> tp_timer t) \<and> (tp_url t \<noteq> None \<longrightarrow> \<not> tp_stopping t)"

lemma tidy_resolves:
  assumes "tidy t" "\<not> tp_disposed t"
  shows "tidy (connect_resolves r result t)"
proof (cases "map_of (tp_connecting t) r")
  case None
  with assms show ?thesis by (simp add: connect_resolves_def)
next
  case (Some kind)
  then have c: "tp_connecting t = [(r, kind)]" and k: "kind = ForStart \<longrightarrow> tp_url t \<noteq> None"
    using assms(1) by (auto simp: tidy_def split: if_splits)
  have t: "tp_open t = []" "tp_listening t = []" "tp_relay t = None" "tp_binding t = None" "\<not> tp_timer t"
    "tp_url t \<noteq> None \<Longrightarrow> \<not> tp_stopping t"
    using assms(1) c by (auto simp: tidy_def)
  show ?thesis
  proof (cases kind)
    case ForStart
    with k obtain url where "tp_url t = Some url" by auto
    with ForStart c t assms(2) show ?thesis
      by (cases result) (simp_all add: connect_resolves_def started_def Let_def close_client_def scheduleReconnect_def status_def bindRelay_def tidy_def)
  next
    case ForReconnect
    with c t assms(2) show ?thesis
      by (cases result; cases "tp_url t")
        (simp_all add: connect_resolves_def reconnected_def Let_def close_client_def scheduleReconnect_def status_def bindRelay_def tidy_def)
  qed
qed

lemma tidy_start: "tidy t \<Longrightarrow> tp_url t = None \<Longrightarrow> tp_connecting t = [] \<Longrightarrow> tidy (start_relay url t)"
  by (simp add: tidy_def start_relay_def create_client_def)

lemma tidy_timer: "tidy t \<Longrightarrow> tidy (timer_fires t)"
  by (cases "tp_timer t"; cases "tp_url t") (auto simp: tidy_def timer_fires_def create_client_def status_def Let_def)

lemma tidy_unbound:
  assumes "tidy t" "tp_relay t = Some r"
  obtains g where "unbindRelay r t = t\<lparr>tp_binding := None, tp_listening := []\<rparr>" "tp_binding t = Some (g, r)"
    "tp_open t = [r]" "tp_connecting t = []" "\<not> tp_timer t" "tp_url t \<noteq> None" "\<not> tp_stopping t"
proof -
  from assms obtain g where "tp_binding t = Some (g, r)" "tp_open t = [r]" "tp_listening t = [r]" "tp_connecting t = []"
    "\<not> tp_timer t" "tp_url t \<noteq> None" "\<not> tp_stopping t"
    by (auto simp: tidy_def)
  then show ?thesis by (intro that [of g]) (simp_all add: unbindRelay_def)
qed

lemma tidy_socket:
  assumes "tidy t" "\<not> tp_disposed t"
  shows "tidy (socket_closes r t)"
proof (cases "tp_relay t = Some r")
  case True
  with assms(1) obtain g where b: "tp_binding t = Some (g, r)" "tp_open t = [r]" "tp_connecting t = []" "\<not> tp_timer t"
    "tp_url t \<noteq> None" "\<not> tp_stopping t" by (rule tidy_unbound)
  have l: "tp_listening t = [r]" using assms(1) b(2) by (simp add: tidy_def)
  obtain url where "tp_url t = Some url" using b(5) by auto
  with b l True assms(2) show ?thesis
    by (simp add: socket_closes_def close_client_def onRelayClose_def connectionIsCurrent_def unbindRelay_def scheduleReconnect_def
        status_def tidy_def Let_def)
next
  case False
  then have "r \<notin> set (tp_open t)" using assms(1) by (auto simp: tidy_def split: option.splits)
  with assms(1) show ?thesis by (simp add: socket_closes_def)
qed

lemma tidy_stop:
  assumes "tidy t" "ForStart \<notin> snd ` set (tp_connecting t)"
  shows "tidy (stop_relay t)"
proof (cases "tp_relay t")
  case None
  with assms show ?thesis by (auto simp: tidy_def stop_relay_def Let_def)
next
  case (Some r)
  with assms(1) obtain g where "tp_binding t = Some (g, r)" "tp_open t = [r]" "tp_connecting t = []"
    by (rule tidy_unbound)
  moreover have "tp_listening t = tp_open t" using assms(1) by (simp add: tidy_def)
  ultimately show ?thesis
    using Some by (simp add: stop_relay_def close_client_def unbindRelay_def tidy_def Let_def)
qed

lemma tidy_step: "tidy t \<Longrightarrow> orderly_step op t \<Longrightarrow> \<not> tp_disposed t \<Longrightarrow> tidy (transport_do op t) \<or> op = Dispose"
  by (cases op) (auto simp: tidy_start tidy_resolves tidy_timer tidy_socket tidy_stop)

lemma disposed_stays: "tp_disposed t \<Longrightarrow> tp_disposed (transport_do op t)"
  by (cases op) (auto simp: transport_defs split: option.splits connect_kind.splits)

lemma orderly_tidy:
  "orderly_run ops t \<Longrightarrow> tp_disposed t \<or> tidy t \<Longrightarrow> tp_disposed (foldl (\<lambda>t op. transport_do op t) t ops) \<or> tidy (foldl (\<lambda>t op. transport_do op t) t ops)"
proof (induction ops arbitrary: t)
  case (Cons op ops)
  then have "tp_disposed (transport_do op t) \<or> tidy (transport_do op t)"
    using tidy_step [of t op] disposed_stays [of t op] by (cases "op = Dispose") auto
  with Cons show ?case by simp
qed simp

text \<open>
  Used in order, the transport holds at most one connection: as long as the runtime
  is not disposed, the clients that are open and those whose messages it hears are
  exactly the current relay, none while it is unconfigured or an attempt is under
  way, and there is never more than one attempt or a timer beside an attempt.
\<close>

lemma relay_single_connection:
  assumes "orderly_run ops new_transport" "t = transport_run ops" "\<not> tp_disposed t"
  shows "tp_open t = (case tp_relay t of None \<Rightarrow> [] | Some r \<Rightarrow> [r]) \<and> tp_listening t = tp_open t \<and>
    length (tp_connecting t) \<le> 1 \<and>
    (if tp_connecting t \<noteq> [] then tp_relay t = None \<and> \<not> tp_timer t else True) \<and>
    (if tp_url t = None then tp_relay t = None \<and> \<not> tp_timer t else True)"
proof -
  have "tidy new_transport" by (simp add: tidy_def new_transport_def)
  with orderly_tidy [OF assms(1)] assms(2,3) have "tidy t" by auto
  then show ?thesis by (auto simp: tidy_def)
qed

lemmas run_defs = transport_defs new_transport_def unbindRelay_def reachabilityBackoffMs_def REACHABILITY_BACKOFF_MS_def

text \<open>
  Out of order it does not hold: a reconnection that resolves after the user has
  stopped and started again replaces the new connection by one to the old address,
  and leaves the new one open and heard.
\<close>

lemma late_reconnect_leaks:
  "let t = transport_run [StartRelay ''wss://a'', Resolves 0 ConnectOk, SocketCloses 0, TimerFires, StopRelay,
      StartRelay ''wss://b'', Resolves 2 ConnectOk, Resolves 1 ConnectOk] in
    tp_url t = Some ''wss://b'' \<and> tp_relay t = Some 1 \<and> tp_open t = [1, 2] \<and> tp_listening t = [1, 2]"
  by (simp add: run_defs)

subsection \<open>The typed fan-out\<close>

text \<open>A handler is its number; \<open>fo_seen\<close> is what each one was given.\<close>

record fanout =
  fo_handlers :: "nat list"
  fo_claimed :: bool
  fo_fallback :: bool
  fo_seen :: "(nat \<times> relay_ingress) list"

definition new_fanout :: fanout where
  "new_fanout = \<lparr>fo_handlers = [], fo_claimed = False, fo_fallback = False, fo_seen = []\<rparr>"

definition publish :: "relay_ingress \<Rightarrow> fanout \<Rightarrow> fanout" where
  "publish x h = h\<lparr>fo_seen := fo_seen h @ map (\<lambda>k. (k, x)) (fo_handlers h)\<rparr>"

definition attachFallback :: "fanout \<Rightarrow> fanout" where
  "attachFallback h = (if fo_claimed h \<or> fo_fallback h \<or> fo_handlers h = [] then h else h\<lparr>fo_fallback := True\<rparr>)"

definition detachFallback :: "fanout \<Rightarrow> fanout" where
  "detachFallback h = h\<lparr>fo_fallback := False\<rparr>"

definition claimRelayIngressFanout :: "fanout \<Rightarrow> fanout" where
  "claimRelayIngressFanout h = detachFallback (h\<lparr>fo_claimed := True\<rparr>)"

text \<open>The closure a claim returns, with whether it has been called.\<close>

definition release_claim :: "bool \<Rightarrow> fanout \<Rightarrow> bool \<times> fanout" where
  "release_claim released h = (if released then (released, h) else (True, h\<lparr>fo_claimed := False\<rparr>))"

definition subscribeRelayIngress :: "nat \<Rightarrow> fanout \<Rightarrow> fanout" where
  "subscribeRelayIngress k h = attachFallback (h\<lparr>fo_handlers := oset_add (fo_handlers h) k\<rparr>)"

definition unsubscribe :: "nat \<Rightarrow> fanout \<Rightarrow> fanout" where
  "unsubscribe k h =
    (let h1 = h\<lparr>fo_handlers := filter (\<lambda>x. x \<noteq> k) (fo_handlers h)\<rparr> in if fo_handlers h1 = [] then detachFallback h1 else h1)"

text \<open>A line of the source, heard by the fallback decoder if it is attached.\<close>

definition fallback_line :: "string \<Rightarrow> fanout \<Rightarrow> fanout" where
  "fallback_line line h =
    (if \<not> fo_fallback h then h else case decodeRelayIngress DEFAULT_LIMITS line of Inl _ \<Rightarrow> h | Inr x \<Rightarrow> publish x h)"

text \<open>The owner of a claim is the only decoder until it releases it.\<close>

definition fanout_ok :: "fanout \<Rightarrow> bool" where
  "fanout_ok h \<longleftrightarrow> distinct (fo_handlers h) \<and> \<not> (fo_claimed h \<and> fo_fallback h) \<and> (fo_fallback h \<longrightarrow> fo_handlers h \<noteq> [])"

lemma fanout_preserved:
  assumes "fanout_ok h"
  shows "fanout_ok (claimRelayIngressFanout h)" "fanout_ok (snd (release_claim released h))"
    "fanout_ok (subscribeRelayIngress k h)" "fanout_ok (unsubscribe k h)" "fanout_ok (publish x h)" "fanout_ok (fallback_line line h)"
  using assms
  by (auto simp: fanout_ok_def claimRelayIngressFanout_def release_claim_def subscribeRelayIngress_def unsubscribe_def
      publish_def attachFallback_def detachFallback_def fallback_line_def Let_def oset_add_def split: sum.splits)

end
