(* ===== verification/MeshMembership.thy ===== *)
theory MeshMembership imports RelayIngress
begin

text \<open>
  Mesh membership (\<open>pi-extension/src/mesh\<close>): the canonical JSON an owner signs, the
  client and the verification of its envelopes, and the discovery of sibling machines
  and of one's own label.

  The signature check \<open>ed\<close> (key, message, signature) and the hash \<open>sha\<close> (its lowercase
  hex text) are arguments. The relay is an argument too: \<open>fetch\<close> gives the response to
  a slot and a cursor, and is under the adversary's control. A blob whose bytes are not
  UTF-8 is outside the model: \<open>verifyEnvelope\<close> turns it away, where the code reads
  replacement characters.
\<close>

subsection \<open>Canonical JSON\<close>

fun string_cmp :: "string \<Rightarrow> string \<Rightarrow> int" where
  "string_cmp [] [] = 0"
| "string_cmp [] (_ # _) = - 1"
| "string_cmp (_ # _) [] = 1"
| "string_cmp (a # as) (b # bs) =
     (if of_char a < (of_char b :: nat) then - 1 else if of_char b < (of_char a :: nat) then 1 else string_cmp as bs)"

definition sort_pairs :: "(string \<times> 'a) list \<Rightarrow> (string \<times> 'a) list" where
  "sort_pairs = sort_by (\<lambda>x y. string_cmp (fst x) (fst y))"

fun commas :: "string list \<Rightarrow> string" where
  "commas [] = ''''"
| "commas [x] = x"
| "commas (x # xs) = x @ '','' @ commas xs"

text \<open>\<open>None\<close> is the error for a number that is not finite.\<close>

fun canonicalize :: "js \<Rightarrow> string option" where
  "canonicalize Undef = Some ''null''"
| "canonicalize Null = Some ''null''"
| "canonicalize NonFinite = None"
| "canonicalize (Bool b) = Some (if b then ''true'' else ''false'')"
| "canonicalize (Num n) = Some (stringify (Num n))"
| "canonicalize (Str s) = Some (stringify (Str s))"
| "canonicalize (Arr xs) = map_option (\<lambda>items. ''['' @ commas items @ '']'') (those (map canonicalize xs))"
| "canonicalize (Obj kvs) = map_option (\<lambda>pairs. ''{'' @ commas pairs @ ''}'')
     (those (map (\<lambda>(k, t). map_option (\<lambda>t. quote k @ '':'' @ t) t)
       (sort_pairs (map (\<lambda>kv. (fst kv, canonicalize (snd kv))) (filter (\<lambda>kv. snd kv \<noteq> Undef) kvs)))))"

definition canonicalBytes :: "js \<Rightarrow> bytes option" where
  "canonicalBytes v = map_option utf8 (canonicalize v)"

text \<open>The value with the members of every object in order.\<close>

fun sort_members :: "js \<Rightarrow> js" where
  "sort_members (Arr xs) = Arr (map sort_members xs)"
| "sort_members (Obj kvs) = Obj (sort_pairs (map (\<lambda>kv. (fst kv, sort_members (snd kv))) kvs))"
| "sort_members v = v"

lemma string_cmp_refl [simp]: "string_cmp s s = 0"
  by (induction s) auto

lemma string_cmp_eq: "string_cmp s t = 0 \<longleftrightarrow> s = t"
  by (induction s t rule: string_cmp.induct) auto

lemma string_cmp_swap: "string_cmp s t = - string_cmp t s"
  by (induction s t rule: string_cmp.induct) auto

lemma string_cmp_nil [simp]: "string_cmp [] u \<le> 0"
  by (cases u) auto

lemma string_cmp_Cons:
  "string_cmp (a # as) (b # bs) \<le> 0 \<longleftrightarrow> of_char a < (of_char b :: nat) \<or> of_char a = (of_char b :: nat) \<and> string_cmp as bs \<le> 0"
  by auto

lemma string_cmp_trans: "string_cmp s t \<le> 0 \<Longrightarrow> string_cmp t u \<le> 0 \<Longrightarrow> string_cmp s u \<le> 0"
proof (induction s arbitrary: t u)
  case (Cons a as)
  then obtain b bs where t: "t = b # bs" by (cases t) auto
  with Cons.prems obtain c cs where u: "u = c # cs" by (cases u) auto
  from Cons.prems have "of_char a < (of_char b :: nat) \<or> of_char a = (of_char b :: nat) \<and> string_cmp as bs \<le> 0"
    and "of_char b < (of_char c :: nat) \<or> of_char b = (of_char c :: nat) \<and> string_cmp bs cs \<le> 0"
    unfolding t u string_cmp_Cons .
  then have "of_char a < (of_char c :: nat) \<or> of_char a = (of_char c :: nat) \<and> string_cmp as cs \<le> 0"
    using Cons.IH [of bs cs] by linarith
  then show ?case unfolding u string_cmp_Cons .
qed simp

lemma consistent_pairs: "consistent_cmp (\<lambda>x y. string_cmp (fst x) (fst y))"
  unfolding consistent_cmp_def using string_cmp_swap string_cmp_trans by (metis linear neg_le_0_iff_le)

lemma sort_pairs_set [simp]: "set (sort_pairs kvs) = set kvs" "length (sort_pairs kvs) = length kvs"
  by (simp_all add: sort_pairs_def)

lemma insert_by_map:
  "insert_by (\<lambda>x y. string_cmp (fst x) (fst y)) (k, g v) (map (\<lambda>x. (fst x, g (snd x))) xs) =
    map (\<lambda>x. (fst x, g (snd x))) (insert_by (\<lambda>x y. string_cmp (fst x) (fst y)) (k, v) xs)"
  by (induction xs) auto

lemma sort_pairs_map: "sort_pairs (map (\<lambda>x. (fst x, g (snd x))) xs) = map (\<lambda>x. (fst x, g (snd x))) (sort_pairs xs)"
proof (induction xs)
  case (Cons x xs)
  then show ?case using insert_by_map [of "fst x" g "snd x" "sort_pairs xs"] by (simp add: sort_pairs_def)
qed (simp add: sort_pairs_def)

lemma insert_by_keys: "set (map fst (insert_by c x xs)) = insert (fst x) (set (map fst xs))"
  by (induction xs) auto

lemma sort_pairs_distinct: "distinct (map fst (sort_pairs kvs)) = distinct (map fst kvs)"
proof (induction kvs)
  case (Cons kv kvs)
  have "distinct (map fst (insert_by c x xs)) \<longleftrightarrow> fst x \<notin> fst ` set xs \<and> distinct (map fst xs)" for c x and xs :: "(string \<times> 'a) list"
    by (induction xs) (auto simp: insert_by_keys image_iff)
  with Cons show ?case by (simp add: sort_pairs_def)
qed (simp add: sort_pairs_def)

text \<open>Sorting forgets the order its members came in.\<close>

lemma sorted_pairs_unique:
  assumes "sorted_wrt (\<lambda>x y. string_cmp (fst x) (fst y) \<le> 0) xs" "sorted_wrt (\<lambda>x y. string_cmp (fst x) (fst y) \<le> 0) ys"
    "set xs = set ys" "distinct (map fst xs)" "distinct (map fst ys)"
  shows "xs = ys"
  using assms
proof (induction xs arbitrary: ys)
  case (Cons x xs)
  then obtain y ys' where ys: "ys = y # ys'" by (cases ys) auto
  have "x = y"
  proof (rule ccontr)
    assume "x \<noteq> y"
    with Cons.prems(3) ys have "x \<in> set ys'" "y \<in> set xs" by auto
    with Cons.prems(1,2) ys have "string_cmp (fst x) (fst y) \<le> 0" "string_cmp (fst y) (fst x) \<le> 0" by auto
    then have "fst x = fst y" using string_cmp_swap [of "fst x" "fst y"] string_cmp_eq [of "fst x" "fst y"] by linarith
    with \<open>y \<in> set xs\<close> Cons.prems(4) show False by (auto simp: image_iff)
  qed
  moreover have "x \<notin> set xs" "y \<notin> set ys'" using Cons.prems(4,5) ys by force+
  with Cons.prems(3) ys \<open>x = y\<close> have "set xs = set ys'" by auto
  ultimately show ?case using Cons ys by simp
qed simp

lemma sort_pairs_order:
  "set kvs = set kvs' \<Longrightarrow> distinct (map fst kvs) \<Longrightarrow> distinct (map fst kvs') \<Longrightarrow> sort_pairs kvs = sort_pairs kvs'"
  by (intro sorted_pairs_unique)
    (simp_all add: sort_pairs_distinct, simp_all add: sort_pairs_def sorted_sort_by [OF consistent_pairs])

lemma commas_Cons: "commas (x # xs) = x @ (if xs = [] then '''' else '','' @ commas xs)"
  by (cases xs) auto

lemma str_members_commas:
  assumes "\<forall>kv \<in> set kvs. snd kv \<noteq> Undef"
  shows "str_members True kvs = commas (map (\<lambda>kv. quote (fst kv) @ '':'' @ stringify (snd kv)) kvs)"
proof -
  have "\<forall>kv \<in> set kvs. snd kv \<noteq> Undef \<Longrightarrow> str_members False kvs =
    (if kvs = [] then '''' else '','' @ commas (map (\<lambda>kv. quote (fst kv) @ '':'' @ stringify (snd kv)) kvs))" for kvs
    by (induction kvs) (auto simp: commas_Cons)
  with assms show ?thesis by (cases kvs) (auto simp: commas_Cons)
qed

lemma str_elems_commas: "str_elems True xs = commas (map stringify xs)"
proof -
  have "str_elems False xs = (if xs = [] then '''' else '','' @ commas (map stringify xs))" for xs
    by (induction xs) (auto simp: commas_Cons)
  then show ?thesis by (cases xs) (auto simp: commas_Cons)
qed

lemma those_Some: "(\<And>x. x \<in> set xs \<Longrightarrow> f x = Some (g x)) \<Longrightarrow> those (map f xs) = Some (map g xs)"
  by (induction xs) auto

lemma canonical_text: "json_value v \<Longrightarrow> canonicalize v = Some (stringify (sort_members v))"
proof (induction v rule: canonicalize.induct)
  case (7 xs)
  then have "those (map canonicalize xs) = Some (map (\<lambda>x. stringify (sort_members x)) xs)"
    by (intro those_Some) auto
  then show ?case by (simp add: str_elems_commas comp_def)
next
  case (8 kvs)
  have nu: "\<forall>kv \<in> set kvs. snd kv \<noteq> Undef" using "8.prems" by auto
  then have f: "filter (\<lambda>kv. snd kv \<noteq> Undef) kvs = kvs" by simp
  have c: "\<And>kv. kv \<in> set kvs \<Longrightarrow> canonicalize (snd kv) = Some (stringify (sort_members (snd kv)))"
    using "8.IH" "8.prems" by (auto simp: f)
  have m: "map (\<lambda>kv. (fst kv, canonicalize (snd kv))) kvs = map (\<lambda>kv. (fst kv, Some (stringify (sort_members (snd kv))))) kvs"
    using c by simp
  have su: "sort_members w \<noteq> Undef" if "w \<noteq> Undef" for w using that by (cases w) auto
  show ?case
    using nu su
    by (simp add: f m sort_pairs_map [where g = "\<lambda>v. Some (stringify (sort_members v))"] sort_pairs_map [where g = sort_members] comp_def
        those_Some [where g = "\<lambda>kv. quote (fst kv) @ '':'' @ stringify (sort_members (snd kv))"] str_members_commas)
qed auto

lemma sort_members_json: "json_value v \<Longrightarrow> json_value (sort_members v)"
proof (induction v rule: sort_members.induct)
  case (2 kvs)
  then show ?case by (auto simp: sort_pairs_distinct comp_def)
qed auto

text \<open>The same value with the members of its objects written in another order, at any depth.\<close>

inductive reorders :: "js \<Rightarrow> js \<Rightarrow> bool" where
  same: "reorders v v"
| elements: "list_all2 reorders xs ys \<Longrightarrow> reorders (Arr xs) (Arr ys)"
| members: "list_all2 (\<lambda>kv kw. fst kv = fst kw \<and> reorders (snd kv) (snd kw)) kvs kws \<Longrightarrow> mset kws = mset kvs' \<Longrightarrow>
    reorders (Obj kvs) (Obj kvs')"

lemma reorders_sorted:
  "reorders v w \<Longrightarrow> json_value v \<Longrightarrow> json_value w \<and> sort_members w = sort_members v"
proof (induction rule: reorders.induct)
  case (elements xs ys)
  then have "list_all2 (\<lambda>x y. x \<in> set xs \<longrightarrow> json_value y \<and> sort_members y = sort_members x) xs ys"
    by (auto elim!: list_all2_mono)
  then have "list_all2 (\<lambda>x y. json_value y \<and> sort_members y = sort_members x) xs ys"
    by (auto simp: list_all2_conv_all_nth)
  then show ?case by (auto simp: list_all2_conv_all_nth in_set_conv_nth intro!: nth_equalityI)
next
  case (members kvs kws kvs')
  have j: "\<And>kv. kv \<in> set kvs \<Longrightarrow> json_value (snd kv) \<and> snd kv \<noteq> Undef" "distinct (map fst kvs)"
    using members.prems by auto
  have each: "list_all2 (\<lambda>kv kw. fst kv = fst kw \<and> json_value (snd kw) \<and> sort_members (snd kw) = sort_members (snd kv)) kvs kws"
    using members.IH j(1) by (auto simp: list_all2_conv_all_nth)
  then have keys: "map fst kws = map fst kvs" and same: "map (\<lambda>kv. (fst kv, sort_members (snd kv))) kws = map (\<lambda>kv. (fst kv, sort_members (snd kv))) kvs"
    and js: "\<And>kw. kw \<in> set kws \<Longrightarrow> json_value (snd kw)"
    by (auto simp: list_all2_conv_all_nth in_set_conv_nth intro!: nth_equalityI)
  have "mset (map fst kvs') = mset (map fst kvs)" using members.hyps keys by (metis mset_map)
  then have set': "set kvs' = set kws" "distinct (map fst kvs')"
    using members.hyps j(2) mset_eq_imp_distinct_iff by (blast dest: mset_eq_setD, blast)
  have "sort_pairs (map (\<lambda>kv. (fst kv, sort_members (snd kv))) kvs') = sort_pairs (map (\<lambda>kv. (fst kv, sort_members (snd kv))) kvs)"
    using set' j(2) keys by (intro sort_pairs_order) (auto simp: comp_def simp flip: same)
  moreover have "json_value (Obj kvs')" using set' js by auto
  ultimately show ?case by simp
qed simp

text \<open>
  C29. What owners sign is canonical: for every JSON value the canonical text is JSON for that
  value with the members of all its objects sorted, and it does not depend on the order in
  which the members of any of them, however deep, were written; so two producers of the same
  membership sign the same bytes. (The order of the elements of an array does matter.)
\<close>

theorem canonical_json:
  assumes "json_value v"
  shows "(\<exists>s. canonicalize v = Some s \<and> json_parse s = Some (sort_members v))
    \<and> (\<forall>w. reorders v w \<longrightarrow> canonicalBytes w = canonicalBytes v)"
proof -
  have "canonicalize w = canonicalize v" if "reorders v w" for w
    using reorders_sorted [OF that assms] canonical_text [of w] canonical_text [OF assms] by simp
  then show ?thesis
    using canonical_text [OF assms] json_round_trip [OF sort_members_json [OF assms]] by (auto simp: canonicalBytes_def)
qed

theorem canonical_json_witness:
  "canonicalBytes (Arr [Obj [(''b'', Num 1), (''a'', Null)]]) = canonicalBytes (Arr [Obj [(''a'', Null), (''b'', Num 1)]])"
proof -
  let ?v = "Arr [Obj [(''a'', Null), (''b'', Num 1)]]"
  have "reorders (Obj [(''a'', Null), (''b'', Num 1)]) (Obj [(''b'', Num 1), (''a'', Null)])"
    by (rule reorders.members [of _ "[(''a'', Null), (''b'', Num 1)]"]) (simp_all add: reorders.same)
  then have "reorders ?v (Arr [Obj [(''b'', Num 1), (''a'', Null)]])" by (simp add: reorders.elements)
  with canonical_json [of ?v] show ?thesis by simp
qed

subsection \<open>Envelopes\<close>

record mesh_member =
  mm_remoteEpk :: string
  mm_relayUrl :: string
  mm_pairedAt :: string
  mm_nickname :: "string option"

record mesh_header =
  mh_version :: int
  mh_issuedAt :: int
  mh_ownerPk :: bytes
  mh_members :: "mesh_member list"

record mesh_envelope =
  me_blob :: bytes
  me_sig :: bytes

datatype mesh_error =
    HttpFailed | UnexpectedStatus int | MalformedResponse
  | NotJson | NotAnObject | BadOwnerPk | BadVersion | BadIssuedAt | BadMembers | WrongKeyLength | BadSignature
  | BadMember nat | StorageFailed | RevokeCallbackFailed

text \<open>What \<open>fetch\<close> and \<open>res.json()\<close> give: no response, or a status with a body if it parses.\<close>

datatype http_response = NoResponse | HttpResponse int "js option"

type_synonym signature_check = "bytes \<Rightarrow> bytes \<Rightarrow> bytes \<Rightarrow> bool"

type_synonym relay_slots = "string \<Rightarrow> int option \<Rightarrow> http_response"

definition mesh_get :: "http_response \<Rightarrow> mesh_error + mesh_envelope option" where
  "mesh_get res = (case res of
     NoResponse \<Rightarrow> Inl HttpFailed
   | HttpResponse st payload \<Rightarrow>
      (if st = 200 then
         (case payload of
            None \<Rightarrow> Inl MalformedResponse
          | Some p \<Rightarrow>
             (case (jfield p ''blob'', jfield p ''sig'') of
                (Str blob, Str sig) \<Rightarrow> Inr (Some \<lparr>me_blob = base64_decode blob, me_sig = base64_decode sig\<rparr>)
              | _ \<Rightarrow> Inl MalformedResponse))
       else if st = 304 \<or> st = 404 then Inr None
       else Inl (UnexpectedStatus st)))"

definition mesh_member_of :: "nat \<Rightarrow> js \<Rightarrow> mesh_error + mesh_member" where
  "mesh_member_of i raw =
    (case (jfield raw ''remote_epk'', jfield raw ''relay_url'', jfield raw ''paired_at'') of
       (Str epk, Str url, Str at) \<Rightarrow>
         Inr \<lparr>mm_remoteEpk = epk, mm_relayUrl = url, mm_pairedAt = at,
              mm_nickname = (case jfield raw ''nickname'' of Str n \<Rightarrow> Some n | _ \<Rightarrow> None)\<rparr>
     | _ \<Rightarrow> Inl (BadMember i))"

fun mesh_members_of :: "nat \<Rightarrow> js list \<Rightarrow> mesh_error + mesh_member list" where
  "mesh_members_of i [] = Inr []"
| "mesh_members_of i (raw # raws) = (case mesh_member_of i raw of
     Inl e \<Rightarrow> Inl e
   | Inr m \<Rightarrow> (case mesh_members_of (i + 1) raws of Inl e \<Rightarrow> Inl e | Inr ms \<Rightarrow> Inr (m # ms)))"

definition verifyEnvelope :: "signature_check \<Rightarrow> mesh_envelope \<Rightarrow> mesh_error + mesh_header" where
  "verifyEnvelope ed env =
    (case Option.bind (utf8_text (me_blob env)) json_parse of
       None \<Rightarrow> Inl NotJson
     | Some o' \<Rightarrow>
        (if \<not> is_object o' then Inl NotAnObject
         else case jfield o' ''owner_pk'' of
           Str owner \<Rightarrow>
             (case jfield o' ''version'' of
                Num version \<Rightarrow>
                  (case jfield o' ''issued_at'' of
                     Num issued \<Rightarrow>
                       (case jfield o' ''members'' of
                          Arr raws \<Rightarrow>
                            let ownerPk = base64_decode owner in
                            if length ownerPk \<noteq> 32 then Inl WrongKeyLength
                            else if \<not> ed ownerPk (me_blob env) (me_sig env) then Inl BadSignature
                            else (case mesh_members_of 0 raws of
                               Inl e \<Rightarrow> Inl e
                             | Inr ms \<Rightarrow> Inr \<lparr>mh_version = version, mh_issuedAt = issued, mh_ownerPk = ownerPk, mh_members = ms\<rparr>)
                        | _ \<Rightarrow> Inl BadMembers)
                   | _ \<Rightarrow> Inl BadIssuedAt)
              | _ \<Rightarrow> Inl BadVersion)
         | _ \<Rightarrow> Inl BadOwnerPk))"

lemma verified_signed:
  "verifyEnvelope ed env = Inr h \<Longrightarrow> ed (mh_ownerPk h) (me_blob env) (me_sig env) \<and> length (mh_ownerPk h) = 32"
  by (auto simp: verifyEnvelope_def Let_def split: option.splits if_splits js.splits sum.splits)

text \<open>An owner's header as a value, and the round trip of what an owner publishes.\<close>

definition member_js :: "mesh_member \<Rightarrow> js" where
  "member_js m = Obj ((case mm_nickname m of None \<Rightarrow> [] | Some n \<Rightarrow> [(''nickname'', Str n)]) @
     [(''paired_at'', Str (mm_pairedAt m)), (''relay_url'', Str (mm_relayUrl m)), (''remote_epk'', Str (mm_remoteEpk m))])"

definition header_js :: "mesh_header \<Rightarrow> js" where
  "header_js h = Obj [(''issued_at'', Num (mh_issuedAt h)), (''members'', Arr (map member_js (mh_members h))),
     (''owner_pk'', Str (base64_encode (mh_ownerPk h))), (''version'', Num (mh_version h))]"

lemma member_round_trip: "mesh_member_of i (member_js m) = Inr m"
  by (cases "mm_nickname m") (simp_all add: mesh_member_of_def member_js_def)

lemma members_round_trip: "mesh_members_of i (map member_js ms) = Inr ms"
  by (induction ms arbitrary: i) (simp_all add: member_round_trip)

lemma header_json: "json_value (header_js h)"
  by (auto simp: header_js_def member_js_def split: option.splits)

lemma header_sorted: "sort_members (header_js h) = header_js h"
proof -
  have "sort_members (member_js m) = member_js m" for m
    by (cases "mm_nickname m") (simp_all add: member_js_def sort_pairs_def)
  then show ?thesis by (simp add: header_js_def sort_pairs_def)
qed

lemma signed_verifies:
  assumes "length (mh_ownerPk h) = 32" "ed (mh_ownerPk h) (utf8 (stringify (header_js h))) sig"
  shows "verifyEnvelope ed \<lparr>me_blob = utf8 (stringify (header_js h)), me_sig = sig\<rparr> = Inr h"
  using assms
  by (simp add: verifyEnvelope_def json_round_trip [OF header_json] Let_def) (simp add: header_js_def members_round_trip)

text \<open>
  C30. An envelope that an owner signed over the canonical bytes of a header verifies,
  on any machine, to exactly that header; and whatever verifies to a header carries a
  valid signature over its bytes by the key that header names.
\<close>

theorem mesh_envelope_round_trip:
  assumes "length (mh_ownerPk h) = 32" "canonicalBytes (header_js h) = Some blob" "ed (mh_ownerPk h) blob sig"
  shows "verifyEnvelope ed \<lparr>me_blob = blob, me_sig = sig\<rparr> = Inr h \<and>
    (\<forall>env h'. verifyEnvelope ed env = Inr h' \<longrightarrow> ed (mh_ownerPk h') (me_blob env) (me_sig env))"
proof -
  have "blob = utf8 (stringify (header_js h))"
    using assms(2) canonical_text [OF header_json, of h] by (simp add: canonicalBytes_def header_sorted)
  with assms(1,3) signed_verifies verified_signed show ?thesis by blast
qed

theorem mesh_envelope_round_trip_witness:
  "let h = \<lparr>mh_version = 3, mh_issuedAt = 9, mh_ownerPk = replicate 32 1,
      mh_members = [\<lparr>mm_remoteEpk = ''AA=='', mm_relayUrl = ''r'', mm_pairedAt = ''t'', mm_nickname = Some ''pc''\<rparr>]\<rparr> in
   \<exists>blob. canonicalBytes (header_js h) = Some blob \<and>
     verifyEnvelope (\<lambda>pk msg sig. sig = pk) \<lparr>me_blob = blob, me_sig = replicate 32 1\<rparr> = Inr h"
proof -
  let ?h = "\<lparr>mh_version = 3, mh_issuedAt = 9, mh_ownerPk = replicate 32 1,
      mh_members = [\<lparr>mm_remoteEpk = ''AA=='', mm_relayUrl = ''r'', mm_pairedAt = ''t'', mm_nickname = Some ''pc''\<rparr>]\<rparr>"
  from canonical_text [OF header_json, of ?h] obtain blob where b: "canonicalBytes (header_js ?h) = Some blob"
    by (simp add: canonicalBytes_def)
  have "verifyEnvelope (\<lambda>pk msg sig. sig = pk) \<lparr>me_blob = blob, me_sig = replicate 32 1\<rparr> = Inr ?h"
    by (rule conjunct1 [OF mesh_envelope_round_trip [OF _ b]]) simp_all
  with b show ?thesis unfolding Let_def by blast
qed

subsection \<open>Siblings\<close>

text \<open>
  The owners' slots as they are fetched during one discovery. An owner whose slot is
  empty or cannot be fetched or verified is passed over.
\<close>

record sibling_info =
  sb_label :: string
  sb_pubkey :: string

definition fallbackLabel :: "string \<Rightarrow> string" where
  "fallbackLabel k = take 8 k"

definition fetchOwnerBlob :: "(bytes \<Rightarrow> string) \<Rightarrow> relay_slots \<Rightarrow> string \<Rightarrow> mesh_error + mesh_envelope option" where
  "fetchOwnerBlob sha fetch ownerEpk = mesh_get (fetch (sha (base64_decode ownerEpk)) None)"

definition owner_members :: "signature_check \<Rightarrow> (bytes \<Rightarrow> string) \<Rightarrow> relay_slots \<Rightarrow> string \<Rightarrow> mesh_member list" where
  "owner_members ed sha fetch ownerEpk = (case fetchOwnerBlob sha fetch ownerEpk of
     Inr (Some env) \<Rightarrow> (case verifyEnvelope ed env of Inr h \<Rightarrow> mh_members h | Inl _ \<Rightarrow> [])
   | _ \<Rightarrow> [])"

definition has_nickname :: "mesh_member \<Rightarrow> bool" where
  "has_nickname m \<longleftrightarrow> (case mm_nickname m of Some n \<Rightarrow> n \<noteq> '''' | None \<Rightarrow> False)"

fun self_label_in :: "bytes \<Rightarrow> mesh_member list \<Rightarrow> string option" where
  "self_label_in me [] = None"
| "self_label_in me (m # ms) =
     (if bytesEqual (decodeB64Any (mm_remoteEpk m)) me \<and> has_nickname m then mm_nickname m else self_label_in me ms)"

fun discoverSelfLabel :: "signature_check \<Rightarrow> (bytes \<Rightarrow> string) \<Rightarrow> relay_slots \<Rightarrow> string list \<Rightarrow> bytes \<Rightarrow> string" where
  "discoverSelfLabel ed sha fetch [] me = fallbackLabel (base64_encode me)"
| "discoverSelfLabel ed sha fetch (owner # owners) me = (case self_label_in me (owner_members ed sha fetch owner) of
     Some l \<Rightarrow> l
   | None \<Rightarrow> discoverSelfLabel ed sha fetch owners me)"

text \<open>The label map of \<open>discoverSiblings\<close>: a nickname is never overwritten, a missing one may be filled in.\<close>

definition label_seen :: "string \<Rightarrow> string option \<Rightarrow> (string, string option) omap \<Rightarrow> (string, string option) omap" where
  "label_seen k nickname labels =
    (let nick = (case nickname of Some n \<Rightarrow> if n = '''' then None else Some n | None \<Rightarrow> None) in
     case map_of labels k of
       Some (Some existing) \<Rightarrow> (if existing \<noteq> '''' then labels else if nick \<noteq> None then omap_put labels k nick else labels)
     | Some None \<Rightarrow> (if nick \<noteq> None then omap_put labels k nick else labels)
     | None \<Rightarrow> omap_put labels k nick)"

definition sibling_labels :: "bytes \<Rightarrow> mesh_member list \<Rightarrow> (string, string option) omap \<Rightarrow> (string, string option) omap" where
  "sibling_labels me ms labels =
    foldl (\<lambda>labels m. if bytesEqual (decodeB64Any (mm_remoteEpk m)) me then labels
                      else label_seen (mm_remoteEpk m) (mm_nickname m) labels) labels ms"

definition label_entry :: "string \<times> string option \<Rightarrow> sibling_info" where
  "label_entry e = \<lparr>sb_label = (case snd e of Some n \<Rightarrow> n | None \<Rightarrow> fallbackLabel (fst e)), sb_pubkey = fst e\<rparr>"

definition discoverSiblings :: "signature_check \<Rightarrow> (bytes \<Rightarrow> string) \<Rightarrow> relay_slots \<Rightarrow> string list \<Rightarrow> bytes \<Rightarrow> sibling_info list" where
  "discoverSiblings ed sha fetch owners me =
    map label_entry (foldl (\<lambda>labels owner. sibling_labels me (owner_members ed sha fetch owner) labels) [] owners)"

text \<open>The first nickname a key is given, in the order members are met.\<close>

fun first_nickname :: "string \<Rightarrow> mesh_member list \<Rightarrow> string option" where
  "first_nickname k [] = None"
| "first_nickname k (m # ms) = (if mm_remoteEpk m = k \<and> has_nickname m then mm_nickname m else first_nickname k ms)"

definition labels_ok :: "bytes \<Rightarrow> mesh_member list \<Rightarrow> (string, string option) omap \<Rightarrow> bool" where
  "labels_ok me ms labels \<longleftrightarrow> omap_wf labels \<and>
    fst ` set labels = {mm_remoteEpk m |m. m \<in> set ms \<and> decodeB64Any (mm_remoteEpk m) \<noteq> me} \<and>
    (\<forall>k l. map_of labels k = Some l \<longrightarrow> l = first_nickname k ms)"

lemma first_nickname_append: "first_nickname k (ms @ ns) = (case first_nickname k ms of None \<Rightarrow> first_nickname k ns | Some n \<Rightarrow> Some n)"
  by (induction ms) (auto simp: has_nickname_def split: option.splits)

lemma first_nickname_nonempty: "first_nickname k ms \<noteq> Some ''''"
  by (induction ms) (auto simp: has_nickname_def)

lemma labels_step:
  assumes "labels_ok me ms labels"
  shows "labels_ok me (ms @ [m]) (if bytesEqual (decodeB64Any (mm_remoteEpk m)) me then labels
      else label_seen (mm_remoteEpk m) (mm_nickname m) labels)"
proof (cases "decodeB64Any (mm_remoteEpk m) = me")
  case True
  then have "first_nickname k (ms @ [m]) = first_nickname k ms" if "map_of labels k = Some l" for k l
    using omap_hasI [OF that] assms by (auto simp: first_nickname_append labels_ok_def split: option.splits)
  with assms True show ?thesis
    unfolding labels_ok_def by auto
next
  case False
  let ?k = "mm_remoteEpk m"
  have n: "first_nickname k (ms @ [m]) = (if k = ?k \<and> first_nickname k ms = None \<and> has_nickname m then mm_nickname m else first_nickname k ms)" for k
    by (auto simp: first_nickname_append split: option.splits)
  show ?thesis
  proof (cases "map_of labels ?k")
    case None
    then have "?k \<notin> fst ` set labels" by (simp add: map_of_eq_None_iff)
    then have "m' \<in> set ms \<Longrightarrow> mm_remoteEpk m' \<noteq> ?k" for m' using assms False by (auto simp: labels_ok_def)
    then have "first_nickname ?k ms = None" by (induction ms) auto
    with None False assms show ?thesis
      by (auto simp: labels_ok_def label_seen_def n has_nickname_def Let_def split: option.splits)
  next
    case (Some l)
    with assms have l: "l = first_nickname ?k ms" by (simp add: labels_ok_def)
    have k: "?k \<in> fst ` set labels" using Some by (rule omap_hasI)
    have keys: "fst ` set labels = {mm_remoteEpk m' |m'. m' \<in> set (ms @ [m]) \<and> decodeB64Any (mm_remoteEpk m') \<noteq> me}"
      using assms k by (auto simp: labels_ok_def)
    have wf: "omap_wf labels" using assms by (simp add: labels_ok_def)
    have at: "\<And>k' l'. map_of labels k' = Some l' \<Longrightarrow> l' = first_nickname k' ms" using assms by (simp add: labels_ok_def)
    show ?thesis
    proof (cases "l = None \<and> has_nickname m")
      case True
      then have "label_seen ?k (mm_nickname m) labels = omap_put labels ?k (mm_nickname m)"
        using Some by (auto simp: label_seen_def has_nickname_def Let_def split: option.splits)
      moreover have "fst ` set (omap_put labels ?k (mm_nickname m)) = fst ` set labels" using k by auto
      ultimately show ?thesis
        using False True wf at l keys unfolding labels_ok_def by (simp add: n)
    next
      case same: False
      then have "label_seen ?k (mm_nickname m) labels = labels"
        using Some l first_nickname_nonempty [of ?k ms]
        by (cases "first_nickname ?k ms") (auto simp: label_seen_def has_nickname_def Let_def split: option.splits)
      then show ?thesis
        using False same wf at l keys unfolding labels_ok_def by (auto simp: n)
    qed
  qed
qed

lemma any_round_trip: "decodeB64Any (base64_encode bs) = bs"
  by (simp add: decodeB64Any_def Let_def encoded_decodes)

definition owners_members :: "signature_check \<Rightarrow> (bytes \<Rightarrow> string) \<Rightarrow> relay_slots \<Rightarrow> string list \<Rightarrow> mesh_member list" where
  "owners_members ed sha fetch owners = concat (map (owner_members ed sha fetch) owners)"

lemma sibling_labels_append: "sibling_labels me (ms @ ns) labels = sibling_labels me ns (sibling_labels me ms labels)"
  by (simp add: sibling_labels_def)

lemma sibling_labels_single: "sibling_labels me [m] labels =
    (if bytesEqual (decodeB64Any (mm_remoteEpk m)) me then labels else label_seen (mm_remoteEpk m) (mm_nickname m) labels)"
  by (simp add: sibling_labels_def)

lemma siblings_all: "foldl (\<lambda>labels owner. sibling_labels me (owner_members ed sha fetch owner) labels) labels owners =
    sibling_labels me (owners_members ed sha fetch owners) labels"
proof (induction owners arbitrary: labels)
  case Nil
  then show ?case by (simp add: owners_members_def sibling_labels_def)
next
  case (Cons owner owners)
  then show ?case by (simp add: owners_members_def sibling_labels_append)
qed

lemma labels_all: "labels_ok me ms (sibling_labels me ms [])"
proof (induction ms rule: rev_induct)
  case Nil
  then show ?case by (simp add: labels_ok_def sibling_labels_def)
next
  case (snoc m ms)
  show ?case using labels_step [OF snoc, of m] unfolding sibling_labels_append sibling_labels_single .
qed

lemma self_label_append: "self_label_in me (ms @ ns) = (case self_label_in me ms of Some l \<Rightarrow> Some l | None \<Rightarrow> self_label_in me ns)"
  by (induction ms) (auto simp: has_nickname_def split: option.splits)

lemma self_label_all: "discoverSelfLabel ed sha fetch owners me =
    (case self_label_in me (owners_members ed sha fetch owners) of Some l \<Rightarrow> l | None \<Rightarrow> fallbackLabel (base64_encode me))"
  by (induction owners) (auto simp: owners_members_def self_label_append split: option.splits)

lemma self_label_first:
  "(\<And>m. m \<in> set ms \<Longrightarrow> decodeB64Any (mm_remoteEpk m) = me \<longleftrightarrow> mm_remoteEpk m = k) \<Longrightarrow> self_label_in me ms = first_nickname k ms"
  by (induction ms) auto

lemma filter_key: "omap_wf m \<Longrightarrow> filter (\<lambda>e. fst e = k) m = (case map_of m k of None \<Rightarrow> [] | Some v \<Rightarrow> [(k, v)])"
proof (induction m)
  case (Cons e m)
  show ?case
  proof (cases "fst e = k")
    case True
    with Cons.prems have "k \<notin> fst ` set m" by auto
    then have "filter (\<lambda>e. fst e = k) m = []" by (auto simp: filter_empty_conv)
    with True show ?thesis by (cases e) simp
  next
    case False
    with Cons show ?thesis by (cases e) simp
  qed
qed simp

text \<open>With one nickname for a key, the first one does not depend on who is met first.\<close>

lemma first_nickname_None: "first_nickname k ms = None \<longleftrightarrow> \<not> (\<exists>m \<in> set ms. mm_remoteEpk m = k \<and> has_nickname m)"
  by (induction ms) (auto simp: has_nickname_def split: option.splits)

lemma first_nickname_Some: "first_nickname k ms = Some n \<Longrightarrow> \<exists>m \<in> set ms. mm_remoteEpk m = k \<and> has_nickname m \<and> mm_nickname m = Some n"
  by (induction ms) (auto split: if_splits)

lemma first_nickname_order:
  assumes "set ns = set ms" "\<And>m m'. m \<in> set ms \<Longrightarrow> m' \<in> set ms \<Longrightarrow> mm_remoteEpk m = k \<Longrightarrow> mm_remoteEpk m' = k
    \<Longrightarrow> has_nickname m \<Longrightarrow> has_nickname m' \<Longrightarrow> mm_nickname m = mm_nickname m'"
  shows "first_nickname k ns = first_nickname k ms"
proof (cases "first_nickname k ms")
  case None
  then have "first_nickname k ns = None" using assms(1) by (simp add: first_nickname_None)
  then show ?thesis using None by simp
next
  case (Some n)
  then obtain m where m: "m \<in> set ms" "mm_remoteEpk m = k" "has_nickname m" "mm_nickname m = Some n"
    using first_nickname_Some by blast
  then have "first_nickname k ns \<noteq> None" using assms(1) by (auto simp: first_nickname_None)
  then obtain n' where n': "first_nickname k ns = Some n'" by blast
  then obtain m' where "m' \<in> set ms" "mm_remoteEpk m' = k" "has_nickname m'" "mm_nickname m' = Some n'"
    using first_nickname_Some assms(1) by blast
  with m assms(2) [of m m'] show ?thesis using n' Some by simp
qed

text \<open>
  C31. Two machines agree on a machine's address: when they are paired with the same owners, in
  whatever order each of them stores and meets these, the machine's key is spelled in standard
  Base64 wherever it is listed, and the owners who have named it have given it the same name,
  then the one label the other machine gives it is the label it gives itself, and it appears
  exactly once. (Two owners with two names for it break the agreement: see
  \<open>labels_disagree\<close>.)
\<close>

theorem labels_agree:
  assumes "set owners' = set owners"
    "\<And>m. m \<in> set (owners_members ed sha fetch owners) \<Longrightarrow> decodeB64Any (mm_remoteEpk m) = b \<Longrightarrow> mm_remoteEpk m = base64_encode b"
    "\<And>m m'. m \<in> set (owners_members ed sha fetch owners) \<Longrightarrow> m' \<in> set (owners_members ed sha fetch owners)
      \<Longrightarrow> mm_remoteEpk m = base64_encode b \<Longrightarrow> mm_remoteEpk m' = base64_encode b
      \<Longrightarrow> has_nickname m \<Longrightarrow> has_nickname m' \<Longrightarrow> mm_nickname m = mm_nickname m'"
    "\<exists>m \<in> set (owners_members ed sha fetch owners). mm_remoteEpk m = base64_encode b" "a \<noteq> b"
  shows "filter (\<lambda>s. sb_pubkey s = base64_encode b) (discoverSiblings ed sha fetch owners a) =
    [\<lparr>sb_label = discoverSelfLabel ed sha fetch owners' b, sb_pubkey = base64_encode b\<rparr>]"
proof -
  let ?ms = "owners_members ed sha fetch owners" and ?k = "base64_encode b"
  let ?ns = "owners_members ed sha fetch owners'"
  let ?labels = "sibling_labels a ?ms []"
  have ns: "set ?ns = set ?ms" using assms(1) by (simp add: owners_members_def)
  have ok: "labels_ok a ?ms ?labels" by (rule labels_all)
  obtain m where m: "m \<in> set ?ms" "mm_remoteEpk m = ?k" using assms(4) by blast
  with assms(5) have "decodeB64Any (mm_remoteEpk m) \<noteq> a" by (simp add: any_round_trip)
  moreover have "fst ` set ?labels = {mm_remoteEpk m |m. m \<in> set ?ms \<and> decodeB64Any (mm_remoteEpk m) \<noteq> a}"
    using ok by (simp only: labels_ok_def)
  ultimately have "mm_remoteEpk m \<in> fst ` set ?labels" using m(1) by blast
  then have "map_of ?labels ?k \<noteq> None" using m(2) by (simp add: map_of_eq_None_iff)
  then obtain l where l: "map_of ?labels ?k = Some l" by blast
  then have "l = first_nickname ?k ?ms" using ok by (simp add: labels_ok_def)
  moreover have "self_label_in b ?ns = first_nickname ?k ?ns"
    by (rule self_label_first) (metis assms(2) any_round_trip ns)
  moreover have "first_nickname ?k ?ns = first_nickname ?k ?ms" by (rule first_nickname_order [OF ns assms(3)])
  ultimately have "label_entry (?k, l) = \<lparr>sb_label = discoverSelfLabel ed sha fetch owners' b, sb_pubkey = ?k\<rparr>"
    by (auto simp: label_entry_def self_label_all split: option.splits)
  moreover have "filter (\<lambda>s. sb_pubkey s = ?k) (map label_entry ?labels) = map label_entry (filter (\<lambda>e. fst e = ?k) ?labels)"
    by (simp add: filter_map comp_def label_entry_def)
  moreover have "filter (\<lambda>e. fst e = ?k) ?labels = [(?k, l)]" using ok l by (simp add: filter_key labels_ok_def)
  ultimately show ?thesis unfolding discoverSiblings_def siblings_all by simp
qed

text \<open>A slot that answers with one header whatever is asked, and a check that takes any signature.\<close>

definition sample_header :: mesh_header where
  "sample_header = \<lparr>mh_version = 1, mh_issuedAt = 0, mh_ownerPk = replicate 32 1,
     mh_members = [\<lparr>mm_remoteEpk = base64_encode [1, 2, 3], mm_relayUrl = ''r'', mm_pairedAt = ''t'', mm_nickname = Some ''desk''\<rparr>]\<rparr>"

definition sample_slots :: relay_slots where
  "sample_slots hash since = HttpResponse 200 (Some (Obj
     [(''blob'', Str (base64_encode (utf8 (stringify (header_js sample_header))))), (''sig'', Str (base64_encode []))]))"

lemma sample_members: "owners_members (\<lambda>pk msg sig. True) sha sample_slots [owner] = mh_members sample_header"
proof -
  have "verifyEnvelope (\<lambda>pk msg sig. True) \<lparr>me_blob = utf8 (stringify (header_js sample_header)), me_sig = []\<rparr> = Inr sample_header"
    by (rule signed_verifies) (simp_all add: sample_header_def)
  then show ?thesis
    by (simp add: owners_members_def owner_members_def fetchOwnerBlob_def mesh_get_def sample_slots_def)
qed

theorem labels_agree_witness:
  "filter (\<lambda>s. sb_pubkey s = base64_encode [1, 2, 3]) (discoverSiblings (\<lambda>pk msg sig. True) (\<lambda>bs. ''h'') sample_slots [''owner''] [9]) =
    [\<lparr>sb_label = discoverSelfLabel (\<lambda>pk msg sig. True) (\<lambda>bs. ''h'') sample_slots [''owner''] [1, 2, 3], sb_pubkey = base64_encode [1, 2, 3]\<rparr>]"
  by (rule labels_agree) (auto simp: sample_members, simp_all add: sample_header_def)

text \<open>
  Two owners who name the same machine differently break the agreement: each machine takes the
  name it meets first, and machines meet the owners in the order of their own pairings.
\<close>

lemma labels_disagree:
  assumes "owner_members ed sha fetch o1 = [m1]" "owner_members ed sha fetch o2 = [m2]"
    "mm_remoteEpk m1 = base64_encode b" "mm_remoteEpk m2 = base64_encode b"
    "mm_nickname m1 = Some n1" "mm_nickname m2 = Some n2" "n1 \<noteq> ''''" "n2 \<noteq> ''''" "a \<noteq> b"
  shows "map sb_label (discoverSiblings ed sha fetch [o1, o2] a) = [n1] \<and> discoverSelfLabel ed sha fetch [o2, o1] b = n2"
  using assms by (simp add: discoverSiblings_def siblings_all owners_members_def label_seen_def label_entry_def has_nickname_def any_round_trip
      sibling_labels_def)

text \<open>
  The discovery does not ask whose slot it read: an envelope signed by any key, served
  in an owner's slot, is taken for that owner's, so its members become siblings.
  \<open>verifyEnvelope\<close> leaves that check to its caller, and only the poller makes it.
\<close>

lemma siblings_from_any_signer:
  assumes "length (mh_ownerPk h) = 32" "ed (mh_ownerPk h) (utf8 (stringify (header_js h))) sig"
    "fetch (sha (base64_decode owner)) None = HttpResponse 200 (Some (Obj
       [(''blob'', Str (base64_encode (utf8 (stringify (header_js h))))), (''sig'', Str (base64_encode sig))]))"
    "m \<in> set (mh_members h)" "decodeB64Any (mm_remoteEpk m) \<noteq> me"
  shows "mm_remoteEpk m \<in> set (map sb_pubkey (discoverSiblings ed sha fetch [owner] me))"
proof -
  have "verifyEnvelope ed \<lparr>me_blob = utf8 (stringify (header_js h)), me_sig = sig\<rparr> = Inr h"
    using assms(1,2) by (rule signed_verifies)
  then have "owners_members ed sha fetch [owner] = mh_members h"
    by (simp add: owners_members_def owner_members_def fetchOwnerBlob_def mesh_get_def assms(3))
  with labels_all [of me "mh_members h"] assms(4,5)
  have "mm_remoteEpk m \<in> fst ` set (sibling_labels me (owners_members ed sha fetch [owner]) [])"
    by (auto simp: labels_ok_def)
  then show ?thesis unfolding discoverSiblings_def siblings_all by (force simp: label_entry_def)
qed

end
