(* ===== verification/SelfRevoke.thy ===== *)
theory SelfRevoke imports MeshMembership
begin

text \<open>
  The background poller that makes this machine forget an owner who has struck it from
  their membership list (\<open>mesh/self_revoke.ts\<close>, class \<open>SelfRevoke\<close>).

  A sweep asks the relay for each stored owner's slot. What the relay answers, whether
  the stored pairing can be removed and the owners listed at a sweep are arguments, so
  the theorems hold for a relay that lies. \<open>checkOwner\<close> gives the error it throws, if
  any, with the state; \<open>checkOnce\<close> logs it and goes on. The calls of \<open>onRevoke\<close> and
  \<open>onMembersChanged\<close> are kept in the state as logs; what the callbacks do, the log
  lines, the timer and sweeps that overlap in time are not modelled.
\<close>

record revoker =
  rv_lastSeen :: "(string, int) omap"
  rv_prevSiblings :: "(string, sibling_info) omap"
  rv_membersByOwner :: "(string, (string \<times> string option) list) omap"
  rv_hasOnRevoke :: bool
  rv_hasOnMembersChanged :: bool
  rv_owners :: "string list"
  rv_revoked :: "string list"
  rv_notified :: "sibling_info list list"

definition new_revoker :: "bool \<Rightarrow> bool \<Rightarrow> revoker" where
  "new_revoker onRevoke onMembers = \<lparr>rv_lastSeen = [], rv_prevSiblings = [], rv_membersByOwner = [],
     rv_hasOnRevoke = onRevoke, rv_hasOnMembersChanged = onMembers, rv_owners = [], rv_revoked = [], rv_notified = []\<rparr>"

subsection \<open>One owner\<close>

definition member_seen :: "mesh_member \<Rightarrow> string \<times> string option" where
  "member_seen m = (mm_remoteEpk m, if has_nickname m then mm_nickname m else None)"

definition still_member :: "bytes \<Rightarrow> mesh_header \<Rightarrow> bool" where
  "still_member me h \<longleftrightarrow> (\<exists>m \<in> set (mh_members h). bytesEqual (decodeB64Any (mm_remoteEpk m)) me)"

definition last_version :: "revoker \<Rightarrow> string \<Rightarrow> int" where
  "last_version rv ownerEpk = (case map_of (rv_lastSeen rv) ownerEpk of Some v \<Rightarrow> v | None \<Rightarrow> 0)"

definition checkOwner ::
    "signature_check \<Rightarrow> (bytes \<Rightarrow> string) \<Rightarrow> bytes \<Rightarrow> relay_slots \<Rightarrow> (string \<Rightarrow> bool) \<Rightarrow> string \<Rightarrow> revoker \<Rightarrow> mesh_error option \<times> revoker" where
  "checkOwner ed sha me fetch removable ownerEpk rv =
    (case mesh_get (fetch (sha (base64_decode ownerEpk)) (map_of (rv_lastSeen rv) ownerEpk)) of
       Inl e \<Rightarrow> (Some e, rv)
     | Inr None \<Rightarrow> (None, rv)
     | Inr (Some env) \<Rightarrow> (case verifyEnvelope ed env of
         Inl e \<Rightarrow> (Some e, rv)
       | Inr h \<Rightarrow>
          if base64_encode (mh_ownerPk h) \<noteq> ownerEpk then (None, rv)
          else if mh_version h < last_version rv ownerEpk then (None, rv)
          else
            let rv1 = rv\<lparr>rv_lastSeen := omap_put (rv_lastSeen rv) ownerEpk (mh_version h),
                         rv_membersByOwner := omap_put (rv_membersByOwner rv) ownerEpk (map member_seen (mh_members h))\<rparr> in
            if still_member me h then (None, rv1)
            else
              let rv2 = rv1\<lparr>rv_membersByOwner := omap_del (rv_membersByOwner rv1) ownerEpk\<rparr> in
              if \<not> removable ownerEpk then (Some StorageFailed, rv2)
              else
                let rv3 = rv2\<lparr>rv_owners := filter (\<lambda>x. x \<noteq> ownerEpk) (rv_owners rv2)\<rparr> in
                (None, if rv_hasOnRevoke rv3 then rv3\<lparr>rv_revoked := rv_revoked rv3 @ [ownerEpk]\<rparr> else rv3)))"

subsection \<open>The siblings of every owner\<close>

definition union_nickname :: "string \<Rightarrow> (string, string option) omap \<Rightarrow> string \<times> string option \<Rightarrow> (string, string option) omap" where
  "union_nickname myB64 nicknames m =
    (let k = fst m in
     if k = myB64 then nicknames
     else if (case map_of nicknames k of Some (Some n) \<Rightarrow> n \<noteq> '''' | _ \<Rightarrow> False) then nicknames
     else if (case snd m of Some n \<Rightarrow> n \<noteq> '''' | None \<Rightarrow> False) then omap_put nicknames k (snd m)
     else if \<not> omap_has nicknames k then omap_put nicknames k None
     else nicknames)"

definition computeSiblingUnion :: "bytes \<Rightarrow> revoker \<Rightarrow> (string, sibling_info) omap" where
  "computeSiblingUnion me rv =
    map (\<lambda>e. (fst e, label_entry e))
      (foldl (union_nickname (base64_encode me)) [] (concat (map snd (rv_membersByOwner rv))))"

definition siblingSetChanged :: "revoker \<Rightarrow> (string, sibling_info) omap \<Rightarrow> bool" where
  "siblingSetChanged rv next_siblings \<longleftrightarrow>
    length next_siblings \<noteq> length (rv_prevSiblings rv) \<or>
    (\<exists>e \<in> set next_siblings. case map_of (rv_prevSiblings rv) (fst e) of
        None \<Rightarrow> True
      | Some prior \<Rightarrow> sb_label prior \<noteq> sb_label (snd e))"

definition tell_siblings :: "bytes \<Rightarrow> revoker \<Rightarrow> revoker" where
  "tell_siblings me rv =
    (let union = computeSiblingUnion me rv in
     if rv_hasOnMembersChanged rv \<and> siblingSetChanged rv union
     then rv\<lparr>rv_prevSiblings := union, rv_notified := rv_notified rv @ [map snd union]\<rparr>
     else rv)"

definition prune_owners :: "revoker \<Rightarrow> revoker" where
  "prune_owners rv = rv\<lparr>rv_membersByOwner := filter (\<lambda>e. fst e \<in> set (rv_owners rv)) (rv_membersByOwner rv)\<rparr>"

definition check_owners ::
    "signature_check \<Rightarrow> (bytes \<Rightarrow> string) \<Rightarrow> bytes \<Rightarrow> relay_slots \<Rightarrow> (string \<Rightarrow> bool) \<Rightarrow> string list \<Rightarrow> revoker \<Rightarrow> revoker" where
  "check_owners ed sha me fetch removable owners rv = foldl (\<lambda>rv owner. snd (checkOwner ed sha me fetch removable owner rv)) rv owners"

definition checkOnce ::
    "signature_check \<Rightarrow> (bytes \<Rightarrow> string) \<Rightarrow> bytes \<Rightarrow> relay_slots \<Rightarrow> (string \<Rightarrow> bool) \<Rightarrow> revoker \<Rightarrow> revoker" where
  "checkOnce ed sha me fetch removable rv =
    tell_siblings me (check_owners ed sha me fetch removable (rv_owners rv) (prune_owners rv))"

text \<open>Successive sweeps, each with the owners stored then, the relay's answers and the storage's.\<close>

type_synonym sweep_round = "string list \<times> relay_slots \<times> (string \<Rightarrow> bool)"

definition sweeps :: "signature_check \<Rightarrow> (bytes \<Rightarrow> string) \<Rightarrow> bytes \<Rightarrow> sweep_round list \<Rightarrow> revoker \<Rightarrow> revoker" where
  "sweeps ed sha me rounds rv =
    foldl (\<lambda>rv r. checkOnce ed sha me (fst (snd r)) (snd (snd r)) (rv\<lparr>rv_owners := fst r\<rparr>)) rv rounds"

subsection \<open>Revocations are the owner's\<close>

text \<open>
  An owner's revocation of this machine: an envelope from the slot, signed by that
  owner's own key, no older than the version last seen, that does not list the machine
  under any spelling of its key.
\<close>

definition revokes ::
    "signature_check \<Rightarrow> (bytes \<Rightarrow> string) \<Rightarrow> bytes \<Rightarrow> relay_slots \<Rightarrow> string \<Rightarrow> int \<Rightarrow> bool" where
  "revokes ed sha me fetch ownerEpk v \<longleftrightarrow>
    (\<exists>since env h. mesh_get (fetch (sha (base64_decode ownerEpk)) since) = Inr (Some env) \<and>
       verifyEnvelope ed env = Inr h \<and> ed (mh_ownerPk h) (me_blob env) (me_sig env) \<and>
       base64_encode (mh_ownerPk h) = ownerEpk \<and> v \<le> mh_version h \<and>
       (\<forall>m \<in> set (mh_members h). decodeB64Any (mm_remoteEpk m) \<noteq> me))"

lemma revokes_mono: "revokes ed sha me fetch o' v \<Longrightarrow> w \<le> v \<Longrightarrow> revokes ed sha me fetch o' w"
  unfolding revokes_def by (elim exE conjE) (intro exI conjI, assumption+, simp)

lemma checkOwner_cases:
  obtains e where "checkOwner ed sha me fetch removable owner rv = (e, rv)"
  | env h e rv' where "mesh_get (fetch (sha (base64_decode owner)) (map_of (rv_lastSeen rv) owner)) = Inr (Some env)"
      "verifyEnvelope ed env = Inr h" "base64_encode (mh_ownerPk h) = owner" "last_version rv owner \<le> mh_version h"
      "checkOwner ed sha me fetch removable owner rv = (e, rv')"
      "rv_lastSeen rv' = omap_put (rv_lastSeen rv) owner (mh_version h)"
      "rv_owners rv' = rv_owners rv \<or> (\<not> still_member me h \<and> rv_owners rv' = filter (\<lambda>x. x \<noteq> owner) (rv_owners rv))"
      "rv_revoked rv' = rv_revoked rv \<or> (\<not> still_member me h \<and> rv_revoked rv' = rv_revoked rv @ [owner])"
proof (cases "\<exists>e. checkOwner ed sha me fetch removable owner rv = (e, rv)")
  case True
  then show thesis using that(1) by blast
next
  case False
  then obtain env h where env: "mesh_get (fetch (sha (base64_decode owner)) (map_of (rv_lastSeen rv) owner)) = Inr (Some env)"
      "verifyEnvelope ed env = Inr h" "base64_encode (mh_ownerPk h) = owner" "\<not> mh_version h < last_version rv owner"
    by (auto simp: checkOwner_def split: sum.splits option.splits if_splits)
  show thesis
    by (rule that(2) [OF env(1-3) _ prod.collapse [symmetric]])
      (use env in \<open>auto simp: checkOwner_def Let_def\<close>)
qed

lemma checkOwner_version: "last_version rv o' \<le> last_version (snd (checkOwner ed sha me fetch removable owner rv)) o'"
  by (rule checkOwner_cases [of ed sha me fetch removable owner rv]) (auto simp: last_version_def)

lemma checkOwner_genuine:
  assumes "o' \<in> set (rv_owners rv) \<and> o' \<notin> set (rv_owners (snd (checkOwner ed sha me fetch removable owner rv))) \<or>
    o' \<in> set (rv_revoked (snd (checkOwner ed sha me fetch removable owner rv))) \<and> o' \<notin> set (rv_revoked rv)"
  shows "revokes ed sha me fetch o' (last_version rv o')"
proof (rule checkOwner_cases [of ed sha me fetch removable owner rv])
  fix env h e rv'
  assume a: "mesh_get (fetch (sha (base64_decode owner)) (map_of (rv_lastSeen rv) owner)) = Inr (Some env)"
      "verifyEnvelope ed env = Inr h" "base64_encode (mh_ownerPk h) = owner" "last_version rv owner \<le> mh_version h"
      "checkOwner ed sha me fetch removable owner rv = (e, rv')"
      "rv_owners rv' = rv_owners rv \<or> (\<not> still_member me h \<and> rv_owners rv' = filter (\<lambda>x. x \<noteq> owner) (rv_owners rv))"
      "rv_revoked rv' = rv_revoked rv \<or> (\<not> still_member me h \<and> rv_revoked rv' = rv_revoked rv @ [owner])"
  then have "o' = owner" "\<not> still_member me h" using assms by auto
  with a(1-4) verified_signed [OF a(2)] show ?thesis
    unfolding revokes_def still_member_def by (auto simp: )
qed (use assms in auto)

lemma check_owners_simps [simp]:
  "check_owners ed sha me fetch removable [] rv = rv"
  "check_owners ed sha me fetch removable (owner # owners) rv =
    check_owners ed sha me fetch removable owners (snd (checkOwner ed sha me fetch removable owner rv))"
  by (simp_all add: check_owners_def)

lemma check_owners_genuine:
  assumes "o' \<in> set (rv_owners rv) \<and> o' \<notin> set (rv_owners (check_owners ed sha me fetch removable owners rv)) \<or>
    o' \<in> set (rv_revoked (check_owners ed sha me fetch removable owners rv)) \<and> o' \<notin> set (rv_revoked rv)"
  shows "revokes ed sha me fetch o' (last_version rv o')"
  using assms
proof (induction owners arbitrary: rv)
  case (Cons owner owners)
  let ?rv = "snd (checkOwner ed sha me fetch removable owner rv)"
  show ?case
  proof (cases "o' \<in> set (rv_owners rv) \<and> o' \<notin> set (rv_owners ?rv) \<or> o' \<in> set (rv_revoked ?rv) \<and> o' \<notin> set (rv_revoked rv)")
    case True
    then show ?thesis by (rule checkOwner_genuine)
  next
    case False
    with Cons have "revokes ed sha me fetch o' (last_version ?rv o')" by auto
    then show ?thesis by (rule revokes_mono) (rule checkOwner_version)
  qed
qed simp

lemma tell_siblings_frame [simp]:
  "rv_owners (tell_siblings me rv) = rv_owners rv" "rv_revoked (tell_siblings me rv) = rv_revoked rv"
  "rv_lastSeen (tell_siblings me rv) = rv_lastSeen rv" "rv_membersByOwner (tell_siblings me rv) = rv_membersByOwner rv"
  by (simp_all add: tell_siblings_def Let_def)

lemma last_version_frame [simp]:
  "last_version (tell_siblings me rv) o' = last_version rv o'" "last_version (prune_owners rv) o' = last_version rv o'"
  "last_version (rv\<lparr>rv_owners := os\<rparr>) o' = last_version rv o'"
  by (simp_all add: last_version_def prune_owners_def)

lemma check_owners_version: "last_version rv o' \<le> last_version (check_owners ed sha me fetch removable owners rv) o'"
  by (induction owners arbitrary: rv) (auto intro: order_trans [OF checkOwner_version])

lemma checkOnce_version: "last_version rv o' \<le> last_version (checkOnce ed sha me fetch removable rv) o'"
  using check_owners_version [of "prune_owners rv" o'] by (simp add: checkOnce_def)

lemma sweeps_version: "last_version rv o' \<le> last_version (sweeps ed sha me rounds rv) o'"
proof (induction rounds rule: rev_induct)
  case (snoc r rounds)
  then show ?case by (auto simp: sweeps_def intro: order_trans checkOnce_version [THEN order_trans [rotated]])
qed (simp add: sweeps_def)

text \<open>
  C32. Nobody but an owner can make this machine forget that owner: after any sweeps,
  with any relay, an owner who leaves the stored pairings in the next sweep, or for whom
  the revocation callback runs, has in their slot an envelope signed with their own key
  that does not list this machine and is no older than any version seen in an earlier
  sweep.
\<close>

theorem revocation_genuine:
  assumes "o' \<in> set owners \<and> o' \<notin> set (rv_owners rv') \<or> o' \<in> set (rv_revoked rv') \<and> o' \<notin> set (rv_revoked rv)"
    "rv = sweeps ed sha me (before @ later) rv0" "rv' = checkOnce ed sha me fetch removable (rv\<lparr>rv_owners := owners\<rparr>)"
  shows "revokes ed sha me fetch o' (last_version (sweeps ed sha me before rv0) o')"
proof -
  have "revokes ed sha me fetch o' (last_version (prune_owners (rv\<lparr>rv_owners := owners\<rparr>)) o')"
    by (rule check_owners_genuine [where removable = removable and owners = owners])
      (use assms(1,3) in \<open>simp add: checkOnce_def prune_owners_def\<close>)
  moreover have "sweeps ed sha me (before @ later) rv0 = sweeps ed sha me later (sweeps ed sha me before rv0)"
    by (simp add: sweeps_def)
  ultimately show ?thesis
    using assms(2) sweeps_version revokes_mono by (metis last_version_frame(2,3))
qed

text \<open>A relay whose slot for the owner \<open>AQ..\<close> holds version 4 of a list without this machine.\<close>

definition strike_header :: "mesh_header" where
  "strike_header = \<lparr>mh_version = 4, mh_issuedAt = 0, mh_ownerPk = replicate 32 1, mh_members = []\<rparr>"

definition strike_slots :: relay_slots where
  "strike_slots hash since = HttpResponse 200 (Some (Obj
     [(''blob'', Str (base64_encode (utf8 (stringify (header_js strike_header))))), (''sig'', Str (base64_encode []))]))"

abbreviation strike_owner :: string where
  "strike_owner \<equiv> base64_encode (replicate 32 1)"

lemma strike_envelope:
  "mesh_get (strike_slots hash since) = Inr (Some \<lparr>me_blob = utf8 (stringify (header_js strike_header)), me_sig = []\<rparr>)"
  by (simp add: mesh_get_def strike_slots_def)

lemma strike_verifies:
  "verifyEnvelope (\<lambda>pk msg sig. True) \<lparr>me_blob = utf8 (stringify (header_js strike_header)), me_sig = []\<rparr> = Inr strike_header"
  by (rule signed_verifies) (simp_all add: strike_header_def)

lemma strike_header_simps [simp]:
  "mh_version strike_header = 4" "base64_encode (mh_ownerPk strike_header) = strike_owner" "mh_members strike_header = []"
  "\<not> still_member me strike_header"
  by (simp_all add: strike_header_def still_member_def)

lemma strike_checked:
  "checkOwner (\<lambda>pk msg sig. True) sha me strike_slots removable strike_owner rv =
    (if 4 < last_version rv strike_owner then (None, rv)
     else let rv2 = rv\<lparr>rv_lastSeen := omap_put (rv_lastSeen rv) strike_owner 4,
                       rv_membersByOwner := omap_del (omap_put (rv_membersByOwner rv) strike_owner []) strike_owner\<rparr> in
       if \<not> removable strike_owner then (Some StorageFailed, rv2)
       else (None, rv2\<lparr>rv_owners := filter (\<lambda>x. x \<noteq> strike_owner) (rv_owners rv),
         rv_revoked := (if rv_hasOnRevoke rv then rv_revoked rv @ [strike_owner] else rv_revoked rv)\<rparr>))"
  by (simp add: checkOwner_def strike_envelope strike_verifies Let_def)

theorem revocation_genuine_witness:
  "revokes (\<lambda>pk msg sig. True) (\<lambda>bs. ''h'') [9] strike_slots strike_owner 0"
proof -
  let ?rv = "sweeps (\<lambda>pk msg sig. True) (\<lambda>bs. ''h'') [9] ([] @ []) (new_revoker True True)"
  have "revokes (\<lambda>pk msg sig. True) (\<lambda>bs. ''h'') [9] strike_slots strike_owner
      (last_version (sweeps (\<lambda>pk msg sig. True) (\<lambda>bs. ''h'') [9] [] (new_revoker True True)) strike_owner)"
    by (rule revocation_genuine [where owners = "[strike_owner]" and removable = "\<lambda>x. True" and later = "[]"
          and rv = ?rv, OF _ refl refl])
      (simp add: checkOnce_def strike_checked sweeps_def new_revoker_def prune_owners_def last_version_def Let_def)
  then show ?thesis by (simp add: sweeps_def new_revoker_def last_version_def)
qed

subsection \<open>Telling the siblings\<close>

lemma union_nickname_wf: "omap_wf nicknames \<Longrightarrow> omap_wf (union_nickname my nicknames m)"
  by (simp add: union_nickname_def Let_def)

lemma union_wf: "omap_wf nicknames \<Longrightarrow> omap_wf (foldl (union_nickname my) nicknames ms)"
  by (induction ms arbitrary: nicknames) (auto intro: union_nickname_wf)

definition keyed :: "(string, sibling_info) omap \<Rightarrow> bool" where
  "keyed m \<longleftrightarrow> omap_wf m \<and> (\<forall>e \<in> set m. sb_pubkey (snd e) = fst e)"

lemma union_keyed: "keyed (computeSiblingUnion me rv)"
  by (auto simp: keyed_def computeSiblingUnion_def label_entry_def comp_def intro: union_wf [of "[]", simplified])

lemma unchanged_same:
  assumes "keyed prior" "keyed nxt" "length nxt = length prior"
    "\<And>e. e \<in> set nxt \<Longrightarrow> \<exists>p. map_of prior (fst e) = Some p \<and> sb_label p = sb_label (snd e)"
  shows "set nxt = set prior"
proof -
  have "set nxt \<subseteq> set prior"
  proof
    fix e assume e: "e \<in> set nxt"
    then obtain p where p: "map_of prior (fst e) = Some p" "sb_label p = sb_label (snd e)" using assms(4) by blast
    then have "(fst e, p) \<in> set prior" by (simp add: map_of_SomeD)
    moreover have "p = snd e" using p e calculation assms(1,2) by (auto simp: keyed_def)
    ultimately show "e \<in> set prior" by simp
  qed
  moreover have "card (set nxt) = card (set prior)"
    using assms(1-3) by (simp add: keyed_def distinct_card distinct_map)
  ultimately show ?thesis by (simp add: card_subset_eq)
qed

definition told :: "revoker \<Rightarrow> sibling_info list" where
  "told rv = (if rv_notified rv = [] then [] else last (rv_notified rv))"

definition told_prev :: "revoker \<Rightarrow> bool" where
  "told_prev rv \<longleftrightarrow> rv_hasOnMembersChanged rv \<and> keyed (rv_prevSiblings rv) \<and> told rv = map snd (rv_prevSiblings rv)"

lemma union_frame: "rv_membersByOwner rv = rv_membersByOwner rv' \<Longrightarrow> computeSiblingUnion me rv = computeSiblingUnion me rv'"
  by (simp add: computeSiblingUnion_def)

lemma tell_told:
  assumes "told_prev rv"
  shows "told_prev (tell_siblings me rv) \<and> set (told (tell_siblings me rv)) = set (map snd (computeSiblingUnion me rv))"
proof (cases "siblingSetChanged rv (computeSiblingUnion me rv)")
  case True
  with assms show ?thesis
    by (simp add: tell_siblings_def told_prev_def told_def union_keyed Let_def)
next
  case False
  then have "set (computeSiblingUnion me rv) = set (rv_prevSiblings rv)"
    using assms union_keyed [of me rv]
    by (intro unchanged_same) (auto simp: siblingSetChanged_def told_prev_def split: option.splits)
  with False assms show ?thesis by (simp add: tell_siblings_def told_prev_def Let_def)
qed

lemma checkOwner_told [simp]:
  "told_prev (snd (checkOwner ed sha me fetch removable owner rv)) \<longleftrightarrow> told_prev rv"
  by (auto simp: checkOwner_def Let_def told_prev_def told_def split: sum.splits option.splits)

lemma check_owners_told [simp]: "told_prev (check_owners ed sha me fetch removable owners rv) \<longleftrightarrow> told_prev rv"
  by (induction owners arbitrary: rv) simp_all

lemma frame_told [simp]: "told_prev (prune_owners rv) \<longleftrightarrow> told_prev rv" "told_prev (rv\<lparr>rv_owners := os\<rparr>) \<longleftrightarrow> told_prev rv"
  by (simp_all add: told_prev_def told_def prune_owners_def)

lemma checkOnce_told:
  assumes "told_prev rv"
  shows "told_prev (checkOnce ed sha me fetch removable rv) \<and>
    set (told (checkOnce ed sha me fetch removable rv)) =
      set (map snd (computeSiblingUnion me (checkOnce ed sha me fetch removable rv)))"
  using tell_told [of "check_owners ed sha me fetch removable (rv_owners rv) (prune_owners rv)" me] assms
  by (simp add: checkOnce_def union_frame [of "tell_siblings me _" _ me])

text \<open>
  After any sweeps with any relay, the siblings the caller was last told are exactly
  the siblings, with their labels, that the current membership lists give: no change of
  the membership is missed by the change detector.
\<close>

lemma siblings_told:
  "let rv = sweeps ed sha me rounds (new_revoker onRevoke True) in
   set (told rv) = set (map snd (computeSiblingUnion me rv))"
proof -
  have start: "told_prev (new_revoker onRevoke True)"
    by (simp add: told_prev_def told_def keyed_def new_revoker_def)
  have "told_prev (sweeps ed sha me rounds (new_revoker onRevoke True)) \<and>
      set (told (sweeps ed sha me rounds (new_revoker onRevoke True))) =
      set (map snd (computeSiblingUnion me (sweeps ed sha me rounds (new_revoker onRevoke True))))"
  proof (induction rounds rule: rev_induct)
    case Nil
    with start show ?case
      by (simp add: sweeps_def new_revoker_def told_def computeSiblingUnion_def)
  next
    case (snoc r rounds)
    then show ?case
      using checkOnce_told [of "(sweeps ed sha me rounds (new_revoker onRevoke True))\<lparr>rv_owners := fst r\<rparr>"]
      by (simp add: sweeps_def)
  qed
  then show ?thesis by (simp add: Let_def)
qed

subsection \<open>A failed removal is not retried\<close>

text \<open>
  The version is noted before the removal is tried. When the removal fails, the owner is
  still stored, but the next sweep asks only for versions later than the one noted; a
  relay that answers 304 to that, as the relay of this repository does, makes the sweep
  skip the owner, so the verified revocation is not applied until the owner publishes
  again or the program restarts.
\<close>

lemma no_storage_error:
  "mesh_get res \<noteq> Inl StorageFailed" "mesh_members_of i raws \<noteq> Inl StorageFailed" "verifyEnvelope ed env \<noteq> Inl StorageFailed"
proof -
  show "mesh_get res \<noteq> Inl StorageFailed"
    by (auto simp: mesh_get_def split: http_response.split option.split js.split)
  show members: "mesh_members_of i raws \<noteq> Inl StorageFailed" for i raws
    by (induction raws arbitrary: i) (auto simp: mesh_member_of_def split: sum.splits js.splits)
  show "verifyEnvelope ed env \<noteq> Inl StorageFailed"
    by (auto simp: verifyEnvelope_def Let_def members split: option.split js.split sum.split)
qed

lemma failed_removal_noted:
  assumes "checkOwner ed sha me fetch removable owner rv = (Some StorageFailed, rv')"
  shows "rv_owners rv' = rv_owners rv \<and> map_of (rv_lastSeen rv') owner \<noteq> None"
  using assms no_storage_error(1,3)
  by (auto simp: checkOwner_def Let_def split: sum.splits option.splits if_splits)

lemma failed_removal_lost:
  assumes "checkOwner ed sha me fetch removable owner rv = (Some StorageFailed, rv')" "owner \<in> set (rv_owners rv)"
    "\<And>v. fetch' (sha (base64_decode owner)) (Some v) = HttpResponse 304 None"
  shows "checkOwner ed sha me fetch' removable' owner rv' = (None, rv') \<and> owner \<in> set (rv_owners rv')"
proof -
  obtain v where "map_of (rv_lastSeen rv') owner = Some v" "rv_owners rv' = rv_owners rv"
    using failed_removal_noted [OF assms(1)] by blast
  with assms(2,3) show ?thesis by (simp add: checkOwner_def mesh_get_def)
qed

lemma own_key_listed:
  "computeSiblingUnion [251, 255] ((new_revoker True True)\<lparr>rv_membersByOwner := [(''o'', [(''-_8'', None)])]\<rparr>) =
    [(''-_8'', \<lparr>sb_label = ''-_8'', sb_pubkey = ''-_8''\<rparr>)] \<and> decodeB64Any ''-_8'' = [251, 255]"
  by code_simp

end
