(* ===== verification/OwnerMultiplexer.thy ===== *)
theory OwnerMultiplexer imports OwnerChannel
begin

text \<open>
  The registry of attached owners (\<open>extension/owner_multiplexer.ts\<close>): one channel per
  owner, the fan-out of messages, and the buffers kept for an owner the relay reports
  offline.

  A channel is its number. What the next call of a channel's \<open>send\<close> does is read from
  \<open>mx_outcome\<close>, indexed by the number of sends so far, so it is arbitrary: it returns, it
  throws, or the channel gives up and calls back to have its owner detached. The
  calls made are kept in \<open>mx_sent\<close>, presence events in \<open>mx_presence\<close>. Channels offer
  \<open>whenIdle\<close>, as the secure ones do; a gate of \<open>reattachDrainGates\<close> is the list of the
  detached channels it still waits for. Footer refreshes, the session labels for the
  status line and pure readers are left out.
\<close>

subsection \<open>Buffers of an offline owner\<close>

type_synonym buffered = "js \<times> nat"

record offline_buffer =
  ob_completed :: "buffered list"
  ob_completedBytes :: nat
  ob_current :: "buffered list"
  ob_currentBytes :: nat
  ob_overflowed :: bool

definition OFFLINE_BUFFER_MAX_FRAMES :: nat where "OFFLINE_BUFFER_MAX_FRAMES = 2048"
definition OFFLINE_BUFFER_MAX_BYTES :: nat where "OFFLINE_BUFFER_MAX_BYTES = 8 * 1024 * 1024"
definition FLUSHED_COMPACTION_KEYS_MAX_PER_PEER :: nat where "FLUSHED_COMPACTION_KEYS_MAX_PER_PEER = 128"

definition createOfflinePeerBuffer :: offline_buffer where
  "createOfflinePeerBuffer = \<lparr>ob_completed = [], ob_completedBytes = 0, ob_current = [], ob_currentBytes = 0, ob_overflowed = False\<rparr>"

definition serializedMessageBytes :: "js \<Rightarrow> nat option" where
  "serializedMessageBytes m = (if m = Undef then None else Some (length (utf8 (stringify m))))"

text \<open>\<open>bufferOfflineMessage\<close> on the owner's buffer.\<close>

definition buffer_message :: "js \<Rightarrow> offline_buffer \<Rightarrow> offline_buffer" where
  "buffer_message m b =
    (if ob_overflowed b then b
     else
       let bytes = serializedMessageBytes m;
           wouldExceedCombinedCap = (case bytes of None \<Rightarrow> True | Some n \<Rightarrow>
             length (ob_completed b) + length (ob_current b) + 1 > OFFLINE_BUFFER_MAX_FRAMES \<or>
             ob_completedBytes b + ob_currentBytes b + n > OFFLINE_BUFFER_MAX_BYTES);
           b1 = (if wouldExceedCombinedCap then b\<lparr>ob_completed := [], ob_completedBytes := 0\<rparr> else b);
           currentCannotFit = (case bytes of None \<Rightarrow> True | Some n \<Rightarrow>
             length (ob_current b1) + 1 > OFFLINE_BUFFER_MAX_FRAMES \<or>
             ob_currentBytes b1 + n > OFFLINE_BUFFER_MAX_BYTES) in
       if currentCannotFit then b1\<lparr>ob_current := [], ob_currentBytes := 0, ob_overflowed := True\<rparr>
       else b1\<lparr>ob_current := ob_current b1 @ [(m, the bytes)], ob_currentBytes := ob_currentBytes b1 + the bytes\<rparr>)"

text \<open>The body of \<open>completeOfflineTurn\<close> for one buffer.\<close>

definition complete_buffer :: "offline_buffer \<Rightarrow> offline_buffer" where
  "complete_buffer b =
    (let b1 = (if \<not> ob_overflowed b \<and> ob_current b \<noteq> []
               then b\<lparr>ob_completed := ob_current b, ob_completedBytes := ob_currentBytes b\<rparr> else b) in
     b1\<lparr>ob_current := [], ob_currentBytes := 0, ob_overflowed := False\<rparr>)"

definition takeNextBufferedMessage :: "offline_buffer \<Rightarrow> (js \<times> offline_buffer) option" where
  "takeNextBufferedMessage b = (case ob_completed b of
     (m, n) # rest \<Rightarrow> Some (m, b\<lparr>ob_completed := rest, ob_completedBytes := ob_completedBytes b - n\<rparr>)
   | [] \<Rightarrow> (case ob_current b of
       (m, n) # rest \<Rightarrow> Some (m, b\<lparr>ob_current := rest, ob_currentBytes := ob_currentBytes b - n\<rparr>)
     | [] \<Rightarrow> None))"

subsection \<open>The registry\<close>

datatype send_outcome = SendOk | SendThrew | SendDisconnected

datatype presence = Suspended "int option" | Resumed

record mux =
  mx_channels :: "(string, nat) omap"
  mx_peerIds :: "(nat, string) omap"
  mx_routers :: "(nat, nat) omap"
  mx_gates :: "(string, nat list) omap"
  mx_offline :: "string list"
  mx_buffers :: "(string, offline_buffer) omap"
  mx_flushed :: "(string, string list) omap"
  mx_peerShort :: string
  mx_lateAttach :: "string list"
  mx_next :: nat
  mx_outcome :: "nat \<Rightarrow> send_outcome"
  mx_sent :: "(nat \<times> js) list"
  mx_presence :: "(string \<times> presence) list"

definition new_mux :: "(nat \<Rightarrow> send_outcome) \<Rightarrow> mux" where
  "new_mux outcome = \<lparr>mx_channels = [], mx_peerIds = [], mx_routers = [], mx_gates = [], mx_offline = [], mx_buffers = [],
     mx_flushed = [], mx_peerShort = '''', mx_lateAttach = [], mx_next = 0, mx_outcome = outcome, mx_sent = [], mx_presence = []\<rparr>"

definition emitFanoutPresenceChanged :: "string \<Rightarrow> presence \<Rightarrow> mux \<Rightarrow> mux" where
  "emitFanoutPresenceChanged p e m = m\<lparr>mx_presence := mx_presence m @ [(p, e)]\<rparr>"

definition trackReattachDrain :: "string \<Rightarrow> nat \<Rightarrow> mux \<Rightarrow> mux" where
  "trackReattachDrain p ch m =
    m\<lparr>mx_gates := omap_put (mx_gates m) p ((case map_of (mx_gates m) p of None \<Rightarrow> [] | Some g \<Rightarrow> g) @ [ch])\<rparr>"

text \<open>A detached channel has settled: the gates that waited for it open.\<close>

definition channel_settled :: "nat \<Rightarrow> mux \<Rightarrow> mux" where
  "channel_settled ch m =
    m\<lparr>mx_gates := filter (\<lambda>e. snd e \<noteq> []) (map (\<lambda>e. (fst e, filter (\<lambda>x. x \<noteq> ch) (snd e))) (mx_gates m))\<rparr>"

text \<open>\<open>detach\<close> after the farewell: what it does with the channel it found.\<close>

definition forget_channel :: "string \<Rightarrow> nat \<Rightarrow> mux \<Rightarrow> mux" where
  "forget_channel p ch m =
    (let m1 = (trackReattachDrain p ch m)
          \<lparr>mx_channels := omap_del (mx_channels m) p, mx_peerIds := omap_del (mx_peerIds m) ch,
           mx_routers := omap_del (mx_routers m) ch, mx_lateAttach := removeAll p (mx_lateAttach m),
           mx_offline := removeAll p (mx_offline m), mx_buffers := omap_del (mx_buffers m) p,
           mx_flushed := omap_del (mx_flushed m) p\<rparr> in
     if mx_peerShort m1 = take 8 p
     then m1\<lparr>mx_peerShort := (case mx_channels m1 of [] \<Rightarrow> '''' | e # _ \<Rightarrow> take 8 (fst e))\<rparr>
     else m1)"

definition detach_quietly :: "string \<Rightarrow> mux \<Rightarrow> mux" where
  "detach_quietly p m = (case map_of (mx_channels m) p of None \<Rightarrow> m | Some ch \<Rightarrow> forget_channel p ch m)"

text \<open>\<open>channel.send\<close>: a channel that gives up has its owner detached before the call returns.\<close>

definition channel_send :: "string \<Rightarrow> nat \<Rightarrow> js \<Rightarrow> mux \<Rightarrow> send_outcome \<times> mux" where
  "channel_send p ch msg m =
    (let outcome = mx_outcome m (length (mx_sent m)); m1 = m\<lparr>mx_sent := mx_sent m @ [(ch, msg)]\<rparr> in
     (outcome, if outcome = SendDisconnected then detach_quietly p m1 else m1))"

definition bye :: "string \<Rightarrow> js" where
  "bye reason = Obj [(''type'', Str ''bye''), (''reason'', Str reason)]"

definition detachPeer :: "string \<Rightarrow> string option \<Rightarrow> mux \<Rightarrow> mux" where
  "detachPeer p reason m = (case map_of (mx_channels m) p of
     None \<Rightarrow> m
   | Some ch \<Rightarrow>
      forget_channel p ch (case reason of None \<Rightarrow> m | Some r \<Rightarrow> snd (channel_send p ch (bye r) m)))"

text \<open>\<open>attach\<close>; \<open>created\<close> is false when \<open>createChannel\<close> throws, and so does \<open>attach\<close> then.\<close>

definition attachPeer :: "string \<Rightarrow> bool \<Rightarrow> bool \<Rightarrow> nat \<Rightarrow> mux \<Rightarrow> nat option \<times> mux" where
  "attachPeer p created turnActive router m =
    (let wasOffline = (p \<in> set (mx_offline m));
         m1 = detachPeer p None m in
     if \<not> created then (None, m1) else
     let ch = mx_next m1;
         m2 = m1\<lparr>mx_next := ch + 1, mx_channels := omap_put (mx_channels m1) p ch, mx_peerIds := omap_put (mx_peerIds m1) ch p,
                mx_routers := omap_put (mx_routers m1) ch router, mx_peerShort := take 8 p\<rparr>;
         m3 = (if wasOffline then emitFanoutPresenceChanged p Resumed m2 else m2);
         m4 = (if turnActive then m3\<lparr>mx_lateAttach := oset_add (mx_lateAttach m3) p\<rparr> else m3) in
     (Some ch, m4))"

definition disconnectOwner :: "string option \<Rightarrow> mux \<Rightarrow> (bool \<times> nat) \<times> mux" where
  "disconnectOwner peerId m =
    (let target = (case peerId of Some p \<Rightarrow> Some p | None \<Rightarrow> (if mx_channels m = [] then None else Some (fst (last (mx_channels m))))) in
     case target of
       None \<Rightarrow> ((False, length (mx_channels m)), m)
     | Some p \<Rightarrow>
        (if p = '''' \<or> \<not> omap_has (mx_channels m) p then ((False, length (mx_channels m)), m)
         else let m1 = detachPeer p None m in ((True, length (mx_channels m1)), m1)))"

definition revokeOwner :: "string \<Rightarrow> mux \<Rightarrow> mux" where
  "revokeOwner p m = detachPeer p (Some ''session_replaced'') m"

definition detachAll :: "string option \<Rightarrow> mux \<Rightarrow> mux" where
  "detachAll reason m =
    (foldl (\<lambda>m p. detachPeer p reason m) m (omap_keys (mx_channels m)))
      \<lparr>mx_lateAttach := [], mx_offline := [], mx_buffers := [], mx_flushed := [], mx_peerShort := ''''\<rparr>"

subsection \<open>Presence and fan-out\<close>

definition markPeerOffline :: "string \<Rightarrow> int option \<Rightarrow> mux \<Rightarrow> bool \<times> mux" where
  "markPeerOffline p since m =
    (if \<not> omap_has (mx_channels m) p \<or> p \<in> set (mx_offline m) then (False, m)
     else (True, emitFanoutPresenceChanged p (Suspended since)
       (m\<lparr>mx_offline := mx_offline m @ [p], mx_lateAttach := removeAll p (mx_lateAttach m)\<rparr>)))"

definition is_compaction :: "js \<Rightarrow> bool" where
  "is_compaction msg \<longleftrightarrow> jfield msg ''type'' = Str ''compaction''"

definition compaction_key :: "js \<Rightarrow> js \<Rightarrow> string" where
  "compaction_key session ts = (case session of Str s \<Rightarrow> s | _ \<Rightarrow> '''') @ '':'' @ stringify ts"

definition rememberFlushedCompaction :: "string \<Rightarrow> js \<Rightarrow> mux \<Rightarrow> mux" where
  "rememberFlushedCompaction p msg m =
    (if \<not> is_compaction msg \<or> jfield msg ''ts'' = Undef then m
     else
       let keys = (case map_of (mx_flushed m) p of None \<Rightarrow> [] | Some ks \<Rightarrow> ks);
           keys1 = oset_add keys (compaction_key (jfield msg ''session_id'') (jfield msg ''ts'')) in
       m\<lparr>mx_flushed := omap_put (mx_flushed m) p (drop (length keys1 - FLUSHED_COMPACTION_KEYS_MAX_PER_PEER) keys1)\<rparr>)"

text \<open>
  The loop of \<open>markPeerOnline\<close>, started with the message taken. It stops when the owner
  was detached or replaced meanwhile.
\<close>

function flush_loop :: "string \<Rightarrow> nat \<Rightarrow> offline_buffer \<Rightarrow> mux \<Rightarrow> mux" where
  "flush_loop p ch b m = (case takeNextBufferedMessage b of
     None \<Rightarrow> m
   | Some (msg, b') \<Rightarrow>
      (if map_of (mx_channels m) p = Some ch \<and> p \<in> set (mx_offline m) \<and> omap_has (mx_buffers m) p
       then
         let (outcome, m1) = channel_send p ch msg m;
             m2 = (if outcome = SendThrew then m1 else rememberFlushedCompaction p msg m1) in
         flush_loop p ch b' m2
       else m))"
  by pat_completeness auto

termination
  by (relation "measure (\<lambda>(p, ch, b, m). length (ob_completed b) + length (ob_current b))")
    (auto simp: takeNextBufferedMessage_def split: list.splits)

declare flush_loop.simps [simp del]

definition markPeerOnline :: "string \<Rightarrow> mux \<Rightarrow> bool \<times> mux" where
  "markPeerOnline p m =
    (if p \<notin> set (mx_offline m) then (False, m)
     else
       let m1 = (case (map_of (mx_channels m) p, map_of (mx_buffers m) p) of
                   (Some ch, Some b) \<Rightarrow> flush_loop p ch b m
                 | _ \<Rightarrow> m);
           m2 = m1\<lparr>mx_buffers := omap_del (mx_buffers m1) p\<rparr> in
       (True, if p \<in> set (mx_offline m2)
              then emitFanoutPresenceChanged p Resumed (m2\<lparr>mx_offline := removeAll p (mx_offline m2)\<rparr>)
              else m2))"

definition bufferOfflineMessage :: "string \<Rightarrow> js \<Rightarrow> mux \<Rightarrow> mux" where
  "bufferOfflineMessage p msg m =
    (let b = (case map_of (mx_buffers m) p of None \<Rightarrow> createOfflinePeerBuffer | Some b \<Rightarrow> b) in
     m\<lparr>mx_buffers := omap_put (mx_buffers m) p (buffer_message msg b)\<rparr>)"

text \<open>\<open>broadcast\<close>; a channel that a send detaches is its own, so the others are still met.\<close>

definition broadcast_one :: "js \<Rightarrow> mux \<Rightarrow> string \<times> nat \<Rightarrow> mux" where
  "broadcast_one msg m e =
    (if fst e \<in> set (mx_offline m) then bufferOfflineMessage (fst e) msg m
     else snd (channel_send (fst e) (snd e) msg m))"

definition broadcast :: "js \<Rightarrow> mux \<Rightarrow> mux" where
  "broadcast msg m = foldl (broadcast_one msg) m (mx_channels m)"

definition completeOfflineTurn :: "mux \<Rightarrow> mux" where
  "completeOfflineTurn m = m\<lparr>mx_buffers := map (\<lambda>e. (fst e, complete_buffer (snd e))) (mx_buffers m)\<rparr>"

definition arbitrateSessionHistory :: "nat \<Rightarrow> js \<Rightarrow> js list \<Rightarrow> mux \<Rightarrow> js list" where
  "arbitrateSessionHistory ch session events m =
    (case map_of (mx_peerIds m) ch of
       None \<Rightarrow> events
     | Some p \<Rightarrow>
        (if p = '''' \<or> map_of (mx_channels m) p \<noteq> Some ch then events
         else case map_of (mx_flushed m) p of
           None \<Rightarrow> events
         | Some ks \<Rightarrow> filter (\<lambda>ev. \<not> is_compaction ev \<or> compaction_key session (jfield ev ''ts'') \<notin> set ks) events))"

text \<open>\<open>routeFrom\<close>: the router that gets the message, if the sender is still the owner's channel.\<close>

definition routeFrom :: "nat \<Rightarrow> bool \<Rightarrow> mux \<Rightarrow> nat option \<times> mux" where
  "routeFrom ch is_session_sync m =
    (case map_of (mx_peerIds m) ch of
       None \<Rightarrow> (None, m)
     | Some p \<Rightarrow>
        (if p = '''' \<or> map_of (mx_channels m) p \<noteq> Some ch then (None, m)
         else
           let m1 = (if is_session_sync \<and> p \<in> set (mx_offline m)
                     then snd (markPeerOnline p (m\<lparr>mx_buffers := omap_del (mx_buffers m) p\<rparr>)) else m) in
           (map_of (mx_routers m1) ch, m1)))"

definition lateAttachTargets :: "mux \<Rightarrow> nat list \<times> mux" where
  "lateAttachTargets m = (List.map_filter (\<lambda>p. map_of (mx_channels m) p) (mx_lateAttach m), m\<lparr>mx_lateAttach := []\<rparr>)"

subsection \<open>What the buffers hold\<close>

definition buffered_bytes :: "buffered list \<Rightarrow> nat" where
  "buffered_bytes xs = sum_list (map snd xs)"

lemma buffered_bytes_simps [simp]: "buffered_bytes [] = 0" "buffered_bytes (x # xs) = snd x + buffered_bytes xs" "buffered_bytes (xs @ ys) = buffered_bytes xs + buffered_bytes ys"
  by (simp_all add: buffered_bytes_def)

definition buffer_ok :: "offline_buffer \<Rightarrow> bool" where
  "buffer_ok b \<longleftrightarrow>
    ob_completedBytes b = buffered_bytes (ob_completed b) \<and> ob_currentBytes b = buffered_bytes (ob_current b) \<and>
    length (ob_completed b) + length (ob_current b) \<le> OFFLINE_BUFFER_MAX_FRAMES \<and>
    ob_completedBytes b + ob_currentBytes b \<le> OFFLINE_BUFFER_MAX_BYTES \<and>
    (ob_overflowed b \<longrightarrow> ob_completed b = [] \<and> ob_current b = []) \<and>
    (\<forall>e \<in> set (ob_completed b @ ob_current b). serializedMessageBytes (fst e) = Some (snd e))"

lemma buffer_ok_new [intro]: "buffer_ok createOfflinePeerBuffer"
  by (simp add: buffer_ok_def createOfflinePeerBuffer_def)

lemma buffer_ok_message [intro]:
  assumes "buffer_ok b"
  shows "buffer_ok (buffer_message m b)"
proof (cases "serializedMessageBytes m")
  case None
  with assms show ?thesis by (simp add: buffer_message_def buffer_ok_def Let_def)
next
  case (Some n)
  with assms show ?thesis by (auto simp: buffer_message_def buffer_ok_def Let_def)
qed

lemma buffer_ok_complete [intro]: "buffer_ok b \<Longrightarrow> buffer_ok (complete_buffer b)"
  by (auto simp: buffer_ok_def complete_buffer_def Let_def)

text \<open>
  The abstract buffer of an offline owner: the messages of the last turn that can be
  kept, and those of the turn that is open. What is kept of them is the most recent
  whole turns that fit: both, or the open one alone, or nothing.
\<close>

definition fits :: "js list \<Rightarrow> bool" where
  "fits ms \<longleftrightarrow> length ms \<le> OFFLINE_BUFFER_MAX_FRAMES \<and> list_all (\<lambda>m. serializedMessageBytes m \<noteq> None) ms \<and>
    sum_list (map (\<lambda>m. the (serializedMessageBytes m)) ms) \<le> OFFLINE_BUFFER_MAX_BYTES"

datatype offline_event = Missed js | TurnDone

fun offline_spec :: "js list \<times> js list \<Rightarrow> offline_event \<Rightarrow> js list \<times> js list" where
  "offline_spec (prior, cur) (Missed m) = (prior, cur @ [m])"
| "offline_spec (prior, cur) TurnDone = (if cur = [] then prior else if fits cur then cur else [], [])"

definition kept :: "js list \<times> js list \<Rightarrow> js list" where
  "kept lc = (if fits (fst lc @ snd lc) then fst lc @ snd lc else if fits (snd lc) then snd lc else [])"

definition held :: "offline_buffer \<Rightarrow> js list" where
  "held b = map fst (ob_completed b @ ob_current b)"

fun buffer_event :: "offline_event \<Rightarrow> offline_buffer \<Rightarrow> offline_buffer" where
  "buffer_event (Missed m) b = buffer_message m b"
| "buffer_event TurnDone b = complete_buffer b"

definition represents :: "offline_buffer \<Rightarrow> js list \<times> js list \<Rightarrow> bool" where
  "represents b lc \<longleftrightarrow> buffer_ok b \<and> fits (fst lc) \<and>
    ob_overflowed b = (\<not> fits (snd lc)) \<and>
    map fst (ob_current b) = (if fits (snd lc) then snd lc else []) \<and>
    map fst (ob_completed b) = (if fits (fst lc @ snd lc) then fst lc else [])"

lemma represents_held: "represents b lc \<Longrightarrow> held b = kept lc"
  by (auto simp: represents_def held_def kept_def fits_def)

lemma fits_part: "fits (xs @ ys) \<Longrightarrow> fits xs \<and> fits ys"
  by (simp add: fits_def)

lemma fits_Nil [simp]: "fits []"
  by (simp add: fits_def)

lemma fits_sized:
  assumes "\<forall>e \<in> set xs. serializedMessageBytes (fst e) = Some (snd e)"
  shows "fits (map fst xs @ [m]) \<longleftrightarrow> (\<exists>n. serializedMessageBytes m = Some n \<and>
    length xs + 1 \<le> OFFLINE_BUFFER_MAX_FRAMES \<and> buffered_bytes xs + n \<le> OFFLINE_BUFFER_MAX_BYTES)"
proof -
  have "list_all (\<lambda>m. serializedMessageBytes m \<noteq> None) (map fst xs)"
    "sum_list (map (\<lambda>m. the (serializedMessageBytes m)) (map fst xs)) = buffered_bytes xs"
    using assms by (induction xs) auto
  then show ?thesis by (auto simp: fits_def)
qed

lemma buffer_message_ok:
  assumes "buffer_ok b" "\<not> ob_overflowed b"
  shows "buffer_message m b =
    (let b1 = (if fits (held b @ [m]) then b else b\<lparr>ob_completed := [], ob_completedBytes := 0\<rparr>) in
     if \<not> fits (map fst (ob_current b) @ [m]) then b1\<lparr>ob_current := [], ob_currentBytes := 0, ob_overflowed := True\<rparr>
     else b1\<lparr>ob_current := ob_current b1 @ [(m, the (serializedMessageBytes m))],
             ob_currentBytes := ob_currentBytes b1 + the (serializedMessageBytes m)\<rparr>)"
proof -
  have h: "fits (held b @ [m]) \<longleftrightarrow> (\<exists>n. serializedMessageBytes m = Some n \<and>
      length (ob_completed b) + length (ob_current b) + 1 \<le> OFFLINE_BUFFER_MAX_FRAMES \<and>
      ob_completedBytes b + ob_currentBytes b + n \<le> OFFLINE_BUFFER_MAX_BYTES)"
    unfolding held_def by (subst fits_sized) (use assms in \<open>auto simp: buffer_ok_def\<close>)
  have c: "fits (map fst (ob_current b) @ [m]) \<longleftrightarrow> (\<exists>n. serializedMessageBytes m = Some n \<and>
      length (ob_current b) + 1 \<le> OFFLINE_BUFFER_MAX_FRAMES \<and> ob_currentBytes b + n \<le> OFFLINE_BUFFER_MAX_BYTES)"
    by (subst fits_sized) (use assms in \<open>auto simp: buffer_ok_def\<close>)
  show ?thesis
    unfolding h c using assms(2)
    by (cases "serializedMessageBytes m") (simp_all add: buffer_message_def Let_def not_less)
qed

lemma represents_missed:
  assumes "represents b (prior, cur)"
  shows "represents (buffer_message m b) (prior, cur @ [m])"
proof -
  have ok: "buffer_ok (buffer_message m b)" using assms by (auto simp: represents_def)
  show ?thesis
  proof (cases "ob_overflowed b")
    case True
    with assms have "\<not> fits (cur @ [m])" "\<not> fits (prior @ cur @ [m])"
      by (auto simp: represents_def dest: fits_part)
    moreover have "ob_current b = []" "ob_completed b = []"
      using True assms by (auto simp: represents_def buffer_ok_def)
    ultimately show ?thesis
      using assms True by (simp add: represents_def buffer_message_def)
  next
    case False
    with assms have c: "map fst (ob_current b) = cur" "fits cur" and p: "fits prior"
      by (auto simp: represents_def)
    have full: "fits (prior @ cur @ [m]) \<longleftrightarrow> fits (prior @ cur) \<and> fits (held b @ [m])"
    proof (cases "fits (prior @ cur)")
      case True
      with assms c have "held b = prior @ cur" by (simp add: represents_def held_def)
      with True show ?thesis by simp
    next
      case False
      then show ?thesis using fits_part [of "prior @ cur" "[m]"] by auto
    qed
    have e: "ob_completed b = (if fits (prior @ cur) then ob_completed b else [])"
      using assms by (auto simp: represents_def)
    show ?thesis
      using ok assms False c p full e fits_part [of prior "cur @ [m]"]
      by (auto simp: represents_def buffer_message_ok Let_def split: if_splits)
  qed
qed

lemma represents_done:
  assumes "represents b (prior, cur)"
  shows "represents (complete_buffer b) (offline_spec (prior, cur) TurnDone)"
  using assms buffer_ok_complete [of b]
  by (auto simp: represents_def complete_buffer_def Let_def dest: fits_part split: if_splits)

lemma represents_event: "represents b lc \<Longrightarrow> represents (buffer_event e b) (offline_spec lc e)"
  by (cases lc; cases e) (simp_all only: buffer_event.simps offline_spec.simps(1) represents_missed represents_done)

lemma represents_run:
  "represents b lc \<Longrightarrow> represents (foldl (\<lambda>b e. buffer_event e b) b es) (foldl offline_spec lc es)"
  by (induction es arbitrary: b lc) (simp_all only: foldl.simps represents_event)

lemma represents_new: "represents createOfflinePeerBuffer ([], [])"
  using buffer_ok_new by (simp add: represents_def) (simp add: createOfflinePeerBuffer_def)

subsection \<open>The registry stays consistent\<close>

definition registry_ok :: "mux \<Rightarrow> bool" where
  "registry_ok m \<longleftrightarrow>
    omap_wf (mx_channels m) \<and> omap_wf (mx_peerIds m) \<and> omap_wf (mx_routers m) \<and>
    (\<forall>p ch. map_of (mx_channels m) p = Some ch \<longleftrightarrow> map_of (mx_peerIds m) ch = Some p) \<and>
    dom (map_of (mx_routers m)) = dom (map_of (mx_peerIds m)) \<and>
    (\<forall>ch \<in> dom (map_of (mx_peerIds m)). ch < mx_next m) \<and>
    (mx_peerShort m \<noteq> '''' \<longrightarrow> (\<exists>p \<in> dom (map_of (mx_channels m)). take 8 p = mx_peerShort m))"

definition presence_ok :: "mux \<Rightarrow> bool" where
  "presence_ok m \<longleftrightarrow>
    distinct (mx_offline m) \<and> distinct (mx_lateAttach m) \<and>
    set (mx_offline m) \<union> set (mx_lateAttach m) \<subseteq> dom (map_of (mx_channels m)) \<and>
    set (mx_offline m) \<inter> set (mx_lateAttach m) = {}"

definition buffers_ok :: "mux \<Rightarrow> bool" where
  "buffers_ok m \<longleftrightarrow>
    omap_wf (mx_buffers m) \<and> dom (map_of (mx_buffers m)) \<subseteq> set (mx_offline m) \<and>
    list_all (\<lambda>e. buffer_ok (snd e)) (mx_buffers m)"

definition flushed_ok :: "mux \<Rightarrow> bool" where
  "flushed_ok m \<longleftrightarrow> omap_wf (mx_flushed m) \<and> list_all (\<lambda>e. length (snd e) \<le> 128) (mx_flushed m)"

definition mux_ok :: "mux \<Rightarrow> bool" where
  "mux_ok m \<longleftrightarrow> registry_ok m \<and> presence_ok m \<and> buffers_ok m \<and> flushed_ok m"

lemma registry_frame [simp]:
  "registry_ok (m\<lparr>mx_sent := x1\<rparr>) = registry_ok m" "registry_ok (m\<lparr>mx_presence := x2\<rparr>) = registry_ok m"
  "registry_ok (m\<lparr>mx_gates := x3\<rparr>) = registry_ok m" "registry_ok (m\<lparr>mx_offline := x4\<rparr>) = registry_ok m"
  "registry_ok (m\<lparr>mx_lateAttach := x5\<rparr>) = registry_ok m" "registry_ok (m\<lparr>mx_buffers := x6\<rparr>) = registry_ok m"
  "registry_ok (m\<lparr>mx_flushed := x7\<rparr>) = registry_ok m"
  by (simp_all add: registry_ok_def)

lemma presence_frame [simp]:
  "presence_ok (m\<lparr>mx_sent := x1\<rparr>) = presence_ok m" "presence_ok (m\<lparr>mx_presence := x2\<rparr>) = presence_ok m"
  "presence_ok (m\<lparr>mx_gates := x3\<rparr>) = presence_ok m" "presence_ok (m\<lparr>mx_buffers := x4\<rparr>) = presence_ok m"
  "presence_ok (m\<lparr>mx_flushed := x5\<rparr>) = presence_ok m" "presence_ok (m\<lparr>mx_peerIds := x6\<rparr>) = presence_ok m"
  "presence_ok (m\<lparr>mx_routers := x7\<rparr>) = presence_ok m" "presence_ok (m\<lparr>mx_next := x8\<rparr>) = presence_ok m"
  "presence_ok (m\<lparr>mx_peerShort := x9\<rparr>) = presence_ok m"
  by (simp_all add: presence_ok_def)

lemma buffers_frame [simp]:
  "buffers_ok (m\<lparr>mx_sent := x1\<rparr>) = buffers_ok m" "buffers_ok (m\<lparr>mx_presence := x2\<rparr>) = buffers_ok m"
  "buffers_ok (m\<lparr>mx_gates := x3\<rparr>) = buffers_ok m" "buffers_ok (m\<lparr>mx_lateAttach := x4\<rparr>) = buffers_ok m"
  "buffers_ok (m\<lparr>mx_flushed := x5\<rparr>) = buffers_ok m" "buffers_ok (m\<lparr>mx_peerIds := x6\<rparr>) = buffers_ok m"
  "buffers_ok (m\<lparr>mx_routers := x7\<rparr>) = buffers_ok m" "buffers_ok (m\<lparr>mx_next := x8\<rparr>) = buffers_ok m"
  "buffers_ok (m\<lparr>mx_peerShort := x9\<rparr>) = buffers_ok m" "buffers_ok (m\<lparr>mx_channels := x10\<rparr>) = buffers_ok m"
  by (simp_all add: buffers_ok_def)

lemma flushed_frame [simp]:
  "flushed_ok (m\<lparr>mx_sent := x1\<rparr>) = flushed_ok m" "flushed_ok (m\<lparr>mx_presence := x2\<rparr>) = flushed_ok m"
  "flushed_ok (m\<lparr>mx_gates := x3\<rparr>) = flushed_ok m" "flushed_ok (m\<lparr>mx_lateAttach := x4\<rparr>) = flushed_ok m"
  "flushed_ok (m\<lparr>mx_buffers := x5\<rparr>) = flushed_ok m" "flushed_ok (m\<lparr>mx_peerIds := x6\<rparr>) = flushed_ok m"
  "flushed_ok (m\<lparr>mx_routers := x7\<rparr>) = flushed_ok m" "flushed_ok (m\<lparr>mx_next := x8\<rparr>) = flushed_ok m"
  "flushed_ok (m\<lparr>mx_peerShort := x9\<rparr>) = flushed_ok m" "flushed_ok (m\<lparr>mx_channels := x10\<rparr>) = flushed_ok m"
  "flushed_ok (m\<lparr>mx_offline := x11\<rparr>) = flushed_ok m"
  by (simp_all add: flushed_ok_def)

lemma mux_short: "registry_ok m \<Longrightarrow> mx_peerShort m \<noteq> [] \<Longrightarrow> \<exists>p \<in> dom (map_of (mx_channels m)). take 8 p = mx_peerShort m"
  unfolding registry_ok_def by (elim conjE) (erule mp, assumption)

lemma mux_inverse: "registry_ok m \<Longrightarrow> map_of (mx_peerIds m) ch = Some p \<longleftrightarrow> map_of (mx_channels m) p = Some ch"
  unfolding registry_ok_def by blast

lemma mux_fresh: "registry_ok m \<Longrightarrow> map_of (mx_peerIds m) (mx_next m) = None"
  by (cases "map_of (mx_peerIds m) (mx_next m)") (auto simp: registry_ok_def)

lemma mux_buffered: "buffers_ok m \<Longrightarrow> map_of (mx_buffers m) p = Some b \<Longrightarrow> buffer_ok b \<and> p \<in> set (mx_offline m)"
  unfolding buffers_ok_def list_all_iff by (force dest: map_of_SomeD)

lemma mux_offline_attached: "presence_ok m \<Longrightarrow> p \<in> set (mx_offline m) \<Longrightarrow> map_of (mx_channels m) p \<noteq> None"
  by (auto simp: presence_ok_def)

lemma mux_ok_new: "mux_ok (new_mux outcome)"
  by (simp add: mux_ok_def registry_ok_def presence_ok_def buffers_ok_def flushed_ok_def new_mux_def)

lemma in_del: "e \<in> set (omap_del m k) \<Longrightarrow> e \<in> set m"
  by (auto simp: set_omap_del)

lemma in_put: "e \<in> set (omap_put m k v) \<Longrightarrow> e = (k, v) \<or> e \<in> set m"
  by (induction m) (auto split: if_splits)

lemma all_put: "list_all P m \<Longrightarrow> P (k, v) \<Longrightarrow> list_all P (omap_put m k v)"
  by (induction m) auto

lemma all_del: "list_all P m \<Longrightarrow> list_all P (omap_del m k)"
  by (simp add: list_all_iff set_omap_del)

lemma frame_ok [simp]:
  "mux_ok (m\<lparr>mx_sent := x\<rparr>) \<longleftrightarrow> mux_ok m" "mux_ok (m\<lparr>mx_presence := y\<rparr>) \<longleftrightarrow> mux_ok m" "mux_ok (m\<lparr>mx_gates := z\<rparr>) \<longleftrightarrow> mux_ok m"
  by (simp_all add: mux_ok_def)

lemma forget_ok:
  assumes "mux_ok m" "map_of (mx_channels m) p = Some ch \<or> map_of (mx_channels m) p = None \<and> map_of (mx_peerIds m) ch = None"
  shows "mux_ok (forget_channel p ch m)"
proof -
  have reg: "registry_ok m" using assms(1) by (simp add: mux_ok_def)
  let ?c = "omap_del (mx_channels m) p"
  let ?short = "if mx_peerShort m = take 8 p then case ?c of [] \<Rightarrow> '''' | e # _ \<Rightarrow> take 8 (fst e) else mx_peerShort m"
  have short: "\<exists>q \<in> dom (map_of ?c). take 8 q = ?short" if "?short \<noteq> ''''"
  proof (cases "mx_peerShort m = take 8 p")
    case True
    with that show ?thesis by (cases ?c) (auto simp: dom_map_of_conv_image_fst simp del: map_of_del)
  next
    case False
    then have "mx_peerShort m \<noteq> '''' \<longrightarrow> (\<exists>q \<in> dom (map_of (mx_channels m)). q \<noteq> p \<and> take 8 q = mx_peerShort m)"
      using mux_short [OF reg] by metis
    with False that show ?thesis by auto
  qed
  have f: "forget_channel p ch m = (trackReattachDrain p ch m)
      \<lparr>mx_channels := ?c, mx_peerIds := omap_del (mx_peerIds m) ch, mx_routers := omap_del (mx_routers m) ch,
       mx_lateAttach := removeAll p (mx_lateAttach m), mx_offline := removeAll p (mx_offline m),
       mx_buffers := omap_del (mx_buffers m) p, mx_flushed := omap_del (mx_flushed m) p, mx_peerShort := ?short\<rparr>"
    by (simp add: forget_channel_def trackReattachDrain_def Let_def)
  obtain s where s: "s = ?short" by blast
  have inv: "map_of ?c q = Some x \<longleftrightarrow> map_of (omap_del (mx_peerIds m) ch) x = Some q" for q x
    using assms(2) mux_inverse [OF reg, of x q] mux_inverse [OF reg, of ch p] mux_inverse [OF reg, of x p]
      mux_inverse [OF reg, of ch q] by auto
  have "registry_ok (forget_channel p ch m)"
    unfolding f trackReattachDrain_def registry_frame
    using reg short inv unfolding registry_ok_def s [symmetric] by simp
  moreover have "presence_ok (forget_channel p ch m)"
    using assms(1) unfolding f trackReattachDrain_def mux_ok_def by (simp add: presence_ok_def distinct_removeAll) blast
  moreover have "buffers_ok (forget_channel p ch m)"
    using assms(1) unfolding f trackReattachDrain_def mux_ok_def by (auto simp: buffers_ok_def all_del)
  moreover have "flushed_ok (forget_channel p ch m)"
    using assms(1) unfolding f trackReattachDrain_def mux_ok_def by (simp add: flushed_ok_def all_del)
  ultimately show ?thesis by (simp add: mux_ok_def)
qed

lemma detach_quietly_ok [intro]: "mux_ok m \<Longrightarrow> mux_ok (detach_quietly p m)"
  by (auto simp: detach_quietly_def split: option.splits intro: forget_ok)

lemma channel_send_ok [intro]: "mux_ok m \<Longrightarrow> mux_ok (snd (channel_send p ch msg m))"
  by (auto simp: channel_send_def Let_def)

lemma forget_gone: "mux_ok m \<Longrightarrow> map_of (mx_channels m) p = Some ch \<Longrightarrow>
    map_of (mx_channels (forget_channel p ch m)) = (map_of (mx_channels m))(p := None) \<and> map_of (mx_peerIds (forget_channel p ch m)) ch = None"
  by (auto simp: forget_channel_def trackReattachDrain_def Let_def)

lemma detachPeer_ok [intro]:
  assumes "mux_ok m"
  shows "mux_ok (detachPeer p reason m)"
proof (cases "map_of (mx_channels m) p")
  case None
  with assms show ?thesis by (simp add: detachPeer_def)
next
  case (Some ch)
  let ?m = "case reason of None \<Rightarrow> m | Some r \<Rightarrow> snd (channel_send p ch (bye r) m)"
  have ok: "mux_ok ?m" using assms by (auto split: option.splits)
  have "map_of (mx_channels ?m) p = Some ch \<or> map_of (mx_channels ?m) p = None \<and> map_of (mx_peerIds ?m) ch = None"
  proof (cases "reason = None \<or> mx_outcome m (length (mx_sent m)) \<noteq> SendDisconnected")
    case True
    with Some show ?thesis by (auto simp: channel_send_def Let_def split: option.splits)
  next
    case False
    then obtain r where r: "reason = Some r" "mx_outcome m (length (mx_sent m)) = SendDisconnected" by auto
    let ?m1 = "m\<lparr>mx_sent := mx_sent m @ [(ch, bye r)]\<rparr>"
    have "mux_ok ?m1" "map_of (mx_channels ?m1) p = Some ch" using assms Some by simp_all
    from forget_gone [OF this] r Some show ?thesis
      by (simp add: channel_send_def detach_quietly_def Let_def)
  qed
  with ok show ?thesis using Some by (simp add: detachPeer_def forget_ok)
qed

lemma detach_gone: "mux_ok m \<Longrightarrow> map_of (mx_channels (detachPeer p None m)) = (map_of (mx_channels m))(p := None)"
  using forget_gone [of m p] by (auto simp: detachPeer_def split: option.splits)

lemma attach_ok [intro]:
  assumes "mux_ok m"
  shows "mux_ok (snd (attachPeer p created turnActive router m))"
proof (cases created)
  case True
  let ?m = "detachPeer p None m"
  have ok: "mux_ok ?m" using assms by blast
  then have reg: "registry_ok ?m" by (simp add: mux_ok_def)
  have gone: "map_of (mx_channels ?m) p = None" using detach_gone [OF assms] by simp
  then have off: "p \<notin> set (mx_offline ?m)" using ok mux_offline_attached [of ?m p] by (auto simp: mux_ok_def)
  have inv: "((map_of (mx_channels ?m))(p \<mapsto> mx_next ?m)) q = Some x \<longleftrightarrow> ((map_of (mx_peerIds ?m))(mx_next ?m \<mapsto> p)) x = Some q" for q x
    using mux_inverse [OF reg, of x q] gone mux_fresh [OF reg] by (cases "q = p"; cases "x = mx_next ?m") auto
  let ?m2 = "?m\<lparr>mx_next := mx_next ?m + 1, mx_channels := omap_put (mx_channels ?m) p (mx_next ?m),
      mx_peerIds := omap_put (mx_peerIds ?m) (mx_next ?m) p, mx_routers := omap_put (mx_routers ?m) (mx_next ?m) router,
      mx_peerShort := take 8 p\<rparr>"
  have "registry_ok ?m2"
    using reg inv unfolding registry_ok_def by (simp add: less_Suc_eq)
  moreover have "presence_ok ?m2" "presence_ok (?m2\<lparr>mx_lateAttach := oset_add (mx_lateAttach ?m2) p\<rparr>)"
    "presence_ok (?m2\<lparr>mx_presence := x, mx_lateAttach := oset_add (mx_lateAttach ?m2) p\<rparr>)" for x
    using ok off unfolding mux_ok_def by (auto simp: presence_ok_def)
  ultimately have "mux_ok ?m2" "mux_ok (?m2\<lparr>mx_lateAttach := oset_add (mx_lateAttach ?m2) p\<rparr>)"
    "mux_ok (?m2\<lparr>mx_presence := x, mx_lateAttach := oset_add (mx_lateAttach ?m2) p\<rparr>)" for x
    using ok by (simp_all add: mux_ok_def)
  then show ?thesis
    using True by (simp add: attachPeer_def emitFanoutPresenceChanged_def Let_def)
qed (use assms in \<open>auto simp: attachPeer_def Let_def\<close>)

lemma detachAll_ok [intro]:
  assumes "mux_ok m"
  shows "mux_ok (detachAll reason m)"
proof -
  have "mux_ok (foldl (\<lambda>m p. detachPeer p reason m) m ps)" for ps
    using assms by (induction ps arbitrary: m) auto
  then have "mux_ok (foldl (\<lambda>m p. detachPeer p reason m) m (omap_keys (mx_channels m)))" .
  then show ?thesis
    by (simp add: detachAll_def mux_ok_def registry_ok_def presence_ok_def buffers_ok_def flushed_ok_def)
qed

lemma remember_ok [intro]: "mux_ok m \<Longrightarrow> mux_ok (rememberFlushedCompaction p msg m)"
  by (simp add: mux_ok_def rememberFlushedCompaction_def Let_def)
    (auto simp: flushed_ok_def FLUSHED_COMPACTION_KEYS_MAX_PER_PEER_def intro!: all_put)

lemma flush_ok: "mux_ok m \<Longrightarrow> mux_ok (flush_loop p ch b m)"
proof (induction p ch b m rule: flush_loop.induct)
  case (1 p ch b m)
  show ?case
  proof (cases "takeNextBufferedMessage b")
    case None
    with 1(2) show ?thesis by (simp add: flush_loop.simps)
  next
    case (Some e)
    obtain msg b' where e: "e = (msg, b')" by fastforce
    obtain outcome m1 where sent: "channel_send p ch msg m = (outcome, m1)" by fastforce
    with channel_send_ok [OF 1(2), of p ch msg] have "mux_ok m1" by simp
    then have "mux_ok (if outcome = SendThrew then m1 else rememberFlushedCompaction p msg m1)" by auto
    with 1 Some e sent show ?thesis by (subst flush_loop.simps) simp
  qed
qed

lemma markPeerOffline_ok [intro]: "mux_ok m \<Longrightarrow> mux_ok (snd (markPeerOffline p since m))"
  by (auto simp: markPeerOffline_def emitFanoutPresenceChanged_def mux_ok_def presence_ok_def buffers_ok_def distinct_removeAll)

lemma drop_buffer_ok [intro]: "mux_ok m \<Longrightarrow> mux_ok (m\<lparr>mx_buffers := omap_del (mx_buffers m) p\<rparr>)"
  by (auto simp: mux_ok_def buffers_ok_def all_del)

lemma online_again_ok:
  "mux_ok m \<Longrightarrow> map_of (mx_buffers m) p = None \<Longrightarrow> mux_ok (m\<lparr>mx_offline := removeAll p (mx_offline m)\<rparr>)"
  by (auto simp: mux_ok_def presence_ok_def buffers_ok_def distinct_removeAll)

lemma markPeerOnline_ok [intro]:
  assumes "mux_ok m"
  shows "mux_ok (snd (markPeerOnline p m))"
proof -
  let ?m1 = "case (map_of (mx_channels m) p, map_of (mx_buffers m) p) of (Some ch, Some b) \<Rightarrow> flush_loop p ch b m | _ \<Rightarrow> m"
  have "mux_ok ?m1" using assms by (auto split: option.splits intro: flush_ok)
  then have "mux_ok (?m1\<lparr>mx_buffers := omap_del (mx_buffers ?m1) p\<rparr>)" by blast
  then show ?thesis
    using assms online_again_ok [of "?m1\<lparr>mx_buffers := omap_del (mx_buffers ?m1) p\<rparr>" p]
    by (simp add: markPeerOnline_def Let_def emitFanoutPresenceChanged_def)
qed

lemma bufferOffline_ok [intro]:
  assumes "mux_ok m" "p \<in> set (mx_offline m)"
  shows "mux_ok (bufferOfflineMessage p msg m)"
proof -
  let ?b = "case map_of (mx_buffers m) p of None \<Rightarrow> createOfflinePeerBuffer | Some b \<Rightarrow> b"
  have "buffer_ok ?b"
    using assms(1) mux_buffered [of m p] by (auto simp: mux_ok_def split: option.split)
  then have "buffer_ok (buffer_message msg ?b)" ..
  then show ?thesis
    using assms by (auto simp: bufferOfflineMessage_def Let_def mux_ok_def buffers_ok_def intro: all_put)
qed

lemma broadcast_ok [intro]: "mux_ok m \<Longrightarrow> mux_ok (broadcast msg m)"
proof -
  have "mux_ok m \<Longrightarrow> mux_ok (foldl (broadcast_one msg) m es)" for es
    by (induction es arbitrary: m) (auto simp: broadcast_one_def)
  then show "mux_ok m \<Longrightarrow> mux_ok (broadcast msg m)" by (simp add: broadcast_def)
qed

lemma complete_keys: "map_of (map (\<lambda>e. (fst e, complete_buffer (snd e))) bs) p = map_option complete_buffer (map_of bs p)"
  by (induction bs) auto

lemma completeOfflineTurn_ok [intro]: "mux_ok m \<Longrightarrow> mux_ok (completeOfflineTurn m)"
  by (simp add: completeOfflineTurn_def mux_ok_def buffers_ok_def complete_keys comp_def list_all_iff dom_map_option_comp)
    (auto simp: dom_def complete_keys)

lemma routeFrom_ok [intro]: "mux_ok m \<Longrightarrow> mux_ok (snd (routeFrom ch sync m))"
  by (auto simp: routeFrom_def Let_def split: option.splits)

lemma lateAttachTargets_ok [intro]: "mux_ok m \<Longrightarrow> mux_ok (snd (lateAttachTargets m))"
  by (auto simp: lateAttachTargets_def mux_ok_def presence_ok_def)

lemma channel_settled_ok [intro]: "mux_ok m \<Longrightarrow> mux_ok (channel_settled ch m)"
  by (simp add: channel_settled_def)

lemma disconnectOwner_ok [intro]: "mux_ok m \<Longrightarrow> mux_ok (snd (disconnectOwner p m))"
  by (auto simp: disconnectOwner_def Let_def split: option.splits)

subsection \<open>Runs\<close>

datatype mux_op =
    MuxAttach string bool bool nat | MuxDetach string "string option" | MuxDetachAll "string option" | MuxDisconnect "string option"
  | MuxOffline string "int option" | MuxOnline string | MuxBroadcast js | MuxTurnDone | MuxRoute nat bool | MuxLate | MuxSettled nat

fun mux_do :: "mux_op \<Rightarrow> mux \<Rightarrow> mux" where
  "mux_do (MuxAttach p created turnActive router) m = snd (attachPeer p created turnActive router m)"
| "mux_do (MuxDetach p reason) m = detachPeer p reason m"
| "mux_do (MuxDetachAll reason) m = detachAll reason m"
| "mux_do (MuxDisconnect p) m = snd (disconnectOwner p m)"
| "mux_do (MuxOffline p since) m = snd (markPeerOffline p since m)"
| "mux_do (MuxOnline p) m = snd (markPeerOnline p m)"
| "mux_do (MuxBroadcast msg) m = broadcast msg m"
| "mux_do MuxTurnDone m = completeOfflineTurn m"
| "mux_do (MuxRoute ch sync) m = snd (routeFrom ch sync m)"
| "mux_do MuxLate m = snd (lateAttachTargets m)"
| "mux_do (MuxSettled ch) m = channel_settled ch m"

abbreviation mux_run :: "mux_op list \<Rightarrow> mux \<Rightarrow> mux" where
  "mux_run ops m \<equiv> foldl (\<lambda>m op. mux_do op m) m ops"

lemma mux_do_ok [intro]: "mux_ok m \<Longrightarrow> mux_ok (mux_do op m)"
  by (cases op) auto

lemma mux_run_ok: "mux_ok m \<Longrightarrow> mux_ok (mux_run ops m)"
  by (induction ops arbitrary: m) auto

text \<open>
  C33. The registry of owners stays consistent whatever is attached, detached, broadcast
  or reported, and whatever the channels do when written to: owners and channels
  correspond one to one, every attached channel has its router, only attached owners are
  offline, a buffer exists only for an offline owner and holds at most 2048 messages and
  8 MiB with exact byte counts, no offline owner awaits a late attachment, and a message
  from a channel that is not its owner's current one is never routed.
\<close>

theorem fanout_registry:
  "let m = mux_run ops (new_mux outcome) in
   (\<forall>p ch. map_of (mx_channels m) p = Some ch \<longleftrightarrow> map_of (mx_peerIds m) ch = Some p) \<and>
   dom (map_of (mx_routers m)) = dom (map_of (mx_peerIds m)) \<and>
   set (mx_offline m) \<union> set (mx_lateAttach m) \<subseteq> dom (map_of (mx_channels m)) \<and>
   set (mx_offline m) \<inter> set (mx_lateAttach m) = {} \<and>
   dom (map_of (mx_buffers m)) \<subseteq> set (mx_offline m) \<and>
   list_all (\<lambda>e. buffer_ok (snd e)) (mx_buffers m) \<and>
   list_all (\<lambda>e. length (snd e) \<le> 128) (mx_flushed m) \<and>
   {ch. fst (routeFrom ch sync m) \<noteq> None} \<subseteq> ran (map_of (mx_channels m))"
proof -
  have ok: "mux_ok (mux_run ops (new_mux outcome))" by (intro mux_run_ok mux_ok_new)
  have "{ch. fst (routeFrom ch sync m) \<noteq> None} \<subseteq> ran (map_of (mx_channels m))" for m
    by (auto simp: routeFrom_def Let_def ran_def split: option.splits if_splits)
  with ok show ?thesis
    by (simp add: mux_ok_def registry_ok_def presence_ok_def buffers_ok_def flushed_ok_def Let_def)
qed

subsection \<open>An owner that was away\<close>

text \<open>
  From the report that owner \<open>p\<close> is offline: every broadcast is missed, every end of a
  turn seals what was missed during it, and nothing is sent on its channel.
\<close>

fun event_op :: "offline_event \<Rightarrow> mux_op" where
  "event_op (Missed msg) = MuxBroadcast msg"
| "event_op TurnDone = MuxTurnDone"

definition sent_on :: "nat \<Rightarrow> mux \<Rightarrow> js list" where
  "sent_on ch m = map snd (filter (\<lambda>e. fst e = ch) (mx_sent m))"

definition away :: "string \<Rightarrow> nat \<Rightarrow> js list \<Rightarrow> js list \<times> js list \<Rightarrow> mux \<Rightarrow> bool" where
  "away p ch before lc m \<longleftrightarrow> mux_ok m \<and> map_of (mx_channels m) p = Some ch \<and> p \<in> set (mx_offline m) \<and>
    sent_on ch m = before \<and>
    represents (case map_of (mx_buffers m) p of None \<Rightarrow> createOfflinePeerBuffer | Some b \<Rightarrow> b) lc"

lemma detach_quietly_other:
  "q \<noteq> p \<Longrightarrow> map_of (mx_channels (detach_quietly q m)) p = map_of (mx_channels m) p"
  "q \<noteq> p \<Longrightarrow> p \<in> set (mx_offline (detach_quietly q m)) \<longleftrightarrow> p \<in> set (mx_offline m)"
  "q \<noteq> p \<Longrightarrow> map_of (mx_buffers (detach_quietly q m)) p = map_of (mx_buffers m) p"
  "mx_sent (detach_quietly q m) = mx_sent m"
  by (auto simp: detach_quietly_def forget_channel_def trackReattachDrain_def Let_def split: option.splits)

lemma sent_on_append: "sent_on ch (m\<lparr>mx_sent := mx_sent m @ [(c, msg)]\<rparr>) = sent_on ch m @ (if c = ch then [msg] else [])"
  by (simp add: sent_on_def)

lemma away_other:
  assumes "away p ch before lc m" "q \<noteq> p" "c \<noteq> ch"
  shows "away p ch before lc (broadcast_one msg m (q, c))"
proof (cases "q \<in> set (mx_offline m)")
  case True
  with assms bufferOffline_ok [of m q msg] show ?thesis
    by (simp add: away_def broadcast_one_def) (simp add: bufferOfflineMessage_def sent_on_def)
next
  case False
  have "mux_ok (snd (channel_send q c msg m))" using assms by (auto simp: away_def)
  with assms False show ?thesis
    by (simp add: away_def broadcast_one_def)
      (simp add: channel_send_def Let_def detach_quietly_other sent_on_def)
qed

lemma away_self:
  assumes "away p ch before lc m"
  shows "away p ch before (offline_spec lc (Missed msg)) (broadcast_one msg m (p, ch))"
proof -
  have r: "represents (case map_of (mx_buffers m) p of None \<Rightarrow> createOfflinePeerBuffer | Some b \<Rightarrow> b) lc"
    and off: "p \<in> set (mx_offline m)" and ok: "mux_ok m"
    using assms by (simp_all add: away_def)
  from represents_event [OF r, of "Missed msg"] bufferOffline_ok [OF ok off, of msg] assms show ?thesis
    by (simp add: away_def broadcast_one_def) (simp add: bufferOfflineMessage_def sent_on_def)
qed

lemma away_others:
  "away p ch before lc m \<Longrightarrow> (\<And>e. e \<in> set es \<Longrightarrow> fst e \<noteq> p \<and> snd e \<noteq> ch) \<Longrightarrow>
    away p ch before lc (foldl (broadcast_one msg) m es)"
proof (induction es arbitrary: m)
  case (Cons e es)
  have "away p ch before lc (broadcast_one msg m (fst e, snd e))"
    using Cons.prems by (intro away_other) auto
  with Cons show ?case by simp
qed simp

lemma away_broadcast:
  assumes a: "away p ch before lc m"
  shows "away p ch before (offline_spec lc (Missed msg)) (broadcast msg m)"
proof -
  have ok: "mux_ok m" and at: "map_of (mx_channels m) p = Some ch" using a by (simp_all add: away_def)
  from at obtain xs ys where split: "mx_channels m = xs @ (p, ch) # ys"
    using map_of_SomeD split_list by metis
  have reg: "registry_ok m" and wf: "omap_wf (mx_channels m)" using ok by (simp_all add: mux_ok_def registry_ok_def)
  have others: "fst e \<noteq> p \<and> snd e \<noteq> ch" if "e \<in> set (xs @ ys)" for e
  proof -
    have e: "e \<in> set (mx_channels m)" and k: "fst e \<noteq> p" using that wf split by force+
    from e wf have "map_of (mx_channels m) (fst e) = Some (snd e)" by (intro map_of_is_SomeI) simp_all
    with k mux_inverse [OF reg, of "snd e" "fst e"] mux_inverse [OF reg, of ch p] at show ?thesis by auto
  qed
  have "away p ch before lc (foldl (broadcast_one msg) m xs)" using a others by (intro away_others) auto
  then have "away p ch before (offline_spec lc (Missed msg)) (broadcast_one msg (foldl (broadcast_one msg) m xs) (p, ch))"
    by (rule away_self)
  then have "away p ch before (offline_spec lc (Missed msg))
      (foldl (broadcast_one msg) (broadcast_one msg (foldl (broadcast_one msg) m xs) (p, ch)) ys)"
    using others by (intro away_others) auto
  then show ?thesis by (simp add: broadcast_def split)
qed

lemma away_turn_done:
  assumes "away p ch before lc m"
  shows "away p ch before (offline_spec lc TurnDone) (completeOfflineTurn m)"
proof -
  have r: "represents (case map_of (mx_buffers m) p of None \<Rightarrow> createOfflinePeerBuffer | Some b \<Rightarrow> b) lc"
    using assms by (simp add: away_def)
  have "complete_buffer createOfflinePeerBuffer = createOfflinePeerBuffer"
    by (simp add: complete_buffer_def createOfflinePeerBuffer_def)
  with represents_event [OF r, of TurnDone]
  have "represents (case map_of (mx_buffers (completeOfflineTurn m)) p of None \<Rightarrow> createOfflinePeerBuffer | Some b \<Rightarrow> b)
      (offline_spec lc TurnDone)"
    by (cases "map_of (mx_buffers m) p") (simp_all add: completeOfflineTurn_def complete_keys)
  with assms completeOfflineTurn_ok [of m] show ?thesis
    by (simp add: away_def) (simp add: completeOfflineTurn_def sent_on_def)
qed

lemma away_run: "away p ch before lc m \<Longrightarrow> away p ch before (foldl offline_spec lc es) (mux_run (map event_op es) m)"
proof (induction es arbitrary: lc m)
  case (Cons e es)
  have "away p ch before (offline_spec lc e) (mux_do (event_op e) m)"
    using Cons.prems by (cases e) (auto intro: away_broadcast away_turn_done)
  with Cons show ?case by simp
qed simp

lemma away_start:
  assumes "mux_ok m" "map_of (mx_channels m) p = Some ch" "p \<notin> set (mx_offline m)"
  shows "away p ch (sent_on ch m) ([], []) (snd (markPeerOffline p since m))"
proof -
  have "map_of (mx_buffers m) p = None" using assms(1,3) mux_buffered [of m p] by (cases "map_of (mx_buffers m) p") (auto simp: mux_ok_def)
  with assms markPeerOffline_ok [OF assms(1), of p since] show ?thesis
    by (simp add: away_def represents_new) (simp add: markPeerOffline_def emitFanoutPresenceChanged_def sent_on_def represents_new)
qed

lemma remember_frame [simp]:
  "mx_channels (rememberFlushedCompaction p msg m) = mx_channels m" "mx_offline (rememberFlushedCompaction p msg m) = mx_offline m"
  "mx_buffers (rememberFlushedCompaction p msg m) = mx_buffers m" "mx_sent (rememberFlushedCompaction p msg m) = mx_sent m"
  "mx_outcome (rememberFlushedCompaction p msg m) = mx_outcome m"
  by (simp_all add: rememberFlushedCompaction_def Let_def)

lemma take_next_held: "takeNextBufferedMessage b = (case held b of [] \<Rightarrow> None | msg # _ \<Rightarrow> Some (msg, snd (the (takeNextBufferedMessage b))))"
  and take_next_rest: "takeNextBufferedMessage b = Some (msg, b') \<Longrightarrow> held b = msg # held b'"
  by (auto simp: takeNextBufferedMessage_def held_def split: list.splits)

text \<open>How many of the next \<open>k\<close> sends go by before one makes its channel give up.\<close>

definition accepted :: "mux \<Rightarrow> nat \<Rightarrow> nat" where
  "accepted m k = length (takeWhile (\<lambda>n. mx_outcome m n \<noteq> SendDisconnected) [length (mx_sent m) ..< length (mx_sent m) + k])"

lemma accepted_simps [simp]:
  "accepted m 0 = 0"
  "accepted m (Suc k) = (if mx_outcome m (length (mx_sent m)) = SendDisconnected then 0
     else Suc (length (takeWhile (\<lambda>n. mx_outcome m n \<noteq> SendDisconnected) [Suc (length (mx_sent m)) ..< Suc (length (mx_sent m)) + k])))"
  by (simp_all add: accepted_def upt_conv_Cons del: upt_Suc)

lemma accepted_le: "accepted m k \<le> k"
  using length_takeWhile_le [of "\<lambda>n. mx_outcome m n \<noteq> SendDisconnected" "[length (mx_sent m) ..< length (mx_sent m) + k]"]
  by (simp add: accepted_def)

lemma forgotten: "map_of (mx_channels m) p = Some ch \<Longrightarrow>
    map_of (mx_channels (detach_quietly p m)) p = None \<and> p \<notin> set (mx_offline (detach_quietly p m)) \<and> mx_sent (detach_quietly p m) = mx_sent m"
  by (simp add: detach_quietly_def forget_channel_def trackReattachDrain_def Let_def)

lemma flush_stops: "map_of (mx_channels m) p = None \<Longrightarrow> flush_loop p ch b m = m"
  by (simp add: flush_loop.simps split: option.split)

text \<open>The flush gives the channel what the buffer holds, up to the message the channel gives up on.\<close>

lemma flush_all:
  assumes "map_of (mx_channels m) p = Some ch" "p \<in> set (mx_offline m)" "omap_has (mx_buffers m) p"
  shows "sent_on ch (flush_loop p ch b m) = sent_on ch m @ take (Suc (accepted m (length (held b)))) (held b) \<and>
    (if accepted m (length (held b)) < length (held b)
     then map_of (mx_channels (flush_loop p ch b m)) p = None \<and> p \<notin> set (mx_offline (flush_loop p ch b m))
     else mx_channels (flush_loop p ch b m) = mx_channels m \<and> mx_offline (flush_loop p ch b m) = mx_offline m)"
  using assms
proof (induction p ch b m rule: flush_loop.induct)
  case (1 p ch b m)
  show ?case
  proof (cases "takeNextBufferedMessage b")
    case None
    then have "held b = []" using take_next_held [of b] by (auto split: list.splits)
    with None show ?thesis by (simp add: flush_loop.simps)
  next
    case (Some e)
    obtain msg b' where e: "e = (msg, b')" by fastforce
    have held: "held b = msg # held b'" using take_next_rest [OF Some [unfolded e]] .
    let ?o = "mx_outcome m (length (mx_sent m))" and ?m1 = "m\<lparr>mx_sent := mx_sent m @ [(ch, msg)]\<rparr>"
    show ?thesis
    proof (cases "?o = SendDisconnected")
      case True
      let ?m2 = "rememberFlushedCompaction p msg (detach_quietly p ?m1)"
      note gone = forgotten [of ?m1 p ch, simplified, OF 1(2)]
      have "flush_loop p ch b m = flush_loop p ch b' ?m2"
        using Some e True 1(2-4) by (subst flush_loop.simps) (simp add: channel_send_def)
      also have "\<dots> = ?m2" by (rule flush_stops) (use gone in simp)
      finally show ?thesis using True gone by (simp add: held sent_on_def)
    next
      case False
      let ?m2 = "if ?o = SendThrew then ?m1 else rememberFlushedCompaction p msg ?m1"
      have send: "channel_send p ch msg m = (?o, ?m1)" using False by (simp add: channel_send_def Let_def)
      have loop: "flush_loop p ch b m = flush_loop p ch b' ?m2"
        using Some e send 1(2-4) by (subst flush_loop.simps) simp
      have same: "mx_sent ?m2 = mx_sent m @ [(ch, msg)]" "mx_outcome ?m2 = mx_outcome m" "mx_offline ?m2 = mx_offline m"
        "mx_channels ?m2 = mx_channels m" by simp_all
      have acc: "accepted m (length (held b)) = Suc (accepted ?m2 (length (held b')))"
        using False unfolding accepted_def same held by (simp add: upt_conv_Cons del: upt_Suc)
      note IH = 1(1) [OF Some e [symmetric] _ send [symmetric] refl refl]
      have "sent_on ch (flush_loop p ch b' ?m2) = sent_on ch ?m2 @ take (Suc (accepted ?m2 (length (held b')))) (held b') \<and>
        (if accepted ?m2 (length (held b')) < length (held b')
         then map_of (mx_channels (flush_loop p ch b' ?m2)) p = None \<and> p \<notin> set (mx_offline (flush_loop p ch b' ?m2))
         else mx_channels (flush_loop p ch b' ?m2) = mx_channels ?m2 \<and> mx_offline (flush_loop p ch b' ?m2) = mx_offline ?m2)"
        by (rule IH) (use 1(2-4) in \<open>auto split: if_splits\<close>)
      moreover have "sent_on ch ?m2 = sent_on ch m @ [msg]" by (simp add: sent_on_def)
      ultimately show ?thesis unfolding loop acc same by (simp add: held split: if_splits)
    qed
  qed
qed

text \<open>
  C34. An owner that comes back receives what it missed by whole turns: from the moment
  the relay reports it offline, whatever is broadcast and whichever turns end meanwhile,
  nothing is sent on its channel; and when it is reported online again the channel is
  given, in order and once each, the messages of the last finished turn and of the
  open one, or only the open one's when both do not fit in 2048 messages and 8 MiB, or
  none when the open one alone does not. The owner is then online, unless the channel gives up
  on one of them (as a secure channel does on the 513th it is given at once, \<open>long_flush_disconnects\<close>):
  then it has been given that one and those before it, in order, the rest is dropped and the
  owner is no longer attached.
\<close>

theorem offline_owner_catches_up:
  assumes "m0 = mux_run ops (new_mux outcome)" "map_of (mx_channels m0) p = Some ch" "p \<notin> set (mx_offline m0)"
    "m1 = mux_run (map event_op es) (snd (markPeerOffline p since m0))"
    "missed = kept (foldl offline_spec ([], []) es)" "m2 = snd (markPeerOnline p m1)"
  shows "sent_on ch m1 = sent_on ch m0 \<and> p \<notin> set (mx_offline m2) \<and>
    (if \<forall>n \<in> {length (mx_sent m1) ..< length (mx_sent m1) + length missed}. mx_outcome m1 n \<noteq> SendDisconnected
     then sent_on ch m2 = sent_on ch m0 @ missed \<and> map_of (mx_channels m2) p = Some ch
     else sent_on ch m2 = sent_on ch m0 @ take (Suc (accepted m1 (length missed))) missed \<and> map_of (mx_channels m2) p = None)"
proof -
  have "mux_ok m0" unfolding assms(1) by (intro mux_run_ok mux_ok_new)
  then have a: "away p ch (sent_on ch m0) (foldl offline_spec ([], []) es) m1"
    unfolding assms(4) by (intro away_run away_start assms(2,3))
  have at: "map_of (mx_channels m1) p = Some ch" "p \<in> set (mx_offline m1)" "sent_on ch m1 = sent_on ch m0"
    and r: "represents (case map_of (mx_buffers m1) p of None \<Rightarrow> createOfflinePeerBuffer | Some b \<Rightarrow> b) (foldl offline_spec ([], []) es)"
    using a by (simp_all add: away_def)
  have all: "(\<forall>n \<in> {length (mx_sent m1) ..< length (mx_sent m1) + length missed}. mx_outcome m1 n \<noteq> SendDisconnected) \<longleftrightarrow>
      accepted m1 (length missed) = length missed"
    using takeWhile_eq_all_conv [of "\<lambda>n. mx_outcome m1 n \<noteq> SendDisconnected" "[length (mx_sent m1) ..< length (mx_sent m1) + length missed]"]
      takeWhile_eq_take [of "\<lambda>n. mx_outcome m1 n \<noteq> SendDisconnected" "[length (mx_sent m1) ..< length (mx_sent m1) + length missed]"]
    by (metis accepted_def atLeastLessThan_upt diff_add_inverse length_upt take_all_iff order_refl)
  show ?thesis
  proof (cases "map_of (mx_buffers m1) p")
    case None
    with r have "missed = []"
      using represents_held [of createOfflinePeerBuffer] by (simp add: held_def createOfflinePeerBuffer_def assms(5))
    with None at show ?thesis
      by (simp add: assms(6) markPeerOnline_def emitFanoutPresenceChanged_def Let_def) (simp add: sent_on_def)
  next
    case (Some b)
    with r have h: "held b = missed" by (simp add: represents_held assms(5))
    let ?f = "flush_loop p ch b m1"
    have f: "sent_on ch ?f = sent_on ch m0 @ take (Suc (accepted m1 (length missed))) missed"
      "if accepted m1 (length missed) < length missed then map_of (mx_channels ?f) p = None \<and> p \<notin> set (mx_offline ?f)
       else mx_channels ?f = mx_channels m1 \<and> mx_offline ?f = mx_offline m1"
      using flush_all [of m1 p ch b] at Some unfolding h by auto
    have m2: "sent_on ch m2 = sent_on ch ?f" "mx_channels m2 = mx_channels ?f" "p \<notin> set (mx_offline m2)"
      using Some at by (simp_all add: assms(6) markPeerOnline_def emitFanoutPresenceChanged_def sent_on_def Let_def)
    show ?thesis
    proof (cases "accepted m1 (length missed) = length missed")
      case True
      with f at m2 show ?thesis unfolding all by simp
    next
      case False
      with accepted_le [of m1 "length missed"] f at m2 show ?thesis unfolding all by simp
    qed
  qed
qed

definition sample_mux :: mux where
  "sample_mux = mux_run [MuxAttach ''o'' True False 7] (new_mux (\<lambda>_. SendOk))"

lemma sample_mux_simps:
  "map_of (mx_channels sample_mux) ''o'' = Some 0" "mx_offline sample_mux = []" "mx_outcome sample_mux = (\<lambda>_. SendOk)"
  "mx_channels sample_mux = [(''o'', 0)]" "mx_buffers sample_mux = []" "mx_sent sample_mux = []"
  by (simp_all add: sample_mux_def attachPeer_def detachPeer_def new_mux_def Let_def)

theorem offline_owner_catches_up_witness:
  "let m1 = mux_run (map event_op [Missed (Bool True), TurnDone, Missed (Bool False)]) (snd (markPeerOffline ''o'' None sample_mux)) in
   sent_on 0 (snd (markPeerOnline ''o'' m1)) = [Bool True, Bool False]"
proof -
  let ?es = "[Missed (Bool True), TurnDone, Missed (Bool False)]"
  let ?m1 = "mux_run (map event_op ?es) (snd (markPeerOffline ''o'' None sample_mux))"
  have "mx_outcome ?m1 = (\<lambda>_. SendOk)"
    by (simp add: markPeerOffline_def emitFanoutPresenceChanged_def broadcast_def completeOfflineTurn_def broadcast_one_def
        bufferOfflineMessage_def sample_mux_simps Let_def)
  then have "sent_on 0 (snd (markPeerOnline ''o'' ?m1)) = sent_on 0 sample_mux @ kept (foldl offline_spec ([], []) ?es)"
    using offline_owner_catches_up [OF sample_mux_def _ _ refl refl refl, of "''o''" 0 None ?es] by (simp add: sample_mux_simps)
  moreover have "sent_on 0 sample_mux = []" by (simp add: sent_on_def sample_mux_simps)
  moreover have "kept (foldl offline_spec ([], []) ?es) = [Bool True, Bool False]"
    by (simp add: kept_def fits_def serializedMessageBytes_def OFFLINE_BUFFER_MAX_FRAMES_def OFFLINE_BUFFER_MAX_BYTES_def)
      (simp add: utf8_def utf8_encode_def utf8_char_def)
  ultimately show ?thesis by (simp add: Let_def)
qed

subsection \<open>The buffer and the channel\<close>

text \<open>
  The buffer keeps up to 2048 messages, but a secure channel takes only 512 before it has
  written one: it reserves its sequences later, and \<open>markPeerOnline\<close> hands it the whole
  buffer at once. A longer flush makes the channel disconnect.
\<close>

lemma send_counts:
  assumes "\<not> ch_detached (send_message msg c)" "ch_notified c \<longrightarrow> ch_detached c"
  shows "\<not> ch_detached c \<and> \<not> ch_notified (send_message msg c) \<and>
    ch_out_frames (send_message msg c) = ch_out_frames c + 1 \<and> ch_out_frames c < MAX_PENDING_OWNER_OUTBOUND_FRAMES"
  using assms by (auto simp: send_message_def Let_def disconnect_def OwnerChannel.detach_def audit_def split: if_splits)

lemma sends_count:
  "\<not> ch_detached (fold send_message msgs c) \<Longrightarrow> ch_notified c \<longrightarrow> ch_detached c \<Longrightarrow>
    \<not> ch_detached c \<and> length msgs \<le> MAX_PENDING_OWNER_OUTBOUND_FRAMES - ch_out_frames c"
proof (induction msgs arbitrary: c)
  case (Cons msg msgs)
  have "\<not> ch_detached (send_message msg c)"
  proof
    assume gone: "ch_detached (send_message msg c)"
    then have "ch_detached (fold send_message msgs (send_message msg c))"
      by (induction msgs) (auto simp: send_message_def)
    with Cons.prems show False by simp
  qed
  from send_counts [OF this Cons.prems(2)] Cons.IH [of "send_message msg c"] Cons.prems(1) show ?case by auto
qed simp

lemma long_flush_disconnects:
  "length msgs > MAX_PENDING_OWNER_OUTBOUND_FRAMES \<Longrightarrow> ch_notified c \<longrightarrow> ch_detached c \<Longrightarrow> ch_detached (fold send_message msgs c)"
  using sends_count [of msgs c] by fastforce

text \<open>
  A channel that gives up during the flush has its owner's records forgotten, and then
  the message it did not take is recorded as flushed: after a new attachment the
  history for that owner leaves the compaction out although it never arrived.
\<close>

lemma undelivered_compaction_left_out:
  "let compaction = Obj [(''type'', Str ''compaction''), (''ts'', Num 5), (''session_id'', Str ''s'')];
       m = mux_run [MuxAttach ''o'' True False 7, MuxOffline ''o'' None, MuxBroadcast compaction, MuxOnline ''o'', MuxAttach ''o'' True False 7]
             (new_mux (\<lambda>_. SendDisconnected)) in
   arbitrateSessionHistory 1 (Str ''s'') [compaction] m = []"
proof -
  define compaction where "compaction = Obj [(''type'', Str ''compaction''), (''ts'', Num 5), (''session_id'', Str ''s'')]"
  have c: "is_compaction compaction" "jfield compaction ''ts'' = Num 5" "jfield compaction ''session_id'' = Str ''s''" "compaction \<noteq> Undef"
    by (simp_all add: compaction_def is_compaction_def)
  let ?out = "\<lambda>_. SendDisconnected"
  define m1 where "m1 = mux_run [MuxAttach ''o'' True False 7, MuxOffline ''o'' None, MuxBroadcast compaction] (new_mux ?out)"
  have "length (utf8 (stringify compaction)) \<le> 100" unfolding compaction_def by code_simp
  with c(4) obtain n where n: "serializedMessageBytes compaction = Some n" "n \<le> 100" by (simp add: serializedMessageBytes_def)
  from n have at1: "mx_channels m1 = [(''o'', 0)] \<and> mx_offline m1 = [''o''] \<and>
      mx_buffers m1 = [(''o'', \<lparr>ob_completed = [], ob_completedBytes = 0, ob_current = [(compaction, n)], ob_currentBytes = n, ob_overflowed = False\<rparr>)]
     \<and> mx_sent m1 = [] \<and> mx_outcome m1 = ?out \<and> mx_next m1 = 1 \<and> mx_flushed m1 = []"
    by (simp add: m1_def attachPeer_def detachPeer_def new_mux_def Let_def markPeerOffline_def emitFanoutPresenceChanged_def broadcast_def
      broadcast_one_def bufferOfflineMessage_def buffer_message_def createOfflinePeerBuffer_def OFFLINE_BUFFER_MAX_FRAMES_def OFFLINE_BUFFER_MAX_BYTES_def)
  let ?m2 = "snd (markPeerOnline ''o'' m1)"
  have five: "int_text 5 = ''5''" by code_simp
  have flushed: "flush_loop ''o'' 0 \<lparr>ob_completed = [], ob_completedBytes = 0, ob_current = [(compaction, n)], ob_currentBytes = n, ob_overflowed = False\<rparr> m =
      rememberFlushedCompaction ''o'' compaction (snd (channel_send ''o'' 0 compaction m))"
    if "mx_channels m = [(''o'', 0)]" "mx_offline m = [''o'']" "omap_has (mx_buffers m) ''o''" "mx_outcome m = ?out" for m
    using that by (simp add: flush_loop.simps takeNextBufferedMessage_def channel_send_def Let_def)
  have m2: "mx_channels ?m2 = [] \<and> mx_flushed ?m2 = [(''o'', [''s:5''])] \<and> mx_next ?m2 = 1"
    using at1 c five unfolding markPeerOnline_def
    by (simp add: flushed Let_def channel_send_def detach_quietly_def forget_channel_def trackReattachDrain_def
        rememberFlushedCompaction_def compaction_key_def oset_add_def FLUSHED_COMPACTION_KEYS_MAX_PER_PEER_def emitFanoutPresenceChanged_def)
  have "arbitrateSessionHistory 1 (Str ''s'') [compaction] (snd (attachPeer ''o'' True False 7 ?m2)) = []"
    using m2 c five by (simp add: arbitrateSessionHistory_def attachPeer_def detachPeer_def Let_def compaction_key_def emitFanoutPresenceChanged_def)
  then show ?thesis by (simp add: Let_def compaction_def m1_def)
qed

end
