(* ===== verification/Pairing.thy ===== *)
theory Pairing imports OwnerMultiplexer RelayIngress
begin

text \<open>
  Pairing: the one active QR token (\<open>pairing/qr.ts\<close>, class \<open>QRSession\<close>) and what the
  owner multiplexer does with a frame of an owner that has no channel
  (\<open>extension/owner_multiplexer.ts\<close>: \<open>handleOuterFrame\<close>, \<open>handlePairRequest\<close>).

  The hashes, the signatures and the key exchange are the fields of a \<open>pair_crypto\<close>; a
  signature check or a key exchange that throws gives \<open>None\<close>. The handler awaits the
  roster, so it is cut there: \<open>pair_begin\<close> runs to the write, \<open>pair_persist\<close> is the
  write, \<open>pair_finish\<close> what follows it, and anything may happen in between. The
  listeners told of an attachment are left out.
\<close>

subsection \<open>The active token\<close>

record active_token =
  at_token :: string
  at_tokenId :: bytes
  at_expiresAt :: int
  at_consumed :: bool

type_synonym qr_session = "active_token option"

definition TOKEN_TTL_MS :: int where "TOKEN_TTL_MS = 60000"
definition PAIR_TTL_MIN_MS :: int where "PAIR_TTL_MIN_MS = 10000"
definition PAIR_TTL_MAX_MS :: int where "PAIR_TTL_MAX_MS = 600000"
definition PAIR_TOKEN_LOCATOR_BYTES :: nat where "PAIR_TOKEN_LOCATOR_BYTES = 16"

definition clampPairTtlMs :: "js \<Rightarrow> int" where
  "clampPairTtlMs ttl = (case ttl of Num n \<Rightarrow> min PAIR_TTL_MAX_MS (max PAIR_TTL_MIN_MS n) | _ \<Rightarrow> TOKEN_TTL_MS)"

definition issueToken :: "(bytes \<Rightarrow> bytes) \<Rightarrow> bytes \<Rightarrow> int \<Rightarrow> int \<Rightarrow> qr_session \<Rightarrow> (string \<times> int) \<times> qr_session" where
  "issueToken sha rand ttlMs now q =
    (let token = base64url rand; expiresAt = now + ttlMs in
     ((token, expiresAt), Some \<lparr>at_token = token, at_tokenId = pairTokenId sha token, at_expiresAt = expiresAt, at_consumed = False\<rparr>))"

definition findTokenById :: "bytes \<Rightarrow> qr_session \<Rightarrow> string option" where
  "findTokenById tokenId q =
    (if length tokenId \<noteq> PAIR_TOKEN_LOCATOR_BYTES then None
     else case q of
       None \<Rightarrow> None
     | Some a \<Rightarrow> (if tokenId = at_tokenId a then Some (at_token a) else None))"

datatype token_status = TokenOk | TokenExpired | TokenConsumed | TokenUnknown

definition consumeToken :: "string \<Rightarrow> int \<Rightarrow> qr_session \<Rightarrow> token_status \<times> qr_session" where
  "consumeToken token now q = (case q of
     None \<Rightarrow> (TokenUnknown, q)
   | Some a \<Rightarrow>
      (if at_token a \<noteq> token then (TokenUnknown, q)
       else if at_consumed a then (TokenConsumed, q)
       else if now > at_expiresAt a then (TokenExpired, q)
       else (TokenOk, Some (a\<lparr>at_consumed := True\<rparr>))))"

definition clear_session :: "qr_session \<Rightarrow> qr_session" where
  "clear_session q = None"

subsection \<open>Requests and replies\<close>

definition isPairRequestMessage :: "js \<Rightarrow> bool" where
  "isPairRequestMessage m \<longleftrightarrow>
    jfield m ''type'' = Str ''pair_request'' \<and> is_string (jfield m ''id'') \<and> is_string (jfield m ''device_name'')"

definition decodeCanonicalBase64 :: "js \<Rightarrow> nat \<Rightarrow> bytes option" where
  "decodeCanonicalBase64 v n = (case v of
     Str s \<Rightarrow> (let decoded = base64_decode s in if length decoded \<noteq> n \<or> base64_encode decoded \<noteq> s then None else Some decoded)
   | _ \<Rightarrow> None)"

definition pair_error_for :: "token_status \<Rightarrow> string \<times> string" where
  "pair_error_for st = (case st of
     TokenExpired \<Rightarrow> (''token_expired'', ''Ephemeral token expired. Generate a new QR with /outpost-pi pair.'')
   | TokenConsumed \<Rightarrow> (''token_consumed'', ''Token already consumed by another pair_request.'')
   | _ \<Rightarrow> (''token_unknown'', ''Token was not issued by this Pi.''))"

definition pair_error :: "js \<Rightarrow> string \<times> string \<Rightarrow> js" where
  "pair_error inner e = Obj [(''type'', Str ''pair_error''), (''in_reply_to'', jfield inner ''id''),
     (''code'', Str (fst e)), (''message'', Str (snd e))]"

record pair_crypto =
  pc_sha :: "bytes \<Rightarrow> bytes"
  pc_hmac :: "bytes \<Rightarrow> bytes \<Rightarrow> bytes"
  pc_verify :: "bytes \<Rightarrow> bytes \<Rightarrow> bytes \<Rightarrow> bool option"
  pc_sign :: "bytes \<Rightarrow> bytes \<Rightarrow> bytes"
  pc_dh :: "bytes \<Rightarrow> bytes \<Rightarrow> bytes option"
  pc_hkdf :: kdf

record keypair =
  kp_public :: bytes
  kp_secret :: bytes

record pairing_session =
  ps_sessionName :: js
  ps_sessionStartedAt :: js
  ps_sessionId :: js
  ps_roomId :: js
  ps_harness :: "js option"
  ps_hostname :: "string option"

definition pair_ok :: "js \<Rightarrow> pairing_session \<Rightarrow> bytes \<Rightarrow> bytes \<Rightarrow> js" where
  "pair_ok inner s piDhPk piDhSig =
    (let hostname = (case ps_hostname s of Some t \<Rightarrow> (if t = '''' then [] else [(''hostname'', Str t)]) | None \<Rightarrow> []) in
     Obj ([(''type'', Str ''pair_ok''), (''in_reply_to'', jfield inner ''id''), (''session_name'', ps_sessionName s),
       (''session_started_at'', ps_sessionStartedAt s), (''session_id'', ps_sessionId s), (''room_id'', ps_roomId s)] @
      (case ps_harness s of Some h \<Rightarrow> [(''harness'', h)] | None \<Rightarrow> []) @ hostname @
      [(''dh_pk'', Str (base64_encode piDhPk)), (''dh_sig'', Str (base64_encode piDhSig))]))"

subsection \<open>A pairing request\<close>

record pairing_world =
  pw_qr :: qr_session
  pw_file :: peers_file
  pw_mux :: mux
  pw_sent :: "(string \<times> js) list"
  pw_audit :: "string list"

definition sendToPeer :: "string \<Rightarrow> js \<Rightarrow> pairing_world \<Rightarrow> pairing_world" where
  "sendToPeer p m w = w\<lparr>pw_sent := pw_sent w @ [(p, m)]\<rparr>"

definition UNKNOWN_PAIR_TOKEN_DUMMY :: string where "UNKNOWN_PAIR_TOKEN_DUMMY = ''AAAAAAAAAAAAAAAAAAAAAA''"
definition INVALID_PAIR_KEY_DUMMY :: bytes where "INVALID_PAIR_KEY_DUMMY = replicate 32 0"

abbreviation proof_error :: "string \<times> string" where
  "proof_error \<equiv> (''token_unknown'', ''Pairing token proof is missing or invalid.'')"

abbreviation signature_error :: "string \<times> string" where
  "signature_error \<equiv> (''bad_dh_sig'', ''Invalid or missing owner channel key signature.'')"

text \<open>The two proofs, before any token is consumed: the token, the owner's key and the app's share.\<close>

definition pair_proofs ::
    "pair_crypto \<Rightarrow> keypair option \<Rightarrow> string \<Rightarrow> js \<Rightarrow> qr_session \<Rightarrow> (string \<times> string) + (string \<times> bytes \<times> bytes)" where
  "pair_proofs pc identity peerId inner q =
    (case (decodeCanonicalBase64 (jfield inner ''token_id'') 16, decodeCanonicalBase64 (jfield inner ''pair_mac'') 32) of
       (Some tokenId, Some pairMac) \<Rightarrow>
         (case identity of
            None \<Rightarrow> Inl signature_error
          | Some kp \<Rightarrow>
             let ownerEdPk = decodeCanonicalBase64 (Str peerId) 32;
                 appDhPk = decodeCanonicalBase64 (jfield inner ''dh_pk'') 32;
                 token = findTokenById tokenId q;
                 proofValid = verifyPairMac (pc_hmac pc) (case token of Some t \<Rightarrow> t | None \<Rightarrow> UNKNOWN_PAIR_TOKEN_DUMMY) tokenId
                   (case ownerEdPk of Some k \<Rightarrow> k | None \<Rightarrow> INVALID_PAIR_KEY_DUMMY)
                   (case appDhPk of Some k \<Rightarrow> k | None \<Rightarrow> INVALID_PAIR_KEY_DUMMY) (kp_public kp) pairMac in
             case (token, ownerEdPk, appDhPk) of
               (Some t, Some owner, Some app) \<Rightarrow>
                 (if t = '''' \<or> \<not> proofValid then Inl proof_error
                  else case decodeCanonicalBase64 (jfield inner ''dh_sig'') 64 of
                    None \<Rightarrow> Inl signature_error
                  | Some appDhSig \<Rightarrow>
                     (if pc_verify pc owner (appTranscript t app (kp_public kp)) appDhSig = Some True
                      then Inr (t, owner, app) else Inl signature_error))
             | _ \<Rightarrow> Inl proof_error)
     | _ \<Rightarrow> Inl proof_error)"

record pending_pair =
  pp_peer :: string
  pp_inner :: js
  pp_record :: peer_record
  pp_dhPk :: bytes
  pp_dhSig :: bytes

text \<open>The keys and the record to persist; \<open>None\<close> when a step throws.\<close>

definition pair_record ::
    "pair_crypto \<Rightarrow> keypair \<Rightarrow> keypair \<Rightarrow> string \<Rightarrow> string \<Rightarrow> js \<Rightarrow> string \<times> bytes \<times> bytes \<Rightarrow> pending_pair option" where
  "pair_record pc identity piDh pairedAt peerId inner prs =
    (case prs of (token, ownerEdPk, appDhPk) \<Rightarrow>
      (case x25519Shared (pc_dh pc) (kp_secret piDh) appDhPk of
         None \<Rightarrow> None
       | Some shared \<Rightarrow>
          (case deriveDirectionalKeys (pc_hkdf pc) shared token PiSide of
             None \<Rightarrow> None
           | Some keys \<Rightarrow>
              (case encodePeerChannelKeys (key_send keys) (key_recv keys) of
                 None \<Rightarrow> None
               | Some channelKey \<Rightarrow>
                  Some \<lparr>pp_peer = peerId, pp_inner = inner,
                    pp_record = \<lparr>pr_name = (case jfield inner ''device_name'' of Str n \<Rightarrow> n | _ \<Rightarrow> ''''), remote_epk = peerId, paired_at = pairedAt,
                      channel_key = Some channelKey, send_seq = Some ''0'', recv_seq = Some ''0''\<rparr>,
                    pp_dhPk = kp_public piDh,
                    pp_dhSig = pc_sign pc (kp_secret identity) (piTranscript token appDhPk (kp_public piDh) ownerEdPk)\<rparr>))))"

definition pair_begin ::
    "pair_crypto \<Rightarrow> keypair option \<Rightarrow> keypair \<Rightarrow> string \<Rightarrow> int \<Rightarrow> string \<Rightarrow> js \<Rightarrow> pairing_world \<Rightarrow> pending_pair option \<times> pairing_world" where
  "pair_begin pc identity piDh pairedAt now peerId inner w =
    (case pair_proofs pc identity peerId inner (pw_qr w) of
       Inl e \<Rightarrow> (None, sendToPeer peerId (pair_error inner e) w)
     | Inr prs \<Rightarrow>
        (let (st, q) = consumeToken (fst prs) now (pw_qr w); w1 = w\<lparr>pw_qr := q\<rparr> in
         if st \<noteq> TokenOk then (None, sendToPeer peerId (pair_error inner (pair_error_for st)) w1)
         else case identity of
           None \<Rightarrow> (None, w1)
         | Some kp \<Rightarrow>
            (case pair_record pc kp piDh pairedAt peerId inner prs of
               None \<Rightarrow> (None, sendToPeer peerId (pair_error inner (''internal_error'', ''Pairing could not be completed.'')) w1)
             | Some pp \<Rightarrow> (Some pp, w1))))"

definition pair_persist :: "bool \<Rightarrow> bool \<Rightarrow> pending_pair \<Rightarrow> pairing_world \<Rightarrow> bool \<times> pairing_world" where
  "pair_persist r wr pp w =
    (let (res, f) = addPeer r wr (pp_record pp) (pw_file w) in
     (case res of Inr _ \<Rightarrow> True | Inl _ \<Rightarrow> False, w\<lparr>pw_file := f\<rparr>))"

definition attach_channel :: "bool \<Rightarrow> peer_record \<Rightarrow> bool \<Rightarrow> nat \<Rightarrow> pairing_world \<Rightarrow> nat option \<times> pairing_world" where
  "attach_channel connected p turnActive router w =
    (let (ch, m) = attachPeer (remote_epk p) (connected \<and> createPeerChannel p \<noteq> None) turnActive router (pw_mux w) in
     (ch, w\<lparr>pw_mux := m\<rparr>))"

definition pair_finish ::
    "bool \<Rightarrow> bool \<Rightarrow> bool \<Rightarrow> pairing_session \<Rightarrow> bool \<Rightarrow> nat \<Rightarrow> pending_pair \<Rightarrow> pairing_world \<Rightarrow> pairing_world" where
  "pair_finish persisted current connected session turnActive router pp w =
    (if \<not> persisted then
       (if current then sendToPeer (pp_peer pp) (pair_error (pp_inner pp) (''internal_error'', ''Pairing could not be completed.'')) w else w)
     else if \<not> current then w
     else snd (attach_channel connected (pp_record pp) turnActive router
       (sendToPeer (pp_peer pp) (pair_ok (pp_inner pp) session (pp_dhPk pp) (pp_dhSig pp)) w)))"

subsection \<open>A frame of an owner without a channel\<close>

text \<open>
  \<open>handleOuterFrame\<close> in its parts: what it decides at once, what it does when the gate it
  waited for opens, and what it does with the record it looked up. \<open>OuterPair\<close> goes on
  with \<open>handlePairRequest\<close>; a \<open>OuterDone b\<close> returns \<open>b\<close>.
\<close>

datatype outer_step = OuterDone bool | OuterPair js | OuterWait | OuterLookup

definition outer_gate :: "string \<Rightarrow> pairing_world \<Rightarrow> outer_step" where
  "outer_gate p w = (if omap_has (mx_gates (pw_mux w)) p then OuterWait else OuterLookup)"

definition outer_begin :: "bool \<Rightarrow> string \<Rightarrow> string \<Rightarrow> pairing_world \<Rightarrow> outer_step" where
  "outer_begin current p payload w =
    (if \<not> current then OuterDone False
     else case decodeRelayClientPayload payload of
       Some inner \<Rightarrow>
         (if jfield inner ''type'' = Str ''pair_request''
          then (if isPairRequestMessage inner then OuterPair inner else OuterDone False)
          else if omap_has (mx_channels (pw_mux w)) p then OuterDone False else outer_gate p w)
     | None \<Rightarrow> if omap_has (mx_channels (pw_mux w)) p then OuterDone False else outer_gate p w)"

definition outer_waited :: "bool \<Rightarrow> string \<Rightarrow> pairing_world \<Rightarrow> outer_step" where
  "outer_waited current p w =
    (if \<not> current \<or> omap_has (mx_channels (pw_mux w)) p then OuterDone False else outer_gate p w)"

definition outer_known ::
    "bool \<Rightarrow> bool \<Rightarrow> bool \<Rightarrow> nat \<Rightarrow> js \<Rightarrow> string \<Rightarrow> string \<Rightarrow> peer_record option \<Rightarrow> pairing_world \<Rightarrow> pairing_world" where
  "outer_known current connected turnActive router unknown_error p payload known w =
    (if \<not> current \<or> omap_has (mx_channels (pw_mux w)) p then w
     else case known of
       Some rec \<Rightarrow>
         (if channel_key rec = None \<or> channel_key rec = Some '''' then w\<lparr>pw_audit := pw_audit w @ [p]\<rparr>
          else snd (attach_channel connected rec turnActive router w))
     | None \<Rightarrow> (if decodeRelayClientPayload payload \<noteq> None then sendToPeer p unknown_error w else w))"

text \<open>What \<open>findKnownPeer\<close> looks up.\<close>

definition findKnownPeer :: "bool \<Rightarrow> string \<Rightarrow> peers_file \<Rightarrow> peer_record option" where
  "findKnownPeer r p f = find_peer p (readPeersFile r f)"

subsection \<open>Pairing needs both proofs\<close>

lemma canonical_encoded: "decodeCanonicalBase64 v n = Some bs \<longleftrightarrow> v = Str (base64_encode bs) \<and> length bs = n"
proof
  assume d: "decodeCanonicalBase64 v n = Some bs"
  then obtain t where v: "v = Str t" by (cases v) (simp_all add: decodeCanonicalBase64_def)
  with d have "base64_decode t = bs" "length (base64_decode t) = n" "base64_encode (base64_decode t) = t"
    by (simp_all add: decodeCanonicalBase64_def Let_def split: if_split_asm)
  with v show "v = Str (base64_encode bs) \<and> length bs = n" by metis
next
  assume "v = Str (base64_encode bs) \<and> length bs = n"
  then show "decodeCanonicalBase64 v n = Some bs" by (simp add: decodeCanonicalBase64_def Let_def)
qed

lemma consume_ok:
  "consumeToken t now q = (st, q') \<Longrightarrow> st = TokenOk \<Longrightarrow>
    \<exists>a. q = Some a \<and> at_token a = t \<and> \<not> at_consumed a \<and> now \<le> at_expiresAt a \<and> q' = Some (a\<lparr>at_consumed := True\<rparr>)"
  by (auto simp: consumeToken_def split: option.splits if_splits)

lemma consume_kept: "consumeToken t now q = (st, q') \<Longrightarrow> st \<noteq> TokenOk \<Longrightarrow> q' = q"
  by (auto simp: consumeToken_def split: option.splits if_splits)

lemma findTokenById_Some: "findTokenById i q = Some t \<Longrightarrow> \<exists>a. q = Some a \<and> at_token a = t \<and> at_tokenId a = i"
  by (auto simp: findTokenById_def split: option.splits if_splits)

lemma proofs_genuine:
  assumes "pair_proofs pc identity peer inner q = Inr (t, owner, app)"
  shows "\<exists>kp a mac sig m. identity = Some kp \<and> q = Some a \<and> at_token a = t \<and> peer = base64_encode owner \<and> length owner = 32 \<and>
    jfield inner ''pair_mac'' = Str (base64_encode mac) \<and> jfield inner ''dh_pk'' = Str (base64_encode app) \<and>
    jfield inner ''dh_sig'' = Str (base64_encode sig) \<and>
    pairMacMessage (at_tokenId a) owner app (kp_public kp) = Some m \<and> pc_hmac pc (utf8 t) m = mac \<and>
    pc_verify pc owner (appTranscript t app (kp_public kp)) sig = Some True"
proof -
  obtain i mac where i: "decodeCanonicalBase64 (jfield inner ''token_id'') 16 = Some i"
      "decodeCanonicalBase64 (jfield inner ''pair_mac'') 32 = Some mac"
    using assms by (auto simp: pair_proofs_def split: option.splits)
  obtain kp where kp: "identity = Some kp" using assms i by (auto simp: pair_proofs_def split: option.splits)
  from assms i kp have e: "(case (findTokenById i q, decodeCanonicalBase64 (Str peer) 32, decodeCanonicalBase64 (jfield inner ''dh_pk'') 32) of
      (Some t', Some owner', Some app') \<Rightarrow>
        (if t' = '''' \<or> \<not> verifyPairMac (pc_hmac pc) t' i owner' app' (kp_public kp) mac then Inl proof_error
         else case decodeCanonicalBase64 (jfield inner ''dh_sig'') 64 of
           None \<Rightarrow> Inl signature_error
         | Some sig \<Rightarrow> (if pc_verify pc owner' (appTranscript t' app' (kp_public kp)) sig = Some True
             then Inr (t', owner', app') else Inl signature_error))
    | _ \<Rightarrow> Inl proof_error) = Inr (t, owner, app)"
    by (simp add: pair_proofs_def Let_def split: option.split_asm)
  then have f: "findTokenById i q = Some t" and k: "decodeCanonicalBase64 (Str peer) 32 = Some owner"
      "decodeCanonicalBase64 (jfield inner ''dh_pk'') 32 = Some app"
    by (auto split: option.split_asm if_split_asm)
  from e f k have v: "verifyPairMac (pc_hmac pc) t i owner app (kp_public kp) mac"
    by (simp split: if_split_asm)
  from e f k v obtain sig where s: "decodeCanonicalBase64 (jfield inner ''dh_sig'') 64 = Some sig"
      "pc_verify pc owner (appTranscript t app (kp_public kp)) sig = Some True"
    by (simp split: if_split_asm option.split_asm)
  from findTokenById_Some [OF f] obtain a where a: "q = Some a" "at_token a = t" "at_tokenId a = i" by blast
  from v a obtain m where m: "pairMacMessage (at_tokenId a) owner app (kp_public kp) = Some m" "pc_hmac pc (utf8 t) m = mac"
    by (auto simp: verifyPairMac_iff)
  from i k s have "jfield inner ''pair_mac'' = Str (base64_encode mac)" "peer = base64_encode owner" "length owner = 32"
      "jfield inner ''dh_pk'' = Str (base64_encode app)" "jfield inner ''dh_sig'' = Str (base64_encode sig)"
    by (simp_all add: canonical_encoded)
  with kp a m s(2) show ?thesis by (intro exI conjI) assumption+
qed

lemma begin_fate:
  assumes "pair_begin pc identity piDh at now peer inner w = (pp, w')" "pp \<noteq> None \<or> pw_qr w' \<noteq> pw_qr w"
  shows "\<exists>t owner app. pair_proofs pc identity peer inner (pw_qr w) = Inr (t, owner, app) \<and>
    consumeToken t now (pw_qr w) = (TokenOk, pw_qr w')"
proof (cases "pair_proofs pc identity peer inner (pw_qr w)")
  case (Inl e)
  with assms show ?thesis by (auto simp: pair_begin_def sendToPeer_def)
next
  case (Inr prs)
  obtain t owner app where prs: "prs = (t, owner, app)" by (cases prs) auto
  obtain st q where c: "consumeToken t now (pw_qr w) = (st, q)" by fastforce
  have "st = TokenOk"
  proof (rule ccontr)
    assume "st \<noteq> TokenOk"
    with assms Inr prs c consume_kept [OF c] show False by (auto simp: pair_begin_def sendToPeer_def Let_def)
  qed
  moreover from this have "q = pw_qr w'"
    using assms(1) Inr prs c by (auto simp: pair_begin_def sendToPeer_def Let_def split: option.splits)
  ultimately show ?thesis using Inr prs c by blast
qed

lemma begin_frame:
  "pair_begin pc identity piDh at now peer inner w = (pp, w') \<Longrightarrow> pw_file w' = pw_file w \<and> pw_mux w' = pw_mux w"
  by (auto simp: pair_begin_def sendToPeer_def Let_def split: sum.splits option.splits prod.splits if_splits)

lemma begin_spent:
  assumes "pw_qr w = Some a" "at_consumed a"
  shows "fst (pair_begin pc identity piDh at now peer inner w) = None"
proof (rule ccontr)
  assume n: "fst (pair_begin pc identity piDh at now peer inner w) \<noteq> None"
  obtain pp w' where b: "pair_begin pc identity piDh at now peer inner w = (pp, w')" by fastforce
  with n begin_fate [OF b] obtain t where "consumeToken t now (pw_qr w) = (TokenOk, pw_qr w')" by auto
  from consume_ok [OF this refl] assms show False by auto
qed

text \<open>
  C35. Nobody pairs without both proofs, and a forged request costs nothing: whenever a
  request gets a pairing under way, or as much as uses up the token, the token is the
  active one, unused and not expired; the request carries its keyed proof over the
  token's locator, the owner's key, the app's share and this machine's key, and the
  owner's signature over the transcript of the same token, share and machine. The
  roster and the channels are as they were until the record is written, and no further
  request pairs with that token, whoever sends it and whatever it carries.
\<close>

theorem pairing_needs_proof:
  assumes "pair_begin pc identity piDh at now peer inner w = (pp, w')" "pp \<noteq> None \<or> pw_qr w' \<noteq> pw_qr w"
    "pw_qr w2 = pw_qr w'"
  shows "(\<exists>kp a owner app mac sig m. identity = Some kp \<and>
      pw_qr w = Some a \<and> \<not> at_consumed a \<and> now \<le> at_expiresAt a \<and> pw_qr w' = Some (a\<lparr>at_consumed := True\<rparr>) \<and>
      peer = base64_encode owner \<and> jfield inner ''pair_mac'' = Str (base64_encode mac) \<and>
      jfield inner ''dh_pk'' = Str (base64_encode app) \<and> jfield inner ''dh_sig'' = Str (base64_encode sig) \<and>
      pairMacMessage (at_tokenId a) owner app (kp_public kp) = Some m \<and> pc_hmac pc (utf8 (at_token a)) m = mac \<and>
      pc_verify pc owner (appTranscript (at_token a) app (kp_public kp)) sig = Some True) \<and>
    pw_file w' = pw_file w \<and> pw_mux w' = pw_mux w \<and>
    fst (pair_begin pc2 identity2 piDh2 at2 now2 peer2 inner2 w2) = None"
proof -
  obtain t owner app where f: "pair_proofs pc identity peer inner (pw_qr w) = Inr (t, owner, app)"
      "consumeToken t now (pw_qr w) = (TokenOk, pw_qr w')"
    using begin_fate [OF assms(1,2)] by blast
  obtain a where a: "pw_qr w = Some a" "at_token a = t" "\<not> at_consumed a" "now \<le> at_expiresAt a" "pw_qr w' = Some (a\<lparr>at_consumed := True\<rparr>)"
    using consume_ok [OF f(2) refl] by blast
  have "fst (pair_begin pc2 identity2 piDh2 at2 now2 peer2 inner2 w2) = None"
    by (rule begin_spent [of _ "a\<lparr>at_consumed := True\<rparr>"]) (simp_all add: assms(3) a)
  moreover have "pw_file w' = pw_file w \<and> pw_mux w' = pw_mux w" using assms(1) by (rule begin_frame)
  moreover obtain kp a' mac sig m where g: "identity = Some kp" "pw_qr w = Some a'" "at_token a' = t" "peer = base64_encode owner"
      "jfield inner ''pair_mac'' = Str (base64_encode mac)" "jfield inner ''dh_pk'' = Str (base64_encode app)"
      "jfield inner ''dh_sig'' = Str (base64_encode sig)" "pairMacMessage (at_tokenId a') owner app (kp_public kp) = Some m"
      "pc_hmac pc (utf8 t) m = mac" "pc_verify pc owner (appTranscript t app (kp_public kp)) sig = Some True"
    using proofs_genuine [OF f(1)] by (elim exE conjE)
  moreover have "a' = a" using g(2) a(1) by simp
  ultimately show ?thesis using a by blast
qed

subsection \<open>An honest pairing completes\<close>

text \<open>What the hashes promise: the width of what they give.\<close>

definition pair_widths :: "pair_crypto \<Rightarrow> bool" where
  "pair_widths pc \<longleftrightarrow> (\<forall>x. length (pc_sha pc x) = 32) \<and> (\<forall>k x. length (pc_hmac pc k x) = 32) \<and> (\<forall>s t i. length (pc_hkdf pc s t i) = 32)"

text \<open>The request the app sends after it has scanned the token.\<close>

definition app_request :: "pair_crypto \<Rightarrow> string \<Rightarrow> bytes \<Rightarrow> bytes \<Rightarrow> bytes \<Rightarrow> bytes \<Rightarrow> string \<Rightarrow> string \<Rightarrow> js option" where
  "app_request pc token owner app pi sig rid device =
    (let i = pairTokenId (pc_sha pc) token in
     map_option (\<lambda>mac. Obj [(''type'', Str ''pair_request''), (''id'', Str rid), (''device_name'', Str device), (''token_id'', Str (base64_encode i)),
         (''pair_mac'', Str (base64_encode mac)), (''dh_pk'', Str (base64_encode app)), (''dh_sig'', Str (base64_encode sig))])
       (computePairMac (pc_hmac pc) token i owner app pi))"

lemma app_request_proofs:
  assumes "pair_widths pc" "app_request pc token owner app (kp_public kp) sig rid device = Some inner" "token \<noteq> ''''"
    "length owner = 32" "length app = 32" "length sig = 64" "pc_verify pc owner (appTranscript token app (kp_public kp)) sig = Some True"
    "q = Some a" "at_token a = token" "at_tokenId a = pairTokenId (pc_sha pc) token"
  shows "pair_proofs pc (Some kp) (base64_encode owner) inner q = Inr (token, owner, app)"
proof -
  let ?i = "pairTokenId (pc_sha pc) token"
  have i: "length ?i = 16" using assms(1) by (simp add: pairTokenId_def pair_widths_def)
  obtain m where m: "pairMacMessage ?i owner app (kp_public kp) = Some m"
      and inner: "inner = Obj [(''type'', Str ''pair_request''), (''id'', Str rid), (''device_name'', Str device), (''token_id'', Str (base64_encode ?i)),
         (''pair_mac'', Str (base64_encode (pc_hmac pc (utf8 token) m))), (''dh_pk'', Str (base64_encode app)), (''dh_sig'', Str (base64_encode sig))]"
    using assms(2) by (auto simp: app_request_def computePairMac_def Let_def)
  have d: "decodeCanonicalBase64 (Str (base64_encode bs)) n = (if length bs = n then Some bs else None)" for bs n
    by (simp add: decodeCanonicalBase64_def Let_def)
  have f: "findTokenById ?i q = Some token" using assms(8-10) i by (simp add: findTokenById_def PAIR_TOKEN_LOCATOR_BYTES_def)
  have h: "length (pc_hmac pc (utf8 token) m) = 32" using assms(1) by (simp add: pair_widths_def)
  then have v: "verifyPairMac (pc_hmac pc) token ?i owner app (kp_public kp) (pc_hmac pc (utf8 token) m)"
    using m by (simp add: verifyPairMac_iff)
  show ?thesis
    using i h v f assms(3-7) by (simp add: pair_proofs_def inner d Let_def)
qed

lemma find_added: "addPeer True True p f = (Inr (), f') \<Longrightarrow> peer_of (remote_epk p) f' = Some p"
  using find_replace find_snoc by (auto simp: addPeer_def writePeersFile_def Let_def split: if_splits)

lemma created_channel:
  assumes "encodePeerChannelKeys (key_send keys) (key_recv keys) = Some k"
    "channel_key p = Some k" "send_seq p = Some ''0''" "recv_seq p = Some ''0''"
  shows "\<exists>c. createPeerChannel p = Some c \<and> ch_keys c = keys \<and> ch_recv_seq c = 0 \<and> ch_peer c = remote_epk p"
proof -
  have "decodePeerChannelKeys (Some k) = Some (key_send keys, key_recv keys)"
    using assms(1) by (simp add: decode_keys_iff)
  moreover have "parsePeerChannelSequence (Some ''0'') = Some 0" by (rule parse_zero)
  ultimately show ?thesis using assms(2-4) by (simp add: createPeerChannel_def)
qed

lemma honest_record:
  assumes "pair_widths pc" "x25519Shared (pc_dh pc) (kp_secret piDh) app = Some shared" "length shared = 32"
  shows "\<exists>ak pk k pp. deriveDirectionalKeys (pc_hkdf pc) shared token AppSide = Some ak \<and>
    key_send ak = key_recv pk \<and> key_recv ak = key_send pk \<and>
    length (key_send ak) = 32 \<and> encodePeerChannelKeys (key_send pk) (key_recv pk) = Some k \<and>
    pair_record pc kp piDh pairedAt peer inner (token, owner, app) = Some pp \<and> pp_peer pp = peer \<and> pp_inner pp = inner \<and>
    remote_epk (pp_record pp) = peer \<and> channel_key (pp_record pp) = Some k \<and> send_seq (pp_record pp) = Some ''0'' \<and>
    recv_seq (pp_record pp) = Some ''0'' \<and> pp_dhPk pp = kp_public piDh \<and>
    pp_dhSig pp = pc_sign pc (kp_secret kp) (piTranscript token app (kp_public piDh) owner) \<and>
    deriveDirectionalKeys (pc_hkdf pc) shared token PiSide = Some (pk :: directional_keys)"
  using assms by (simp add: pair_record_def deriveDirectionalKeys_def derive_def encodePeerChannelKeys_def pair_widths_def Let_def)

lemma attached_has: "omap_has (mx_channels (snd (attachPeer p True turnActive router m))) p"
  by (simp add: attachPeer_def emitFanoutPresenceChanged_def Let_def)

text \<open>
  C36. An honest pairing completes, and its channel works: the app answers the active
  token with its request; then the pairing gets under way, and once the record is
  written and the relay is still the same, the app is sent \<open>pair_ok\<close> with this machine's
  share, the roster has the owner's record and the owner is attached. The keys the app
  derives from the answer mirror those of the channel created from the stored record,
  so the first frame the app seals is opened by it, once.
\<close>

theorem pairing_completes:
  assumes "pair_widths pc" "aead enc dec" "token \<noteq> ''''" "length owner = 32" "length app = 32" "length sig = 64"
    "pw_qr w = Some \<lparr>at_token = token, at_tokenId = pairTokenId (pc_sha pc) token, at_expiresAt = expiry, at_consumed = False\<rparr>" "now \<le> expiry"
    "pc_verify pc owner (appTranscript token app (kp_public kp)) sig = Some True"
    "app_request pc token owner app (kp_public kp) sig rid device = Some inner"
    "x25519Shared (pc_dh pc) (kp_secret piDh) app = Some shared" "x25519Shared (pc_dh pc) appSecret (kp_public piDh) = Some shared"
    "length shared = 32" "length nonce = 24"
  shows "\<exists>pp w1 w2 w3 c ak frame.
    pair_begin pc (Some kp) piDh pairedAt now (base64_encode owner) inner w = (Some pp, w1) \<and>
    pair_persist True True pp w1 = (True, w2) \<and>
    pair_finish True True True session turnActive router pp w2 = w3 \<and>
    pw_sent w3 = pw_sent w @ [(base64_encode owner, pair_ok inner session (kp_public piDh)
      (pc_sign pc (kp_secret kp) (piTranscript token app (kp_public piDh) owner)))] \<and>
    findKnownPeer True (base64_encode owner) (pw_file w3) = Some (pp_record pp) \<and>
    omap_has (mx_channels (pw_mux w3)) (base64_encode owner) \<and>
    createPeerChannel (pp_record pp) = Some c \<and>
    deriveDirectionalKeys (pc_hkdf pc) shared token AppSide = Some ak \<and>
    key_send ak = key_recv (ch_keys c) \<and> key_recv ak = key_send (ch_keys c) \<and>
    seal enc nonce (key_send ak) 1 json = Some frame \<and>
    open_frame dec (key_recv (ch_keys c)) frame (ch_recv_seq c) = Some (1, json) \<and>
    open_frame dec (key_recv (ch_keys c)) frame 1 = None"
proof -
  let ?peer = "base64_encode owner"
  obtain ak pk k pp where r: "deriveDirectionalKeys (pc_hkdf pc) shared token AppSide = Some ak"
      "key_send ak = key_recv pk" "key_recv ak = key_send pk" "length (key_send ak) = 32"
      "encodePeerChannelKeys (key_send pk) (key_recv pk) = Some k"
      "pair_record pc kp piDh pairedAt ?peer inner (token, owner, app) = Some pp"
      "pp_peer pp = ?peer" "pp_inner pp = inner" "remote_epk (pp_record pp) = ?peer" "channel_key (pp_record pp) = Some k"
      "send_seq (pp_record pp) = Some ''0''" "recv_seq (pp_record pp) = Some ''0''" "pp_dhPk pp = kp_public piDh"
      "pp_dhSig pp = pc_sign pc (kp_secret kp) (piTranscript token app (kp_public piDh) owner)"
      "deriveDirectionalKeys (pc_hkdf pc) shared token PiSide = Some pk"
    using honest_record [OF assms(1,11,13), where token = token and kp = kp and pairedAt = pairedAt and peer = ?peer and inner = inner and owner = owner]
    by (elim exE conjE)
  obtain c where c: "createPeerChannel (pp_record pp) = Some c" "ch_keys c = pk" "ch_recv_seq c = 0"
    using created_channel [OF r(5,10-12)] by blast
  have "pair_proofs pc (Some kp) ?peer inner (pw_qr w) = Inr (token, owner, app)"
    by (rule app_request_proofs [OF assms(1,10,3-6,9,7)]) simp_all
  then obtain q where b: "pair_begin pc (Some kp) piDh pairedAt now ?peer inner w = (Some pp, w\<lparr>pw_qr := q\<rparr>)"
    using assms(7,8) r(6) by (auto simp: pair_begin_def consumeToken_def Let_def)
  obtain f where f: "addPeer True True (pp_record pp) (pw_file w) = (Inr (), f)"
    by (simp add: addPeer_def writePeersFile_def Let_def)
  then have p: "pair_persist True True pp (w\<lparr>pw_qr := q\<rparr>) = (True, w\<lparr>pw_qr := q, pw_file := f\<rparr>)"
    by (simp add: pair_persist_def)
  obtain ok m where ap: "attachPeer ?peer True turnActive router (pw_mux w) = (ok, m)" by fastforce
  let ?w3 = "pair_finish True True True session turnActive router pp (w\<lparr>pw_qr := q, pw_file := f\<rparr>)"
  have w3: "pw_sent ?w3 = pw_sent w @ [(?peer, pair_ok inner session (kp_public piDh)
      (pc_sign pc (kp_secret kp) (piTranscript token app (kp_public piDh) owner)))]"
    "findKnownPeer True ?peer (pw_file ?w3) = Some (pp_record pp)" "omap_has (mx_channels (pw_mux ?w3)) ?peer"
    using r(7-9,13,14) c(1) find_added [OF f] attached_has [of ?peer turnActive router "pw_mux w"] ap
    by (simp_all add: pair_finish_def attach_channel_def sendToPeer_def findKnownPeer_def)
  obtain frame where s: "seal enc nonce (key_send ak) 1 json = Some frame"
    using r(4) assms(14) by (simp add: seal_Some MAX_UINT64_def)
  have "open_frame dec (key_recv (ch_keys c)) frame (ch_recv_seq c) = Some (1, json)" "open_frame dec (key_recv (ch_keys c)) frame 1 = None"
    using open_sealed [OF assms(2) s] c r(2) by simp_all
  with b p w3 c r(1-3) s show ?thesis by metis
qed

text \<open>A run with hashes, signatures and an exchange that only have the right widths.\<close>

definition toy_crypto :: pair_crypto where
  "toy_crypto = \<lparr>pc_sha = \<lambda>_. replicate 32 1, pc_hmac = \<lambda>_ _. replicate 32 2, pc_verify = \<lambda>_ _ _. Some True,
     pc_sign = \<lambda>_ _. replicate 64 3, pc_dh = \<lambda>_ _. Some (replicate 32 4), pc_hkdf = \<lambda>_ _ _. replicate 32 5\<rparr>"

definition toy_pair :: keypair where
  "toy_pair = \<lparr>kp_public = replicate 32 6, kp_secret = replicate 32 7\<rparr>"

definition toy_world :: pairing_world where
  "toy_world = \<lparr>pw_qr = Some \<lparr>at_token = ''tok'', at_tokenId = pairTokenId (pc_sha toy_crypto) ''tok'', at_expiresAt = 60000, at_consumed = False\<rparr>,
     pw_file = NoRoster, pw_mux = new_mux (\<lambda>_. SendOk), pw_sent = [], pw_audit = []\<rparr>"

definition toy_session :: pairing_session where
  "toy_session = \<lparr>ps_sessionName = Str ''s'', ps_sessionStartedAt = Num 1, ps_sessionId = Str ''i'', ps_roomId = Str ''r'',
     ps_harness = None, ps_hostname = None\<rparr>"

definition toy_request :: js where
  "toy_request = the (app_request toy_crypto ''tok'' (replicate 32 8) (replicate 32 9) (replicate 32 6) (replicate 64 3) ''1'' ''phone'')"

lemma toy_request: "app_request toy_crypto ''tok'' (replicate 32 8) (replicate 32 9) (kp_public toy_pair) (replicate 64 3) ''1'' ''phone'' = Some toy_request"
  by (simp add: toy_request_def app_request_def computePairMac_def pairMacMessage_def pairTokenId_def toy_crypto_def toy_pair_def Let_def)

theorem pairing_completes_witness:
  "\<exists>pp w1 w2. pair_begin toy_crypto (Some toy_pair) toy_pair ''now'' 5 (base64_encode (replicate 32 8)) toy_request toy_world = (Some pp, w1) \<and>
    pair_persist True True pp w1 = (True, w2) \<and>
    omap_has (mx_channels (pw_mux (pair_finish True True True toy_session False 0 pp w2))) (base64_encode (replicate 32 8))"
proof -
  have "pair_widths toy_crypto" by (simp add: pair_widths_def toy_crypto_def)
  from pairing_completes [OF this tag_aead _ _ _ _ _ _ _ toy_request, where w = toy_world and piDh = toy_pair and shared = "replicate 32 4"
      and appSecret = "replicate 32 7" and nonce = "replicate 24 9" and expiry = 60000 and now = 5 and pairedAt = "''now''"
      and session = toy_session and turnActive = False and router = 0 and json = "''{}''"]
  show ?thesis by (simp add: toy_world_def toy_crypto_def toy_pair_def x25519Shared_def) blast
qed

theorem pairing_needs_proof_witness:
  "\<exists>pp w1. pair_begin toy_crypto (Some toy_pair) toy_pair ''now'' 5 (base64_encode (replicate 32 8)) toy_request toy_world = (Some pp, w1) \<and>
    fst (pair_begin toy_crypto (Some toy_pair) toy_pair ''now'' 6 (base64_encode (replicate 32 8)) toy_request w1) = None"
proof -
  have w: "pair_widths toy_crypto" by (simp add: pair_widths_def toy_crypto_def)
  have "pair_proofs toy_crypto (Some toy_pair) (base64_encode (replicate 32 8)) toy_request (pw_qr toy_world) = Inr (''tok'', replicate 32 8, replicate 32 9)"
    using app_request_proofs [OF w toy_request, where q = "pw_qr toy_world" and a = "\<lparr>at_token = ''tok'', at_tokenId = pairTokenId (pc_sha toy_crypto) ''tok'', at_expiresAt = 60000, at_consumed = False\<rparr>"] by (simp add: toy_world_def toy_crypto_def)
  moreover have x: "x25519Shared (pc_dh toy_crypto) (kp_secret toy_pair) (replicate 32 9) = Some (replicate 32 4)" "length (replicate 32 4 :: bytes) = 32"
    by (simp_all add: x25519Shared_def toy_crypto_def toy_pair_def)
  moreover obtain pp where "pair_record toy_crypto toy_pair toy_pair ''now'' (base64_encode (replicate 32 8)) toy_request (''tok'', replicate 32 8, replicate 32 9) = Some pp"
    using honest_record [OF w, where piDh = toy_pair and app = "replicate 32 9" and shared = "replicate 32 4" and token = "''tok''" and kp = toy_pair
        and pairedAt = "''now''" and peer = "base64_encode (replicate 32 8)" and inner = toy_request and owner = "replicate 32 8"] x
    by blast
  ultimately obtain w1 where b: "pair_begin toy_crypto (Some toy_pair) toy_pair ''now'' 5 (base64_encode (replicate 32 8)) toy_request toy_world = (Some pp, w1)"
    by (simp add: pair_begin_def consumeToken_def toy_world_def)
  from pairing_needs_proof [OF b _ refl] b show ?thesis by blast
qed

end
