(* ===== verification/DaemonFiles.thy ===== *)
theory DaemonFiles imports Election Framing Json
begin

text \<open>
  The supervisor's files and its control protocol: the daemon registry
  (\<open>daemon/registry.ts\<close>, \<open>daemon/id.ts\<close>), the scheduled prompts
  (\<open>daemon/cron_registry.ts\<close>), their log (\<open>daemon/cron_log.ts\<close>) and the lines between the
  command line and the supervisor (\<open>daemon/control_protocol.ts\<close>).

  A JSON file is what it reads as: absent, broken (unreadable or malformed) or a value.
  A write takes its failure as an argument: \<open>None\<close> when it succeeds, or the error it
  throws and what it leaves behind, which may be half a file. The cron engine is the
  third-party \<open>croner\<close>: a function from an expression and a zone to an error or the two
  functions that give the next and the previous run of a schedule.
\<close>

datatype json_file = FileAbsent | FileBroken | FileJson js

type_synonym write_failure = "(string \<times> json_file) option"

definition write_file :: "write_failure \<Rightarrow> js \<Rightarrow> (string + unit) \<times> json_file" where
  "write_file fault v = (case fault of None \<Rightarrow> (Inr (), FileJson v) | Some (e, g) \<Rightarrow> (Inl e, g))"

text \<open>\<open>parsed.k\<close> when \<open>parsed\<close> is an object and the member an array, the empty list otherwise.\<close>

definition file_items :: "string \<Rightarrow> json_file \<Rightarrow> js list" where
  "file_items k f = (case f of
     FileJson v \<Rightarrow> (if is_object v then case jfield v k of Arr xs \<Rightarrow> xs | _ \<Rightarrow> [] else [])
   | _ \<Rightarrow> [])"

subsection \<open>POSIX paths\<close>

text \<open>\<open>path.join\<close> and \<open>path.resolve\<close> of two components.\<close>

fun segments :: "string \<Rightarrow> string list" where
  "segments [] = [[]]"
| "segments (c # s) = (if c = CHR ''/'' then [] # segments s else (c # hd (segments s)) # tl (segments s))"

definition path_step :: "bool \<Rightarrow> string list \<Rightarrow> string \<Rightarrow> string list" where
  "path_step allowAboveRoot acc seg =
    (if seg = '''' \<or> seg = ''.'' then acc
     else if seg = ''..'' then
       (if acc \<noteq> [] \<and> last acc \<noteq> ''..'' then butlast acc else if allowAboveRoot then acc @ [seg] else acc)
     else acc @ [seg])"

definition normalizeString :: "string \<Rightarrow> bool \<Rightarrow> string" where
  "normalizeString p allowAboveRoot =
    (let segs = foldl (path_step allowAboveRoot) [] (segments p) in if segs = [] then '''' else path_join segs)"

definition isAbsolute :: "string \<Rightarrow> bool" where
  "isAbsolute p \<longleftrightarrow> p \<noteq> [] \<and> hd p = CHR ''/''"

definition normalize :: "string \<Rightarrow> string" where
  "normalize p =
    (if p = '''' then ''.''
     else let s = normalizeString p (\<not> isAbsolute p); trailing = last p = CHR ''/'' in
       if s = '''' then (if isAbsolute p then ''/'' else if trailing then ''./'' else ''.'')
       else (if isAbsolute p then ''/'' else '''') @ s @ (if trailing then ''/'' else ''''))"

definition join2 :: "string \<Rightarrow> string \<Rightarrow> string" where
  "join2 a b = (if a = '''' \<and> b = '''' then ''.'' else if a = '''' then normalize b else if b = '''' then normalize a
     else normalize (a @ ''/'' @ b))"

definition resolve2 :: "string \<Rightarrow> string \<Rightarrow> string" where
  "resolve2 cwd p =
    (let full = (if isAbsolute p then p else cwd @ ''/'' @ p); s = normalizeString full (\<not> isAbsolute full) in
     if isAbsolute full then ''/'' @ s else if s \<noteq> '''' then s else ''.'')"

subsection \<open>The daemon registry\<close>

record daemon_entry =
  de_cwd :: string
  de_name :: "string option"

definition normalizeCwd :: "string \<Rightarrow> string \<Rightarrow> (string \<Rightarrow> string + string) \<Rightarrow> string \<Rightarrow> string + string" where
  "normalizeCwd home cwd real input =
    (if trim input = '''' then Inl ''cwd is required''
     else let p = trim input;
              p1 = (if p = ''~'' then home else if starts_with p ''~/'' then join2 home (drop 2 p) else p) in
       real (if isAbsolute p1 then p1 else resolve2 cwd p1))"

definition entry_of_js :: "js \<Rightarrow> daemon_entry option" where
  "entry_of_js item =
    (if \<not> is_object item then None
     else case jfield item ''cwd'' of
       Str cwd \<Rightarrow>
         (if cwd = '''' then None
          else Some \<lparr>de_cwd = cwd, de_name = (case jfield item ''name'' of Str n \<Rightarrow> (if n = '''' then None else Some n) | _ \<Rightarrow> None)\<rparr>)
     | _ \<Rightarrow> None)"

definition loadRegistry :: "json_file \<Rightarrow> daemon_entry list" where
  "loadRegistry f = List.map_filter entry_of_js (file_items ''daemons'' f)"

definition entry_js :: "daemon_entry \<Rightarrow> js" where
  "entry_js e = Obj ((''cwd'', Str (de_cwd e)) # (case de_name e of Some n \<Rightarrow> [(''name'', Str n)] | None \<Rightarrow> []))"

definition saveRegistry :: "write_failure \<Rightarrow> daemon_entry list \<Rightarrow> (string + unit) \<times> json_file" where
  "saveRegistry fault es = write_file fault (Obj [(''daemons'', Arr (map entry_js es))])"

definition daemonIdForCwd :: "(string \<Rightarrow> string) \<Rightarrow> (string \<Rightarrow> string option) \<Rightarrow> string \<Rightarrow> string" where
  "daemonIdForCwd digest real cwd = take 8 (digest (real_target real cwd))"

text \<open>
  Where the registry lives: \<open>ho_real\<close> is \<open>realpathSync\<close> with the message it throws,
  \<open>ho_digest\<close> the hexadecimal SHA-256.
\<close>

record machine =
  ho_home :: string
  ho_cwd :: string
  ho_real :: "string \<Rightarrow> string + string"
  ho_digest :: "string \<Rightarrow> string"

definition daemon_id :: "machine \<Rightarrow> string \<Rightarrow> string" where
  "daemon_id h = daemonIdForCwd (ho_digest h) (\<lambda>p. case ho_real h p of Inr t \<Rightarrow> Some t | Inl _ \<Rightarrow> None)"

definition addDaemon ::
    "machine \<Rightarrow> string \<Rightarrow> string option \<Rightarrow> write_failure \<Rightarrow> json_file \<Rightarrow> (string + string \<times> string \<times> string) \<times> json_file" where
  "addDaemon h rawCwd nm fault f =
    (case normalizeCwd (ho_home h) (ho_cwd h) (ho_real h) rawCwd of
       Inl e \<Rightarrow> (Inl e, f)
     | Inr cwd \<Rightarrow>
        (if \<exists>d \<in> set (loadRegistry f). de_cwd d = cwd then (Inl (''Daemon already registered for cwd: '' @ cwd), f)
         else let given = (case nm of Some n \<Rightarrow> trim n | None \<Rightarrow> '''');
                  resolved = (if given = '''' then defaultAgentName cwd else given);
                  (res, f') = saveRegistry fault (loadRegistry f @ [\<lparr>de_cwd = cwd, de_name = Some resolved\<rparr>]) in
           (case res of Inl e \<Rightarrow> Inl e | Inr _ \<Rightarrow> Inr (daemon_id h cwd, cwd, resolved), f')))"

text \<open>\<open>removeDaemon\<close>: the folder of the removed entry, \<open>None\<close> when no entry has the id.\<close>

definition removeDaemon :: "machine \<Rightarrow> string \<Rightarrow> write_failure \<Rightarrow> json_file \<Rightarrow> (string + string option) \<times> json_file" where
  "removeDaemon h i fault f =
    (let es = loadRegistry f; rest = dropWhile (\<lambda>d. daemon_id h (de_cwd d) \<noteq> i) es in
     case rest of
       [] \<Rightarrow> (Inr None, f)
     | d # ds \<Rightarrow>
        (let (res, f') = saveRegistry fault (takeWhile (\<lambda>d. daemon_id h (de_cwd d) \<noteq> i) es @ ds) in
         (case res of Inl e \<Rightarrow> Inl e | Inr _ \<Rightarrow> Inr (Some (de_cwd d)), f')))"

record listed_daemon =
  ld_id :: string
  ld_cwd :: string
  ld_name :: string

definition listDaemons :: "machine \<Rightarrow> json_file \<Rightarrow> listed_daemon list" where
  "listDaemons h f = map (\<lambda>d. \<lparr>ld_id = daemon_id h (de_cwd d), ld_cwd = de_cwd d,
      ld_name = (case de_name d of Some n \<Rightarrow> n | None \<Rightarrow> defaultAgentName (de_cwd d))\<rparr>) (loadRegistry f)"

definition migrateRegistryNames :: "write_failure \<Rightarrow> json_file \<Rightarrow> (string + nat) \<times> json_file" where
  "migrateRegistryNames fault f =
    (let es = loadRegistry f; changed = length (filter (\<lambda>d. de_name d = None) es) in
     if changed > 0 then
       (let (res, f') = saveRegistry fault
          (map (\<lambda>d. if de_name d = None then d\<lparr>de_name := Some (defaultAgentName (de_cwd d))\<rparr> else d) es) in
        (case res of Inl e \<Rightarrow> Inl e | Inr _ \<Rightarrow> Inr changed, f'))
     else (Inr 0, f))"

subsection \<open>Scheduled prompts\<close>

definition MIN_INTERVAL_MS :: int where "MIN_INTERVAL_MS = 60000"

record cron_job =
  cj_id :: string
  cj_daemon_id :: string
  cj_schedule :: string
  cj_tz :: "string option"
  cj_prompt :: string
  cj_enabled :: bool
  cj_skip_if_busy :: bool
  cj_wake :: bool
  cj_catchup :: bool
  cj_created_at :: string
  cj_last_run :: "string option"
  cj_last_status :: "string option"

definition EPOCH_ISO :: string where "EPOCH_ISO = ''1970-01-01T00:00:00.000Z''"

definition coerceJob :: "js \<Rightarrow> cron_job option" where
  "coerceJob item =
    (if \<not> is_object item then None
     else case (jfield item ''id'', jfield item ''daemon_id'', jfield item ''schedule'', jfield item ''prompt'') of
       (Str i, Str d, Str s, Str p) \<Rightarrow>
         Some \<lparr>cj_id = i, cj_daemon_id = d, cj_schedule = s, cj_tz = as_str (jfield item ''tz''), cj_prompt = p,
           cj_enabled = (jfield item ''enabled'' \<noteq> Bool False), cj_skip_if_busy = (jfield item ''skip_if_busy'' \<noteq> Bool False),
           cj_wake = (jfield item ''wake'' = Bool True), cj_catchup = (jfield item ''catchup'' = Bool True),
           cj_created_at = (case jfield item ''created_at'' of Str c \<Rightarrow> c | _ \<Rightarrow> EPOCH_ISO),
           cj_last_run = as_str (jfield item ''last_run''), cj_last_status = as_str (jfield item ''last_status'')\<rparr>
     | _ \<Rightarrow> None)"

definition loadCronRegistry :: "json_file \<Rightarrow> cron_job list" where
  "loadCronRegistry f = List.map_filter coerceJob (file_items ''jobs'' f)"

definition opt_str :: "string \<Rightarrow> string option \<Rightarrow> (string \<times> js) list" where
  "opt_str k v = (case v of Some s \<Rightarrow> [(k, Str s)] | None \<Rightarrow> [])"

definition job_js :: "cron_job \<Rightarrow> js" where
  "job_js j = Obj ([(''id'', Str (cj_id j)), (''daemon_id'', Str (cj_daemon_id j)), (''schedule'', Str (cj_schedule j)),
      (''prompt'', Str (cj_prompt j)), (''enabled'', Bool (cj_enabled j)), (''skip_if_busy'', Bool (cj_skip_if_busy j)),
      (''wake'', Bool (cj_wake j)), (''catchup'', Bool (cj_catchup j)), (''created_at'', Str (cj_created_at j))] @
      opt_str ''tz'' (cj_tz j) @ opt_str ''last_run'' (cj_last_run j) @ opt_str ''last_status'' (cj_last_status j))"

definition saveCronRegistry :: "write_failure \<Rightarrow> cron_job list \<Rightarrow> (string + unit) \<times> json_file" where
  "saveCronRegistry fault js = write_file fault (Obj [(''jobs'', Arr (map job_js js))])"

definition getJob :: "string \<Rightarrow> json_file \<Rightarrow> cron_job option" where
  "getJob i f = List.find (\<lambda>j. cj_id j = i) (loadCronRegistry f)"

record new_job =
  nj_daemon_id :: string
  nj_schedule :: string
  nj_prompt :: string
  nj_tz :: "string option"
  nj_skip_if_busy :: "bool option"
  nj_wake :: "bool option"
  nj_catchup :: "bool option"

text \<open>\<open>gen\<close> gives the eight random hexadecimal digits of each attempt.\<close>

definition freshId :: "(nat \<Rightarrow> string) \<Rightarrow> cron_job list \<Rightarrow> string option" where
  "freshId gen existing =
    List.find (\<lambda>i. \<not> list_ex (\<lambda>j. cj_id j = i) existing) (map (\<lambda>n. ''j_'' @ gen n) [0..<1000])"

definition addJob :: "(nat \<Rightarrow> string) \<Rightarrow> string \<Rightarrow> new_job \<Rightarrow> write_failure \<Rightarrow> json_file \<Rightarrow> (string + cron_job) \<times> json_file" where
  "addJob gen now input fault f =
    (case freshId gen (loadCronRegistry f) of
       None \<Rightarrow> (Inl ''cron id space exhausted'', f)
     | Some i \<Rightarrow>
        (let job = \<lparr>cj_id = i, cj_daemon_id = nj_daemon_id input, cj_schedule = nj_schedule input,
               cj_tz = (if nj_tz input = Some '''' then None else nj_tz input), cj_prompt = nj_prompt input, cj_enabled = True,
               cj_skip_if_busy = (nj_skip_if_busy input \<noteq> Some False), cj_wake = (nj_wake input = Some True),
               cj_catchup = (nj_catchup input = Some True), cj_created_at = now, cj_last_run = None, cj_last_status = None\<rparr>;
             (res, f') = saveCronRegistry fault (loadCronRegistry f @ [job]) in
         (case res of Inl e \<Rightarrow> Inl e | Inr _ \<Rightarrow> Inr job, f')))"

definition removeJob :: "string \<Rightarrow> write_failure \<Rightarrow> json_file \<Rightarrow> (string + bool) \<times> json_file" where
  "removeJob i fault f =
    (let jobs = loadCronRegistry f in
     case dropWhile (\<lambda>j. cj_id j \<noteq> i) jobs of
       [] \<Rightarrow> (Inr False, f)
     | _ # rest \<Rightarrow>
        (let (res, f') = saveCronRegistry fault (takeWhile (\<lambda>j. cj_id j \<noteq> i) jobs @ rest) in
         (case res of Inl e \<Rightarrow> Inl e | Inr _ \<Rightarrow> Inr True, f')))"

text \<open>\<open>reg.jobs.find(...)\<close> mutated in place: the first job with the id.\<close>

fun update_first :: "string \<Rightarrow> (cron_job \<Rightarrow> cron_job) \<Rightarrow> cron_job list \<Rightarrow> cron_job list" where
  "update_first i g [] = []"
| "update_first i g (j # js) = (if cj_id j = i then g j # js else j # update_first i g js)"

definition change_job :: "string \<Rightarrow> (cron_job \<Rightarrow> cron_job) \<Rightarrow> write_failure \<Rightarrow> json_file \<Rightarrow> (string + bool) \<times> json_file" where
  "change_job i g fault f =
    (if getJob i f = None then (Inr False, f)
     else let (res, f') = saveCronRegistry fault (update_first i g (loadCronRegistry f)) in
       (case res of Inl e \<Rightarrow> Inl e | Inr _ \<Rightarrow> Inr True, f'))"

definition setJobEnabled :: "string \<Rightarrow> bool \<Rightarrow> write_failure \<Rightarrow> json_file \<Rightarrow> (string + bool) \<times> json_file" where
  "setJobEnabled i enabled = change_job i (\<lambda>j. j\<lparr>cj_enabled := enabled\<rparr>)"

definition recordRun :: "string \<Rightarrow> string \<Rightarrow> string \<Rightarrow> write_failure \<Rightarrow> json_file \<Rightarrow> (string + bool) \<times> json_file" where
  "recordRun i at status = change_job i (\<lambda>j. j\<lparr>cj_last_run := Some at, cj_last_status := Some status\<rparr>)"

text \<open>A schedule of the engine: the first run strictly after a time, the last run before it (in milliseconds).\<close>

record cron_schedule =
  cr_next :: "int \<Rightarrow> int option"
  cr_previous :: "int \<Rightarrow> int option"

type_synonym croner = "string \<Rightarrow> string option \<Rightarrow> string + cron_schedule"

definition zone :: "string option \<Rightarrow> string option" where
  "zone tz = (if tz = Some '''' then None else tz)"

text \<open>\<open>Inr\<close> the interval, \<open>Inl\<close> the message for the user.\<close>

definition validateSchedule :: "croner \<Rightarrow> int \<Rightarrow> string \<Rightarrow> string option \<Rightarrow> string + int" where
  "validateSchedule croner now schedule tz =
    (case croner schedule (zone tz) of
       Inl e \<Rightarrow> Inl (''invalid cron expression: '' @ e)
     | Inr c \<Rightarrow>
        (case cr_next c now of
           None \<Rightarrow> Inl ''schedule has no upcoming runs''
         | Some n1 \<Rightarrow>
            (case cr_next c n1 of
               None \<Rightarrow> Inl ''schedule has no upcoming runs''
             | Some n2 \<Rightarrow>
                (let intervalMs = n2 - n1 in
                 if intervalMs < MIN_INTERVAL_MS
                 then Inl (''schedule too frequent: ~'' @ int_text ((intervalMs + 500) div 1000) @ ''s between runs (minimum is 60s)'')
                 else Inr intervalMs))))"

definition nextRunFor :: "croner \<Rightarrow> int \<Rightarrow> cron_job \<Rightarrow> int option" where
  "nextRunFor croner now j = (case croner (cj_schedule j) (zone (cj_tz j)) of Inl _ \<Rightarrow> None | Inr c \<Rightarrow> cr_next c now)"

subsection \<open>The log of the scheduled prompts\<close>

datatype cron_result = Delivered | DeliverFailed | WokeAndDelivered | SkippedBusy | SkippedDown | SkippedDisabled

fun cron_result_text :: "cron_result \<Rightarrow> string" where
  "cron_result_text Delivered = ''delivered''"
| "cron_result_text DeliverFailed = ''deliver_failed''"
| "cron_result_text WokeAndDelivered = ''woke_and_delivered''"
| "cron_result_text SkippedBusy = ''skipped_busy''"
| "cron_result_text SkippedDown = ''skipped_down''"
| "cron_result_text SkippedDisabled = ''skipped_disabled''"

definition PREVIEW_LEN :: nat where "PREVIEW_LEN = 80"

definition firedFor :: "cron_result \<Rightarrow> bool" where
  "firedFor r \<longleftrightarrow> r = Delivered \<or> r = WokeAndDelivered"

definition log_entry :: "int \<Rightarrow> cron_job \<Rightarrow> cron_result \<Rightarrow> js" where
  "log_entry ts job r = Obj [(''ts'', Num ts), (''job_id'', Str (cj_id job)), (''daemon_id'', Str (cj_daemon_id job)),
     (''schedule'', Str (cj_schedule job)), (''fired'', Bool (firedFor r)), (''result'', Str (cron_result_text r)),
     (''prompt_preview'', Str (take PREVIEW_LEN (cj_prompt job)))]"

text \<open>
  The log is its text, \<open>None\<close> when there is no file. \<open>ok\<close> says whether the write succeeds;
  its failure is swallowed.
\<close>

definition appendCronLog :: "bool \<Rightarrow> int \<Rightarrow> cron_job \<Rightarrow> cron_result \<Rightarrow> string option \<Rightarrow> string option" where
  "appendCronLog ok ts job r log =
    (if ok then Some ((case log of Some t \<Rightarrow> t | None \<Rightarrow> '''') @ stringify (log_entry ts job r) @ [nl_char]) else log)"

fun split_lines :: "string \<Rightarrow> string list" where
  "split_lines [] = [[]]"
| "split_lines (c # s) = (if c = nl_char then [] # split_lines s else (c # hd (split_lines s)) # tl (split_lines s))"

definition log_line :: "string option \<Rightarrow> string \<Rightarrow> js option" where
  "log_line jobId line =
    (if trim line = '''' then None
     else case json_parse line of
       None \<Rightarrow> None
     | Some e \<Rightarrow> (case jobId of
         Some i \<Rightarrow> (if i \<noteq> '''' \<and> jfield e ''job_id'' \<noteq> Str i then None else Some e)
       | None \<Rightarrow> Some e))"

definition tail_of :: "nat \<Rightarrow> 'a list \<Rightarrow> 'a list" where
  "tail_of n xs = drop (length xs - n) xs"

definition readCronLog :: "string option \<Rightarrow> int option \<Rightarrow> string option \<Rightarrow> js list" where
  "readCronLog jobId tail_n log = (case log of
     None \<Rightarrow> []
   | Some raw \<Rightarrow>
      (let entries = List.map_filter (log_line jobId) (split_lines raw) in
       case tail_n of
         Some n \<Rightarrow> (if 0 \<le> n \<and> int (length entries) > n then tail_of (nat n) entries else entries)
       | None \<Rightarrow> entries))"

subsection \<open>The control protocol\<close>

definition encode_control :: "js \<Rightarrow> string" where
  "encode_control v = stringify v @ [nl_char]"

text \<open>\<open>perr\<close> is the message of \<open>JSON.parse\<close>'s exception for a text.\<close>

definition parseRequest :: "(string \<Rightarrow> string) \<Rightarrow> string \<Rightarrow> string + js" where
  "parseRequest perr line = (case json_parse line of
     None \<Rightarrow> Inl (''malformed control request: '' @ perr line)
   | Some v \<Rightarrow>
      (if \<not> is_object v then Inl ''control request must be a JSON object''
       else case jfield v ''op'' of
         Str _ \<Rightarrow> Inr v
       | _ \<Rightarrow> Inl ''control request missing string `op` field''))"

definition parseReply :: "(string \<Rightarrow> string) \<Rightarrow> string \<Rightarrow> string + js" where
  "parseReply perr line = (case json_parse line of
     None \<Rightarrow> Inl (''malformed control reply: '' @ perr line)
   | Some v \<Rightarrow>
      (if \<not> is_object v then Inl ''control reply must be a JSON object''
       else case jfield v ''ok'' of
         Bool _ \<Rightarrow> Inr v
       | _ \<Rightarrow> Inl ''control reply missing boolean `ok` field''))"


text \<open>The requests, with the members their declaration gives them; any other \<open>op\<close> is \<open>UnknownOp\<close>.\<close>

datatype control_request =
    ReqList | ReqStatus | ReqStartAll | ReqStart string | ReqStopAll | ReqStop string | ReqRestartAll | ReqRestart string
  | ReqSend string string | ReqRegister string | ReqUnregister string
  | ReqCronAdd new_job | ReqCronList | ReqCronRemove string | ReqCronEnable string bool | ReqCronRun string
  | ReqCronLog "string option" "int option" | UnknownOp string

definition opt_bool :: "string \<Rightarrow> bool option \<Rightarrow> (string \<times> js) list" where
  "opt_bool k v = (case v of Some b \<Rightarrow> [(k, Bool b)] | None \<Rightarrow> [])"

fun request_js :: "control_request \<Rightarrow> js" where
  "request_js ReqList = Obj [(''op'', Str ''list'')]"
| "request_js ReqStatus = Obj [(''op'', Str ''status'')]"
| "request_js ReqStartAll = Obj [(''op'', Str ''start_all'')]"
| "request_js (ReqStart i) = Obj [(''op'', Str ''start''), (''id'', Str i)]"
| "request_js ReqStopAll = Obj [(''op'', Str ''stop_all'')]"
| "request_js (ReqStop i) = Obj [(''op'', Str ''stop''), (''id'', Str i)]"
| "request_js ReqRestartAll = Obj [(''op'', Str ''restart_all'')]"
| "request_js (ReqRestart i) = Obj [(''op'', Str ''restart''), (''id'', Str i)]"
| "request_js (ReqSend i t) = Obj [(''op'', Str ''send''), (''id'', Str i), (''text'', Str t)]"
| "request_js (ReqRegister c) = Obj [(''op'', Str ''register''), (''cwd'', Str c)]"
| "request_js (ReqUnregister i) = Obj [(''op'', Str ''unregister''), (''id'', Str i)]"
| "request_js (ReqCronAdd j) = Obj ([(''op'', Str ''cron_add''), (''daemon_id'', Str (nj_daemon_id j)), (''schedule'', Str (nj_schedule j)),
    (''prompt'', Str (nj_prompt j))] @ opt_str ''tz'' (nj_tz j) @ opt_bool ''skip_if_busy'' (nj_skip_if_busy j) @
    opt_bool ''wake'' (nj_wake j) @ opt_bool ''catchup'' (nj_catchup j))"
| "request_js ReqCronList = Obj [(''op'', Str ''cron_list'')]"
| "request_js (ReqCronRemove i) = Obj [(''op'', Str ''cron_remove''), (''job_id'', Str i)]"
| "request_js (ReqCronEnable i b) = Obj [(''op'', Str ''cron_enable''), (''job_id'', Str i), (''enabled'', Bool b)]"
| "request_js (ReqCronRun i) = Obj [(''op'', Str ''cron_run''), (''job_id'', Str i)]"
| "request_js (ReqCronLog i n) = Obj ((''op'', Str ''cron_log'') # opt_str ''job_id'' i @ (case n of Some k \<Rightarrow> [(''tail'', Num k)] | None \<Rightarrow> []))"
| "request_js (UnknownOp t) = Obj [(''op'', Str t)]"

text \<open>
  The request an object stands for; \<open>None\<close> when a member has another type than its
  declaration gives it (the code does not check them).
\<close>

definition str_member :: "js \<Rightarrow> string \<Rightarrow> (string \<Rightarrow> 'a) \<Rightarrow> 'a option" where
  "str_member v k f = (case jfield v k of Str s \<Rightarrow> Some (f s) | _ \<Rightarrow> None)"

definition cron_add_of :: "js \<Rightarrow> control_request option" where
  "cron_add_of v = (case (jfield v ''daemon_id'', jfield v ''schedule'', jfield v ''prompt'') of
     (Str d, Str s, Str p) \<Rightarrow> Some (ReqCronAdd \<lparr>nj_daemon_id = d, nj_schedule = s, nj_prompt = p, nj_tz = as_str (jfield v ''tz''),
        nj_skip_if_busy = as_bool (jfield v ''skip_if_busy''), nj_wake = as_bool (jfield v ''wake''), nj_catchup = as_bool (jfield v ''catchup'')\<rparr>)
   | _ \<Rightarrow> None)"

definition request_of :: "js \<Rightarrow> control_request option" where
  "request_of v = (case jfield v ''op'' of
     Str t \<Rightarrow>
      (if t = ''list'' then Some ReqList
       else if t = ''status'' then Some ReqStatus
       else if t = ''start_all'' then Some ReqStartAll
       else if t = ''start'' then str_member v ''id'' ReqStart
       else if t = ''stop_all'' then Some ReqStopAll
       else if t = ''stop'' then str_member v ''id'' ReqStop
       else if t = ''restart_all'' then Some ReqRestartAll
       else if t = ''restart'' then str_member v ''id'' ReqRestart
       else if t = ''send'' then Option.bind (str_member v ''id'' ReqSend) (str_member v ''text'')
       else if t = ''register'' then str_member v ''cwd'' ReqRegister
       else if t = ''unregister'' then str_member v ''id'' ReqUnregister
       else if t = ''cron_add'' then cron_add_of v
       else if t = ''cron_list'' then Some ReqCronList
       else if t = ''cron_remove'' then str_member v ''job_id'' ReqCronRemove
       else if t = ''cron_enable'' then
         (case as_bool (jfield v ''enabled'') of Some b \<Rightarrow> str_member v ''job_id'' (\<lambda>i. ReqCronEnable i b) | None \<Rightarrow> None)
       else if t = ''cron_run'' then str_member v ''job_id'' ReqCronRun
       else if t = ''cron_log'' then Some (ReqCronLog (as_str (jfield v ''job_id'')) (as_num (jfield v ''tail'')))
       else Some (UnknownOp t))
   | _ \<Rightarrow> None)"

definition known_ops :: "string list" where
  "known_ops = [''list'', ''status'', ''start_all'', ''start'', ''stop_all'', ''stop'', ''restart_all'', ''restart'', ''send'',
     ''register'', ''unregister'', ''cron_add'', ''cron_list'', ''cron_remove'', ''cron_enable'', ''cron_run'', ''cron_log'']"

subsection \<open>The files read back\<close>

lemma map_filter_all: "(\<And>x. x \<in> set xs \<Longrightarrow> g (f x) = Some x) \<Longrightarrow> List.map_filter g (map f xs) = xs"
  by (induction xs) (simp_all add: List.map_filter_simps)

lemma map_filter_append: "List.map_filter g (xs @ ys) = List.map_filter g xs @ List.map_filter g ys"
  by (simp add: List.map_filter_def)

lemma coerce_job_js [simp]: "coerceJob (job_js j) = Some j"
  by (cases j) (simp add: coerceJob_def job_js_def opt_str_def split: option.split)

lemma load_saved_jobs [simp]: "loadCronRegistry (FileJson (Obj [(''jobs'', Arr (map job_js js))])) = js"
  by (simp add: loadCronRegistry_def file_items_def map_filter_all)

definition entry_ok :: "daemon_entry \<Rightarrow> bool" where
  "entry_ok e \<longleftrightarrow> de_cwd e \<noteq> '''' \<and> de_name e \<noteq> Some ''''"

lemma entry_of_js_ok: "entry_of_js v = Some e \<Longrightarrow> entry_ok e"
  by (auto simp: entry_of_js_def entry_ok_def split: if_split_asm js.split_asm)

lemma loaded_ok: "e \<in> set (loadRegistry f) \<Longrightarrow> entry_ok e"
  by (auto simp: loadRegistry_def List.map_filter_def dest: entry_of_js_ok)

lemma entry_js_inverse [simp]: "entry_ok e \<Longrightarrow> entry_of_js (entry_js e) = Some e"
  by (cases e) (auto simp: entry_of_js_def entry_js_def entry_ok_def split: option.split)

lemma load_saved: "list_all entry_ok es \<Longrightarrow> loadRegistry (FileJson (Obj [(''daemons'', Arr (map entry_js es))])) = es"
  by (auto simp: loadRegistry_def file_items_def list_all_iff intro: map_filter_all)

lemma saved_registry:
  "saveRegistry fault es = (Inr (), f') \<Longrightarrow> list_all entry_ok es \<Longrightarrow> loadRegistry f' = es"
  by (auto simp: saveRegistry_def write_file_def load_saved split: option.splits prod.splits)

lemma saved_jobs: "saveCronRegistry fault js = (Inr (), f') \<Longrightarrow> loadCronRegistry f' = js"
  by (auto simp: saveCronRegistry_def write_file_def split: option.splits prod.splits)

subsection \<open>What the operations do\<close>

lemma find_fresh: "freshId gen js = Some i \<Longrightarrow> i \<notin> cj_id ` set js"
  by (auto simp: freshId_def find_Some_iff list_ex_iff)

lemma find_none_of: "i \<notin> cj_id ` set js \<Longrightarrow> List.find (\<lambda>j. cj_id j = i) js = None"
  by (auto simp: find_None_iff)

lemma find_snoc_job: "i \<notin> cj_id ` set js \<Longrightarrow> cj_id j = i \<Longrightarrow> List.find (\<lambda>j. cj_id j = i) (js @ [j]) = Some j"
  by (induction js) auto

lemma split_snoc_job:
  assumes "cj_id j \<notin> cj_id ` set js"
  shows "dropWhile (\<lambda>x. cj_id x \<noteq> cj_id j) (js @ [j]) = [j]" "takeWhile (\<lambda>x. cj_id x \<noteq> cj_id j) (js @ [j]) = js"
  using assms by (induction js) auto

text \<open>
  A scheduled prompt gets an id no other has, is found under it, and leaves the others
  as they are; taking it out gives the registry it was added to.
\<close>

lemma cron_add_remove:
  assumes "addJob gen now input fault f = (Inr job, f')"
  shows "getJob (cj_id job) f = None \<and> getJob (cj_id job) f' = Some job \<and> loadCronRegistry f' = loadCronRegistry f @ [job] \<and>
    (\<exists>g. removeJob (cj_id job) None f' = (Inr True, g) \<and> loadCronRegistry g = loadCronRegistry f)"
proof -
  obtain i res where i: "freshId gen (loadCronRegistry f) = Some i" "cj_id job = i" "saveCronRegistry fault (loadCronRegistry f @ [job]) = (res, f')" "res = Inr ()"
    using assms by (auto simp: addJob_def Let_def split: option.splits prod.splits sum.splits)
  have n: "cj_id job \<notin> cj_id ` set (loadCronRegistry f)" using find_fresh [OF i(1)] i(2) by simp
  have l: "loadCronRegistry f' = loadCronRegistry f @ [job]" using i(3,4) saved_jobs by simp
  have "removeJob (cj_id job) None f' = (Inr True, FileJson (Obj [(''jobs'', Arr (map job_js (loadCronRegistry f)))]))"
    using split_snoc_job [OF n] by (simp add: removeJob_def l saveCronRegistry_def write_file_def)
  then show ?thesis using n l by (simp add: getJob_def find_none_of find_snoc_job)
qed

lemma change_job_effect:
  "change_job i g fault f = (Inr True, f') \<Longrightarrow> loadCronRegistry f' = update_first i g (loadCronRegistry f)"
  by (auto simp: change_job_def saved_jobs split: if_splits prod.splits sum.splits)

lemma find_updated: "(\<And>j. cj_id (g j) = cj_id j) \<Longrightarrow>
    List.find (\<lambda>j. cj_id j = i) (update_first k g js) = (if i = k then map_option g (List.find (\<lambda>j. cj_id j = i) js) else List.find (\<lambda>j. cj_id j = i) js)"
  by (induction js) auto

lemma validated_interval:
  "validateSchedule croner now schedule tz = Inr d \<Longrightarrow>
    \<exists>c n1. croner schedule (zone tz) = Inr c \<and> cr_next c now = Some n1 \<and> cr_next c n1 = Some (n1 + d) \<and> MIN_INTERVAL_MS \<le> d"
  by (auto simp: validateSchedule_def Let_def split: sum.splits option.splits if_splits)

subsection \<open>The log keeps every decision\<close>

lemma split_lines_nonempty [simp]: "split_lines s \<noteq> []"
  by (cases s) auto

lemma split_lines_line: "nl_char \<notin> set l \<Longrightarrow> split_lines (l @ nl_char # s) = l # split_lines s"
  by (induction l) auto

lemma split_lines_append: "split_lines (s @ [nl_char] @ t) = split_lines s @ split_lines t"
proof (induction s)
  case (Cons c s)
  then show ?case by (cases "split_lines s") auto
qed simp

definition log_text :: "string option \<Rightarrow> bool" where
  "log_text log = (case log of None \<Rightarrow> True | Some t \<Rightarrow> t = '''' \<or> last t = nl_char)"

lemma log_entry_value: "json_value (log_entry ts job r)"
  by (simp add: log_entry_def)

lemma stripped_empty: "strip P s = '''' \<Longrightarrow> list_all P s"
  using dropWhile_hd [of P s] by (cases "dropWhile P s") (auto simp: strip_def list_all_iff dropWhile_eq_Nil_conv)

lemma brace_not_space: "\<not> is_space CHR 0x7B"
  by (simp add: is_space_def)

lemma log_line_entry:
  "log_line None (stringify (log_entry ts job r)) = Some (log_entry ts job r)"
proof -
  have "stringify (log_entry ts job r) = CHR ''{'' # tl (stringify (log_entry ts job r))" by (simp add: log_entry_def)
  then have "\<not> list_all is_space (stringify (log_entry ts job r))"
    by (metis brace_not_space list.pred_inject(2))
  then have "trim (stringify (log_entry ts job r)) \<noteq> ''''" using stripped_empty unfolding trim_def by blast
  then show ?thesis by (simp add: log_line_def json_round_trip log_entry_value)
qed

lemma log_line_nothing [simp]: "log_line q '''' = None"
  by (simp add: log_line_def trim_def strip_def)

text \<open>
  Every decision of the scheduler that is written is read back, after all earlier ones,
  whatever the log held: also a prompt of several lines, or one with quotes in it.
\<close>

lemma cron_log_complete:
  assumes "log_text log"
  shows "readCronLog None None (appendCronLog True ts job r log) = readCronLog None None log @ [log_entry ts job r] \<and>
    log_text (appendCronLog True ts job r log)"
proof -
  let ?l = "stringify (log_entry ts job r)"
  have n: "nl_char \<notin> set ?l" by (simp add: nl_char_def stringify_no_newline)
  have one: "List.map_filter (log_line None) (split_lines (?l @ [nl_char])) = [log_entry ts job r]"
    using split_lines_line [OF n, of "''''"] by (simp add: List.map_filter_simps log_line_entry)
  show ?thesis
  proof (cases "log = None \<or> log = Some ''''")
    case True
    then show ?thesis using one by (auto simp: readCronLog_def appendCronLog_def log_text_def List.map_filter_simps)
  next
    case False
    with assms obtain t where t: "log = Some (t @ [nl_char])"
      by (auto simp: log_text_def split: option.splits) (metis append_butlast_last_id)
    have "split_lines (t @ [nl_char] @ u) = split_lines t @ split_lines u" for u by (rule split_lines_append)
    from this [of "''''"] this [of "?l @ [nl_char]"] show ?thesis
      using one by (simp add: t readCronLog_def appendCronLog_def log_text_def map_filter_append List.map_filter_simps)
  qed
qed

subsection \<open>Requests read back\<close>

definition plain_request :: "control_request \<Rightarrow> bool" where
  "plain_request r = (case r of UnknownOp t \<Rightarrow> t \<notin> set known_ops | _ \<Rightarrow> True)"

lemma request_value: "json_value (request_js r)"
  by (cases r) (simp_all add: opt_str_def opt_bool_def split: option.split)

lemma request_of_js: "plain_request r \<Longrightarrow> request_of (request_js r) = Some r"
  by (cases r) (simp_all add: plain_request_def request_of_def known_ops_def str_member_def cron_add_of_def opt_str_def opt_bool_def split: option.split)

text \<open>A request the client encodes is one line, and the supervisor reads the same request from it.\<close>

lemma control_request_round_trip:
  assumes "plain_request r"
  shows "\<exists>line. encode_control (request_js r) = line @ [nl_char] \<and> nl_char \<notin> set line \<and>
    (\<exists>v. parseRequest perr line = Inr v \<and> request_of v = Some r)"
proof -
  have "\<exists>t. jfield (request_js r) ''op'' = Str t" "is_object (request_js r)" by (cases r; simp)+
  then have "parseRequest perr (stringify (request_js r)) = Inr (request_js r)"
    by (auto simp: parseRequest_def json_round_trip request_value)
  then show ?thesis
    using request_of_js [OF assms] by (auto simp: encode_control_def nl_char_def stringify_no_newline)
qed

end
