(* ===== verification/RpcChild.thy ===== *)
theory RpcChild imports DaemonFiles
begin

text \<open>
  One daemon process (\<open>daemon/rpc_child.ts\<close>): the arguments it is started with, the
  handling of its standard output, and its life cycle. A call that acts on the
  operating system returns what it asks for (the arguments of the spawn, the line
  written); the process answers later through \<open>rpc_exit\<close>, \<open>rpc_error\<close> and
  \<open>onStdout\<close>. POSIX only: \<open>resolvePiSpawn\<close> leaves the command as it is.
\<close>

datatype daemon_state = DaemonRunning | DaemonStopped | DaemonStarting | DaemonCrashed

fun daemon_state_text :: "daemon_state \<Rightarrow> string" where
  "daemon_state_text DaemonRunning = ''running''"
| "daemon_state_text DaemonStopped = ''stopped''"
| "daemon_state_text DaemonStarting = ''starting''"
| "daemon_state_text DaemonCrashed = ''crashed''"

record rpc_options =
  ro_extensionPath :: string
  ro_cwd :: string
  ro_config :: "local_config option"

definition EXIT_FRESH_SESSION :: int where "EXIT_FRESH_SESSION = 42"

subsection \<open>Lines of the process\<close>

definition busyTransition :: "string \<Rightarrow> bool option" where
  "busyTransition line = (case json_parse line of
     None \<Rightarrow> None
   | Some obj \<Rightarrow>
      (if jfield obj ''type'' = Str ''message_start'' then Some True
       else if jfield obj ''type'' = Str ''message_end'' then Some False
       else None))"

text \<open>
  The answer to a \<open>get_state\<close>: its id and whether a turn is streaming. Reading a member
  of \<open>null\<close> throws, which is \<open>ParseThrew\<close>.
\<close>

datatype state_answer = ParseThrew | NoAnswer | Answer "string option" "bool option"

definition parseGetStateResponse :: "string \<Rightarrow> state_answer" where
  "parseGetStateResponse line = (case json_parse line of
     None \<Rightarrow> NoAnswer
   | Some o1 \<Rightarrow>
      (if o1 = Null then ParseThrew
       else if jfield o1 ''type'' \<noteq> Str ''response'' \<or> jfield o1 ''command'' \<noteq> Str ''get_state'' then NoAnswer
       else Answer (as_str (jfield o1 ''id'')) (as_bool (jfield (jfield o1 ''data'') ''isStreaming''))))"

definition rpcSpawnArgs :: "string \<Rightarrow> string \<Rightarrow> bool \<Rightarrow> string list" where
  "rpcSpawnArgs extensionPath sessionName useContinue =
    [''--mode'', ''rpc'', ''--approve''] @ (if useContinue then [''--continue''] else []) @
    (if sessionName \<noteq> '''' then [''--name'', sessionName] else []) @ [''-e'', extensionPath]"

subsection \<open>The life cycle\<close>

text \<open>\<open>rc_child\<close>: \<open>this.child\<close> is not \<open>null\<close>. \<open>rc_statePending\<close> holds the ids of the questions in flight.\<close>

record rpc_child =
  rc_child :: bool
  rc_state :: daemon_state
  rc_startedAt :: "int option"
  rc_restartCount :: nat
  rc_stopping :: bool
  rc_forceFresh :: bool
  rc_stdoutBuf :: string
  rc_busy :: bool
  rc_statePending :: "string list"

definition new_child :: rpc_child where
  "new_child = \<lparr>rc_child = False, rc_state = DaemonStopped, rc_startedAt = None, rc_restartCount = 0, rc_stopping = False,
     rc_forceFresh = False, rc_stdoutBuf = '''', rc_busy = False, rc_statePending = []\<rparr>"

definition rpc_spawn :: "rpc_options \<Rightarrow> local_config \<Rightarrow> int \<Rightarrow> rpc_child \<Rightarrow> string list option \<times> rpc_child" where
  "rpc_spawn opts disk now c =
    (if rc_child c then (None, c)
     else let cfg = (case ro_config opts of Some g \<Rightarrow> g | None \<Rightarrow> disk);
              sessionName = (case agent_name cfg of Some n \<Rightarrow> n | None \<Rightarrow> defaultAgentName (ro_cwd opts)) in
       (Some (rpcSpawnArgs (ro_extensionPath opts) sessionName (\<not> rc_forceFresh c)),
        c\<lparr>rc_stopping := False, rc_busy := False, rc_forceFresh := False, rc_child := True, rc_startedAt := Some now,
          rc_state := DaemonRunning\<rparr>))"

text \<open>The event a process's end emits; \<open>code\<close> and \<open>signal\<close> are \<open>None\<close> for \<open>null\<close>.\<close>

record exit_event =
  ev_code :: "int option"
  ev_signal :: "string option"
  ev_isCrash :: bool

text \<open>\<open>spawn\<close> itself failed: the state changes and the event is emitted, \<open>this.child\<close> stays.\<close>

definition rpc_error :: "rpc_child \<Rightarrow> exit_event \<times> rpc_child" where
  "rpc_error c = (\<lparr>ev_code = None, ev_signal = None, ev_isCrash = True\<rparr>, c\<lparr>rc_state := DaemonCrashed\<rparr>)"

text \<open>The process ended: also returns the questions in flight, which are answered with \<open>false\<close>.\<close>

definition rpc_exit :: "int option \<Rightarrow> string option \<Rightarrow> rpc_child \<Rightarrow> exit_event \<times> string list \<times> rpc_child" where
  "rpc_exit code sig c =
    (let isCrash = (\<not> rc_stopping c \<and> (code \<noteq> Some 0 \<or> sig \<noteq> None)) in
     (\<lparr>ev_code = code, ev_signal = sig, ev_isCrash = isCrash\<rparr>, rc_statePending c,
      c\<lparr>rc_forceFresh := rc_forceFresh c \<or> code = Some EXIT_FRESH_SESSION,
        rc_state := (if isCrash then DaemonCrashed else DaemonStopped),
        rc_child := False, rc_startedAt := None, rc_busy := False, rc_statePending := []\<rparr>))"

definition prompt_line :: "string \<Rightarrow> string \<Rightarrow> js" where
  "prompt_line requestId t = Obj [(''id'', Str requestId), (''type'', Str ''prompt''), (''message'', Str t)]"

text \<open>\<open>writable\<close>: the write to the standard input does not throw.\<close>

definition sendPrompt :: "bool \<Rightarrow> string \<Rightarrow> string \<Rightarrow> rpc_child \<Rightarrow> js option" where
  "sendPrompt writable requestId t c =
    (if \<not> rc_child c \<or> rc_state c \<noteq> DaemonRunning \<or> \<not> writable then None else Some (prompt_line requestId t))"

text \<open>
  \<open>stop\<close>: nothing to do without a child; otherwise the child is asked to end, and the
  promise resolves at the next \<open>exit\<close> event.
\<close>

definition rpc_stop :: "rpc_child \<Rightarrow> bool \<times> rpc_child" where
  "rpc_stop c = (if rc_child c then (True, c\<lparr>rc_stopping := True\<rparr>) else (False, c))"

text \<open>
  One line of output: the question it answers with its answer, and the child. A line
  that makes the handler throw stops the handling of the chunk.
\<close>

definition handleStdoutLine :: "string \<Rightarrow> rpc_child \<Rightarrow> ((string \<times> bool) option \<times> rpc_child) option" where
  "handleStdoutLine line c =
    (let c1 = (case busyTransition line of Some b \<Rightarrow> c\<lparr>rc_busy := b\<rparr> | None \<Rightarrow> c) in
     case parseGetStateResponse line of
       ParseThrew \<Rightarrow> None
     | NoAnswer \<Rightarrow> Some (None, c1)
     | Answer i streaming \<Rightarrow>
        (case i of
           None \<Rightarrow> Some (None, c1)
         | Some k \<Rightarrow>
            (if k = '''' \<or> k \<notin> set (rc_statePending c1) then Some (None, c1)
             else let c2 = c1\<lparr>rc_statePending := removeAll k (rc_statePending c1),
                    rc_busy := (case streaming of Some b \<Rightarrow> b | None \<Rightarrow> rc_busy c1)\<rparr> in
               Some (Some (k, rc_busy c2), c2))))"

text \<open>A chunk of output. What follows a line that throws stays in the buffer.\<close>

function out_lines :: "rpc_child \<Rightarrow> (string \<times> bool) list \<times> bool \<times> rpc_child" where
  "out_lines c = (case index_of (rc_stdoutBuf c) nl_char of
     None \<Rightarrow> ([], True, c)
   | Some nl \<Rightarrow>
      (let line = take nl (rc_stdoutBuf c); c1 = c\<lparr>rc_stdoutBuf := drop (nl + 1) (rc_stdoutBuf c)\<rparr> in
       if trim line = '''' then out_lines c1
       else case handleStdoutLine line c1 of
         None \<Rightarrow> ([], False, c1)
       | Some (ans, c2) \<Rightarrow>
          (let (as, ok, c3) = out_lines (c2\<lparr>rc_stdoutBuf := rc_stdoutBuf c1\<rparr>) in
           ((case ans of Some a \<Rightarrow> [a] | None \<Rightarrow> []) @ as, ok, c3))))"
  by pat_completeness auto
termination
  by (relation "measure (\<lambda>c. length (rc_stdoutBuf c))") (auto simp: index_of_Some)

definition onStdout :: "string \<Rightarrow> rpc_child \<Rightarrow> (string \<times> bool) list \<times> bool \<times> rpc_child" where
  "onStdout chunk c = out_lines (c\<lparr>rc_stdoutBuf := rc_stdoutBuf c @ chunk\<rparr>)"

text \<open>
  \<open>refreshBusy\<close>: \<open>Inl\<close> the answer given at once, \<open>Inr\<close> the question written to the child.
  \<open>refresh_timeout\<close> is the timer that answers in its place.
\<close>

definition refreshBusy :: "bool \<Rightarrow> string \<Rightarrow> rpc_child \<Rightarrow> (bool + js) \<times> rpc_child" where
  "refreshBusy writable i c =
    (if rc_state c \<noteq> DaemonRunning \<or> \<not> rc_child c then (Inl (rc_busy c), c)
     else if writable then (Inr (Obj [(''id'', Str i), (''type'', Str ''get_state'')]), c\<lparr>rc_statePending := rc_statePending c @ [i]\<rparr>)
     else (Inl (rc_busy c), c))"

definition refresh_timeout :: "string \<Rightarrow> rpc_child \<Rightarrow> bool \<times> rpc_child" where
  "refresh_timeout i c = (rc_busy c, c\<lparr>rc_statePending := removeAll i (rc_statePending c)\<rparr>)"

definition noteRestart :: "rpc_child \<Rightarrow> rpc_child" where
  "noteRestart c = c\<lparr>rc_restartCount := rc_restartCount c + 1\<rparr>"

end
