(* ===== verification/Supervisor.thy ===== *)
theory Supervisor imports RpcChild
begin

text \<open>
  The supervisor of the daemons (\<open>daemon/supervisor.ts\<close>): the fleet of child processes
  with their restarts, the requests of the control socket and the scheduled prompts.

  A slot (\<open>ChildSlot\<close>, with its \<open>RpcChild\<close>) is an entry of \<open>sv_slots\<close>, so that timers and
  listeners name the slot they were made for; \<open>sv_children\<close> maps a daemon's id to its
  current slot. The timers armed are the entries of \<open>sv_timers\<close>, a handle with its slot; \<open>sl_restartTimer\<close> is the
  handle the slot remembers. What the code does outside is recorded in \<open>sv_effects\<close>. A promise awaited on a child's \<open>exit\<close> event is
  an entry of \<open>sv_waiters\<close> naming the slot and what continues; a question about a turn
  (\<open>refreshBusy\<close>) is one of \<open>sv_firing\<close>. Continuations run at the event they wait for,
  in the order they were registered, each to its end (in the code the later part of a
  \<open>restart_all\<close> runs a few microtasks later, still within that event).
\<close>

definition RESTART_BACKOFFS_MS :: "int list" where
  "RESTART_BACKOFFS_MS = [1000, 5000, 30000, 5 * 60000]"

definition supervisorSockPath :: "string option \<Rightarrow> string \<Rightarrow> platform \<Rightarrow> string \<Rightarrow> string" where
  "supervisorSockPath override home plat user =
    (let root = (case override of Some r \<Rightarrow> (if r = '''' then home else r) | None \<Rightarrow> home) in
     ipcAddress ''supervisor'' (path_join [root, ''.pi'', ''remote'', ''supervisor.sock'']) plat user)"

datatype fire_action = FireSend | FireWakeAndSend | FireSkipDown | FireSkipBusy

definition decideFireAction :: "bool \<Rightarrow> bool \<Rightarrow> bool \<Rightarrow> bool \<Rightarrow> fire_action" where
  "decideFireAction running busy wake skipIfBusy =
    (if \<not> running then (if wake then FireWakeAndSend else FireSkipDown)
     else if skipIfBusy \<and> busy then FireSkipBusy
     else FireSend)"

record child_slot =
  sl_id :: string
  sl_cwd :: string
  sl_opts :: rpc_options
  sl_child :: rpc_child
  sl_restartTimer :: "nat option"
  sl_restartAttempt :: nat

text \<open>What the supervisor does to the world, newest last. A reply names its connection.\<close>

datatype sv_effect =
    Spawned nat "string list"
  | Terminated nat
  | Wrote nat js
  | RestartIn nat int
  | Replied nat js
  | Fired string string

text \<open>What continues when a child has ended.\<close>

datatype waiter =
    WaitStop nat string
  | WaitRestart nat listed_daemon
  | WaitUnregister nat string
  | WaitStopAll nat bool "string list" "string list" "string list"
  | WaitShutdown

record firing =
  fi_slot :: nat
  fi_question :: string
  fi_job :: cron_job
  fi_reply :: "nat option"

record supervisor =
  sv_children :: "(string, nat) omap"
  sv_slots :: "child_slot list"
  sv_timers :: "(nat \<times> nat) list"
  sv_nextTimer :: nat
  sv_cronJobs :: "(string, string \<times> string option) omap"
  sv_shuttingDown :: bool
  sv_waiters :: "(nat \<times> waiter) list"
  sv_firing :: "firing list"
  sv_registry :: json_file
  sv_cron :: json_file
  sv_cronLog :: "string option"
  sv_effects :: "sv_effect list"

text \<open>
  The surroundings at one event: the machine, the extension's path, the clock (as a
  number and as a date), the cron engine, what a folder's configuration file holds, whether a
  write to a child succeeds, the faults of the two files' writes and of the log's, the
  operating system's process numbers and the random ids.
\<close>

record surroundings =
  su_host :: machine
  su_ext :: string
  su_now :: int
  su_iso :: string
  su_croner :: croner
  su_disk :: local_config
  su_writable :: bool
  su_fault :: write_failure
  su_cronFault :: write_failure
  su_logOk :: bool
  su_pid :: "nat \<Rightarrow> int"
  su_gen :: "nat \<Rightarrow> string"
  su_question :: string

definition slot :: "supervisor \<Rightarrow> nat \<Rightarrow> child_slot" where
  "slot s n = sv_slots s ! n"

definition set_slot :: "nat \<Rightarrow> (child_slot \<Rightarrow> child_slot) \<Rightarrow> supervisor \<Rightarrow> supervisor" where
  "set_slot n g s = s\<lparr>sv_slots := (sv_slots s)[n := g (slot s n)]\<rparr>"

definition effect :: "sv_effect \<Rightarrow> supervisor \<Rightarrow> supervisor" where
  "effect e s = s\<lparr>sv_effects := sv_effects s @ [e]\<rparr>"

definition child_at :: "supervisor \<Rightarrow> string \<Rightarrow> child_slot option" where
  "child_at s i = map_option (slot s) (map_of (sv_children s) i)"

definition running :: "child_slot \<Rightarrow> bool" where
  "running sl \<longleftrightarrow> rc_state (sl_child sl) = DaemonRunning"

subsection \<open>Children\<close>

text \<open>\<open>slot.child.spawn()\<close> and \<open>slot.child.stop()\<close>; the latter says whether there is an end to wait for.\<close>

definition spawn_slot :: "surroundings \<Rightarrow> nat \<Rightarrow> supervisor \<Rightarrow> supervisor" where
  "spawn_slot su n s =
    (let (args, c) = rpc_spawn (sl_opts (slot s n)) (su_disk su) (su_now su) (sl_child (slot s n));
         s1 = set_slot n (\<lambda>sl. sl\<lparr>sl_child := c\<rparr>) s in
     case args of None \<Rightarrow> s1 | Some a \<Rightarrow> effect (Spawned n a) s1)"

definition stop_slot :: "nat \<Rightarrow> supervisor \<Rightarrow> bool \<times> supervisor" where
  "stop_slot n s =
    (let (waits, c) = rpc_stop (sl_child (slot s n)); s1 = set_slot n (\<lambda>sl. sl\<lparr>sl_child := c\<rparr>) s in
     (waits, if waits then effect (Terminated n) s1 else s1))"

definition clear_timer :: "nat \<Rightarrow> supervisor \<Rightarrow> supervisor" where
  "clear_timer n s = (case sl_restartTimer (slot s n) of
     None \<Rightarrow> s
   | Some h \<Rightarrow> (set_slot n (\<lambda>sl. sl\<lparr>sl_restartTimer := None\<rparr>) s)\<lparr>sv_timers := filter (\<lambda>t. fst t \<noteq> h) (sv_timers s)\<rparr>)"

definition spawnEntry :: "surroundings \<Rightarrow> string \<Rightarrow> string \<Rightarrow> string option \<Rightarrow> supervisor \<Rightarrow> supervisor" where
  "spawnEntry su i cwd nm s =
    (let s1 = (case map_of (sv_children s) i of
           None \<Rightarrow> s
         | Some m \<Rightarrow> (let t = clear_timer m s in if running (slot t m) then snd (stop_slot m t) else t));
         config = \<lparr>agent_name = Some (case nm of Some n \<Rightarrow> n | None \<Rightarrow> defaultAgentName cwd), auto_start_relay = Some True\<rparr>;
         opts = \<lparr>ro_extensionPath = su_ext su, ro_cwd = cwd, ro_config = Some config\<rparr>;
         n = length (sv_slots s1);
         new = \<lparr>sl_id = i, sl_cwd = cwd, sl_opts = opts, sl_child = new_child, sl_restartTimer = None, sl_restartAttempt = 0\<rparr> in
     spawn_slot su n (s1\<lparr>sv_slots := sv_slots s1 @ [new], sv_children := omap_put (sv_children s1) i n\<rparr>))"

definition spawnAllFromRegistry :: "surroundings \<Rightarrow> supervisor \<Rightarrow> supervisor" where
  "spawnAllFromRegistry su s =
    foldl (\<lambda>t e. spawnEntry su (ld_id e) (ld_cwd e) (Some (ld_name e)) t) s (listDaemons (su_host su) (sv_registry s))"

text \<open>The \<open>exit\<close> event of the child of the daemon \<open>i\<close>.\<close>

definition onChildExit :: "surroundings \<Rightarrow> string \<Rightarrow> exit_event \<Rightarrow> supervisor \<Rightarrow> supervisor" where
  "onChildExit su i evt s =
    (if sv_shuttingDown s then s
     else case map_of (sv_children s) i of
       None \<Rightarrow> s
     | Some n \<Rightarrow>
        (if \<not> ev_isCrash evt then s
         else if ev_code evt = Some EXIT_FRESH_SESSION then
           spawn_slot su n (set_slot n (\<lambda>sl. sl\<lparr>sl_restartAttempt := 0, sl_child := noteRestart (sl_child sl)\<rparr>) s)
         else if sl_restartAttempt (slot s n) \<ge> length RESTART_BACKOFFS_MS then s
         else effect (RestartIn n (RESTART_BACKOFFS_MS ! sl_restartAttempt (slot s n)))
           ((set_slot n (\<lambda>sl. sl\<lparr>sl_restartTimer := Some (sv_nextTimer s)\<rparr>) s)
              \<lparr>sv_timers := sv_timers s @ [(sv_nextTimer s, n)], sv_nextTimer := sv_nextTimer s + 1\<rparr>)))"

text \<open>The restart timer with handle \<open>h\<close> fires.\<close>

definition restart_timer :: "surroundings \<Rightarrow> nat \<Rightarrow> supervisor \<Rightarrow> supervisor" where
  "restart_timer su h s = (case map_of (sv_timers s) h of
     None \<Rightarrow> s
   | Some n \<Rightarrow>
      spawn_slot su n ((set_slot n (\<lambda>sl. sl\<lparr>sl_restartTimer := None, sl_restartAttempt := sl_restartAttempt sl + 1,
          sl_child := noteRestart (sl_child sl)\<rparr>) s)\<lparr>sv_timers := filter (\<lambda>t. fst t \<noteq> h) (sv_timers s)\<rparr>))"

subsection \<open>Replies\<close>

definition ok_reply :: "(string \<times> js) list \<Rightarrow> js" where
  "ok_reply kvs = Obj [(''ok'', Bool True), (''data'', Obj kvs)]"

definition error_reply :: "string \<Rightarrow> js" where
  "error_reply e = Obj [(''ok'', Bool False), (''error'', Str e)]"

abbreviation strs :: "string list \<Rightarrow> js" where "strs xs \<equiv> Arr (map Str xs)"

definition no_daemon :: "string \<Rightarrow> js" where
  "no_daemon i = error_reply (''no daemon with id '' @ i)"

definition find_daemon :: "surroundings \<Rightarrow> string \<Rightarrow> supervisor \<Rightarrow> listed_daemon option" where
  "find_daemon su i s = List.find (\<lambda>d. ld_id d = i) (listDaemons (su_host su) (sv_registry s))"

definition state_at :: "daemon_state \<Rightarrow> string \<Rightarrow> supervisor \<Rightarrow> js" where
  "state_at d i s = Str (daemon_state_text (case child_at s i of Some sl \<Rightarrow> rc_state (sl_child sl) | None \<Rightarrow> d))"

definition daemon_info :: "surroundings \<Rightarrow> supervisor \<Rightarrow> listed_daemon \<Rightarrow> js" where
  "daemon_info su s e = Obj ([(''id'', Str (ld_id e)), (''cwd'', Str (ld_cwd e)), (''name'', Str (ld_name e)),
      (''state'', state_at DaemonStopped (ld_id e) s)] @
      (case map_of (sv_children s) (ld_id e) of
         None \<Rightarrow> []
       | Some n \<Rightarrow>
          (let c = sl_child (slot s n) in
           (if rc_child c then [(''pid'', Num (su_pid su n))] else []) @
           (case rc_startedAt c of Some t \<Rightarrow> [(''uptime_s'', Num ((su_now su - t) div 1000))] | None \<Rightarrow> []) @
           [(''restart_count'', Num (int (rc_restartCount c)))])))"

definition listInfo :: "surroundings \<Rightarrow> supervisor \<Rightarrow> js" where
  "listInfo su s = ok_reply [(''daemons'', Arr (map (daemon_info su s) (listDaemons (su_host su) (sv_registry s))))]"

subsection \<open>Starting\<close>

text \<open>One step of the loop of \<open>_opStartAll\<close>: the ids started and those found running.\<close>

definition start_one :: "surroundings \<Rightarrow> (string list \<times> string list) \<times> supervisor \<Rightarrow> listed_daemon \<Rightarrow> (string list \<times> string list) \<times> supervisor" where
  "start_one su acc e = (case acc of ((started, already), s) \<Rightarrow>
    (case child_at s (ld_id e) of
       Some sl \<Rightarrow>
         (if running sl then ((started, already @ [ld_id e]), s)
          else ((started @ [ld_id e], already), spawnEntry su (ld_id e) (ld_cwd e) None s))
     | None \<Rightarrow> ((started @ [ld_id e], already), spawnEntry su (ld_id e) (ld_cwd e) None s)))"

definition start_all :: "surroundings \<Rightarrow> supervisor \<Rightarrow> (string list \<times> string list) \<times> supervisor" where
  "start_all su s = foldl (start_one su) (([], []), s) (listDaemons (su_host su) (sv_registry s))"

definition opStartAll :: "surroundings \<Rightarrow> nat \<Rightarrow> supervisor \<Rightarrow> supervisor" where
  "opStartAll su k s =
    (let ((started, already), s1) = start_all su s in
     effect (Replied k (ok_reply [(''started'', strs started), (''already_running'', strs already)])) s1)"

definition opStart :: "surroundings \<Rightarrow> nat \<Rightarrow> string \<Rightarrow> supervisor \<Rightarrow> supervisor" where
  "opStart su k i s = (case find_daemon su i s of
     None \<Rightarrow> effect (Replied k (no_daemon i)) s
   | Some e \<Rightarrow>
      (if (case child_at s i of Some sl \<Rightarrow> running sl | None \<Rightarrow> False)
       then effect (Replied k (ok_reply [(''id'', Str i), (''state'', state_at DaemonRunning i s), (''started'', Bool False)])) s
       else let s1 = spawnEntry su (ld_id e) (ld_cwd e) (Some (ld_name e)) s in
         effect (Replied k (ok_reply [(''id'', Str i), (''state'', state_at DaemonStarting i s1), (''started'', Bool True)])) s1))"

subsection \<open>Stopping, and what follows the end of a child\<close>

text \<open>What each waiting request does once the child has ended.\<close>

definition stop_finish :: "nat \<Rightarrow> string \<Rightarrow> nat \<Rightarrow> supervisor \<Rightarrow> supervisor" where
  "stop_finish k i n s =
    effect (Replied k (ok_reply [(''id'', Str i), (''state'', Str (daemon_state_text (rc_state (sl_child (slot s n))))), (''stopped'', Bool True)])) s"

definition restart_finish :: "surroundings \<Rightarrow> nat \<Rightarrow> listed_daemon \<Rightarrow> supervisor \<Rightarrow> supervisor" where
  "restart_finish su k e s =
    (let s1 = spawnEntry su (ld_id e) (ld_cwd e) (Some (ld_name e)) s in
     effect (Replied k (ok_reply [(''id'', Str (ld_id e)), (''state'', state_at DaemonStarting (ld_id e) s1), (''restarted'', Bool True)])) s1)"

definition unregister_finish :: "surroundings \<Rightarrow> nat \<Rightarrow> string \<Rightarrow> bool \<Rightarrow> supervisor \<Rightarrow> supervisor" where
  "unregister_finish su k i had s =
    (let s1 = (if had then s\<lparr>sv_children := omap_del (sv_children s) i\<rparr> else s);
         (res, f) = removeDaemon (su_host su) i (su_fault su) (sv_registry s1);
         s2 = s1\<lparr>sv_registry := f\<rparr> in
     effect (Replied k (case res of
         Inl e \<Rightarrow> error_reply e
       | Inr None \<Rightarrow> ok_reply [(''removed'', Bool False)]
       | Inr (Some cwd) \<Rightarrow> ok_reply [(''removed'', Bool True), (''cwd'', Str cwd)])) s2)"

text \<open>
  The loop of \<open>_opStopAll\<close>, from the next daemon of the map that it has not visited: a
  running child is stopped and the loop waits for its end. After the last one the request
  is answered, or, for \<open>restart_all\<close>, the registry is started.
\<close>

definition stop_all_done :: "surroundings \<Rightarrow> nat \<Rightarrow> bool \<Rightarrow> string list \<Rightarrow> string list \<Rightarrow> supervisor \<Rightarrow> supervisor" where
  "stop_all_done su k again stopped already s =
    (if again then
       (let ((started, _), s1) = start_all su s in effect (Replied k (ok_reply [(''restarted'', strs started)])) s1)
     else effect (Replied k (ok_reply [(''stopped'', strs stopped), (''already_stopped'', strs already)])) s)"

fun stop_all_loop ::
    "surroundings \<Rightarrow> nat \<Rightarrow> bool \<Rightarrow> string list \<Rightarrow> string list \<Rightarrow> string list \<Rightarrow> (string \<times> nat) list \<Rightarrow> supervisor \<Rightarrow> supervisor" where
  "stop_all_loop su k again visited stopped already [] s = stop_all_done su k again stopped already s"
| "stop_all_loop su k again visited stopped already ((i, n) # rest) s =
    (if i \<in> set visited then stop_all_loop su k again visited stopped already rest s
     else if \<not> running (slot s n) then stop_all_loop su k again (visited @ [i]) stopped (already @ [i]) rest s
     else let (waits, s1) = stop_slot n (clear_timer n s) in
       if waits then s1\<lparr>sv_waiters := sv_waiters s1 @ [(n, WaitStopAll k again (visited @ [i]) (stopped @ [i]) already)]\<rparr>
       else stop_all_loop su k again (visited @ [i]) (stopped @ [i]) already rest s1)"

definition opStopAll :: "surroundings \<Rightarrow> nat \<Rightarrow> bool \<Rightarrow> supervisor \<Rightarrow> supervisor" where
  "opStopAll su k again s = stop_all_loop su k again [] [] [] (sv_children s) s"

definition opStop :: "surroundings \<Rightarrow> nat \<Rightarrow> string \<Rightarrow> supervisor \<Rightarrow> supervisor" where
  "opStop su k i s = (case find_daemon su i s of
     None \<Rightarrow> effect (Replied k (no_daemon i)) s
   | Some e \<Rightarrow>
      (case map_of (sv_children s) i of
         Some n \<Rightarrow>
           (if running (slot s n) then
              (let (waits, s1) = stop_slot n (clear_timer n s) in
               if waits then s1\<lparr>sv_waiters := sv_waiters s1 @ [(n, WaitStop k i)]\<rparr> else stop_finish k i n s1)
            else effect (Replied k (ok_reply [(''id'', Str i), (''state'', state_at DaemonStopped i s), (''stopped'', Bool False)])) s)
       | None \<Rightarrow> effect (Replied k (ok_reply [(''id'', Str i), (''state'', Str ''stopped''), (''stopped'', Bool False)])) s))"

definition opRestart :: "surroundings \<Rightarrow> nat \<Rightarrow> string \<Rightarrow> supervisor \<Rightarrow> supervisor" where
  "opRestart su k i s = (case find_daemon su i s of
     None \<Rightarrow> effect (Replied k (no_daemon i)) s
   | Some e \<Rightarrow>
      (case map_of (sv_children s) i of
         Some n \<Rightarrow>
           (if running (slot s n) then
              (let (waits, s1) = stop_slot n (clear_timer n s) in
               if waits then s1\<lparr>sv_waiters := sv_waiters s1 @ [(n, WaitRestart k e)]\<rparr> else restart_finish su k e s1)
            else restart_finish su k e s)
       | None \<Rightarrow> restart_finish su k e s))"

definition opUnregister :: "surroundings \<Rightarrow> nat \<Rightarrow> string \<Rightarrow> supervisor \<Rightarrow> supervisor" where
  "opUnregister su k i s = (case map_of (sv_children s) i of
     None \<Rightarrow> unregister_finish su k i False s
   | Some n \<Rightarrow>
      (let (waits, s1) = stop_slot n (clear_timer n s) in
       if waits then s1\<lparr>sv_waiters := sv_waiters s1 @ [(n, WaitUnregister k i)]\<rparr> else unregister_finish su k i True s1))"

definition continue_with :: "surroundings \<Rightarrow> nat \<Rightarrow> waiter \<Rightarrow> supervisor \<Rightarrow> supervisor" where
  "continue_with su n w s = (case w of
     WaitStop k i \<Rightarrow> stop_finish k i n s
   | WaitRestart k e \<Rightarrow> restart_finish su k e s
   | WaitUnregister k i \<Rightarrow> unregister_finish su k i True s
   | WaitStopAll k again visited stopped already \<Rightarrow> stop_all_loop su k again visited stopped already (sv_children s) s
   | WaitShutdown \<Rightarrow> (if WaitShutdown \<in> snd ` set (sv_waiters s) then s else s\<lparr>sv_children := []\<rparr>))"

text \<open>The continuations waiting for the slot, in order.\<close>

definition resume :: "surroundings \<Rightarrow> nat \<Rightarrow> supervisor \<Rightarrow> supervisor" where
  "resume su n s =
    (let ws = map snd (filter (\<lambda>w. fst w = n) (sv_waiters s)) in
     foldl (\<lambda>t w. continue_with su n w t) (s\<lparr>sv_waiters := filter (\<lambda>w. fst w \<noteq> n) (sv_waiters s)\<rparr>) ws)"

subsection \<open>Prompts and registrations\<close>

definition opSend :: "surroundings \<Rightarrow> nat \<Rightarrow> string \<Rightarrow> string \<Rightarrow> supervisor \<Rightarrow> supervisor" where
  "opSend su k i t s = (case map_of (sv_children s) i of
     None \<Rightarrow> effect (Replied k (error_reply (''daemon '' @ i @ '' not running''))) s
   | Some n \<Rightarrow>
      (if \<not> running (slot s n)
       then effect (Replied k (error_reply (''daemon '' @ i @ '' state is '' @ daemon_state_text (rc_state (sl_child (slot s n)))))) s
       else case sendPrompt (su_writable su) (''sv-'' @ int_text (su_now su)) t (sl_child (slot s n)) of
         None \<Rightarrow> effect (Replied k (ok_reply [(''id'', Str i), (''delivered'', Bool False)])) s
       | Some l \<Rightarrow> effect (Replied k (ok_reply [(''id'', Str i), (''delivered'', Bool True)])) (effect (Wrote n l) s)))"

definition opRegister :: "surroundings \<Rightarrow> nat \<Rightarrow> string \<Rightarrow> supervisor \<Rightarrow> supervisor" where
  "opRegister su k rawCwd s =
    (let (res, f) = addDaemon (su_host su) rawCwd None (su_fault su) (sv_registry s) in
     effect (Replied k (case res of
         Inl e \<Rightarrow> error_reply e
       | Inr (i, cwd, _) \<Rightarrow> ok_reply [(''id'', Str i), (''cwd'', Str cwd)])) (s\<lparr>sv_registry := f\<rparr>))"

subsection \<open>Schedules\<close>

definition stopCron :: "string \<Rightarrow> supervisor \<Rightarrow> supervisor" where
  "stopCron i s = s\<lparr>sv_cronJobs := omap_del (sv_cronJobs s) i\<rparr>"

definition scheduleCron :: "surroundings \<Rightarrow> cron_job \<Rightarrow> supervisor \<Rightarrow> supervisor" where
  "scheduleCron su j s =
    (let s1 = stopCron (cj_id j) s in
     case su_croner su (cj_schedule j) (zone (cj_tz j)) of
       Inl _ \<Rightarrow> s1
     | Inr _ \<Rightarrow> s1\<lparr>sv_cronJobs := omap_put (sv_cronJobs s1) (cj_id j) (cj_schedule j, zone (cj_tz j))\<rparr>)"

definition reconcileCron :: "surroundings \<Rightarrow> supervisor \<Rightarrow> supervisor" where
  "reconcileCron su s =
    foldl (\<lambda>t j. if cj_enabled j then scheduleCron su j t else t) (s\<lparr>sv_cronJobs := []\<rparr>) (loadCronRegistry (sv_cron s))"

text \<open>\<open>show_time\<close> prints a time as \<open>toISOString\<close> does.\<close>

definition job_view :: "surroundings \<Rightarrow> (int \<Rightarrow> string) \<Rightarrow> cron_job \<Rightarrow> js" where
  "job_view su show_time j = (case job_js j of
     Obj kvs \<Rightarrow> Obj (kvs @ [(''next_run'', case nextRunFor (su_croner su) (su_now su) j of Some t \<Rightarrow> Str (show_time t) | None \<Rightarrow> Null)])
   | v \<Rightarrow> v)"

definition opCronAdd :: "surroundings \<Rightarrow> (int \<Rightarrow> string) \<Rightarrow> nat \<Rightarrow> new_job \<Rightarrow> supervisor \<Rightarrow> supervisor" where
  "opCronAdd su show_time k input s = (case validateSchedule (su_croner su) (su_now su) (nj_schedule input) (nj_tz input) of
     Inl e \<Rightarrow> effect (Replied k (error_reply e)) s
   | Inr _ \<Rightarrow>
      (let (res, f) = addJob (su_gen su) (su_iso su) input (su_cronFault su) (sv_cron s); s1 = s\<lparr>sv_cron := f\<rparr> in
       case res of
         Inl e \<Rightarrow> effect (Replied k (error_reply (''Error: '' @ e))) s1
       | Inr job \<Rightarrow> effect (Replied k (ok_reply [(''job'', job_view su show_time job)])) (scheduleCron su job s1)))"

definition opCronList :: "surroundings \<Rightarrow> (int \<Rightarrow> string) \<Rightarrow> nat \<Rightarrow> supervisor \<Rightarrow> supervisor" where
  "opCronList su show_time k s = effect (Replied k (ok_reply [(''jobs'', Arr (map (job_view su show_time) (loadCronRegistry (sv_cron s))))])) s"

definition opCronRemove :: "surroundings \<Rightarrow> nat \<Rightarrow> string \<Rightarrow> supervisor \<Rightarrow> supervisor" where
  "opCronRemove su k i s =
    (let (res, f) = removeJob i (su_cronFault su) (sv_cron s); s1 = s\<lparr>sv_cron := f\<rparr> in
     case res of
       Inl e \<Rightarrow> effect (Replied k (error_reply (''Error: '' @ e))) s1
     | Inr removed \<Rightarrow> effect (Replied k (ok_reply [(''removed'', Bool removed)])) (stopCron i s1))"

definition opCronEnable :: "surroundings \<Rightarrow> nat \<Rightarrow> string \<Rightarrow> bool \<Rightarrow> supervisor \<Rightarrow> supervisor" where
  "opCronEnable su k i enabled s =
    (let (res, f) = setJobEnabled i enabled (su_cronFault su) (sv_cron s); s1 = s\<lparr>sv_cron := f\<rparr> in
     case res of
       Inl e \<Rightarrow> effect (Replied k (error_reply (''Error: '' @ e))) s1
     | Inr updated \<Rightarrow>
        (let s2 = (if updated then
               (let t = stopCron i s1 in
                case getJob i f of Some j \<Rightarrow> (if enabled then scheduleCron su j t else t) | None \<Rightarrow> t)
             else s1) in
         effect (Replied k (ok_reply [(''job_id'', Str i), (''enabled'', Bool enabled), (''updated'', Bool updated)])) s2))"

definition opCronLog :: "nat \<Rightarrow> string option \<Rightarrow> int option \<Rightarrow> supervisor \<Rightarrow> supervisor" where
  "opCronLog k i n s = effect (Replied k (ok_reply [(''entries'', Arr (readCronLog i n (sv_cronLog s)))])) s"

subsection \<open>A scheduled prompt fires\<close>

text \<open>
  The end of \<open>fireJob\<close>: the outcome is recorded on the job and in the log. A write of the
  registry that throws leaves the log without the line, and a request with an error.
\<close>

definition fire_record :: "surroundings \<Rightarrow> nat option \<Rightarrow> cron_job \<Rightarrow> cron_result \<Rightarrow> supervisor \<Rightarrow> supervisor" where
  "fire_record su k job r s =
    (let (res, f) = recordRun (cj_id job) (su_iso su) (cron_result_text r) (su_cronFault su) (sv_cron s); s1 = s\<lparr>sv_cron := f\<rparr> in
     case res of
       Inl e \<Rightarrow> (case k of Some c \<Rightarrow> effect (Replied c (error_reply (''Error: '' @ e))) s1 | None \<Rightarrow> s1)
     | Inr _ \<Rightarrow>
        (let s2 = effect (Fired (cj_id job) (cron_result_text r))
               (s1\<lparr>sv_cronLog := appendCronLog (su_logOk su) (su_now su) job r (sv_cronLog s1)\<rparr>) in
         case k of
           Some c \<Rightarrow> effect (Replied c (ok_reply [(''job_id'', Str (cj_id job)), (''result'', Str (cron_result_text r))])) s2
         | None \<Rightarrow> s2))"

text \<open>The prompt written to the child of a slot.\<close>

definition deliver_prompt :: "surroundings \<Rightarrow> nat \<Rightarrow> cron_job \<Rightarrow> cron_result \<Rightarrow> supervisor \<Rightarrow> cron_result \<times> supervisor" where
  "deliver_prompt su n job r s =
    (case sendPrompt (su_writable su) (''sv-'' @ int_text (su_now su)) (cj_prompt job) (sl_child (slot s n)) of
       Some l \<Rightarrow> (r, effect (Wrote n l) s)
     | None \<Rightarrow> (DeliverFailed, s))"

text \<open>What \<open>fireJob\<close> does once it knows whether a turn is running; \<open>n\<close> is the slot it looked up.\<close>

definition fire_act :: "surroundings \<Rightarrow> nat option \<Rightarrow> cron_job \<Rightarrow> nat option \<Rightarrow> bool \<Rightarrow> bool \<Rightarrow> supervisor \<Rightarrow> supervisor" where
  "fire_act su k job n is_running busy s =
    (case decideFireAction is_running busy (cj_wake job) (cj_skip_if_busy job) of
       FireSkipDown \<Rightarrow> fire_record su k job SkippedDown s
     | FireSkipBusy \<Rightarrow> fire_record su k job SkippedBusy s
     | FireWakeAndSend \<Rightarrow>
        (case find_daemon su (cj_daemon_id job) s of
           None \<Rightarrow> fire_record su k job SkippedDown s
         | Some e \<Rightarrow>
            (let s1 = spawnEntry su (ld_id e) (ld_cwd e) (Some (ld_name e)) s in
             case map_of (sv_children s1) (cj_daemon_id job) of
               None \<Rightarrow> fire_record su k job DeliverFailed s1
             | Some m \<Rightarrow> (let (r, s2) = deliver_prompt su m job WokeAndDelivered s1 in fire_record su k job r s2)))
     | FireSend \<Rightarrow>
        (case n of
           None \<Rightarrow> fire_record su k job DeliverFailed s
         | Some m \<Rightarrow> (let (r, s2) = deliver_prompt su m job Delivered s in fire_record su k job r s2)))"

definition fireJob :: "surroundings \<Rightarrow> nat option \<Rightarrow> string \<Rightarrow> bool \<Rightarrow> supervisor \<Rightarrow> supervisor" where
  "fireJob su k i manual s = (case getJob i (sv_cron s) of
     None \<Rightarrow> s
   | Some job \<Rightarrow>
      (if \<not> cj_enabled job \<and> \<not> manual then fire_record su k job SkippedDisabled s
       else let n = map_of (sv_children s) (cj_daemon_id job);
                is_running = (case n of Some m \<Rightarrow> running (slot s m) | None \<Rightarrow> False) in
         case n of
           Some m \<Rightarrow>
             (if is_running \<and> cj_skip_if_busy job then
                (let (ans, c) = refreshBusy (su_writable su) (su_question su) (sl_child (slot s m));
                     s1 = set_slot m (\<lambda>sl. sl\<lparr>sl_child := c\<rparr>) s in
                 case ans of
                   Inl busy \<Rightarrow> fire_act su k job n True busy s1
                 | Inr l \<Rightarrow> (effect (Wrote m l) s1)\<lparr>sv_firing := sv_firing s1 @
                     [\<lparr>fi_slot = m, fi_question = su_question su, fi_job = job, fi_reply = k\<rparr>]\<rparr>)
              else fire_act su k job n is_running False s)
         | None \<Rightarrow> fire_act su k job n False False s))"

definition opCronRun :: "surroundings \<Rightarrow> nat \<Rightarrow> string \<Rightarrow> supervisor \<Rightarrow> supervisor" where
  "opCronRun su k i s = (if getJob i (sv_cron s) = None then effect (Replied k (error_reply (''no cron job with id '' @ i))) s
     else fireJob su (Some k) i True s)"

text \<open>A question is answered: the firing that asked it goes on.\<close>

definition answered :: "surroundings \<Rightarrow> nat \<Rightarrow> supervisor \<Rightarrow> string \<times> bool \<Rightarrow> supervisor" where
  "answered su n s qb =
    (case List.find (\<lambda>f. fi_slot f = n \<and> fi_question f = fst qb) (sv_firing s) of
       None \<Rightarrow> s
     | Some f \<Rightarrow> fire_act su (fi_reply f) (fi_job f) (Some n) True (snd qb)
         (s\<lparr>sv_firing := filter (\<lambda>g. \<not> (fi_slot g = n \<and> fi_question g = fst qb)) (sv_firing s)\<rparr>))"

text \<open>\<open>Date.parse\<close> is an argument; \<open>None\<close> is \<open>NaN\<close>.\<close>

definition catch_up_one :: "surroundings \<Rightarrow> (string \<Rightarrow> int option) \<Rightarrow> supervisor \<Rightarrow> cron_job \<Rightarrow> supervisor" where
  "catch_up_one su date_parse s j =
    (if \<not> cj_enabled j \<or> \<not> cj_catchup j then s
     else case su_croner su (cj_schedule j) (zone (cj_tz j)) of
       Inl _ \<Rightarrow> s
     | Inr c \<Rightarrow>
        (case cr_previous c (su_now su) of
           None \<Rightarrow> s
         | Some prev \<Rightarrow>
            (case (case cj_last_run j of Some t \<Rightarrow> (if t = '''' then Some 0 else date_parse t) | None \<Rightarrow> Some 0) of
               None \<Rightarrow> s
             | Some lastRunMs \<Rightarrow> (if prev > lastRunMs then fireJob su None (cj_id j) True s else s))))"

definition runCatchup :: "surroundings \<Rightarrow> (string \<Rightarrow> int option) \<Rightarrow> supervisor \<Rightarrow> supervisor" where
  "runCatchup su date_parse s = foldl (catch_up_one su date_parse) s (loadCronRegistry (sv_cron s))"

subsection \<open>The supervisor's own life\<close>

text \<open>
  \<open>start\<close>: \<open>alive\<close> says that another supervisor answers the probe of the socket. The names
  are migrated before it is asked. \<open>Inl\<close> is the error thrown.
\<close>

definition start_supervisor :: "surroundings \<Rightarrow> (string \<Rightarrow> int option) \<Rightarrow> bool \<Rightarrow> supervisor \<Rightarrow> (string + unit) \<times> supervisor" where
  "start_supervisor su date_parse alive s =
    (let (res, f) = migrateRegistryNames (su_fault su) (sv_registry s); s1 = s\<lparr>sv_registry := f\<rparr> in
     case res of
       Inl e \<Rightarrow> (Inl e, s1)
     | Inr _ \<Rightarrow>
        (if alive then (Inl ''Another pi-supervisord is already running'', s1)
         else (Inr (), runCatchup su date_parse (reconcileCron su (spawnAllFromRegistry su s1)))))"

definition stop_child :: "supervisor \<Rightarrow> string \<times> nat \<Rightarrow> supervisor" where
  "stop_child s e =
    (let (waits, s1) = stop_slot (snd e) s in
     if waits then s1\<lparr>sv_waiters := sv_waiters s1 @ [(snd e, WaitShutdown)]\<rparr> else s1)"

definition stop_supervisor :: "supervisor \<Rightarrow> supervisor" where
  "stop_supervisor s =
    (let s1 = foldl (\<lambda>t e. clear_timer (snd e) t) (s\<lparr>sv_shuttingDown := True, sv_cronJobs := []\<rparr>) (sv_children s);
         s2 = foldl stop_child s1 (sv_children s1) in
     if WaitShutdown \<in> snd ` set (sv_waiters s2) then s2 else s2\<lparr>sv_children := []\<rparr>)"

definition new_supervisor :: "json_file \<Rightarrow> json_file \<Rightarrow> string option \<Rightarrow> supervisor" where
  "new_supervisor registry cron log = \<lparr>sv_children = [], sv_slots = [], sv_timers = [], sv_nextTimer = 0, sv_cronJobs = [],
     sv_shuttingDown = False, sv_waiters = [], sv_firing = [], sv_registry = registry, sv_cron = cron, sv_cronLog = log, sv_effects = []\<rparr>"

subsection \<open>Requests\<close>

definition handleRequest :: "surroundings \<Rightarrow> (int \<Rightarrow> string) \<Rightarrow> nat \<Rightarrow> control_request \<Rightarrow> supervisor \<Rightarrow> supervisor" where
  "handleRequest su show_time k r s = (case r of
     ReqList \<Rightarrow> effect (Replied k (listInfo su s)) s
   | ReqStatus \<Rightarrow> effect (Replied k (listInfo su s)) s
   | ReqStartAll \<Rightarrow> opStartAll su k s
   | ReqStart i \<Rightarrow> opStart su k i s
   | ReqStopAll \<Rightarrow> opStopAll su k False s
   | ReqStop i \<Rightarrow> opStop su k i s
   | ReqRestartAll \<Rightarrow> opStopAll su k True s
   | ReqRestart i \<Rightarrow> opRestart su k i s
   | ReqSend i t \<Rightarrow> opSend su k i t s
   | ReqRegister c \<Rightarrow> opRegister su k c s
   | ReqUnregister i \<Rightarrow> opUnregister su k i s
   | ReqCronAdd j \<Rightarrow> opCronAdd su show_time k j s
   | ReqCronList \<Rightarrow> opCronList su show_time k s
   | ReqCronRemove i \<Rightarrow> opCronRemove su k i s
   | ReqCronEnable i b \<Rightarrow> opCronEnable su k i b s
   | ReqCronRun i \<Rightarrow> opCronRun su k i s
   | ReqCronLog i n \<Rightarrow> opCronLog k i n s
   | UnknownOp t \<Rightarrow> effect (Replied k (error_reply (''unknown op: '' @ t))) s)"

text \<open>
  A chunk on a connection: the new buffer, and the line handed to \<open>_handleRequest\<close>. A
  line that does not parse is answered with the parser's message.
\<close>

definition connection_data :: "string \<Rightarrow> string \<Rightarrow> string option \<times> string" where
  "connection_data chunk buf =
    (let b = buf @ chunk in (map_option (\<lambda>nl. take nl b) (index_of b nl_char), b))"

definition request_line :: "surroundings \<Rightarrow> (int \<Rightarrow> string) \<Rightarrow> (string \<Rightarrow> string) \<Rightarrow> nat \<Rightarrow> string \<Rightarrow> supervisor \<Rightarrow> supervisor option" where
  "request_line su show_time perr k line s = (case parseRequest perr line of
     Inl e \<Rightarrow> Some (effect (Replied k (error_reply e)) s)
   | Inr v \<Rightarrow> map_option (\<lambda>r. handleRequest su show_time k r s) (request_of v))"

subsection \<open>Events\<close>

datatype sv_event =
    Request nat control_request
  | ChildEnds nat "int option" "string option"
  | SpawnFails nat
  | Output nat string
  | QuestionTimesOut nat string
  | TimerFires nat
  | CronDue string
  | Shutdown

text \<open>
  The child of a slot ended: its own handling answers the questions in flight and emits the
  event, the supervisor's listener runs, then what waited continues.
\<close>

definition child_ends :: "surroundings \<Rightarrow> nat \<Rightarrow> int option \<Rightarrow> string option \<Rightarrow> supervisor \<Rightarrow> supervisor" where
  "child_ends su n code sig s =
    (let (evt, qs, c) = rpc_exit code sig (sl_child (slot s n));
         s1 = onChildExit su (sl_id (slot s n)) evt (set_slot n (\<lambda>sl. sl\<lparr>sl_child := c\<rparr>) s) in
     resume su n (foldl (answered su n) s1 (map (\<lambda>q. (q, False)) qs)))"

definition spawn_fails :: "surroundings \<Rightarrow> nat \<Rightarrow> supervisor \<Rightarrow> supervisor" where
  "spawn_fails su n s =
    (let (evt, c) = rpc_error (sl_child (slot s n)) in
     resume su n (onChildExit su (sl_id (slot s n)) evt (set_slot n (\<lambda>sl. sl\<lparr>sl_child := c\<rparr>) s)))"

definition child_output :: "surroundings \<Rightarrow> nat \<Rightarrow> string \<Rightarrow> supervisor \<Rightarrow> supervisor" where
  "child_output su n chunk s =
    (let (answers, _, c) = onStdout chunk (sl_child (slot s n)) in
     foldl (answered su n) (set_slot n (\<lambda>sl. sl\<lparr>sl_child := c\<rparr>) s) answers)"

definition question_timeout :: "surroundings \<Rightarrow> nat \<Rightarrow> string \<Rightarrow> supervisor \<Rightarrow> supervisor" where
  "question_timeout su n q s =
    (if q \<notin> set (rc_statePending (sl_child (slot s n))) then s
     else let (busy, c) = refresh_timeout q (sl_child (slot s n)) in
       answered su n (set_slot n (\<lambda>sl. sl\<lparr>sl_child := c\<rparr>) s) (q, busy))"

definition sv_step :: "surroundings \<Rightarrow> (int \<Rightarrow> string) \<Rightarrow> sv_event \<Rightarrow> supervisor \<Rightarrow> supervisor" where
  "sv_step su show_time ev s = (case ev of
     Request k r \<Rightarrow> handleRequest su show_time k r s
   | ChildEnds n code sig \<Rightarrow> child_ends su n code sig s
   | SpawnFails n \<Rightarrow> spawn_fails su n s
   | Output n chunk \<Rightarrow> child_output su n chunk s
   | QuestionTimesOut n q \<Rightarrow> question_timeout su n q s
   | TimerFires h \<Rightarrow> restart_timer su h s
   | CronDue i \<Rightarrow> (if omap_has (sv_cronJobs s) i then fireJob su None i False s else s)
   | Shutdown \<Rightarrow> stop_supervisor s)"

end
