(* ===== verification/Fleet.thy ===== *)
theory Fleet imports Supervisor
begin

text \<open>
  What the supervisor keeps true of its fleet, whatever its children, its timers and its
  clients do. Requests overlap freely: any number of them may be waiting for children to end
  when another comes in. Three overlaps are left out (\<open>orderly\<close>), because the code
  loses a process in them (\<open>stale_unregister\<close>, \<open>restart_after_shutdown\<close>,
  \<open>start_during_shutdown\<close>): an unregistration while a restart already waits for
  the same child, a shutdown while a restart waits, and a request once the shutdown has begun.
\<close>

definition alive :: "supervisor \<Rightarrow> nat \<Rightarrow> bool" where
  "alive s n \<longleftrightarrow> n < length (sv_slots s) \<and> running (slot s n)"

abbreviation stopping :: "supervisor \<Rightarrow> nat \<Rightarrow> bool" where
  "stopping s n \<equiv> rc_stopping (sl_child (slot s n))"

abbreviation current :: "supervisor \<Rightarrow> string \<Rightarrow> nat option" where
  "current s i \<equiv> map_of (sv_children s) i"

definition crashed :: "child_slot \<Rightarrow> bool" where
  "crashed sl \<longleftrightarrow> rc_state (sl_child sl) = DaemonCrashed"

definition slot_fine :: "child_slot \<Rightarrow> bool" where
  "slot_fine sl \<longleftrightarrow> (running sl \<longrightarrow> rc_child (sl_child sl)) \<and> (rc_child (sl_child sl) \<longrightarrow> running sl \<or> crashed sl) \<and>
     sl_restartAttempt sl \<le> length RESTART_BACKOFFS_MS"

definition map_ok :: "supervisor \<Rightarrow> bool" where
  "map_ok s \<longleftrightarrow> omap_wf (sv_children s) \<and>
     (\<forall>i n. current s i = Some n \<longrightarrow> n < length (sv_slots s) \<and> sl_id (slot s n) = i)"

text \<open>A process nobody has asked to end is the current one of its daemon.\<close>

definition owned :: "supervisor \<Rightarrow> bool" where
  "owned s \<longleftrightarrow> (\<forall>n. alive s n \<longrightarrow> \<not> stopping s n \<longrightarrow> current s (sl_id (slot s n)) = Some n)"

definition timers_ok :: "supervisor \<Rightarrow> bool" where
  "timers_ok s \<longleftrightarrow> distinct (map fst (sv_timers s)) \<and>
     (\<forall>h n. (h, n) \<in> set (sv_timers s) \<longrightarrow> h < sv_nextTimer s \<and> n < length (sv_slots s) \<and> sl_restartTimer (slot s n) = Some h \<and>
        current s (sl_id (slot s n)) = Some n \<and> crashed (slot s n) \<and> sl_restartAttempt (slot s n) < length RESTART_BACKOFFS_MS) \<and>
     (\<forall>n h. n < length (sv_slots s) \<longrightarrow> sl_restartTimer (slot s n) = Some h \<longrightarrow> (h, n) \<in> set (sv_timers s))"

text \<open>A crashed daemon has its timer armed, or has used up its attempts (the ids in \<open>E\<close> are exempt).\<close>

definition retried :: "string set \<Rightarrow> supervisor \<Rightarrow> bool" where
  "retried E s \<longleftrightarrow> (\<not> sv_shuttingDown s \<longrightarrow> (\<forall>i n. current s i = Some n \<longrightarrow> i \<notin> E \<longrightarrow> crashed (slot s n) \<longrightarrow> \<not> rc_child (sl_child (slot s n)) \<longrightarrow>
     sl_restartTimer (slot s n) \<noteq> None \<or> sl_restartAttempt (slot s n) = length RESTART_BACKOFFS_MS))"

definition calmed :: "supervisor \<Rightarrow> bool" where
  "calmed s \<longleftrightarrow> (sv_shuttingDown s \<longrightarrow> sv_timers s = [] \<and> (\<forall>n. alive s n \<longrightarrow> stopping s n))"

definition core :: "string set \<Rightarrow> supervisor \<Rightarrow> bool" where
  "core E s \<longleftrightarrow> (\<forall>n < length (sv_slots s). slot_fine (slot s n)) \<and> map_ok s \<and> owned s \<and> timers_ok s \<and> retried E s \<and> calmed s"

text \<open>The requests that start children again once the one they wait for has ended, and the daemon a waiting request is about.\<close>

fun starts_again :: "waiter \<Rightarrow> bool" where
  "starts_again (WaitRestart k e) = True"
| "starts_again (WaitStopAll k again visited stopped already) = again"
| "starts_again w = False"

fun unregisters :: "waiter \<Rightarrow> bool" where
  "unregisters (WaitUnregister k i) = True"
| "unregisters w = False"

fun about :: "waiter \<Rightarrow> string option" where
  "about (WaitStop k i) = Some i"
| "about (WaitRestart k e) = Some (ld_id e)"
| "about (WaitUnregister k i) = Some i"
| "about w = None"

abbreviation waits_on :: "supervisor \<Rightarrow> nat \<Rightarrow> waiter list" where
  "waits_on s n \<equiv> map snd (filter (\<lambda>w. fst w = n) (sv_waiters s))"

text \<open>No unregistration waits behind a restart.\<close>

definition in_order :: "waiter list \<Rightarrow> bool" where
  "in_order ws \<longleftrightarrow> sorted_wrt (\<lambda>v w. starts_again v \<longrightarrow> \<not> unregisters w) ws"

definition waits_ok :: "supervisor \<Rightarrow> bool" where
  "waits_ok s \<longleftrightarrow> (\<forall>n w. (n, w) \<in> set (sv_waiters s) \<longrightarrow> n < length (sv_slots s) \<and> rc_child (sl_child (slot s n)) \<and> stopping s n \<and>
       (w = WaitShutdown \<longrightarrow> sv_shuttingDown s) \<and> (sv_shuttingDown s \<longrightarrow> \<not> starts_again w) \<and>
       (\<forall>i. about w = Some i \<longrightarrow> sl_id (slot s n) = i)) \<and>
     (\<not> sv_shuttingDown s \<longrightarrow> (\<forall>n w. (n, w) \<in> set (sv_waiters s) \<longrightarrow> about w \<noteq> None \<longrightarrow> alive s n \<longrightarrow>
       current s (sl_id (slot s n)) = Some n)) \<and>
     (\<forall>n. in_order (waits_on s n))"

definition fleet_ok :: "supervisor \<Rightarrow> bool" where
  "fleet_ok s \<longleftrightarrow> core {} s \<and> waits_ok s \<and> (sv_shuttingDown s \<longrightarrow> sv_cronJobs s = [])"

subsection \<open>What an operation leaves alone\<close>

named_theorems slot_simps "reading a slot after an update"

lemma slot_set [slot_simps]: "n < length (sv_slots s) \<Longrightarrow> slot (set_slot n g s) m = (if m = n then g (slot s n) else slot s m)"
  by (simp add: slot_def set_slot_def)

lemma set_slot_fields [simp]:
  "length (sv_slots (set_slot n g s)) = length (sv_slots s)" "sv_children (set_slot n g s) = sv_children s"
  "sv_timers (set_slot n g s) = sv_timers s" "sv_nextTimer (set_slot n g s) = sv_nextTimer s"
  "sv_shuttingDown (set_slot n g s) = sv_shuttingDown s" "sv_waiters (set_slot n g s) = sv_waiters s"
  "sv_cronJobs (set_slot n g s) = sv_cronJobs s"
  by (simp_all add: set_slot_def)

lemma slot_other [simp]:
  "slot (s\<lparr>sv_children := a\<rparr>) = slot s" "slot (s\<lparr>sv_timers := t\<rparr>) = slot s" "slot (s\<lparr>sv_nextTimer := k\<rparr>) = slot s"
  "slot (s\<lparr>sv_cronJobs := c\<rparr>) = slot s" "slot (s\<lparr>sv_shuttingDown := b\<rparr>) = slot s" "slot (s\<lparr>sv_waiters := w\<rparr>) = slot s"
  "slot (s\<lparr>sv_firing := f\<rparr>) = slot s" "slot (s\<lparr>sv_registry := r\<rparr>) = slot s" "slot (s\<lparr>sv_cron := d\<rparr>) = slot s"
  "slot (s\<lparr>sv_cronLog := l\<rparr>) = slot s" "slot (effect e s) = slot s"
  by (simp_all add: slot_def effect_def fun_eq_iff)

lemma effect_fields [simp]:
  "sv_slots (effect e s) = sv_slots s" "sv_children (effect e s) = sv_children s" "sv_timers (effect e s) = sv_timers s"
  "sv_nextTimer (effect e s) = sv_nextTimer s" "sv_shuttingDown (effect e s) = sv_shuttingDown s" "sv_waiters (effect e s) = sv_waiters s"
  "sv_cronJobs (effect e s) = sv_cronJobs s"
  by (simp_all add: effect_def)

lemmas core_defs = core_def map_ok_def owned_def timers_ok_def retried_def calmed_def alive_def

text \<open>The part the invariant reads: two states that agree on it satisfy it alike.\<close>

definition same_fleet :: "supervisor \<Rightarrow> supervisor \<Rightarrow> bool" where
  "same_fleet s t \<longleftrightarrow> sv_children t = sv_children s \<and> sv_slots t = sv_slots s \<and> sv_timers t = sv_timers s \<and> sv_nextTimer t = sv_nextTimer s \<and>
     sv_shuttingDown t = sv_shuttingDown s \<and> sv_waiters t = sv_waiters s \<and> sv_cronJobs t = sv_cronJobs s"

lemma same_fleet_refl [simp]: "same_fleet s s"
  by (simp add: same_fleet_def)

lemma same_fleet_trans [trans]: "same_fleet s t \<Longrightarrow> same_fleet t u \<Longrightarrow> same_fleet s u"
  by (simp add: same_fleet_def)

lemma same_fleet_effect [simp]: "same_fleet s (effect e t) = same_fleet s t"
  by (simp add: same_fleet_def)

lemma same_fleet_fields [simp]:
  "same_fleet s (t\<lparr>sv_firing := f\<rparr>) = same_fleet s t" "same_fleet s (t\<lparr>sv_registry := r\<rparr>) = same_fleet s t"
  "same_fleet s (t\<lparr>sv_cron := d\<rparr>) = same_fleet s t" "same_fleet s (t\<lparr>sv_cronLog := l\<rparr>) = same_fleet s t"
  by (simp_all add: same_fleet_def)

lemma same_fleet_slot: "same_fleet s t \<Longrightarrow> slot t = slot s"
  by (simp add: same_fleet_def slot_def fun_eq_iff)

lemma core_cong:
  assumes "sv_children t = sv_children s" "sv_slots t = sv_slots s" "sv_timers t = sv_timers s" "sv_nextTimer t = sv_nextTimer s"
    "sv_shuttingDown t = sv_shuttingDown s"
  shows "core E t = core E s"
proof -
  have e: "slot t = slot s" using assms by (simp add: slot_def fun_eq_iff)
  show ?thesis unfolding core_defs assms e by (rule refl)
qed

lemma same_fleet_core: "same_fleet s t \<Longrightarrow> core E t = core E s"
  by (rule core_cong) (simp_all add: same_fleet_def)

lemma same_fleet_waits: "same_fleet s t \<Longrightarrow> waits_ok t = waits_ok s"
proof -
  assume a: "same_fleet s t"
  have e: "sv_children t = sv_children s" "sv_slots t = sv_slots s" "sv_shuttingDown t = sv_shuttingDown s" "sv_waiters t = sv_waiters s" "slot t = slot s"
    using a same_fleet_slot [OF a] by (simp_all add: same_fleet_def)
  show ?thesis unfolding waits_ok_def alive_def e by (rule refl)
qed

lemma same_fleet_ok: "same_fleet s t \<Longrightarrow> fleet_ok t = fleet_ok s"
  using same_fleet_core [of s t "{}"] same_fleet_waits [of s t] by (simp add: fleet_ok_def same_fleet_def)

lemma core_frame [simp]:
  "core E (effect e s) = core E s" "core E (s\<lparr>sv_registry := r\<rparr>) = core E s" "core E (s\<lparr>sv_waiters := w\<rparr>) = core E s"
  "core E (s\<lparr>sv_cronJobs := c\<rparr>) = core E s"
  by (rule core_cong; simp)+

lemma core_mono: "core E s \<Longrightarrow> E \<subseteq> F \<Longrightarrow> core F s"
  unfolding core_def retried_def by blast

lemma core_slot: "core E s \<Longrightarrow> current s i = Some n \<Longrightarrow> n < length (sv_slots s) \<and> sl_id (slot s n) = i"
  by (simp add: core_def map_ok_def)

lemma core_fine: "core E s \<Longrightarrow> n < length (sv_slots s) \<Longrightarrow> slot_fine (slot s n)"
  by (simp add: core_def)

lemma timer_facts:
  assumes "core E s" "(h, n) \<in> set (sv_timers s)"
  shows "h < sv_nextTimer s" "n < length (sv_slots s)" "sl_restartTimer (slot s n) = Some h" "current s (sl_id (slot s n)) = Some n"
    "crashed (slot s n)" "sl_restartAttempt (slot s n) < length RESTART_BACKOFFS_MS"
  using assms unfolding core_def timers_ok_def by blast+

lemma timer_listed:
  "core E s \<Longrightarrow> n < length (sv_slots s) \<Longrightarrow> sl_restartTimer (slot s n) = Some h \<Longrightarrow> (h, n) \<in> set (sv_timers s)"
  unfolding core_def timers_ok_def by blast

lemma timer_distinct: "core E s \<Longrightarrow> distinct (map fst (sv_timers s))"
  unfolding core_def timers_ok_def by blast

text \<open>A running child has no restart timer.\<close>

lemma running_no_timer:
  assumes "core E s" "n < length (sv_slots s)" "running (slot s n)"
  shows "sl_restartTimer (slot s n) = None"
proof (cases "sl_restartTimer (slot s n)")
  case (Some h)
  then have "crashed (slot s n)" using assms(1,2) timer_facts(5) timer_listed by blast
  with assms(3) show ?thesis by (simp add: running_def crashed_def)
qed

lemma clear_running: "core E s \<Longrightarrow> n < length (sv_slots s) \<Longrightarrow> running (slot s n) \<Longrightarrow> clear_timer n s = s"
  by (simp add: clear_timer_def running_no_timer)

subsection \<open>The steps the operations are made of\<close>

lemma clear_timer_fields [simp]:
  "length (sv_slots (clear_timer n s)) = length (sv_slots s)" "sv_children (clear_timer n s) = sv_children s"
  "sv_shuttingDown (clear_timer n s) = sv_shuttingDown s" "sv_waiters (clear_timer n s) = sv_waiters s"
  "sv_cronJobs (clear_timer n s) = sv_cronJobs s"
  by (simp_all add: clear_timer_def split: option.split)

lemma clear_timer_slot:
  "n < length (sv_slots s) \<Longrightarrow> slot (clear_timer n s) m = (if m = n then (slot s n)\<lparr>sl_restartTimer := None\<rparr> else slot s m)"
  by (auto simp: clear_timer_def slot_simps split: option.split)

lemma slot_fine_timer [simp]: "slot_fine (sl\<lparr>sl_restartTimer := h\<rparr>) = slot_fine sl" "running (sl\<lparr>sl_restartTimer := h\<rparr>) = running sl"
    "crashed (sl\<lparr>sl_restartTimer := h\<rparr>) = crashed sl"
  by (simp_all add: slot_fine_def running_def crashed_def)

lemma clear_timer_core:
  assumes "core E s" "n < length (sv_slots s)"
  shows "core (insert (sl_id (slot s n)) E) (clear_timer n s)"
proof (cases "sl_restartTimer (slot s n)")
  case None
  with assms core_mono show ?thesis by (metis clear_timer_def option.simps(4) subset_insertI)
next
  case (Some h)
  have t: "(h, n) \<in> set (sv_timers s)" using assms Some by (rule timer_listed)
  have u: "m = n" if "(h, m) \<in> set (sv_timers s)" for m
    using that t timer_distinct [OF assms(1)] eq_key_imp_eq_value by metis
  have sl: "slot (clear_timer n s) m = (if m = n then (slot s n)\<lparr>sl_restartTimer := None\<rparr> else slot s m)" for m
    using assms(2) by (rule clear_timer_slot)
  have tm: "sv_timers (clear_timer n s) = filter (\<lambda>t. fst t \<noteq> h) (sv_timers s)" "sv_nextTimer (clear_timer n s) = sv_nextTimer s"
    using Some by (simp_all add: clear_timer_def)
  have "timers_ok (clear_timer n s)"
    unfolding timers_ok_def sl tm clear_timer_fields
  proof (intro conjI allI impI)
    show "distinct (map fst (filter (\<lambda>t. fst t \<noteq> h) (sv_timers s)))"
      using timer_distinct [OF assms(1)] by (rule distinct_map_filter)
  next
    fix k m
    assume "m < length (sv_slots s)" "sl_restartTimer (if m = n then (slot s n)\<lparr>sl_restartTimer := None\<rparr> else slot s m) = Some k"
    then have m: "m \<noteq> n" "(k, m) \<in> set (sv_timers s)" using timer_listed [OF assms(1)] by (auto split: if_splits)
    with u show "(k, m) \<in> set (filter (\<lambda>t. fst t \<noteq> h) (sv_timers s))" by auto
  next
    fix k m
    assume "(k, m) \<in> set (filter (\<lambda>t. fst t \<noteq> h) (sv_timers s))"
    then have km: "(k, m) \<in> set (sv_timers s)" "k \<noteq> h" by auto
    note f = timer_facts [OF assms(1) km(1)]
    have "m \<noteq> n" using f(3) Some km(2) by auto
    with f show "k < sv_nextTimer s" "m < length (sv_slots s)"
      "sl_restartTimer (if m = n then (slot s n)\<lparr>sl_restartTimer := None\<rparr> else slot s m) = Some k"
      "current s (sl_id (if m = n then (slot s n)\<lparr>sl_restartTimer := None\<rparr> else slot s m)) = Some m"
      "crashed (if m = n then (slot s n)\<lparr>sl_restartTimer := None\<rparr> else slot s m)"
      "sl_restartAttempt (if m = n then (slot s n)\<lparr>sl_restartTimer := None\<rparr> else slot s m) < length RESTART_BACKOFFS_MS"
      by simp_all
  qed
  moreover have "retried (insert (sl_id (slot s n)) E) (clear_timer n s)"
    unfolding retried_def sl clear_timer_fields
  proof (intro impI allI)
    fix i m
    assume "current s i = Some m" "i \<notin> insert (sl_id (slot s n)) E"
      and r: "\<not> sv_shuttingDown s" "crashed (if m = n then (slot s n)\<lparr>sl_restartTimer := None\<rparr> else slot s m)"
        "\<not> rc_child (sl_child (if m = n then (slot s n)\<lparr>sl_restartTimer := None\<rparr> else slot s m))"
    then have "m \<noteq> n" "current s i = Some m" "i \<notin> E" using core_slot [OF assms(1)] by auto
    with r assms(1) show "sl_restartTimer (if m = n then (slot s n)\<lparr>sl_restartTimer := None\<rparr> else slot s m) \<noteq> None \<or>
        sl_restartAttempt (if m = n then (slot s n)\<lparr>sl_restartTimer := None\<rparr> else slot s m) = length RESTART_BACKOFFS_MS"
      by (simp add: core_def retried_def)
  qed
  moreover have "map_ok (clear_timer n s)"
    using assms(1) unfolding core_def map_ok_def sl clear_timer_fields by auto
  moreover have "owned (clear_timer n s)"
    using assms(1) unfolding core_def owned_def alive_def sl clear_timer_fields by auto
  moreover have "calmed (clear_timer n s)"
    using assms(1) unfolding core_def calmed_def alive_def sl tm clear_timer_fields by auto
  moreover have "\<forall>m < length (sv_slots s). slot_fine (slot (clear_timer n s) m)"
    using assms unfolding core_def sl by auto
  ultimately show ?thesis by (simp add: core_def)
qed

text \<open>A change of one slot that keeps its name and its timer.\<close>

lemma set_slot_core:
  assumes core: "core E s" and n: "n < length (sv_slots s)" and sub: "E \<subseteq> F \<or> current s (sl_id (slot s n)) = Some n \<and> E \<subseteq> insert (sl_id (slot s n)) F"
    and fine: "slot_fine (g (slot s n))"
    and same: "sl_id (g (slot s n)) = sl_id (slot s n)" "sl_restartTimer (g (slot s n)) = sl_restartTimer (slot s n)"
    and own: "running (g (slot s n)) \<Longrightarrow> \<not> rc_stopping (sl_child (g (slot s n))) \<Longrightarrow> current s (sl_id (slot s n)) = Some n \<and> \<not> sv_shuttingDown s"
    and armed: "sl_restartTimer (slot s n) \<noteq> None \<Longrightarrow>
      crashed (g (slot s n)) \<and> sl_restartAttempt (g (slot s n)) < length RESTART_BACKOFFS_MS"
    and ret: "\<not> sv_shuttingDown s \<Longrightarrow> current s (sl_id (slot s n)) = Some n \<Longrightarrow> sl_id (slot s n) \<notin> F \<Longrightarrow> crashed (g (slot s n)) \<Longrightarrow>
      \<not> rc_child (sl_child (g (slot s n))) \<Longrightarrow> sl_restartTimer (slot s n) \<noteq> None \<or> sl_restartAttempt (g (slot s n)) = length RESTART_BACKOFFS_MS"
  shows "core F (set_slot n g s)"
proof -
  let ?t = "set_slot n g s"
  have sl: "slot ?t m = (if m = n then g (slot s n) else slot s m)" for m using n by (rule slot_set)
  have "\<forall>m < length (sv_slots ?t). slot_fine (slot ?t m)" using core fine by (simp add: core_def sl)
  moreover have "map_ok ?t" using core same(1) unfolding core_def map_ok_def sl set_slot_fields by auto
  moreover have "owned ?t"
    using core same(1) own unfolding core_def owned_def alive_def sl set_slot_fields by (metis (full_types))
  moreover have "timers_ok ?t"
    unfolding timers_ok_def sl set_slot_fields
  proof (intro conjI allI impI)
    show "distinct (map fst (sv_timers s))" using core by (rule timer_distinct)
  next
    fix m h
    assume "m < length (sv_slots s)" "sl_restartTimer (if m = n then g (slot s n) else slot s m) = Some h"
    then show "(h, m) \<in> set (sv_timers s)" using timer_listed [OF core] n same(2) by (auto split: if_splits)
  next
    fix h m
    assume "(h, m) \<in> set (sv_timers s)"
    note f = timer_facts [OF core this]
    show "h < sv_nextTimer s" "m < length (sv_slots s)" using f by auto
    show "sl_restartTimer (if m = n then g (slot s n) else slot s m) = Some h" using f(3) same(2) by (cases "m = n") simp_all
    show "current s (sl_id (if m = n then g (slot s n) else slot s m)) = Some m" using f(4) same(1) by (cases "m = n") simp_all
    show "crashed (if m = n then g (slot s n) else slot s m)" using f(3,5) armed by auto
    show "sl_restartAttempt (if m = n then g (slot s n) else slot s m) < length RESTART_BACKOFFS_MS" using f(3,6) armed by auto
  qed
  moreover have "retried F ?t"
    unfolding retried_def sl set_slot_fields
  proof (intro impI allI)
    fix i m
    assume a: "\<not> sv_shuttingDown s" "current s i = Some m" "i \<notin> F" "crashed (if m = n then g (slot s n) else slot s m)"
      "\<not> rc_child (sl_child (if m = n then g (slot s n) else slot s m))"
    have i: "sl_id (slot s m) = i" using core_slot [OF core a(2)] by simp
    show "sl_restartTimer (if m = n then g (slot s n) else slot s m) \<noteq> None \<or>
        sl_restartAttempt (if m = n then g (slot s n) else slot s m) = length RESTART_BACKOFFS_MS"
    proof (cases "m = n")
      case True
      with a i ret same(2) show ?thesis by auto
    next
      case False
      then have "i \<notin> E" using sub a(2,3) by auto
      with False a core show ?thesis by (simp add: core_def retried_def)
    qed
  qed
  moreover have "calmed ?t"
    using core own unfolding core_def calmed_def alive_def sl set_slot_fields by (metis (full_types))
  ultimately show ?thesis by (simp add: core_def)
qed

lemma spawn_slot_fields [simp]:
  "length (sv_slots (spawn_slot su n s)) = length (sv_slots s)" "sv_children (spawn_slot su n s) = sv_children s"
  "sv_shuttingDown (spawn_slot su n s) = sv_shuttingDown s" "sv_waiters (spawn_slot su n s) = sv_waiters s"
  "sv_cronJobs (spawn_slot su n s) = sv_cronJobs s" "sv_timers (spawn_slot su n s) = sv_timers s"
  by (simp_all add: spawn_slot_def Let_def split: option.split prod.split)

lemma spawn_slot_eq: "slot (spawn_slot su n s) = slot (set_slot n (\<lambda>sl. sl\<lparr>sl_child := snd (rpc_spawn (sl_opts sl) (su_disk su) (su_now su) (sl_child sl))\<rparr>) s)"
  by (simp add: spawn_slot_def set_slot_def split_def Let_def split: option.split)

lemma spawned_child: "snd (rpc_spawn opts disk now c) = (if rc_child c then c else c\<lparr>rc_stopping := False, rc_busy := False,
    rc_forceFresh := False, rc_child := True, rc_startedAt := Some now, rc_state := DaemonRunning\<rparr>)"
  by (simp add: rpc_spawn_def Let_def)

lemma spawn_slot_core:
  assumes "core (insert (sl_id (slot s n)) E) s" "n < length (sv_slots s)" "current s (sl_id (slot s n)) = Some n"
    "sl_restartTimer (slot s n) = None" "\<not> sv_shuttingDown s"
  shows "core E (spawn_slot su n s)"
proof -
  let ?g = "\<lambda>sl. sl\<lparr>sl_child := snd (rpc_spawn (sl_opts sl) (su_disk su) (su_now su) (sl_child sl))\<rparr>"
  have f: "slot_fine (slot s n)" using core_fine assms(1,2) by blast
  have "core E (set_slot n ?g s)"
    by (rule set_slot_core [OF assms(1,2)])
       (use assms f in \<open>auto simp: spawned_child slot_fine_def running_def crashed_def split: if_splits\<close>)
  moreover have "core E (spawn_slot su n s) = core E (set_slot n ?g s)"
    by (rule core_cong) (simp_all add: spawn_slot_def set_slot_def split_def Let_def split: option.split)
  ultimately show ?thesis by simp
qed

lemma stop_slot_fields [simp]:
  "length (sv_slots (snd (stop_slot n s))) = length (sv_slots s)" "sv_children (snd (stop_slot n s)) = sv_children s"
  "sv_shuttingDown (snd (stop_slot n s)) = sv_shuttingDown s" "sv_waiters (snd (stop_slot n s)) = sv_waiters s"
  "sv_cronJobs (snd (stop_slot n s)) = sv_cronJobs s" "sv_timers (snd (stop_slot n s)) = sv_timers s"
  by (simp_all add: stop_slot_def split_def Let_def)

lemma stop_slot_slot:
  "n < length (sv_slots s) \<Longrightarrow> slot (snd (stop_slot n s)) m =
    (if m = n then (slot s n)\<lparr>sl_child := snd (rpc_stop (sl_child (slot s n)))\<rparr> else slot s m)"
  by (simp add: stop_slot_def split_def slot_simps Let_def)

lemma stop_slot_waits: "fst (stop_slot n s) = rc_child (sl_child (slot s n))"
  by (simp add: stop_slot_def split_def rpc_stop_def Let_def)

lemma stop_slot_core:
  assumes "core E s" "n < length (sv_slots s)"
  shows "core E (snd (stop_slot n s))"
proof -
  let ?g = "\<lambda>sl. sl\<lparr>sl_child := snd (rpc_stop (sl_child sl))\<rparr>"
  have f: "slot_fine (slot s n)" using core_fine assms by blast
  have o: "running (slot s n) \<Longrightarrow> \<not> stopping s n \<Longrightarrow> current s (sl_id (slot s n)) = Some n \<and> \<not> sv_shuttingDown s"
    using assms unfolding core_def owned_def calmed_def alive_def by blast
  have t: "sl_restartTimer (slot s n) \<noteq> None \<Longrightarrow> crashed (slot s n) \<and> sl_restartAttempt (slot s n) < length RESTART_BACKOFFS_MS"
    using timer_facts(5,6) [OF assms(1)] timer_listed [OF assms] by blast
  have r: "\<not> sv_shuttingDown s \<Longrightarrow> current s (sl_id (slot s n)) = Some n \<Longrightarrow> sl_id (slot s n) \<notin> E \<Longrightarrow> crashed (slot s n) \<Longrightarrow>
      \<not> rc_child (sl_child (slot s n)) \<Longrightarrow> sl_restartTimer (slot s n) \<noteq> None \<or> sl_restartAttempt (slot s n) = length RESTART_BACKOFFS_MS"
    using assms(1) unfolding core_def retried_def by blast
  have "core E (set_slot n ?g s)"
    by (rule set_slot_core [OF assms])
       (use f o t r in \<open>auto simp: rpc_stop_def slot_fine_def running_def crashed_def split: if_splits\<close>)
  moreover have "core E (snd (stop_slot n s)) = core E (set_slot n ?g s)"
    by (rule core_cong) (simp_all add: stop_slot_def set_slot_def split_def Let_def)
  ultimately show ?thesis by simp
qed

definition fresh_slot :: "string \<Rightarrow> child_slot \<Rightarrow> bool" where
  "fresh_slot i sl \<longleftrightarrow> sl_id sl = i \<and> sl_child sl = new_child \<and> sl_restartTimer sl = None \<and> sl_restartAttempt sl = 0"

lemma push_core:
  assumes core: "core (insert i E) s" and fresh: "fresh_slot i new"
    and old: "\<And>m. current s i = Some m \<Longrightarrow> sl_restartTimer (slot s m) = None \<and> (running (slot s m) \<longrightarrow> stopping s m)"
    and up: "\<not> sv_shuttingDown s"
  shows "core E (s\<lparr>sv_slots := sv_slots s @ [new], sv_children := omap_put (sv_children s) i (length (sv_slots s))\<rparr>)" (is "core E ?t")
proof -
  let ?n = "length (sv_slots s)"
  have sl: "m < ?n \<Longrightarrow> slot ?t m = slot s m" "slot ?t ?n = new" for m by (simp_all add: slot_def nth_append)
  have sl': "m < ?n \<Longrightarrow> slot (s\<lparr>sv_slots := sv_slots s @ [new]\<rparr>) m = slot s m" for m by (simp add: slot_def nth_append)
  have len: "length (sv_slots ?t) = Suc ?n" by simp
  have ch: "current ?t = (current s)(i \<mapsto> ?n)" by (simp add: fun_eq_iff)
  have idle: "\<not> running new" "\<not> crashed new" "slot_fine new" "sl_id new = i" "sl_restartTimer new = None"
    using fresh by (auto simp: fresh_slot_def new_child_def running_def crashed_def slot_fine_def)
  have "\<forall>m < length (sv_slots ?t). slot_fine (slot ?t m)"
    unfolding len using core idle(3) sl by (auto simp: less_Suc_eq core_def)
  moreover have "map_ok ?t"
    using core idle(4) sl unfolding core_def map_ok_def len ch by (auto simp: less_Suc_eq split: if_splits)
  moreover have "owned ?t"
    unfolding owned_def alive_def len ch
  proof (intro allI impI)
    fix m
    assume a: "m < Suc ?n \<and> running (slot ?t m)" "\<not> rc_stopping (sl_child (slot ?t m))"
    with idle(1) sl(2) have m: "m < ?n" by (auto simp: less_Suc_eq)
    with a core sl(1) have "current s (sl_id (slot s m)) = Some m" unfolding core_def owned_def alive_def by auto
    with old a m sl(1) show "((current s)(i \<mapsto> ?n)) (sl_id (slot ?t m)) = Some m" by auto
  qed
  moreover have "timers_ok ?t"
  proof -
    have k: "m < ?n" "current s (sl_id (slot s m)) = Some m" "sl_id (slot s m) \<noteq> i" if "(h, m) \<in> set (sv_timers s)" for h m
      using timer_facts [OF core that] old [of m] by auto
    show ?thesis
      unfolding timers_ok_def len ch
    proof (intro conjI allI impI)
      show "distinct (map fst (sv_timers ?t))" using timer_distinct [OF core] by simp
    next
      fix m h
      assume "m < Suc ?n" "sl_restartTimer (slot ?t m) = Some h"
      then show "(h, m) \<in> set (sv_timers ?t)" using timer_listed [OF core] idle(5) sl by (auto simp: less_Suc_eq)
    next
      fix h m
      assume "(h, m) \<in> set (sv_timers ?t)"
      then have hm: "(h, m) \<in> set (sv_timers s)" by simp
      note f = timer_facts [OF core hm] k [OF hm]
      show "h < sv_nextTimer ?t" "m < Suc ?n" "sl_restartTimer (slot ?t m) = Some h" "crashed (slot ?t m)"
        "sl_restartAttempt (slot ?t m) < length RESTART_BACKOFFS_MS" "((current s)(i \<mapsto> ?n)) (sl_id (slot ?t m)) = Some m"
        using f by (simp_all add: sl')
    qed
  qed
  moreover have "retried E ?t"
    unfolding retried_def ch
  proof (intro impI allI)
    fix j m
    assume a: "\<not> sv_shuttingDown ?t" "((current s)(i \<mapsto> ?n)) j = Some m" "j \<notin> E" "crashed (slot ?t m)" "\<not> rc_child (sl_child (slot ?t m))"
    with idle(2) sl(2) have "j \<noteq> i" "current s j = Some m" by (auto split: if_splits)
    moreover from this have "m < ?n" using core_slot [OF core] by auto
    ultimately show "sl_restartTimer (slot ?t m) \<noteq> None \<or> sl_restartAttempt (slot ?t m) = length RESTART_BACKOFFS_MS"
      using a core sl(1) up unfolding core_def retried_def by auto
  qed
  moreover have "calmed ?t" using up by (simp add: calmed_def)
  ultimately show ?thesis by (simp add: core_def)
qed

lemma spawnEntry_fields [simp]:
  "sv_shuttingDown (spawnEntry su i cwd nm s) = sv_shuttingDown s" "sv_waiters (spawnEntry su i cwd nm s) = sv_waiters s"
  "sv_cronJobs (spawnEntry su i cwd nm s) = sv_cronJobs s" "current (spawnEntry su i cwd nm s) j = (if j = i then Some (length (sv_slots s)) else current s j)"
  "length (sv_slots (spawnEntry su i cwd nm s)) = Suc (length (sv_slots s))"
  by (simp_all add: spawnEntry_def Let_def split: option.split)

lemma running_alive: "core E s \<Longrightarrow> n < length (sv_slots s) \<Longrightarrow> running (slot s n) \<Longrightarrow> rc_child (sl_child (slot s n))"
  using core_fine [of E s n] by (simp add: slot_fine_def)

lemma spawnEntry_core:
  assumes core: "core E s" and up: "\<not> sv_shuttingDown s"
  shows "core E (spawnEntry su i cwd nm s)"
proof -
  define s1 where "s1 = (case current s i of None \<Rightarrow> s
       | Some m \<Rightarrow> (let t = clear_timer m s in if running (slot t m) then snd (stop_slot m t) else t))"
  have s1: "core (insert i E) s1 \<and> (\<forall>m. current s1 i = Some m \<longrightarrow> sl_restartTimer (slot s1 m) = None \<and> (running (slot s1 m) \<longrightarrow> stopping s1 m)) \<and>
      \<not> sv_shuttingDown s1 \<and> length (sv_slots s1) = length (sv_slots s) \<and> sv_children s1 = sv_children s"
  proof (cases "current s i")
    case None
    with core up core_mono [OF core, of "insert i E"] show ?thesis by (auto simp: s1_def)
  next
    case (Some m)
    note m = core_slot [OF core Some]
    have c: "core (insert i E) (clear_timer m s)" using clear_timer_core [OF core] m by auto
    have cs: "slot (clear_timer m s) m = (slot s m)\<lparr>sl_restartTimer := None\<rparr>" using clear_timer_slot m by simp
    show ?thesis
    proof (cases "running (slot s m)")
      case True
      have "core (insert i E) (snd (stop_slot m (clear_timer m s)))" using stop_slot_core [OF c] m by simp
      moreover have "slot (snd (stop_slot m (clear_timer m s))) m = (slot s m)\<lparr>sl_restartTimer := None, sl_child := (sl_child (slot s m))\<lparr>rc_stopping := True\<rparr>\<rparr>"
        using m running_alive [OF core _ True] by (simp add: stop_slot_slot cs rpc_stop_def)
      ultimately show ?thesis using Some True up by (simp add: s1_def cs Let_def)
    next
      case False
      with Some c cs up show ?thesis by (simp add: s1_def Let_def)
    qed
  qed
  define opts where "opts = \<lparr>ro_extensionPath = su_ext su, ro_cwd = cwd,
    ro_config = Some \<lparr>agent_name = Some (case nm of Some n \<Rightarrow> n | None \<Rightarrow> defaultAgentName cwd), auto_start_relay = Some True\<rparr>\<rparr>"
  define new where "new = \<lparr>sl_id = i, sl_cwd = cwd, sl_opts = opts, sl_child = new_child, sl_restartTimer = None, sl_restartAttempt = 0\<rparr>"
  define t where "t = s1\<lparr>sv_slots := sv_slots s1 @ [new], sv_children := omap_put (sv_children s1) i (length (sv_slots s1))\<rparr>"
  have "core E t" unfolding t_def
    by (rule push_core) (use s1 in \<open>simp_all add: new_def fresh_slot_def\<close>)
  moreover have "slot t (length (sv_slots s1)) = new" by (simp add: t_def slot_def)
  ultimately have "core E (spawn_slot su (length (sv_slots s1)) t)"
    using s1 by (intro spawn_slot_core) (auto simp: new_def t_def intro: core_mono)
  moreover have "spawnEntry su i cwd nm s = spawn_slot su (length (sv_slots s1)) t"
    unfolding spawnEntry_def Let_def t_def new_def opts_def s1_def by simp
  ultimately show ?thesis by simp
qed

lemma onChildExit_fields [simp]:
  "sv_shuttingDown (onChildExit su i evt s) = sv_shuttingDown s" "sv_waiters (onChildExit su i evt s) = sv_waiters s"
  "sv_cronJobs (onChildExit su i evt s) = sv_cronJobs s" "sv_children (onChildExit su i evt s) = sv_children s"
  "length (sv_slots (onChildExit su i evt s)) = length (sv_slots s)"
  by (simp_all add: onChildExit_def split: option.split)

text \<open>Arming the timer of a crashed daemon with attempts left.\<close>

lemma arm_core:
  assumes core: "core (insert (sl_id (slot s n)) E) s" and n: "n < length (sv_slots s)" "current s (sl_id (slot s n)) = Some n"
    and none: "sl_restartTimer (slot s n) = None" and cr: "crashed (slot s n)" and left: "sl_restartAttempt (slot s n) < length RESTART_BACKOFFS_MS"
    and up: "\<not> sv_shuttingDown s"
  shows "core E ((set_slot n (\<lambda>sl. sl\<lparr>sl_restartTimer := Some (sv_nextTimer s)\<rparr>) s)
      \<lparr>sv_timers := sv_timers s @ [(sv_nextTimer s, n)], sv_nextTimer := sv_nextTimer s + 1\<rparr>)" (is "core E ?t")
proof -
  let ?k = "sv_nextTimer s"
  have sl: "slot ?t m = (if m = n then (slot s n)\<lparr>sl_restartTimer := Some ?k\<rparr> else slot s m)" for m using n by (simp add: slot_simps)
  have fl: "sv_children ?t = sv_children s" "length (sv_slots ?t) = length (sv_slots s)" "sv_shuttingDown ?t = sv_shuttingDown s"
      "sv_timers ?t = sv_timers s @ [(?k, n)]" "sv_nextTimer ?t = Suc ?k" by simp_all
  have lt: "h < ?k" if "(h, m) \<in> set (sv_timers s)" for h m using timer_facts(1) [OF core that] .
  have "\<forall>m < length (sv_slots ?t). slot_fine (slot ?t m)" using core unfolding core_def fl sl by simp
  moreover have "map_ok ?t" using core unfolding core_def map_ok_def fl sl by auto
  moreover have "owned ?t" using core unfolding core_def owned_def alive_def fl sl by auto
  moreover have "timers_ok ?t"
    unfolding timers_ok_def sl fl
  proof (intro conjI allI impI)
    show "distinct (map fst (sv_timers s @ [(?k, n)]))" using timer_distinct [OF core] by (auto simp: image_iff dest: lt)
  next
    fix m h
    assume "m < length (sv_slots s)" "sl_restartTimer (if m = n then (slot s n)\<lparr>sl_restartTimer := Some ?k\<rparr> else slot s m) = Some h"
    then show "(h, m) \<in> set (sv_timers s @ [(?k, n)])" using timer_listed [OF core] by (auto split: if_splits)
  next
    fix h m
    assume hm: "(h, m) \<in> set (sv_timers s @ [(?k, n)])"
    show "h < Suc ?k" using hm lt by (auto simp: less_Suc_eq)
    have o: "m = n \<and> h = ?k \<or> m \<noteq> n \<and> (h, m) \<in> set (sv_timers s)"
      using hm none timer_facts(3) [OF core, of h m] by auto
    show "m < length (sv_slots s)" "sl_restartTimer (if m = n then (slot s n)\<lparr>sl_restartTimer := Some ?k\<rparr> else slot s m) = Some h"
      "current s (sl_id (if m = n then (slot s n)\<lparr>sl_restartTimer := Some ?k\<rparr> else slot s m)) = Some m"
      "crashed (if m = n then (slot s n)\<lparr>sl_restartTimer := Some ?k\<rparr> else slot s m)"
      "sl_restartAttempt (if m = n then (slot s n)\<lparr>sl_restartTimer := Some ?k\<rparr> else slot s m) < length RESTART_BACKOFFS_MS"
      using o n cr left timer_facts(2-6) [OF core, of h m] by auto
  qed
  moreover have "retried E ?t"
    unfolding retried_def sl fl
  proof (intro impI allI)
    fix i m
    assume a: "\<not> sv_shuttingDown s" "current s i = Some m" "i \<notin> E"
      and b: "crashed (if m = n then (slot s n)\<lparr>sl_restartTimer := Some ?k\<rparr> else slot s m)"
        "\<not> rc_child (sl_child (if m = n then (slot s n)\<lparr>sl_restartTimer := Some ?k\<rparr> else slot s m))"
    show "sl_restartTimer (if m = n then (slot s n)\<lparr>sl_restartTimer := Some ?k\<rparr> else slot s m) \<noteq> None \<or>
        sl_restartAttempt (if m = n then (slot s n)\<lparr>sl_restartTimer := Some ?k\<rparr> else slot s m) = length RESTART_BACKOFFS_MS"
    proof (cases "m = n")
      case False
      with n(2) a(2) have "i \<noteq> sl_id (slot s n)" by auto
      with False a b core show ?thesis unfolding core_def retried_def by auto
    qed simp
  qed
  moreover have "calmed ?t" using up by (simp add: calmed_def)
  ultimately show ?thesis by (simp add: core_def)
qed

text \<open>A child of the fleet ends: the slot, then the supervisor's listener.\<close>

lemma exit_core:
  assumes core: "core {} s" and a: "alive s n" and e: "rpc_exit code sig (sl_child (slot s n)) = (evt, qs, c)"
  shows "core {} (onChildExit su (sl_id (slot s n)) evt (set_slot n (\<lambda>sl. sl\<lparr>sl_child := c\<rparr>) s))" (is "core {} (onChildExit su ?i evt ?t)")
proof -
  let ?g = "\<lambda>sl. sl\<lparr>sl_child := c\<rparr>"
  have n: "n < length (sv_slots s)" and run: "running (slot s n)" using a by (simp_all add: alive_def)
  have evt: "ev_isCrash evt = (\<not> stopping s n \<and> (code \<noteq> Some 0 \<or> sig \<noteq> None))" "ev_code evt = code"
    and c: "\<not> rc_child c" "rc_state c \<noteq> DaemonRunning" "rc_state c = DaemonCrashed \<longleftrightarrow> ev_isCrash evt"
    using e by (auto simp: rpc_exit_def Let_def split: if_splits)
  have none: "sl_restartTimer (slot s n) = None" using running_no_timer [OF core n run] .
  have own: "\<not> stopping s n \<Longrightarrow> current s ?i = Some n \<and> \<not> sv_shuttingDown s"
    using core a unfolding core_def owned_def calmed_def by blast
  have fine: "slot_fine (slot s n)" using core_fine [OF core n] .
  have t: "core E ?t" if "sv_shuttingDown s \<or> \<not> ev_isCrash evt \<or> ?i \<in> E \<or> sl_restartAttempt (slot s n) = length RESTART_BACKOFFS_MS" for E
    by (rule set_slot_core [OF core n])
       (use that fine none c in \<open>auto simp: slot_fine_def running_def crashed_def\<close>)
  have sl: "slot ?t n = (slot s n)\<lparr>sl_child := c\<rparr>" using n by (simp add: slot_simps)
  show ?thesis
  proof (cases "sv_shuttingDown s \<or> \<not> ev_isCrash evt")
    case True
    with t [of "{}"] show ?thesis by (auto simp: onChildExit_def split: option.split)
  next
    case False
    then have cur: "current s ?i = Some n" "\<not> sv_shuttingDown s" "ev_isCrash evt" using own evt by auto
    show ?thesis
    proof (cases "code = Some EXIT_FRESH_SESSION")
      case True
      let ?h = "\<lambda>sl. sl\<lparr>sl_restartAttempt := 0, sl_child := noteRestart (sl_child sl)\<rparr>"
      have "core {?i} (set_slot n ?h ?t)"
        by (rule set_slot_core [OF t [of "{?i}"]])
           (use fine none c cur n sl in \<open>auto simp: slot_fine_def running_def crashed_def noteRestart_def\<close>)
      moreover have "sl_id (slot (set_slot n ?h ?t) n) = ?i" "sl_restartTimer (slot (set_slot n ?h ?t) n) = None"
        using n none by (simp_all add: slot_simps)
      ultimately have "core {} (spawn_slot su n (set_slot n ?h ?t))" using cur n by (intro spawn_slot_core) simp_all
      with True cur evt show ?thesis by (simp add: onChildExit_def)
    next
      case no: False
      show ?thesis
      proof (cases "sl_restartAttempt (slot s n) \<ge> length RESTART_BACKOFFS_MS")
        case True
        with fine have "sl_restartAttempt (slot s n) = length RESTART_BACKOFFS_MS" by (simp add: slot_fine_def)
        with t [of "{}"] True no cur evt sl show ?thesis by (simp add: onChildExit_def)
      next
        case False
        have "core {} ((set_slot n (\<lambda>sl. sl\<lparr>sl_restartTimer := Some (sv_nextTimer ?t)\<rparr>) ?t)
            \<lparr>sv_timers := sv_timers ?t @ [(sv_nextTimer ?t, n)], sv_nextTimer := sv_nextTimer ?t + 1\<rparr>)"
          by (rule arm_core) (use t [of "{?i}"] n cur none False c sl in \<open>simp_all add: crashed_def\<close>)
        with False no cur evt sl show ?thesis by (simp add: onChildExit_def)
      qed
    qed
  qed
qed

lemma spawn_fails_core:
  assumes core: "core {} s" and a: "alive s n" "\<not> stopping s n" and e: "rpc_error (sl_child (slot s n)) = (evt, c)"
  shows "core {} (onChildExit su (sl_id (slot s n)) evt (set_slot n (\<lambda>sl. sl\<lparr>sl_child := c\<rparr>) s))" (is "core {} (onChildExit su ?i evt ?t)")
proof -
  have n: "n < length (sv_slots s)" and run: "running (slot s n)" using a by (simp_all add: alive_def)
  have evt: "ev_isCrash evt" "ev_code evt = None" and c: "c = (sl_child (slot s n))\<lparr>rc_state := DaemonCrashed\<rparr>"
    using e by (auto simp: rpc_error_def)
  have none: "sl_restartTimer (slot s n) = None" using running_no_timer [OF core n run] .
  have cur: "current s ?i = Some n" "\<not> sv_shuttingDown s"
    using core a unfolding core_def owned_def calmed_def by blast+
  have fine: "slot_fine (slot s n)" "rc_child c" using core_fine [OF core n] c run by (auto simp: slot_fine_def)
  have t: "core {} ?t"
    by (rule set_slot_core [OF core n]) (use fine none c cur in \<open>auto simp: slot_fine_def running_def crashed_def\<close>)
  have sl: "slot ?t n = (slot s n)\<lparr>sl_child := c\<rparr>" using n by (simp add: slot_simps)
  show ?thesis
  proof (cases "sl_restartAttempt (slot s n) \<ge> length RESTART_BACKOFFS_MS")
    case True
    with t cur evt sl show ?thesis by (simp add: onChildExit_def)
  next
    case False
    have "core {} ((set_slot n (\<lambda>sl. sl\<lparr>sl_restartTimer := Some (sv_nextTimer ?t)\<rparr>) ?t)
        \<lparr>sv_timers := sv_timers ?t @ [(sv_nextTimer ?t, n)], sv_nextTimer := sv_nextTimer ?t + 1\<rparr>)"
      by (rule arm_core) (use t n cur none False c sl in \<open>auto simp: crashed_def intro: core_mono\<close>)
    with False cur evt sl show ?thesis by (simp add: onChildExit_def)
  qed
qed

lemma restart_timer_core:
  assumes core: "core {} s"
  shows "core {} (restart_timer su h s)"
proof (cases "map_of (sv_timers s) h")
  case None
  with core show ?thesis by (simp add: restart_timer_def)
next
  case (Some n)
  then have hn: "(h, n) \<in> set (sv_timers s)" by (rule map_of_SomeD)
  note f = timer_facts [OF core hn]
  let ?i = "sl_id (slot s n)" and ?g = "\<lambda>sl. sl\<lparr>sl_restartAttempt := sl_restartAttempt sl + 1, sl_child := noteRestart (sl_child sl)\<rparr>"
  have up: "\<not> sv_shuttingDown s" using core hn unfolding core_def calmed_def by auto
  have c: "core {?i} (clear_timer n s)" using clear_timer_core [OF core f(2)] by simp
  have sl: "slot (clear_timer n s) n = (slot s n)\<lparr>sl_restartTimer := None\<rparr>" using clear_timer_slot [OF f(2)] by simp
  have "core {?i} (set_slot n ?g (clear_timer n s))"
    by (rule set_slot_core [OF c])
       (use f core_fine [OF core f(2)] sl in \<open>auto simp: slot_fine_def running_def crashed_def noteRestart_def\<close>)
  moreover have "sl_id (slot (set_slot n ?g (clear_timer n s)) n) = ?i" "sl_restartTimer (slot (set_slot n ?g (clear_timer n s)) n) = None"
    using f(2) sl by (simp_all add: slot_simps)
  ultimately have "core {} (spawn_slot su n (set_slot n ?g (clear_timer n s)))"
    using f up by (intro spawn_slot_core) simp_all
  moreover have "restart_timer su h s = spawn_slot su n (set_slot n ?g (clear_timer n s))"
    using Some f(2,3) by (cases s) (simp add: restart_timer_def clear_timer_def set_slot_def slot_def)
  ultimately show ?thesis by simp
qed

subsection \<open>Waiting requests\<close>

lemma slot_facts:
  assumes "core E s" "n < length (sv_slots s)"
  shows "running (slot s n) \<Longrightarrow> \<not> stopping s n \<Longrightarrow> current s (sl_id (slot s n)) = Some n \<and> \<not> sv_shuttingDown s"
    and "sl_restartTimer (slot s n) \<noteq> None \<Longrightarrow> crashed (slot s n) \<and> sl_restartAttempt (slot s n) < length RESTART_BACKOFFS_MS"
    and "\<not> sv_shuttingDown s \<Longrightarrow> current s (sl_id (slot s n)) = Some n \<Longrightarrow> sl_id (slot s n) \<notin> E \<Longrightarrow> crashed (slot s n) \<Longrightarrow>
      \<not> rc_child (sl_child (slot s n)) \<Longrightarrow> sl_restartTimer (slot s n) \<noteq> None \<or> sl_restartAttempt (slot s n) = length RESTART_BACKOFFS_MS"
  using assms timer_facts(5,6) [OF assms(1)] timer_listed [OF assms] unfolding core_def owned_def calmed_def alive_def retried_def by blast+

text \<open>A change of the child that its life does not show in.\<close>

definition same_life :: "rpc_child \<Rightarrow> rpc_child \<Rightarrow> bool" where
  "same_life c d \<longleftrightarrow> rc_child d = rc_child c \<and> rc_state d = rc_state c \<and> rc_stopping d = rc_stopping c"

lemma tweak_core:
  assumes "core E s" "n < length (sv_slots s)" "same_life (sl_child (slot s n)) c"
  shows "core E (set_slot n (\<lambda>sl. sl\<lparr>sl_child := c\<rparr>) s)"
  by (rule set_slot_core [OF assms(1,2)])
     (use assms core_fine [OF assms(1,2)] slot_facts [OF assms(1,2)] in \<open>auto simp: same_life_def slot_fine_def running_def crashed_def\<close>)

lemma tweak_ok:
  assumes "fleet_ok s" "n < length (sv_slots s)" "same_life (sl_child (slot s n)) c"
  shows "fleet_ok (set_slot n (\<lambda>sl. sl\<lparr>sl_child := c\<rparr>) s)"
proof -
  let ?t = "set_slot n (\<lambda>sl. sl\<lparr>sl_child := c\<rparr>) s"
  have sl: "rc_child (sl_child (slot ?t m)) = rc_child (sl_child (slot s m))" "stopping ?t m = stopping s m" "alive ?t m = alive s m"
      "sl_id (slot ?t m) = sl_id (slot s m)" for m
    using assms(2,3) by (auto simp: slot_simps same_life_def alive_def running_def)
  have "waits_ok ?t = waits_ok s" unfolding waits_ok_def sl set_slot_fields by (rule refl)
  with assms tweak_core show ?thesis by (simp add: fleet_ok_def)
qed

text \<open>No shutdown is under way.\<close>

definition up_ok :: "supervisor \<Rightarrow> bool" where
  "up_ok s \<longleftrightarrow> core {} s \<and> waits_ok s \<and> \<not> sv_shuttingDown s"

lemma waits_frame [simp]:
  "waits_ok (effect e s) = waits_ok s" "waits_ok (s\<lparr>sv_registry := r\<rparr>) = waits_ok s" "waits_ok (s\<lparr>sv_cronJobs := c\<rparr>) = waits_ok s"
  by (simp_all add: waits_ok_def alive_def)

lemma up_fleet [intro]: "up_ok s \<Longrightarrow> fleet_ok s"
  by (simp add: up_ok_def fleet_ok_def)

lemma fleet_up: "fleet_ok s \<Longrightarrow> \<not> sv_shuttingDown s \<Longrightarrow> up_ok s"
  by (simp add: up_ok_def fleet_ok_def)

lemma up_effect [simp]: "up_ok (effect e s) = up_ok s"
  by (simp add: up_ok_def)

lemma up_fields [simp]: "up_ok (s\<lparr>sv_registry := r\<rparr>) = up_ok s" "up_ok (s\<lparr>sv_cronJobs := c\<rparr>) = up_ok s"
  by (simp_all add: up_ok_def)

lemma up_same: "same_fleet s t \<Longrightarrow> up_ok t = up_ok s"
  using same_fleet_core [of s t "{}"] same_fleet_waits [of s t] by (simp add: up_ok_def same_fleet_def)

lemma up_cur: "up_ok s \<Longrightarrow> current s i = Some n \<Longrightarrow> n < length (sv_slots s) \<and> sl_id (slot s n) = i"
  using core_slot [of "{}" s i n] by (simp add: up_ok_def)

lemma core_children: "core E s \<Longrightarrow> (i, n) \<in> set (sv_children s) \<Longrightarrow> n < length (sv_slots s)"
  unfolding core_def map_ok_def by (metis map_of_is_SomeI)

lemma waiter_facts:
  assumes "waits_ok s" "(n, w) \<in> set (sv_waiters s)"
  shows "n < length (sv_slots s)" "rc_child (sl_child (slot s n))" "stopping s n" "w = WaitShutdown \<Longrightarrow> sv_shuttingDown s"
    "sv_shuttingDown s \<Longrightarrow> \<not> starts_again w" "about w = Some i \<Longrightarrow> sl_id (slot s n) = i"
    "\<not> sv_shuttingDown s \<Longrightarrow> about w \<noteq> None \<Longrightarrow> alive s n \<Longrightarrow> current s (sl_id (slot s n)) = Some n"
  using assms unfolding waits_ok_def by blast+

text \<open>What keeps the waiting requests in order: no new one, and for those left the child still there, asked to end and current if it was.\<close>

lemma waits_carry:
  assumes w: "waits_ok s" and ws: "sv_waiters t = filter P (sv_waiters s)" and sh: "sv_shuttingDown t = sv_shuttingDown s"
    and len: "length (sv_slots s) \<le> length (sv_slots t)"
    and kept: "\<And>m v. (m, v) \<in> set (sv_waiters s) \<Longrightarrow> P (m, v) \<Longrightarrow> rc_child (sl_child (slot t m)) \<and> stopping t m \<and> sl_id (slot t m) = sl_id (slot s m)"
    and cur: "\<And>m v. (m, v) \<in> set (sv_waiters s) \<Longrightarrow> P (m, v) \<Longrightarrow> about v \<noteq> None \<Longrightarrow> alive t m \<Longrightarrow> \<not> sv_shuttingDown s \<Longrightarrow>
      alive s m \<and> current t (sl_id (slot s m)) = current s (sl_id (slot s m))"
  shows "waits_ok t"
  unfolding waits_ok_def
proof (intro conjI allI impI)
  fix m v
  assume "(m, v) \<in> set (sv_waiters t)"
  then have mv: "(m, v) \<in> set (sv_waiters s)" "P (m, v)" by (auto simp: ws)
  note f = waiter_facts [OF w mv(1)] and k = kept [OF mv]
  show "m < length (sv_slots t)" using f(1) len by simp
  show "rc_child (sl_child (slot t m))" "stopping t m" using k by simp_all
  show "v = WaitShutdown \<Longrightarrow> sv_shuttingDown t" "sv_shuttingDown t \<Longrightarrow> \<not> starts_again v" using f(4,5) sh by simp_all
  show "about v = Some i \<Longrightarrow> sl_id (slot t m) = i" for i using f(6) k by simp
  assume a: "\<not> sv_shuttingDown t" "about v \<noteq> None" "alive t m"
  with sh have "alive s m \<and> current t (sl_id (slot s m)) = current s (sl_id (slot s m))" by (intro cur [OF mv]) simp_all
  with a f(7) k sh show "current t (sl_id (slot t m)) = Some m" by simp
next
  fix n
  have "in_order (map snd (filter (\<lambda>w. fst w = n) (sv_waiters s)))" using w by (simp add: waits_ok_def)
  then have "in_order (map snd (filter P (filter (\<lambda>w. fst w = n) (sv_waiters s))))"
    by (simp add: in_order_def sorted_wrt_map sorted_wrt_filter del: filter_filter)
  then show "in_order (waits_on t n)" by (simp add: ws conj_commute)
qed

text \<open>A change that leaves running children running and the waiting requests about a daemon as they are.\<close>

definition carries :: "supervisor \<Rightarrow> supervisor \<Rightarrow> bool" where
  "carries s t \<longleftrightarrow> length (sv_slots s) \<le> length (sv_slots t) \<and>
     (\<forall>m < length (sv_slots s). running (slot t m) = running (slot s m) \<and> sl_id (slot t m) = sl_id (slot s m) \<and>
        (sl_restartTimer (slot s m) = None \<longrightarrow> sl_restartTimer (slot t m) = None)) \<and>
     (\<forall>m w. (m, w) \<in> set (sv_waiters t) \<longrightarrow> about w \<noteq> None \<longrightarrow> (m, w) \<in> set (sv_waiters s))"

lemma carries_refl [simp]: "carries s s"
  by (simp add: carries_def)

lemma carries_trans [trans]:
  assumes "carries s t" "carries t u"
  shows "carries s u"
proof -
  have l: "length (sv_slots s) \<le> length (sv_slots t)" "length (sv_slots t) \<le> length (sv_slots u)" using assms unfolding carries_def by blast+
  have "running (slot u m) = running (slot s m) \<and> sl_id (slot u m) = sl_id (slot s m) \<and>
      (sl_restartTimer (slot s m) = None \<longrightarrow> sl_restartTimer (slot u m) = None)" if m: "m < length (sv_slots s)" for m
  proof -
    have "m < length (sv_slots t)" using m l(1) by simp
    with m assms show ?thesis unfolding carries_def by metis
  qed
  moreover have "(m, w) \<in> set (sv_waiters s)" if "(m, w) \<in> set (sv_waiters u)" "about w \<noteq> None" for m w
    using that assms unfolding carries_def by blast
  ultimately show ?thesis using l unfolding carries_def by auto
qed

lemma carries_fields [simp]:
  "carries s (effect e t) = carries s t" "carries s (t\<lparr>sv_registry := r\<rparr>) = carries s t" "carries s (t\<lparr>sv_children := c\<rparr>) = carries s t"
  by (simp_all add: carries_def)

text \<open>No request about the daemon \<open>i\<close> waits for a running child.\<close>

definition unclaimed :: "string \<Rightarrow> supervisor \<Rightarrow> bool" where
  "unclaimed i s \<longleftrightarrow> (\<forall>n w. (n, w) \<in> set (sv_waiters s) \<longrightarrow> about w \<noteq> None \<longrightarrow> alive s n \<longrightarrow> sl_id (slot s n) \<noteq> i)"

lemma carries_unclaimed: "carries s t \<Longrightarrow> waits_ok s \<Longrightarrow> unclaimed i s \<Longrightarrow> unclaimed i t"
  using waiter_facts(1) [of s] unfolding carries_def unclaimed_def alive_def by metis

lemma idle_unclaimed: "up_ok s \<Longrightarrow> (\<And>n. current s i = Some n \<Longrightarrow> \<not> running (slot s n)) \<Longrightarrow> unclaimed i s"
  unfolding unclaimed_def up_ok_def using waiter_facts(7) [of s] by (metis alive_def)

lemma spawnEntry_old:
  assumes core: "core {} s" and m: "m < length (sv_slots s)"
  shows "rc_child (sl_child (slot (spawnEntry su i cwd nm s) m)) = rc_child (sl_child (slot s m))"
    "rc_state (sl_child (slot (spawnEntry su i cwd nm s) m)) = rc_state (sl_child (slot s m))"
    "sl_id (slot (spawnEntry su i cwd nm s) m) = sl_id (slot s m)"
    "stopping s m \<Longrightarrow> stopping (spawnEntry su i cwd nm s) m"
    "sl_restartTimer (slot s m) = None \<Longrightarrow> sl_restartTimer (slot (spawnEntry su i cwd nm s) m) = None"
    "current s i \<noteq> Some m \<Longrightarrow> slot (spawnEntry su i cwd nm s) m = slot s m"
proof -
  define s1 where "s1 = (case current s i of None \<Rightarrow> s
       | Some k \<Rightarrow> (let t = clear_timer k s in if running (slot t k) then snd (stop_slot k t) else t))"
  have s1: "length (sv_slots s1) = length (sv_slots s) \<and> rc_child (sl_child (slot s1 m)) = rc_child (sl_child (slot s m)) \<and>
      rc_state (sl_child (slot s1 m)) = rc_state (sl_child (slot s m)) \<and> sl_id (slot s1 m) = sl_id (slot s m) \<and> (stopping s m \<longrightarrow> stopping s1 m) \<and>
      (sl_restartTimer (slot s m) = None \<longrightarrow> sl_restartTimer (slot s1 m) = None) \<and> (current s i \<noteq> Some m \<longrightarrow> slot s1 m = slot s m)"
  proof (cases "current s i")
    case None
    then show ?thesis by (simp add: s1_def)
  next
    case (Some k)
    have k: "k < length (sv_slots s)" using core_slot [OF core Some] by simp
    show ?thesis
      using Some k by (auto simp: s1_def Let_def clear_timer_slot stop_slot_slot rpc_stop_def)
  qed
  have "slot (spawn_slot su (length (sv_slots s1)) (s1\<lparr>sv_slots := sv_slots s1 @ [x], sv_children := c\<rparr>)) m = slot s1 m" for x c
    using m s1 by (simp add: spawn_slot_eq slot_simps) (simp add: slot_def nth_append)
  then have t: "slot (spawnEntry su i cwd nm s) m = slot s1 m"
    by (simp add: spawnEntry_def Let_def s1_def)
  show "rc_child (sl_child (slot (spawnEntry su i cwd nm s) m)) = rc_child (sl_child (slot s m))"
    "rc_state (sl_child (slot (spawnEntry su i cwd nm s) m)) = rc_state (sl_child (slot s m))"
    "sl_id (slot (spawnEntry su i cwd nm s) m) = sl_id (slot s m)"
    "stopping s m \<Longrightarrow> stopping (spawnEntry su i cwd nm s) m"
    "sl_restartTimer (slot s m) = None \<Longrightarrow> sl_restartTimer (slot (spawnEntry su i cwd nm s) m) = None"
    "current s i \<noteq> Some m \<Longrightarrow> slot (spawnEntry su i cwd nm s) m = slot s m"
    unfolding t using s1 by blast+
qed

lemma spawnEntry_carries: "core {} s \<Longrightarrow> carries s (spawnEntry su i cwd nm s)"
  using spawnEntry_old [of s] by (simp add: carries_def running_def)

text \<open>A spawn that replaces no child a request about the daemon waits for disturbs no waiting request.\<close>

lemma spawnEntry_waits:
  assumes ok: "up_ok s" and free: "unclaimed i s"
  shows "waits_ok (spawnEntry su i cwd nm s)"
proof -
  have core: "core {} s" and w: "waits_ok s" and up: "\<not> sv_shuttingDown s" using ok by (simp_all add: up_ok_def)
  note old = spawnEntry_old [OF core]
  show ?thesis
  proof (rule waits_carry [OF w, where P = "\<lambda>_. True"])
    fix m v
    assume mv: "(m, v) \<in> set (sv_waiters s)"
    note f = waiter_facts [OF w mv]
    show "rc_child (sl_child (slot (spawnEntry su i cwd nm s) m)) \<and> stopping (spawnEntry su i cwd nm s) m \<and>
        sl_id (slot (spawnEntry su i cwd nm s) m) = sl_id (slot s m)"
      using old(1,3,4) [OF f(1)] f(2,3) by simp
    assume a: "about v \<noteq> None" "alive (spawnEntry su i cwd nm s) m"
    then have "alive s m" using old(2) [OF f(1)] f(1) by (simp add: alive_def running_def)
    moreover from this have "sl_id (slot s m) \<noteq> i" using free mv a(1) by (simp add: unclaimed_def)
    ultimately show "alive s m \<and> current (spawnEntry su i cwd nm s) (sl_id (slot s m)) = current s (sl_id (slot s m))" by simp
  qed simp_all
qed

lemma spawnEntry_ok [intro]: "up_ok s \<Longrightarrow> unclaimed i s \<Longrightarrow> up_ok (spawnEntry su i cwd nm s)"
  using spawnEntry_waits [of s i] spawnEntry_core [of "{}" s] by (simp add: up_ok_def)

lemma start_one_ok: "up_ok (snd acc) \<Longrightarrow> up_ok (snd (start_one su acc e)) \<and> carries (snd acc) (snd (start_one su acc e))"
proof -
  assume ok: "up_ok (snd acc)"
  obtain started already s where acc: "acc = ((started, already), s)" by (metis prod.exhaust)
  have s: "up_ok s" "core {} s" using ok by (simp_all add: acc up_ok_def)
  have spawned: "up_ok (spawnEntry su i cwd nm s) \<and> carries s (spawnEntry su i cwd nm s)" if "\<And>n. current s i = Some n \<Longrightarrow> \<not> running (slot s n)" for i cwd nm
    using spawnEntry_ok [OF s(1) idle_unclaimed [OF s(1) that]] spawnEntry_carries [OF s(2)] by blast
  show ?thesis using s spawned [of "ld_id e"] by (auto simp: acc start_one_def child_at_def split: option.split)
qed

lemma start_all_ok: "up_ok s \<Longrightarrow> up_ok (snd (start_all su s)) \<and> carries s (snd (start_all su s))"
proof -
  have "up_ok (snd acc) \<Longrightarrow> up_ok (snd (foldl (start_one su) acc es)) \<and> carries (snd acc) (snd (foldl (start_one su) acc es))" for acc es
  proof (induction es arbitrary: acc)
    case (Cons e es)
    show ?case using start_one_ok [OF Cons.prems, of su e] Cons.IH [of "start_one su acc e"] carries_trans by auto
  qed simp
  from this [of "(([], []), s)"] show "up_ok s \<Longrightarrow> ?thesis" by (simp add: start_all_def)
qed

lemma stop_slot_old:
  assumes "n < length (sv_slots s)"
  shows "rc_child (sl_child (slot (snd (stop_slot n s)) m)) = rc_child (sl_child (slot s m))"
    "running (slot (snd (stop_slot n s)) m) = running (slot s m)" "sl_id (slot (snd (stop_slot n s)) m) = sl_id (slot s m)"
    "sl_restartTimer (slot (snd (stop_slot n s)) m) = sl_restartTimer (slot s m)"
    "stopping s m \<Longrightarrow> stopping (snd (stop_slot n s)) m" "m = n \<Longrightarrow> rc_child (sl_child (slot s n)) \<Longrightarrow> stopping (snd (stop_slot n s)) m"
  using assms by (auto simp: stop_slot_slot rpc_stop_def running_def)

text \<open>A child is asked to end, and \<open>w\<close> waits for it.\<close>

lemma wait_ok:
  assumes ok: "fleet_ok s" and n: "n < length (sv_slots s)" "rc_child (sl_child (slot s n))" and w: "w \<noteq> WaitShutdown"
    "sv_shuttingDown s \<Longrightarrow> \<not> starts_again w" "\<And>i. about w = Some i \<Longrightarrow> current s i = Some n"
    "\<And>v. unregisters w \<Longrightarrow> (n, v) \<in> set (sv_waiters s) \<Longrightarrow> \<not> starts_again v"
  shows "fleet_ok ((snd (stop_slot n s))\<lparr>sv_waiters := sv_waiters (snd (stop_slot n s)) @ [(n, w)]\<rparr>)" (is "fleet_ok ?t")
proof -
  have core: "core {} s" and ws: "waits_ok s" using ok by (simp_all add: fleet_ok_def)
  let ?u = "snd (stop_slot n s)"
  note old = stop_slot_old [OF n(1)]
  have u: "waits_ok ?u"
    by (rule waits_carry [OF ws, where P = "\<lambda>_. True"]) (use waiter_facts [OF ws] old in \<open>auto simp: alive_def\<close>)
  have id: "sl_id (slot s n) = i" if "about w = Some i" for i using core_slot [OF core w(3) [OF that]] by simp
  have "waits_ok ?t"
    unfolding waits_ok_def
  proof (intro conjI allI impI)
    fix m v
    assume "(m, v) \<in> set (sv_waiters ?t)"
    then consider "(m, v) \<in> set (sv_waiters ?u)" | "m = n" "v = w" by auto
    note c = this
    show "m < length (sv_slots ?t)" "rc_child (sl_child (slot ?t m))" "stopping ?t m"
      "v = WaitShutdown \<Longrightarrow> sv_shuttingDown ?t" "sv_shuttingDown ?t \<Longrightarrow> \<not> starts_again v"
      by (cases rule: c; use waiter_facts(1-5) [OF u, of m v] n w(1,2) old in simp)+
    show "sl_id (slot ?t m) = i" if "about v = Some i" for i
      by (cases rule: c) (use waiter_facts(6) [OF u, of m v] that id old in simp_all)
    assume a: "\<not> sv_shuttingDown ?t" "about v \<noteq> None" "alive ?t m"
    show "current ?t (sl_id (slot ?t m)) = Some m"
    proof (cases rule: c)
      case 1
      with a waiter_facts(7) [OF u 1] show ?thesis by (simp add: alive_def)
    next
      case 2
      then obtain i where "about w = Some i" using a(2) by auto
      with 2 id w(3) old(3) show ?thesis by simp
    qed
  next
    fix m
    have "in_order (waits_on s m)" using ws by (simp add: waits_ok_def)
    moreover have "waits_on ?t m = waits_on s m @ (if m = n then [w] else [])" by simp
    ultimately show "in_order (waits_on ?t m)"
      using w(4) by (auto simp: in_order_def sorted_wrt_append)
  qed
  then show ?thesis using stop_slot_core [OF core n(1)] ok by (simp add: fleet_ok_def)
qed

lemma wait_carries: "n < length (sv_slots s) \<Longrightarrow> about w = None \<Longrightarrow>
    carries s ((snd (stop_slot n s))\<lparr>sv_waiters := sv_waiters (snd (stop_slot n s)) @ [(n, w)]\<rparr>)"
  using stop_slot_old [of n s] by (auto simp: carries_def)

lemma find_daemon_id: "find_daemon su i s = Some e \<Longrightarrow> ld_id e = i"
  by (auto simp: find_daemon_def find_Some_iff)

text \<open>A daemon whose child has ended leaves the map.\<close>

lemma delete_core:
  assumes core: "core (insert i E) s" and gone: "\<And>n. current s i = Some n \<Longrightarrow> (running (slot s n) \<longrightarrow> stopping s n) \<and> sl_restartTimer (slot s n) = None"
  shows "core E (s\<lparr>sv_children := omap_del (sv_children s) i\<rparr>)" (is "core E ?t")
proof -
  have ch: "current ?t = (current s)(i := None)" by (simp add: fun_eq_iff)
  have fl: "sv_slots ?t = sv_slots s" "slot ?t = slot s" "sv_timers ?t = sv_timers s" "sv_nextTimer ?t = sv_nextTimer s"
    "sv_shuttingDown ?t = sv_shuttingDown s" by simp_all
  have "map_ok ?t" using core unfolding core_def map_ok_def ch fl by auto
  moreover have "owned ?t"
    unfolding owned_def alive_def ch fl
  proof (intro allI impI)
    fix n
    assume a: "n < length (sv_slots s) \<and> running (slot s n)" "\<not> stopping s n"
    then have c: "current s (sl_id (slot s n)) = Some n" using slot_facts(1) [OF core] by blast
    with a gone have "sl_id (slot s n) \<noteq> i" by auto
    with c show "((current s)(i := None)) (sl_id (slot s n)) = Some n" by simp
  qed
  moreover have "timers_ok ?t"
    unfolding timers_ok_def ch fl
  proof (intro conjI allI impI)
    show "distinct (map fst (sv_timers s))" using timer_distinct [OF core] .
  next
    fix n h
    assume "n < length (sv_slots s)" "sl_restartTimer (slot s n) = Some h"
    then show "(h, n) \<in> set (sv_timers s)" using timer_listed [OF core] by simp
  next
    fix h n
    assume hn: "(h, n) \<in> set (sv_timers s)"
    note f = timer_facts [OF core hn]
    show "h < sv_nextTimer s" "n < length (sv_slots s)" "sl_restartTimer (slot s n) = Some h" "crashed (slot s n)"
      "sl_restartAttempt (slot s n) < length RESTART_BACKOFFS_MS" using f by auto
    have "sl_id (slot s n) \<noteq> i" using f(3,4) gone by auto
    with f(4) show "((current s)(i := None)) (sl_id (slot s n)) = Some n" by simp
  qed
  moreover have "retried E ?t" using core unfolding core_def retried_def ch fl by auto
  moreover have "calmed ?t" "\<forall>m < length (sv_slots ?t). slot_fine (slot ?t m)" using core unfolding core_def calmed_def alive_def fl by simp_all
  ultimately show ?thesis by (simp add: core_def)
qed

lemma delete_up:
  assumes "core (insert i {}) s" "waits_ok s" "\<not> sv_shuttingDown s"
    "\<And>n. current s i = Some n \<Longrightarrow> \<not> running (slot s n) \<and> sl_restartTimer (slot s n) = None"
  shows "up_ok (s\<lparr>sv_children := omap_del (sv_children s) i\<rparr>)"
proof -
  let ?t = "s\<lparr>sv_children := omap_del (sv_children s) i\<rparr>"
  have "core {} ?t" by (rule delete_core [OF assms(1)]) (use assms(4) in blast)
  moreover have "waits_ok ?t"
  proof (rule waits_carry [OF assms(2), where P = "\<lambda>_. True"])
    fix m v
    assume mv: "(m, v) \<in> set (sv_waiters s)"
    show "rc_child (sl_child (slot ?t m)) \<and> stopping ?t m \<and> sl_id (slot ?t m) = sl_id (slot s m)"
      using waiter_facts(2,3) [OF assms(2) mv] by simp
    assume a: "about v \<noteq> None" "alive ?t m" "\<not> sv_shuttingDown s"
    then have m: "alive s m" by (simp add: alive_def)
    with waiter_facts(7) [OF assms(2) mv a(3,1)] have "current s (sl_id (slot s m)) = Some m" .
    then have "sl_id (slot s m) \<noteq> i" using assms(4) m by (auto simp: alive_def)
    with m show "alive s m \<and> current ?t (sl_id (slot s m)) = current s (sl_id (slot s m))" by simp
  qed simp_all
  ultimately show ?thesis using assms(3) by (simp add: up_ok_def)
qed

lemma unregister_finish_same: "same_fleet (if had then s\<lparr>sv_children := omap_del (sv_children s) i\<rparr> else s) (unregister_finish su k i had s)"
  by (simp add: unregister_finish_def Let_def split_def)

text \<open>The loop over the children to stop, from any of its positions.\<close>

lemma stop_all_loop_ok:
  assumes "fleet_ok s" "\<And>i n. (i, n) \<in> set es \<Longrightarrow> n < length (sv_slots s)" "sv_shuttingDown s \<Longrightarrow> \<not> again"
  shows "fleet_ok (stop_all_loop su k again visited stopped already es s) \<and> carries s (stop_all_loop su k again visited stopped already es s) \<and>
    sv_shuttingDown (stop_all_loop su k again visited stopped already es s) = sv_shuttingDown s \<and>
    (again \<or> sv_children (stop_all_loop su k again visited stopped already es s) = sv_children s)"
  using assms
proof (induction es arbitrary: visited already)
  case Nil
  have "fleet_ok (effect x s)" for x using Nil(1) same_fleet_ok [of s "effect x s"] by simp
  moreover have "up_ok s" if again using Nil(1,3) that fleet_up by blast
  moreover have "up_ok t \<Longrightarrow> fleet_ok (effect x t)" for x t by (rule up_fleet) simp
  moreover have "sv_shuttingDown (snd (start_all su s)) = sv_shuttingDown s"
  proof -
    have "sv_shuttingDown (snd (foldl (start_one su) acc es)) = sv_shuttingDown (snd acc)" for acc es
    proof (induction es arbitrary: acc)
      case (Cons e es)
      have "sv_shuttingDown (snd (start_one su acc e)) = sv_shuttingDown (snd acc)"
        by (cases acc; cases "child_at (snd acc) (ld_id e)") (simp_all add: start_one_def split_def)
      with Cons show ?case by simp
    qed simp
    then show ?thesis by (simp add: start_all_def)
  qed
  ultimately show ?case using start_all_ok [of s su] by (simp add: stop_all_done_def split_def Let_def)
next
  case (Cons e es)
  obtain i n where e: "e = (i, n)" by fastforce
  have n: "n < length (sv_slots s)" using Cons.prems(2) [of i n] e by simp
  show ?case
  proof (cases "i \<in> set visited \<or> \<not> running (slot s n)")
    case True
    then show ?thesis using Cons by (auto simp: e)
  next
    case False
    have core: "core {} s" using Cons.prems(1) by (simp add: fleet_ok_def)
    let ?w = "WaitStopAll k again (visited @ [i]) (stopped @ [i]) already"
    have s: "clear_timer n s = s" "rc_child (sl_child (slot s n))" using False clear_running [OF core n] running_alive [OF core n] by auto
    have "fleet_ok ((snd (stop_slot n s))\<lparr>sv_waiters := sv_waiters (snd (stop_slot n s)) @ [(n, ?w)]\<rparr>)"
      by (rule wait_ok [OF Cons.prems(1) n s(2)]) (use Cons.prems(3) in simp_all)
    then show ?thesis using False s wait_carries [OF n, of ?w] by (simp add: e split_def stop_slot_waits)
  qed
qed

lemma opStopAll_ok: "up_ok s \<Longrightarrow> fleet_ok (opStopAll su k again s)"
  unfolding opStopAll_def
  by (rule stop_all_loop_ok [THEN conjunct1]) (auto simp: up_ok_def fleet_ok_def dest: core_children)

lemma opStart_ok: "up_ok s \<Longrightarrow> up_ok (opStart su k i s)"
proof -
  assume ok: "up_ok s"
  have "up_ok (spawnEntry su j cwd nm s)" if "\<And>n. current s j = Some n \<Longrightarrow> \<not> running (slot s n)" for j cwd nm
    using spawnEntry_ok [OF ok idle_unclaimed [OF ok that]] by blast
  then have "up_ok (spawnEntry su (ld_id e) (ld_cwd e) (Some (ld_name e)) s)"
    if "find_daemon su i s = Some e" "\<And>n. current s i = Some n \<Longrightarrow> \<not> running (slot s n)" for e
    using find_daemon_id [OF that(1)] that(2) by blast
  with ok show ?thesis by (auto simp: opStart_def child_at_def Let_def split: option.split)
qed

lemma opStartAll_ok: "up_ok s \<Longrightarrow> up_ok (opStartAll su k s)"
  using start_all_ok [of s su] by (simp add: opStartAll_def split_def Let_def)

lemma restart_finish_ok: "up_ok s \<Longrightarrow> unclaimed (ld_id e) s \<Longrightarrow> up_ok (restart_finish su k e s)"
  using spawnEntry_ok [of s "ld_id e"] by (simp add: restart_finish_def Let_def)

lemma running_stop:
  assumes "up_ok s" "current s i = Some n" "running (slot s n)" "w \<noteq> WaitShutdown" "about w = Some i" "\<not> unregisters w"
  shows "clear_timer n s = s" "fst (stop_slot n s)"
    "fleet_ok ((snd (stop_slot n s))\<lparr>sv_waiters := sv_waiters (snd (stop_slot n s)) @ [(n, w)]\<rparr>)"
proof -
  have core: "core {} s" and n: "n < length (sv_slots s)" using assms(1) up_cur [OF assms(1,2)] by (auto simp: up_ok_def)
  show "clear_timer n s = s" "fst (stop_slot n s)"
    using clear_running [OF core n] running_alive [OF core n] assms(3) by (auto simp: stop_slot_waits)
  show "fleet_ok ((snd (stop_slot n s))\<lparr>sv_waiters := sv_waiters (snd (stop_slot n s)) @ [(n, w)]\<rparr>)"
    by (rule wait_ok) (use assms n running_alive [OF core n] in \<open>auto simp: up_ok_def fleet_ok_def\<close>)
qed

lemma opStop_ok: "up_ok s \<Longrightarrow> fleet_ok (opStop su k i s)"
  using running_stop [of s i _ "WaitStop k i"] by (auto simp: opStop_def split_def Let_def split: option.split)

lemma opRestart_ok:
  assumes "up_ok s"
  shows "fleet_ok (opRestart su k i s)"
proof (cases "find_daemon su i s")
  case None
  with assms show ?thesis by (auto simp: opRestart_def)
next
  case (Some e)
  have i: "ld_id e = i" using find_daemon_id [OF Some] .
  have idle: "fleet_ok (restart_finish su k e s)" if "\<And>n. current s i = Some n \<Longrightarrow> \<not> running (slot s n)"
    using restart_finish_ok [OF assms] idle_unclaimed [OF assms that] i by blast
  show ?thesis
    using running_stop [OF assms, of i _ "WaitRestart k e"] idle Some i
    by (cases "current s i") (auto simp: opRestart_def split_def Let_def)
qed

lemma opUnregister_ok:
  assumes ok: "up_ok s" and free: "\<And>n w. current s i = Some n \<Longrightarrow> (n, w) \<in> set (sv_waiters s) \<Longrightarrow> \<not> starts_again w"
  shows "fleet_ok (opUnregister su k i s)"
proof (cases "current s i")
  case None
  have "same_fleet s (opUnregister su k i s)"
    using None unregister_finish_same [where had = False and s = s and i = i and su = su and k = k] by (simp add: opUnregister_def)
  with ok show ?thesis using up_same by blast
next
  case (Some n)
  have core: "core {} s" and w: "waits_ok s" and up: "\<not> sv_shuttingDown s" using ok by (simp_all add: up_ok_def)
  have n: "n < length (sv_slots s)" "sl_id (slot s n) = i" using up_cur [OF ok Some] by simp_all
  let ?t = "clear_timer n s"
  have c: "core {i} ?t" using clear_timer_core [OF core n(1)] n(2) by simp
  have sl: "slot ?t m = (if m = n then (slot s n)\<lparr>sl_restartTimer := None\<rparr> else slot s m)" for m using clear_timer_slot [OF n(1)] by simp
  have wt: "waits_ok ?t"
    by (rule waits_carry [OF w, where P = "\<lambda>_. True"]) (use waiter_facts [OF w] sl in \<open>auto simp: alive_def split: if_splits\<close>)
  show ?thesis
  proof (cases "rc_child (sl_child (slot s n))")
    case True
    have "retried {} ?t"
      unfolding retried_def
    proof (intro impI allI)
      fix j m
      assume a: "\<not> sv_shuttingDown ?t" "current ?t j = Some m" "crashed (slot ?t m)" "\<not> rc_child (sl_child (slot ?t m))"
      with True sl have m: "m \<noteq> n" by auto
      then have "j \<noteq> i" using a(2) Some by auto
      with a c show "sl_restartTimer (slot ?t m) \<noteq> None \<or> sl_restartAttempt (slot ?t m) = length RESTART_BACKOFFS_MS"
        unfolding core_def retried_def by auto
    qed
    with c wt up have "fleet_ok ?t" by (simp add: core_def fleet_ok_def)
    from wait_ok [OF this, of n "WaitUnregister k i"] n True sl Some free up show ?thesis
      by (auto simp: opUnregister_def split_def stop_slot_waits)
  next
    case False
    have st: "stop_slot n ?t = (False, set_slot n (\<lambda>s. s) ?t)"
      using False sl by (simp add: stop_slot_def rpc_stop_def set_slot_def)
    have id: "set_slot n (\<lambda>s. s) ?t = ?t" by (cases ?t) (simp add: set_slot_def slot_def)
    have "\<not> running (slot s n)" using False running_alive [OF core n(1)] by auto
    then have "up_ok (?t\<lparr>sv_children := omap_del (sv_children ?t) i\<rparr>)"
      using c wt up sl Some by (intro delete_up) auto
    then have "up_ok (unregister_finish su k i True ?t)" using up_same [OF unregister_finish_same [where had = True and s = ?t and i = i and su = su and k = k]] by simp
    with st id Some show ?thesis by (auto simp: opUnregister_def)
  qed
qed

subsection \<open>Firing and the other requests\<close>

lemma fire_record_same [simp]: "same_fleet s (fire_record su k job r t) = same_fleet s t"
  by (simp add: fire_record_def Let_def split_def split: sum.split option.split)

lemma deliver_same [simp]: "same_fleet s (snd (deliver_prompt su n job r t)) = same_fleet s t"
  by (simp add: deliver_prompt_def split: option.split)

lemma fire_act_running: "same_fleet s (fire_act su k job n True busy s)"
  by (auto simp: fire_act_def decideFireAction_def split_def Let_def split: option.split if_splits)

lemma fire_act_skip: "\<not> cj_wake job \<Longrightarrow> same_fleet s (fire_act su k job n r busy s)"
  by (auto simp: fire_act_def decideFireAction_def split_def Let_def split: option.split if_splits)

lemma fire_act_ok:
  assumes "fleet_ok s" "\<not> sv_shuttingDown s"
    "r \<or> (\<forall>n. current s (cj_daemon_id job) = Some n \<longrightarrow> \<not> running (slot s n))"
  shows "fleet_ok (fire_act su k job n r busy s)"
proof (cases "r \<or> \<not> cj_wake job")
  case True
  have "same_fleet s (fire_act su k job n r busy s)"
  proof (cases r)
    case True
    then show ?thesis using fire_act_running [of s su k job n busy] by simp
  next
    case False
    with True show ?thesis using fire_act_skip by blast
  qed
  then show ?thesis using assms(1) same_fleet_ok by blast
next
  case False
  show ?thesis
  proof (cases "find_daemon su (cj_daemon_id job) s")
    case None
    then have "same_fleet s (fire_act su k job n r busy s)" using False by (simp add: fire_act_def decideFireAction_def)
    then show ?thesis using assms(1) same_fleet_ok by blast
  next
    case (Some e)
    let ?t = "spawnEntry su (ld_id e) (ld_cwd e) (Some (ld_name e)) s"
    have i: "ld_id e = cj_daemon_id job" using find_daemon_id [OF Some] .
    have up: "up_ok s" using assms fleet_up by blast
    have "unclaimed (ld_id e) s" by (rule idle_unclaimed [OF up]) (use assms(3) False i in auto)
    then have t: "fleet_ok ?t" using spawnEntry_ok [OF up] by blast
    have "same_fleet ?t (fire_act su k job n r busy s)"
      using False Some i by (simp add: fire_act_def decideFireAction_def split_def Let_def)
    with t show ?thesis using same_fleet_ok by blast
  qed
qed

lemma fireJob_ok:
  assumes "fleet_ok s" "\<not> sv_shuttingDown s"
  shows "fleet_ok (fireJob su k i manual s)"
proof (cases "getJob i (sv_cron s)")
  case None
  with assms show ?thesis by (simp add: fireJob_def)
next
  case (Some job)
  have core: "core {} s" using assms by (simp add: fleet_ok_def)
  show ?thesis
  proof (cases "\<not> cj_enabled job \<and> \<not> manual")
    case True
    have "same_fleet s (fire_record su k job SkippedDisabled s)" by simp
    with True Some assms(1) same_fleet_ok [OF this] show ?thesis by (simp add: fireJob_def)
  next
    case False
    show ?thesis
    proof (cases "current s (cj_daemon_id job)")
      case None
      with Some False fire_act_ok [OF assms, of False job su k None False] show ?thesis by (auto simp: fireJob_def)
    next
      case n: (Some n)
      have len: "n < length (sv_slots s)" using core_slot [OF core n] by simp
      show ?thesis
      proof (cases "running (slot s n) \<and> cj_skip_if_busy job")
        case True
        obtain ans c where rb: "refreshBusy (su_writable su) (su_question su) (sl_child (slot s n)) = (ans, c)" by fastforce
        have "same_life (sl_child (slot s n)) c" using rb by (auto simp: refreshBusy_def same_life_def split: if_splits)
        then have t: "fleet_ok (set_slot n (\<lambda>sl. sl\<lparr>sl_child := c\<rparr>) s)" (is "fleet_ok ?t") using tweak_ok [OF assms(1) len] by simp
        show ?thesis
        proof (cases ans)
          case (Inl busy)
          with t rb True Some False n assms(2) fire_act_ok [OF t, of True] show ?thesis by (auto simp: fireJob_def)
        next
          case (Inr l)
          let ?u = "(effect (Wrote n l) ?t)\<lparr>sv_firing := sv_firing ?t @
                     [\<lparr>fi_slot = n, fi_question = su_question su, fi_job = job, fi_reply = k\<rparr>]\<rparr>"
          have "same_fleet ?t ?u" by simp
          with t same_fleet_ok have "fleet_ok ?u" by blast
          with Inr rb True Some False n show ?thesis by (auto simp: fireJob_def Let_def)
        qed
      next
        case no: False
        have "fleet_ok (fire_act su k job (Some n) (running (slot s n)) False s)"
          by (rule fire_act_ok) (use assms n in auto)
        with no Some False n show ?thesis by (auto simp: fireJob_def Let_def)
      qed
    qed
  qed
qed

lemma cron_ok:
  assumes "up_ok s"
  shows "up_ok (stopCron i s)" "up_ok (scheduleCron su j s)" "up_ok (opCronAdd su tm k inp s)" "up_ok (opCronList su tm k s)"
    "up_ok (opCronRemove su k i s)" "up_ok (opCronEnable su k i b s)" "up_ok (opCronLog k q n s)"
proof -
  have a: "up_ok t \<Longrightarrow> up_ok (scheduleCron su j t)" for t j
    by (simp add: scheduleCron_def stopCron_def Let_def split: sum.split)
  have c: "up_ok (t\<lparr>sv_cron := f\<rparr>) = up_ok t" for t f by (rule up_same) simp
  show "up_ok (stopCron i s)" "up_ok (scheduleCron su j s)" "up_ok (opCronList su tm k s)" "up_ok (opCronLog k q n s)"
    using assms a by (simp_all add: stopCron_def opCronList_def opCronLog_def)
  show "up_ok (opCronAdd su tm k inp s)"
    using assms a c by (auto simp: opCronAdd_def Let_def split_def split: sum.split)
  show "up_ok (opCronRemove su k i s)"
    using assms c by (auto simp: opCronRemove_def stopCron_def Let_def split_def split: sum.split)
  show "up_ok (opCronEnable su k i b s)"
    using assms a c by (auto simp: opCronEnable_def stopCron_def Let_def split_def split: sum.split option.split)
qed

lemma handleRequest_ok:
  assumes "up_ok s" "\<And>i n w. r = ReqUnregister i \<Longrightarrow> current s i = Some n \<Longrightarrow> (n, w) \<in> set (sv_waiters s) \<Longrightarrow> \<not> starts_again w"
  shows "fleet_ok (handleRequest su tm k r s)"
proof (cases r)
  case (ReqCronRun i)
  have "fleet_ok (fireJob su (Some k) i True s)" by (rule fireJob_ok) (use assms(1) in \<open>auto simp: up_ok_def up_fleet\<close>)
  with ReqCronRun assms(1) show ?thesis by (auto simp: handleRequest_def opCronRun_def)
next
  case (ReqUnregister i)
  with assms opUnregister_ok [OF assms(1), of i] show ?thesis by (simp add: handleRequest_def)
qed (use assms(1) in \<open>auto simp: handleRequest_def opSend_def opRegister_def Let_def split_def
       intro: up_fleet opStart_ok opStartAll_ok opStop_ok opStopAll_ok opRestart_ok cron_ok split: option.split\<close>)

subsection \<open>The events of the children\<close>

lemma answered_same: "same_fleet s (answered su n s qb)"
proof (cases "List.find (\<lambda>f. fi_slot f = n \<and> fi_question f = fst qb) (sv_firing s)")
  case (Some f)
  let ?u = "s\<lparr>sv_firing := filter (\<lambda>g. \<not> (fi_slot g = n \<and> fi_question g = fst qb)) (sv_firing s)\<rparr>"
  have "same_fleet s ?u" by simp
  also have "same_fleet ?u (fire_act su (fi_reply f) (fi_job f) (Some n) True (snd qb) ?u)" by (rule fire_act_running)
  finally show ?thesis using Some by (simp add: answered_def)
qed (simp add: answered_def)

lemma answers_same: "same_fleet s (foldl (answered su n) s qs)"
  by (induction qs arbitrary: s) (auto intro: same_fleet_trans answered_same)

lemma handle_line_life: "handleStdoutLine l c = Some (a, d) \<Longrightarrow> same_life c d \<and> rc_stdoutBuf d = rc_stdoutBuf c"
  by (auto simp: handleStdoutLine_def same_life_def Let_def split: option.splits state_answer.splits if_splits)

declare out_lines.simps [simp del]

lemma out_lines_life: "same_life c (snd (snd (out_lines c)))"
proof (induction c rule: out_lines.induct)
  case (1 c)
  show ?case
  proof (cases "index_of (rc_stdoutBuf c) nl_char")
    case None
    then show ?thesis by (subst out_lines.simps) (simp add: same_life_def)
  next
    case (Some nl)
    let ?l = "take nl (rc_stdoutBuf c)" and ?c1 = "c\<lparr>rc_stdoutBuf := drop (nl + 1) (rc_stdoutBuf c)\<rparr>"
    have c1: "same_life c ?c1" by (simp add: same_life_def)
    show ?thesis
    proof (cases "trim ?l = ''''")
      case True
      with 1(1) [OF Some refl refl] Some show ?thesis by (subst out_lines.simps) (simp add: Let_def same_life_def)
    next
      case False
      show ?thesis
      proof (cases "handleStdoutLine ?l ?c1")
        case None
        with False Some c1 show ?thesis by (subst out_lines.simps) (simp add: Let_def)
      next
        case h: (Some p)
        obtain a d where p: "p = (a, d)" by fastforce
        have d: "same_life ?c1 d" using handle_line_life h p by blast
        have "same_life (d\<lparr>rc_stdoutBuf := rc_stdoutBuf ?c1\<rparr>) (snd (snd (out_lines (d\<lparr>rc_stdoutBuf := rc_stdoutBuf ?c1\<rparr>))))"
          using 1(2) [OF Some refl refl False h p [symmetric]] .
        with d False Some h p show ?thesis by (subst out_lines.simps) (simp add: Let_def split_def same_life_def)
      qed
    qed
  qed
qed

lemma child_output_ok:
  assumes "fleet_ok s" "n < length (sv_slots s)"
  shows "fleet_ok (child_output su n chunk s)"
proof -
  obtain as ok c where o: "onStdout chunk (sl_child (slot s n)) = (as, ok, c)" by (metis prod_cases3)
  have "same_life (sl_child (slot s n)) c"
    using out_lines_life [of "(sl_child (slot s n))\<lparr>rc_stdoutBuf := rc_stdoutBuf (sl_child (slot s n)) @ chunk\<rparr>"] o
    by (simp add: onStdout_def same_life_def)
  then have "fleet_ok (set_slot n (\<lambda>sl. sl\<lparr>sl_child := c\<rparr>) s)" using tweak_ok assms by blast
  with o show ?thesis using same_fleet_ok [OF answers_same] by (simp add: child_output_def)
qed

lemma question_timeout_ok:
  assumes "fleet_ok s" "n < length (sv_slots s)"
  shows "fleet_ok (question_timeout su n q s)"
proof -
  obtain b c where r: "refresh_timeout q (sl_child (slot s n)) = (b, c)" by fastforce
  have "same_life (sl_child (slot s n)) c" using r by (auto simp: refresh_timeout_def same_life_def)
  then have "fleet_ok (set_slot n (\<lambda>sl. sl\<lparr>sl_child := c\<rparr>) s)" using tweak_ok assms by blast
  with r assms show ?thesis using same_fleet_ok [OF answered_same] by (simp add: question_timeout_def)
qed

text \<open>The end of a child changes no other slot.\<close>

lemma exit_others:
  assumes core: "core {} s" and a: "alive s n" and e: "rpc_exit code sig (sl_child (slot s n)) = (evt, qs, c)"
  shows "m \<noteq> n \<Longrightarrow> slot (onChildExit su (sl_id (slot s n)) evt (set_slot n (\<lambda>sl. sl\<lparr>sl_child := c\<rparr>) s)) m = slot s m"
    and "stopping s n \<Longrightarrow> onChildExit su (sl_id (slot s n)) evt (set_slot n (\<lambda>sl. sl\<lparr>sl_child := c\<rparr>) s) = set_slot n (\<lambda>sl. sl\<lparr>sl_child := c\<rparr>) s"
proof -
  have n: "n < length (sv_slots s)" using a by (simp add: alive_def)
  have evt: "ev_isCrash evt = (\<not> stopping s n \<and> (code \<noteq> Some 0 \<or> sig \<noteq> None))" using e by (auto simp: rpc_exit_def Let_def)
  have own: "\<not> stopping s n \<Longrightarrow> current s (sl_id (slot s n)) = Some n" using core a unfolding core_def owned_def by blast
  show "m \<noteq> n \<Longrightarrow> slot (onChildExit su (sl_id (slot s n)) evt (set_slot n (\<lambda>sl. sl\<lparr>sl_child := c\<rparr>) s)) m = slot s m"
    using n evt own by (cases "stopping s n") (auto simp: onChildExit_def slot_simps spawn_slot_eq split: option.split)
  show "stopping s n \<Longrightarrow> onChildExit su (sl_id (slot s n)) evt (set_slot n (\<lambda>sl. sl\<lparr>sl_child := c\<rparr>) s) = set_slot n (\<lambda>sl. sl\<lparr>sl_child := c\<rparr>) s"
    using evt by (simp add: onChildExit_def split: option.split)
qed

lemma clear_children:
  assumes "core {} s" "sv_shuttingDown s"
  shows "core {} (s\<lparr>sv_children := []\<rparr>)"
proof -
  have "sv_timers s = []" using assms by (simp add: core_def calmed_def)
  with assms show ?thesis
    using timer_listed [OF assms(1)] unfolding core_def map_ok_def owned_def timers_ok_def retried_def calmed_def alive_def by auto
qed

text \<open>
  The requests left to continue after the child of the daemon \<open>i\<close> has ended: all about \<open>i\<close> or
  about none, and as long as one of them unregisters \<open>i\<close>, nothing has started it again.
\<close>

definition resumable :: "string \<Rightarrow> supervisor \<Rightarrow> waiter list \<Rightarrow> bool" where
  "resumable i s ws \<longleftrightarrow> in_order ws \<and>
     (\<forall>w \<in> set ws. (about w \<noteq> None \<longrightarrow> about w = Some i) \<and> (w = WaitShutdown \<longrightarrow> sv_shuttingDown s) \<and> (sv_shuttingDown s \<longrightarrow> \<not> starts_again w)) \<and>
     (sv_shuttingDown s \<or> (\<forall>w \<in> set ws. about w = None) \<or> unclaimed i s) \<and>
     (sv_shuttingDown s \<or> (\<forall>w \<in> set ws. \<not> unregisters w) \<or>
       (\<forall>m. current s i = Some m \<longrightarrow> \<not> running (slot s m) \<and> sl_restartTimer (slot s m) = None))"

lemma resumable_carry:
  assumes r: "resumable i s (w # ws)" and s: "core {} s" "waits_ok s" and c: "carries s t" and sh: "sv_shuttingDown t = sv_shuttingDown s"
    and ch: "starts_again w \<or> current t i = current s i \<or> current t i = None"
  shows "resumable i t ws"
proof -
  have free: "unclaimed i t" if "unclaimed i s" using carries_unclaimed [OF c s(2) that] .
  have quiet: "\<not> running (slot t m) \<and> sl_restartTimer (slot t m) = None"
    if "\<not> starts_again w" "\<forall>m. current s i = Some m \<longrightarrow> \<not> running (slot s m) \<and> sl_restartTimer (slot s m) = None" "current t i = Some m" for m
  proof -
    have m: "current s i = Some m" using that(1,3) ch by auto
    with core_slot [OF s(1)] have "m < length (sv_slots s)" by blast
    with c that(2) m show ?thesis unfolding carries_def by auto
  qed
  have o: "in_order ws" "starts_again w \<Longrightarrow> \<forall>v \<in> set ws. \<not> unregisters v" using r by (auto simp: resumable_def in_order_def)
  show ?thesis
    unfolding resumable_def sh
    using r o free quiet unfolding resumable_def by (cases "starts_again w") auto
qed

lemma children_cleared: "fleet_ok t \<Longrightarrow> sv_shuttingDown t \<Longrightarrow> fleet_ok (t\<lparr>sv_children := []\<rparr>)"
proof -
  assume t: "fleet_ok t" "sv_shuttingDown t"
  then have "waits_ok (t\<lparr>sv_children := []\<rparr>)" unfolding fleet_ok_def waits_ok_def alive_def by simp
  with t clear_children [of t] show ?thesis by (simp add: fleet_ok_def)
qed

lemma delete_down:
  assumes "fleet_ok s" "sv_shuttingDown s"
  shows "fleet_ok (s\<lparr>sv_children := omap_del (sv_children s) i\<rparr>)"
proof -
  let ?t = "s\<lparr>sv_children := omap_del (sv_children s) i\<rparr>"
  have core: "core {} s" and w: "waits_ok s" using assms(1) by (simp_all add: fleet_ok_def)
  have quiet: "(running (slot s n) \<longrightarrow> stopping s n) \<and> sl_restartTimer (slot s n) = None" if "current s i = Some n" for n
  proof -
    have n: "n < length (sv_slots s)" using core_slot [OF core that] by simp
    moreover have "sv_timers s = []" "\<And>m. alive s m \<Longrightarrow> stopping s m" using core assms(2) unfolding core_def calmed_def by blast+
    ultimately show ?thesis using timer_listed [OF core n] by (cases "sl_restartTimer (slot s n)") (auto simp: alive_def)
  qed
  have "core {} ?t" by (rule delete_core) (use core_mono [OF core] quiet in auto)
  moreover have "waits_ok ?t" using w assms(2) unfolding waits_ok_def by simp
  ultimately show ?thesis using assms by (simp add: fleet_ok_def)
qed

lemma continue_ok:
  assumes ok: "fleet_ok s" and r: "resumable i s (w # ws)"
  shows "fleet_ok (continue_with su n w s) \<and> resumable i (continue_with su n w s) ws"
proof -
  have core: "core {} s" and ws: "waits_ok s" using ok by (simp_all add: fleet_ok_def)
  have up: "\<not> sv_shuttingDown s \<Longrightarrow> up_ok s" using ok fleet_up by blast
  have w: "about w \<noteq> None \<Longrightarrow> about w = Some i" "w = WaitShutdown \<Longrightarrow> sv_shuttingDown s" "sv_shuttingDown s \<Longrightarrow> \<not> starts_again w"
    "\<not> sv_shuttingDown s \<Longrightarrow> about w \<noteq> None \<Longrightarrow> unclaimed i s"
    "\<not> sv_shuttingDown s \<Longrightarrow> unregisters w \<Longrightarrow> current s i = Some m \<Longrightarrow> \<not> running (slot s m) \<and> sl_restartTimer (slot s m) = None" for m
    using r by (auto simp: resumable_def)
  note carry = resumable_carry [OF r core ws]
  show ?thesis
  proof (cases w)
    case (WaitStop k j)
    have f: "same_fleet s (continue_with su n w s)" by (simp add: WaitStop continue_with_def stop_finish_def)
    have "carries s (continue_with su n w s)" "sv_shuttingDown (continue_with su n w s) = sv_shuttingDown s" "current (continue_with su n w s) i = current s i"
      by (simp_all add: WaitStop continue_with_def stop_finish_def)
    with carry same_fleet_ok [OF f] ok show ?thesis by blast
  next
    case (WaitRestart k e)
    then have e: "ld_id e = i" and u: "\<not> sv_shuttingDown s" using w(1,3) by auto
    have "up_ok (continue_with su n w s)" using restart_finish_ok [OF up [OF u], of e] w(4) u WaitRestart e by (simp add: continue_with_def)
    moreover have "carries s (continue_with su n w s)" "sv_shuttingDown (continue_with su n w s) = sv_shuttingDown s"
      using spawnEntry_carries [OF core] by (simp_all add: WaitRestart continue_with_def restart_finish_def Let_def)
    ultimately show ?thesis using carry WaitRestart by auto
  next
    case (WaitUnregister k j)
    then have j: "j = i" using w(1) by auto
    have f: "same_fleet (s\<lparr>sv_children := omap_del (sv_children s) i\<rparr>) (continue_with su n w s)"
      using unregister_finish_same [where had = True and s = s and i = i and su = su and k = k] by (simp add: WaitUnregister continue_with_def j)
    have c: "carries s (continue_with su n w s)" "sv_shuttingDown (continue_with su n w s) = sv_shuttingDown s" "current (continue_with su n w s) i = None"
      by (simp_all add: WaitUnregister continue_with_def unregister_finish_def j Let_def split_def)
    have "fleet_ok (s\<lparr>sv_children := omap_del (sv_children s) i\<rparr>)"
    proof (cases "sv_shuttingDown s")
      case True
      then show ?thesis using delete_down ok by blast
    next
      case False
      have "up_ok (s\<lparr>sv_children := omap_del (sv_children s) i\<rparr>)"
        by (rule delete_up) (use core_mono [OF core] ws False w(5) WaitUnregister in auto)
      then show ?thesis by blast
    qed
    with f c carry same_fleet_ok show ?thesis by blast
  next
    case (WaitStopAll k again visited stopped already)
    have "sv_shuttingDown s \<Longrightarrow> \<not> again" using w(3) WaitStopAll by simp
    from stop_all_loop_ok [OF ok _ this, of "sv_children s" su k visited stopped already] core_children [OF core]
    have "fleet_ok (continue_with su n w s) \<and> carries s (continue_with su n w s) \<and> sv_shuttingDown (continue_with su n w s) = sv_shuttingDown s \<and>
        (again \<or> sv_children (continue_with su n w s) = sv_children s)"
      by (simp add: WaitStopAll continue_with_def)
    with carry WaitStopAll show ?thesis by auto
  next
    case WaitShutdown
    have "fleet_ok (continue_with su n w s)" using ok children_cleared [of s] w(2) WaitShutdown by (auto simp: continue_with_def)
    moreover have "carries s (continue_with su n w s)" "sv_shuttingDown (continue_with su n w s) = sv_shuttingDown s"
      "current (continue_with su n w s) i = current s i \<or> current (continue_with su n w s) i = None"
      by (simp_all add: WaitShutdown continue_with_def)
    ultimately show ?thesis using carry by blast
  qed
qed

lemma continues_ok: "fleet_ok s \<Longrightarrow> resumable i s ws \<Longrightarrow> fleet_ok (foldl (\<lambda>t w. continue_with su n w t) s ws)"
proof (induction ws arbitrary: s)
  case (Cons w ws)
  show ?case using continue_ok [OF Cons.prems, of su n] Cons.IH by simp
qed simp

text \<open>The end of a child: the fleet without it, and the requests that then continue.\<close>

lemma child_ends_parts:
  assumes ok: "fleet_ok s" and a: "alive s n" and e: "rpc_exit code sig (sl_child (slot s n)) = (evt, qs, c)"
  shows "\<exists>t. fleet_ok t \<and> resumable (sl_id (slot s n)) t (waits_on s n) \<and>
    child_ends su n code sig s = foldl (\<lambda>t w. continue_with su n w t) t (waits_on s n) \<and>
    sv_waiters t = filter (\<lambda>w. fst w \<noteq> n) (sv_waiters s) \<and> sv_children t = sv_children s \<and> sv_shuttingDown t = sv_shuttingDown s \<and>
    length (sv_slots t) = length (sv_slots s) \<and> (\<forall>m. m \<noteq> n \<longrightarrow> slot t m = slot s m) \<and>
    (stopping s n \<longrightarrow> slot t n = (slot s n)\<lparr>sl_child := c\<rparr>)"
proof -
  let ?t = "set_slot n (\<lambda>sl. sl\<lparr>sl_child := c\<rparr>) s" and ?i = "sl_id (slot s n)"
  define s1 where "s1 = onChildExit su ?i evt ?t"
  define s2 where "s2 = foldl (answered su n) s1 (map (\<lambda>q. (q, False)) qs)"
  define s3 where "s3 = s2\<lparr>sv_waiters := filter (\<lambda>w. fst w \<noteq> n) (sv_waiters s)\<rparr>"
  have n: "n < length (sv_slots s)" and core: "core {} s" and w: "waits_ok s" using ok a by (auto simp: alive_def fleet_ok_def)
  have c: "\<not> rc_child c" "rc_state c \<noteq> DaemonRunning" using e by (auto simp: rpc_exit_def Let_def split: if_splits)
  have f1: "sv_waiters s1 = sv_waiters s" "sv_children s1 = sv_children s" "sv_shuttingDown s1 = sv_shuttingDown s"
    "sv_cronJobs s1 = sv_cronJobs s" "length (sv_slots s1) = length (sv_slots s)" by (simp_all add: s1_def)
  have s12: "same_fleet s1 s2" unfolding s2_def by (rule answers_same)
  have f3: "sv_waiters s3 = filter (\<lambda>w. fst w \<noteq> n) (sv_waiters s)" "sv_children s3 = sv_children s" "sv_shuttingDown s3 = sv_shuttingDown s"
    "sv_cronJobs s3 = sv_cronJobs s" "length (sv_slots s3) = length (sv_slots s)" "slot s3 = slot s1"
    using s12 f1 same_fleet_slot [OF s12] by (simp_all add: same_fleet_def s3_def)
  have "core {} s1" unfolding s1_def using exit_core [OF core a e] .
  then have core3: "core {} s3" using same_fleet_core [OF s12] by (simp add: s3_def)
  have others: "m \<noteq> n \<Longrightarrow> slot s3 m = slot s m" for m using exit_others(1) [OF core a e] f3(6) by (simp add: s1_def)
  have "waits_ok s3"
    by (rule waits_carry [OF w f3(1,3)]) (use waiter_facts [OF w] others f3 in \<open>auto simp: alive_def\<close>)
  then have ok3: "fleet_ok s3" using core3 ok f3 by (simp add: fleet_ok_def)
  let ?ws = "waits_on s n"
  have r: "child_ends su n code sig s = foldl (\<lambda>t w. continue_with su n w t) s3 ?ws"
    using e f1(1) s12 by (simp add: child_ends_def resume_def s3_def s2_def s1_def same_fleet_def Let_def)
  have ended: "slot s3 n = (slot s n)\<lparr>sl_child := c\<rparr>" if "stopping s n"
  proof -
    have "s1 = ?t" using exit_others(2) [OF core a e that] by (simp add: s1_def)
    then show ?thesis using n f3(6) by (simp add: slot_simps)
  qed
  have "resumable ?i s3 ?ws"
    unfolding resumable_def f3(3)
  proof (intro conjI)
    show "in_order ?ws" using w by (simp add: waits_ok_def)
    show "\<forall>v \<in> set ?ws. (about v \<noteq> None \<longrightarrow> about v = Some ?i) \<and> (v = WaitShutdown \<longrightarrow> sv_shuttingDown s) \<and> (sv_shuttingDown s \<longrightarrow> \<not> starts_again v)"
      using waiter_facts(4-6) [OF w] by (auto; fastforce)
    have cur: "current s ?i = Some n" if "\<not> sv_shuttingDown s" "v \<in> set ?ws" "about v \<noteq> None" for v
      using waiter_facts(7) [OF w _ that(1,3) a] that(2) by auto
    show "sv_shuttingDown s \<or> (\<forall>v \<in> set ?ws. about v = None) \<or> unclaimed ?i s3"
    proof (rule ccontr)
      assume "\<not> ?thesis"
      then have up: "\<not> sv_shuttingDown s" and no: "\<exists>v \<in> set ?ws. about v \<noteq> None" "\<not> unclaimed ?i s3" by blast+
      then have i: "current s ?i = Some n" using cur by blast
      from no(2) obtain m v where m: "(m, v) \<in> set (sv_waiters s3)" "about v \<noteq> None" "alive s3 m" "sl_id (slot s3 m) = ?i" unfolding unclaimed_def by blast
      then have "(m, v) \<in> set (sv_waiters s)" "m \<noteq> n" using f3(1) by auto
      moreover from this have "alive s m" using m(3) others f3(5) by (simp add: alive_def)
      ultimately have "current s (sl_id (slot s m)) = Some m" by (intro waiter_facts(7) [OF w _ up m(2)])
      moreover have "sl_id (slot s m) = ?i" using m(4) others [OF \<open>m \<noteq> n\<close>] by simp
      ultimately show False using i \<open>m \<noteq> n\<close> by (metis option.inject)
    qed
    show "sv_shuttingDown s \<or> (\<forall>v \<in> set ?ws. \<not> unregisters v) \<or>
        (\<forall>m. current s3 ?i = Some m \<longrightarrow> \<not> running (slot s3 m) \<and> sl_restartTimer (slot s3 m) = None)"
    proof (rule ccontr)
      assume "\<not> ?thesis"
      then obtain v m where v: "\<not> sv_shuttingDown s" "v \<in> set ?ws" "unregisters v"
        and m: "current s3 ?i = Some m" "\<not> (\<not> running (slot s3 m) \<and> sl_restartTimer (slot s3 m) = None)" by blast
      have "about v \<noteq> None" using v(3) by (cases v) auto
      then have "current s ?i = Some n" using cur v by blast
      with m(1) f3(2) have mn: "m = n" by simp
      have "stopping s n" using waiter_facts(3) [OF w] v(2) by auto
      then have "slot s3 n = (slot s n)\<lparr>sl_child := c\<rparr>" by (rule ended)
      then show False using m(2) mn c running_no_timer [OF core n] a by (simp add: running_def alive_def)
    qed
  qed
  with ok3 r f3 others ended show ?thesis by blast
qed

lemma child_ends_ok:
  assumes "fleet_ok s" "alive s n"
  shows "fleet_ok (child_ends su n code sig s)"
proof -
  obtain evt qs c where "rpc_exit code sig (sl_child (slot s n)) = (evt, qs, c)" by (metis prod_cases3)
  from child_ends_parts [OF assms this, of su] continues_ok show ?thesis by metis
qed

lemma spawn_fails_ok:
  assumes ok: "fleet_ok s" and a: "alive s n" "\<not> stopping s n"
  shows "fleet_ok (spawn_fails su n s)"
proof -
  obtain evt c where e: "rpc_error (sl_child (slot s n)) = (evt, c)" by fastforce
  have c: "c = (sl_child (slot s n))\<lparr>rc_state := DaemonCrashed\<rparr>" "ev_code evt = None" using e by (auto simp: rpc_error_def)
  let ?t = "set_slot n (\<lambda>sl. sl\<lparr>sl_child := c\<rparr>) s"
  define s1 where "s1 = onChildExit su (sl_id (slot s n)) evt ?t"
  have n: "n < length (sv_slots s)" and core: "core {} s" and w: "waits_ok s" using ok a by (auto simp: alive_def fleet_ok_def)
  have cur: "current s (sl_id (slot s n)) = Some n" using core a unfolding core_def owned_def by blast
  have core1: "core {} s1" unfolding s1_def using spawn_fails_core [OF core a e] .
  have f1: "sv_waiters s1 = sv_waiters s" "sv_children s1 = sv_children s" "sv_shuttingDown s1 = sv_shuttingDown s"
    "sv_cronJobs s1 = sv_cronJobs s" "length (sv_slots s1) = length (sv_slots s)" by (simp_all add: s1_def)
  have nw: "n \<notin> fst ` set (sv_waiters s)" using waiter_facts(3) [OF w] a(2) by auto
  have others: "m \<noteq> n \<Longrightarrow> slot s1 m = slot s m" for m
    using n cur c(2) by (auto simp: s1_def onChildExit_def slot_simps split: option.split)
  have "waits_ok s1"
  proof (rule waits_carry [OF w, where P = "\<lambda>_. True"])
    fix m v
    assume mv: "(m, v) \<in> set (sv_waiters s)"
    then have "m \<noteq> n" using nw by force
    with waiter_facts [OF w mv] others f1 show "rc_child (sl_child (slot s1 m)) \<and> stopping s1 m \<and> sl_id (slot s1 m) = sl_id (slot s m)"
      "about v \<noteq> None \<Longrightarrow> alive s1 m \<Longrightarrow> alive s m \<and> current s1 (sl_id (slot s m)) = current s (sl_id (slot s m))"
      by (simp_all add: alive_def)
  qed (simp_all add: f1)
  then have ok1: "fleet_ok s1" using core1 ok f1 by (simp add: fleet_ok_def)
  have "filter (\<lambda>w. fst w = n) (sv_waiters s1) = []" "filter (\<lambda>w. fst w \<noteq> n) (sv_waiters s1) = sv_waiters s1"
    using nw f1 by (auto simp: filter_empty_conv filter_id_conv image_iff)
  then have "spawn_fails su n s = s1" using e by (simp add: spawn_fails_def resume_def s1_def)
  with ok1 show ?thesis by simp
qed

lemma restart_timer_ok:
  assumes ok: "fleet_ok s"
  shows "fleet_ok (restart_timer su h s)"
proof (cases "map_of (sv_timers s) h")
  case None
  with ok show ?thesis by (simp add: restart_timer_def)
next
  case (Some n)
  have core: "core {} s" and w: "waits_ok s" using ok by (simp_all add: fleet_ok_def)
  note f = timer_facts [OF core map_of_SomeD [OF Some]]
  let ?t = "restart_timer su h s"
  have fl: "sv_children ?t = sv_children s" "sv_waiters ?t = sv_waiters s" "sv_shuttingDown ?t = sv_shuttingDown s"
    "sv_cronJobs ?t = sv_cronJobs s" "length (sv_slots ?t) = length (sv_slots s)"
    using Some by (simp_all add: restart_timer_def)
  have sl: "m \<noteq> n \<Longrightarrow> slot ?t m = slot s m" "rc_child (sl_child (slot s n)) \<Longrightarrow> same_life (sl_child (slot s n)) (sl_child (slot ?t n))" for m
    using Some f(2) by (simp_all add: restart_timer_def spawn_slot_eq slot_simps same_life_def spawned_child noteRestart_def)
  have id: "sl_id (slot ?t n) = sl_id (slot s n)" using Some f(2) by (simp add: restart_timer_def spawn_slot_eq slot_simps)
  have "waits_ok ?t"
  proof (rule waits_carry [OF w, where P = "\<lambda>_. True"])
    fix m v
    assume mv: "(m, v) \<in> set (sv_waiters s)"
    note g = waiter_facts [OF w mv]
    have m: "same_life (sl_child (slot s m)) (sl_child (slot ?t m)) \<and> sl_id (slot ?t m) = sl_id (slot s m)"
      using sl g(2) id by (cases "m = n") (auto simp: same_life_def)
    then show "rc_child (sl_child (slot ?t m)) \<and> stopping ?t m \<and> sl_id (slot ?t m) = sl_id (slot s m)"
      "about v \<noteq> None \<Longrightarrow> alive ?t m \<Longrightarrow> alive s m \<and> current ?t (sl_id (slot s m)) = current s (sl_id (slot s m))"
      using g fl by (simp_all add: same_life_def alive_def running_def)
  qed (simp_all add: fl)
  with ok fl restart_timer_core [OF core] show ?thesis by (simp add: fleet_ok_def)
qed

subsection \<open>Shutting down\<close>

lemma clear_all:
  assumes "core E s" "\<And>n. n \<in> set ns \<Longrightarrow> n < length (sv_slots s)"
  shows "let t = foldl (\<lambda>t n. clear_timer n t) s ns in core UNIV t \<and> sv_children t = sv_children s \<and> sv_waiters t = sv_waiters s \<and>
    sv_shuttingDown t = sv_shuttingDown s \<and> length (sv_slots t) = length (sv_slots s) \<and>
    (\<forall>m. m < length (sv_slots s) \<longrightarrow> m \<in> set ns \<or> sl_restartTimer (slot s m) = None \<longrightarrow> sl_restartTimer (slot t m) = None)"
  using assms
proof (induction ns arbitrary: E s)
  case Nil
  then show ?case using core_mono by auto
next
  case (Cons n ns)
  have n: "n < length (sv_slots s)" using Cons.prems(2) by simp
  show ?case
    using Cons.IH [OF clear_timer_core [OF Cons.prems(1) n]] Cons.prems(2) clear_timer_slot [OF n] by (auto simp: Let_def)
qed

lemma stop_all_children:
  assumes "core E s" "\<And>e. e \<in> set es \<Longrightarrow> snd e < length (sv_slots s)"
  shows "let t = foldl stop_child s es in core E t \<and> sv_children t = sv_children s \<and> sv_timers t = sv_timers s \<and>
    sv_shuttingDown t = sv_shuttingDown s \<and> length (sv_slots t) = length (sv_slots s) \<and>
    (\<forall>m. m < length (sv_slots s) \<longrightarrow> rc_child (sl_child (slot t m)) = rc_child (sl_child (slot s m)) \<and> (stopping s m \<longrightarrow> stopping t m) \<and>
      (m \<in> snd ` set es \<longrightarrow> rc_child (sl_child (slot s m)) \<longrightarrow> stopping t m)) \<and>
    (\<forall>m. m < length (sv_slots s) \<longrightarrow> sl_id (slot t m) = sl_id (slot s m)) \<and>
    (\<exists>ns. sv_waiters t = sv_waiters s @ map (\<lambda>n. (n, WaitShutdown)) ns \<and> (\<forall>n \<in> set ns. n \<in> snd ` set es \<and> rc_child (sl_child (slot s n))))"
  using assms
proof (induction es arbitrary: s)
  case Nil
  then show ?case by simp
next
  case (Cons e es)
  let ?n = "snd e" and ?u = "stop_child s e"
  have n: "?n < length (sv_slots s)" using Cons.prems(2) by simp
  have u: "core E ?u" "sv_children ?u = sv_children s" "sv_timers ?u = sv_timers s" "sv_shuttingDown ?u = sv_shuttingDown s"
    "length (sv_slots ?u) = length (sv_slots s)"
    "sv_waiters ?u = sv_waiters s @ (if rc_child (sl_child (slot s ?n)) then [(?n, WaitShutdown)] else [])"
    using stop_slot_core [OF Cons.prems(1) n] by (simp_all add: stop_child_def Let_def split_def stop_slot_waits)
  have sl: "slot ?u m = (if m = ?n then (slot s ?n)\<lparr>sl_child := snd (rpc_stop (sl_child (slot s ?n)))\<rparr> else slot s m)" for m
    using n by (simp add: stop_child_def Let_def split_def stop_slot_slot)
  have st: "rc_child (sl_child (slot ?u m)) = rc_child (sl_child (slot s m))" "stopping s m \<longrightarrow> stopping ?u m"
    "m = ?n \<longrightarrow> rc_child (sl_child (slot s m)) \<longrightarrow> stopping ?u m" for m
    by (simp_all add: sl rpc_stop_def)
  have id: "sl_id (slot ?u m) = sl_id (slot s m)" for m by (simp add: sl)
  have "snd x < length (sv_slots ?u)" if "x \<in> set es" for x using that Cons.prems(2) u(5) by simp
  note IH = Cons.IH [OF u(1) this, unfolded Let_def]
  from IH obtain ns where ns: "sv_waiters (foldl stop_child ?u es) = sv_waiters ?u @ map (\<lambda>n. (n, WaitShutdown)) ns"
    "\<forall>n \<in> set ns. n \<in> snd ` set es \<and> rc_child (sl_child (slot ?u n))" by blast
  have "\<exists>ms. sv_waiters (foldl stop_child s (e # es)) = sv_waiters s @ map (\<lambda>n. (n, WaitShutdown)) ms \<and>
      (\<forall>n \<in> set ms. n \<in> snd ` set (e # es) \<and> rc_child (sl_child (slot s n)))"
    by (rule exI [of _ "(if rc_child (sl_child (slot s ?n)) then [?n] else []) @ ns"]) (use ns u(6) st(1) in \<open>auto\<close>)
  then show ?case
    using IH u(2-5) st n id by (auto simp: Let_def)
qed

lemma shutting_flag: "foldl (\<lambda>t n. clear_timer n t) (s\<lparr>sv_shuttingDown := True, sv_cronJobs := []\<rparr>) ns =
    (foldl (\<lambda>t n. clear_timer n t) s ns)\<lparr>sv_shuttingDown := True, sv_cronJobs := []\<rparr>"
proof (induction ns arbitrary: s)
  case (Cons n ns)
  have "clear_timer n (s\<lparr>sv_shuttingDown := True, sv_cronJobs := []\<rparr>) = (clear_timer n s)\<lparr>sv_shuttingDown := True, sv_cronJobs := []\<rparr>"
    by (simp add: clear_timer_def set_slot_def split: option.split)
  with Cons show ?case by simp
qed simp

lemma stop_flag: "foldl stop_child (s\<lparr>sv_shuttingDown := True, sv_cronJobs := []\<rparr>) es =
    (foldl stop_child s es)\<lparr>sv_shuttingDown := True, sv_cronJobs := []\<rparr>"
proof (induction es arbitrary: s)
  case (Cons e es)
  have "stop_child (s\<lparr>sv_shuttingDown := True, sv_cronJobs := []\<rparr>) e = (stop_child s e)\<lparr>sv_shuttingDown := True, sv_cronJobs := []\<rparr>"
    by (simp add: stop_child_def stop_slot_def Let_def split_def set_slot_def effect_def)
  with Cons show ?case by simp
qed simp

lemma current_image: "current s i = Some m \<Longrightarrow> m \<in> snd ` set (sv_children s)"
  by (rule image_eqI [of _ _ "(i, m)"]) (auto dest: map_of_SomeD)

lemma clear_all_child:
  "(\<And>n. n \<in> set ns \<Longrightarrow> n < length (sv_slots s)) \<Longrightarrow>
    sl_child (slot (foldl (\<lambda>t n. clear_timer n t) s ns) m) = sl_child (slot s m) \<and> sl_id (slot (foldl (\<lambda>t n. clear_timer n t) s ns) m) = sl_id (slot s m)"
proof (induction ns arbitrary: s)
  case (Cons n ns)
  have n: "n < length (sv_slots s)" using Cons.prems by simp
  show ?case using Cons.IH [of "clear_timer n s"] Cons.prems by (simp add: clear_timer_slot [OF n])
qed simp

lemma stop_supervisor_ok:
  assumes ok0: "up_ok s" and no_start: "\<And>n w. (n, w) \<in> set (sv_waiters s) \<Longrightarrow> \<not> starts_again w"
  shows "fleet_ok (stop_supervisor s) \<and> sv_shuttingDown (stop_supervisor s)"
proof -
  define t where "t = foldl (\<lambda>t n. clear_timer n t) s (map snd (sv_children s))"
  define u where "u = foldl stop_child t (sv_children s)"
  define v where "v = u\<lparr>sv_shuttingDown := True, sv_cronJobs := []\<rparr>"
  have core: "core {} s" and w0: "waits_ok s" using ok0 by (simp_all add: up_ok_def)
  have ch: "snd e < length (sv_slots s)" if "e \<in> set (sv_children s)" for e using that core_children [OF core, of "fst e" "snd e"] by simp
  have ns: "n < length (sv_slots s)" if "n \<in> set (map snd (sv_children s))" for n using that ch by auto
  have t: "core UNIV t" "sv_children t = sv_children s" "sv_waiters t = sv_waiters s" "length (sv_slots t) = length (sv_slots s)"
    "\<forall>m < length (sv_slots s). m \<in> snd ` set (sv_children s) \<or> sl_restartTimer (slot s m) = None \<longrightarrow> sl_restartTimer (slot t m) = None"
    using clear_all [OF core, of "map snd (sv_children s)", OF ns, folded t_def] by (simp_all add: Let_def)
  have same: "sl_child (slot t m) = sl_child (slot s m) \<and> sl_id (slot t m) = sl_id (slot s m)" for m
    unfolding t_def by (rule clear_all_child) (use ns in blast)
  have "sl_restartTimer (slot t m) = None" if m: "m < length (sv_slots s)" for m
  proof (cases "sl_restartTimer (slot s m)")
    case (Some h)
    have "current s (sl_id (slot s m)) = Some m" using timer_facts(4) [OF core timer_listed [OF core m Some]] .
    then have "m \<in> snd ` set (sv_children s)" by (rule current_image)
    with t(5) [rule_format, OF m] show ?thesis by simp
  next
    case None
    with t(5) [rule_format, OF m] show ?thesis by simp
  qed
  then have nt: "sl_restartTimer (slot t m) = None" if "m < length (sv_slots t)" for m using that t(4) by simp
  have "sv_timers t = []"
  proof (rule ccontr)
    assume "sv_timers t \<noteq> []"
    then obtain h m where "(h, m) \<in> set (sv_timers t)" by (cases "sv_timers t") auto
    from timer_facts(2,3) [OF t(1) this] nt show False by simp
  qed
  moreover have tc: "snd e < length (sv_slots t)" if "e \<in> set (sv_children s)" for e using that ch t(4) by simp
  moreover have u: "core UNIV u" "sv_children u = sv_children s" "sv_timers u = sv_timers t" "length (sv_slots u) = length (sv_slots s)"
    "\<forall>m < length (sv_slots s). rc_child (sl_child (slot u m)) = rc_child (sl_child (slot t m)) \<and> (stopping t m \<longrightarrow> stopping u m) \<and>
      (m \<in> snd ` set (sv_children s) \<longrightarrow> rc_child (sl_child (slot t m)) \<longrightarrow> stopping u m)"
    "\<forall>m < length (sv_slots s). sl_id (slot u m) = sl_id (slot t m)"
    "\<exists>ns. sv_waiters u = sv_waiters s @ map (\<lambda>n. (n, WaitShutdown)) ns \<and> (\<forall>n \<in> set ns. n \<in> snd ` set (sv_children s) \<and> rc_child (sl_child (slot t n)))"
    using stop_all_children [OF t(1), of "sv_children s", OF tc, folded u_def] t(2-4) by (simp_all add: Let_def)
  ultimately have no: "sv_timers u = []" by simp
  have st: "stopping u m" if "alive u m" for m
  proof (rule ccontr)
    assume n: "\<not> stopping u m"
    have "current u (sl_id (slot u m)) = Some m" using that n u(1) unfolding core_def owned_def by blast
    then have "m \<in> snd ` set (sv_children s)" unfolding u(2) [symmetric] by (rule current_image)
    moreover have "rc_child (sl_child (slot t m))" "m < length (sv_slots s)"
      using that u(4,5) running_alive [OF u(1)] by (auto simp: alive_def)
    ultimately show False using n u(5) by blast
  qed
  have "core {} v"
    using u(1) no st unfolding v_def core_def map_ok_def owned_def timers_ok_def retried_def calmed_def alive_def by auto
  moreover have "waits_ok v"
  proof -
    obtain ks where ks: "sv_waiters u = sv_waiters s @ map (\<lambda>n. (n, WaitShutdown)) ks"
      "\<And>n. n \<in> set ks \<Longrightarrow> n \<in> snd ` set (sv_children s) \<and> rc_child (sl_child (slot t n))" using u(7) by blast
    have new: "n < length (sv_slots s) \<and> rc_child (sl_child (slot u n)) \<and> stopping u n" if "n \<in> set ks" for n
    proof -
      have n: "n < length (sv_slots s)" using ks(2) [OF that] ch by auto
      with ks(2) [OF that] u(5) show ?thesis by blast
    qed
    have old: "n < length (sv_slots s) \<and> rc_child (sl_child (slot u n)) \<and> stopping u n \<and> w \<noteq> WaitShutdown \<and> \<not> starts_again w \<and>
        (\<forall>i. about w = Some i \<longrightarrow> sl_id (slot u n) = i)" if "(n, w) \<in> set (sv_waiters s)" for n w
    proof -
      note f = waiter_facts [OF w0 that]
      have "rc_child (sl_child (slot t n))" "stopping t n" using f(2,3) same by simp_all
      moreover have "sl_id (slot u n) = sl_id (slot s n)" using u(6) f(1) same by simp
      ultimately show ?thesis using f no_start [OF that] u(5) ok0 by (auto simp: up_ok_def)
    qed
    have "in_order (waits_on v n)" for n
    proof -
      have "waits_on v n = waits_on s n @ map (\<lambda>n. WaitShutdown) (filter (\<lambda>k. k = n) ks)"
        by (simp add: v_def ks(1) filter_map comp_def)
      moreover have "in_order (waits_on s n)" using w0 by (simp add: waits_ok_def)
      ultimately show ?thesis by (auto simp: in_order_def sorted_wrt_append sorted_wrt_map)
    qed
    moreover have "(n, w) \<in> set (sv_waiters v) \<Longrightarrow> (n, w) \<in> set (sv_waiters s) \<or> n \<in> set ks \<and> w = WaitShutdown" for n w
      by (auto simp: v_def ks(1))
    moreover have "sv_shuttingDown v" "length (sv_slots v) = length (sv_slots s)" "slot v = slot u" using u(4) by (simp_all add: v_def)
    ultimately show ?thesis
      unfolding waits_ok_def using new old by (metis (no_types, lifting) about.simps(5) option.distinct(1) starts_again.simps(5))
  qed
  ultimately have ok: "fleet_ok v" by (simp add: fleet_ok_def v_def)
  have f: "foldl (\<lambda>t e. clear_timer (snd e) t) x es = foldl (\<lambda>t n. clear_timer n t) x (map snd es)" for x es
    by (induction es arbitrary: x) simp_all
  have "foldl stop_child (foldl (\<lambda>t e. clear_timer (snd e) t) (s\<lparr>sv_shuttingDown := True, sv_cronJobs := []\<rparr>) (sv_children s)) (sv_children s) = v"
    by (simp add: f shutting_flag stop_flag v_def u_def t_def)
  moreover have "sv_children (foldl (\<lambda>t e. clear_timer (snd e) t) (s\<lparr>sv_shuttingDown := True, sv_cronJobs := []\<rparr>) (sv_children s)) = sv_children s"
    using t(2) by (simp add: f shutting_flag t_def)
  ultimately have "stop_supervisor s = (if WaitShutdown \<in> snd ` set (sv_waiters v) then v else v\<lparr>sv_children := []\<rparr>)"
    by (simp add: stop_supervisor_def Let_def)
  then show ?thesis
    using ok children_cleared [OF ok] by (auto simp: v_def)
qed

subsection \<open>Every reachable fleet is sound\<close>

text \<open>
  What can happen: only a running child ends, puts out lines or fails to start; a child
  whose start failed does so before anything asks it to stop. A request may come in at any time.
\<close>

definition can_happen :: "sv_event \<Rightarrow> supervisor \<Rightarrow> bool" where
  "can_happen ev s = (case ev of
     Request k r \<Rightarrow> True
   | ChildEnds n code sig \<Rightarrow> alive s n
   | SpawnFails n \<Rightarrow> alive s n \<and> \<not> stopping s n
   | Output n chunk \<Rightarrow> alive s n
   | QuestionTimesOut n q \<Rightarrow> n < length (sv_slots s)
   | TimerFires h \<Rightarrow> omap_has (sv_timers s) h
   | CronDue i \<Rightarrow> omap_has (sv_cronJobs s) i
   | Shutdown \<Rightarrow> \<not> sv_shuttingDown s)"

text \<open>
  The overlaps in which the code keeps its fleet: everything but an unregistration while a
  restart, or a restart of all, waits for the same child; a shutdown while one waits for any; and a request
  after the shutdown has begun.
\<close>

definition restart_waits :: "supervisor \<Rightarrow> nat \<Rightarrow> bool" where
  "restart_waits s n \<longleftrightarrow> list_ex (\<lambda>w. fst w = n \<and> starts_again (snd w)) (sv_waiters s)"

definition orderly :: "sv_event \<Rightarrow> supervisor \<Rightarrow> bool" where
  "orderly ev s = (case ev of
     Request k r \<Rightarrow> \<not> sv_shuttingDown s \<and>
       (case r of ReqUnregister i \<Rightarrow> (case current s i of Some n \<Rightarrow> \<not> restart_waits s n | None \<Rightarrow> True) | _ \<Rightarrow> True)
   | Shutdown \<Rightarrow> \<not> list_ex (\<lambda>w. starts_again (snd w)) (sv_waiters s)
   | _ \<Rightarrow> True)"

inductive orderly_fleet :: "supervisor \<Rightarrow> bool" where
  fleet_start: "start_supervisor su date_parse False (new_supervisor registry cron log) = (Inr (), s) \<Longrightarrow> orderly_fleet s"
| fleet_step: "orderly_fleet s \<Longrightarrow> can_happen ev s \<Longrightarrow> orderly ev s \<Longrightarrow> orderly_fleet (sv_step su tm ev s)"

lemma new_up: "up_ok (new_supervisor registry cron log)"
  by (simp add: new_supervisor_def up_ok_def waits_ok_def in_order_def core_def map_ok_def owned_def timers_ok_def retried_def calmed_def alive_def)

lemma fleet_cron: "fleet_ok s \<Longrightarrow> omap_has (sv_cronJobs s) i \<Longrightarrow> \<not> sv_shuttingDown s"
  by (auto simp: fleet_ok_def)

lemma step_ok:
  assumes "fleet_ok s" "can_happen ev s" "orderly ev s"
  shows "fleet_ok (sv_step su tm ev s)"
proof (cases ev)
  case (Request k r)
  with assms have up: "up_ok s" by (intro fleet_up) (simp_all add: orderly_def)
  have "fleet_ok (handleRequest su tm k r s)"
    by (rule handleRequest_ok [OF up]) (use assms(3) Request in \<open>auto simp: orderly_def restart_waits_def list_ex_iff\<close>)
  with Request show ?thesis by (simp add: sv_step_def)
next
  case (CronDue i)
  then show ?thesis using fireJob_ok fleet_cron assms by (simp add: sv_step_def can_happen_def)
next
  case Shutdown
  with assms have up: "up_ok s" by (intro fleet_up) (simp_all add: can_happen_def)
  show ?thesis using stop_supervisor_ok [OF up] assms(3) Shutdown by (force simp: sv_step_def orderly_def list_ex_iff)
qed (use assms in \<open>auto simp: sv_step_def can_happen_def alive_def
       intro: child_ends_ok spawn_fails_ok child_output_ok question_timeout_ok restart_timer_ok\<close>)

lemma fireJob_up: "up_ok s \<Longrightarrow> up_ok (fireJob su k i m s)"
proof -
  assume up: "up_ok s"
  have r: "sv_shuttingDown (fire_record su k job r s) = sv_shuttingDown s" for job r s
    using fire_record_same [of s su k job r s] by (simp add: same_fleet_def)
  have d: "sv_shuttingDown (snd (deliver_prompt su n job r t)) = sv_shuttingDown t" for n job r t
    using deliver_same [of t su n job r t] by (simp add: same_fleet_def)
  have a: "sv_shuttingDown (fire_act su k job n r b t) = sv_shuttingDown t" for job n r b t
    using d r by (simp add: fire_act_def Let_def split_def split: fire_action.split option.split)
  have "sv_shuttingDown (fireJob su k i m s) = sv_shuttingDown s"
    using a r by (simp add: fireJob_def Let_def split_def split: option.split sum.split)
  moreover have "fleet_ok (fireJob su k i m s)" using fireJob_ok [OF up_fleet [OF up]] up by (simp add: up_ok_def)
  ultimately show ?thesis using up fleet_up by (simp add: up_ok_def)
qed

lemma start_ok:
  assumes "start_supervisor su date_parse False (new_supervisor registry cron log) = (Inr (), s)"
  shows "fleet_ok s"
proof -
  let ?n = "(new_supervisor registry cron log)\<lparr>sv_registry := snd (migrateRegistryNames (su_fault su) registry)\<rparr>"
  have n: "up_ok ?n" using new_up by simp
  have s: "s = runCatchup su date_parse (reconcileCron su (spawnAllFromRegistry su ?n))"
    using assms by (simp add: start_supervisor_def split_def Let_def new_supervisor_def split: sum.splits)
  have a: "up_ok t \<and> sv_waiters t = [] \<Longrightarrow> up_ok (foldl (\<lambda>t e. spawnEntry su (ld_id e) (ld_cwd e) (Some (ld_name e)) t) t es)" for t es
  proof (induction es arbitrary: t)
    case (Cons e es)
    then have "unclaimed (ld_id e) t" by (simp add: unclaimed_def)
    with Cons have "up_ok (spawnEntry su (ld_id e) (ld_cwd e) (Some (ld_name e)) t)" by blast
    with Cons show ?case by simp
  qed simp
  have b: "up_ok t \<Longrightarrow> up_ok (foldl (\<lambda>t j. if cj_enabled j then scheduleCron su j t else t) t js)" for t js
    by (induction js arbitrary: t) (auto simp: cron_ok)
  have c: "up_ok t \<Longrightarrow> up_ok (foldl (catch_up_one su date_parse) t js)" for t js
  proof (induction js arbitrary: t)
    case (Cons j js)
    have "up_ok (catch_up_one su date_parse t j)"
      using Cons.prems fireJob_up by (auto simp: catch_up_one_def split: sum.split option.split)
    with Cons.IH show ?case by simp
  qed simp
  have "up_ok (spawnAllFromRegistry su ?n)" using a [of ?n] n by (simp add: spawnAllFromRegistry_def new_supervisor_def)
  then have "up_ok (reconcileCron su (spawnAllFromRegistry su ?n))" unfolding reconcileCron_def by (intro b) simp
  then show ?thesis unfolding s runCatchup_def by (intro up_fleet c)
qed

lemma fleet_sound: "orderly_fleet s \<Longrightarrow> fleet_ok s"
  by (induction rule: orderly_fleet.induct) (auto intro: start_ok step_ok)

end
