(* ===== verification/FleetProperties.thy ===== *)
theory FleetProperties imports Fleet
begin

text \<open>
  What the supervisor guarantees about its daemons as long as it is used in an orderly way, from
  the invariant of \<open>Fleet\<close>: no process is lost, a crash is retried, a stop is final, and the
  trace of the scheduled prompts is true. The last part shows what the code does not guarantee.
\<close>

subsection \<open>A daemon that is stopped\<close>


lemma resume_none: "n \<notin> fst ` set (sv_waiters s) \<Longrightarrow> resume su n s = s"
proof -
  assume n: "n \<notin> fst ` set (sv_waiters s)"
  then have "filter (\<lambda>w. fst w = n) (sv_waiters s) = []" "filter (\<lambda>w. fst w \<noteq> n) (sv_waiters s) = sv_waiters s"
    by (auto simp: filter_empty_conv filter_id_conv image_iff)
  then show ?thesis by (simp add: resume_def)
qed

text \<open>What a request that continues would do to the daemon \<open>i\<close> beyond stopping it.\<close>

fun disturbs :: "string \<Rightarrow> waiter \<Rightarrow> bool" where
  "disturbs i (WaitRestart k e) = (ld_id e = i)"
| "disturbs i (WaitUnregister k j) = (j = i)"
| "disturbs i (WaitStopAll k again visited stopped already) = again"
| "disturbs i w = False"




text \<open>The stopped child \<open>n\<close> of the daemon \<open>i\<close>, and what waits for it, are left as they are.\<close>

definition spares :: "string \<Rightarrow> nat \<Rightarrow> supervisor \<Rightarrow> supervisor \<Rightarrow> bool" where
  "spares i n s t \<longleftrightarrow> length (sv_slots s) \<le> length (sv_slots t) \<and> same_life (sl_child (slot s n)) (sl_child (slot t n)) \<and>
     current t i = current s i \<and> sv_shuttingDown t = sv_shuttingDown s \<and>
     (\<forall>w. (n, w) \<in> set (sv_waiters s) \<longrightarrow> (n, w) \<in> set (sv_waiters t)) \<and>
     (\<forall>m w. (m, w) \<in> set (sv_waiters t) \<longrightarrow> (m, w) \<in> set (sv_waiters s) \<or> \<not> disturbs i w)"

lemma life_refl [simp]: "same_life c c"
  by (simp add: same_life_def)


lemma spares_refl [simp]: "spares i n s s"
  by (simp add: spares_def)


lemma spares_fields [simp]:
  "spares i n s (t\<lparr>sv_registry := r\<rparr>) = spares i n s t" "spares i n s (t\<lparr>sv_cron := f\<rparr>) = spares i n s t"
  "spares i n s (t\<lparr>sv_cronJobs := c\<rparr>) = spares i n s t" "spares i n s (t\<lparr>sv_cronLog := l\<rparr>) = spares i n s t"
  "spares i n s (t\<lparr>sv_firing := g\<rparr>) = spares i n s t"
  by (simp_all add: spares_def)

lemma spares_effect [simp]: "spares i n s (effect e t) = spares i n s t"
  by (simp add: spares_def)






































subsection \<open>The properties\<close>


text \<open>What a child that is not being stopped does when it ends unexpectedly.\<close>

lemma effects_kept: "set (sv_effects s) \<subseteq> set (sv_effects (effect e s))"
  by (auto simp: effect_def)

lemma fire_record_effects: "set (sv_effects s) \<subseteq> set (sv_effects (fire_record su k job r s))"
  by (auto simp: fire_record_def effect_def Let_def split_def split: sum.split option.split)

lemma fire_running_effects: "x \<in> set (sv_effects s) \<Longrightarrow> x \<in> set (sv_effects (fire_act su k job n True b s))"
proof -
  assume x: "x \<in> set (sv_effects s)"
  then have d: "x \<in> set (sv_effects (snd (deliver_prompt su m job r s)))" for m r
    by (auto simp: deliver_prompt_def effect_def split: option.split)
  show ?thesis
    using x d by (auto simp: fire_act_def decideFireAction_def split_def Let_def split: option.split intro!: fire_record_effects [THEN subsetD])
qed

lemma answers_effects: "set (sv_effects s) \<subseteq> set (sv_effects (foldl (answered su n) s qs))"
proof (induction qs arbitrary: s)
  case (Cons q qs)
  have "set (sv_effects s) \<subseteq> set (sv_effects (answered su n s q))"
    by (auto simp: answered_def split: option.split intro!: fire_running_effects)
  with Cons [of "answered su n s q"] show ?case by auto
qed simp

text \<open>
  C38. A daemon that crashes comes back by itself: in every fleet of orderly use (as in C37), when a
  process that nobody has asked to end crashes (not with the exit code that asks for a fresh session,
  which restarts at once), it was the current child of its daemon, its end arms its
  timer with the delay of its attempt, and when the timer fires the process is started
  again, in the same slot and still the current one of its daemon, one attempt later. Only
  after the fourth attempt is it left crashed, with no timer.
\<close>

theorem crash_is_retried:
  assumes "orderly_fleet s" "alive s n" "\<not> stopping s n" "code \<noteq> Some EXIT_FRESH_SESSION" "code \<noteq> Some 0 \<or> sig \<noteq> None"
    "t = sv_step su tm (ChildEnds n code sig) s"
  shows "current s (sl_id (slot s n)) = Some n \<and>
    (if sl_restartAttempt (slot s n) = 4 then crashed (slot t n) \<and> sv_timers t = sv_timers s
     else \<exists>h. sv_timers t = sv_timers s @ [(h, n)] \<and> can_happen (TimerFires h) t \<and>
       RestartIn n ([1000, 5000, 30000, 300000] ! sl_restartAttempt (slot s n)) \<in> set (sv_effects t) \<and>
       alive (sv_step su2 tm (TimerFires h) t) n \<and> current (sv_step su2 tm (TimerFires h) t) (sl_id (slot s n)) = Some n \<and>
       sl_restartAttempt (slot (sv_step su2 tm (TimerFires h) t) n) = sl_restartAttempt (slot s n) + 1)"
proof -
  have ok: "fleet_ok s" using fleet_sound [OF assms(1)] .
  then have core: "core {} s" and w: "waits_ok s" by (simp_all add: fleet_ok_def)
  have n: "n < length (sv_slots s)" "running (slot s n)" using assms(2) by (simp_all add: alive_def)
  have own: "current s (sl_id (slot s n)) = Some n" "\<not> sv_shuttingDown s"
    using core assms(2,3) unfolding core_def owned_def calmed_def by blast+
  obtain evt qs c where e: "rpc_exit code sig (sl_child (slot s n)) = (evt, qs, c)" by (metis prod_cases3)
  have evt: "ev_isCrash evt" "ev_code evt = code" and c: "rc_state c = DaemonCrashed" "\<not> rc_child c"
    using e assms(3,5) by (auto simp: rpc_exit_def Let_def)
  let ?t0 = "set_slot n (\<lambda>sl. sl\<lparr>sl_child := c\<rparr>) s"
  define s1 where "s1 = onChildExit su (sl_id (slot s n)) evt ?t0"
  have nw: "n \<notin> fst ` set (sv_waiters s)" using waiter_facts(3) [OF w] assms(3) by auto
  have s12: "same_fleet s1 (foldl (answered su n) s1 (map (\<lambda>q. (q, False)) qs))" by (rule answers_same)
  have nw1: "n \<notin> fst ` set (sv_waiters (foldl (answered su n) s1 (map (\<lambda>q. (q, False)) qs)))"
    using s12 nw by (simp add: same_fleet_def s1_def)
  have t: "t = foldl (answered su n) s1 (map (\<lambda>q. (q, False)) qs)"
    using assms(6) e nw1 by (simp add: sv_step_def child_ends_def s1_def resume_none)
  have st: "slot t = slot s1" "sv_timers t = sv_timers s1" "sv_children t = sv_children s1" "length (sv_slots t) = length (sv_slots s1)"
    using same_fleet_slot [OF s12] s12 by (simp_all add: same_fleet_def t)
  have len: "length RESTART_BACKOFFS_MS = 4" by (simp add: RESTART_BACKOFFS_MS_def)
  show ?thesis
  proof (cases "sl_restartAttempt (slot s n) = 4")
    case True
    then have "s1 = ?t0" using own n evt assms(4) len by (simp add: s1_def onChildExit_def slot_simps)
    with True st n c own show ?thesis by (simp add: slot_simps crashed_def)
  next
    case False
    with core_fine [OF core n(1)] len have a: "sl_restartAttempt (slot s n) < length RESTART_BACKOFFS_MS" by (simp add: slot_fine_def)
    let ?k = "sv_nextTimer s"
    have s1: "s1 = effect (RestartIn n (RESTART_BACKOFFS_MS ! sl_restartAttempt (slot s n)))
        ((set_slot n (\<lambda>sl. sl\<lparr>sl_restartTimer := Some ?k\<rparr>) ?t0)\<lparr>sv_timers := sv_timers s @ [(?k, n)], sv_nextTimer := ?k + 1\<rparr>)"
      using own n evt assms(4) a by (simp add: s1_def onChildExit_def slot_simps)
    have tm: "sv_timers t = sv_timers s @ [(?k, n)]" using st s1 by simp
    have new: "?k \<notin> fst ` set (sv_timers s)" using timer_facts(1) [OF core] by force
    then have mp: "map_of (sv_timers t) ?k = Some n" by (simp add: tm map_add_Some_iff map_of_eq_None_iff)
    have sl: "slot t n = (slot s n)\<lparr>sl_child := c, sl_restartTimer := Some ?k\<rparr>" using st s1 n by (simp add: slot_simps)
    have ln: "n < length (sv_slots t)" using st s1 n by simp
    let ?u = "sv_step su2 tm (TimerFires ?k) t"
    have u: "slot ?u n = (slot t n)\<lparr>sl_restartTimer := None, sl_restartAttempt := sl_restartAttempt (slot t n) + 1,
        sl_child := snd (rpc_spawn (sl_opts (slot t n)) (su_disk su2) (su_now su2) (noteRestart (sl_child (slot t n))))\<rparr>"
      "sv_children ?u = sv_children t" "length (sv_slots ?u) = length (sv_slots t)"
      using mp ln by (simp_all add: sv_step_def restart_timer_def spawn_slot_eq slot_simps)
    have "\<not> rc_child (noteRestart c)" using c by (simp add: noteRestart_def)
    then have "alive ?u n" using u ln sl by (simp add: alive_def running_def spawned_child)
    moreover have "RestartIn n ([1000, 5000, 30000, 300000] ! sl_restartAttempt (slot s n)) \<in> set (sv_effects t)"
      using answers_effects [of s1 su n "map (\<lambda>q. (q, False)) qs"] by (auto simp: t s1 effect_def RESTART_BACKOFFS_MS_def)
    moreover have "current ?u (sl_id (slot s n)) = Some n" using u(2) st s1 own by simp
    moreover have "sl_restartAttempt (slot ?u n) = sl_restartAttempt (slot s n) + 1" using u(1) sl by simp
    ultimately show ?thesis using False own tm mp by (auto simp: can_happen_def)
  qed
qed


subsection \<open>A schedule's outcome\<close>

lemma job_recorded:
  "change_job i g None f = (r, f') \<Longrightarrow> (\<And>j. cj_id (g j) = cj_id j) \<Longrightarrow> \<exists>b. r = Inr b \<and> getJob i f' = map_option g (getJob i f)"
  using find_updated [of g i i "loadCronRegistry f"]
  by (auto simp: change_job_def getJob_def saveCronRegistry_def write_file_def split_def Let_def split: if_splits)

text \<open>The registry and the log can be written, and the log ends with a whole line.\<close>

definition books_fine :: "surroundings \<Rightarrow> supervisor \<Rightarrow> bool" where
  "books_fine su s \<longleftrightarrow> su_cronFault su = None \<and> su_logOk su \<and> log_text (sv_cronLog s)"

definition prompts :: "supervisor \<Rightarrow> (nat \<times> js) list" where
  "prompts s = List.map_filter (\<lambda>e. case e of Wrote n l \<Rightarrow> Some (n, l) | _ \<Rightarrow> None) (sv_effects s)"

text \<open>
  The trace of one decision: one line more in the log, its outcome on the job (if the job is still
  there), and the prompt on the input of the child of the slot \<open>n\<close> exactly when the outcome is a fired one.
\<close>

definition traced :: "surroundings \<Rightarrow> cron_job \<Rightarrow> nat \<Rightarrow> cron_result \<Rightarrow> supervisor \<Rightarrow> supervisor \<Rightarrow> bool" where
  "traced su job n r s t \<longleftrightarrow>
    readCronLog None None (sv_cronLog t) = readCronLog None None (sv_cronLog s) @ [log_entry (su_now su) job r] \<and>
    getJob (cj_id job) (sv_cron t) =
      map_option (\<lambda>j. j\<lparr>cj_last_run := Some (su_iso su), cj_last_status := Some (cron_result_text r)\<rparr>) (getJob (cj_id job) (sv_cron s)) \<and>
    prompts t = prompts s @ (if firedFor r then [(n, prompt_line (''sv-'' @ int_text (su_now su)) (cj_prompt job))] else [])"

text \<open>What the outcome should be: of the job, of its daemon and of the daemon's child.\<close>

definition cron_outcome :: "bool \<Rightarrow> cron_job \<Rightarrow> bool \<Rightarrow> bool \<Rightarrow> bool \<Rightarrow> bool \<Rightarrow> cron_result" where
  "cron_outcome manual job up busy known writable =
    (if \<not> cj_enabled job \<and> \<not> manual then SkippedDisabled
     else if \<not> up then (if \<not> (cj_wake job \<and> known) then SkippedDown else if writable then WokeAndDelivered else DeliverFailed)
     else if cj_skip_if_busy job \<and> busy then SkippedBusy
     else if writable then Delivered else DeliverFailed)"

definition takes_prompts :: "surroundings \<Rightarrow> supervisor \<Rightarrow> nat \<Rightarrow> bool" where
  "takes_prompts su s n \<longleftrightarrow> rc_child (sl_child (slot s n)) \<and> running (slot s n) \<and> su_writable su"

definition asked :: "nat \<Rightarrow> string \<Rightarrow> cron_job \<Rightarrow> nat option \<Rightarrow> supervisor \<Rightarrow> bool" where
  "asked n q job k s \<longleftrightarrow> List.find (\<lambda>f. fi_slot f = n \<and> fi_question f = q) (sv_firing s) =
     Some \<lparr>fi_slot = n, fi_question = q, fi_job = job, fi_reply = k\<rparr>"

lemma fire_recorded:
  assumes "books_fine su u" "sv_cron u = sv_cron s" "sv_cronLog u = sv_cronLog s"
    "prompts u = prompts s @ (if firedFor r then [(n, prompt_line (''sv-'' @ int_text (su_now su)) (cj_prompt job))] else [])"
  shows "traced su job n r s (fire_record su k job r u)"
proof -
  have b: "su_cronFault su = None" "su_logOk su" "log_text (sv_cronLog u)" using assms(1) by (simp_all add: books_fine_def)
  obtain res f where rr: "recordRun (cj_id job) (su_iso su) (cron_result_text r) None (sv_cron u) = (res, f)" by fastforce
  obtain d where j: "res = Inr d"
    "getJob (cj_id job) f = map_option (\<lambda>j. j\<lparr>cj_last_run := Some (su_iso su), cj_last_status := Some (cron_result_text r)\<rparr>) (getJob (cj_id job) (sv_cron u))"
    using job_recorded [OF rr [unfolded recordRun_def]] by auto
  have p: "prompts (effect (Fired x y) t) = prompts t" "prompts (effect (Replied x2 y2) t) = prompts t" for x y x2 y2 t
    by (simp_all add: prompts_def effect_def map_filter_append List.map_filter_simps)
  have q: "prompts (u\<lparr>sv_cron := g, sv_cronLog := l\<rparr>) = prompts u" for g l by (simp add: prompts_def)
  have e: "sv_cron (effect x t) = sv_cron t" "sv_cronLog (effect x t) = sv_cronLog t" for x t by (simp_all add: effect_def)
  show ?thesis
    using assms(2-4) b rr j cron_log_complete [OF b(3)]
    by (cases k) (simp_all add: traced_def fire_record_def Let_def p q e)
qed

text \<open>Writing the prompt to a child.\<close>

lemma deliver_traced:
  assumes "books_fine su u" "sv_cron u = sv_cron s" "sv_cronLog u = sv_cronLog s" "prompts u = prompts s" "firedFor r"
    "deliver_prompt su n job r u = (r', u')"
  shows "r' = (if takes_prompts su u n then r else DeliverFailed) \<and> traced su job n r' s (fire_record su k job r' u')"
proof -
  have e: "sv_cron (effect x t) = sv_cron t" "sv_cronLog (effect x t) = sv_cronLog t" for x t by (simp_all add: effect_def)
  have w: "prompts (effect (Wrote m l) t) = prompts t @ [(m, l)]" for m l t
    by (simp add: prompts_def effect_def map_filter_append List.map_filter_simps)
  have "r' = (if takes_prompts su u n then r else DeliverFailed) \<and>
      u' = (if takes_prompts su u n then effect (Wrote n (prompt_line (''sv-'' @ int_text (su_now su)) (cj_prompt job))) u else u)"
    using assms(6) by (auto simp: deliver_prompt_def sendPrompt_def takes_prompts_def running_def split: if_splits)
  then show ?thesis
    using assms by (auto intro!: fire_recorded simp: books_fine_def e w firedFor_def)
qed

lemma spawn_books [simp]: "sv_cron (spawnEntry su i cwd nm s) = sv_cron s" "sv_cronLog (spawnEntry su i cwd nm s) = sv_cronLog s"
    "prompts (spawnEntry su i cwd nm s) = prompts s"
  by (simp_all add: spawnEntry_def spawn_slot_def stop_slot_def clear_timer_def set_slot_def effect_def prompts_def map_filter_append
      List.map_filter_simps Let_def split_def split: option.split)

lemma spawned_slot:
  "sl_child (slot (spawnEntry su i cwd nm s) (length (sv_slots s))) =
    snd (rpc_spawn \<lparr>ro_extensionPath = su_ext su, ro_cwd = cwd,
      ro_config = Some \<lparr>agent_name = Some (case nm of Some n \<Rightarrow> n | None \<Rightarrow> defaultAgentName cwd), auto_start_relay = Some True\<rparr>\<rparr>
      (su_disk su) (su_now su) new_child)"
proof -
  define s1 where "s1 = (case current s i of None \<Rightarrow> s
       | Some m \<Rightarrow> (let t = clear_timer m s in if running (slot t m) then snd (stop_slot m t) else t))"
  have "length (sv_slots s1) = length (sv_slots s)" by (simp add: s1_def Let_def split: option.split)
  then have "slot (s1\<lparr>sv_slots := sv_slots s1 @ [new], sv_children := c\<rparr>) (length (sv_slots s)) = new" for new c
    by (simp add: slot_def nth_append)
  then show ?thesis
    using \<open>length (sv_slots s1) = length (sv_slots s)\<close>
    by (simp add: spawnEntry_def Let_def spawn_slot_eq s1_def [symmetric] slot_simps)
qed

lemma spawned_takes: "takes_prompts su (spawnEntry su i cwd nm s) (length (sv_slots s)) = su_writable su"
  by (simp add: takes_prompts_def running_def spawned_slot spawned_child new_child_def)

text \<open>The decision once it is known whether a turn is running.\<close>

lemma act_traced:
  assumes "books_fine su s" "sv_cron s = sv_cron s0" "sv_cronLog s = sv_cronLog s0" "prompts s = prompts s0"
    "cj_enabled job \<or> manual" "up \<longrightarrow> n \<noteq> None"
  shows "traced su job (if up then the n else length (sv_slots s))
    (cron_outcome manual job up busy (find_daemon su (cj_daemon_id job) s \<noteq> None) (if up then takes_prompts su s (the n) else su_writable su))
    s0 (fire_act su k job n up busy s)"
proof (cases "up")
  case True
  then obtain m where m: "n = Some m" using assms(6) by auto
  show ?thesis
  proof (cases "cj_skip_if_busy job \<and> busy")
    case skip: True
    have "fire_act su k job n up busy s = fire_record su k job SkippedBusy s" using skip True by (simp add: fire_act_def decideFireAction_def)
    with skip True assms show ?thesis by (auto simp: cron_outcome_def firedFor_def intro!: fire_recorded)
  next
    case False
    obtain r' u' where d: "deliver_prompt su m job Delivered s = (r', u')" by fastforce
    have "fire_act su k job n up busy s = fire_record su k job r' u'" using False True m d by (auto simp: fire_act_def decideFireAction_def)
    with deliver_traced [OF assms(1-4) _ d, of k] False True m assms(5) show ?thesis by (auto simp: cron_outcome_def firedFor_def)
  qed
next
  case down: False
  show ?thesis
  proof (cases "cj_wake job")
    case False
    then have "fire_act su k job n up busy s = fire_record su k job SkippedDown s" using down by (simp add: fire_act_def decideFireAction_def)
    with False down assms show ?thesis by (auto simp: cron_outcome_def firedFor_def intro!: fire_recorded)
  next
    case wake: True
    show ?thesis
    proof (cases "find_daemon su (cj_daemon_id job) s")
      case None
      then have "fire_act su k job n up busy s = fire_record su k job SkippedDown s" using down wake by (simp add: fire_act_def decideFireAction_def)
      with None down assms show ?thesis by (auto simp: cron_outcome_def firedFor_def intro!: fire_recorded)
    next
      case (Some e)
      let ?u = "spawnEntry su (ld_id e) (ld_cwd e) (Some (ld_name e)) s"
      have e: "ld_id e = cj_daemon_id job" using find_daemon_id [OF Some] .
      obtain r' u' where d: "deliver_prompt su (length (sv_slots s)) job WokeAndDelivered ?u = (r', u')" by fastforce
      have "fire_act su k job n up busy s = fire_record su k job r' u'"
        using down wake Some e d by (simp add: fire_act_def decideFireAction_def)
      moreover have "books_fine su ?u" using assms(1) by (simp add: books_fine_def)
      ultimately show ?thesis
        using deliver_traced [OF _ _ _ _ _ d, of s0 k] assms down wake Some spawned_takes
        by (auto simp: cron_outcome_def firedFor_def)
    qed
  qed
qed


lemma find_new: "List.find P xs = None \<Longrightarrow> P x \<Longrightarrow> List.find P (xs @ [x]) = Some x"
  by (induction xs) (auto split: if_splits)

lemma outcome_up: "cron_outcome manual job True b known w = cron_outcome manual job True b True w"
  by (simp add: cron_outcome_def)

lemma answer_traced:
  assumes "asked n q job k s" "books_fine su s" "cj_enabled job \<or> manual"
  shows "traced su job n (cron_outcome manual job True b True (takes_prompts su s n)) s (answered su n s (q, b))"
proof -
  define u where "u = s\<lparr>sv_firing := filter (\<lambda>g. \<not> (fi_slot g = n \<and> fi_question g = q)) (sv_firing s)\<rparr>"
  have u: "books_fine su u" "sv_cron u = sv_cron s" "sv_cronLog u = sv_cronLog s" "prompts u = prompts s" "takes_prompts su u n = takes_prompts su s n"
    using assms(2) by (simp_all add: u_def books_fine_def prompts_def takes_prompts_def)
  have a: "answered su n s (q, b) = fire_act su k job (Some n) True b u" using assms(1) by (simp add: answered_def asked_def u_def)
  show ?thesis
    using act_traced [OF u(1-4) assms(3), of True "Some n" b k] unfolding a u(5) [symmetric]
    by (simp add: outcome_up [where known = "\<exists>y. find_daemon su (cj_daemon_id job) u = Some y"])
qed

lemma timeout_traced:
  assumes "asked n q job k s" "books_fine su s" "cj_enabled job \<or> manual" "n < length (sv_slots s)" "q \<in> set (rc_statePending (sl_child (slot s n)))"
  shows "traced su job n (cron_outcome manual job True (rc_busy (sl_child (slot s n))) True (takes_prompts su s n)) s (sv_step su tm (QuestionTimesOut n q) s)"
proof -
  obtain c where r: "refresh_timeout q (sl_child (slot s n)) = (rc_busy (sl_child (slot s n)), c)"
    and c: "same_life (sl_child (slot s n)) c" by (simp add: refresh_timeout_def same_life_def)
  let ?u = "set_slot n (\<lambda>sl. sl\<lparr>sl_child := c\<rparr>) s"
  have u: "sv_cron ?u = sv_cron s" "sv_cronLog ?u = sv_cronLog s" "prompts ?u = prompts s" "sv_firing ?u = sv_firing s"
    by (simp_all add: set_slot_def prompts_def)
  have "takes_prompts su ?u n = takes_prompts su s n" using assms(4) c by (simp add: takes_prompts_def slot_simps same_life_def running_def)
  with answer_traced [of n q job k ?u su manual "rc_busy (sl_child (slot s n))"] assms(1-3) u
  have "traced su job n (cron_outcome manual job True (rc_busy (sl_child (slot s n))) True (takes_prompts su s n)) s
      (answered su n ?u (q, rc_busy (sl_child (slot s n))))"
    by (simp add: asked_def books_fine_def traced_def)
  with r assms(5) show ?thesis by (simp add: sv_step_def question_timeout_def)
qed

text \<open>
  C40. Every decision about a scheduled prompt leaves one trace, and the trace is true: as
  long as the schedules and the log can be written, firing a job that exists adds one line to the log, records
  the same outcome on the job, and writes the job's prompt to one child exactly when the outcome
  says it was delivered. The outcome is the one its settings and its daemon call for, on every
  path: a disabled job is skipped unless it is run by hand; a daemon that is down is woken only if the job
  says so and the daemon is registered; a busy one is not interrupted if the job asks for that. Whether it is
  busy is asked of the child: then nothing is decided or written but the question, and
  the decision follows, with its trace, when the answer comes or the wait for it times out (with what the child's output
  last showed), on the child as it is then, even if the job has been changed or removed meanwhile.
\<close>

theorem schedule_outcome:
  assumes "books_fine su s" "getJob i (sv_cron s) = Some job" "n = current s (cj_daemon_id job)"
    "up = (case n of Some m \<Rightarrow> running (slot s m) | None \<Rightarrow> False)" "up \<longrightarrow> the n < length (sv_slots s)" "t = fireJob su k i manual s"
  shows "if (cj_enabled job \<or> manual) \<and> up \<and> cj_skip_if_busy job \<and> takes_prompts su s (the n) then
      sv_cronLog t = sv_cronLog s \<and> sv_cron t = sv_cron s \<and> su_question su \<in> set (rc_statePending (sl_child (slot t (the n)))) \<and>
      prompts t = prompts s @ [(the n, Obj [(''id'', Str (su_question su)), (''type'', Str ''get_state'')])] \<and>
      (List.find (\<lambda>f. fi_slot f = the n \<and> fi_question f = su_question su) (sv_firing s) = None \<longrightarrow> asked (the n) (su_question su) job k t) \<and>
      (\<forall>su2 tm s2 q. asked (the n) q job k s2 \<and> books_fine su2 s2 \<longrightarrow>
        (\<forall>busy. traced su2 job (the n) (cron_outcome manual job True busy True (takes_prompts su2 s2 (the n))) s2 (answered su2 (the n) s2 (q, busy))) \<and>
        (the n < length (sv_slots s2) \<and> q \<in> set (rc_statePending (sl_child (slot s2 (the n)))) \<longrightarrow>
          traced su2 job (the n) (cron_outcome manual job True (rc_busy (sl_child (slot s2 (the n)))) True (takes_prompts su2 s2 (the n)))
            s2 (sv_step su2 tm (QuestionTimesOut (the n) q) s2)))
    else traced su job (if up then the n else length (sv_slots s))
      (cron_outcome manual job up (up \<and> rc_busy (sl_child (slot s (the n)))) (find_daemon su (cj_daemon_id job) s \<noteq> None)
        (if up then takes_prompts su s (the n) else su_writable su)) s t"
proof (cases "cj_enabled job \<or> manual")
  case off: False
  then have "t = fire_record su k job SkippedDisabled s" using assms(2,6) by (simp add: fireJob_def)
  with off assms(1) show ?thesis by (auto simp: cron_outcome_def firedFor_def intro!: fire_recorded)
next
  case on: True
  note act = act_traced [OF assms(1) refl refl refl on]
  show ?thesis
  proof (cases up)
    case down: False
    then have "t = fire_act su k job n False False s" using assms(2-4,6) on by (cases "current s (cj_daemon_id job)") (auto simp: fireJob_def)
    with act [of False n False k] down show ?thesis by (simp add: cron_outcome_def)
  next
    case up: True
    then obtain m where m: "n = Some m" "running (slot s m)" "current s (cj_daemon_id job) = Some m" using assms(3,4) by (cases "current s (cj_daemon_id job)") auto
    have len: "m < length (sv_slots s)" using assms(5) up m(1) by simp
    show ?thesis
    proof (cases "cj_skip_if_busy job")
      case False
      then have "t = fire_act su k job n True False s" using assms(2,6) on m by (auto simp: fireJob_def Let_def)
      with act [of True n False k] up m(1) False show ?thesis by (auto simp: cron_outcome_def)
    next
      case skip: True
      obtain ans c where rb: "refreshBusy (su_writable su) (su_question su) (sl_child (slot s m)) = (ans, c)" by fastforce
      show ?thesis
      proof (cases "takes_prompts su s m")
        case False
        then have "ans = Inl (rc_busy (sl_child (slot s m)))" "c = sl_child (slot s m)"
          using rb by (auto simp: refreshBusy_def takes_prompts_def running_def split: if_splits)
        moreover have "set_slot m (\<lambda>sl. sl\<lparr>sl_child := sl_child (slot s m)\<rparr>) s = s"
          using len by (simp add: set_slot_def slot_def)
        ultimately have "t = fire_act su k job n True (rc_busy (sl_child (slot s m))) s" using assms(2,6) on m skip rb by (auto simp: fireJob_def Let_def)
        with act [of True n "rc_busy (sl_child (slot s m))" k] up m(1) False show ?thesis by (auto simp: cron_outcome_def)
      next
        case ask: True
        let ?q = "su_question su"
        have c: "ans = Inr (Obj [(''id'', Str ?q), (''type'', Str ''get_state'')])" "?q \<in> set (rc_statePending c)"
          using rb ask by (auto simp: refreshBusy_def takes_prompts_def running_def)
        have t: "t = (effect (Wrote m (Obj [(''id'', Str ?q), (''type'', Str ''get_state'')])) (set_slot m (\<lambda>sl. sl\<lparr>sl_child := c\<rparr>) s))
            \<lparr>sv_firing := sv_firing s @ [\<lparr>fi_slot = m, fi_question = ?q, fi_job = job, fi_reply = k\<rparr>]\<rparr>"
          using assms(2,6) on m skip rb c(1) by (auto simp: fireJob_def Let_def effect_def set_slot_def)
        have "sv_cronLog t = sv_cronLog s" "sv_cron t = sv_cron s" "slot t m = (slot s m)\<lparr>sl_child := c\<rparr>"
          "prompts t = prompts s @ [(m, Obj [(''id'', Str ?q), (''type'', Str ''get_state'')])]"
          using len by (simp_all add: t slot_simps) (simp_all add: effect_def set_slot_def prompts_def map_filter_append List.map_filter_simps)
        moreover have "asked m ?q job k t" if "List.find (\<lambda>f. fi_slot f = m \<and> fi_question f = ?q) (sv_firing s) = None"
          using find_new [OF that] by (simp add: asked_def t)
        ultimately show ?thesis
          using on up skip ask m(1) c(2) answer_traced timeout_traced by auto
      qed
    qed
  qed
qed

subsection \<open>What the code does not guarantee\<close>

text \<open>
  A stop finds a crashed daemon not running and leaves its restart timer armed: the daemon
  that was just stopped is started again when it fires.
\<close>

lemma stop_leaves_timer:
  assumes "find_daemon su i s = Some e" "current s i = Some n" "\<not> running (slot s n)"
  shows "sv_timers (opStop su k i s) = sv_timers s"
  using assms by (simp add: opStop_def)

text \<open>
  After a start that failed \<open>this.child\<close> is still set, so the restart the timer makes
  starts nothing and arms nothing, and a stop waits for an end that does not come.
\<close>

lemma failed_start_not_retried:
  assumes "map_of (sv_timers s) h = Some n" "n < length (sv_slots s)" "rc_child (sl_child (slot s n))"
  shows "sv_effects (restart_timer su h s) = sv_effects s \<and> rc_state (sl_child (slot (restart_timer su h s) n)) = rc_state (sl_child (slot s n)) \<and>
    h \<notin> fst ` set (sv_timers (restart_timer su h s)) \<and> fst (stop_slot n (restart_timer su h s))"
proof -
  have "rc_child (noteRestart (sl_child (slot s n)))" using assms(3) by (simp add: noteRestart_def)
  then have r: "restart_timer su h s = set_slot n (\<lambda>sl. sl\<lparr>sl_child := noteRestart (sl_child (slot s n))\<rparr>)
      ((set_slot n (\<lambda>sl. sl\<lparr>sl_restartTimer := None, sl_restartAttempt := sl_restartAttempt sl + 1, sl_child := noteRestart (sl_child sl)\<rparr>) s)
        \<lparr>sv_timers := filter (\<lambda>t. fst t \<noteq> h) (sv_timers s)\<rparr>)"
    using assms by (simp add: restart_timer_def spawn_slot_def rpc_spawn_def slot_simps)
  have "sv_effects (set_slot m g x) = sv_effects x" for m g x by (simp add: set_slot_def)
  then show ?thesis
    using assms unfolding r by (auto simp: slot_simps stop_slot_waits noteRestart_def)
qed

text \<open>
  A restart and an unregistration that wait for the same child: the restart starts a new
  process, then the unregistration takes that out of the map. It runs on, and nothing can stop it.
\<close>

lemma spawned_alive:
  "alive (spawnEntry su i cwd nm s) (length (sv_slots s)) \<and> \<not> stopping (spawnEntry su i cwd nm s) (length (sv_slots s))"
  by (simp add: alive_def running_def spawned_slot spawned_child new_child_def)

lemma stale_unregister:
  assumes "sv_waiters s = [(n, WaitRestart k e), (n, WaitUnregister k2 (ld_id e))]" "t = resume su n s"
  shows "current t (ld_id e) = None \<and> alive t (length (sv_slots s)) \<and> \<not> stopping t (length (sv_slots s))"
proof -
  let ?s0 = "s\<lparr>sv_waiters := []\<rparr>"
  let ?u = "spawnEntry su (ld_id e) (ld_cwd e) (Some (ld_name e)) ?s0"
  have t: "t = unregister_finish su k2 (ld_id e) True (restart_finish su k e ?s0)"
    using assms by (simp add: resume_def continue_with_def)
  have "slot t = slot ?u" "sv_slots t = sv_slots ?u" "current t (ld_id e) = None"
    unfolding t by (simp_all add: unregister_finish_def restart_finish_def Let_def split_def)
  with spawned_alive [of su "ld_id e" "ld_cwd e" "Some (ld_name e)" ?s0] show ?thesis by (simp add: alive_def)
qed

text \<open>
  A restart that waits when the supervisor is told to stop: when the child has ended, it
  starts a new process, which the shutdown then takes out of the map without having asked it to end.
\<close>

lemma restart_after_shutdown:
  assumes "sv_waiters s = [(n, WaitRestart k e), (n, WaitShutdown)]" "t = resume su n s"
  shows "sv_children t = [] \<and> alive t (length (sv_slots s)) \<and> \<not> stopping t (length (sv_slots s))"
proof -
  let ?s0 = "s\<lparr>sv_waiters := []\<rparr>"
  let ?u = "spawnEntry su (ld_id e) (ld_cwd e) (Some (ld_name e)) ?s0"
  have t: "t = (restart_finish su k e ?s0)\<lparr>sv_children := []\<rparr>"
    using assms by (simp add: resume_def continue_with_def restart_finish_def Let_def)
  have "slot t = slot ?u" "sv_slots t = sv_slots ?u" "sv_children t = []"
    unfolding t by (simp_all add: restart_finish_def Let_def)
  with spawned_alive [of su "ld_id e" "ld_cwd e" "Some (ld_name e)" ?s0] show ?thesis by (simp add: alive_def)
qed

text \<open>
  The socket stays open until the children have ended: a request that comes in meanwhile and starts a daemon
  starts a process that the shutdown does not ask to end.
\<close>

lemma start_during_shutdown:
  assumes "sv_shuttingDown s" "find_daemon su i s = Some e" "current s i = None" "t = handleRequest su tm k (ReqStart i) s"
  shows "sv_shuttingDown t \<and> alive t (length (sv_slots s)) \<and> \<not> stopping t (length (sv_slots s))"
  using assms spawned_alive [of su "ld_id e" "ld_cwd e" "Some (ld_name e)" s]
  by (simp add: handleRequest_def opStart_def child_at_def Let_def alive_def)

text \<open>
  The buffer of a connection is not emptied: whatever comes after the request's line
  makes the same line be handled again.
\<close>

lemma request_handled_again:
  assumes "connection_data c1 '''' = (Some l, b)"
  shows "fst (connection_data c2 b) = Some l"
proof (cases "index_of c1 nl_char")
  case None
  with assms show ?thesis by (simp add: connection_data_def)
next
  case (Some nl)
  have lt: "nl < length c1" using Some unfolding index_of_Some by simp
  have lb: "l = take nl c1" "b = c1" using assms unfolding connection_data_def append_Nil Let_def Some by auto
  have "index_of (c1 @ c2) nl_char = Some nl" using Some lt unfolding index_of_Some by (simp add: nth_append)
  with lt show ?thesis unfolding lb connection_data_def by simp
qed

text \<open>A child that prints \<open>null\<close> makes the handler of its output throw.\<close>

lemma null_line_throws: "handleStdoutLine (stringify Null) c = None"
proof -
  have p: "json_parse (stringify Null) = Some Null" by (rule json_round_trip) simp
  have "parseGetStateResponse (stringify Null) = ParseThrew" unfolding parseGetStateResponse_def p by simp
  then show ?thesis unfolding handleStdoutLine_def Let_def by (simp only: state_answer.case)
qed

subsection \<open>One daemon\<close>

definition sample_surroundings :: surroundings where
  "sample_surroundings = \<lparr>su_host = \<lparr>ho_home = ''/h'', ho_cwd = ''/'', ho_real = Inr, ho_digest = (\<lambda>p. p)\<rparr>, su_ext = ''ext.js'', su_now = 7,
     su_iso = ''t'', su_croner = (\<lambda>_ _. Inl ''''), su_disk = empty_config, su_writable = True, su_fault = None, su_cronFault = None,
     su_logOk = True, su_pid = int, su_gen = (\<lambda>_. ''0''), su_question = ''q''\<rparr>"

definition sample_registry :: json_file where
  "sample_registry = FileJson (Obj [(''daemons'', Arr [Obj [(''cwd'', Str ''/a''), (''name'', Str ''n'')]])])"

definition sample_job :: cron_job where
  "sample_job = \<lparr>cj_id = ''j_0'', cj_daemon_id = ''/a'', cj_schedule = ''* * * * *'', cj_tz = None, cj_prompt = ''go'', cj_enabled = True,
     cj_skip_if_busy = True, cj_wake = False, cj_catchup = False, cj_created_at = ''t'', cj_last_run = None, cj_last_status = None\<rparr>"

definition sample_fleet :: supervisor where
  "sample_fleet = snd (start_supervisor sample_surroundings (\<lambda>_. None) False
     (new_supervisor sample_registry (FileJson (Obj [(''jobs'', Arr (map job_js [sample_job]))])) None))"

lemma sample_daemons: "listDaemons (su_host sample_surroundings) sample_registry = [\<lparr>ld_id = ''/a'', ld_cwd = ''/a'', ld_name = ''n''\<rparr>]"
  by (simp add: listDaemons_def sample_registry_def loadRegistry_def file_items_def entry_of_js_def List.map_filter_simps
      sample_surroundings_def daemon_id_def daemonIdForCwd_def real_target_def)

lemma sample_migrated: "migrateRegistryNames fault sample_registry = (Inr 0, sample_registry)"
  by (simp add: migrateRegistryNames_def sample_registry_def loadRegistry_def file_items_def entry_of_js_def List.map_filter_simps)

lemma sample_fleet_eq:
  "sample_fleet = spawnEntry sample_surroundings ''/a'' ''/a'' (Some ''n'')
     (new_supervisor sample_registry (FileJson (Obj [(''jobs'', Arr (map job_js [sample_job]))])) None)"
proof -
  let ?s = "spawnEntry sample_surroundings ''/a'' ''/a'' (Some ''n'') (new_supervisor sample_registry (FileJson (Obj [(''jobs'', Arr (map job_js [sample_job]))])) None)"
  have c: "loadCronRegistry (sv_cron ?s) = [sample_job]" using load_saved_jobs [of "[sample_job]"] by (simp add: new_supervisor_def)
  have j: "sv_cronJobs ?s = []" by (simp add: new_supervisor_def)
  have keep: "t\<lparr>sv_cronJobs := []\<rparr> = t" if "sv_cronJobs t = []" for t :: supervisor using that by (cases t) simp
  have none: "scheduleCron sample_surroundings sample_job ?s = ?s"
    using keep [OF j] j by (simp add: scheduleCron_def stopCron_def sample_surroundings_def)
  have "reconcileCron sample_surroundings ?s = ?s"
    unfolding reconcileCron_def keep [OF j] c using none by simp
  moreover have "runCatchup sample_surroundings (\<lambda>_. None) ?s = ?s" using c by (simp add: runCatchup_def catch_up_one_def sample_job_def)
  moreover have "spawnAllFromRegistry sample_surroundings (new_supervisor sample_registry (FileJson (Obj [(''jobs'', Arr (map job_js [sample_job]))])) None) = ?s"
    by (simp add: spawnAllFromRegistry_def new_supervisor_def sample_daemons)
  moreover have "(new_supervisor sample_registry c l)\<lparr>sv_registry := sample_registry\<rparr> = new_supervisor sample_registry c l" for c l
    by (simp add: new_supervisor_def)
  ultimately show ?thesis
    by (simp add: sample_fleet_def start_supervisor_def new_supervisor_def sample_migrated Let_def)
qed

lemma sample_reachable: "orderly_fleet sample_fleet"
proof -
  let ?n = "new_supervisor sample_registry (FileJson (Obj [(''jobs'', Arr (map job_js [sample_job]))])) None"
  have "start_supervisor sample_surroundings (\<lambda>_. None) False ?n = (Inr (), sample_fleet)"
    unfolding sample_fleet_def by (simp add: start_supervisor_def new_supervisor_def sample_migrated Let_def)
  then show ?thesis by (rule fleet_start)
qed

lemma sample_state:
  "current sample_fleet ''/a'' = Some 0" "sv_waiters sample_fleet = []" "\<not> sv_shuttingDown sample_fleet" "length (sv_slots sample_fleet) = 1"
  "sv_timers sample_fleet = []" "sv_registry sample_fleet = sample_registry" "sv_cronLog sample_fleet = None"
  "loadCronRegistry (sv_cron sample_fleet) = [sample_job]"
  using load_saved_jobs [of "[sample_job]"]
  by (simp_all add: sample_fleet_eq new_supervisor_def spawnEntry_def spawn_slot_def set_slot_def effect_def Let_def split_def split: option.split)

lemma sample_slot:
  "running (slot sample_fleet 0)" "\<not> stopping sample_fleet 0" "sl_id (slot sample_fleet 0) = ''/a''" "sl_restartAttempt (slot sample_fleet 0) = 0"
  by (simp_all add: sample_fleet_eq new_supervisor_def spawnEntry_def spawn_slot_eq set_slot_def Let_def)
     (simp_all add: slot_def running_def spawned_child new_child_def)


theorem crash_is_retried_witness:
  "sv_timers (sv_step sample_surroundings (\<lambda>_. ''t'') (ChildEnds 0 (Some 1) None) sample_fleet) \<noteq> []"
proof -
  have a: "alive sample_fleet 0" using sample_slot sample_state by (simp add: alive_def)
  from crash_is_retried [OF sample_reachable a sample_slot(2) _ _ refl, of "Some 1" None sample_surroundings "\<lambda>_. ''t''"] sample_slot(4)
  show ?thesis by (auto simp: EXIT_FRESH_SESSION_def)
qed


theorem schedule_outcome_witness:
  "readCronLog None None (sv_cronLog (answered sample_surroundings 0 (fireJob sample_surroundings None ''j_0'' False sample_fleet) (''q'', True))) =
    [log_entry 7 sample_job SkippedBusy]"
proof -
  let ?t = "fireJob sample_surroundings None ''j_0'' False sample_fleet"
  have b: "books_fine sample_surroundings sample_fleet"
    by (simp add: books_fine_def sample_surroundings_def log_text_def sample_state(7))
  have j: "getJob ''j_0'' (sv_cron sample_fleet) = Some sample_job" by (simp add: getJob_def sample_state(8) sample_job_def)
  have d: "cj_daemon_id sample_job = ''/a''" "cj_enabled sample_job" "cj_skip_if_busy sample_job" by (simp_all add: sample_job_def)
  have r: "rc_child (sl_child (slot sample_fleet 0))"
    using running_alive [of "{}" sample_fleet 0] fleet_sound [OF sample_reachable] sample_slot(1) sample_state(4) by (simp add: fleet_ok_def)
  then have p: "takes_prompts sample_surroundings sample_fleet 0"
    using sample_slot(1) by (simp add: takes_prompts_def sample_surroundings_def)
  have q: "su_question sample_surroundings = ''q''" "sv_firing sample_fleet = []"
    by (simp_all add: sample_surroundings_def)
      (simp add: sample_fleet_eq new_supervisor_def spawnEntry_def spawn_slot_def set_slot_def effect_def Let_def split_def split: option.split)
  note out = schedule_outcome [OF b j refl refl _ refl, of False None, unfolded d sample_state(1) option.case option.sel]
  have t: "sv_cronLog ?t = sv_cronLog sample_fleet" "asked 0 ''q'' sample_job None ?t"
    using out d sample_slot(1) sample_state(4) p q by simp_all
  have a: "traced sample_surroundings sample_job 0 (cron_outcome False sample_job True True True (takes_prompts sample_surroundings ?t 0))
       ?t (answered sample_surroundings 0 ?t (''q'', True))" if "books_fine sample_surroundings ?t"
    using out d sample_slot(1) sample_state(4) p q(1) t(2) that by simp
  have "books_fine sample_surroundings ?t" using b t(1) by (simp add: books_fine_def)
  with a have "readCronLog None None (sv_cronLog (answered sample_surroundings 0 ?t (''q'', True))) =
      readCronLog None None (sv_cronLog sample_fleet) @ [log_entry (su_now sample_surroundings) sample_job SkippedBusy]"
    using t(1) d by (simp add: traced_def cron_outcome_def)
  then show ?thesis by (simp add: sample_state(7) readCronLog_def sample_surroundings_def)
qed

end
