(* ===== verification/McpInbox.thy ===== *)
theory McpInbox imports Names SecureFrame
begin

text \<open>
  The inbox of an agent that joins the network through the MCP server: the bounded queue
  (\<open>mcp/inbox.ts\<close>), the decision when a message may start a turn (\<open>mcp/wake.ts\<close>) and the
  tool that empties the queue (\<open>get_messages\<close> of \<open>mcp/mesh_server.ts\<close>). The symbols of its
  texts that lie outside the model's strings appear as their UTF-8 bytes.
\<close>

subsection \<open>The bounded queue\<close>

record inbox_limits =
  maxMessages :: nat
  maxBytes :: nat

definition INBOX_LIMITS :: inbox_limits where
  "INBOX_LIMITS = \<lparr>maxMessages = 1000, maxBytes = 4 * 1024 * 1024\<rparr>"

definition jsonByteSize :: "js \<Rightarrow> nat" where
  "jsonByteSize v = length (utf8 (stringify v))"

record inbox_msg =
  im_from :: string
  im_body :: js
  im_id :: string
  im_re :: "string option"
  im_at :: string

definition msg_js :: "inbox_msg \<Rightarrow> js" where
  "msg_js m = Obj [(''from'', Str (im_from m)), (''body'', im_body m), (''id'', Str (im_id m)),
     (''re'', case im_re m of Some r \<Rightarrow> Str r | None \<Rightarrow> Null), (''at'', Str (im_at m))]"

definition renderInboxMessage :: "inbox_msg \<Rightarrow> string" where
  "renderInboxMessage m = ''['' @ im_at m @ ''] from='' @ im_from m
     @ (case im_re m of Some r \<Rightarrow> (if r = '''' then '''' else '' re='' @ r) | None \<Rightarrow> '''')
     @ CHR 0x0A # ''id='' @ im_id m @ CHR 0x0A # stringify (im_body m)"

text \<open>The byte counter is an integer: the code subtracts from it.\<close>

record 'a inbox =
  ib_entries :: "('a \<times> nat) list"
  ib_bytes :: int
  ib_dropped :: nat

definition empty_inbox :: "'a inbox" where
  "empty_inbox = \<lparr>ib_entries = [], ib_bytes = 0, ib_dropped = 0\<rparr>"

definition inbox_items :: "'a inbox \<Rightarrow> 'a list" where
  "inbox_items q = map fst (ib_entries q)"

definition inbox_find :: "('a \<Rightarrow> bool) \<Rightarrow> 'a inbox \<Rightarrow> 'a option" where
  "inbox_find p q = List.find p (inbox_items q)"

definition inbox_some :: "('a \<Rightarrow> bool) \<Rightarrow> 'a inbox \<Rightarrow> bool" where
  "inbox_some p q = list_ex p (inbox_items q)"

fun shed :: "inbox_limits \<Rightarrow> ('a \<times> nat) list \<Rightarrow> int \<Rightarrow> nat \<Rightarrow> 'a inbox" where
  "shed L (e # f # es) b d =
     (if length (e # f # es) > maxMessages L \<or> b > int (maxBytes L)
      then shed L (f # es) (b - int (snd e)) (d + 1)
      else \<lparr>ib_entries = e # f # es, ib_bytes = b, ib_dropped = d\<rparr>)"
| "shed L es b d = \<lparr>ib_entries = es, ib_bytes = b, ib_dropped = d\<rparr>"

definition inbox_push :: "('a \<Rightarrow> nat) \<Rightarrow> inbox_limits \<Rightarrow> 'a \<Rightarrow> 'a inbox \<Rightarrow> 'a inbox" where
  "inbox_push sizeOf L x q =
     (if sizeOf x > maxBytes L then q\<lparr>ib_dropped := ib_dropped q + 1\<rparr>
      else shed L (ib_entries q @ [(x, sizeOf x)]) (ib_bytes q + int (sizeOf x)) (ib_dropped q))"

definition inbox_drain :: "'a inbox \<Rightarrow> ('a list \<times> nat) \<times> 'a inbox" where
  "inbox_drain q = ((inbox_items q, ib_dropped q), empty_inbox)"

subsection \<open>What the queue retains\<close>

text \<open>
  The reference: of the messages that fit at all, the longest run of newest ones within both
  limits.
\<close>

definition within :: "('a \<Rightarrow> nat) \<Rightarrow> inbox_limits \<Rightarrow> 'a list \<Rightarrow> bool" where
  "within sizeOf L xs \<longleftrightarrow> length xs \<le> maxMessages L \<and> sum_list (map sizeOf xs) \<le> maxBytes L"

fun newest_within :: "('a \<Rightarrow> nat) \<Rightarrow> inbox_limits \<Rightarrow> 'a list \<Rightarrow> 'a list" where
  "newest_within sizeOf L [] = []"
| "newest_within sizeOf L (x # xs) = (if within sizeOf L (x # xs) then x # xs else newest_within sizeOf L xs)"

definition counted :: "('a \<Rightarrow> nat) \<Rightarrow> 'a inbox \<Rightarrow> bool" where
  "counted sizeOf q \<longleftrightarrow> ib_entries q = map (\<lambda>x. (x, sizeOf x)) (inbox_items q)
     \<and> ib_bytes q = int (sum_list (map sizeOf (inbox_items q)))"

lemma counted_empty [simp]: "counted sizeOf empty_inbox"
  by (simp add: counted_def empty_inbox_def inbox_items_def)

lemma within_tail: "within sizeOf L (x # xs) \<Longrightarrow> within sizeOf L xs"
  by (simp add: within_def)

lemma newest_within_id: "within sizeOf L xs \<Longrightarrow> newest_within sizeOf L xs = xs"
  by (cases xs) simp_all

lemma newest_within_sound: "within sizeOf L (newest_within sizeOf L xs)"
  by (induction xs) (simp_all add: within_def)

lemma newest_within_suffix: "\<exists>p. xs = p @ newest_within sizeOf L xs"
  by (induction xs) (auto intro: exI [of _ "_ # _"])

lemma newest_within_step: "newest_within sizeOf L (newest_within sizeOf L xs @ [x]) = newest_within sizeOf L (xs @ [x])"
proof (induction xs)
  case (Cons a xs)
  have "within sizeOf L (a # xs @ [x]) \<Longrightarrow> within sizeOf L (a # xs)" by (simp add: within_def)
  then show ?case using Cons.IH by auto
qed simp

definition shed_all :: "('a \<Rightarrow> nat) \<Rightarrow> inbox_limits \<Rightarrow> nat \<Rightarrow> 'a list \<Rightarrow> 'a inbox" where
  "shed_all sizeOf L d xs = shed L (map (\<lambda>x. (x, sizeOf x)) xs) (int (sum_list (map sizeOf xs))) d"

lemma shed_all_Cons:
  "shed_all sizeOf L d (x # y # zs) = (if within sizeOf L (x # y # zs)
     then \<lparr>ib_entries = map (\<lambda>x. (x, sizeOf x)) (x # y # zs), ib_bytes = int (sum_list (map sizeOf (x # y # zs))), ib_dropped = d\<rparr>
     else shed_all sizeOf L (d + 1) (y # zs))"
  by (simp add: shed_all_def within_def not_le)

lemma shed_newest:
  assumes "maxMessages L > 0" "\<forall>x\<in>set xs. sizeOf x \<le> maxBytes L" "xs \<noteq> []"
  shows "inbox_items (shed_all sizeOf L d xs) = newest_within sizeOf L xs \<and> counted sizeOf (shed_all sizeOf L d xs)
    \<and> ib_dropped (shed_all sizeOf L d xs) + length (newest_within sizeOf L xs) = d + length xs"
  using assms(2,3)
proof (induction xs arbitrary: d rule: induct_list012)
  case (2 x)
  then show ?case using assms(1) by (simp add: within_def inbox_items_def counted_def shed_all_def)
next
  case (3 x y zs)
  show ?case
  proof (cases "within sizeOf L (x # y # zs)")
    case True
    then show ?thesis by (simp add: shed_all_Cons inbox_items_def counted_def o_def)
  next
    case False
    then show ?thesis using "3.IH"(2) [of "d + 1"] "3.prems" by (simp add: shed_all_Cons)
  qed
qed simp

text \<open>The queue after a series of arrivals since it was last emptied.\<close>

definition inbox_after :: "('a \<Rightarrow> nat) \<Rightarrow> inbox_limits \<Rightarrow> 'a list \<Rightarrow> 'a inbox" where
  "inbox_after sizeOf L xs = foldl (\<lambda>q x. inbox_push sizeOf L x q) empty_inbox xs"

lemma inbox_after_ok:
  assumes "maxMessages L > 0"
  shows "inbox_items (inbox_after sizeOf L xs) = newest_within sizeOf L (filter (\<lambda>x. sizeOf x \<le> maxBytes L) xs)
    \<and> counted sizeOf (inbox_after sizeOf L xs)
    \<and> ib_dropped (inbox_after sizeOf L xs) + length (inbox_items (inbox_after sizeOf L xs)) = length xs"
proof (induction xs rule: rev_induct)
  case Nil
  then show ?case by (simp add: inbox_after_def) (simp add: empty_inbox_def inbox_items_def)
next
  case (snoc x xs)
  define q where "q = inbox_after sizeOf L xs"
  have q: "inbox_items q = newest_within sizeOf L (filter (\<lambda>x. sizeOf x \<le> maxBytes L) xs)" "counted sizeOf q"
    "ib_dropped q + length (inbox_items q) = length xs" using snoc q_def by auto
  have after: "inbox_after sizeOf L (xs @ [x]) = inbox_push sizeOf L x q" by (simp add: inbox_after_def q_def)
  show ?case
  proof (cases "sizeOf x > maxBytes L")
    case True
    then show ?thesis using q by (simp add: after inbox_push_def inbox_items_def counted_def)
  next
    case False
    obtain p where p: "filter (\<lambda>x. sizeOf x \<le> maxBytes L) xs = p @ inbox_items q"
      using newest_within_suffix [of "filter (\<lambda>x. sizeOf x \<le> maxBytes L) xs" sizeOf L] q(1) by auto
    then have "set (inbox_items q) \<subseteq> set (filter (\<lambda>x. sizeOf x \<le> maxBytes L) xs)" by simp
    then have small: "\<forall>y\<in>set (inbox_items q @ [x]). sizeOf y \<le> maxBytes L" using False by auto
    have e: "ib_entries q @ [(x, sizeOf x)] = map (\<lambda>y. (y, sizeOf y)) (inbox_items q @ [x])"
      "ib_bytes q + int (sizeOf x) = int (sum_list (map sizeOf (inbox_items q @ [x])))"
      using q(2) by (auto simp: counted_def)
    show ?thesis
      using shed_newest [OF assms small, of "ib_dropped q"] False q
      by (simp add: after inbox_push_def e newest_within_step shed_all_def del: map_append sum_list.append)
  qed
qed

subsection \<open>What is read is linear in what is kept\<close>

lemma esc_char_length: "1 \<le> length (esc_char c)"
  by (simp add: esc_char_def Let_def)

lemma quote_length: "length s + 2 \<le> length (quote s)"
proof -
  have "length s \<le> length (concat (map esc_char s))"
  proof (induction s)
    case (Cons c s)
    then show ?case using esc_char_length [of c] by simp
  qed simp
  then show ?thesis by (simp add: quote_def)
qed

lemma utf8_at_least: "length s \<le> length (utf8 s)"
proof (induction s)
  case (Cons c s)
  then show ?case by (simp add: utf8_def utf8_encode_def utf8_char_def)
qed simp

lemma render_printed:
  assumes "im_body m \<noteq> Undef"
  shows "length (renderInboxMessage m) \<le> length (stringify (msg_js m))"
  using assms quote_length [of "im_from m"] quote_length [of "im_id m"] quote_length [of "im_at m"] quote_length [of "the (im_re m)"]
  by (cases "im_re m") (auto simp: renderInboxMessage_def msg_js_def)

text \<open>A message is read in no more characters than the bytes it is charged for.\<close>

lemma render_linear: "im_body m \<noteq> Undef \<Longrightarrow> length (renderInboxMessage m) \<le> jsonByteSize (msg_js m)"
  unfolding jsonByteSize_def using le_trans [OF render_printed utf8_at_least] .

subsection \<open>When a message may start a turn\<close>

definition WAKE_MIN_INTERVAL_MS :: int where
  "WAKE_MIN_INTERVAL_MS = 5000"

definition isLocalPeerAddress :: "string \<Rightarrow> bool" where
  "isLocalPeerAddress from \<longleftrightarrow> (if from = ''_relay'' then False else parseAddress from = None)"

text \<open>The nudge: the two symbols are their UTF-8 bytes.\<close>

definition wakeNudgeContent :: "string \<Rightarrow> string" where
  "wakeNudgeContent from = [CHR 0xF0, CHR 0x9F, CHR 0x93, CHR 0xA8] @ '' mesh message from '' @ stringify (Str from) @ '' arrived ''
     @ [CHR 0xE2, CHR 0x80, CHR 0x94] @ '' call get_messages to read it and reply (echo its id via re)''"

lemma nudge_single_line: "CHR 0x0A \<notin> set (wakeNudgeContent from)"
  using quote_no_newline [of "from"] by (simp add: wakeNudgeContent_def)

record wake_gate =
  wg_minInterval :: int
  wg_lastRelease :: "int option"

definition gate_release :: "int \<Rightarrow> wake_gate \<Rightarrow> bool \<times> wake_gate" where
  "gate_release now g = (case wg_lastRelease g of
     Some t \<Rightarrow> (if now - t < wg_minInterval g then (False, g) else (True, g\<lparr>wg_lastRelease := Some now\<rparr>))
   | None \<Rightarrow> (True, g\<lparr>wg_lastRelease := Some now\<rparr>))"

definition retryAfterMs :: "int \<Rightarrow> wake_gate \<Rightarrow> int option" where
  "retryAfterMs now g = (case wg_lastRelease g of
     None \<Rightarrow> None
   | Some t \<Rightarrow> (let remaining = wg_minInterval g - (now - t) in if remaining > 0 then Some remaining else None))"

text \<open>
  The coordinator with the server's timer: \<open>wk_timers\<close> are the timers the event loop still
  holds, with their delays, \<open>wk_deferred\<close> the one the server remembers. \<open>wk_emitted\<close> are the
  notifications sent, each with the time at which the gate let it through.
\<close>

record wake =
  wk_inbox :: "inbox_msg inbox"
  wk_gate :: wake_gate
  wk_armed :: bool
  wk_timers :: "(nat, int) omap"
  wk_deferred :: "nat option"
  wk_next :: nat
  wk_emitted :: "(int \<times> string) list"

definition new_wake :: wake where
  "new_wake = \<lparr>wk_inbox = empty_inbox, wk_gate = \<lparr>wg_minInterval = WAKE_MIN_INTERVAL_MS, wg_lastRelease = None\<rparr>,
     wk_armed = False, wk_timers = [], wk_deferred = None, wk_next = 0, wk_emitted = []\<rparr>"

text \<open>The code reads the clock once for the gate and once more for the delay: \<open>t\<close> and \<open>t'\<close>.\<close>

definition armDeferred :: "int \<Rightarrow> wake \<Rightarrow> wake" where
  "armDeferred t' s =
     (if wk_armed s then s
      else case retryAfterMs t' (wk_gate s) of
        None \<Rightarrow> s
      | Some delay \<Rightarrow> s\<lparr>wk_armed := True, wk_timers := wk_timers s @ [(wk_next s, delay)],
                        wk_deferred := Some (wk_next s), wk_next := Suc (wk_next s)\<rparr>)"

definition try_wake :: "string \<Rightarrow> int \<Rightarrow> int \<Rightarrow> wake \<Rightarrow> wake" where
  "try_wake from t t' s = (let (go, g) = gate_release t (wk_gate s); s1 = s\<lparr>wk_gate := g\<rparr> in
     if go then s1\<lparr>wk_emitted := wk_emitted s1 @ [(t, from)]\<rparr> else armDeferred t' s1)"

definition wake_message :: "inbox_limits \<Rightarrow> inbox_msg \<Rightarrow> int \<Rightarrow> int \<Rightarrow> wake \<Rightarrow> wake" where
  "wake_message L m t t' s =
     (let hadLocalUnread = inbox_some (\<lambda>m. isLocalPeerAddress (im_from m)) (wk_inbox s);
          s1 = s\<lparr>wk_inbox := inbox_push (jsonByteSize \<circ> msg_js) L m (wk_inbox s)\<rparr> in
      if \<not> isLocalPeerAddress (im_from m) then s1
      else if hadLocalUnread then s1
      else try_wake (im_from m) t t' s1)"

text \<open>The deferred check, when the timer \<open>h\<close> fires.\<close>

definition wake_fires :: "nat \<Rightarrow> int \<Rightarrow> int \<Rightarrow> wake \<Rightarrow> wake" where
  "wake_fires h t t' s =
     (if \<not> omap_has (wk_timers s) h then s
      else let s1 = s\<lparr>wk_timers := omap_del (wk_timers s) h, wk_armed := False\<rparr> in
        case inbox_find (\<lambda>m. isLocalPeerAddress (im_from m)) (wk_inbox s1) of
          None \<Rightarrow> s1
        | Some m \<Rightarrow> try_wake (im_from m) t t' s1)"

definition wake_drained :: "wake \<Rightarrow> wake" where
  "wake_drained s = (case wk_deferred s of
     Some h \<Rightarrow> s\<lparr>wk_armed := False, wk_timers := omap_del (wk_timers s) h, wk_deferred := None\<rparr>
   | None \<Rightarrow> s\<lparr>wk_armed := False\<rparr>)"

text \<open>The tool \<open>get_messages\<close>: the text returned and the queue emptied.\<close>

definition drop_note :: "nat \<Rightarrow> string" where
  "drop_note n = (if n > 0 then [CHR 0xE2, CHR 0x9A, CHR 0xA0, CHR 0x20] @ int_text (int n)
     @ '' earlier message(s) shed by the inbox bound (count/bytes)'' @ [CHR 0x0A, CHR 0x0A] else '''')"

fun join_blocks :: "string list \<Rightarrow> string" where
  "join_blocks [] = ''''"
| "join_blocks [x] = x"
| "join_blocks (x # y # ys) = x @ CHR 0x0A # CHR 0x0A # join_blocks (y # ys)"

definition get_messages :: "wake \<Rightarrow> string \<times> wake" where
  "get_messages s = (let ((msgs, dropped), q) = inbox_drain (wk_inbox s);
       s1 = s\<lparr>wk_inbox := q\<rparr>; s2 = (if msgs \<noteq> [] then wake_drained s1 else s1) in
     if msgs = [] \<and> dropped = 0 then (''(no messages)'', s2)
     else (drop_note dropped @ join_blocks (map renderInboxMessage msgs), s2))"

text \<open>
  The server keeps only messages of agents: what a broker says is not a message, and nothing
  is taken once the server shuts down.
\<close>

definition mesh_message :: "bool \<Rightarrow> inbox_limits \<Rightarrow> inbox_msg \<Rightarrow> int \<Rightarrow> int \<Rightarrow> wake \<Rightarrow> wake" where
  "mesh_message shuttingDown L m t t' s =
     (if im_from m = ''broker'' \<or> ends_with (im_from m) '':broker'' \<or> shuttingDown then s else wake_message L m t t' s)"

datatype wake_event =
    Arrives inbox_msg int int
  | Fires nat int int
  | GetMessages

fun wake_step :: "inbox_limits \<Rightarrow> wake_event \<Rightarrow> wake \<Rightarrow> wake" where
  "wake_step L (Arrives m t t') s = mesh_message False L m t t' s"
| "wake_step L (Fires h t t') s = wake_fires h t t' s"
| "wake_step L GetMessages s = snd (get_messages s)"

subsection \<open>Wakes are spaced and never lost\<close>

definition local_unread :: "wake \<Rightarrow> bool" where
  "local_unread s \<longleftrightarrow> inbox_some (\<lambda>m. isLocalPeerAddress (im_from m)) (wk_inbox s)"

fun spaced :: "int \<Rightarrow> int list \<Rightarrow> bool" where
  "spaced d [] = True"
| "spaced d [t] = True"
| "spaced d (t # u # ts) = (u - t \<ge> d \<and> spaced d (u # ts))"

lemma spaced_snoc: "spaced d (ts @ [t]) \<longleftrightarrow> spaced d ts \<and> (ts = [] \<or> t - last ts \<ge> d)"
  by (induction d ts rule: spaced.induct) auto

definition wake_ok :: "wake \<Rightarrow> bool" where
  "wake_ok s \<longleftrightarrow> wg_minInterval (wk_gate s) = WAKE_MIN_INTERVAL_MS
     \<and> (if wk_armed s then \<exists>h d. wk_timers s = [(h, d)] \<and> wk_deferred s = Some h else wk_timers s = [])
     \<and> spaced WAKE_MIN_INTERVAL_MS (map fst (wk_emitted s))
     \<and> wg_lastRelease (wk_gate s) = (if wk_emitted s = [] then None else Some (fst (last (wk_emitted s))))"

lemma try_wake_ok: "wake_ok s \<Longrightarrow> wake_ok (try_wake f t t' s)"
  by (auto simp: wake_ok_def try_wake_def gate_release_def armDeferred_def retryAfterMs_def Let_def spaced_snoc last_map
      split: option.splits if_splits)

lemma wake_ok_inbox [simp]: "wake_ok (s\<lparr>wk_inbox := q\<rparr>) = wake_ok s"
  by (simp add: wake_ok_def)

lemma wake_ok_unarmed: "wake_ok s \<Longrightarrow> wake_ok (s\<lparr>wk_timers := [], wk_armed := False\<rparr>)"
  by (simp add: wake_ok_def)

lemma wake_drained_ok: "wake_ok s \<Longrightarrow> wake_ok (wake_drained s)"
  by (auto simp: wake_drained_def wake_ok_def split: option.splits if_splits)

lemma get_messages_state: "snd (get_messages s) =
    (if inbox_items (wk_inbox s) = [] then s\<lparr>wk_inbox := empty_inbox\<rparr> else wake_drained (s\<lparr>wk_inbox := empty_inbox\<rparr>))"
  by (simp add: get_messages_def inbox_drain_def Let_def)

lemma omap_del_only: "omap_del [(h, y)] h = []"
  by (simp add: AList.delete_eq)

lemma wake_fires_eq: "wake_ok s \<Longrightarrow> omap_has (wk_timers s) h \<Longrightarrow>
    wake_fires h t t' s = (case inbox_find (\<lambda>m. isLocalPeerAddress (im_from m)) (wk_inbox s) of
       None \<Rightarrow> s\<lparr>wk_timers := [], wk_armed := False\<rparr>
     | Some m \<Rightarrow> try_wake (im_from m) t t' (s\<lparr>wk_timers := [], wk_armed := False\<rparr>))"
  by (auto simp: wake_ok_def wake_fires_def Let_def omap_del_only split: if_splits option.split)

lemma wake_step_ok:
  assumes "wake_ok s"
  shows "wake_ok (wake_step L ev s)"
proof (cases ev)
  case (Arrives m t t')
  then show ?thesis using assms by (simp add: mesh_message_def wake_message_def Let_def try_wake_ok)
next
  case (Fires h t t')
  show ?thesis
  proof (cases "omap_has (wk_timers s) h")
    case True
    show ?thesis using assms
      by (simp add: Fires wake_fires_eq [OF assms True] try_wake_ok wake_ok_unarmed split: option.split)
  qed (use assms in \<open>simp add: Fires wake_fires_def\<close>)
next
  case GetMessages
  then show ?thesis using assms by (simp add: get_messages_state wake_drained_ok)
qed

definition wake_run :: "inbox_limits \<Rightarrow> wake_event list \<Rightarrow> wake \<Rightarrow> wake" where
  "wake_run L evs s = foldl (\<lambda>s ev. wake_step L ev s) s evs"

lemma new_wake_ok: "wake_ok new_wake"
  by (simp add: wake_ok_def new_wake_def)

lemma wake_run_ok: "wake_ok s \<Longrightarrow> wake_ok (wake_run L evs s)"
  unfolding wake_run_def by (induction evs arbitrary: s) (simp_all add: wake_step_ok)

text \<open>An event other than the drain, in whose handling the clock does not tick.\<close>

fun undrained :: "wake_event \<Rightarrow> bool" where
  "undrained (Arrives m t t') = (t = t')"
| "undrained (Fires h t t') = (t = t')"
| "undrained GetMessages = False"

definition noticed :: "nat \<Rightarrow> wake \<Rightarrow> bool" where
  "noticed n s \<longleftrightarrow> local_unread s \<longrightarrow> n < length (wk_emitted s) \<or> wk_armed s"

lemma try_wake_noticed: "wake_ok s \<Longrightarrow> n < length (wk_emitted (try_wake f t t s)) \<or> wk_armed (try_wake f t t s)"
  if "n \<le> length (wk_emitted s)"
  using that by (auto simp: try_wake_def gate_release_def armDeferred_def retryAfterMs_def wake_ok_def Let_def split: option.splits)

lemma try_wake_grows: "length (wk_emitted s) \<le> length (wk_emitted (try_wake f t t' s))"
  by (simp add: try_wake_def armDeferred_def gate_release_def Let_def split: option.split)

lemma inbox_find_iff: "inbox_find p q = None \<longleftrightarrow> \<not> inbox_some p q"
  by (auto simp: inbox_find_def inbox_some_def find_None_iff list_ex_iff)

lemma shed_subset: "set (ib_entries (shed L es b d)) \<subseteq> set es"
  by (induction L es b d rule: shed.induct) auto

lemma push_subset: "set (inbox_items (inbox_push f L x q)) \<subseteq> insert x (set (inbox_items q))"
  using shed_subset [of L "ib_entries q @ [(x, f x)]" "ib_bytes q + int (f x)" "ib_dropped q"]
  by (auto simp: inbox_push_def inbox_items_def)

lemma message_noticed:
  assumes "wake_ok s" "noticed n s" "n \<le> length (wk_emitted s)"
  shows "noticed n (wake_message L m t t s) \<and> n \<le> length (wk_emitted (wake_message L m t t s))"
proof (cases "isLocalPeerAddress (im_from m) \<and> \<not> local_unread s")
  case True
  then have "wake_message L m t t s = try_wake (im_from m) t t (s\<lparr>wk_inbox := inbox_push (jsonByteSize \<circ> msg_js) L m (wk_inbox s)\<rparr>)"
    by (simp add: wake_message_def local_unread_def Let_def)
  then show ?thesis
    using try_wake_noticed [of n "s\<lparr>wk_inbox := inbox_push (jsonByteSize \<circ> msg_js) L m (wk_inbox s)\<rparr>" "im_from m" t] assms
      try_wake_grows [of "s\<lparr>wk_inbox := inbox_push (jsonByteSize \<circ> msg_js) L m (wk_inbox s)\<rparr>" "im_from m" t t]
    by (auto simp: noticed_def)
next
  case False
  then have e: "wake_message L m t t s = s\<lparr>wk_inbox := inbox_push (jsonByteSize \<circ> msg_js) L m (wk_inbox s)\<rparr>"
    by (auto simp: wake_message_def local_unread_def Let_def)
  have "local_unread (wake_message L m t t s) \<Longrightarrow> local_unread s"
    using False push_subset [of "jsonByteSize \<circ> msg_js" L m "wk_inbox s"]
    by (auto simp: e local_unread_def inbox_some_def list_ex_iff)
  then show ?thesis using assms by (auto simp: e noticed_def)
qed

lemma undrained_noticed:
  assumes "wake_ok s" "noticed n s" "n \<le> length (wk_emitted s)" "undrained ev"
  shows "noticed n (wake_step L ev s) \<and> n \<le> length (wk_emitted (wake_step L ev s))"
proof (cases ev)
  case (Arrives m t t')
  then show ?thesis using assms message_noticed [of s n L m t] by (simp add: mesh_message_def)
next
  case (Fires h t t')
  let ?s = "s\<lparr>wk_timers := [], wk_armed := False\<rparr>"
  show ?thesis
  proof (cases "omap_has (wk_timers s) h")
    case True
    show ?thesis
    proof (cases "inbox_find (\<lambda>m. isLocalPeerAddress (im_from m)) (wk_inbox s)")
      case None
      then show ?thesis using Fires assms True by (simp add: wake_fires_eq noticed_def local_unread_def) (simp add: inbox_find_iff)
    next
      case (Some m)
      then show ?thesis
        using Fires assms True wake_ok_unarmed [OF assms(1)] try_wake_noticed [of n ?s "im_from m" t] try_wake_grows [of ?s "im_from m" t t]
        by (auto simp: wake_fires_eq noticed_def)
    qed
  next
    case False
    then show ?thesis using Fires assms by (simp add: wake_fires_def)
  qed
qed (use assms in simp)

lemma undrained_run_noticed:
  "wake_ok s \<Longrightarrow> noticed n s \<Longrightarrow> n \<le> length (wk_emitted s) \<Longrightarrow> list_all undrained evs \<Longrightarrow> noticed n (wake_run L evs s)"
  unfolding wake_run_def
proof (induction evs arbitrary: s)
  case (Cons ev evs)
  then show ?case using undrained_noticed [of s n ev L] wake_step_ok [of s L ev] by simp
qed simp

subsection \<open>Properties\<close>

text \<open>
  The inbox keeps the newest messages it has room for: whatever arrives since it was last
  emptied, it holds exactly the longest run of newest messages within the limits of count and
  bytes, leaving aside those that could never fit; its byte counter is the size of what it
  holds; and what is not held is counted as dropped.
\<close>

lemma inbox_keeps_newest:
  assumes "maxMessages L > 0"
  shows "inbox_items (inbox_after sizeOf L xs) = newest_within sizeOf L (filter (\<lambda>x. sizeOf x \<le> maxBytes L) xs)
    \<and> ib_bytes (inbox_after sizeOf L xs) = int (sum_list (map sizeOf (inbox_items (inbox_after sizeOf L xs))))
    \<and> ib_dropped (inbox_after sizeOf L xs) + length (inbox_items (inbox_after sizeOf L xs)) = length xs"
  using inbox_after_ok [OF assms, of sizeOf xs] unfolding counted_def by (elim conjE) (intro conjI, assumption+)

lemma inbox_keeps_newest_example:
  "inbox_items (inbox_after (\<lambda>n::nat. n) \<lparr>maxMessages = 2, maxBytes = 10\<rparr> [3, 11, 6, 5]) = [5]
   \<and> ib_dropped (inbox_after (\<lambda>n::nat. n) \<lparr>maxMessages = 2, maxBytes = 10\<rparr> [3, 11, 6, 5]) = 3"
proof -
  have kept: "inbox_items (inbox_after (\<lambda>n::nat. n) \<lparr>maxMessages = 2, maxBytes = 10\<rparr> [3, 11, 6, 5]) = [5]"
    using inbox_keeps_newest [of "\<lparr>maxMessages = 2, maxBytes = 10\<rparr>" "\<lambda>n::nat. n" "[3, 11, 6, 5]"] by (simp add: within_def)
  then show ?thesis
    using inbox_keeps_newest [of "\<lparr>maxMessages = 2, maxBytes = 10\<rparr>" "\<lambda>n::nat. n" "[3, 11, 6, 5]"] by (simp add: kept)
qed

text \<open>
  A message that may start a turn is never forgotten: when a message of a local agent
  arrives where no such message waited, then, whatever happens until the inbox is emptied, as
  long as one waits a notification has been sent since or a check is armed; and notifications
  are always five seconds apart. The clock must not tick between the two readings of one
  handling.
\<close>

lemma wake_not_lost:
  assumes "s = wake_run L evs new_wake" "\<not> local_unread s" "list_all undrained (Arrives m t t # later)"
    "im_from m \<noteq> ''broker''" "\<not> ends_with (im_from m) '':broker''" "isLocalPeerAddress (im_from m)"
  shows "(local_unread (wake_run L (Arrives m t t # later) s) \<longrightarrow>
      length (wk_emitted s) < length (wk_emitted (wake_run L (Arrives m t t # later) s))
      \<or> (\<exists>h d. wk_timers (wake_run L (Arrives m t t # later) s) = [(h, d)]))
    \<and> spaced WAKE_MIN_INTERVAL_MS (map fst (wk_emitted (wake_run L (Arrives m t t # later) s)))"
proof -
  have ok: "wake_ok s" using assms(1) wake_run_ok [OF new_wake_ok] by simp
  have "noticed (length (wk_emitted s)) s" using assms(2) by (simp add: noticed_def)
  then have "noticed (length (wk_emitted s)) (wake_run L (Arrives m t t # later) s)"
    by (rule undrained_run_noticed [OF ok]) (use assms(3) in simp_all)
  moreover have "wake_ok (wake_run L (Arrives m t t # later) s)" by (rule wake_run_ok [OF ok])
  ultimately show ?thesis by (auto simp: noticed_def wake_ok_def)
qed

text \<open>Messages of the examples.\<close>

definition example_msg :: "string \<Rightarrow> inbox_msg" where
  "example_msg a = \<lparr>im_from = a, im_body = Null, im_id = ''i'', im_re = None, im_at = ''t''\<rparr>"

definition example_limits :: inbox_limits where
  "example_limits = \<lparr>maxMessages = 9, maxBytes = 200\<rparr>"

lemma wake_not_lost_example:
  "wk_emitted (wake_run example_limits [Arrives (example_msg ''/a@b'') 0 0, GetMessages, Arrives (example_msg ''/a@c'') 9 9, Fires 0 5000 5000] new_wake)
     = [(0, ''/a@b''), (5000, ''/a@c'')]
   \<and> spaced WAKE_MIN_INTERVAL_MS (map fst (wk_emitted (wake_run example_limits [Arrives (example_msg ''/a@c'') 9 9, Fires 0 5000 5000]
       (wake_run example_limits [Arrives (example_msg ''/a@b'') 0 0, GetMessages] new_wake))))"
proof -
  have "\<not> local_unread (wake_run example_limits [Arrives (example_msg ''/a@b'') 0 0, GetMessages] new_wake)" by code_simp
  from wake_not_lost [OF refl this, of "example_msg ''/a@c''" 9 "[Fires 0 5000 5000]"]
  have "spaced WAKE_MIN_INTERVAL_MS (map fst (wk_emitted (wake_run example_limits [Arrives (example_msg ''/a@c'') 9 9, Fires 0 5000 5000]
       (wake_run example_limits [Arrives (example_msg ''/a@b'') 0 0, GetMessages] new_wake))))"
    by (simp add: example_msg_def ends_with_def isLocalPeerAddress_def parseAddress_def)
  then show ?thesis by (intro conjI) code_simp
qed

text \<open>
  The clock must not tick: a message that arrives in the last instant of the interval is
  suppressed by the first reading and finds nothing left to wait for at the second. No check
  is armed, and as it then waits, no later message wakes the agent either.
\<close>

lemma wake_lost:
  "let s = wake_run example_limits [Arrives (example_msg ''/a@b'') 0 0, GetMessages, Arrives (example_msg ''/a@c'') 4999 5000,
       Arrives (example_msg ''/a@d'') 60000 60000] new_wake in
   wk_emitted s = [(0, ''/a@b'')] \<and> wk_timers s = [] \<and> local_unread s"
  by code_simp

text \<open>A message too large for the inbox wakes the agent although nothing is there to read.\<close>

lemma oversized_message_wakes:
  "let s = wake_run \<lparr>maxMessages = 9, maxBytes = 10\<rparr> [Arrives (example_msg ''/a@b'') 0 0] new_wake in
   wk_emitted s = [(0, ''/a@b'')] \<and> inbox_items (wk_inbox s) = []"
  by code_simp

end
