(* ===== verification/RosterLock.thy ===== *)
theory RosterLock imports Main
begin

text \<open>
  The lock of the pairing roster (\<open>withFileLock\<close> and \<open>reclaimStaleLock\<close> of
  \<open>pairing/storage.ts\<close>): a directory that a process creates before it reads and rewrites the
  roster, and the protocol by which another process takes over the directory of one that
  died. Each process is a program counter; every await of the code ends a step, so the steps
  of all processes interleave. A token stands for the random token of the code, a directory
  carries its inode, the time of its last change and the two files in it.

  A marker is read and unlinked in one step, and a directory with its files is removed in
  one step; the quarantined directory, which only its reclaimer knows, is examined in one
  step. The sleep between two attempts is the time that passes.
\<close>

subsection \<open>State\<close>

record lock_dir =
  d_ino :: nat
  d_mtime :: int
  d_owner :: "(nat \<times> nat) option"
  d_marker :: "nat option"

text \<open>
  The counters of one process. \<open>Mark\<close> to \<open>Verify\<close> remember the inspected inode and owner,
  \<open>Confirmed\<close> also the owner that was read again. \<open>Holding\<close> has the roster the operation has
  read, once it has. \<open>Unmarking\<close> remembers whether the lock is then free to be tried again.
\<close>

datatype 'f pc =
    Idle
  | Crashed
  | Trying
  | Created nat nat
  | Holding nat "'f option"
  | Releasing nat
  | Removing nat
  | Checking
  | Inspect nat
  | Mark nat "(nat \<times> nat) option"
  | Confirm nat "(nat \<times> nat) option" nat
  | Confirmed nat "(nat \<times> nat) option" nat "(nat \<times> nat) option"
  | Unmarking nat bool
  | Rename nat "(nat \<times> nat) option" nat
  | Verify nat "(nat \<times> nat) option" nat
  | Restore nat
  | Restored nat
  | MovingOwner nat
  | Clearing nat

record 'f locks =
  l_pc :: "nat \<Rightarrow> 'f pc"
  l_deadline :: "nat \<Rightarrow> int"
  l_gone :: "nat list"
  l_lock :: "lock_dir option"
  l_quarantine :: "(nat \<times> lock_dir) list"
  l_file :: 'f
  l_now :: int
  l_token :: nat
  l_inos :: "nat list"

record lock_options =
  lockTimeoutMs :: int
  lockStaleMs :: int

definition lock_defaults :: lock_options where
  "lock_defaults = \<lparr>lockTimeoutMs = 2000, lockStaleMs = 30000\<rparr>"

definition goto :: "nat \<Rightarrow> 'f pc \<Rightarrow> 'f locks \<Rightarrow> 'f locks" where
  "goto p c s = s\<lparr>l_pc := (l_pc s)(p := c)\<rparr>"

definition pid_alive :: "'f locks \<Rightarrow> nat \<Rightarrow> bool" where
  "pid_alive s p \<longleftrightarrow> p \<notin> set (l_gone s)"

text \<open>The owner a reader of the path sees.\<close>

definition path_owner :: "'f locks \<Rightarrow> (nat \<times> nat) option" where
  "path_owner s = (case l_lock s of Some d \<Rightarrow> d_owner d | None \<Rightarrow> None)"

definition set_dir :: "(lock_dir \<Rightarrow> lock_dir) \<Rightarrow> 'f locks \<Rightarrow> 'f locks" where
  "set_dir f s = s\<lparr>l_lock := map_option (\<lambda>d. (f d)\<lparr>d_mtime := l_now s\<rparr>) (l_lock s)\<rparr>"

definition new_dir :: "nat \<Rightarrow> 'f locks \<Rightarrow> 'f locks" where
  "new_dir i s = s\<lparr>l_lock := Some \<lparr>d_ino = i, d_mtime = l_now s, d_owner = None, d_marker = None\<rparr>, l_inos := i # l_inos s\<rparr>"

definition unmark :: "nat \<Rightarrow> 'f locks \<Rightarrow> 'f locks" where
  "unmark tok s = (case l_lock s of
     Some d \<Rightarrow> (if d_marker d = Some tok then set_dir (\<lambda>d. d\<lparr>d_marker := None\<rparr>) s else s)
   | None \<Rightarrow> s)"

definition same_generation :: "nat \<Rightarrow> (nat \<times> nat) option \<Rightarrow> (nat \<times> nat) option \<Rightarrow> nat \<Rightarrow> bool" where
  "same_generation ino o' c j = (case o' of
     Some (_, t) \<Rightarrow> (case c of Some (_, u) \<Rightarrow> u = t | None \<Rightarrow> False)
   | None \<Rightarrow> c = None \<and> j = ino)"

text \<open>The reclaimer gives up this time: another attempt, or the timeout of the operation.\<close>

definition retry :: "nat \<Rightarrow> 'f locks \<Rightarrow> 'f locks" where
  "retry p s = (if l_deadline s p - l_now s \<le> 0 then goto p Idle s else goto p Trying s)"

subsection \<open>Acquiring, holding and releasing\<close>

definition begin_operation :: "lock_options \<Rightarrow> nat \<Rightarrow> 'f locks \<Rightarrow> 'f locks" where
  "begin_operation L p s = goto p Trying (s\<lparr>l_deadline := (l_deadline s)(p := l_now s + lockTimeoutMs L)\<rparr>)"

definition try_mkdir :: "nat \<Rightarrow> nat \<Rightarrow> 'f locks \<Rightarrow> 'f locks" where
  "try_mkdir p i s = (if l_lock s \<noteq> None then goto p Checking s
     else goto p (Created i (l_token s)) ((new_dir i s)\<lparr>l_token := Suc (l_token s)\<rparr>))"

text \<open>The owner file is written by path, into whatever directory is there.\<close>

definition write_owner :: "nat \<Rightarrow> nat \<Rightarrow> 'f locks \<Rightarrow> 'f locks" where
  "write_owner p t s = (if l_lock s = None then goto p (Releasing t) s
     else goto p (Holding t None) (set_dir (\<lambda>d. d\<lparr>d_owner := Some (p, t)\<rparr>) s))"

text \<open>\<open>removeLockIfOwned\<close>: reading the owner, and removing the path.\<close>

definition check_owned :: "nat \<Rightarrow> nat \<Rightarrow> 'f locks \<Rightarrow> 'f locks" where
  "check_owned p t s = (case path_owner s of
     Some (_, u) \<Rightarrow> (if u = t then goto p (Removing t) s else goto p Idle s)
   | None \<Rightarrow> goto p Idle s)"

definition remove_path :: "nat \<Rightarrow> 'f locks \<Rightarrow> 'f locks" where
  "remove_path p s = goto p Idle (s\<lparr>l_lock := None\<rparr>)"

subsection \<open>Taking over the lock of a dead process\<close>

definition stat_lock :: "lock_options \<Rightarrow> nat \<Rightarrow> 'f locks \<Rightarrow> 'f locks" where
  "stat_lock L p s = (case l_lock s of
     None \<Rightarrow> goto p Trying s
   | Some d \<Rightarrow> (if l_now s - d_mtime d < lockStaleMs L then retry p s else goto p (Inspect (d_ino d)) s))"

definition inspect_owner :: "nat \<Rightarrow> nat \<Rightarrow> 'f locks \<Rightarrow> 'f locks" where
  "inspect_owner p ino s = (let o' = path_owner s in
     case o' of
       Some (q, _) \<Rightarrow> (if pid_alive s q then retry p s else goto p (Mark ino o') s)
     | None \<Rightarrow> goto p (Mark ino None) s)"

definition write_marker :: "nat \<Rightarrow> nat \<Rightarrow> (nat \<times> nat) option \<Rightarrow> 'f locks \<Rightarrow> 'f locks" where
  "write_marker p ino o' s = (case l_lock s of
     None \<Rightarrow> goto p Trying s
   | Some d \<Rightarrow>
      (if d_marker d \<noteq> None then retry p s
       else goto p (Confirm ino o' (l_token s))
         ((set_dir (\<lambda>d. d\<lparr>d_marker := Some (l_token s)\<rparr>) s)\<lparr>l_token := Suc (l_token s)\<rparr>)))"

definition confirm_stat :: "nat \<Rightarrow> nat \<Rightarrow> (nat \<times> nat) option \<Rightarrow> nat \<Rightarrow> (nat \<times> nat) option \<Rightarrow> 'f locks \<Rightarrow> 'f locks" where
  "confirm_stat p ino o' tok c s = (case l_lock s of
     None \<Rightarrow> goto p (Unmarking tok True) s
   | Some d \<Rightarrow>
      (if \<not> same_generation ino o' c (d_ino d) \<or> (case c of Some (q, _) \<Rightarrow> pid_alive s q | None \<Rightarrow> False)
       then goto p (Unmarking tok False) s
       else goto p (Rename ino o' tok) s))"

definition move_lock :: "nat \<Rightarrow> nat \<Rightarrow> (nat \<times> nat) option \<Rightarrow> nat \<Rightarrow> 'f locks \<Rightarrow> 'f locks" where
  "move_lock p ino o' tok s = (case l_lock s of
     None \<Rightarrow> goto p (Unmarking tok True) s
   | Some d \<Rightarrow> goto p (Verify ino o' tok) (s\<lparr>l_lock := None, l_quarantine := (tok, d) # l_quarantine s\<rparr>))"

definition drop_quarantine :: "nat \<Rightarrow> 'f locks \<Rightarrow> 'f locks" where
  "drop_quarantine tok s = s\<lparr>l_quarantine := filter (\<lambda>q. fst q \<noteq> tok) (l_quarantine s)\<rparr>"

definition verify_moved :: "nat \<Rightarrow> nat \<Rightarrow> (nat \<times> nat) option \<Rightarrow> nat \<Rightarrow> 'f locks \<Rightarrow> 'f locks" where
  "verify_moved p ino o' tok s = (case map_of (l_quarantine s) tok of
     None \<Rightarrow> goto p Idle s
   | Some d \<Rightarrow>
      (if \<not> same_generation ino o' (d_owner d) (d_ino d) \<or> d_marker d \<noteq> Some tok then goto p (Restore tok) s
       else goto p Trying (drop_quarantine tok s)))"

text \<open>A directory that was moved by mistake is put back (\<open>restoreQuarantinedLock\<close>).\<close>

definition restore_mkdir :: "nat \<Rightarrow> nat \<Rightarrow> nat \<Rightarrow> 'f locks \<Rightarrow> 'f locks" where
  "restore_mkdir p tok i s = (if l_lock s \<noteq> None then retry p s else goto p (Restored tok) (new_dir i s))"

definition restore_marker :: "nat \<Rightarrow> nat \<Rightarrow> 'f locks \<Rightarrow> 'f locks" where
  "restore_marker p tok s = (case l_lock s of
     None \<Rightarrow> goto p Idle s
   | Some d \<Rightarrow> (if d_marker d \<noteq> None then retry p s
               else goto p (MovingOwner tok) (set_dir (\<lambda>d. d\<lparr>d_marker := Some tok\<rparr>) s)))"

definition restore_owner :: "nat \<Rightarrow> nat \<Rightarrow> 'f locks \<Rightarrow> 'f locks" where
  "restore_owner p tok s = goto p (Clearing tok)
     (case map_of (l_quarantine s) tok of
        Some q \<Rightarrow> (case d_owner q of
          Some x \<Rightarrow> (if l_lock s = None then s else set_dir (\<lambda>d. d\<lparr>d_owner := Some x\<rparr>) s)
        | None \<Rightarrow> s)
      | None \<Rightarrow> s)"

definition restore_clear :: "nat \<Rightarrow> nat \<Rightarrow> 'f locks \<Rightarrow> 'f locks" where
  "restore_clear p tok s = retry p (drop_quarantine tok (unmark tok s))"

subsection \<open>Steps\<close>

text \<open>
  What process \<open>p\<close> does next; \<open>i\<close> is the inode the file system gives to a directory it
  creates. A process that holds the lock reads the roster.
\<close>

definition go :: "lock_options \<Rightarrow> nat \<Rightarrow> nat \<Rightarrow> 'f locks \<Rightarrow> 'f locks" where
  "go L p i s = (case l_pc s p of
     Idle \<Rightarrow> begin_operation L p s
   | Crashed \<Rightarrow> s
   | Trying \<Rightarrow> try_mkdir p i s
   | Created _ t \<Rightarrow> write_owner p t s
   | Holding t _ \<Rightarrow> goto p (Holding t (Some (l_file s))) s
   | Releasing t \<Rightarrow> check_owned p t s
   | Removing _ \<Rightarrow> remove_path p s
   | Checking \<Rightarrow> stat_lock L p s
   | Inspect ino \<Rightarrow> inspect_owner p ino s
   | Mark ino o' \<Rightarrow> write_marker p ino o' s
   | Confirm ino o' tok \<Rightarrow> goto p (Confirmed ino o' tok (path_owner s)) s
   | Confirmed ino o' tok c \<Rightarrow> confirm_stat p ino o' tok c s
   | Unmarking tok again \<Rightarrow> (let s1 = unmark tok s in if again then goto p Trying s1 else retry p s1)
   | Rename ino o' tok \<Rightarrow> move_lock p ino o' tok s
   | Verify ino o' tok \<Rightarrow> verify_moved p ino o' tok s
   | Restore tok \<Rightarrow> restore_mkdir p tok i s
   | Restored tok \<Rightarrow> restore_marker p tok s
   | MovingOwner tok \<Rightarrow> restore_owner p tok s
   | Clearing tok \<Rightarrow> restore_clear p tok s)"

text \<open>
  The events: a step of a process, the rewriting of the roster by a process that has read
  it, the end of an operation without one, a failing write of the owner file, a crash, the
  system forgetting the process, and time.
\<close>

datatype 'f lock_event =
    Go nat nat
  | Rewrite nat 'f
  | Finish nat
  | OwnerWriteFails nat
  | Crash nat
  | Gone nat
  | Tick int

fun lock_step :: "lock_options \<Rightarrow> 'f lock_event \<Rightarrow> 'f locks \<Rightarrow> 'f locks" where
  "lock_step L (Go p i) s = go L p i s"
| "lock_step L (Rewrite p f) s = (case l_pc s p of
     Holding t (Some _) \<Rightarrow> goto p (Releasing t) (s\<lparr>l_file := f\<rparr>)
   | _ \<Rightarrow> s)"
| "lock_step L (Finish p) s = (case l_pc s p of Holding t _ \<Rightarrow> goto p (Releasing t) s | _ \<Rightarrow> s)"
| "lock_step L (OwnerWriteFails p) s = (case l_pc s p of Created _ t \<Rightarrow> goto p (Releasing t) s | _ \<Rightarrow> s)"
| "lock_step L (Crash p) s = goto p Crashed s"
| "lock_step L (Gone p) s = (if l_pc s p = Crashed then s\<lparr>l_gone := p # l_gone s\<rparr> else s)"
| "lock_step L (Tick n) s = s\<lparr>l_now := l_now s + \<bar>n\<bar>\<rparr>"

definition lock_start :: "'f \<Rightarrow> 'f locks" where
  "lock_start f = \<lparr>l_pc = (\<lambda>_. Idle), l_deadline = (\<lambda>_. 0), l_gone = [], l_lock = None, l_quarantine = [], l_file = f,
     l_now = 0, l_token = 0, l_inos = []\<rparr>"

subsection \<open>The invariant\<close>

fun owner_token :: "'f pc \<Rightarrow> nat option" where
  "owner_token (Created i t) = Some t"
| "owner_token (Holding t f) = Some t"
| "owner_token (Releasing t) = Some t"
| "owner_token (Removing t) = Some t"
| "owner_token c = None"

fun marker_token :: "'f pc \<Rightarrow> nat option" where
  "marker_token (Confirm i x m) = Some m"
| "marker_token (Confirmed i x m c) = Some m"
| "marker_token (Unmarking m b) = Some m"
| "marker_token (Rename i x m) = Some m"
| "marker_token (Verify i x m) = Some m"
| "marker_token (Restore m) = Some m"
| "marker_token (Restored m) = Some m"
| "marker_token (MovingOwner m) = Some m"
| "marker_token (Clearing m) = Some m"
| "marker_token c = None"

fun created_ino :: "'f pc \<Rightarrow> nat option" where
  "created_ino (Created i t) = Some i"
| "created_ino c = None"

text \<open>The directory is the generation that was inspected.\<close>

definition target :: "nat \<Rightarrow> (nat \<times> nat) option \<Rightarrow> lock_dir \<Rightarrow> bool" where
  "target ino x d \<longleftrightarrow> (case x of Some y \<Rightarrow> d_owner d = Some y | None \<Rightarrow> d_ino d = ino \<and> d_owner d = None)"

text \<open>Nobody will act for the inspected generation any more.\<close>

definition dead_generation :: "'f locks \<Rightarrow> nat \<Rightarrow> (nat \<times> nat) option \<Rightarrow> bool" where
  "dead_generation s ino x \<longleftrightarrow> (case x of
     Some (q, t) \<Rightarrow> t < l_token s \<and> (\<forall>p. owner_token (l_pc s p) \<noteq> Some t)
       \<and> (\<forall>d r. l_lock s = Some d \<longrightarrow> d_owner d = Some (r, t) \<longrightarrow> r = q)
   | None \<Rightarrow> ino \<in> set (l_inos s) \<and> (\<forall>p. created_ino (l_pc s p) \<noteq> Some ino)
       \<and> (\<forall>d. l_lock s = Some d \<longrightarrow> d_ino d = ino \<longrightarrow> d_owner d = None))"

definition marked :: "'f locks \<Rightarrow> nat \<Rightarrow> (nat \<times> nat) option \<Rightarrow> nat \<Rightarrow> bool" where
  "marked s ino x m \<longleftrightarrow> (\<forall>d. l_lock s = Some d \<longrightarrow> target ino x d \<longrightarrow> d_marker d = Some m)"

definition found :: "'f locks \<Rightarrow> nat \<Rightarrow> (nat \<times> nat) option \<Rightarrow> bool" where
  "found s ino x \<longleftrightarrow> (\<exists>d. l_lock s = Some d \<and> target ino x d)"

fun pc_ok :: "'f locks \<Rightarrow> nat \<Rightarrow> 'f pc \<Rightarrow> bool" where
  "pc_ok s p (Created i t) = (\<exists>d. l_lock s = Some d \<and> d_ino d = i \<and> d_owner d = None)"
| "pc_ok s p (Holding t f) = (path_owner s = Some (p, t) \<and> (case f of Some v \<Rightarrow> v = l_file s | None \<Rightarrow> True))"
| "pc_ok s p (Releasing t) = (\<forall>q. path_owner s = Some (q, t) \<longrightarrow> q = p)"
| "pc_ok s p (Removing t) = (path_owner s = Some (p, t))"
| "pc_ok s p (Inspect i) = (i \<in> set (l_inos s) \<and> (\<forall>q. created_ino (l_pc s q) \<noteq> Some i))"
| "pc_ok s p (Mark i x) = dead_generation s i x"
| "pc_ok s p (Confirm i x m) = (dead_generation s i x \<and> marked s i x m)"
| "pc_ok s p (Confirmed i x m c) = (dead_generation s i x \<and> marked s i x m
     \<and> (case x of Some y \<Rightarrow> same_generation i x c i \<longrightarrow> found s i x | None \<Rightarrow> True))"
| "pc_ok s p (Rename i x m) = (dead_generation s i x \<and> marked s i x m \<and> found s i x)"
| "pc_ok s p (Verify i x m) = (\<exists>d. map_of (l_quarantine s) m = Some d \<and> target i x d \<and> d_marker d = Some m)"
| "pc_ok s p (Restore m) = False"
| "pc_ok s p (Restored m) = False"
| "pc_ok s p (MovingOwner m) = False"
| "pc_ok s p (Clearing m) = False"
| "pc_ok s p c = True"

definition tokens_ok :: "(nat \<Rightarrow> 'f pc) \<Rightarrow> nat \<Rightarrow> nat list \<Rightarrow> lock_dir option \<Rightarrow> bool" where
  "tokens_ok pc n inos lock \<longleftrightarrow>
     (\<forall>p t. owner_token (pc p) = Some t \<longrightarrow> t < n)
     \<and> (\<forall>p m. marker_token (pc p) = Some m \<longrightarrow> m < n)
     \<and> (\<forall>p q t. owner_token (pc p) = Some t \<longrightarrow> owner_token (pc q) = Some t \<longrightarrow> p = q)
     \<and> (\<forall>p q m. marker_token (pc p) = Some m \<longrightarrow> marker_token (pc q) = Some m \<longrightarrow> p = q)
     \<and> (\<forall>p q i. created_ino (pc p) = Some i \<longrightarrow> created_ino (pc q) = Some i \<longrightarrow> p = q)
     \<and> (\<forall>d. lock = Some d \<longrightarrow> d_ino d \<in> set inos \<and> (\<forall>q t. d_owner d = Some (q, t) \<longrightarrow> t < n)
          \<and> (\<forall>m. d_marker d = Some m \<longrightarrow> m < n))
     \<and> (\<forall>d q t p. lock = Some d \<longrightarrow> d_owner d = Some (q, t) \<longrightarrow> owner_token (pc p) = Some t \<longrightarrow> p = q)"

definition lock_inv :: "'f locks \<Rightarrow> bool" where
  "lock_inv s \<longleftrightarrow> (\<forall>p. pc_ok s p (l_pc s p)) \<and> tokens_ok (l_pc s) (l_token s) (l_inos s) (l_lock s)
     \<and> (\<forall>p \<in> set (l_gone s). l_pc s p = Crashed)"

lemma path_owner_Some: "path_owner s = Some x \<longleftrightarrow> (\<exists>d. l_lock s = Some d \<and> d_owner d = Some x)"
  by (simp add: path_owner_def split: option.split)

lemma lock_invD:
  assumes "lock_inv s"
  shows "pc_ok s p (l_pc s p)" "owner_token (l_pc s p) = Some t \<Longrightarrow> t < l_token s"
    "marker_token (l_pc s p) = Some m \<Longrightarrow> m < l_token s"
    "owner_token (l_pc s p) = Some t \<Longrightarrow> owner_token (l_pc s q) = Some t \<Longrightarrow> p = q"
    "marker_token (l_pc s p) = Some m \<Longrightarrow> marker_token (l_pc s q) = Some m \<Longrightarrow> p = q"
    "created_ino (l_pc s p) = Some i \<Longrightarrow> created_ino (l_pc s q) = Some i \<Longrightarrow> p = q"
    "l_lock s = Some d \<Longrightarrow> d_ino d \<in> set (l_inos s)"
    "l_lock s = Some d \<Longrightarrow> d_owner d = Some (q, t) \<Longrightarrow> t < l_token s"
    "l_lock s = Some d \<Longrightarrow> d_marker d = Some m \<Longrightarrow> m < l_token s"
    "path_owner s = Some (q, t) \<Longrightarrow> owner_token (l_pc s p) = Some t \<Longrightarrow> p = q"
    "p \<in> set (l_gone s) \<Longrightarrow> l_pc s p = Crashed"
proof -
  have t: "tokens_ok (l_pc s) (l_token s) (l_inos s) (l_lock s)" using assms by (simp only: lock_inv_def)
  note b = t [unfolded tokens_ok_def]
  note c = b [THEN conjunct2] note d = c [THEN conjunct2] note e = d [THEN conjunct2] note f = e [THEN conjunct2] note g = f [THEN conjunct2]
  show "pc_ok s p (l_pc s p)" using assms by (simp only: lock_inv_def)
  show "owner_token (l_pc s p) = Some t \<Longrightarrow> t < l_token s" by (rule b [THEN conjunct1, rule_format])
  show "marker_token (l_pc s p) = Some m \<Longrightarrow> m < l_token s" by (rule c [THEN conjunct1, rule_format])
  show "owner_token (l_pc s p) = Some t \<Longrightarrow> owner_token (l_pc s q) = Some t \<Longrightarrow> p = q" by (rule d [THEN conjunct1, rule_format])
  show "marker_token (l_pc s p) = Some m \<Longrightarrow> marker_token (l_pc s q) = Some m \<Longrightarrow> p = q" by (rule e [THEN conjunct1, rule_format])
  show "created_ino (l_pc s p) = Some i \<Longrightarrow> created_ino (l_pc s q) = Some i \<Longrightarrow> p = q" by (rule f [THEN conjunct1, rule_format])
  show "l_lock s = Some d \<Longrightarrow> d_ino d \<in> set (l_inos s)" using g by simp
  show "l_lock s = Some d \<Longrightarrow> d_owner d = Some (q, t) \<Longrightarrow> t < l_token s" using g by simp
  show "l_lock s = Some d \<Longrightarrow> d_marker d = Some m \<Longrightarrow> m < l_token s" using g by simp
  show "path_owner s = Some (q, t) \<Longrightarrow> owner_token (l_pc s p) = Some t \<Longrightarrow> p = q"
    unfolding path_owner_Some using g by blast
  show "p \<in> set (l_gone s) \<Longrightarrow> l_pc s p = Crashed" using assms by (simp add: lock_inv_def)
qed

lemma update_apart:
  assumes old: "\<And>q r t. f (g q) = Some t \<Longrightarrow> f (g r) = Some t \<Longrightarrow> q = r"
    and new: "\<And>q t. f c = Some t \<Longrightarrow> f (g q) = Some t \<Longrightarrow> q = p"
    and qr: "f ((g(p := c)) q) = Some t" "f ((g(p := c)) r) = Some t"
  shows "q = r"
proof (cases "q = p")
  case True
  show ?thesis
  proof (rule ccontr)
    assume n: "q \<noteq> r"
    then have "f c = Some t" "f (g r) = Some t" using True qr by simp_all
    then have "r = p" by (rule new)
    then show False using n True by simp
  qed
next
  case q: False
  show ?thesis
  proof (cases "r = p")
    case True
    then have "f c = Some t" "f (g q) = Some t" using q qr by simp_all
    then have "q = p" by (rule new)
    then show ?thesis using q by simp
  next
    case False
    then have "f (g q) = Some t" "f (g r) = Some t" using q qr by simp_all
    then show ?thesis by (rule old)
  qed
qed

text \<open>
  A step of \<open>p\<close> keeps the invariant if what it says of \<open>p\<close> holds after it, what it says of the
  others is kept, and the tokens are still apart.
\<close>

lemma lock_invI:
  assumes "lock_inv s" "l_pc s' = (l_pc s)(p := c)" "l_gone s' = l_gone s" "p \<notin> set (l_gone s)" "l_token s \<le> l_token s'"
    and "pc_ok s' p c" "\<And>q. q \<noteq> p \<Longrightarrow> pc_ok s q (l_pc s q) \<Longrightarrow> pc_ok s' q (l_pc s q)"
    and "\<And>t. owner_token c = Some t \<Longrightarrow> owner_token (l_pc s p) = Some t \<or> t = l_token s \<and> l_token s' = Suc (l_token s)"
    and "\<And>m. marker_token c = Some m \<Longrightarrow> marker_token (l_pc s p) = Some m \<or> m = l_token s \<and> l_token s' = Suc (l_token s)"
    and "\<And>i. created_ino c = Some i \<Longrightarrow> created_ino (l_pc s p) = Some i \<or> (\<forall>q. created_ino (l_pc s q) \<noteq> Some i)"
    and "\<And>d. l_lock s' = Some d \<Longrightarrow> d_ino d \<in> set (l_inos s') \<and> (\<forall>q t. d_owner d = Some (q, t) \<longrightarrow> t < l_token s')
      \<and> (\<forall>m. d_marker d = Some m \<longrightarrow> m < l_token s')"
    and "\<And>q t. path_owner s' = Some (q, t) \<Longrightarrow> path_owner s = Some (q, t) \<or> q = p \<and> owner_token (l_pc s p) = Some t"
  shows "lock_inv s'"
proof -
  note D = lock_invD [OF assms(1)]
  have pc: "l_pc s' q = (if q = p then c else l_pc s q)" for q using assms(2) by simp
  have own: "t < l_token s'" if t: "owner_token (l_pc s' q) = Some t" for q t
  proof (cases "q = p")
    case True
    then have "owner_token c = Some t" using t by (simp add: pc)
    from assms(8) [OF this] show ?thesis by (rule disjE) (use D(2) [of p t] assms(5) in simp_all)
  next
    case False
    then show ?thesis using t D(2) [of q t] assms(5) by (simp add: pc)
  qed
  have mrk: "m < l_token s'" if m: "marker_token (l_pc s' q) = Some m" for q m
  proof (cases "q = p")
    case True
    then have "marker_token c = Some m" using m by (simp add: pc)
    from assms(9) [OF this] show ?thesis by (rule disjE) (use D(3) [of p m] assms(5) in simp_all)
  next
    case False
    then show ?thesis using m D(3) [of q m] assms(5) by (simp add: pc)
  qed
  have own1: "q = p" if "owner_token c = Some t" "owner_token (l_pc s q) = Some t" for q t
    using assms(8) [OF that(1)] by (rule disjE) (use D(2) [OF that(2)] D(4) [of q t p] that(2) in simp_all)
  have mrk1: "q = p" if "marker_token c = Some t" "marker_token (l_pc s q) = Some t" for q t
    using assms(9) [OF that(1)] by (rule disjE) (use D(3) [OF that(2)] D(5) [of q t p] that(2) in simp_all)
  have ino1: "q = p" if "created_ino c = Some i" "created_ino (l_pc s q) = Some i" for q i
    using assms(10) [OF that(1)] that(2) D(6) [of q i p] by blast
  have path: "r = q" if "path_owner s' = Some (q, t)" "owner_token (l_pc s' r) = Some t" for q t r
    using assms(12) [OF that(1)]
  proof
    assume old: "path_owner s = Some (q, t)"
    have "t < l_token s" using old D(8) by (auto simp: path_owner_def split: option.splits)
    show ?thesis
    proof (cases "r = p \<and> owner_token (l_pc s p) \<noteq> Some t")
      case True
      then have "owner_token c = Some t" using that(2) by (simp add: pc)
      from assms(8) [OF this] show ?thesis using True \<open>t < l_token s\<close> by simp
    next
      case False
      then have "owner_token (l_pc s r) = Some t" using that(2) by (cases "r = p") (simp_all add: pc)
      then show ?thesis using D(10) [OF old] by simp
    qed
  next
    assume a: "q = p \<and> owner_token (l_pc s p) = Some t"
    show ?thesis
    proof (rule ccontr)
      assume n: "r \<noteq> q"
      then have "owner_token (l_pc s r) = Some t" using that(2) a by (simp add: pc)
      then show False using D(4) [of p t r] a n by blast
    qed
  qed
  have ok: "pc_ok s' q (l_pc s' q)" for q using assms(6) assms(7) [of q, OF _ D(1)] by (cases "q = p") (simp_all add: pc)
  have own2: "q = r" if "owner_token (l_pc s' q) = Some t" "owner_token (l_pc s' r) = Some t" for q r t
    using update_apart [of owner_token "l_pc s" c p q t r, OF D(4) own1] that assms(2) by simp
  have mrk2: "q = r" if "marker_token (l_pc s' q) = Some t" "marker_token (l_pc s' r) = Some t" for q r t
    using update_apart [of marker_token "l_pc s" c p q t r, OF D(5) mrk1] that assms(2) by simp
  have ino2: "q = r" if "created_ino (l_pc s' q) = Some i" "created_ino (l_pc s' r) = Some i" for q r i
    using update_apart [of created_ino "l_pc s" c p q i r, OF D(6) ino1] that assms(2) by simp
  have gone: "l_pc s' q = Crashed" if "q \<in> set (l_gone s')" for q
    using that assms(3,4) D(11) [of q] by (cases "q = p") (simp_all add: pc)
  have dir: "d_ino d \<in> set (l_inos s')" "d_owner d = Some (q, t) \<Longrightarrow> t < l_token s'" "d_marker d = Some m \<Longrightarrow> m < l_token s'"
    if "l_lock s' = Some d" for d q t m using assms(11) [OF that] by blast+
  have owned: "r = q" if "l_lock s' = Some d" "d_owner d = Some (q, t)" "owner_token (l_pc s' r) = Some t" for d q t r
    by (rule path [OF _ that(3)]) (use that in \<open>simp add: path_owner_def\<close>)
  have "tokens_ok (l_pc s') (l_token s') (l_inos s') (l_lock s')"
    unfolding tokens_ok_def
    by (intro conjI allI impI)
      (erule own, erule mrk, erule (1) own2, erule (1) mrk2, erule (1) ino2, erule dir(1), erule (1) dir(2),
       erule (1) dir(3), erule (2) owned)
  then show ?thesis unfolding lock_inv_def using ok gone by blast
qed

lemma pc_ok_frame:
  assumes "pc_ok s q x" "l_lock s' = l_lock s" "l_file s' = l_file s" "l_token s \<le> l_token s'" "l_inos s' = l_inos s"
    "\<And>r t. owner_token (l_pc s' r) = Some t \<Longrightarrow> owner_token (l_pc s r) = Some t"
    "\<And>r i. created_ino (l_pc s' r) = Some i \<Longrightarrow> created_ino (l_pc s r) = Some i"
    "\<And>m. marker_token x = Some m \<Longrightarrow> map_of (l_quarantine s') m = map_of (l_quarantine s) m"
  shows "pc_ok s' q x"
proof -
  have path: "path_owner s' = path_owner s" by (simp add: path_owner_def assms(2))
  have dead: "dead_generation s' i y" if "dead_generation s i y" for i y
    using that assms(2,4,5) assms(6,7) by (fastforce simp: dead_generation_def split: option.splits)
  have "marked s' i y m = marked s i y m" "found s' i y = found s i y" for i y m
    by (simp_all add: marked_def found_def assms(2))
  then show ?thesis
    using assms(1) assms(2,3,5) assms(8) dead path by (cases x) (auto split: option.splits dest: assms(7))
qed

lemma goto_simps [simp]:
  "l_pc (goto p c s) = (l_pc s)(p := c)" "l_lock (goto p c s) = l_lock s" "l_file (goto p c s) = l_file s"
  "l_token (goto p c s) = l_token s" "l_inos (goto p c s) = l_inos s" "l_gone (goto p c s) = l_gone s"
  "l_quarantine (goto p c s) = l_quarantine s" "path_owner (goto p c s) = path_owner s" "l_now (goto p c s) = l_now s"
  "l_deadline (goto p c s) = l_deadline s"
  by (simp_all add: goto_def path_owner_def)

text \<open>A step that only moves the counter of \<open>p\<close>, to a place with no token or with the same one.\<close>

lemma inv_goto:
  assumes "lock_inv s" "p \<notin> set (l_gone s)" "pc_ok (goto p c s) p c"
    "owner_token c = None \<or> owner_token c = owner_token (l_pc s p)" "marker_token c = None \<or> marker_token c = marker_token (l_pc s p)"
    "created_ino c = None"
  shows "lock_inv (goto p c s)"
proof (rule lock_invI [OF assms(1), where p = p and c = c])
  show "pc_ok (goto p c s) q (l_pc s q)" if "q \<noteq> p" "pc_ok s q (l_pc s q)" for q
    by (rule pc_ok_frame [OF that(2)]) (use assms(4,6) in \<open>auto split: if_splits\<close>)
  show "d_ino d \<in> set (l_inos (goto p c s)) \<and> (\<forall>q t. d_owner d = Some (q, t) \<longrightarrow> t < l_token (goto p c s))
      \<and> (\<forall>m. d_marker d = Some m \<longrightarrow> m < l_token (goto p c s))" if "l_lock (goto p c s) = Some d" for d
    using that lock_invD(7,8,9) [OF assms(1)] by auto
qed (use assms in auto)

lemma lock_inv_frame:
  assumes "lock_inv s" "l_pc s' = l_pc s" "l_lock s' = l_lock s" "l_file s' = l_file s" "l_token s' = l_token s" "l_inos s' = l_inos s"
    "l_quarantine s' = l_quarantine s" "\<And>p. p \<in> set (l_gone s') \<Longrightarrow> l_pc s p = Crashed"
  shows "lock_inv s'"
proof -
  have ok: "pc_ok s' p (l_pc s' p)" for p
    unfolding assms(2) by (rule pc_ok_frame [OF lock_invD(1) [OF assms(1)]]) (simp_all add: assms(2-7))
  show ?thesis using assms(1) ok by (simp add: lock_inv_def assms(2,3,5,6,8))
qed

lemma inv_retry: "lock_inv s \<Longrightarrow> p \<notin> set (l_gone s) \<Longrightarrow> lock_inv (retry p s)"
  by (simp add: retry_def inv_goto)

subsection \<open>Every step keeps the invariant\<close>

text \<open>
  No live process stands still for the time of a stale lock between creating the directory
  and writing the owner into it.
\<close>

definition prompt :: "lock_options \<Rightarrow> 'f locks \<Rightarrow> bool" where
  "prompt L s \<longleftrightarrow> (\<forall>p i t d. l_pc s p = Created i t \<longrightarrow> l_lock s = Some d \<longrightarrow> d_ino d = i \<longrightarrow> l_now s - d_mtime d < lockStaleMs L)"

lemma not_gone: "lock_inv s \<Longrightarrow> l_pc s p \<noteq> Crashed \<Longrightarrow> p \<notin> set (l_gone s)"
  using lock_invD(11) by blast

lemma created_ino_iff: "created_ino c = Some i \<longleftrightarrow> (\<exists>t. c = Created i t)"
  by (cases c) auto

lemma stat_lock_inv:
  assumes "lock_inv s" "prompt L s" "l_pc s p = Checking"
  shows "lock_inv (stat_lock L p s)"
proof -
  have g: "p \<notin> set (l_gone s)" using not_gone [OF assms(1)] assms(3) by simp
  show ?thesis
  proof (cases "l_lock s")
    case None
    then show ?thesis using inv_goto [OF assms(1) g] by (simp add: stat_lock_def)
  next
    case (Some d)
    show ?thesis
    proof (cases "l_now s - d_mtime d < lockStaleMs L")
      case True
      then show ?thesis using inv_retry [OF assms(1) g] by (simp add: stat_lock_def Some)
    next
      case False
      have "created_ino (l_pc s q) \<noteq> Some (d_ino d)" for q
        using assms(2) Some False by (auto simp: prompt_def created_ino_iff)
      then show ?thesis
        using inv_goto [OF assms(1) g, of "Inspect (d_ino d)"] False lock_invD(7) [OF assms(1) Some] assms(3)
        by (simp add: stat_lock_def Some)
    qed
  qed
qed

lemma inspect_owner_inv:
  assumes "lock_inv s" "l_pc s p = Inspect ino"
  shows "lock_inv (inspect_owner p ino s)"
proof -
  have g: "p \<notin> set (l_gone s)" using not_gone [OF assms(1)] assms(2) by simp
  have ok: "ino \<in> set (l_inos s)" "\<And>q. created_ino (l_pc s q) \<noteq> Some ino" using lock_invD(1) [OF assms(1), of p] assms(2) by simp_all
  have mark: "lock_inv (goto p (Mark ino x) s)" if "dead_generation (goto p (Mark ino x) s) ino x" for x
    by (rule inv_goto [OF assms(1) g]) (use that in simp_all)
  show ?thesis
  proof (cases "path_owner s")
    case None
    then have "dead_generation (goto p (Mark ino None) s) ino None"
      using ok by (auto simp: dead_generation_def path_owner_def)
    then show ?thesis using mark by (simp add: inspect_owner_def None)
  next
    case (Some y)
    obtain q t where y: "y = (q, t)" by fastforce
    then obtain d where d: "l_lock s = Some d" "d_owner d = Some (q, t)" using Some unfolding y path_owner_Some by blast
    show ?thesis
    proof (cases "pid_alive s q")
      case True
      then show ?thesis using inv_retry [OF assms(1) g] by (simp add: inspect_owner_def Some y)
    next
      case False
      then have "l_pc s q = Crashed" using lock_invD(11) [OF assms(1)] by (simp add: pid_alive_def)
      then have "owner_token (l_pc s r) \<noteq> Some t" for r
        using lock_invD(10) [OF assms(1), of q t r] Some y by auto
      then have "dead_generation (goto p (Mark ino (Some (q, t))) s) ino (Some (q, t))"
        using lock_invD(8) [OF assms(1) d] d by (simp add: dead_generation_def)
      then show ?thesis using mark False by (simp add: inspect_owner_def Some y)
    qed
  qed
qed

lemma check_owned_inv:
  assumes "lock_inv s" "l_pc s p = Releasing t"
  shows "lock_inv (check_owned p t s)"
proof -
  have g: "p \<notin> set (l_gone s)" using not_gone [OF assms(1)] assms(2) by simp
  have "path_owner s = Some (q, t) \<Longrightarrow> q = p" for q using lock_invD(1) [OF assms(1), of p] assms(2) by simp
  then show ?thesis using inv_goto [OF assms(1) g] assms(2) by (auto simp: check_owned_def split: option.split)
qed

lemma confirm_inv:
  assumes "lock_inv s" "l_pc s p = Confirm ino x m"
  shows "lock_inv (goto p (Confirmed ino x m (path_owner s)) s)"
proof -
  have g: "p \<notin> set (l_gone s)" using not_gone [OF assms(1)] assms(2) by simp
  have ok: "dead_generation s ino x" "marked s ino x m" using lock_invD(1) [OF assms(1), of p] assms(2) by simp_all
  have d: "dead_generation (goto p c s) ino x" if "owner_token c = None" "created_ino c = None" for c
    using ok(1) that by (auto simp: dead_generation_def split: option.splits)
  have "found s ino x" if "x = Some y" "same_generation ino x (path_owner s) ino" for y
    using that ok(1) by (cases y) (auto simp: same_generation_def dead_generation_def found_def target_def path_owner_Some split: option.splits)
  then have "pc_ok (goto p (Confirmed ino x m (path_owner s)) s) p (Confirmed ino x m (path_owner s))"
    using d ok(2) by (auto simp: marked_def found_def split: option.split)
  then show ?thesis using inv_goto [OF assms(1) g] assms(2) by simp
qed

lemma confirm_stat_inv:
  assumes "lock_inv s" "l_pc s p = Confirmed ino x m c"
  shows "lock_inv (confirm_stat p ino x m c s)"
proof -
  have g: "p \<notin> set (l_gone s)" using not_gone [OF assms(1)] assms(2) by simp
  have ok: "dead_generation s ino x" "marked s ino x m" "\<And>y. x = Some y \<Longrightarrow> same_generation ino x c ino \<Longrightarrow> found s ino x"
    using lock_invD(1) [OF assms(1), of p] assms(2) by simp_all
  have d: "dead_generation (goto p (Rename ino x m) s) ino x"
    using ok(1) by (auto simp: dead_generation_def split: option.splits)
  show ?thesis
  proof (cases "\<exists>dir. l_lock s = Some dir \<and> same_generation ino x c (d_ino dir) \<and> \<not> (case c of Some (q, _) \<Rightarrow> pid_alive s q | None \<Rightarrow> False)")
    case True
    then obtain dir where dir: "l_lock s = Some dir" "same_generation ino x c (d_ino dir)"
      "\<not> (case c of Some (q, _) \<Rightarrow> pid_alive s q | None \<Rightarrow> False)" by blast
    have "found s ino x"
    proof (cases x)
      case None
      then show ?thesis using dir(1,2) ok(1) by (auto simp: same_generation_def dead_generation_def found_def target_def)
    next
      case (Some y)
      then show ?thesis using ok(3) dir(2) by (auto simp: same_generation_def)
    qed
    then have "pc_ok (goto p (Rename ino x m) s) p (Rename ino x m)" using d ok(2) by (simp add: marked_def found_def)
    then have "lock_inv (goto p (Rename ino x m) s)" using inv_goto [OF assms(1) g] assms(2) by simp
    then show ?thesis using dir by (simp add: confirm_stat_def)
  next
    case False
    have "lock_inv (goto p (Unmarking m b) s)" for b using inv_goto [OF assms(1) g] assms(2) by simp
    then show ?thesis using False by (auto simp: confirm_stat_def split: option.splits)
  qed
qed

lemma mkdir_inv:
  assumes "lock_inv s" "l_pc s p = Trying" "i \<notin> set (l_inos s)"
  shows "lock_inv (try_mkdir p i s)"
proof -
  have g: "p \<notin> set (l_gone s)" using not_gone [OF assms(1)] assms(2) by simp
  show ?thesis
  proof (cases "l_lock s")
    case (Some d)
    then show ?thesis using inv_goto [OF assms(1) g] by (simp add: try_mkdir_def)
  next
    case None
    define s' where "s' = try_mkdir p i s"
    have s': "l_pc s' = (l_pc s)(p := Created i (l_token s))" "l_gone s' = l_gone s" "l_token s' = Suc (l_token s)"
      "l_lock s' = Some \<lparr>d_ino = i, d_mtime = l_now s, d_owner = None, d_marker = None\<rparr>" "l_inos s' = i # l_inos s"
      "l_file s' = l_file s" "l_quarantine s' = l_quarantine s" "path_owner s' = None"
      by (simp_all add: s'_def try_mkdir_def None new_dir_def path_owner_def)
    have new: "created_ino (l_pc s q) \<noteq> Some i" for q
      using lock_invD(1) [OF assms(1), of q] None by (auto simp: created_ino_iff)
    have dead: "dead_generation s' j x" if "dead_generation s j x" for j x
      using that assms(3) by (auto simp: dead_generation_def s' split: option.splits)
    have marked: "marked s' j x m" if "dead_generation s j x" for j x m
      using that assms(3) by (auto simp: marked_def target_def dead_generation_def s' split: option.splits)
    have "lock_inv s'"
    proof (rule lock_invI [OF assms(1) s'(1,2) g])
      show "pc_ok s' q (l_pc s q)" if "q \<noteq> p" "pc_ok s q (l_pc s q)" for q
        using that None dead marked assms(3) by (cases "l_pc s q") (auto simp: s' path_owner_def found_def split: option.splits)
    qed (use new in \<open>auto simp: s'\<close>)
    then show ?thesis by (simp add: s'_def)
  qed
qed

lemma write_owner_inv:
  assumes "lock_inv s" "l_pc s p = Created i t"
  shows "lock_inv (write_owner p t s)"
proof -
  have g: "p \<notin> set (l_gone s)" using not_gone [OF assms(1)] assms(2) by simp
  obtain d where d: "l_lock s = Some d" "d_ino d = i" "d_owner d = None" using lock_invD(1) [OF assms(1), of p] assms(2) by auto
  define s' where "s' = write_owner p t s"
  have s': "l_pc s' = (l_pc s)(p := Holding t None)" "l_gone s' = l_gone s" "l_token s' = l_token s"
    "l_lock s' = Some (d\<lparr>d_owner := Some (p, t), d_mtime := l_now s\<rparr>)" "l_inos s' = l_inos s"
    "l_file s' = l_file s" "l_quarantine s' = l_quarantine s" "path_owner s' = Some (p, t)"
    by (simp_all add: s'_def write_owner_def set_dir_def path_owner_def d(1))
  have own: "owner_token (l_pc s p) = Some t" "created_ino (l_pc s p) = Some i" using assms(2) by simp_all
  have nd: "\<not> (dead_generation s j x \<and> target j x (d\<lparr>d_owner := Some (p, t), d_mtime := n\<rparr>))" for j x n
    using own by (auto simp: dead_generation_def target_def split: option.splits)
  have dead: "dead_generation s' j x" if "dead_generation s j x" for j x
    using that own d by (fastforce simp: dead_generation_def s' split: option.splits)
  have marked: "marked s' j x m" if "dead_generation s j x" for j x m
    using nd that by (simp add: marked_def s')
  have found: "\<not> (dead_generation s j x \<and> found s j x)" for j x
    using own d by (auto simp: dead_generation_def found_def target_def split: option.splits)
  have "lock_inv s'"
  proof (rule lock_invI [OF assms(1) s'(1,2) g])
    show "pc_ok s' q (l_pc s q)" if "q \<noteq> p" "pc_ok s q (l_pc s q)" for q
      using that dead marked found d lock_invD(6) [OF assms(1), of p i q] lock_invD(4) [OF assms(1), of p t q] own
      by (cases "l_pc s q") (auto simp: s' path_owner_def split: option.splits)
    show "d_ino e \<in> set (l_inos s') \<and> (\<forall>q t. d_owner e = Some (q, t) \<longrightarrow> t < l_token s') \<and> (\<forall>m. d_marker e = Some m \<longrightarrow> m < l_token s')"
      if "l_lock s' = Some e" for e
      using that lock_invD(7,9) [OF assms(1) d(1)] lock_invD(2) [OF assms(1) own(1)] by (auto simp: s')
  qed (use own in \<open>auto simp: s'\<close>)
  then show ?thesis by (simp add: s'_def)
qed

lemma write_marker_inv:
  assumes "lock_inv s" "l_pc s p = Mark ino x"
  shows "lock_inv (write_marker p ino x s)"
proof -
  have g: "p \<notin> set (l_gone s)" using not_gone [OF assms(1)] assms(2) by simp
  have ok: "dead_generation s ino x" using lock_invD(1) [OF assms(1), of p] assms(2) by simp
  show ?thesis
  proof (cases "l_lock s")
    case None
    then show ?thesis using inv_goto [OF assms(1) g] by (simp add: write_marker_def)
  next
    case (Some d)
    show ?thesis
    proof (cases "d_marker d")
      case (Some m)
      then show ?thesis using inv_retry [OF assms(1) g] \<open>l_lock s = Some d\<close> by (simp add: write_marker_def)
    next
      case None
      define s' where "s' = write_marker p ino x s"
      have s': "l_pc s' = (l_pc s)(p := Confirm ino x (l_token s))" "l_gone s' = l_gone s" "l_token s' = Suc (l_token s)"
        "l_lock s' = Some (d\<lparr>d_marker := Some (l_token s), d_mtime := l_now s\<rparr>)" "l_inos s' = l_inos s"
        "l_file s' = l_file s" "l_quarantine s' = l_quarantine s" "path_owner s' = path_owner s"
        by (simp_all add: s'_def write_marker_def set_dir_def path_owner_def \<open>l_lock s = Some d\<close> None)
      have t: "target j y (d\<lparr>d_marker := k, d_mtime := n\<rparr>) = target j y d" for j y k n by (simp add: target_def split: option.split)
      have dead: "dead_generation s' j y" if "dead_generation s j y" for j y
        using that \<open>l_lock s = Some d\<close> by (auto simp: dead_generation_def s' split: option.splits)
      have marked: "marked s' j y m" if "marked s j y m" for j y m
        using that None \<open>l_lock s = Some d\<close> by (auto simp: marked_def s' t)
      have found: "found s' j y" if "found s j y" for j y
        using that \<open>l_lock s = Some d\<close> by (auto simp: found_def s' t)
      have "lock_inv s'"
      proof (rule lock_invI [OF assms(1) s'(1,2) g])
        show "pc_ok s' q (l_pc s q)" if "q \<noteq> p" "pc_ok s q (l_pc s q)" for q
          using that dead marked found \<open>l_lock s = Some d\<close>
          by (cases "l_pc s q") (auto simp: s'(2-8) s'(1) split: option.splits)
        show "pc_ok s' p (Confirm ino x (l_token s))" using dead [OF ok] by (simp add: marked_def s')
        show "d_ino e \<in> set (l_inos s') \<and> (\<forall>q t. d_owner e = Some (q, t) \<longrightarrow> t < l_token s') \<and> (\<forall>m. d_marker e = Some m \<longrightarrow> m < l_token s')"
          if "l_lock s' = Some e" for e
          using that lock_invD(7,8) [OF assms(1) \<open>l_lock s = Some d\<close>] by (fastforce simp: s')
      qed (simp_all add: s')
      then show ?thesis by (simp add: s'_def)
    qed
  qed
qed

lemma unmark_inv:
  assumes "lock_inv s" "l_pc s p = Unmarking m b"
  shows "lock_inv (unmark m (goto p Trying s))"
proof -
  have g: "p \<notin> set (l_gone s)" using not_gone [OF assms(1)] assms(2) by simp
  have mp: "marker_token (l_pc s p) = Some m" using assms(2) by simp
  show ?thesis
  proof (cases "\<exists>d. l_lock s = Some d \<and> d_marker d = Some m")
    case False
    then have "unmark m (goto p Trying s) = goto p Trying s" by (auto simp: unmark_def split: option.split)
    then show ?thesis using inv_goto [OF assms(1) g] by simp
  next
    case True
    then obtain d where d: "l_lock s = Some d" "d_marker d = Some m" by blast
    define s' where "s' = unmark m (goto p Trying s)"
    have s': "l_pc s' = (l_pc s)(p := Trying)" "l_gone s' = l_gone s" "l_token s' = l_token s"
      "l_lock s' = Some (d\<lparr>d_marker := None, d_mtime := l_now s\<rparr>)" "l_inos s' = l_inos s"
      "l_file s' = l_file s" "l_quarantine s' = l_quarantine s" "path_owner s' = path_owner s"
      by (simp_all add: s'_def unmark_def set_dir_def path_owner_def d)
    have t: "target j y (d\<lparr>d_marker := k, d_mtime := n\<rparr>) = target j y d" for j y k n by (simp add: target_def split: option.split)
    have dead: "dead_generation s' j y" if "dead_generation s j y" for j y
      using that d by (auto simp: dead_generation_def s' split: option.splits)
    have marked: "marked s' j y k" if "marked s j y k" "k \<noteq> m" for j y k
      using that d by (auto simp: marked_def s' t)
    have found: "found s' j y" if "found s j y" for j y
      using that d by (auto simp: found_def s' t)
    have other: "marker_token (l_pc s q) = Some k \<Longrightarrow> q \<noteq> p \<Longrightarrow> k \<noteq> m" for q k
      using lock_invD(5) [OF assms(1) mp] by blast
    have "lock_inv s'"
    proof (rule lock_invI [OF assms(1) s'(1,2) g])
      show "pc_ok s' q (l_pc s q)" if "q \<noteq> p" "pc_ok s q (l_pc s q)" for q
        using that dead marked found d other [of q]
        by (cases "l_pc s q") (auto simp: s'(2-8) s'(1) split: option.splits)
      show "d_ino e \<in> set (l_inos s') \<and> (\<forall>q t. d_owner e = Some (q, t) \<longrightarrow> t < l_token s') \<and> (\<forall>m. d_marker e = Some m \<longrightarrow> m < l_token s')"
        if "l_lock s' = Some e" for e
        using that lock_invD(7,8) [OF assms(1) d(1)] by (fastforce simp: s')
    qed (simp_all add: s')
    then show ?thesis by (simp add: s'_def)
  qed
qed

lemma remove_path_inv:
  assumes "lock_inv s" "l_pc s p = Removing t"
  shows "lock_inv (remove_path p s)"
proof -
  have g: "p \<notin> set (l_gone s)" using not_gone [OF assms(1)] assms(2) by simp
  have own: "owner_token (l_pc s p) = Some t" "path_owner s = Some (p, t)" using assms(2) lock_invD(1) [OF assms(1), of p] by simp_all
  obtain d where d: "l_lock s = Some d" "d_owner d = Some (p, t)" using own(2) unfolding path_owner_Some by blast
  define s' where "s' = remove_path p s"
  have s': "l_pc s' = (l_pc s)(p := Idle)" "l_gone s' = l_gone s" "l_token s' = l_token s" "l_lock s' = None" "l_inos s' = l_inos s"
    "l_file s' = l_file s" "l_quarantine s' = l_quarantine s" "path_owner s' = None"
    by (simp_all add: s'_def remove_path_def path_owner_def)
  have dead: "dead_generation s' j y" if "dead_generation s j y" for j y
    using that by (auto simp: dead_generation_def s' split: option.splits)
  have found: "\<not> (dead_generation s j x \<and> found s j x)" for j x
    using own d by (auto simp: dead_generation_def found_def target_def split: option.splits)
  have "lock_inv s'"
  proof (rule lock_invI [OF assms(1) s'(1,2) g])
    show "pc_ok s' q (l_pc s q)" if "q \<noteq> p" "pc_ok s q (l_pc s q)" for q
      using that dead found d own lock_invD(10) [OF assms(1) own(2), of q]
      by (cases "l_pc s q") (auto simp: s' marked_def split: option.splits)
  qed (simp_all add: s')
  then show ?thesis by (simp add: s'_def)
qed

lemma move_lock_inv:
  assumes "lock_inv s" "l_pc s p = Rename ino x m"
  shows "lock_inv (move_lock p ino x m s)"
proof -
  have g: "p \<notin> set (l_gone s)" using not_gone [OF assms(1)] assms(2) by simp
  have ok: "dead_generation s ino x" "marked s ino x m" "found s ino x" using lock_invD(1) [OF assms(1), of p] assms(2) by simp_all
  then obtain d where d: "l_lock s = Some d" "target ino x d" "d_marker d = Some m" by (auto simp: found_def marked_def)
  define s' where "s' = move_lock p ino x m s"
  have s': "l_pc s' = (l_pc s)(p := Verify ino x m)" "l_gone s' = l_gone s" "l_token s' = l_token s" "l_lock s' = None" "l_inos s' = l_inos s"
    "l_file s' = l_file s" "l_quarantine s' = (m, d) # l_quarantine s" "path_owner s' = None"
    by (simp_all add: s'_def move_lock_def path_owner_def d)
  have mp: "marker_token (l_pc s p) = Some m" using assms(2) by simp
  have other: "marker_token (l_pc s q) = Some k \<Longrightarrow> q \<noteq> p \<Longrightarrow> k \<noteq> m" for q k
    using lock_invD(5) [OF assms(1) mp] by blast
  have dead: "dead_generation s' j y" if "dead_generation s j y" for j y
    using that by (auto simp: dead_generation_def s' split: option.splits)
  have acts: "owner_token (l_pc s q) \<noteq> Some t" if "path_owner s = Some (q, t)" for q t
    using that ok(1) d by (auto simp: dead_generation_def target_def path_owner_def split: option.splits)
  have created: "\<not> (d_ino d = i \<and> d_owner d = None \<and> created_ino (l_pc s q) = Some i)" for i q
    using ok(1) d(2) by (auto simp: dead_generation_def target_def split: option.splits)
  have "lock_inv s'"
  proof (rule lock_invI [OF assms(1) s'(1,2) g])
    show "pc_ok s' q (l_pc s q)" if "q \<noteq> p" "pc_ok s q (l_pc s q)" for q
    proof -
      have "\<not> (marked s j y k \<and> found s j y)" if "marker_token (l_pc s q) = Some k" for j y k
        using other [OF that \<open>q \<noteq> p\<close>] d by (auto simp: marked_def found_def)
      moreover have "marked s' j y k" for j y k by (simp add: marked_def s')
      ultimately show ?thesis
        using that dead other [of q] acts [of q] created [of "d_ino d" q] d(1)
        by (cases "l_pc s q") (auto simp: s' split: option.splits)
    qed
    show "pc_ok s' p (Verify ino x m)" using d by (simp add: s')
  qed (use mp in \<open>simp_all add: s'\<close>)
  then show ?thesis by (simp add: s'_def)
qed

lemma verify_moved_inv:
  assumes "lock_inv s" "l_pc s p = Verify ino x m"
  shows "lock_inv (verify_moved p ino x m s)"
proof -
  have g: "p \<notin> set (l_gone s)" using not_gone [OF assms(1)] assms(2) by simp
  have mp: "marker_token (l_pc s p) = Some m" using assms(2) by simp
  obtain d where d: "map_of (l_quarantine s) m = Some d" "target ino x d" "d_marker d = Some m"
    using lock_invD(1) [OF assms(1), of p] assms(2) by auto
  have other: "marker_token (l_pc s q) = Some k \<Longrightarrow> q \<noteq> p \<Longrightarrow> k \<noteq> m" for q k
    using lock_invD(5) [OF assms(1) mp] by blast
  have same: "same_generation ino x (d_owner d) (d_ino d)"
    using d(2) by (auto simp: target_def same_generation_def split: option.splits)
  have q: "map_of (filter (\<lambda>q. fst q \<noteq> m) xs) k = map_of xs k" if "k \<noteq> m" for k and xs :: "(nat \<times> lock_dir) list"
    using that by (induction xs) auto
  define s' where "s' = goto p Trying (drop_quarantine m s)"
  have s': "l_pc s' = (l_pc s)(p := Trying)" "l_gone s' = l_gone s" "l_token s' = l_token s" "l_lock s' = l_lock s" "l_inos s' = l_inos s"
    "l_file s' = l_file s" "l_quarantine s' = filter (\<lambda>q. fst q \<noteq> m) (l_quarantine s)" "path_owner s' = path_owner s"
    by (simp_all add: s'_def drop_quarantine_def path_owner_def)
  have "lock_inv s'"
  proof (rule lock_invI [OF assms(1) s'(1,2) g])
    show "pc_ok s' r (l_pc s r)" if "r \<noteq> p" "pc_ok s r (l_pc s r)" for r
      by (rule pc_ok_frame [OF that(2)]) (use other that in \<open>auto simp: s' q split: if_splits\<close>)
    show "d_ino e \<in> set (l_inos s') \<and> (\<forall>q t. d_owner e = Some (q, t) \<longrightarrow> t < l_token s') \<and> (\<forall>m. d_marker e = Some m \<longrightarrow> m < l_token s')"
      if "l_lock s' = Some e" for e
      using that lock_invD(7,8,9) [OF assms(1), of e] by (auto simp: s')
  qed (simp_all add: s')
  then show ?thesis using d same by (simp add: verify_moved_def s'_def)
qed

text \<open>The operation of a holder: what it read is what is there when it writes.\<close>

lemma holding_inv:
  assumes "lock_inv s" "l_pc s p = Holding t f"
  shows "lock_inv (goto p (Holding t (Some (l_file s))) s)" "lock_inv (goto p (Releasing t) s)"
proof -
  have g: "p \<notin> set (l_gone s)" using not_gone [OF assms(1)] assms(2) by simp
  have "path_owner s = Some (p, t)" using lock_invD(1) [OF assms(1), of p] assms(2) by simp
  then show "lock_inv (goto p (Holding t (Some (l_file s))) s)" "lock_inv (goto p (Releasing t) s)"
    using inv_goto [OF assms(1) g] assms(2) by simp_all
qed

lemma rewrite_inv:
  assumes "lock_inv s" "l_pc s p = Holding t f"
  shows "lock_inv (goto p (Releasing t) (s\<lparr>l_file := v\<rparr>))"
proof -
  have g: "p \<notin> set (l_gone s)" using not_gone [OF assms(1)] assms(2) by simp
  have own: "path_owner s = Some (p, t)" using lock_invD(1) [OF assms(1), of p] assms(2) by simp
  define s' where "s' = goto p (Releasing t) (s\<lparr>l_file := v\<rparr>)"
  have s': "l_pc s' = (l_pc s)(p := Releasing t)" "l_gone s' = l_gone s" "l_token s' = l_token s" "l_lock s' = l_lock s" "l_inos s' = l_inos s"
    "l_quarantine s' = l_quarantine s" "path_owner s' = path_owner s"
    by (simp_all add: s'_def path_owner_def)
  have tok: "owner_token (l_pc s' r) = owner_token (l_pc s r)" "created_ino (l_pc s' r) = created_ino (l_pc s r)" for r
    by (simp_all add: s' assms(2))
  have dead: "dead_generation s' j y = dead_generation s j y" for j y
    unfolding dead_generation_def tok s'(3,4,5) by (rule refl)
  have eq: "marked s' j y m = marked s j y m" "found s' j y = found s j y" for j y m by (simp_all add: marked_def found_def s')
  have "lock_inv s'"
  proof (rule lock_invI [OF assms(1) s'(1,2) g])
    show "pc_ok s' q (l_pc s q)" if "q \<noteq> p" "pc_ok s q (l_pc s q)" for q
      using that own by (cases "l_pc s q") (auto simp: s' eq dead split: option.splits)
    show "d_ino e \<in> set (l_inos s') \<and> (\<forall>q t. d_owner e = Some (q, t) \<longrightarrow> t < l_token s') \<and> (\<forall>m. d_marker e = Some m \<longrightarrow> m < l_token s')"
      if "l_lock s' = Some e" for e
      using that lock_invD(7,8,9) [OF assms(1), of e] by (auto simp: s')
  qed (use assms(2) own in \<open>simp_all add: s'\<close>)
  then show ?thesis by (simp add: s'_def)
qed

lemma go_inv:
  assumes "lock_inv s" "prompt L s" "i \<notin> set (l_inos s)"
  shows "lock_inv (go L p i s)"
proof (cases "l_pc s p")
  case Idle
  then have g: "p \<notin> set (l_gone s)" using not_gone [OF assms(1)] by simp
  have "lock_inv (goto p Trying s)" using inv_goto [OF assms(1) g] by simp
  then have "lock_inv (begin_operation L p s)" by (rule lock_inv_frame) (use lock_invD(11) [OF \<open>lock_inv (goto p Trying s)\<close>] in \<open>simp_all add: begin_operation_def goto_def\<close>)
  then show ?thesis by (simp add: go_def Idle)
next
  case (Unmarking m b)
  have g: "p \<notin> set (l_gone (unmark m (goto p Trying s)))"
    using not_gone [OF assms(1)] Unmarking by (simp add: unmark_def set_dir_def split: option.split)
  note u = unmark_inv [OF assms(1) Unmarking]
  have "goto p Trying (unmark m s) = unmark m (goto p Trying s)" "retry p (unmark m s) = retry p (unmark m (goto p Trying s))"
    by (auto simp: goto_def unmark_def set_dir_def retry_def split: option.split)
  then show ?thesis using u inv_retry [OF u g] by (simp add: go_def Unmarking Let_def)
qed (use assms lock_invD(1) [OF assms(1), of p] in \<open>simp_all add: go_def mkdir_inv write_owner_inv holding_inv check_owned_inv remove_path_inv
    stat_lock_inv inspect_owner_inv write_marker_inv confirm_inv confirm_stat_inv move_lock_inv verify_moved_inv\<close>)

fun fresh_ino :: "'f lock_event \<Rightarrow> 'f locks \<Rightarrow> bool" where
  "fresh_ino (Go p i) s = (i \<notin> set (l_inos s))"
| "fresh_ino ev s = True"

lemma lock_step_inv:
  assumes "lock_inv s" "prompt L s" "fresh_ino ev s"
  shows "lock_inv (lock_step L ev s)"
proof (cases ev)
  case (Go p i)
  then show ?thesis using assms by (simp add: go_inv)
next
  case (Rewrite p f)
  then show ?thesis using assms(1) by (auto simp: rewrite_inv split: pc.split option.split)
next
  case (Finish p)
  then show ?thesis using assms(1) by (auto simp: holding_inv split: pc.split)
next
  case (OwnerWriteFails p)
  have "lock_inv (goto p (Releasing t) s)" if c: "l_pc s p = Created i t" for i t
  proof -
    have g: "p \<notin> set (l_gone s)" using not_gone [OF assms(1)] c by simp
    have "path_owner s = None" using lock_invD(1) [OF assms(1), of p] c by (auto simp: path_owner_def)
    then show ?thesis using inv_goto [OF assms(1) g] c by simp
  qed
  then show ?thesis using assms(1) by (auto simp: OwnerWriteFails split: pc.split)
next
  case (Crash p)
  show ?thesis
  proof (cases "p \<in> set (l_gone s)")
    case True
    then have "goto p Crashed s = s" using lock_invD(11) [OF assms(1) True] by (simp add: goto_def fun_upd_idem)
    then show ?thesis using assms(1) by (simp add: Crash)
  next
    case False
    then show ?thesis using inv_goto [OF assms(1) False] by (simp add: Crash)
  qed
next
  case (Gone p)
  have "lock_inv (s\<lparr>l_gone := p # l_gone s\<rparr>)" if "l_pc s p = Crashed"
    by (rule lock_inv_frame [OF assms(1)]) (use that lock_invD(11) [OF assms(1)] in auto)
  then show ?thesis using assms(1) by (simp add: Gone)
next
  case (Tick n)
  have "lock_inv (s\<lparr>l_now := k\<rparr>)" for k
    by (rule lock_inv_frame [OF assms(1)]) (use lock_invD(11) [OF assms(1)] in auto)
  then show ?thesis by (simp add: Tick)
qed

inductive lock_run :: "lock_options \<Rightarrow> 'f locks \<Rightarrow> 'f locks \<Rightarrow> bool" for L s0 where
  start: "lock_run L s0 s0"
| step: "lock_run L s0 s \<Longrightarrow> prompt L s \<Longrightarrow> fresh_ino ev s \<Longrightarrow> lock_run L s0 (lock_step L ev s)"

lemma lock_start_inv: "lock_inv (lock_start f)"
  by (simp add: lock_inv_def lock_start_def tokens_ok_def)

lemma lock_run_inv: "lock_run L s0 s \<Longrightarrow> lock_inv s0 \<Longrightarrow> lock_inv s"
  by (induction rule: lock_run.induct) (simp_all add: lock_step_inv)

subsection \<open>Properties\<close>

text \<open>
  The roster is rewritten by one process at a time: whatever processes start, crash,
  time out and take over the lock of a dead one, two never hold the lock together, and a
  process that has read the roster finds it as it read it until it writes. This needs that a
  live process does not stand still for the time of a stale lock between creating the
  directory and naming its owner, and that inodes are not given out twice.
\<close>

lemma roster_lock_excludes:
  assumes "lock_run L (lock_start f) s" "l_pc s p = Holding t x"
  shows "(l_pc s q = Holding u y \<longrightarrow> p = q) \<and> (\<forall>v. x = Some v \<longrightarrow> l_file s = v)"
proof -
  have i: "lock_inv s" by (rule lock_run_inv [OF assms(1) lock_start_inv])
  have p: "path_owner s = Some (p, t)" "x = Some v \<Longrightarrow> v = l_file s" for v
    using lock_invD(1) [OF i, of p] assms(2) by (auto split: option.splits)
  have "path_owner s = Some (q, u)" if "l_pc s q = Holding u y" using lock_invD(1) [OF i, of q] that by simp
  then show ?thesis using p by auto
qed

lemma goto_goto [simp]: "goto p a (goto p b s) = goto p a s"
  by (simp add: goto_def)

lemma goto_same: "l_pc s p = c \<Longrightarrow> goto p c s = s"
  by (auto simp: goto_def)

lemma goto_fields [simp]:
  "l_pc (goto p c s) q = (if q = p then c else l_pc s q)" "l_lock (goto p c s) = l_lock s" "l_token (goto p c s) = l_token s"
  "l_now (goto p c s) = l_now s" "l_gone (goto p c s) = l_gone s" "l_quarantine (goto p c s) = l_quarantine s"
  "l_file (goto p c s) = l_file s" "l_inos (goto p c s) = l_inos s" "l_deadline (goto p c s) = l_deadline s"
  by (simp_all add: goto_def)

text \<open>
  The lock of a dead process is taken over: a process that finds a stale lock whose owner
  is gone, or has none, and that is left alone, holds the lock after its own steps; what it
  moved away is removed.
\<close>

definition lock_play :: "lock_options \<Rightarrow> 'f lock_event list \<Rightarrow> 'f locks \<Rightarrow> 'f locks" where
  "lock_play L evs s = foldl (\<lambda>s ev. lock_step L ev s) s evs"

lemma lock_play_simps [simp]:
  "lock_play L [] s = s" "lock_play L (ev # evs) s = lock_play L evs (lock_step L ev s)"
  by (simp_all add: lock_play_def)

lemma takeover_steps:
  "l_lock u = Some d \<Longrightarrow> go L p i (goto p Trying u) = goto p Checking u"
  "l_lock u = Some d \<Longrightarrow> l_now u - d_mtime d \<ge> lockStaleMs L \<Longrightarrow> go L p i (goto p Checking u) = goto p (Inspect (d_ino d)) u"
  "l_lock u = Some d \<Longrightarrow> (case d_owner d of Some (q, t) \<Rightarrow> q \<in> set (l_gone u) | None \<Rightarrow> True) \<Longrightarrow>
     go L p i (goto p (Inspect k) u) = goto p (Mark k (d_owner d)) u"
  "l_lock u = Some d \<Longrightarrow> d_marker d = None \<Longrightarrow> go L p i (goto p (Mark k x) u) =
     goto p (Confirm k x (l_token u)) (u\<lparr>l_lock := Some (d\<lparr>d_marker := Some (l_token u), d_mtime := l_now u\<rparr>), l_token := Suc (l_token u)\<rparr>)"
  "l_lock u = Some d \<Longrightarrow> go L p i (goto p (Confirm k x m) u) = goto p (Confirmed k x m (d_owner d)) u"
  "l_lock u = Some d \<Longrightarrow> (case d_owner d of Some (q, t) \<Rightarrow> q \<in> set (l_gone u) | None \<Rightarrow> True) \<Longrightarrow>
     go L p i (goto p (Confirmed (d_ino d) (d_owner d) m (d_owner d)) u) = goto p (Rename (d_ino d) (d_owner d) m) u"
  "l_lock u = Some d \<Longrightarrow> go L p i (goto p (Rename k x m) u) = goto p (Verify k x m) (u\<lparr>l_lock := None, l_quarantine := (m, d) # l_quarantine u\<rparr>)"
  "l_quarantine u = (m, d) # qs \<Longrightarrow> d_marker d = Some m \<Longrightarrow>
     go L p i (goto p (Verify (d_ino d) (d_owner d) m) u) = goto p Trying (drop_quarantine m u)"
  "l_lock u = None \<Longrightarrow> go L p i (goto p Trying u) = goto p (Created i (l_token u)) ((new_dir i u)\<lparr>l_token := Suc (l_token u)\<rparr>)"
  "l_lock u = Some d \<Longrightarrow> go L p i (goto p (Created k t) u) = goto p (Holding t None) (u\<lparr>l_lock := Some (d\<lparr>d_owner := Some (p, t), d_mtime := l_now u\<rparr>)\<rparr>)"
  by (auto simp: go_def try_mkdir_def stat_lock_def inspect_owner_def path_owner_def pid_alive_def Let_def write_marker_def set_dir_def
      confirm_stat_def same_generation_def move_lock_def verify_moved_def new_dir_def write_owner_def goto_def drop_quarantine_def
      split: option.splits)

lemma dead_lock_taken_over:
  assumes "l_pc s p = Trying" "l_lock s = Some d" "l_now s - d_mtime d \<ge> lockStaleMs L" "d_marker d = None"
    "case d_owner d of Some (q, t) \<Rightarrow> q \<in> set (l_gone s) | None \<Rightarrow> True" "s' = lock_play L (replicate 10 (Go p i)) s"
  shows "l_pc s' p = Holding (Suc (l_token s)) None \<and>
    l_lock s' = Some \<lparr>d_ino = i, d_mtime = l_now s, d_owner = Some (p, Suc (l_token s)), d_marker = None\<rparr> \<and>
    l_file s' = l_file s \<and> fst ` set (l_quarantine s') \<subseteq> fst ` set (l_quarantine s)"
proof -
  let ?m = "l_token s" and ?d = "d\<lparr>d_marker := Some (l_token s), d_mtime := l_now s\<rparr>"
  let ?u = "s\<lparr>l_lock := Some ?d, l_token := Suc ?m\<rparr>"
  let ?v = "?u\<lparr>l_lock := None, l_quarantine := (?m, ?d) # l_quarantine ?u\<rparr>"
  let ?w = "drop_quarantine ?m ?v"
  let ?x = "(new_dir i ?w)\<lparr>l_token := Suc (l_token ?w)\<rparr>"
  let ?e = "\<lparr>d_ino = i, d_mtime = l_now s, d_owner = None, d_marker = None\<rparr>"
  have s: "s = goto p Trying s" using goto_same [of s p Trying] assms(1) by simp
  have w: "l_lock ?w = None" "l_token ?w = Suc ?m" "l_now ?w = l_now s" "l_file ?w = l_file s"
    by (simp_all add: drop_quarantine_def)
  have x: "l_lock ?x = Some ?e" using w by (simp add: new_dir_def)
  note g = takeover_steps
  have "go L p i s = goto p Checking s" using g(1) [OF assms(2), of L p i] s by simp
  moreover have "go L p i (goto p Checking s) = goto p (Inspect (d_ino d)) s" by (rule g(2) [OF assms(2,3)])
  moreover have "go L p i (goto p (Inspect (d_ino d)) s) = goto p (Mark (d_ino d) (d_owner d)) s" by (rule g(3) [OF assms(2,5)])
  moreover have "go L p i (goto p (Mark (d_ino d) (d_owner d)) s) = goto p (Confirm (d_ino d) (d_owner d) ?m) ?u" by (rule g(4) [OF assms(2,4)])
  moreover have "go L p i (goto p (Confirm (d_ino d) (d_owner d) ?m) ?u) = goto p (Confirmed (d_ino d) (d_owner d) ?m (d_owner d)) ?u"
    using g(5) [of ?u ?d L p i "d_ino d" "d_owner d" ?m] by simp
  moreover have "go L p i (goto p (Confirmed (d_ino d) (d_owner d) ?m (d_owner d)) ?u) = goto p (Rename (d_ino d) (d_owner d) ?m) ?u"
    using g(6) [of ?u ?d L p i ?m] assms(5) by (simp split: option.splits)
  moreover have "go L p i (goto p (Rename (d_ino d) (d_owner d) ?m) ?u) = goto p (Verify (d_ino d) (d_owner d) ?m) ?v"
    using g(7) [of ?u ?d L p i "d_ino d" "d_owner d" ?m] by simp
  moreover have "go L p i (goto p (Verify (d_ino d) (d_owner d) ?m) ?v) = goto p Trying ?w"
    using g(8) [of ?v ?m ?d "l_quarantine s" L p i] by simp
  moreover have "go L p i (goto p Trying ?w) = goto p (Created i (Suc ?m)) ?x" using g(9) [OF w(1), of L p i] w(2) by simp
  moreover have "go L p i (goto p (Created i (Suc ?m)) ?x) =
      goto p (Holding (Suc ?m) None) (?x\<lparr>l_lock := Some (?e\<lparr>d_owner := Some (p, Suc ?m), d_mtime := l_now ?x\<rparr>)\<rparr>)"
    by (rule g(10) [OF x])
  ultimately have e: "s' = goto p (Holding (Suc ?m) None) (?x\<lparr>l_lock := Some (?e\<lparr>d_owner := Some (p, Suc ?m), d_mtime := l_now ?x\<rparr>)\<rparr>)"
    unfolding assms(6) by (simp only: eval_nat_numeral BitM.simps replicate.simps lock_play_simps lock_step.simps)
  show ?thesis unfolding e using w by (auto simp: new_dir_def drop_quarantine_def)
qed

text \<open>
  A reclaimer that dies between writing its marker and moving the directory leaves a lock
  nobody can take: the marker belongs to no process, and nobody removes it.
\<close>

definition wedged :: "'f locks \<Rightarrow> bool" where
  "wedged s \<longleftrightarrow> (\<exists>d q t m. l_lock s = Some d \<and> d_owner d = Some (q, t) \<and> d_marker d = Some m \<and> t < l_token s \<and> m < l_token s \<and>
     (\<forall>p. owner_token (l_pc s p) \<noteq> Some t \<and> marker_token (l_pc s p) \<noteq> Some m))"

definition stuck :: "lock_dir \<Rightarrow> nat \<Rightarrow> nat \<Rightarrow> nat \<Rightarrow> 'f locks \<Rightarrow> bool" where
  "stuck d q t m s \<longleftrightarrow> l_lock s = Some d \<and> d_owner d = Some (q, t) \<and> d_marker d = Some m \<and> t < l_token s \<and> m < l_token s \<and>
     (\<forall>p. owner_token (l_pc s p) \<noteq> Some t \<and> marker_token (l_pc s p) \<noteq> Some m)"

lemma stuck_goto: "stuck d q t m s \<Longrightarrow> owner_token c \<noteq> Some t \<Longrightarrow> marker_token c \<noteq> Some m \<Longrightarrow> stuck d q t m (goto p c s)"
  by (simp add: stuck_def)

lemma stuck_retry: "stuck d q t m s \<Longrightarrow> stuck d q t m (retry p s)"
  by (simp add: retry_def stuck_goto)

lemma stuck_unmark: "stuck d q t m s \<Longrightarrow> n \<noteq> m \<Longrightarrow> unmark n s = s"
  by (auto simp: stuck_def unmark_def)

lemma stuck_frame:
  "stuck d q t m s \<Longrightarrow> l_lock s' = l_lock s \<Longrightarrow> l_pc s' = l_pc s \<Longrightarrow> l_token s' = l_token s \<Longrightarrow> stuck d q t m s'"
  by (simp add: stuck_def)

text \<open>In a lock nobody owns and nobody reclaims, every process stays out.\<close>

lemma stuck_go:
  assumes inv: "lock_inv s" and st: "stuck d q t m s"
  shows "stuck d q t m (go L p i s)"
proof -
  have l: "l_lock s = Some d" "d_owner d = Some (q, t)" "d_marker d = Some m" "path_owner s = Some (q, t)"
    "owner_token (l_pc s p) \<noteq> Some t" "marker_token (l_pc s p) \<noteq> Some m"
    using st by (simp_all add: stuck_def path_owner_def)
  note pc = lock_invD(1) [OF inv, of p]
  note go = stuck_goto [OF st] stuck_retry [OF st]
  show ?thesis
  proof (cases "l_pc s p")
    case Idle
    have "stuck d q t m (s\<lparr>l_deadline := x\<rparr>)" for x by (rule stuck_frame [OF st]) simp_all
    then show ?thesis by (simp add: go_def Idle begin_operation_def stuck_goto)
  next
    case (Rename k x n)
    with pc obtain e where "l_lock s = Some e" "target k x e" "d_marker e = Some n" by (auto simp: found_def marked_def)
    with l Rename show ?thesis by simp
  next
    case (Confirmed k x n c)
    with l go show ?thesis by (simp add: go_def confirm_stat_def)
  next
    case (Unmarking n b)
    with l have "unmark n s = s" by (intro stuck_unmark [OF st]) simp
    with Unmarking go show ?thesis by (simp add: go_def Let_def)
  next
    case (Verify k x n)
    have "stuck d q t m (drop_quarantine n s)" by (rule stuck_frame [OF st]) (simp_all add: drop_quarantine_def)
    moreover have "n \<noteq> m" using Verify l(6) by simp
    ultimately show ?thesis using go by (simp add: go_def Verify verify_moved_def stuck_goto split: option.split)
  qed (use l go pc st in \<open>auto simp: go_def try_mkdir_def check_owned_def stat_lock_def inspect_owner_def write_marker_def Let_def
        split: option.splits\<close>)
qed

lemma stuck_out:
  assumes "lock_inv s" "stuck d q t m s"
  shows "l_pc s p \<noteq> Holding v x"
proof
  assume h: "l_pc s p = Holding v x"
  with lock_invD(1) [OF assms(1), of p] have "path_owner s = Some (p, v)" by simp
  moreover have "path_owner s = Some (q, t)" using assms(2) by (simp add: stuck_def path_owner_def)
  ultimately have "owner_token (l_pc s p) = Some t" using h by simp
  with assms(2) show False unfolding stuck_def by blast
qed

lemma stuck_step: "lock_inv s \<Longrightarrow> stuck d q t m s \<Longrightarrow> stuck d q t m (lock_step L ev s)"
proof (cases ev)
  case (OwnerWriteFails p)
  assume a: "lock_inv s" "stuck d q t m s"
  then show ?thesis using lock_invD(1) [OF a(1), of p] by (auto simp: OwnerWriteFails stuck_def split: pc.split)
next
  case (Rewrite p f)
  assume a: "lock_inv s" "stuck d q t m s"
  show ?thesis using a(2) stuck_out [OF a, of p] by (auto simp: Rewrite split: pc.split option.split)
next
  case (Finish p)
  assume a: "lock_inv s" "stuck d q t m s"
  show ?thesis using a(2) stuck_out [OF a, of p] by (auto simp: Finish split: pc.split)
qed (auto simp: stuck_go stuck_goto intro: stuck_frame)

lemma wedged_for_ever:
  assumes "lock_run L (lock_start f) s" "wedged s" "lock_run L s s'"
  shows "wedged s' \<and> l_file s' = l_file s \<and> (\<forall>p t x. l_pc s' p \<noteq> Holding t x)"
proof -
  obtain d q t m where st: "stuck d q t m s" using assms(2) by (auto simp: wedged_def stuck_def)
  have i: "lock_inv s" by (rule lock_run_inv [OF assms(1) lock_start_inv])
  note out = stuck_out
  have "lock_run L s u \<Longrightarrow> lock_inv u \<and> stuck d q t m u \<and> l_file u = l_file s" for u
  proof (induction rule: lock_run.induct)
    case (step u ev)
    then have u: "lock_inv u" "stuck d q t m u" "l_file u = l_file s" by auto
    have "l_file (lock_step L ev u) = l_file u"
      using out [OF u(1,2)]
      by (cases ev) (auto simp: goto_def go_def begin_operation_def try_mkdir_def new_dir_def write_owner_def set_dir_def check_owned_def
        remove_path_def stat_lock_def retry_def inspect_owner_def write_marker_def confirm_stat_def unmark_def move_lock_def verify_moved_def
        drop_quarantine_def restore_mkdir_def restore_marker_def restore_owner_def restore_clear_def Let_def split: pc.split option.split)
    then show ?case using lock_step_inv [OF u(1) step.hyps(2,3)] stuck_step [OF u(1,2)] u(3) by simp
  qed (use i st in simp)
  with assms(3) have u: "lock_inv s'" "stuck d q t m s'" "l_file s' = l_file s" by blast+
  then have "wedged s'" unfolding wedged_def stuck_def by blast
  with out [OF u(1,2)] u(3) show ?thesis by blast
qed

lemma reclaimer_crash_wedges:
  "wedged (lock_play lock_defaults [Go 1 0, Go 1 7, Go 1 0, Crash 1, Gone 1, Tick 30000, Go 2 0, Go 2 0, Go 2 0, Go 2 0, Go 2 0, Crash 2] (lock_start f))"
  by (simp add: wedged_def lock_start_def lock_defaults_def go_def begin_operation_def try_mkdir_def new_dir_def write_owner_def set_dir_def
      stat_lock_def inspect_owner_def path_owner_def pid_alive_def write_marker_def goto_def Let_def)

text \<open>
  A live process that stands still for the stale time between creating the directory and naming its
  owner loses it, and then writes its name into the directory of the process that took over:
  two processes hold the lock.
\<close>

lemma stalled_creator_shares:
  "let s = lock_play lock_defaults ([Go 1 0, Go 1 7, Tick 30000] @ replicate 11 (Go 2 8) @ [Go 1 0]) (lock_start ''a'') in
   l_pc s 1 = Holding 0 None \<and> l_pc s 2 = Holding 2 None"
  by code_simp

text \<open>The exclusion is about runs that exist.\<close>

lemma holder_reachable:
  "\<exists>s. lock_run lock_defaults (lock_start f) s \<and> l_pc s 1 = Holding 0 (Some f)"
proof -
  let ?s1 = "goto 1 Trying ((lock_start f)\<lparr>l_deadline := (\<lambda>_. 0)(1 := 2000)\<rparr>)"
  let ?s2 = "goto 1 (Created 7 0) ((new_dir 7 ?s1)\<lparr>l_token := 1\<rparr>)"
  let ?s3 = "goto 1 (Holding 0 None) (set_dir (\<lambda>d. d\<lparr>d_owner := Some (1, 0)\<rparr>) ?s2)"
  let ?s4 = "goto 1 (Holding 0 (Some f)) ?s3"
  have s1: "lock_step lock_defaults (Go 1 0) (lock_start f) = ?s1"
    by (simp add: go_def begin_operation_def lock_start_def lock_defaults_def)
  have s2: "lock_step lock_defaults (Go 1 7) ?s1 = ?s2" by (simp add: go_def try_mkdir_def lock_start_def)
  have s3: "lock_step lock_defaults (Go 1 0) ?s2 = ?s3" by (simp add: go_def write_owner_def lock_start_def new_dir_def)
  have s4: "lock_step lock_defaults (Go 1 0) ?s3 = ?s4" by (simp add: go_def lock_start_def new_dir_def set_dir_def)
  have p: "prompt lock_defaults (lock_start f)" "prompt lock_defaults ?s1" "prompt lock_defaults ?s2" "prompt lock_defaults ?s3"
    by (auto simp: prompt_def lock_start_def new_dir_def lock_defaults_def set_dir_def split: if_splits)
  have "lock_run lock_defaults (lock_start f) ?s1" using lock_run.step [OF lock_run.start p(1), of "Go 1 0"] s1 by (simp add: lock_start_def)
  then have "lock_run lock_defaults (lock_start f) ?s2" using lock_run.step [OF _ p(2), of "lock_start f" "Go 1 7"] s2 by (simp add: lock_start_def)
  then have "lock_run lock_defaults (lock_start f) ?s3" using lock_run.step [OF _ p(3), of "lock_start f" "Go 1 0"] s3 by (simp add: lock_start_def new_dir_def)
  then have "lock_run lock_defaults (lock_start f) ?s4" using lock_run.step [OF _ p(4), of "lock_start f" "Go 1 0"] s4 by (simp add: lock_start_def new_dir_def set_dir_def)
  then show ?thesis by (intro exI [of _ ?s4]) simp
qed

end
