(* ===== verification/Spec2Isabelle.thy ===== *)
theory Spec2Isabelle imports BrokerRemote Election SessionPeer SessionVisibility Coordinator OwnerChannel RelayTransport SelfRevoke Pairing FleetProperties McpInbox RosterLock
begin

text \<open>
  Outpost Pi connects coding agents and the phones of their owners. The program verified
  here is its extension (\<open>pi-extension/src\<close>, TypeScript); all file names below are relative to
  that directory.

  \<^bold>\<open>The parts of the program and how they interact.\<close>

  \<^item> The agents of one machine form a network around one leader. \<open>leader_election\<close> decides by
  binding a socket path who leads; the leader runs a \<open>Broker\<close>, every agent a \<open>SessionPeer\<close>
  that registers on it and exchanges envelopes, one JSON text per line.
  \<^item> Several machines of one owner are joined through a relay. The broker asks its remote
  router, \<open>BrokerRemote\<close>, first; that knows the sibling machines from the signed membership
  lists (\<open>mesh/\<close>) and prefixes names with the label of a machine.
  \<^item> Phones reach a session through the relay too. The \<open>RelayTransport\<close> keeps the connection
  and dispatches its lines; the \<open>OwnerMultiplexer\<close> keeps one channel per paired owner;
  a \<open>SecurePeerChannel\<close> seals and opens the frames (\<open>secure_channel\<close>) and keeps its sequence
  numbers in the roster of owners (\<open>pairing/storage\<close>), which every process of the machine shares
  under a lock. A new owner is paired with the token of a QR code.
  \<^item> What a phone sees of a session is a list of facts: the turn (\<open>turn_state\<close>), the transcript
  facts with their durable codec and log, the projection of the host's own session into them, and
  the history built from them. The wire protocol and its session gate decide which messages of
  a phone are acted on; the runtime coordinator decides which instance of the extension acts.
  \<^item> Unattended agents are daemons: a supervisor keeps their processes, answers
  the command line on a control socket, restarts what crashes and fires scheduled prompts.
  \<^item> An agent that is not a Pi session joins through the MCP server, with an inbox and a policy
  for waking the agent.

  \<^bold>\<open>How the code is rendered.\<close> A class is a record of its fields, an operation a function from the
  state before to the state after; what it writes outside (lines, frames, timers, effects) is
  recorded in the state, in order. A \<open>throw\<close> is the left side of a sum or \<open>None\<close>. A \<open>Map\<close> or \<open>Set\<close>
  is an association list or a list without repetitions, in insertion order, as iteration
  sees it. An operation that awaits is cut at the awaits: each part is a definition of its own, and
  so is every timer, socket event and promise that settles, so that runs can interleave them in any
  order. Objects that several parts share are numbers into a store. A string is a list of
  characters below 256; where a text is encoded it is taken as text of such characters. Numbers are
  mathematical integers, or the \<open>js\<close> values of \<open>Prelude\<close> where the code checks them; a
  sequence number is bounded at \<open>2 ^ 64 - 1\<close> where the code bounds it.

  What is not in the repository is an argument: the cipher, the hashes, the key derivation, the
  key agreement and the signatures (with the laws the code relies on as named hypotheses, which an
  instance in the same theory satisfies), random identifiers, the clock, \<open>localeCompare\<close>,
  \<open>Date.parse\<close>, real paths, the host's session manager and its answers, the answers of the
  relay, the failures of the file system, and the cron engine.

  \<^bold>\<open>The theories.\<close>

  \<^item> \<open>Prelude\<close>, \<open>Json\<close>, \<open>Bytes\<close>: JavaScript values, ordered maps, \<open>JSON.stringify\<close> and \<open>JSON.parse\<close>,
  Base64, little-endian integers and UTF-8, with the lemmas every other theory draws on
  (printing and parsing are inverse on printable values).
  \<^item> \<open>Names\<close> (\<open>session/local_config.ts\<close>, address helpers), \<open>Envelope\<close> (\<open>session/envelope.ts\<close>),
  \<open>Framing\<close> (the line buffers): the locale \<open>line_codec\<close> says what a line protocol promises and is
  interpreted on the envelopes.
  \<^item> \<open>Broker\<close> (\<open>session/broker.ts\<close>), \<open>BrokerRemote\<close> (\<open>session/broker_remote.ts\<close>): registry, routing,
  acknowledgements, siblings, relayed envelopes. The locale \<open>remote_router\<close> is the broker's
  interface to its router and is interpreted on the adapter. Shown: the registry invariant,
  delivery once and acknowledged, no speaking for another peer or machine, the round trip
  between two machines.
  \<^item> \<open>SessionPeer\<close> (\<open>session/peer.ts\<close>), \<open>Election\<close> (\<open>session/leader_election.ts\<close>, \<open>cwd_lock.ts\<close>,
  \<open>ipc.ts\<close>): every promise is settled once, what leaving does and does not settle, one leader.
  \<^item> \<open>TurnState\<close> (\<open>session/turn_state.ts\<close>), \<open>Transcript\<close> (\<open>transcript_event.ts\<close>,
  \<open>durable_transcript_event.ts\<close>, \<open>transcript_event_log.ts\<close>), \<open>TranscriptHistory\<close>
  (\<open>transcript_projection.ts\<close>): convergence of turns, visible facts are durable, the codec's round
  trip, bounded history, replay after a restart, and how the file's facts win over
  facts guessed from the host's messages.
  \<^item> \<open>RemoteSession\<close>, \<open>SessionProjection\<close>, \<open>MeshIngress\<close>, \<open>SessionVisibility\<close>
  (\<open>session/remote_session.ts\<close>, \<open>subagent_gate.ts\<close>, \<open>peer_inventory.ts\<close>,
  \<open>sdk_session_projection.ts\<close>): the host's session as the extension sees it; the accounting of
  messages that wait for the agent in every interleaving; when the history answer is a frame
  the receiver accepts.
  \<^item> \<open>Protocol\<close> (\<open>protocol/\<close>), \<open>RelayIngress\<close> (\<open>protocol/relay_ingress.ts\<close>), \<open>RelayTransport\<close>
  (\<open>extension/relay_transport.ts\<close>), \<open>Coordinator\<close> (\<open>extension/runtime_coordinator.ts\<close>): validators,
  session scope, bounded dispatch, retries, authority over the phone binding.
  \<^item> \<open>SecureFrame\<close> (\<open>transport/secure_channel.ts\<close>), \<open>PeerStore\<close> and \<open>RosterLock\<close>
  (\<open>pairing/storage.ts\<close>), \<open>OwnerChannel\<close> (\<open>transport/peer_channel.ts\<close>), \<open>OwnerMultiplexer\<close>
  and \<open>Pairing\<close> (\<open>extension/owner_multiplexer.ts\<close>, \<open>pairing/qr.ts\<close>): authentic delivery at most
  once, sequences never reused, bounded queues, the registry of owners, catching up after being
  offline, pairing with both proofs.
  \<^item> \<open>MeshMembership\<close>, \<open>SelfRevoke\<close> (\<open>mesh/\<close>): canonical JSON, signed lists, labels, revocation.
  \<^item> \<open>DaemonFiles\<close>, \<open>RpcChild\<close>, \<open>Supervisor\<close>, \<open>Fleet\<close>, \<open>FleetProperties\<close> (\<open>daemon/\<close>): registries,
  schedules, control protocol, processes, and what the supervisor keeps true of its fleet.
  \<^item> \<open>McpInbox\<close> (\<open>mcp/inbox.ts\<close>, \<open>mcp/wake.ts\<close>, parts of \<open>mcp/mesh_server.ts\<close>): the bounded inbox
  keeps the newest messages, and a wake is not lost unless the clock ticks between two
  readings of one handling.

  \<^bold>\<open>Restrictions that matter.\<close> What leaving a network settles is stated for as long as no election
  answers, because a join in flight is not cancelled. The supervisor's guarantees are for orderly
  use: requests overlap freely, except for an unregistration behind a waiting restart of the
  same child, a shutdown while a restart waits and a request after the shutdown began; lemmas
  show what the code does in each of these (a process is lost). That a stop is final is stated while no
  restart or unregistration waits for the daemon and nobody, schedules included, asks for a start.
  An owner that comes back gets everything only if its channel takes the whole flush, and the
  statement says what it gets otherwise. Labels agree when the owners' nicknames are consistent. The
  roster's lock excludes as long as no creator stalls between making the directory and
  writing its owner file for longer than the stale time, and inodes are not used twice.

  \<^bold>\<open>Bounds and fuel.\<close> The limits of the code (queue lengths, bytes, timeouts, attempts) are
  constants of the model with the code's values. Recursion is structural or has a measure, with
  one exception: the JSON parser takes fuel and is started with twice the length of its
  input plus one; \<open>json_parse_fuel\<close> shows that more fuel never changes the result.

  \<^bold>\<open>Not modelled.\<close> The glue to the host's extension interface, the command line and the terminal
  interface (\<open>index.ts\<close>, \<open>extension/command_surface/\<close>, \<open>extension/composition_root.ts\<close>, \<open>ui/\<close>,
  \<open>session/tools.ts\<close>, the wizards); the installation of services and the socket clients of the
  supervisor (\<open>daemon/install.ts\<close>, \<open>daemon/client.ts\<close>, \<open>bin/\<close>); the web socket clients
  (\<open>transport/relay_client.ts\<close>, \<open>pi_forward_client.ts\<close>), whose events are inputs of the runs; the
  composition of a node (\<open>session/mesh_node.ts\<close>, \<open>bridge.ts\<close>); the handlers of phone actions
  and the file side of uploads (\<open>actions/\<close>); the key files of \<open>pairing/storage.ts\<close> and the plain channel of
  \<open>transport/peer_channel.ts\<close>; telemetry, audit and debug logs; the SIGKILL timer of a stopped child
  and process handling on Windows. The phone app, the cockpit and the relay server are other programs in other languages.
\<close>

end
